(* ===== verification/Prelude.thy ===== *)
theory Prelude
  imports Main "HOL-Library.Word" "HOL-Library.Monad_Syntax"
begin

text \<open>
  Shared vocabulary of the development: the machine integer types of
  \<^verbatim>\<open>lib/libcflat.h\<close>, the outcome of C code that may never come back to its caller
  (\<open>None\<close>: a failed \<^verbatim>\<open>assert\<close>, \<^verbatim>\<open>abort\<close>, an endless loop or a spin on a lock that is
  already held), alignment of addresses, and the generic facts on lists, options and words the
  components share.
\<close>

unbundle bit_operations_syntax

section \<open>Machine integers\<close>

type_synonym u8 = "8 word"
type_synonym u16 = "16 word"
type_synonym u32 = "32 word"
type_synonym u64 = "64 word"

named_theorems align_simps \<open>alignment and page arithmetic\<close>
named_theorems mem_simps \<open>loads after stores\<close>
named_theorems c_defs \<open>definitions of small C helpers and macros\<close>

section \<open>Assertions and spin locks\<close>

text \<open>\<^verbatim>\<open>assert(cond)\<close> and \<^verbatim>\<open>assert_msg\<close>: a false condition prints, dumps the stack and
  calls \<^verbatim>\<open>abort\<close>, so control does not return.\<close>

definition c_assert :: "bool \<Rightarrow> unit option" where
  "c_assert c = (if c then Some () else None)"

text \<open>\<^verbatim>\<open>spin_lock\<close> exchanges the lock word with 1 until it reads 0: on the only running
  processor a lock that is held is never released, so the call does not return.\<close>

definition spin_lock :: "u32 \<Rightarrow> u32 option" where
  "spin_lock v = (if v \<noteq> 0 then None else Some 1)"

definition spin_unlock :: "u32 \<Rightarrow> u32" where
  "spin_unlock v = 0"

lemma c_assert_bind [simp]: "(c_assert c \<bind> f) = (if c then f () else None)"
  by (simp add: c_assert_def)

lemma c_assert_Some [simp]: "c_assert c = Some u \<longleftrightarrow> c"
  by (simp add: c_assert_def)

lemma spin_lock_free [simp]: "spin_lock 0 = Some 1"
  by (simp add: spin_lock_def)

lemma spin_unlock_free [simp]: "spin_unlock v = 0"
  by (simp add: spin_unlock_def)

section \<open>Macros of libcflat.h and bitops.h\<close>

text \<open>\<^verbatim>\<open>ALIGN(x, a)\<close> on 64-bit values, \<^verbatim>\<open>IS_ALIGNED\<close>, \<^verbatim>\<open>is_power_of_2\<close>.\<close>

definition ALIGN_MASK :: "u64 \<Rightarrow> u64 \<Rightarrow> u64" where
  "ALIGN_MASK x msk = (x + msk) AND NOT msk"

definition ALIGN :: "u64 \<Rightarrow> u64 \<Rightarrow> u64" where
  "ALIGN x a = ALIGN_MASK x (a - 1)"

definition IS_ALIGNED :: "u64 \<Rightarrow> u64 \<Rightarrow> bool" where
  "IS_ALIGNED x a \<longleftrightarrow> x AND (a - 1) = 0"

definition is_power_of_2 :: "u64 \<Rightarrow> bool" where
  "is_power_of_2 n \<longleftrightarrow> n \<noteq> 0 \<and> n AND (n - 1) = 0"

text \<open>\<^verbatim>\<open>GENMASK_ULL(h, l)\<close>: the bits \<open>l\<close> to \<open>h\<close> of a 64-bit word.\<close>

definition GENMASK_ULL :: "nat \<Rightarrow> nat \<Rightarrow> u64" where
  "GENMASK_ULL h l = push_bit l (NOT 0) AND drop_bit (64 - 1 - h) (NOT 0)"

lemma bit_GENMASK_ULL: "h < 64 \<Longrightarrow> bit (GENMASK_ULL h l) n \<longleftrightarrow> l \<le> n \<and> n \<le> h"
  by (auto simp: GENMASK_ULL_def bit_simps)

section \<open>Aligned addresses\<close>

definition aligned :: "nat \<Rightarrow> u64 \<Rightarrow> bool" where
  "aligned n a \<longleftrightarrow> take_bit n a = 0"

lemma aligned_0 [simp]: "aligned n 0"
  by (simp add: aligned_def)

lemma aligned_iff_mod: "aligned n a \<longleftrightarrow> unat a mod 2 ^ n = 0"
proof -
  have "aligned n a \<longleftrightarrow> unat (take_bit n a) = 0"
    by (simp add: aligned_def unat_eq_zero)
  also have "unat (take_bit n a) = unat a mod 2 ^ n"
    by (simp add: unsigned_take_bit_eq flip: take_bit_eq_mod)
  finally show ?thesis .
qed

lemma unat_lt_2_64 [simp]: "unat (a::u64) < 18446744073709551616"
  using unsigned_less[of a] by simp

lemma unat_inc: "(i::u64) < n \<Longrightarrow> unat (i + 1) = Suc (unat i)"
proof -
  assume "i < n"
  then have "unat i < unat n" by (simp add: word_less_nat_alt)
  then have "Suc (unat i) < 18446744073709551616" using unat_lt_2_64[of n] by linarith
  then show ?thesis by (simp add: unat_word_ariths)
qed

lemma inc_le_iff: "(i::u64) < n \<Longrightarrow> i + 1 \<le> x \<longleftrightarrow> i < x"
  by (auto simp: word_less_nat_alt word_le_nat_alt unat_inc)

lemma unat_drop_bit: "unat (drop_bit n (a::u64)) = unat a div 2 ^ n"
  by (simp add: unsigned_drop_bit_eq take_bit_nat_eq_self flip: drop_bit_eq_div)

lemma unat_add_aligned:
  assumes "aligned n a" "unat i < 2 ^ n" "n < 64"
  shows "unat (a + i) = unat a + unat i"
proof -
  from assms(1) obtain q where q: "unat a = 2 ^ n * q"
    by (auto simp: aligned_iff_mod mod_eq_0_iff_dvd elim: dvdE)
  have pow: "(2::nat) ^ 64 = 2 ^ n * 2 ^ (64 - n)" using assms(3)
    by (simp only: flip: power_add) simp
  have "2 ^ n * q < 2 ^ n * 2 ^ (64 - n)"
    using unat_lt_2_64[of a] q pow by simp
  then have "Suc q \<le> 2 ^ (64 - n)" by simp
  then have "2 ^ n * Suc q \<le> (2::nat) ^ 64" unfolding pow by (rule mult_le_mono2)
  then have "unat a + unat i < 2 ^ 64" using assms(2) q by simp
  then show ?thesis by (simp add: unat_word_ariths)
qed

lemma drop_bit_add_aligned [align_simps]:
  assumes "aligned n a" "unat i < 2 ^ n" "n < 64"
  shows "drop_bit n (a + i) = drop_bit n a"
proof -
  have "unat a mod 2 ^ n = 0" using assms(1) by (simp add: aligned_iff_mod)
  then have "(unat a + unat i) div 2 ^ n = unat a div 2 ^ n"
    using assms(2) by (auto simp: mod_eq_0_iff_dvd elim: dvdE)
  then show ?thesis
    by (simp add: word_unat_eq_iff unat_drop_bit unat_add_aligned[OF assms])
qed

lemma aligned_add [align_simps]:
  assumes "aligned n a" "aligned n b" "n \<le> 64"
  shows "aligned n (a + b)"
proof -
  have "(2::nat) ^ n dvd 2 ^ 64" using assms(3) by (rule le_imp_power_dvd)
  then have "unat (a + b) mod 2 ^ n = (unat a + unat b) mod 2 ^ n"
    by (simp add: unat_word_ariths mod_mod_cancel)
  then show ?thesis using assms(1,2) by (auto simp: aligned_iff_mod mod_eq_0_iff_dvd)
qed

lemma aligned_bit: "aligned n a \<Longrightarrow> k < n \<Longrightarrow> \<not> bit a k"
proof -
  assume "aligned n a" "k < n"
  then have "\<not> bit (take_bit n a) k" by (simp add: aligned_def)
  then show ?thesis using \<open>k < n\<close> by (simp add: bit_take_bit_iff)
qed

lemma high_bit: "drop_bit n (a::u64) = 0 \<Longrightarrow> n \<le> k \<Longrightarrow> \<not> bit a k"
proof -
  assume "drop_bit n a = 0" "n \<le> k"
  then have "\<not> bit (drop_bit n a) (k - n)" by simp
  then show ?thesis using \<open>n \<le> k\<close> by (simp add: bit_drop_bit_eq)
qed

lemma aligned_weaken: "aligned n a \<Longrightarrow> m \<le> n \<Longrightarrow> aligned m a"
proof -
  assume "aligned n a" "m \<le> n"
  moreover have "take_bit m a = take_bit m (take_bit n a)" using \<open>m \<le> n\<close> by (simp add: min_def)
  ultimately show ?thesis by (simp add: aligned_def)
qed

lemma aligned_eq_iff:
  assumes "aligned n a" "aligned n b"
  shows "drop_bit n a = drop_bit n b \<longleftrightarrow> a = b"
  using assms by (metis aligned_def bits_ident)

lemma aligned_mult: "aligned n (2 ^ n * i)"
  by (simp add: aligned_def take_bit_push_bit mult.commute flip: push_bit_eq_mult)

lemma aligned_mult_8 [simp]: "aligned 3 (8 * i)"
  using aligned_mult[of 3 i] by simp

lemma unat_mult_8: "i < 512 \<Longrightarrow> unat (8 * i :: u64) = 8 * unat i"
  by (simp add: unat_word_ariths word_less_nat_alt)

lemma cell_aligned [simp, align_simps]: "aligned 12 p \<Longrightarrow> aligned 3 (p + 8 * i)"
  by (rule aligned_add) (auto intro: aligned_weaken)

lemma cell_page [align_simps]: "aligned 12 p \<Longrightarrow> i < 512 \<Longrightarrow> drop_bit 12 (p + 8 * i) = drop_bit 12 p"
  by (rule drop_bit_add_aligned) (auto simp: unat_mult_8 word_less_nat_alt)

lemma cell_eq_iff:
  assumes "aligned 12 p" "aligned 12 q" "i < 512" "j < 512"
  shows "p + 8 * i = q + 8 * j \<longleftrightarrow> p = q \<and> i = j"
proof
  assume eq: "p + 8 * i = q + 8 * j"
  then have "drop_bit 12 p = drop_bit 12 q" using assms by (metis cell_page)
  then have pq: "p = q" using assms by (simp add: aligned_eq_iff)
  with eq have "8 * i = 8 * j" by simp
  then have "8 * unat i = 8 * unat j" using assms by (metis unat_mult_8)
  with pq show "p = q \<and> i = j" by (simp add: word_unat_eq_iff)
qed simp
end
