(* ===== verification/Memory.thy ===== *)
theory Memory
  imports Prelude
begin

text \<open>
  Memory as the processor sees it: one byte per 64-bit address, little-endian access at the
  widths the code uses. \<^verbatim>\<open>virt_to_phys\<close> and \<^verbatim>\<open>phys_to_virt\<close> (\<^verbatim>\<open>lib/x86/asm/io.h\<close>) are casts,
  so a pointer and the physical address it stands for are one \<^typ>\<open>u64\<close>.
  The state record every stateful component extends starts here.
\<close>

type_synonym mem = "u64 \<Rightarrow> u8"

text \<open>An argument of a \<^verbatim>\<open>printf\<close> call: a number (or pointer) or a string.\<close>

datatype parg = PNum u64 | PStr string

text \<open>\<open>console\<close> records the \<^verbatim>\<open>printf\<close> calls made, in order: format and arguments.\<close>

record mstate =
  mem :: mem
  console :: "(string \<times> parg list) list"

definition kprintf :: "string \<Rightarrow> parg list \<Rightarrow> 'a mstate_scheme \<Rightarrow> 'a mstate_scheme" where
  "kprintf fmt args s = s\<lparr>console := console s @ [(fmt, args)]\<rparr>"

lemma mem_kprintf [simp]: "mem (kprintf fmt args s) = mem s"
  by (simp add: kprintf_def)

abbreviation NL :: string where "NL \<equiv> [CHR 0x0A]"
abbreviation TAB :: string where "TAB \<equiv> [CHR 0x09]"

definition virt_to_phys :: "u64 \<Rightarrow> u64" where
  "virt_to_phys virt = virt"

definition phys_to_virt :: "u64 \<Rightarrow> u64" where
  "phys_to_virt phys = phys"

lemma virt_phys_id [simp]: "virt_to_phys a = a" "phys_to_virt a = a"
  by (simp_all add: virt_to_phys_def phys_to_virt_def)

section \<open>Little-endian loads and stores\<close>

definition ld16 :: "mem \<Rightarrow> u64 \<Rightarrow> u16" where
  "ld16 m a = ucast (m a) OR push_bit 8 (ucast (m (a + 1)))"

definition ld32 :: "mem \<Rightarrow> u64 \<Rightarrow> u32" where
  "ld32 m a = ucast (m a) OR push_bit 8 (ucast (m (a + 1)))
     OR push_bit 16 (ucast (m (a + 2))) OR push_bit 24 (ucast (m (a + 3)))"

definition ld64 :: "mem \<Rightarrow> u64 \<Rightarrow> u64" where
  "ld64 m a = ucast (m a) OR push_bit 8 (ucast (m (a + 1)))
     OR push_bit 16 (ucast (m (a + 2))) OR push_bit 24 (ucast (m (a + 3)))
     OR push_bit 32 (ucast (m (a + 4))) OR push_bit 40 (ucast (m (a + 5)))
     OR push_bit 48 (ucast (m (a + 6))) OR push_bit 56 (ucast (m (a + 7)))"

definition st16 :: "mem \<Rightarrow> u64 \<Rightarrow> u16 \<Rightarrow> mem" where
  "st16 m a v = m(a := ucast v, a + 1 := ucast (drop_bit 8 v))"

definition st32 :: "mem \<Rightarrow> u64 \<Rightarrow> u32 \<Rightarrow> mem" where
  "st32 m a v = m(a := ucast v, a + 1 := ucast (drop_bit 8 v),
     a + 2 := ucast (drop_bit 16 v), a + 3 := ucast (drop_bit 24 v))"

definition st64 :: "mem \<Rightarrow> u64 \<Rightarrow> u64 \<Rightarrow> mem" where
  "st64 m a v = m(a := ucast v, a + 1 := ucast (drop_bit 8 v),
     a + 2 := ucast (drop_bit 16 v), a + 3 := ucast (drop_bit 24 v),
     a + 4 := ucast (drop_bit 32 v), a + 5 := ucast (drop_bit 40 v),
     a + 6 := ucast (drop_bit 48 v), a + 7 := ucast (drop_bit 56 v))"

lemma word_octets:
  fixes v :: u64
  shows "ucast (ucast v :: u8) OR push_bit 8 (ucast (ucast (drop_bit 8 v) :: u8))
     OR push_bit 16 (ucast (ucast (drop_bit 16 v) :: u8))
     OR push_bit 24 (ucast (ucast (drop_bit 24 v) :: u8))
     OR push_bit 32 (ucast (ucast (drop_bit 32 v) :: u8))
     OR push_bit 40 (ucast (ucast (drop_bit 40 v) :: u8))
     OR push_bit 48 (ucast (ucast (drop_bit 48 v) :: u8))
     OR push_bit 56 (ucast (ucast (drop_bit 56 v) :: u8)) = v" (is "?l = v")
proof (rule bit_word_eqI)
  fix n assume "n < LENGTH(64)"
  then consider "n < 8" | "8 \<le> n" "n < 16" | "16 \<le> n" "n < 24" | "24 \<le> n" "n < 32"
    | "32 \<le> n" "n < 40" | "40 \<le> n" "n < 48" | "48 \<le> n" "n < 56" | "56 \<le> n" "n < 64"
    by (simp, linarith)
  then show "bit ?l n = bit v n"
    by cases (simp_all add: bit_simps less_diff_conv2)
qed

lemma ld64_st64_same [simp, mem_simps]: "ld64 (st64 m a v) a = v"
  by (simp add: ld64_def st64_def word_octets)

lemma ld64_cong: "(\<And>i. i < 8 \<Longrightarrow> m (a + i) = m' (a + i)) \<Longrightarrow> ld64 m a = ld64 m' a"
proof -
  assume *: "\<And>i. i < 8 \<Longrightarrow> m (a + i) = m' (a + i)"
  have "m a = m' a" "m (a + 1) = m' (a + 1)" "m (a + 2) = m' (a + 2)" "m (a + 3) = m' (a + 3)"
    "m (a + 4) = m' (a + 4)" "m (a + 5) = m' (a + 5)" "m (a + 6) = m' (a + 6)"
    "m (a + 7) = m' (a + 7)"
    using *[of 0] *[of 1] *[of 2] *[of 3] *[of 4] *[of 5] *[of 6] *[of 7] by simp_all
  then show ?thesis by (simp add: ld64_def)
qed

lemma st64_other: "8 \<le> x - a \<Longrightarrow> st64 m a v x = m x"
  by (auto simp: st64_def word_le_nat_alt)

lemma ld64_st64_other [mem_simps]:
  assumes "aligned 3 a" "aligned 3 b" "a \<noteq> b"
  shows "ld64 (st64 m a v) b = ld64 m b"
proof (rule ld64_cong)
  fix i :: u64 assume i: "i < 8"
  show "st64 m a v (b + i) = m (b + i)"
  proof (rule st64_other, rule ccontr)
    assume "\<not> 8 \<le> b + i - a"
    then have j: "b + i - a < 8" by simp
    have "drop_bit 3 (b + i) = drop_bit 3 b"
      using assms i by (intro drop_bit_add_aligned) (auto simp: word_less_nat_alt)
    moreover have "drop_bit 3 (a + (b + i - a)) = drop_bit 3 a"
      using assms j by (intro drop_bit_add_aligned) (auto simp: word_less_nat_alt)
    ultimately have "drop_bit 3 a = drop_bit 3 b" by simp
    then show False using assms by (simp add: aligned_eq_iff)
  qed
qed

lemma ld64_st64:
  "aligned 3 a \<Longrightarrow> aligned 3 b \<Longrightarrow> ld64 (st64 m a v) b = (if a = b then v else ld64 m b)"
  by (simp add: ld64_st64_other)

lemma ld64_zero: "(\<And>i. i < 8 \<Longrightarrow> m (a + i) = 0) \<Longrightarrow> ld64 m a = 0"
  using ld64_cong[of m a "\<lambda>_. 0"] by (simp add: ld64_def)

end
