(* ===== verification/Cstring.thy ===== *)
theory Cstring
  imports Memory
begin

text \<open>
  The C library of \<^verbatim>\<open>lib/string.c\<close> over byte memory.
\<close>

section \<open>Memory blocks\<close>

text \<open>\<^verbatim>\<open>memset\<close>: the loop over \<^verbatim>\<open>size_t i\<close> storing \<^verbatim>\<open>(char)c\<close>.\<close>

function memset_loop :: "u64 \<Rightarrow> u8 \<Rightarrow> u64 \<Rightarrow> u64 \<Rightarrow> mem \<Rightarrow> mem" where
  "memset_loop a c i n m = (if i < n then memset_loop a c (i + 1) n (m(a + i := c)) else m)"
  by pat_completeness auto
termination
  by (relation "measure (\<lambda>(a, c, i, n, m). unat n - unat i)")
     (auto simp: unat_inc word_less_nat_alt)

declare memset_loop.simps [simp del]

definition memset :: "u64 \<Rightarrow> u32 \<Rightarrow> u64 \<Rightarrow> mem \<Rightarrow> mem" where
  "memset s c n m = memset_loop s (ucast c) 0 n m"

lemma memset_loop_apply:
  "memset_loop a c i n m x = (if i \<le> x - a \<and> x - a < n then c else m x)"
proof (induction a c i n m rule: memset_loop.induct)
  case (1 a c i n m)
  show ?case
  proof (cases "i < n")
    case True
    have "x = a + i \<longleftrightarrow> x - a = i" by (auto simp: algebra_simps)
    moreover have "memset_loop a c i n m x = memset_loop a c (i + 1) n (m(a + i := c)) x"
      using True by (subst memset_loop.simps) simp
    moreover note 1[OF True]
    ultimately show ?thesis using True by (auto simp: inc_le_iff[OF True])
  next
    case False
    then show ?thesis by (subst memset_loop.simps) auto
  qed
qed

lemma memset_apply: "memset s c n m x = (if x - s < n then ucast c else m x)"
  by (simp add: memset_def memset_loop_apply)

end
