(* ===== verification/Page_Alloc.thy ===== *)
theory Page_Alloc
  imports Cstring
begin

text \<open>
  The page allocator of \<^verbatim>\<open>lib/alloc_page.c\<close>: a singly linked list of free pages whose links
  live in the first eight bytes of the pages themselves.
\<close>

abbreviation PAGE_SIZE :: u64 where "PAGE_SIZE \<equiv> 4096"

record pa_state = mstate +
  freelist :: u64
  pa_lock :: u32

definition page_alloc_initialized :: "'a pa_state_scheme \<Rightarrow> bool" where
  "page_alloc_initialized s \<longleftrightarrow> freelist s \<noteq> 0"

definition pa_spin_lock :: "'a pa_state_scheme \<Rightarrow> 'a pa_state_scheme option" where
  "pa_spin_lock s = map_option (\<lambda>v. s\<lparr>pa_lock := v\<rparr>) (spin_lock (pa_lock s))"

definition pa_spin_unlock :: "'a pa_state_scheme \<Rightarrow> 'a pa_state_scheme" where
  "pa_spin_unlock s = s\<lparr>pa_lock := spin_unlock (pa_lock s)\<rparr>"

text \<open>The \<^verbatim>\<open>while (mem + PAGE_SIZE != end)\<close> loop of \<^verbatim>\<open>free_pages\<close>: returns the last page.\<close>

partial_function (option) link_pages :: "u64 \<Rightarrow> u64 \<Rightarrow> mem \<Rightarrow> (u64 \<times> mem) option" where
  "link_pages pg en m =
     (if pg + PAGE_SIZE \<noteq> en then link_pages (pg + PAGE_SIZE) en (st64 m pg (pg + PAGE_SIZE))
      else Some (pg, m))"

definition free_pages :: "u64 \<Rightarrow> u64 \<Rightarrow> 'a pa_state_scheme \<Rightarrow> 'a pa_state_scheme option" where
  "free_pages pg sz s = do {
     c_assert (pg mod PAGE_SIZE = 0);
     c_assert (sz mod PAGE_SIZE = 0);
     c_assert (sz = 0 \<or> pg = - sz \<or> pg + sz > pg);
     (if sz = 0 then Some (s\<lparr>freelist := 0\<rparr>)
      else do {
        s \<leftarrow> pa_spin_lock s;
        let old_freelist = freelist s;
        let s = s\<lparr>freelist := pg\<rparr>;
        (last_pg, m) \<leftarrow> link_pages pg (pg + sz) (mem s);
        let s = s\<lparr>mem := st64 m last_pg old_freelist\<rparr>;
        Some (pa_spin_unlock s)
      })
   }"

definition alloc_page :: "'a pa_state_scheme \<Rightarrow> (u64 \<times> 'a pa_state_scheme) option" where
  "alloc_page s =
     (if freelist s = 0 then Some (0, s)
      else do {
        s \<leftarrow> pa_spin_lock s;
        let p = freelist s;
        let s = s\<lparr>freelist := ld64 (mem s) (freelist s)\<rparr>;
        Some (p, pa_spin_unlock s)
      })"

text \<open>
  The scan of \<^verbatim>\<open>alloc_pages\<close>: \<open>cur\<close> and \<open>nxt\<close> walk the list, \<open>run\<close> pages starting at
  \<open>run_start\<close> (whose predecessor is \<open>run_prev\<close>) are contiguous so far.
\<close>

partial_function (option) alloc_pages_loop ::
  "u64 \<Rightarrow> u64 \<Rightarrow> u64 \<Rightarrow> u64 \<Rightarrow> u64 \<Rightarrow> u64 \<Rightarrow> u64 \<Rightarrow> u64 \<Rightarrow> 'a pa_state_scheme
     \<Rightarrow> (u64 \<times> 'a pa_state_scheme) option" where
  "alloc_pages_loop n align_mask cur nxt run run_start run_prev run_next_pa s =
     (let prev = cur; cur = nxt
      in if cur = 0 then Some (0, s)
         else
           let nxt = ld64 (mem s) cur;
               pa = virt_to_phys cur;
               (run, run_start, run_prev, run_next_pa) =
                 (if run = 0 then
                    (if pa AND align_mask = 0 then (1, cur, prev, pa + PAGE_SIZE)
                     else (run, run_start, run_prev, run_next_pa))
                  else if pa = run_next_pa then
                    (run + 1, run_start, run_prev, run_next_pa + PAGE_SIZE)
                  else (0, run_start, run_prev, run_next_pa))
           in if run = n then
                Some (run_start,
                  (if run_prev \<noteq> 0 then s\<lparr>mem := st64 (mem s) run_prev nxt\<rparr>
                   else s\<lparr>freelist := nxt\<rparr>))
              else alloc_pages_loop n align_mask cur nxt run run_start run_prev run_next_pa s)"

definition alloc_pages :: "u64 \<Rightarrow> 'a pa_state_scheme \<Rightarrow> (u64 \<times> 'a pa_state_scheme) option" where
  "alloc_pages order s = do {
     let nxt = freelist s;
     let n = push_bit (unat order) 1;
     let align_mask = push_bit 12 n - 1;
     c_assert (order < 8 * 8);
     s \<leftarrow> pa_spin_lock s;
     (run_start, s) \<leftarrow> alloc_pages_loop n align_mask 0 nxt 0 0 0 0 s;
     Some (run_start, pa_spin_unlock s)
   }"

definition free_page :: "u64 \<Rightarrow> 'a pa_state_scheme \<Rightarrow> 'a pa_state_scheme option" where
  "free_page page s = do {
     s \<leftarrow> pa_spin_lock s;
     let s = s\<lparr>mem := st64 (mem s) page (freelist s)\<rparr>;
     let s = s\<lparr>freelist := page\<rparr>;
     Some (pa_spin_unlock s)
   }"

text \<open>\<^verbatim>\<open>fls\<close>: the index of the highest set bit (\<^verbatim>\<open>__builtin_clzl\<close>, undefined at 0).\<close>

fun msb_index :: "nat \<Rightarrow> u64 \<Rightarrow> u64" where
  "msb_index 0 w = 0"
| "msb_index (Suc k) w = (if bit w (Suc k) then of_nat (Suc k) else msb_index k w)"

definition fls :: "u64 \<Rightarrow> u64 option" where
  "fls w = (if w = 0 then None else Some (msb_index 63 w))"

definition page_memalign ::
  "u64 \<Rightarrow> u64 \<Rightarrow> 'a pa_state_scheme \<Rightarrow> (u64 \<times> 'a pa_state_scheme) option" where
  "page_memalign alignment sz s =
     (let n = drop_bit 12 (ALIGN sz PAGE_SIZE)
      in if sz = 0 then Some (0, s)
         else do {
           order \<leftarrow> (if is_power_of_2 n then fls n else map_option (\<lambda>k. k + 1) (fls n));
           alloc_pages order s
         })"

definition page_free :: "u64 \<Rightarrow> u64 \<Rightarrow> 'a pa_state_scheme \<Rightarrow> 'a pa_state_scheme option" where
  "page_free pg sz s = free_pages pg sz s"


section \<open>The free list\<close>

text \<open>\<open>flist m h ps\<close>: following the links from \<open>h\<close> visits exactly the pages \<open>ps\<close> and ends in
  \<^verbatim>\<open>NULL\<close>. Every page is aligned and not at address 0.\<close>

fun flist :: "mem \<Rightarrow> u64 \<Rightarrow> u64 list \<Rightarrow> bool" where
  "flist m h [] \<longleftrightarrow> h = 0"
| "flist m h (p # ps) \<longleftrightarrow> h = p \<and> p \<noteq> 0 \<and> aligned 12 p \<and> flist m (ld64 m p) ps"

definition fl_inv :: "'a pa_state_scheme \<Rightarrow> u64 list \<Rightarrow> bool" where
  "fl_inv s ps \<longleftrightarrow> flist (mem s) (freelist s) ps \<and> pa_lock s = 0"

lemma flist_null [simp]: "flist m 0 ps \<longleftrightarrow> ps = []"
  by (cases ps) auto

lemma flist_unique: "flist m h ps \<Longrightarrow> flist m h qs \<Longrightarrow> ps = qs"
proof (induction ps arbitrary: h qs)
  case (Cons p ps)
  then show ?case by (cases qs) auto
qed auto

lemma flist_append:
  "flist m h (ps @ qs) \<Longrightarrow> \<exists>h'. flist m h' qs \<and> (ps = [] \<longrightarrow> h' = h)"
  by (induction ps arbitrary: h) auto

lemma flist_distinct: "flist m h ps \<Longrightarrow> distinct ps"
proof (induction ps arbitrary: h)
  case (Cons p ps)
  have "p \<notin> set ps"
  proof
    assume "p \<in> set ps"
    then obtain as bs where ps: "ps = as @ p # bs" by (auto dest: split_list)
    with Cons.prems have "flist m (ld64 m p) (as @ p # bs)" by simp
    then have "flist m (ld64 m p) bs" by (metis flist.simps(2) flist_append)
    moreover have "flist m (ld64 m p) (as @ p # bs)" using Cons.prems ps by simp
    ultimately have "bs = as @ p # bs" by (rule flist_unique)
    then have "length bs = length (as @ p # bs)" by simp
    then show False by simp
  qed
  with Cons show ?case by auto
qed simp

lemma flist_aligned: "flist m h ps \<Longrightarrow> p \<in> set ps \<Longrightarrow> aligned 12 p \<and> p \<noteq> 0"
  by (induction ps arbitrary: h) auto

lemma flist_frame:
  "(\<And>p. p \<in> set ps \<Longrightarrow> ld64 m' p = ld64 m p) \<Longrightarrow> flist m' h ps \<longleftrightarrow> flist m h ps"
  by (induction ps arbitrary: h) auto

lemma flist_st64:
  assumes "flist m h ps" "aligned 3 a" "a \<notin> set ps"
  shows "flist (st64 m a v) h ps"
proof -
  have "ld64 (st64 m a v) p = ld64 m p" if "p \<in> set ps" for p
    using that assms flist_aligned[OF assms(1) that]
    by (intro ld64_st64_other) (auto intro: aligned_weaken)
  then show ?thesis using assms(1) flist_frame by blast
qed

lemma alloc_page_Nil: "fl_inv s [] \<Longrightarrow> alloc_page s = Some (0, s)"
  by (simp add: fl_inv_def alloc_page_def)

lemma alloc_page_Cons:
  "fl_inv s (p # ps) \<Longrightarrow>
     alloc_page s = Some (p, s\<lparr>freelist := ld64 (mem s) p\<rparr>) \<and>
     fl_inv (s\<lparr>freelist := ld64 (mem s) p\<rparr>) ps"
  by (auto simp: fl_inv_def alloc_page_def pa_spin_lock_def pa_spin_unlock_def)

lemma free_page_Cons:
  assumes "fl_inv s ps" "aligned 12 p" "p \<noteq> 0" "p \<notin> set ps"
  shows "\<exists>s'. free_page p s = Some s' \<and> fl_inv s' (p # ps) \<and> mem s' = st64 (mem s) p (freelist s)"
  using assms flist_st64[of "mem s" "freelist s" ps p "freelist s"]
  by (auto simp: fl_inv_def free_page_def pa_spin_lock_def pa_spin_unlock_def aligned_weaken)

section \<open>Giving a range of pages to the list\<close>

definition page_run :: "u64 \<Rightarrow> nat \<Rightarrow> u64 list" where
  "page_run p n = map (\<lambda>i. p + PAGE_SIZE * of_nat i) [0..<n]"

lemma page_run_0 [simp]: "page_run p 0 = []"
  by (simp add: page_run_def)

lemma page_run_Suc: "page_run p (Suc n) = p # page_run (p + PAGE_SIZE) n"
  by (simp add: page_run_def upt_conv_Cons map_Suc_upt[symmetric] comp_def ring_distribs
      add.assoc del: upt_Suc)

lemma page_run_snoc: "page_run p (Suc n) = page_run p n @ [p + PAGE_SIZE * of_nat n]"
  by (simp add: page_run_def)

lemma length_page_run [simp]: "length (page_run p n) = n"
  by (simp add: page_run_def)

lemma aligned_page_step: "aligned 12 p \<Longrightarrow> aligned 12 (p + PAGE_SIZE * q)"
  using aligned_mult[of 12 q] by (intro aligned_add) simp_all

lemma page_run_aligned: "aligned 12 p \<Longrightarrow> q \<in> set (page_run p n) \<Longrightarrow> aligned 12 q"
  by (auto simp: page_run_def intro!: aligned_page_step)

lemma page_run_no_end:
  assumes "0 < n" "n * 4096 < 2 ^ 64"
  shows "p \<notin> set (page_run (p + PAGE_SIZE) (n - 1))" "p + PAGE_SIZE * of_nat n \<noteq> p"
proof -
  have *: "PAGE_SIZE * of_nat k \<noteq> 0" if "0 < k" "k \<le> n" for k
  proof -
    have "k * 4096 < 2 ^ 64" using that assms(2) by (meson le_less_trans mult_le_mono1)
    then have "unat (PAGE_SIZE * of_nat k) = 4096 * k" by (simp add: unat_word_ariths unat_of_nat)
    then show ?thesis using that by (metis mult_is_0 neq0_conv unat_0 zero_neq_numeral)
  qed
  show "p + PAGE_SIZE * of_nat n \<noteq> p" using *[of n] assms(1) by simp
  show "p \<notin> set (page_run (p + PAGE_SIZE) (n - 1))"
  proof
    assume "p \<in> set (page_run (p + PAGE_SIZE) (n - 1))"
    then obtain i where i: "i < n - 1" "p = p + PAGE_SIZE + PAGE_SIZE * of_nat i"
      by (auto simp: page_run_def)
    then have "PAGE_SIZE * of_nat (Suc i) = 0" by (simp add: ring_distribs add.assoc)
    moreover have "Suc i \<le> n" using i(1) by simp
    ultimately show False using *[of "Suc i"] by blast
  qed
qed

text \<open>The chaining loop: it ends, and afterwards every page of the run holds the address of the
  next one; nothing but the first words of the pages before the last has changed.\<close>

lemma link_pages_run:
  assumes "0 < n" "n * 4096 < 2 ^ 64" "aligned 12 pg"
  shows "\<exists>m' . link_pages pg (pg + PAGE_SIZE * of_nat n) m =
      Some (pg + PAGE_SIZE * of_nat (n - 1), m') \<and>
    (\<forall>q. aligned 3 q \<longrightarrow> q \<notin> set (page_run pg (n - 1)) \<longrightarrow> ld64 m' q = ld64 m q) \<and>
    (\<forall>ps h. flist (st64 m' (pg + PAGE_SIZE * of_nat (n - 1)) h) h ps \<longrightarrow>
       0 \<notin> set (page_run pg n) \<longrightarrow>
       flist (st64 m' (pg + PAGE_SIZE * of_nat (n - 1)) h) pg (page_run pg n @ ps))"
  using assms
proof (induction n arbitrary: pg m)
  case (Suc n)
  show ?case
  proof (cases n)
    case 0
    then show ?thesis using Suc.prems
      by (subst link_pages.simps) (auto simp: page_run_Suc)
  next
    case (Suc k)
    let ?q = "pg + PAGE_SIZE" and ?m = "st64 m pg (pg + PAGE_SIZE)"
    have n0: "0 < n" and nb: "n * 4096 < 2 ^ 64" using Suc \<open>Suc n * 4096 < 2 ^ 64\<close> by auto
    have alq: "aligned 12 ?q" using aligned_page_step[OF \<open>aligned 12 pg\<close>, of 1] by simp
    have e: "pg + PAGE_SIZE * of_nat (Suc n) = ?q + PAGE_SIZE * of_nat n"
      "pg + PAGE_SIZE * of_nat (Suc n - 1) = ?q + PAGE_SIZE * of_nat (n - 1)"
      using Suc by (simp_all add: ring_distribs)
    have ne: "?q \<noteq> pg + PAGE_SIZE * of_nat (Suc n)"
      unfolding e using page_run_no_end(2)[OF n0 nb, of ?q] by metis
    obtain m' where m': "link_pages ?q (?q + PAGE_SIZE * of_nat n) ?m =
        Some (?q + PAGE_SIZE * of_nat (n - 1), m')"
      "\<And>q. aligned 3 q \<Longrightarrow> q \<notin> set (page_run ?q (n - 1)) \<Longrightarrow> ld64 m' q = ld64 ?m q"
      "\<And>ps h. flist (st64 m' (?q + PAGE_SIZE * of_nat (n - 1)) h) h ps \<Longrightarrow>
        0 \<notin> set (page_run ?q n) \<Longrightarrow>
        flist (st64 m' (?q + PAGE_SIZE * of_nat (n - 1)) h) ?q (page_run ?q n @ ps)"
      using Suc.IH[OF n0 nb alq, of ?m] by blast
    have pgout: "pg \<notin> set (page_run ?q n)"
      using page_run_no_end(1)[of "Suc n" pg] \<open>Suc n * 4096 < 2 ^ 64\<close> by simp
    have rn: "page_run ?q n = page_run ?q (n - 1) @ [?q + PAGE_SIZE * of_nat (n - 1)]"
      using page_run_snoc[of ?q "n - 1"] n0 by simp
    have al3: "aligned 3 pg" "aligned 3 (?q + PAGE_SIZE * of_nat (n - 1))"
      using aligned_weaken[OF \<open>aligned 12 pg\<close>, of 3] aligned_weaken[OF aligned_page_step[OF alq], of 3]
      by simp_all
    have "link_pages pg (pg + PAGE_SIZE * of_nat (Suc n)) m =
        Some (pg + PAGE_SIZE * of_nat (Suc n - 1), m')"
      using ne m'(1) unfolding e(1)[symmetric] e(2)[symmetric] by (subst link_pages.simps) simp
    moreover have "ld64 m' q = ld64 m q" if "aligned 3 q" "q \<notin> set (page_run pg (Suc n - 1))" for q
      using that m'(2)[of q] al3 Suc by (auto simp: page_run_Suc ld64_st64)
    moreover have "flist (st64 m' (pg + PAGE_SIZE * of_nat (Suc n - 1)) h) pg (page_run pg (Suc n) @ ps)"
      if fl: "flist (st64 m' (pg + PAGE_SIZE * of_nat (Suc n - 1)) h) h ps"
        and z: "0 \<notin> set (page_run pg (Suc n))" for ps h
    proof -
      have "ld64 (st64 m' (?q + PAGE_SIZE * of_nat (n - 1)) h) pg = ld64 m' pg"
        using pgout al3 unfolding rn by (intro ld64_st64_other) auto
      also have "\<dots> = ?q" using m'(2)[of pg] pgout al3 unfolding rn by simp
      finally show ?thesis
        using m'(3)[of h ps] fl z \<open>aligned 12 pg\<close> unfolding e(2) by (auto simp: page_run_Suc)
    qed
    ultimately show ?thesis by blast
  qed
qed simp

lemma free_pages_run:
  assumes inv: "fl_inv s ps" and pg: "aligned 12 pg" and n: "0 < n" "n * 4096 < 2 ^ 64"
    and fit: "unat pg + n * 4096 \<le> 2 ^ 64" and nz: "pg \<noteq> 0"
    and new: "set (page_run pg n) \<inter> set ps = {}"
  shows "\<exists>s'. free_pages pg (PAGE_SIZE * of_nat n) s = Some s' \<and>
    fl_inv s' (page_run pg n @ ps) \<and>
    (\<forall>q. aligned 3 q \<longrightarrow> q \<notin> set (page_run pg n) \<longrightarrow> ld64 (mem s') q = ld64 (mem s) q)"
proof -
  let ?sz = "PAGE_SIZE * of_nat n" and ?last = "pg + PAGE_SIZE * of_nat (n - 1)"
  have usz: "unat ?sz = 4096 * n" using n by (simp add: unat_word_ariths unat_of_nat)
  have m12: "x mod PAGE_SIZE = 0" if "aligned 12 x" for x
    using that unat_mod[of x PAGE_SIZE] by (simp add: aligned_iff_mod word_unat_eq_iff)
  have a1: "pg mod PAGE_SIZE = 0" "?sz mod PAGE_SIZE = 0"
    using pg m12 aligned_mult[of 12 "of_nat n"] by simp_all
  have a2: "pg = - ?sz \<or> pg < pg + ?sz"
  proof (cases "unat pg + n * 4096 = 2 ^ 64")
    case True
    then have "unat (pg + ?sz) = 0" using usz by (simp add: unat_word_ariths mult.commute)
    then have "pg + ?sz = 0" by (simp add: unat_eq_zero)
    then show ?thesis by (simp add: eq_neg_iff_add_eq_0)
  next
    case False
    then have "unat (pg + ?sz) = unat pg + 4096 * n" using fit usz by (simp add: unat_word_ariths)
    then show ?thesis using n by (simp add: word_less_nat_alt)
  qed
  have z: "0 \<notin> set (page_run pg n)"
  proof
    assume "0 \<in> set (page_run pg n)"
    then obtain i where i: "i < n" "pg + PAGE_SIZE * of_nat i = 0" by (auto simp: page_run_def)
    have "unat (pg + PAGE_SIZE * of_nat i) = unat pg + 4096 * i"
      using fit n i(1) by (simp only: unat_word_ariths unat_of_nat) simp
    then show False using i(2) nz by (simp add: unat_eq_zero)
  qed
  obtain m' where m': "link_pages pg (pg + ?sz) (mem s) = Some (?last, m')"
    "\<And>q. aligned 3 q \<Longrightarrow> q \<notin> set (page_run pg (n - 1)) \<Longrightarrow> ld64 m' q = ld64 (mem s) q"
    "\<And>ps h. flist (st64 m' ?last h) h ps \<Longrightarrow> flist (st64 m' ?last h) pg (page_run pg n @ ps)"
    using link_pages_run[OF n pg, of "mem s"] z by blast
  have rn: "page_run pg n = page_run pg (n - 1) @ [?last]"
    using page_run_snoc[of pg "n - 1"] n by simp
  have al: "aligned 3 ?last" using aligned_weaken[OF aligned_page_step[OF pg], of 3] by simp
  have fr: "ld64 (st64 m' ?last h) q = ld64 (mem s) q"
    if "aligned 3 q" "q \<notin> set (page_run pg n)" for q h
    using that m'(2)[of q] al unfolding rn by (auto simp: ld64_st64)
  have fl: "flist (mem s) (freelist s) ps" and lk: "pa_lock s = 0" using inv by (auto simp: fl_inv_def)
  have "flist (st64 m' ?last (freelist s)) (freelist s) ps"
  proof -
    have "ld64 (st64 m' ?last (freelist s)) p = ld64 (mem s) p" if "p \<in> set ps" for p
      using that new flist_aligned[OF fl that] by (intro fr) (auto intro: aligned_weaken)
    then show ?thesis using fl flist_frame by blast
  qed
  then have "flist (st64 m' ?last (freelist s)) pg (page_run pg n @ ps)" by (rule m'(3))
  moreover have "?sz \<noteq> 0" using usz n by (metis mult_is_0 neq0_conv unat_0 zero_neq_numeral)
  ultimately show ?thesis using a1 a2 m'(1) lk fr
    by (auto simp: free_pages_def pa_spin_lock_def pa_spin_unlock_def fl_inv_def Let_def)
qed

lemma free_pages_zero: "free_pages pg 0 s = (if pg mod PAGE_SIZE = 0 then Some (s\<lparr>freelist := 0\<rparr>) else None)"
  by (simp add: free_pages_def)

section \<open>Allocating an aligned run\<close>

definition hd0 :: "u64 list \<Rightarrow> u64" where
  "hd0 ps = (if ps = [] then 0 else hd ps)"

definition last0 :: "u64 list \<Rightarrow> u64" where
  "last0 ps = (if ps = [] then 0 else last ps)"

lemma flist_hd0: "flist m h ps \<Longrightarrow> h = hd0 ps"
  by (cases ps) (auto simp: hd0_def)

lemma flist_tail: "flist m h (as @ bs) \<Longrightarrow> flist m (hd0 bs) bs"
proof (induction as arbitrary: h)
  case Nil
  then show ?case using flist_hd0 by auto
qed auto

lemma flist_next: "flist m h (as @ p # bs) \<Longrightarrow> p \<noteq> 0 \<and> aligned 12 p \<and> ld64 m p = hd0 bs"
  using flist_tail[of m h as "p # bs"] flist_hd0 by auto

lemma flist_unlink:
  assumes "flist m h (as @ run @ bs)" "as \<noteq> []"
  shows "flist (st64 m (last as) (hd0 bs)) h (as @ bs)"
  using assms
proof (induction as arbitrary: h)
  case (Cons a as)
  note dist = flist_distinct[OF Cons.prems(1)]
  have a: "h = a" "a \<noteq> 0" "aligned 12 a" using Cons.prems by auto
  show ?case
  proof (cases "as = []")
    case True
    have "flist m (hd0 bs) bs" using flist_tail[of m h "a # run" bs] Cons.prems True by simp
    then have "flist (st64 m a (hd0 bs)) (hd0 bs) bs"
      using a dist by (intro flist_st64) (auto intro: aligned_weaken)
    then show ?thesis using a True by simp
  next
    case False
    have al: "aligned 12 (last as)"
      using flist_aligned[OF Cons.prems(1), of "last as"] False by simp
    have "last as \<in> set as" using False by simp
    then have "a \<noteq> last as" using dist by auto
    then have "ld64 (st64 m (last as) (hd0 bs)) a = ld64 m a"
      using a al by (intro ld64_st64_other) (auto intro: aligned_weaken)
    then show ?thesis using Cons.IH[of "ld64 m a"] Cons.prems a False by simp
  qed
qed simp

text \<open>Where the scan stands: \<open>pre\<close> is behind it; either no run is open, or the last \<open>run\<close> pages of
  \<open>pre\<close> are one, and \<open>run_prev\<close> precedes them.\<close>

definition scan_inv :: "nat \<Rightarrow> u64 list \<Rightarrow> nat \<Rightarrow> u64 \<Rightarrow> u64 \<Rightarrow> u64 \<Rightarrow> bool" where
  "scan_inv order pre run run_start run_prev run_next_pa \<longleftrightarrow>
     run < 2 ^ order \<and>
     (0 < run \<longrightarrow> (\<exists>as. pre = as @ page_run run_start run \<and> run_prev = last0 as \<and>
        run_next_pa = run_start + PAGE_SIZE * of_nat run \<and> aligned (12 + order) run_start))"

definition run_found :: "nat \<Rightarrow> u64 list \<Rightarrow> 'a pa_state_scheme \<Rightarrow> u64 \<Rightarrow> 'a pa_state_scheme \<Rightarrow> bool" where
  "run_found order fl s p s' \<longleftrightarrow>
     (\<exists>as bs. fl = as @ page_run p (2 ^ order) @ bs \<and> aligned (12 + order) p \<and>
        flist (mem s') (freelist s') (as @ bs) \<and> pa_lock s' = pa_lock s \<and>
        (\<forall>q. aligned 3 q \<longrightarrow> q \<notin> set as \<longrightarrow> ld64 (mem s') q = ld64 (mem s) q))"

lemma scan_found:
  assumes fl: "flist (mem s) (freelist s) (as @ page_run p (2 ^ order) @ bs)"
    and al: "aligned (12 + order) p"
  shows "run_found order (as @ page_run p (2 ^ order) @ bs) s p
    (if last0 as \<noteq> 0 then s\<lparr>mem := st64 (mem s) (last0 as) (hd0 bs)\<rparr> else s\<lparr>freelist := hd0 bs\<rparr>)"
proof (cases "as = []")
  case True
  then show ?thesis using flist_tail[of "mem s" "freelist s" "page_run p (2 ^ order)" bs] fl al
    unfolding run_found_def by (intro exI[of _ as] exI[of _ bs]) (simp add: last0_def)
next
  case False
  have l: "last0 as = last as" "last as \<noteq> 0" "aligned 12 (last as)"
    using flist_aligned[OF fl, of "last as"] False by (auto simp: last0_def)
  have "ld64 (st64 (mem s) (last as) (hd0 bs)) q = ld64 (mem s) q"
    if "aligned 3 q" "q \<notin> set as" for q
    using that l False by (intro ld64_st64_other) (auto intro: aligned_weaken)
  then show ?thesis using flist_unlink[OF fl False] False l al
    unfolding run_found_def by (intro exI[of _ as] exI[of _ bs]) simp
qed

lemma of_nat_pow_eq:
  "a \<le> 2 ^ n \<Longrightarrow> n < 52 \<Longrightarrow> (of_nat a :: u64) = 2 ^ n \<longleftrightarrow> a = 2 ^ n"
proof -
  assume a: "a \<le> 2 ^ n" "n < 52"
  have p: "(2::nat) ^ n < 2 ^ 64" by (rule power_strict_increasing) (use a in auto)
  have "unat (of_nat (2 ^ n) :: u64) = 2 ^ n" using p by (simp only: unat_of_nat) simp
  moreover have "unat (of_nat a :: u64) = a" using a p by (simp add: unat_of_nat)
  ultimately show ?thesis by (metis of_nat_numeral of_nat_power)
qed

lemma mask_aligned: "(c::u64) AND (2 ^ n - 1) = 0 \<longleftrightarrow> aligned n c"
  by (simp add: aligned_def take_bit_eq_mask mask_eq_exp_minus_1)

text \<open>One page of the scan: the variables of the run after it.\<close>

lemma scan_step:
  assumes inv: "scan_inv order pre run rs rp rn" and o: "order < 52"
    and v: "(run' :: u64, rs', rp', rn') =
      (if (of_nat run :: u64) = 0 then
         (if c AND (2 ^ (12 + order) - 1) = 0 then (1, c, last0 pre, c + PAGE_SIZE) else (of_nat run, rs, rp, rn))
       else if c = rn then (of_nat run + 1, rs, rp, rn + PAGE_SIZE) else (0, rs, rp, rn))"
  shows "\<exists>r as. run' = of_nat r \<and> r \<le> 2 ^ order \<and> (0 < r \<longrightarrow> pre @ [c] = as @ page_run rs' r \<and>
    rp' = last0 as \<and> rn' = rs' + PAGE_SIZE * of_nat r \<and> aligned (12 + order) rs')"
proof -
  have "run < 2 ^ order" using inv by (simp add: scan_inv_def)
  moreover have "(2::nat) ^ order < 2 ^ 64" by (rule power_strict_increasing) (use o in auto)
  ultimately have r: "run < 2 ^ order" "(of_nat run :: u64) = 0 \<longleftrightarrow> run = 0"
    using unat_of_nat[of run, where 'a = 64] by (auto simp: take_bit_nat_eq_self unat_eq_zero)
  consider "run = 0" "aligned (12 + order) c" | "run = 0" "\<not> aligned (12 + order) c"
    | "0 < run" "c = rn" | "0 < run" "c \<noteq> rn" by blast
  then show ?thesis
  proof cases
    case 1
    then show ?thesis using v
      by (intro exI[of _ 1] exI[of _ pre]) (simp add: mask_aligned page_run_Suc)
  next
    case 3
    obtain as where "pre = as @ page_run rs run" "rp = last0 as"
      "rn = rs + PAGE_SIZE * of_nat run" "aligned (12 + order) rs"
      using inv 3 by (auto simp: scan_inv_def)
    then show ?thesis using 3 v r
      by (intro exI[of _ "Suc run"] exI[of _ as]) (simp add: page_run_snoc ring_distribs add.commute)
  qed (use v r in \<open>auto simp: mask_aligned intro!: exI[of _ 0]\<close>)
qed

lemma alloc_pages_loop_scan:
  assumes "flist (mem s) (freelist s) (pre @ rest)" "scan_inv order pre run rs rp rn"
    "cur = last0 pre" "nxt = hd0 rest" "order < 52"
  shows "\<exists>p s'. alloc_pages_loop (2 ^ order) (2 ^ (12 + order) - 1) cur nxt (of_nat run) rs rp rn s =
      Some (p, s') \<and> (if p = 0 then s' = s else run_found order (pre @ rest) s p s')"
  using assms
proof (induction rest arbitrary: pre run rs rp rn cur nxt)
  case Nil
  then show ?case by (subst alloc_pages_loop.simps) (simp add: hd0_def)
next
  case (Cons c rest)
  let ?n = "2 ^ order :: u64" and ?mk = "2 ^ (12 + order) - 1 :: u64"
  have c: "c \<noteq> 0" "ld64 (mem s) c = hd0 rest" "nxt = c"
    using flist_next[OF Cons.prems(1)] Cons.prems(4) by (auto simp: hd0_def)
  obtain r' :: u64 and rs' rp' rn' where v: "(r', rs', rp', rn') =
      (if (of_nat run :: u64) = 0 then
         (if c AND ?mk = 0 then (1, c, last0 pre, c + PAGE_SIZE) else (of_nat run, rs, rp, rn))
       else if c = rn then (of_nat run + 1, rs, rp, rn + PAGE_SIZE) else (0, rs, rp, rn))"
    by (metis surj_pair)
  obtain r as where r: "r' = of_nat r" "r \<le> 2 ^ order" "0 < r \<longrightarrow> pre @ [c] = as @ page_run rs' r \<and>
    rp' = last0 as \<and> rn' = rs' + PAGE_SIZE * of_nat r \<and> aligned (12 + order) rs'"
    using scan_step[OF Cons.prems(2,5) v] by blast
  have eqn: "r' = ?n \<longleftrightarrow> r = 2 ^ order" using r of_nat_pow_eq[OF r(2) Cons.prems(5)] by simp
  have unf: "alloc_pages_loop ?n ?mk cur nxt (of_nat run) rs rp rn s =
      (if r' = ?n then Some (rs', if rp' \<noteq> 0 then s\<lparr>mem := st64 (mem s) rp' (hd0 rest)\<rparr>
         else s\<lparr>freelist := hd0 rest\<rparr>)
       else alloc_pages_loop ?n ?mk c (hd0 rest) r' rs' rp' rn' s)"
    using c Cons.prems(3)
    by (subst alloc_pages_loop.simps) (simp only: Let_def v[symmetric] virt_phys_id c if_False prod.case)
  show ?case
  proof (cases "r = 2 ^ order")
    case True
    then have e: "pre @ c # rest = as @ page_run rs' (2 ^ order) @ rest"
      using r by simp
    have "rs' \<noteq> 0"
    proof -
      obtain k where "(2::nat) ^ order = Suc k" by (metis Suc_pred zero_less_numeral zero_less_power)
      then have "rs' \<in> set (page_run rs' (2 ^ order))" by (simp add: page_run_Suc)
      then show ?thesis using flist_aligned[OF Cons.prems(1), of rs'] e by auto
    qed
    moreover have "run_found order (pre @ c # rest) s rs'
        (if rp' \<noteq> 0 then s\<lparr>mem := st64 (mem s) rp' (hd0 rest)\<rparr> else s\<lparr>freelist := hd0 rest\<rparr>)"
      using scan_found[of s as rs' order rest] Cons.prems(1) r True unfolding e by (auto split: if_splits)
    ultimately show ?thesis using unf eqn True by auto
  next
    case False
    then have si: "scan_inv order (pre @ [c]) r rs' rp' rn'"
      using r by (auto simp: scan_inv_def)
    have "flist (mem s) (freelist s) ((pre @ [c]) @ rest)" using Cons.prems(1) by simp
    from Cons.IH[OF this si _ refl Cons.prems(5), of c, unfolded append.assoc append_Cons append_Nil]
    obtain p s' where "alloc_pages_loop ?n ?mk c (hd0 rest) (of_nat r) rs' rp' rn' s = Some (p, s')"
      "if p = 0 then s' = s else run_found order (pre @ c # rest) s p s'"
      by (auto simp: last0_def)
    then show ?thesis using unf eqn False r(1) by (intro exI[of _ p] exI[of _ s']) simp
  qed
qed

lemma alloc_pages_run:
  assumes "fl_inv s fl" "order < 52"
  shows "\<exists>p s'. alloc_pages order s = Some (p, s') \<and> pa_lock s' = 0 \<and>
    (if p = 0 then fl_inv s' fl \<and> mem s' = mem s
     else \<exists>as bs. fl = as @ page_run p (2 ^ unat order) @ bs \<and> fl_inv s' (as @ bs) \<and>
       aligned (12 + unat order) p \<and>
       (\<forall>q. aligned 3 q \<longrightarrow> q \<notin> set as \<longrightarrow> ld64 (mem s') q = ld64 (mem s) q))"
proof -
  let ?s = "s\<lparr>pa_lock := 1\<rparr>" and ?o = "unat order"
  have o: "?o < 52" using assms(2) by (simp add: word_less_nat_alt)
  have fl: "flist (mem ?s) (freelist ?s) ([] @ fl)" "pa_lock s = 0" using assms(1) by (auto simp: fl_inv_def)
  have si: "scan_inv ?o [] 0 0 0 0" by (simp add: scan_inv_def)
  have h: "freelist s = hd0 fl" using flist_hd0 fl by simp
  have msk: "push_bit 12 (push_bit ?o 1) - 1 = (2 ^ (12 + ?o) - 1 :: u64)"
    by (simp add: push_bit_eq_mult power_add)
  have ol: "order < 8 * 8" using assms(2) by (simp add: word_less_nat_alt)
  obtain p s' where l: "alloc_pages_loop (2 ^ ?o) (2 ^ (12 + ?o) - 1) 0 (freelist s) 0 0 0 0 ?s = Some (p, s')"
      "if p = 0 then s' = ?s else run_found ?o fl ?s p s'"
    using alloc_pages_loop_scan[OF fl(1) si _ h o, of 0] unfolding append_Nil
    by (simp add: last0_def) blast
  have "alloc_pages order s = Some (p, pa_spin_unlock s')"
    using l(1) fl(2) ol msk by (simp add: alloc_pages_def pa_spin_lock_def Let_def)
  then show ?thesis using l(2) assms(1) fl(2)
    by (auto simp: pa_spin_unlock_def fl_inv_def run_found_def split: if_splits)
qed

section \<open>Other components\<close>

text \<open>The allocator keeps the part of the state that is not memory or its own.\<close>

lemma alloc_page_more: "alloc_page s = Some (p, s') \<Longrightarrow> pa_state.more s' = pa_state.more s"
  by (auto simp: alloc_page_def pa_spin_lock_def pa_spin_unlock_def spin_lock_def Let_def
      split: if_splits)

lemma free_pages_more: "free_pages pg sz s = Some s' \<Longrightarrow> pa_state.more s' = pa_state.more s"
  by (auto simp: free_pages_def Let_def pa_spin_lock_def pa_spin_unlock_def split: if_splits bind_splits)

end
