(* ===== verification/Radix.thy ===== *)
theory Radix
  imports Page_Alloc
begin

text \<open>
  What a multi-level translation table means, independently of the code that builds it: the
  processor's walk, the set of pages a table occupies, and well-formedness (no page is shared
  between two places of the tree). The extended page tables of \<^verbatim>\<open>x86/ept.c\<close>, the page tables of
  \<^verbatim>\<open>lib/x86/vm.c\<close> and the second-level tables of \<^verbatim>\<open>lib/x86/intel-iommu.c\<close> are three formats of it.
\<close>

section \<open>Formats and walks\<close>

text \<open>
  An entry format: is the entry present, does it map a large page, which table or frame does it
  point to, which attributes does it give a page, and which attribute bits does it let pass from
  the levels below.
\<close>

record ptfmt =
  pf_present :: "u64 \<Rightarrow> bool"
  pf_large :: "u64 \<Rightarrow> bool"
  pf_addr :: "u64 \<Rightarrow> u64"
  pf_attr :: "u64 \<Rightarrow> u64"
  pf_pass :: "u64 \<Rightarrow> u64"

definition pt_shift :: "nat \<Rightarrow> nat" where
  "pt_shift l = 12 + 9 * (l - 1)"

definition pt_idx :: "nat \<Rightarrow> u64 \<Rightarrow> u64" where
  "pt_idx l va = drop_bit (pt_shift l) va AND 511"

definition ent :: "mem \<Rightarrow> u64 \<Rightarrow> u64 \<Rightarrow> u64" where
  "ent m pt i = ld64 m (pt + 8 * i)"

definition is_leaf :: "ptfmt \<Rightarrow> nat \<Rightarrow> u64 \<Rightarrow> bool" where
  "is_leaf F l e \<longleftrightarrow> l \<le> 1 \<or> l \<le> 3 \<and> pf_large F e"

definition is_table :: "ptfmt \<Rightarrow> nat \<Rightarrow> u64 \<Rightarrow> bool" where
  "is_table F l e \<longleftrightarrow> pf_present F e \<and> \<not> is_leaf F l e"

definition leaf_xl :: "ptfmt \<Rightarrow> nat \<Rightarrow> u64 \<Rightarrow> u64 \<Rightarrow> u64 \<times> u64" where
  "leaf_xl F l e va = (pf_addr F e + take_bit (pt_shift l) va, pf_attr F e)"

text \<open>The processor's walk: the physical address and the attributes of \<open>va\<close>, if it is mapped.\<close>

fun xlate :: "ptfmt \<Rightarrow> mem \<Rightarrow> nat \<Rightarrow> u64 \<Rightarrow> u64 \<Rightarrow> (u64 \<times> u64) option" where
  "xlate F m 0 pt va = None"
| "xlate F m (Suc l) pt va =
     (let e = ent m pt (pt_idx (Suc l) va)
      in if \<not> pf_present F e then None
         else if is_leaf F (Suc l) e then Some (leaf_xl F (Suc l) e va)
         else map_option (\<lambda>(pa, at). (pa, at AND pf_pass F e)) (xlate F m l (pf_addr F e) va))"

section \<open>Well-formed tables\<close>

definition entry_ok :: "ptfmt \<Rightarrow> nat \<Rightarrow> u64 \<Rightarrow> bool" where
  "entry_ok F l e \<longleftrightarrow> (pf_present F e \<longrightarrow>
     (1 < l \<longrightarrow> pf_pass F e = - 1) \<and>
     (is_leaf F l e \<longrightarrow> aligned (pt_shift l) (pf_addr F e)) \<and>
     (3 < l \<longrightarrow> \<not> pf_large F e))"

fun tpages :: "ptfmt \<Rightarrow> mem \<Rightarrow> nat \<Rightarrow> u64 \<Rightarrow> u64 set" where
  "tpages F m 0 pt = {}"
| "tpages F m (Suc l) pt =
     insert pt (\<Union>i\<in>{i. i < 512}. if is_table F (Suc l) (ent m pt i)
       then tpages F m l (pf_addr F (ent m pt i)) else {})"

definition cpages :: "ptfmt \<Rightarrow> mem \<Rightarrow> nat \<Rightarrow> u64 \<Rightarrow> u64 \<Rightarrow> u64 set" where
  "cpages F m l pt i =
     (if is_table F (Suc l) (ent m pt i) then tpages F m l (pf_addr F (ent m pt i)) else {})"

fun twf :: "ptfmt \<Rightarrow> mem \<Rightarrow> nat \<Rightarrow> u64 \<Rightarrow> bool" where
  "twf F m 0 pt \<longleftrightarrow> True"
| "twf F m (Suc l) pt \<longleftrightarrow>
     aligned 12 pt \<and>
     (\<forall>i<512. entry_ok F (Suc l) (ent m pt i)) \<and>
     (\<forall>i<512. is_table F (Suc l) (ent m pt i) \<longrightarrow> twf F m l (pf_addr F (ent m pt i))) \<and>
     (\<forall>i<512. pt \<notin> cpages F m l pt i) \<and>
     (\<forall>i<512. \<forall>j<512. i \<noteq> j \<longrightarrow> cpages F m l pt i \<inter> cpages F m l pt j = {})"

lemma tpages_Suc: "tpages F m (Suc l) pt = insert pt (\<Union>i\<in>{i. i < 512}. cpages F m l pt i)"
  by (simp add: cpages_def)

declare tpages.simps(2) [simp del]

lemma pt_idx_less [simp]: "pt_idx l va < 512"
proof -
  have "pt_idx l va \<le> 511" unfolding pt_idx_def by (rule word_and_le1)
  then show ?thesis by (simp add: word_less_nat_alt word_le_nat_alt)
qed

lemma tpages_self [simp]: "0 < l \<Longrightarrow> pt \<in> tpages F m l pt"
  by (cases l) (simp_all add: tpages_Suc)

lemma twf_aligned: "twf F m l pt \<Longrightarrow> p \<in> tpages F m l pt \<Longrightarrow> aligned 12 p"
proof (induction l arbitrary: pt)
  case (Suc l)
  then show ?case by (auto simp: tpages_Suc cpages_def split: if_splits)
qed simp

section \<open>Frames\<close>

text \<open>\<open>eqon\<close>: two memories agree on the entries of a set of pages. \<open>mframe\<close>: only pages of the
  set changed.\<close>

definition eqon :: "mem \<Rightarrow> mem \<Rightarrow> u64 set \<Rightarrow> bool" where
  "eqon m m' P \<longleftrightarrow> (\<forall>p\<in>P. \<forall>i<512. ent m' p i = ent m p i)"

definition mframe :: "mem \<Rightarrow> mem \<Rightarrow> u64 set \<Rightarrow> bool" where
  "mframe m m' P \<longleftrightarrow> (\<forall>q. aligned 12 q \<and> q \<notin> P \<longrightarrow> (\<forall>i<512. ent m' q i = ent m q i))"

lemma eqon_mono: "eqon m m' P \<Longrightarrow> Q \<subseteq> P \<Longrightarrow> eqon m m' Q"
  by (auto simp: eqon_def)

lemma mframe_refl [simp]: "mframe m m P"
  by (simp add: mframe_def)

lemma mframe_mono: "mframe m m' P \<Longrightarrow> P \<subseteq> Q \<Longrightarrow> mframe m m' Q"
  by (auto simp: mframe_def)

lemma mframe_trans: "mframe m m' P \<Longrightarrow> mframe m' m'' Q \<Longrightarrow> mframe m m'' (P \<union> Q)"
  by (auto simp: mframe_def)

lemma mframe_eqon:
  "mframe m m' P \<Longrightarrow> (\<And>q. q \<in> Q \<Longrightarrow> aligned 12 q \<and> q \<notin> P) \<Longrightarrow> eqon m m' Q"
  by (auto simp: mframe_def eqon_def)

lemma ent_st64:
  assumes "aligned 12 p" "aligned 12 q" "i < 512" "j < 512"
  shows "ent (st64 m (p + 8 * i) v) q j = (if p = q \<and> i = j then v else ent m q j)"
  using assms by (simp add: ent_def ld64_st64 cell_eq_iff)

lemma mframe_st64: "aligned 12 p \<Longrightarrow> i < 512 \<Longrightarrow> mframe m (st64 m (p + 8 * i) v) {p}"
  by (auto simp: mframe_def ent_st64)

lemma flist_mframe:
  assumes "flist m h ps" "mframe m m' P" "set ps \<inter> P = {}"
  shows "flist m' h ps"
proof -
  have "ld64 m' p = ld64 m p" if "p \<in> set ps" for p
  proof -
    have "aligned 12 p" "p \<notin> P" using that assms flist_aligned by blast+
    then have "ent m' p 0 = ent m p 0" using assms(2) by (auto simp: mframe_def)
    then show ?thesis by (simp add: ent_def)
  qed
  then show ?thesis using assms(1) flist_frame by blast
qed

lemma ent_memset_page:
  assumes "aligned 12 p" "aligned 12 q" "i < 512"
  shows "ent (memset p 0 PAGE_SIZE m) q i = (if q = p then 0 else ent m q i)"
proof -
  have *: "q + 8 * i + j - p < PAGE_SIZE \<longleftrightarrow> q = p" if j: "j < 8" for j
  proof -
    have d: "drop_bit 12 (q + (8 * i + j)) = drop_bit 12 q"
      using assms j by (intro drop_bit_add_aligned)
        (auto simp: unat_word_ariths word_less_nat_alt unat_mult_8)
    have le: "unat (8 * i + j) < 4096"
      using assms j by (auto simp: unat_word_ariths word_less_nat_alt unat_mult_8)
    show ?thesis
    proof
      assume "q + 8 * i + j - p < PAGE_SIZE"
      then have "drop_bit 12 (p + (q + 8 * i + j - p)) = drop_bit 12 p"
        using assms by (intro drop_bit_add_aligned) (auto simp: word_less_nat_alt)
      then have "drop_bit 12 q = drop_bit 12 p" using d by (simp add: algebra_simps)
      then show "q = p" using assms by (simp add: aligned_eq_iff)
    next
      assume "q = p"
      then have "q + 8 * i + j - p = 8 * i + j" by simp
      then show "q + 8 * i + j - p < PAGE_SIZE" using le
        by (simp only: word_less_nat_alt) simp
    qed
  qed
  show ?thesis
  proof (cases "q = p")
    case True
    then show ?thesis using * unfolding ent_def
      by (auto intro!: ld64_zero simp: memset_apply)
  next
    case False
    then show ?thesis using * unfolding ent_def
      by (auto intro!: ld64_cong simp: memset_apply)
  qed
qed

lemma mframe_memset: "aligned 12 p \<Longrightarrow> mframe m (memset p 0 PAGE_SIZE m) {p}"
  by (auto simp: mframe_def ent_memset_page)

lemma tbl_frame:
  assumes "eqon m m' (tpages F m l pt)"
  shows "tpages F m' l pt = tpages F m l pt \<and> twf F m' l pt = twf F m l pt \<and>
    (\<forall>va. xlate F m' l pt va = xlate F m l pt va)"
  using assms
proof (induction l arbitrary: pt)
  case (Suc l)
  have e: "ent m' pt i = ent m pt i" if "i < 512" for i
    using Suc.prems that by (auto simp: eqon_def tpages_Suc)
  have sub: "cpages F m l pt i \<subseteq> tpages F m (Suc l) pt" if "i < 512" for i
    using that by (auto simp: tpages_Suc)
  have IH: "tpages F m' l (pf_addr F (ent m pt i)) = tpages F m l (pf_addr F (ent m pt i)) \<and>
      twf F m' l (pf_addr F (ent m pt i)) = twf F m l (pf_addr F (ent m pt i)) \<and>
      (\<forall>va. xlate F m' l (pf_addr F (ent m pt i)) va = xlate F m l (pf_addr F (ent m pt i)) va)"
    if "i < 512" "is_table F (Suc l) (ent m pt i)" for i
    using eqon_mono[OF Suc.prems sub[OF that(1)]] that(2)
    by (intro Suc.IH) (simp add: cpages_def)
  have c: "cpages F m' l pt i = cpages F m l pt i" if "i < 512" for i
    using that IH by (auto simp: cpages_def e)
  have "tpages F m' (Suc l) pt = tpages F m (Suc l) pt"
    by (simp add: tpages_Suc c)
  moreover have "twf F m' (Suc l) pt = twf F m (Suc l) pt"
    using IH by (auto simp: e c)
  moreover have "xlate F m' (Suc l) pt va = xlate F m (Suc l) pt va" for va
    using IH[of "pt_idx (Suc l) va"] by (auto simp: e Let_def is_table_def)
  ultimately show ?case by blast
qed simp

lemmas tpages_frame = tbl_frame [THEN conjunct1]
lemmas twf_frame = tbl_frame [THEN conjunct2, THEN conjunct1]
lemmas xlate_frame = tbl_frame [THEN conjunct2, THEN conjunct2, THEN spec]

text \<open>A table whose slot \<open>i\<close> alone changed, together with what hangs below it.\<close>

lemma tbl_update:
  assumes wf: "twf F m (Suc l) pt" and i: "i < 512"
    and other: "\<And>j. j < 512 \<Longrightarrow> j \<noteq> i \<Longrightarrow> ent m' pt j = ent m pt j"
    and ok: "entry_ok F (Suc l) (ent m' pt i)"
    and eq: "eqon m m' (\<Union>j\<in>{j. j < 512 \<and> j \<noteq> i}. cpages F m l pt j)"
    and child: "is_table F (Suc l) (ent m' pt i) \<Longrightarrow> twf F m' l (pf_addr F (ent m' pt i))"
    and self: "pt \<notin> cpages F m' l pt i"
    and disj: "\<And>j. j < 512 \<Longrightarrow> j \<noteq> i \<Longrightarrow> cpages F m' l pt i \<inter> cpages F m l pt j = {}"
  shows "twf F m' (Suc l) pt"
    and "tpages F m' (Suc l) pt =
      insert pt (cpages F m' l pt i \<union> (\<Union>j\<in>{j. j < 512 \<and> j \<noteq> i}. cpages F m l pt j))"
    and "pt_idx (Suc l) va \<noteq> i \<Longrightarrow> xlate F m' (Suc l) pt va = xlate F m (Suc l) pt va"
proof -
  have fr: "tpages F m' l (pf_addr F (ent m pt j)) = tpages F m l (pf_addr F (ent m pt j)) \<and>
      twf F m' l (pf_addr F (ent m pt j)) = twf F m l (pf_addr F (ent m pt j)) \<and>
      (\<forall>va. xlate F m' l (pf_addr F (ent m pt j)) va = xlate F m l (pf_addr F (ent m pt j)) va)"
    if "j < 512" "j \<noteq> i" "is_table F (Suc l) (ent m pt j)" for j
  proof (rule tbl_frame, rule eqon_mono[OF eq])
    show "tpages F m l (pf_addr F (ent m pt j))
        \<subseteq> (\<Union>j\<in>{j. j < 512 \<and> j \<noteq> i}. cpages F m l pt j)"
      using that by (auto simp: cpages_def)
  qed
  have c: "cpages F m' l pt j = cpages F m l pt j" if "j < 512" "j \<noteq> i" for j
    using that fr by (auto simp: cpages_def other)
  show "twf F m' (Suc l) pt"
    unfolding twf.simps(2)
  proof (intro conjI allI impI)
    fix j :: u64 assume j: "j < 512"
    show "entry_ok F (Suc l) (ent m' pt j)" using wf ok other j by (cases "j = i") auto
    show "twf F m' l (pf_addr F (ent m' pt j))" if "is_table F (Suc l) (ent m' pt j)"
      using wf child fr[of j] other[of j] that j by (cases "j = i") auto
    show "pt \<notin> cpages F m' l pt j" using wf self c[of j] j by (cases "j = i") auto
    fix k :: u64 assume "k < 512" "j \<noteq> k"
    then show "cpages F m' l pt j \<inter> cpages F m' l pt k = {}"
      using wf disj[of j] disj[of k] c[of j] c[of k] j by (cases "j = i"; cases "k = i") auto
  qed (use wf in simp)
  have "{j::u64. j < 512} = insert i {j. j < 512 \<and> j \<noteq> i}" using i by auto
  then show "tpages F m' (Suc l) pt =
      insert pt (cpages F m' l pt i \<union> (\<Union>j\<in>{j. j < 512 \<and> j \<noteq> i}. cpages F m l pt j))"
    using c by (auto simp: tpages_Suc)
  show "xlate F m' (Suc l) pt va = xlate F m (Suc l) pt va" if "pt_idx (Suc l) va \<noteq> i"
    using that fr[of "pt_idx (Suc l) va"] other[of "pt_idx (Suc l) va"]
    by (auto simp: Let_def is_table_def)
qed

declare xlate.simps(2) [simp del] twf.simps(2) [simp del]

section \<open>Extending a table with pages from the allocator\<close>

text \<open>The state a table is built in: a free list of pages below the architectural limit of 52
  address bits, a well-formed table, and no page in both.\<close>

definition tinv :: "ptfmt \<Rightarrow> 'a pa_state_scheme \<Rightarrow> u64 list \<Rightarrow> nat \<Rightarrow> u64 \<Rightarrow> bool" where
  "tinv F s fl l pt \<longleftrightarrow>
     fl_inv s fl \<and> twf F (mem s) l pt \<and> tpages F (mem s) l pt \<inter> set fl = {} \<and>
     (\<forall>p\<in>set fl. drop_bit 52 p = 0)"

text \<open>\<open>grown F s fl s' k l pt\<close>: from \<open>s\<close> to \<open>s'\<close> the first \<open>k\<close> free pages went into the table at
  \<open>pt\<close>, nothing outside the table and those pages changed, and the invariant holds again.\<close>

definition grown ::
  "ptfmt \<Rightarrow> 'a pa_state_scheme \<Rightarrow> u64 list \<Rightarrow> 'a pa_state_scheme \<Rightarrow> nat \<Rightarrow> nat \<Rightarrow> u64 \<Rightarrow> bool" where
  "grown F s fl s' k l pt \<longleftrightarrow>
     fl_inv s' (drop k fl) \<and> twf F (mem s') l pt \<and>
     tpages F (mem s') l pt \<subseteq> tpages F (mem s) l pt \<union> set (take k fl) \<and>
     mframe (mem s) (mem s') (tpages F (mem s) l pt \<union> set (take k fl))"

lemma fl_inv_distinct: "fl_inv s fl \<Longrightarrow> distinct fl"
  by (auto simp: fl_inv_def dest: flist_distinct)

lemma fl_inv_aligned: "fl_inv s fl \<Longrightarrow> p \<in> set fl \<Longrightarrow> aligned 12 p \<and> p \<noteq> 0"
  by (auto simp: fl_inv_def dest: flist_aligned)

lemma take_drop_disjoint: "distinct xs \<Longrightarrow> set (take k xs) \<inter> set (drop k xs) = {}"
  by (rule set_take_disj_set_drop_if_distinct) simp_all

lemma grown_tinv:
  assumes "tinv F s fl l pt" "grown F s fl s' k l pt"
  shows "tinv F s' (drop k fl) l pt"
proof -
  have "set (take k fl) \<inter> set (drop k fl) = {}"
    using assms fl_inv_distinct by (intro take_drop_disjoint) (auto simp: tinv_def)
  moreover have "set (drop k fl) \<subseteq> set fl" by (rule set_drop_subset)
  ultimately show ?thesis using assms unfolding tinv_def grown_def by blast
qed

lemma grown_trans:
  assumes "grown F s fl s1 k l pt" "grown F s1 (drop k fl) s2 k' l pt"
  shows "grown F s fl s2 (k + k') l pt"
proof -
  have tk: "set (take (k + k') fl) = set (take k fl) \<union> set (take k' (drop k fl))"
    by (simp add: take_add)
  have dr: "drop k' (drop k fl) = drop (k + k') fl" by (simp add: add.commute)
  have "mframe (mem s) (mem s2) ((tpages F (mem s) l pt \<union> set (take k fl)) \<union>
      (tpages F (mem s1) l pt \<union> set (take k' (drop k fl))))"
    by (rule mframe_trans[where m' = "mem s1"]) (use assms in \<open>simp_all add: grown_def\<close>)
  then have "mframe (mem s) (mem s2) (tpages F (mem s) l pt \<union> set (take (k + k') fl))"
    by (rule mframe_mono) (use assms tk in \<open>auto simp: grown_def\<close>)
  then show ?thesis using assms tk dr by (auto simp: grown_def)
qed

lemma zero_table:
  assumes "aligned 12 p" "\<And>i. i < 512 \<Longrightarrow> ent m p i = 0" "\<not> pf_present F 0"
  shows "twf F m (Suc l) p" "tpages F m (Suc l) p = {p}" "xlate F m (Suc l) p va = None"
proof -
  have c: "cpages F m l p i = {}" if "i < 512" for i
    using that assms by (simp add: cpages_def is_table_def)
  show "twf F m (Suc l) p" using assms c by (simp add: twf.simps entry_ok_def is_table_def)
  show "tpages F m (Suc l) p = {p}" using c by (simp add: tpages_Suc)
  show "xlate F m (Suc l) p va = None" using assms by (simp add: xlate.simps)
qed

text \<open>
  Hanging a new table below slot \<open>i\<close>: the page \<open>p\<close>, taken from the free list, is filled so that
  it translates exactly as the old entry did, then the slot is made to point to it.
\<close>

lemma attach_table:
  assumes inv: "tinv F s (p # ps) (Suc (Suc l)) pt" and i: "i < 512"
    and fr: "mframe (mem s) m1 {p}"
    and wf1: "twf F m1 (Suc l) p" and pg: "tpages F m1 (Suc l) p = {p}"
    and tbl: "is_table F (Suc (Suc l)) e" "pf_addr F e = p" "pf_pass F e = - 1"
      "3 < Suc (Suc l) \<Longrightarrow> \<not> pf_large F e"
    and xl: "\<And>va. pt_idx (Suc (Suc l)) va = i \<Longrightarrow>
      xlate F m1 (Suc l) p va = xlate F (mem s) (Suc (Suc l)) pt va"
    and old: "\<not> is_table F (Suc (Suc l)) (ent (mem s) pt i)"
    and s': "mem s' = st64 m1 (pt + 8 * i) e" "freelist s' = ld64 (mem s) p" "pa_lock s' = 0"
  shows "grown F s (p # ps) s' 1 (Suc (Suc l)) pt"
    and "is_table F (Suc (Suc l)) (ent (mem s') pt i)"
    and "xlate F (mem s') (Suc (Suc l)) pt va = xlate F (mem s) (Suc (Suc l)) pt va"
    and "ent (mem s') pt i = e"
    and "j < 512 \<Longrightarrow> ent (mem s') p j = ent m1 p j"
proof -
  let ?T = "tpages F (mem s) (Suc (Suc l)) pt"
  let ?m' = "st64 m1 (pt + 8 * i) e"
  have fl: "flist (mem s) (freelist s) (p # ps)" and wf: "twf F (mem s) (Suc (Suc l)) pt"
    and dj: "?T \<inter> set (p # ps) = {}"
    using inv by (auto simp: tinv_def fl_inv_def)
  have al: "aligned 12 p" "aligned 12 pt" using fl wf by (auto simp: twf.simps)
  have ptT: "pt \<in> ?T" by (simp add: tpages_Suc)
  have ne: "p \<noteq> pt" "p \<notin> ?T" using dj ptT by auto
  have fr2: "mframe (mem s) ?m' {p, pt}"
    using mframe_trans[OF fr mframe_st64[OF al(2) i]] by (simp add: insert_commute)
  have entpt: "ent ?m' pt j = (if j = i then e else ent (mem s) pt j)" if "j < 512" for j
    using fr ne al i that by (auto simp: ent_st64 mframe_def)
  have eqp: "eqon m1 ?m' {p}" using ne al i by (auto simp: eqon_def ent_st64)
  note frp = tbl_frame[of m1 ?m' F "Suc l" p, unfolded pg, OF eqp]
  have cp: "cpages F ?m' (Suc l) pt i = {p}" using tbl entpt[OF i] frp by (simp add: cpages_def)
  have alT: "q \<in> ?T \<Longrightarrow> aligned 12 q" for q using twf_aligned[OF wf] .
  have selfno: "pt \<notin> cpages F (mem s) (Suc l) pt j" if "j < 512" for j
    using wf that by (simp add: twf.simps)
  have sub: "cpages F (mem s) (Suc l) pt j \<subseteq> ?T" if "j < 512" for j
    using that by (auto simp: tpages_Suc)
  have eq: "eqon (mem s) ?m' (\<Union>j\<in>{j. j < 512 \<and> j \<noteq> i}. cpages F (mem s) (Suc l) pt j)"
  proof (rule mframe_eqon[OF fr2])
    fix q assume "q \<in> (\<Union>j\<in>{j. j < 512 \<and> j \<noteq> i}. cpages F (mem s) (Suc l) pt j)"
    then show "aligned 12 q \<and> q \<notin> {p, pt}" using sub alT selfno ne by blast
  qed
  have no: "cpages F ?m' (Suc l) pt i \<inter> cpages F (mem s) (Suc l) pt j = {}"
    if "j < 512" "j \<noteq> i" for j using sub[OF that(1)] ne cp by auto
  have oth: "\<And>j. j < 512 \<Longrightarrow> j \<noteq> i \<Longrightarrow> ent ?m' pt j = ent (mem s) pt j" by (simp add: entpt)
  have ok: "entry_ok F (Suc (Suc l)) (ent ?m' pt i)"
    using tbl entpt[OF i] by (simp add: entry_ok_def is_table_def)
  have ch: "twf F ?m' (Suc l) (pf_addr F (ent ?m' pt i))" using tbl entpt[OF i] frp wf1 by simp
  have self: "pt \<notin> cpages F ?m' (Suc l) pt i" using cp ne by simp
  note upd = tbl_update[of F "mem s" "Suc l" pt i ?m', OF wf i oth ok eq ch self no]
  have wf': "twf F ?m' (Suc (Suc l)) pt" by (rule upd(1))
  have pages': "tpages F ?m' (Suc (Suc l)) pt = insert pt ({p} \<union>
      (\<Union>j\<in>{j. j < 512 \<and> j \<noteq> i}. cpages F (mem s) (Suc l) pt j))"
    using upd(2) unfolding cp .
  have xl': "xlate F ?m' (Suc (Suc l)) pt va = xlate F (mem s) (Suc (Suc l)) pt va"
    if "pt_idx (Suc (Suc l)) va \<noteq> i" for va
    using that by (intro tbl_update(3)[OF wf i oth ok eq _ self no] ch)
  have "pt \<notin> set ps"
  proof
    assume "pt \<in> set ps"
    then have "pt \<in> ?T \<inter> set (p # ps)" using ptT by simp
    then show False unfolding dj by (rule emptyE)
  qed
  then have "flist ?m' (ld64 (mem s) p) ps"
    using fl flist_distinct[OF fl] by (intro flist_mframe[OF _ fr2]) auto
  then have "fl_inv s' ps" using s' by (simp add: fl_inv_def)
  then show "grown F s (p # ps) s' 1 (Suc (Suc l)) pt"
    using wf' pages' s' sub ptT mframe_mono[OF fr2, of "?T \<union> {p}"] by (auto simp: grown_def)
  show "is_table F (Suc (Suc l)) (ent (mem s') pt i)" using s' entpt[OF i] tbl by simp
  show "ent (mem s') pt i = e" using s' entpt[OF i] by simp
  show "j < 512 \<Longrightarrow> ent (mem s') p j = ent m1 p j" using s' ne al i by (simp add: ent_st64)
  show "xlate F (mem s') (Suc (Suc l)) pt va = xlate F (mem s) (Suc (Suc l)) pt va"
  proof (cases "pt_idx (Suc (Suc l)) va = i")
    case True
    have "xlate F ?m' (Suc (Suc l)) pt va = xlate F ?m' (Suc l) p va"
      using True entpt[OF i] tbl
      by (subst xlate.simps) (auto simp: Let_def is_table_def option.map_id)
    also have "\<dots> = xlate F m1 (Suc l) p va" using frp by blast
    finally show ?thesis using xl[OF True] s' by simp
  qed (use xl' s' in simp)
qed

section \<open>Installing an entry\<close>

text \<open>How many tables are still missing on the way down to level \<open>k\<close>, and whether a large page
  is in the way.\<close>

fun missing :: "ptfmt \<Rightarrow> mem \<Rightarrow> nat \<Rightarrow> nat \<Rightarrow> u64 \<Rightarrow> u64 \<Rightarrow> nat" where
  "missing F m k 0 pt va = 0"
| "missing F m k (Suc l) pt va =
     (if Suc l \<le> k then 0
      else if is_table F (Suc l) (ent m pt (pt_idx (Suc l) va))
      then missing F m k l (pf_addr F (ent m pt (pt_idx (Suc l) va))) va
      else Suc l - k)"

fun nolarge :: "ptfmt \<Rightarrow> mem \<Rightarrow> nat \<Rightarrow> nat \<Rightarrow> u64 \<Rightarrow> u64 \<Rightarrow> bool" where
  "nolarge F m k 0 pt va = True"
| "nolarge F m k (Suc l) pt va =
     (if Suc l \<le> k then True
      else
        (let e = ent m pt (pt_idx (Suc l) va)
         in pf_present F e \<longrightarrow> \<not> is_leaf F (Suc l) e \<and> nolarge F m k l (pf_addr F e) va))"

lemma missing_le: "missing F m k n pt va \<le> n - k"
proof (induction n arbitrary: pt)
  case (Suc l)
  show ?case using Suc[of "pf_addr F (ent m pt (pt_idx (Suc l) va))"] by auto
qed simp

text \<open>The loop every installer runs: make the slot on the way point to a table, go down.\<close>

fun radix_loop ::
  "(nat \<Rightarrow> u64 \<Rightarrow> u64 \<Rightarrow> 'a pa_state_scheme \<Rightarrow> 'a pa_state_scheme option) \<Rightarrow> (u64 \<Rightarrow> u64) \<Rightarrow>
   nat \<Rightarrow> nat \<Rightarrow> u64 \<Rightarrow> u64 \<Rightarrow> 'a pa_state_scheme \<Rightarrow> (u64 \<times> 'a pa_state_scheme) option" where
  "radix_loop step adr k 0 va pt s = Some (pt, s)"
| "radix_loop step adr k (Suc l) va pt s =
     (if Suc l \<le> k then Some (pt, s)
      else do {
        s \<leftarrow> step (Suc l) pt (pt_idx (Suc l) va) s;
        radix_loop step adr k l va (adr (ent (mem s) pt (pt_idx (Suc l) va))) s
      })"

definition radix_install ::
  "(nat \<Rightarrow> u64 \<Rightarrow> u64 \<Rightarrow> 'a pa_state_scheme \<Rightarrow> 'a pa_state_scheme option) \<Rightarrow> (u64 \<Rightarrow> u64) \<Rightarrow>
   nat \<Rightarrow> nat \<Rightarrow> u64 \<Rightarrow> u64 \<Rightarrow> u64 \<Rightarrow> 'a pa_state_scheme \<Rightarrow> 'a pa_state_scheme option" where
  "radix_install step adr k n va pte pt s = do {
     (pt, s) \<leftarrow> radix_loop step adr k n va pt s;
     Some (s\<lparr>mem := st64 (mem s) (pt + 8 * pt_idx k va) pte\<rparr>)
   }"

text \<open>\<open>va'\<close> lies in the region an entry for \<open>va\<close> at level \<open>k\<close> maps, as seen from level \<open>n\<close>.\<close>

definition same_region :: "nat \<Rightarrow> nat \<Rightarrow> u64 \<Rightarrow> u64 \<Rightarrow> bool" where
  "same_region k n va va' \<longleftrightarrow> (\<forall>j. k \<le> j \<and> j \<le> n \<longrightarrow> pt_idx j va' = pt_idx j va)"

lemma same_region_Suc:
  "k \<le> Suc l \<Longrightarrow> same_region k (Suc l) va va' \<longleftrightarrow>
     pt_idx (Suc l) va' = pt_idx (Suc l) va \<and> same_region k l va va'"
  by (auto simp: same_region_def le_Suc_eq)

text \<open>Once the way to \<open>va\<close> is complete, an address that shares its indices from level \<open>j\<close> on
  misses at most the tables below.\<close>

lemma missing_shared:
  "missing F m k n pt va = 0 \<Longrightarrow> same_region j n va va' \<Longrightarrow> k < j \<Longrightarrow>
   missing F m k n pt va' \<le> j - 1 - k"
proof (induction n arbitrary: pt)
  case (Suc l)
  show ?case
  proof (cases "k < Suc l \<and> j \<le> Suc l")
    case True
    then have "is_table F (Suc l) (ent m pt (pt_idx (Suc l) va))"
      using Suc.prems(1) by (auto split: if_splits)
    moreover have "pt_idx (Suc l) va' = pt_idx (Suc l) va" "same_region j l va va'"
      using Suc.prems(2) True by (auto simp: same_region_Suc)
    ultimately show ?thesis using Suc.IH Suc.prems(1,3) True by simp
  next
    case False
    then show ?thesis using missing_le[of F m k "Suc l" pt va'] Suc.prems(3) by auto
  qed
qed simp

lemma pt_idx_take_bit: "pt_idx l va = take_bit 9 (drop_bit (pt_shift l) va)"
proof -
  have "(511::u64) = mask 9" by (simp add: mask_eq_exp_minus_1)
  then show ?thesis by (simp add: pt_idx_def take_bit_eq_mask)
qed

lemma same_region_iff:
  assumes "1 \<le> k" "k \<le> n" "drop_bit (12 + 9 * n) va = 0" "drop_bit (12 + 9 * n) va' = 0"
  shows "same_region k n va va' \<longleftrightarrow> drop_bit (pt_shift k) va' = drop_bit (pt_shift k) va"
proof
  assume eq: "drop_bit (pt_shift k) va' = drop_bit (pt_shift k) va"
  have "pt_idx j va' = pt_idx j va" if "k \<le> j" for j
  proof -
    have "pt_shift j = 9 * (j - k) + pt_shift k" using that assms(1) by (simp add: pt_shift_def)
    then show ?thesis using eq by (simp add: pt_idx_take_bit flip: drop_bit_drop_bit)
  qed
  then show "same_region k n va va'" by (simp add: same_region_def)
next
  assume sr: "same_region k n va va'"
  show "drop_bit (pt_shift k) va' = drop_bit (pt_shift k) va"
  proof (rule bit_word_eqI)
    fix i
    let ?p = "pt_shift k + i"
    show "bit (drop_bit (pt_shift k) va') i = bit (drop_bit (pt_shift k) va) i"
    proof (cases "?p < 12 + 9 * n")
      case True
      define j where "j = Suc ((?p - 12) div 9)"
      define r where "r = (?p - 12) mod 9"
      have "?p - 12 = 9 * ((?p - 12) div 9) + (?p - 12) mod 9" by simp
      moreover have "12 \<le> ?p" using assms(1) by (simp add: pt_shift_def)
      ultimately have p: "?p = pt_shift j + r" by (simp add: pt_shift_def j_def r_def)
      have "k \<le> j" "j \<le> n" using True assms(1) by (auto simp: j_def pt_shift_def)
      then have "pt_idx j va' = pt_idx j va" using sr by (simp add: same_region_def)
      then have "bit (pt_idx j va') r = bit (pt_idx j va) r" by simp
      moreover have "r < 9" by (simp add: r_def)
      ultimately show ?thesis by (simp add: p bit_simps pt_idx_take_bit)
    next
      case False
      then have q: "?p = 12 + 9 * n + (?p - (12 + 9 * n))" by simp
      have "\<not> bit w ?p" if "drop_bit (12 + 9 * n) w = 0" for w :: u64
      proof -
        have "\<not> bit (drop_bit (12 + 9 * n) w) (?p - (12 + 9 * n))" unfolding that by simp
        then show ?thesis by (subst q) (simp add: bit_drop_bit_eq)
      qed
      then show ?thesis using assms(3,4) by (simp add: bit_drop_bit_eq)
    qed
  qed
qed

definition pte_xl :: "ptfmt \<Rightarrow> nat \<Rightarrow> u64 \<Rightarrow> u64 \<Rightarrow> (u64 \<times> u64) option" where
  "pte_xl F k pte va = (if pf_present F pte then Some (leaf_xl F k pte va) else None)"

lemma xlate_table:
  "is_table F (Suc l) (ent m pt (pt_idx (Suc l) va)) \<Longrightarrow>
   pf_pass F (ent m pt (pt_idx (Suc l) va)) = - 1 \<Longrightarrow>
   xlate F m (Suc l) pt va = xlate F m l (pf_addr F (ent m pt (pt_idx (Suc l) va))) va"
  by (subst xlate.simps) (auto simp: Let_def is_table_def option.map_id)

lemma tinv_child:
  assumes "tinv F s fl (Suc l) pt" "i < 512" "is_table F (Suc l) (ent (mem s) pt i)"
  shows "tinv F s fl l (pf_addr F (ent (mem s) pt i))"
proof -
  have "tpages F (mem s) l (pf_addr F (ent (mem s) pt i)) = cpages F (mem s) l pt i"
    using assms by (simp add: cpages_def)
  also have "\<dots> \<subseteq> tpages F (mem s) (Suc l) pt" using assms by (auto simp: tpages_Suc)
  finally show ?thesis using assms by (auto simp: tinv_def twf.simps)
qed

lemma table_pass:
  "twf F m (Suc l) pt \<Longrightarrow> i < 512 \<Longrightarrow> is_table F (Suc l) (ent m pt i) \<Longrightarrow> pf_pass F (ent m pt i) = - 1"
  by (auto simp: twf.simps entry_ok_def is_table_def is_leaf_def)

lemma grown_child:
  assumes inv: "tinv F s fl (Suc l) pt" and i: "i < 512"
    and tbl: "is_table F (Suc l) (ent (mem s) pt i)"
    and gr: "grown F s fl s' k l (pf_addr F (ent (mem s) pt i))"
  shows "grown F s fl s' k (Suc l) pt"
    and "ent (mem s') pt i = ent (mem s) pt i"
    and "pt_idx (Suc l) va \<noteq> i \<Longrightarrow> xlate F (mem s') (Suc l) pt va = xlate F (mem s) (Suc l) pt va"
proof -
  let ?e = "ent (mem s) pt i" and ?m = "mem s" and ?m' = "mem s'"
  let ?T = "tpages F ?m (Suc l) pt" and ?C = "tpages F ?m l (pf_addr F ?e)"
  let ?K = "set (take k fl)"
  have wf: "twf F ?m (Suc l) pt" and dj: "?T \<inter> set fl = {}"
    using inv by (auto simp: tinv_def)
  have c: "?C = cpages F ?m l pt i" using tbl by (simp add: cpages_def)
  have sub: "cpages F ?m l pt j \<subseteq> ?T" if "j < 512" for j using that by (auto simp: tpages_Suc)
  have K: "?K \<subseteq> set fl" by (rule set_take_subset)
  have fr: "mframe ?m ?m' (?C \<union> ?K)" and wfc: "twf F ?m' l (pf_addr F ?e)"
    and pc: "tpages F ?m' l (pf_addr F ?e) \<subseteq> ?C \<union> ?K" and fl': "fl_inv s' (drop k fl)"
    using gr by (auto simp: grown_def)
  have ptT: "pt \<in> ?T" by simp
  have ptn: "pt \<notin> ?C \<union> ?K" using wf i c dj K ptT unfolding twf.simps by blast
  have alpt: "aligned 12 pt" using wf by (simp add: twf.simps)
  have entpt: "ent ?m' pt j = ent ?m pt j" if "j < 512" for j
    using fr ptn alpt that by (auto simp: mframe_def)
  have dis: "cpages F ?m l pt i \<inter> cpages F ?m l pt j = {}" if "j < 512" "j \<noteq> i" for j
    using wf that i unfolding twf.simps by blast
  have disK: "cpages F ?m l pt j \<inter> ?K = {}" if "j < 512" for j using sub[OF that] dj K by blast
  have eq: "eqon ?m ?m' (\<Union>j\<in>{j. j < 512 \<and> j \<noteq> i}. cpages F ?m l pt j)"
  proof (rule mframe_eqon[OF fr])
    fix q assume "q \<in> (\<Union>j\<in>{j. j < 512 \<and> j \<noteq> i}. cpages F ?m l pt j)"
    then obtain j where "j < 512" "j \<noteq> i" "q \<in> cpages F ?m l pt j" by blast
    then show "aligned 12 q \<and> q \<notin> ?C \<union> ?K"
      using dis disK sub twf_aligned[OF wf] unfolding c by blast
  qed
  have c': "cpages F ?m' l pt i = tpages F ?m' l (pf_addr F ?e)"
    using tbl entpt[OF i] by (simp add: cpages_def)
  have oth: "\<And>j. j < 512 \<Longrightarrow> j \<noteq> i \<Longrightarrow> ent ?m' pt j = ent ?m pt j" by (simp add: entpt)
  have ok: "entry_ok F (Suc l) (ent ?m' pt i)" using wf i entpt[OF i] by (simp add: twf.simps)
  have ch: "is_table F (Suc l) (ent ?m' pt i) \<Longrightarrow> twf F ?m' l (pf_addr F (ent ?m' pt i))"
    using wfc entpt[OF i] by simp
  have self: "pt \<notin> cpages F ?m' l pt i" using c' pc ptn by auto
  have no: "cpages F ?m' l pt i \<inter> cpages F ?m l pt j = {}" if "j < 512" "j \<noteq> i" for j
    using c' pc dis[OF that] disK[OF that(1)] unfolding c by auto
  note upd = tbl_update[OF wf i oth ok eq ch self no]
  have "twf F ?m' (Suc l) pt" by (rule upd(1))
  moreover have "tpages F ?m' (Suc l) pt \<subseteq> ?T \<union> ?K"
    using upd(2) c' pc sub i unfolding c by (auto simp: tpages_Suc)
  moreover have "mframe ?m ?m' (?T \<union> ?K)"
    using sub[OF i] by (intro mframe_mono[OF fr]) (auto simp: c)
  ultimately show "grown F s fl s' k (Suc l) pt" using fl' by (simp add: grown_def)
  show "ent ?m' pt i = ?e" by (rule entpt[OF i])
  show "xlate F ?m' (Suc l) pt va = xlate F ?m (Suc l) pt va" if "pt_idx (Suc l) va \<noteq> i"
    using that by (intro tbl_update(3)[OF wf i oth ok eq _ self no] ch)
qed

lemma store_leaf:
  assumes inv: "tinv F s fl (Suc l) pt" and i: "i < 512"
    and pte: "\<not> is_table F (Suc l) pte" "entry_ok F (Suc l) pte"
    and s': "s' = s\<lparr>mem := st64 (mem s) (pt + 8 * i) pte\<rparr>"
  shows "grown F s fl s' 0 (Suc l) pt"
    and "xlate F (mem s') (Suc l) pt va =
      (if pt_idx (Suc l) va = i then pte_xl F (Suc l) pte va else xlate F (mem s) (Suc l) pt va)"
proof -
  let ?m = "mem s" and ?m' = "st64 (mem s) (pt + 8 * i) pte"
  let ?T = "tpages F ?m (Suc l) pt"
  have wf: "twf F ?m (Suc l) pt" and dj: "?T \<inter> set fl = {}" and fi: "fl_inv s fl"
    using inv by (auto simp: tinv_def)
  have al: "aligned 12 pt" using wf by (simp add: twf.simps)
  have fr: "mframe ?m ?m' {pt}" by (rule mframe_st64[OF al i])
  have entpt: "ent ?m' pt j = (if j = i then pte else ent ?m pt j)" if "j < 512" for j
    using that i al by (simp add: ent_st64)
  have sub: "cpages F ?m l pt j \<subseteq> ?T" if "j < 512" for j using that by (auto simp: tpages_Suc)
  have c': "cpages F ?m' l pt i = {}" using pte entpt[OF i] by (simp add: cpages_def)
  have eq: "eqon ?m ?m' (\<Union>j\<in>{j. j < 512 \<and> j \<noteq> i}. cpages F ?m l pt j)"
  proof (rule mframe_eqon[OF fr])
    fix q assume "q \<in> (\<Union>j\<in>{j. j < 512 \<and> j \<noteq> i}. cpages F ?m l pt j)"
    then obtain j where "j < 512" "q \<in> cpages F ?m l pt j" by blast
    moreover have "pt \<notin> cpages F ?m l pt j" using wf \<open>j < 512\<close> by (simp add: twf.simps)
    ultimately show "aligned 12 q \<and> q \<notin> {pt}" using sub twf_aligned[OF wf] by blast
  qed
  have oth: "\<And>j. j < 512 \<Longrightarrow> j \<noteq> i \<Longrightarrow> ent ?m' pt j = ent ?m pt j" by (simp add: entpt)
  have ok: "entry_ok F (Suc l) (ent ?m' pt i)" using pte entpt[OF i] by simp
  have ch: "is_table F (Suc l) (ent ?m' pt i) \<Longrightarrow> twf F ?m' l (pf_addr F (ent ?m' pt i))"
    using pte entpt[OF i] by simp
  have self: "pt \<notin> cpages F ?m' l pt i" using c' by simp
  have no: "cpages F ?m' l pt i \<inter> cpages F ?m l pt j = {}" if "j < 512" "j \<noteq> i" for j
    using c' by simp
  note upd = tbl_update[OF wf i oth ok eq ch self no]
  have "pt \<in> ?T" by simp
  then have "set fl \<inter> {pt} = {}" using dj by blast
  then have "fl_inv s' fl"
    using fi flist_mframe[OF _ fr] by (simp add: fl_inv_def s')
  moreover have "tpages F ?m' (Suc l) pt \<subseteq> ?T" using upd(2) c' by (auto simp: tpages_Suc)
  ultimately show "grown F s fl s' 0 (Suc l) pt"
    using upd(1) mframe_mono[OF fr, of ?T] by (simp add: grown_def s')
  show "xlate F (mem s') (Suc l) pt va =
      (if pt_idx (Suc l) va = i then pte_xl F (Suc l) pte va else xlate F (mem s) (Suc l) pt va)"
  proof (cases "pt_idx (Suc l) va = i")
    case True
    then show ?thesis using pte entpt[OF i]
      by (subst xlate.simps) (auto simp: s' Let_def pte_xl_def is_table_def)
  next
    case False
    then show ?thesis using tbl_update(3)[OF wf i oth ok eq ch self no] by (simp add: s')
  qed
qed

section \<open>The interface of one step down\<close>

text \<open>
  What an installer owes at one level: after \<open>step\<close> the slot points to a table; translations are
  unchanged; a slot that already pointed to a table is left alone and otherwise exactly one page
  is taken. \<open>splits\<close> says whether the step can also break up a large page that is in the way.
\<close>

locale table_step =
  fixes F :: ptfmt
    and step :: "nat \<Rightarrow> u64 \<Rightarrow> u64 \<Rightarrow> 'a pa_state_scheme \<Rightarrow> 'a pa_state_scheme option"
    and splits :: bool
  assumes present_0: "\<not> pf_present F 0"
    and step_table: "is_table F l (ent (mem s) pt i) \<Longrightarrow> 2 \<le> l \<Longrightarrow> l \<le> 4 \<Longrightarrow>
      entry_ok F l (ent (mem s) pt i) \<Longrightarrow> step l pt i s = Some s"
    and step_new: "tinv F s fl l pt \<Longrightarrow> 2 \<le> l \<Longrightarrow> l \<le> 4 \<Longrightarrow> i < 512 \<Longrightarrow> fl \<noteq> [] \<Longrightarrow>
      \<not> is_table F l (ent (mem s) pt i) \<Longrightarrow> splits \<or> \<not> pf_present F (ent (mem s) pt i) \<Longrightarrow>
      \<exists>s'. step l pt i s = Some s' \<and> grown F s fl s' 1 l pt \<and>
        is_table F l (ent (mem s') pt i) \<and>
        (\<forall>va. xlate F (mem s') l pt va = xlate F (mem s) l pt va) \<and>
        (\<forall>j<512. \<not> is_table F (l - 1) (ent (mem s') (pf_addr F (ent (mem s') pt i)) j)) \<and>
        (\<not> pf_present F (ent (mem s) pt i) \<longrightarrow>
          (\<forall>j<512. \<not> pf_present F (ent (mem s') (pf_addr F (ent (mem s') pt i)) j)))"
begin

lemma step_down:
  assumes inv: "tinv F s fl (Suc l) pt" and l: "1 \<le> k" "k \<le> l" "l < 4"
    and pages: "missing F (mem s) k (Suc l) pt va \<le> length fl"
    and way: "splits \<or> nolarge F (mem s) k (Suc l) pt va"
  shows "\<exists>s1 c1. step (Suc l) pt (pt_idx (Suc l) va) s = Some s1 \<and>
    grown F s fl s1 c1 (Suc l) pt \<and>
    is_table F (Suc l) (ent (mem s1) pt (pt_idx (Suc l) va)) \<and>
    (\<forall>va. xlate F (mem s1) (Suc l) pt va = xlate F (mem s) (Suc l) pt va) \<and>
    c1 + missing F (mem s1) k l (pf_addr F (ent (mem s1) pt (pt_idx (Suc l) va))) va =
      missing F (mem s) k (Suc l) pt va \<and>
    (splits \<or> nolarge F (mem s1) k l (pf_addr F (ent (mem s1) pt (pt_idx (Suc l) va))) va)"
proof (cases "is_table F (Suc l) (ent (mem s) pt (pt_idx (Suc l) va))")
  case True
  have "grown F s fl s 0 (Suc l) pt" using inv by (simp add: grown_def tinv_def)
  moreover have "step (Suc l) pt (pt_idx (Suc l) va) s = Some s"
    using True inv l by (intro step_table) (auto simp: tinv_def twf.simps)
  ultimately show ?thesis using True way l
    by (intro exI[of _ s] exI[of _ 0]) (auto simp: Let_def is_table_def)
next
  case False
  then have "fl \<noteq> []" using pages l by auto
  moreover have "splits \<or> \<not> pf_present F (ent (mem s) pt (pt_idx (Suc l) va))"
    using way False l by (auto simp: Let_def is_table_def)
  ultimately obtain s1 where s1: "step (Suc l) pt (pt_idx (Suc l) va) s = Some s1"
      "grown F s fl s1 1 (Suc l) pt" "is_table F (Suc l) (ent (mem s1) pt (pt_idx (Suc l) va))"
      "\<forall>va. xlate F (mem s1) (Suc l) pt va = xlate F (mem s) (Suc l) pt va"
      "\<forall>j<512. \<not> is_table F l (ent (mem s1) (pf_addr F (ent (mem s1) pt (pt_idx (Suc l) va))) j)"
      "\<not> pf_present F (ent (mem s) pt (pt_idx (Suc l) va)) \<longrightarrow>
        (\<forall>j<512. \<not> pf_present F (ent (mem s1) (pf_addr F (ent (mem s1) pt (pt_idx (Suc l) va))) j))"
    using step_new[OF inv, of "pt_idx (Suc l) va"] False l by auto
  obtain l' where l': "l = Suc l'" using l by (cases l) auto
  let ?c = "pf_addr F (ent (mem s1) pt (pt_idx (Suc l) va))"
  have "missing F (mem s1) k l ?c va = l - k"
    using s1(5) l l' by (cases "l \<le> k") auto
  moreover have "missing F (mem s) k (Suc l) pt va = Suc l - k" using False l by simp
  moreover have "splits \<or> nolarge F (mem s1) k l ?c va"
    using s1(6) way False l l' by (auto simp: Let_def is_table_def)
  ultimately show ?thesis using s1 l by (intro exI[of _ s1] exI[of _ 1]) auto
qed

lemma install_correct:
  assumes "tinv F s fl n pt" "1 \<le> k" "k \<le> n" "n \<le> 4"
    and "missing F (mem s) k n pt va \<le> length fl"
    and "splits \<or> nolarge F (mem s) k n pt va"
    and pte: "\<not> is_table F k pte" "entry_ok F k pte"
  shows "\<exists>s'. radix_install step (pf_addr F) k n va pte pt s = Some s' \<and>
    grown F s fl s' (missing F (mem s) k n pt va) n pt \<and>
    missing F (mem s') k n pt va = 0 \<and>
    (\<forall>va'. xlate F (mem s') n pt va' =
      (if same_region k n va va' then pte_xl F k pte va' else xlate F (mem s) n pt va'))"
  using assms(1-6)
proof (induction n arbitrary: s fl pt)
  case (Suc l)
  show ?case
  proof (cases "k = Suc l")
    case True
    have pte': "\<not> is_table F (Suc l) pte" "entry_ok F (Suc l) pte" using pte True by simp_all
    note sl = store_leaf[OF Suc.prems(1) pt_idx_less pte' refl]
    have "same_region k k va va' \<longleftrightarrow> pt_idx k va' = pt_idx k va" for va'
      by (auto simp: same_region_def)
    then show ?thesis
      using True by (simp add: radix_install_def sl(1) sl(2)[simplified])
  next
    case False
    then have k: "k \<le> l" using Suc.prems by simp
    let ?i = "pt_idx (Suc l) va"
    obtain s1 c1 where s1: "step (Suc l) pt ?i s = Some s1" "grown F s fl s1 c1 (Suc l) pt"
      "is_table F (Suc l) (ent (mem s1) pt ?i)"
      "\<forall>va. xlate F (mem s1) (Suc l) pt va = xlate F (mem s) (Suc l) pt va"
      "c1 + missing F (mem s1) k l (pf_addr F (ent (mem s1) pt ?i)) va =
        missing F (mem s) k (Suc l) pt va"
      "splits \<or> nolarge F (mem s1) k l (pf_addr F (ent (mem s1) pt ?i)) va"
      using step_down[OF Suc.prems(1,2) k _ Suc.prems(5,6)] Suc.prems(4) by auto
    let ?c = "pf_addr F (ent (mem s1) pt ?i)" and ?fl = "drop c1 fl"
    have inv1: "tinv F s1 ?fl (Suc l) pt" by (rule grown_tinv[OF Suc.prems(1) s1(2)])
    have invc: "tinv F s1 ?fl l ?c" by (rule tinv_child[OF inv1 pt_idx_less s1(3)])
    have len: "missing F (mem s1) k l ?c va \<le> length ?fl"
      using s1(5) Suc.prems(5) by simp
    obtain s' where s': "radix_install step (pf_addr F) k l va pte ?c s1 = Some s'"
      "grown F s1 ?fl s' (missing F (mem s1) k l ?c va) l ?c"
      "missing F (mem s') k l ?c va = 0"
      "\<forall>va'. xlate F (mem s') l ?c va' =
        (if same_region k l va va' then pte_xl F k pte va' else xlate F (mem s1) l ?c va')"
      using Suc.IH[OF invc Suc.prems(2) k _ len s1(6)] Suc.prems(4) by auto
    note s'x = s'(4)
    note gc = grown_child[OF inv1 pt_idx_less s1(3) s'(2)]
    have "radix_install step (pf_addr F) k (Suc l) va pte pt s = Some s'"
      using s1(1) s'(1) k by (simp add: radix_install_def)
    moreover have "grown F s fl s' (missing F (mem s) k (Suc l) pt va) (Suc l) pt"
      using grown_trans[OF s1(2) gc(1)] s1(5) by simp
    moreover have "missing F (mem s') k (Suc l) pt va = 0"
      using s'(3) s1(3) gc(2) k by simp
    moreover have "xlate F (mem s') (Suc l) pt va' =
        (if same_region k (Suc l) va va' then pte_xl F k pte va'
         else xlate F (mem s) (Suc l) pt va')" for va'
    proof (cases "pt_idx (Suc l) va' = ?i")
      case True
      have p1: "pf_pass F (ent (mem s1) pt ?i) = - 1"
        using inv1 s1(3) by (intro table_pass) (auto simp: tinv_def)
      have "xlate F (mem s') (Suc l) pt va' = xlate F (mem s') l ?c va'"
        using xlate_table[of F l "mem s'" pt va'] True gc(2) s1(3) p1 by simp
      also have "\<dots> = (if same_region k l va va' then pte_xl F k pte va'
          else xlate F (mem s1) l ?c va')" using s'x by blast
      also have "xlate F (mem s1) l ?c va' = xlate F (mem s) (Suc l) pt va'"
        using xlate_table[of F l "mem s1" pt va'] True s1(3,4) p1 by simp
      finally show ?thesis using True k by (simp add: same_region_Suc)
    next
      case False
      then show ?thesis using gc(3) s1(4) k by (simp add: same_region_Suc)
    qed
    ultimately show ?thesis by blast
  qed
qed simp

end

section \<open>Filling a new table\<close>

text \<open>The loop that splits a large page: \<^verbatim>\<open>new_pt[i] = prototype | gpa; gpa += inc\<close>, with the
  number of iterations left as its first argument.\<close>

fun fill_entries :: "nat \<Rightarrow> u64 \<Rightarrow> u64 \<Rightarrow> u64 \<Rightarrow> u64 \<Rightarrow> u64 \<Rightarrow> mem \<Rightarrow> mem" where
  "fill_entries 0 new_pt i prototype gpa inc m = m"
| "fill_entries (Suc n) new_pt i prototype gpa inc m =
     fill_entries n new_pt (i + 1) prototype (gpa + inc) inc
       (st64 m (new_pt + 8 * i) (prototype OR gpa))"

lemma ent_fill_entries:
  assumes "aligned 12 p" "aligned 12 q" "unat i + n \<le> 512" "j < 512"
  shows "ent (fill_entries n p i pr g inc m) q j =
    (if q = p \<and> i \<le> j \<and> unat j < unat i + n then pr OR (g + (j - i) * inc) else ent m q j)"
  using assms(3)
proof (induction n arbitrary: i g m)
  case (Suc n)
  have i: "i < 512" using Suc.prems by (simp add: word_less_nat_alt)
  have s: "unat (i + 1) = Suc (unat i)" by (rule unat_inc[OF i])
  have IH: "ent (fill_entries (Suc n) p i pr g inc m) q j =
    (if q = p \<and> i < j \<and> unat j < unat i + Suc n then pr OR (g + inc + (j - (i + 1)) * inc)
     else ent (st64 m (p + 8 * i) (pr OR g)) q j)"
    using Suc.IH[of "i + 1"] Suc.prems s by (simp add: inc_le_iff[OF i])
  have "g + inc + (j - (i + 1)) * inc = g + (j - i) * inc"
    by (simp add: ring_distribs)
  then have "(if q = p \<and> i < j \<and> unat j < unat i + Suc n then pr OR (g + inc + (j - (i + 1)) * inc)
     else ent (st64 m (p + 8 * i) (pr OR g)) q j) =
    (if q = p \<and> i < j \<and> unat j < unat i + Suc n then pr OR (g + (j - i) * inc)
     else ent (st64 m (p + 8 * i) (pr OR g)) q j)" by (simp only:)
  then have eq: "ent (fill_entries (Suc n) p i pr g inc m) q j = (if q = p \<and> i < j \<and>
    unat j < unat i + Suc n then pr OR (g + (j - i) * inc)
     else ent (st64 m (p + 8 * i) (pr OR g)) q j)" unfolding IH .
  show ?case
  proof (cases "i = j")
    case True
    then show ?thesis using assms(1,2,4) unfolding eq by (simp add: ent_st64)
  next
    case False
    then have "i < j \<longleftrightarrow> i \<le> j" by (simp add: less_le)
    then show ?thesis using assms(1,2,4) i False unfolding eq by (simp add: ent_st64)
  qed
qed (auto simp: word_le_nat_alt)

lemma fill_table:
  assumes "aligned 12 p" "j < 512"
  shows "ent (fill_entries 512 p 0 pr g inc m) p j = pr OR (g + j * inc)"
  using assms ent_fill_entries[of p p 0 512 j] by (simp add: word_less_nat_alt)

lemma mframe_fill_entries: "aligned 12 p \<Longrightarrow> mframe m (fill_entries 512 p 0 pr g inc m) {p}"
  using ent_fill_entries[of p _ 0 512] by (auto simp: mframe_def)

text \<open>A table of 512 leaves that cover a large page one level up translates as that page did.\<close>

lemma take_bit_pt_shift:
  assumes "1 \<le> l"
  shows "take_bit (pt_shift (Suc l)) va =
    pt_idx l va * 2 ^ pt_shift l + take_bit (pt_shift l) va"
proof -
  have s: "pt_shift (Suc l) = 9 + pt_shift l" using assms by (simp add: pt_shift_def)
  have "take_bit (pt_shift (Suc l)) va =
      push_bit (pt_shift l) (drop_bit (pt_shift l) (take_bit (pt_shift (Suc l)) va)) +
      take_bit (pt_shift l) (take_bit (pt_shift (Suc l)) va)"
    by (rule bits_ident[symmetric])
  also have "drop_bit (pt_shift l) (take_bit (pt_shift (Suc l)) va) = pt_idx l va"
    by (simp add: s drop_bit_take_bit pt_idx_take_bit)
  also have "take_bit (pt_shift l) (take_bit (pt_shift (Suc l)) va) = take_bit (pt_shift l) va"
    by (simp add: s)
  finally show ?thesis by (simp add: push_bit_eq_mult)
qed

lemma split_table:
  assumes p: "aligned 12 p" and l: "1 \<le> l" "l \<le> 2" and g: "aligned (pt_shift (Suc l)) g"
    and c: "\<And>j. j < 512 \<Longrightarrow> pf_present F (ent m p j) \<and> is_leaf F l (ent m p j) \<and>
      pf_addr F (ent m p j) = g + j * 2 ^ pt_shift l \<and> pf_attr F (ent m p j) = at \<and>
      (1 < l \<longrightarrow> pf_pass F (ent m p j) = - 1)"
  shows "twf F m l p" "tpages F m l p = {p}"
    "xlate F m l p va = Some (g + take_bit (pt_shift (Suc l)) va, at)"
proof -
  obtain l0 where l0: "l = Suc l0" using l by (cases l) auto
  have nt: "\<not> is_table F l (ent m p j)" if "j < 512" for j using c[OF that] by (simp add: is_table_def)
  then have cp: "cpages F m l0 p j = {}" if "j < 512" for j using that l0 by (simp add: cpages_def)
  have sh: "pt_shift l \<le> 64" "pt_shift l \<le> pt_shift (Suc l)" using l by (auto simp: pt_shift_def)
  have "aligned (pt_shift l) (g + j * 2 ^ pt_shift l)" for j
    using aligned_weaken[OF g sh(2)] aligned_mult[of "pt_shift l" j] sh(1)
    by (intro aligned_add) (auto simp: mult.commute)
  then have "entry_ok F l (ent m p j)" if "j < 512" for j
    using c[OF that] l by (simp add: entry_ok_def)
  then show "twf F m l p" using p nt cp by (simp add: l0 twf.simps)
  show "tpages F m l p = {p}" using cp by (simp add: l0 tpages_Suc)
  have "xlate F m l p va = Some (leaf_xl F l (ent m p (pt_idx l va)) va)"
    using c[of "pt_idx l va"] unfolding l0 by (subst xlate.simps) (simp add: Let_def)
  also have "\<dots> = Some (g + take_bit (pt_shift (Suc l)) va, at)"
    using c[of "pt_idx l va"] take_bit_pt_shift[OF l(1)] by (simp add: leaf_xl_def add.assoc)
  finally show "xlate F m l p va = Some (g + take_bit (pt_shift (Suc l)) va, at)" .
qed

end
