(* ===== verification/Radix_Map.thy ===== *)
theory Radix_Map
  imports Radix
begin

text \<open>
  Runs of installations: mapping a range page by page, at one level, and how many pages of the
  allocator that takes. Shared by the extended page tables, the page tables and the tables of the
  IOMMU.
\<close>

section \<open>Ranges of addresses\<close>

lemma drop_bit_zero_iff: "n < 64 \<Longrightarrow> drop_bit n (a::u64) = 0 \<longleftrightarrow> a < 2 ^ n"
proof -
  assume n: "n < 64"
  have "unat (of_nat (2 ^ n) :: u64) = 2 ^ n" using n
    by (simp only: unat_of_nat) (simp add: power_strict_increasing_iff[of "2::nat" n 64, simplified])
  then have "unat (2 ^ n :: u64) = 2 ^ n" by simp
  moreover have "drop_bit n a = 0 \<longleftrightarrow> unat a div 2 ^ n = 0"
    by (simp add: word_unat_eq_iff unat_drop_bit)
  ultimately show ?thesis by (simp add: word_less_nat_alt div_eq_0_iff)
qed

lemma unat_pow2: "n < 64 \<Longrightarrow> unat (2 ^ n :: u64) = 2 ^ n"
proof -
  assume n: "n < 64"
  have "unat (of_nat (2 ^ n) :: u64) = 2 ^ n" using n
    by (simp only: unat_of_nat) (simp add: power_strict_increasing_iff[of "2::nat" n 64, simplified])
  then show ?thesis by simp
qed

lemma block_iff:
  assumes "aligned n p" "n < 64"
  shows "drop_bit n va = drop_bit n p \<longleftrightarrow> unat p \<le> unat va \<and> unat va < unat p + 2 ^ n"
proof -
  obtain q where q: "unat p = 2 ^ n * q"
    using assms by (auto simp: aligned_iff_mod mod_eq_0_iff_dvd elim: dvdE)
  have "unat va div 2 ^ n = q \<longleftrightarrow> 2 ^ n * q \<le> unat va \<and> unat va < 2 ^ n * q + 2 ^ n"
    using dividend_less_times_div[of "2 ^ n" "unat va"] times_div_less_eq_dividend[of "2 ^ n" "unat va"]
    by (auto intro!: div_nat_eqI)
  then show ?thesis using q by (simp add: word_unat_eq_iff unat_drop_bit)
qed

section \<open>Pages a run needs\<close>

text \<open>How many new tables a run of \<open>n\<close> entries at level \<open>k\<close> needs beyond those missing for the
  first: one per border of a region of a higher level that is crossed.\<close>

definition new_tables :: "nat \<Rightarrow> nat \<Rightarrow> nat \<Rightarrow> nat" where
  "new_tables k a n = (\<Sum>l = Suc k..4. (a + (n - 1) * 2 ^ pt_shift k) div 2 ^ pt_shift l
                                       - a div 2 ^ pt_shift l)"

lemma new_tables_Suc:
  assumes "0 < n"
  shows "new_tables k a 2 + new_tables k (a + 2 ^ pt_shift k) n = new_tables k a (Suc n)"
proof -
  have e: "a + 2 ^ pt_shift k + (n - 1) * 2 ^ pt_shift k = a + (Suc n - 1) * 2 ^ pt_shift k"
    using assms by (cases n) simp_all
  have "((a + 2 ^ pt_shift k) div d - a div d) +
      ((a + (Suc n - 1) * 2 ^ pt_shift k) div d - (a + 2 ^ pt_shift k) div d) =
      (a + (Suc n - 1) * 2 ^ pt_shift k) div d - a div d" for d
  proof -
    have "a div d \<le> (a + 2 ^ pt_shift k) div d"
      "(a + 2 ^ pt_shift k) div d \<le> (a + (Suc n - 1) * 2 ^ pt_shift k) div d"
      unfolding e[symmetric] by (simp_all add: div_le_mono)
    then show ?thesis by simp
  qed
  then show ?thesis unfolding new_tables_def e
    by (simp add: sum.distrib[symmetric])
qed

lemma missing_next:
  assumes k: "1 \<le> k" "k \<le> 3" and m: "missing F m k 4 root p = 0"
    and p: "p < 2 ^ 48" "q < 2 ^ 48" "unat q = unat p + 2 ^ pt_shift k"
  shows "missing F m k 4 root q \<le> new_tables k (unat p) 2"
proof -
  define D where "D l = unat q div 2 ^ pt_shift l - unat p div 2 ^ pt_shift l" for l
  define d where "d = (\<Sum>l = Suc k..4. D l)"
  have dd: "new_tables k (unat p) 2 = d" by (simp add: new_tables_def d_def D_def p(3))
  show ?thesis
  proof (cases "4 \<le> k + d")
    case True
    then show ?thesis unfolding dd using missing_le[of F m k 4 root q] by simp
  next
    case False
    have "\<exists>l\<in>{Suc k..Suc (k + d)}. D l = 0"
    proof (rule ccontr)
      assume "\<not> ?thesis"
      then have "1 \<le> D l" if "l \<in> {Suc k..Suc (k + d)}" for l using that by (simp add: Suc_le_eq)
      then have "of_nat (card {Suc k..Suc (k + d)}) * 1 \<le> sum D {Suc k..Suc (k + d)}"
        by (intro sum_bounded_below) auto
      also have "\<dots> \<le> sum D {Suc k..4}" using False by (intro sum_mono2) auto
      finally show False by (simp add: d_def[symmetric])
    qed
    then obtain l where l: "Suc k \<le> l" "l \<le> Suc (k + d)" "D l = 0" by auto
    have "unat p div 2 ^ pt_shift l \<le> unat q div 2 ^ pt_shift l" by (simp add: p(3) div_le_mono)
    then have "drop_bit (pt_shift l) q = drop_bit (pt_shift l) p"
      using l(3) by (simp add: D_def word_unat_eq_iff unat_drop_bit)
    then have "same_region l 4 p q"
      using same_region_iff[of l 4 p q] l False k p drop_bit_zero_iff[of 48 p] drop_bit_zero_iff[of 48 q]
      by simp
    then have "missing F m k 4 root q \<le> l - 1 - k" using missing_shared[OF m] l by simp
    then show ?thesis unfolding dd using l by simp
  qed
qed

section \<open>Entries with an address in bits 12 to 51\<close>

definition addr_mask :: u64 where
  "addr_mask = GENMASK_ULL 51 12"

lemma bit_addr_mask: "bit addr_mask n \<longleftrightarrow> 12 \<le> n \<and> n < 52"
  unfolding addr_mask_def by (auto simp: bit_GENMASK_ULL)

lemma mask_addr: "aligned 12 p \<Longrightarrow> drop_bit 52 p = 0 \<Longrightarrow> p AND addr_mask = p"
  using aligned_bit[of 12 p] high_bit[of 52 p]
  by (intro bit_word_eqI) (auto simp: bit_simps bit_addr_mask not_less[symmetric])

lemma mask_flags: "e AND addr_mask = 0 \<Longrightarrow> aligned 12 p \<Longrightarrow> drop_bit 52 p = 0 \<Longrightarrow>
   (e OR p) AND addr_mask = p"
  by (simp add: bit.conj_disj_distrib2 mask_addr)

definition ps_bit :: u64 where
  "ps_bit = 0x80"

lemma bit_ps_bit: "bit ps_bit n \<longleftrightarrow> n = 7"
proof -
  have e: "ps_bit = 2 ^ 7" by (simp add: ps_bit_def)
  show ?thesis unfolding e bit_exp_iff by auto
qed

text \<open>The entries a split writes: the frame is as it was, one step further, and the other bits are
  those of the large entry, without the large-page bit at the last level.\<close>

lemma split_child:
  assumes l: "1 \<le> l" "l \<le> 2" and g: "aligned (pt_shift (Suc l)) (e AND addr_mask)" and j: "j < 512"
  defines "pr \<equiv> (if l = 1 then e AND NOT addr_mask AND NOT ps_bit else e AND NOT addr_mask)"
    and "c \<equiv> (e AND addr_mask) + j * 2 ^ pt_shift l"
  shows "(pr OR c) AND addr_mask = c"
    "n < 12 \<or> 52 \<le> n \<Longrightarrow> bit (pr OR c) n \<longleftrightarrow> bit e n \<and> (n = 7 \<longrightarrow> l \<noteq> 1)"
proof -
  let ?g = "e AND addr_mask" and ?k = "j * 2 ^ pt_shift l"
  have "take_bit 9 j = j" using j
    by (simp add: word_unat_eq_iff unsigned_take_bit_eq word_less_nat_alt take_bit_nat_eq_self)
  then have bj: "bit j n \<Longrightarrow> n < 9" for n by (metis bit_take_bit_iff)
  have bk: "bit ?k n \<Longrightarrow> pt_shift l \<le> n \<and> n < pt_shift (Suc l)" for n
    using bj[of "n - pt_shift l"] l
    by (auto simp: bit_simps pt_shift_def simp flip: push_bit_eq_mult)
  have "?g AND ?k = 0"
    using aligned_bit[OF g] bk by (intro bit_word_eqI) (auto simp: bit_simps)
  then have c_or: "c = ?g OR ?k" unfolding c_def by (rule disjunctive_add_eq_or)
  have bc: "bit c n \<Longrightarrow> 12 \<le> n \<and> n < 52" for n
    using bk[of n] l by (auto simp: c_or bit_simps bit_addr_mask pt_shift_def)
  have m: "c AND addr_mask = c"
    using bc by (intro bit_word_eqI) (auto simp: bit_simps bit_addr_mask)
  have "pr AND addr_mask = 0"
    by (rule bit_word_eqI) (auto simp: pr_def bit_simps)
  then show "(pr OR c) AND addr_mask = c" using m by (simp add: bit.conj_disj_distrib2)
  show "bit (pr OR c) n \<longleftrightarrow> bit e n \<and> (n = 7 \<longrightarrow> l \<noteq> 1)" if "n < 12 \<or> 52 \<le> n"
    using that bc[of n] by (auto simp: pr_def bit_simps bit_addr_mask bit_ps_bit dest: bit_imp_le_length)
qed

text \<open>Replacing a large entry \<open>e\<close> by a table \<open>e'\<close> whose entries cover the same frames.\<close>

lemma split_attach:
  assumes inv: "tinv F s (p # ps) (Suc (Suc l)) pt" and i: "i < 512" and l: "Suc l \<le> 2"
    and e: "pf_present F (ent (mem s) pt i)" "is_leaf F (Suc (Suc l)) (ent (mem s) pt i)"
    and fr: "mframe (mem s) m1 {p}"
    and c: "\<And>j. j < 512 \<Longrightarrow> pf_present F (ent m1 p j) \<and> is_leaf F (Suc l) (ent m1 p j) \<and>
      pf_addr F (ent m1 p j) = pf_addr F (ent (mem s) pt i) + j * 2 ^ pt_shift (Suc l) \<and>
      pf_attr F (ent m1 p j) = pf_attr F (ent (mem s) pt i) \<and>
      (1 < Suc l \<longrightarrow> pf_pass F (ent m1 p j) = - 1)"
    and e': "pf_present F e'" "\<not> pf_large F e'" "pf_addr F e' = p" "pf_pass F e' = - 1"
    and s': "mem s' = st64 m1 (pt + 8 * i) e'" "freelist s' = ld64 (mem s) p" "pa_lock s' = 0"
  shows "grown F s (p # ps) s' 1 (Suc (Suc l)) pt"
    "is_table F (Suc (Suc l)) (ent (mem s') pt i)" "ent (mem s') pt i = e'"
    "xlate F (mem s') (Suc (Suc l)) pt va = xlate F (mem s) (Suc (Suc l)) pt va"
    "j < 512 \<Longrightarrow> ent (mem s') p j = ent m1 p j"
proof -
  let ?e = "ent (mem s) pt i" and ?L = "Suc (Suc l)"
  have p: "aligned 12 p" using inv by (auto simp: tinv_def fl_inv_def)
  have "entry_ok F ?L ?e" using inv i by (auto simp: tinv_def twf.simps)
  then have g: "aligned (pt_shift ?L) (pf_addr F ?e)" using e by (simp add: entry_ok_def)
  note sp = split_table[OF p _ l g c]
  have tb: "is_table F ?L e'" using e' by (simp add: is_table_def is_leaf_def)
  have xl: "xlate F m1 (Suc l) p va = xlate F (mem s) ?L pt va" if "pt_idx ?L va = i" for va
    using that e sp(3) by (subst (2) xlate.simps) (simp add: Let_def leaf_xl_def)
  have old: "\<not> is_table F ?L ?e" using e(2) by (simp add: is_table_def)
  note at = attach_table[OF inv i fr sp(1,2) tb e'(3,4) e'(2) xl old s']
  show "grown F s (p # ps) s' 1 ?L pt" "is_table F ?L (ent (mem s') pt i)" "ent (mem s') pt i = e'"
    "xlate F (mem s') ?L pt va = xlate F (mem s) ?L pt va"
    "j < 512 \<Longrightarrow> ent (mem s') p j = ent m1 p j"
    using at by auto
qed

section \<open>A run of installations\<close>

fun install_seq ::
  "(nat \<Rightarrow> u64 \<Rightarrow> u64 \<Rightarrow> 'a pa_state_scheme \<Rightarrow> 'a pa_state_scheme option) \<Rightarrow> (u64 \<Rightarrow> u64) \<Rightarrow>
   nat \<Rightarrow> u64 \<Rightarrow> (u64 \<Rightarrow> u64) \<Rightarrow> nat \<Rightarrow> u64 \<Rightarrow> 'a pa_state_scheme \<Rightarrow> 'a pa_state_scheme option" where
  "install_seq step adr k root pte 0 va s = Some s"
| "install_seq step adr k root pte (Suc n) va s = do {
     s \<leftarrow> radix_install step adr k 4 va (pte va) root s;
     install_seq step adr k root pte n (va + 2 ^ pt_shift k) s
   }"

text \<open>The first address of the region of level \<open>k\<close> around an address.\<close>

definition region_base :: "nat \<Rightarrow> u64 \<Rightarrow> u64" where
  "region_base k va = push_bit (pt_shift k) (drop_bit (pt_shift k) va)"

lemma region_base_aligned: "aligned (pt_shift k) p \<Longrightarrow> drop_bit (pt_shift k) va = drop_bit (pt_shift k) p
    \<Longrightarrow> region_base k va = p"
  using bits_ident[of "pt_shift k" p] by (simp add: region_base_def aligned_def)

lemma region_base_plus: "region_base k va + take_bit (pt_shift k) va = va"
  unfolding region_base_def by (rule bits_ident)

lemma unmapped_nolarge: "xlate F m n pt va = None \<Longrightarrow> nolarge F m k n pt va"
proof (induction n arbitrary: pt)
  case (Suc l)
  let ?e = "ent m pt (pt_idx (Suc l) va)"
  show ?case
  proof (cases "pf_present F ?e")
    case True
    then have "\<not> is_leaf F (Suc l) ?e" "xlate F m l (pf_addr F ?e) va = None"
      using Suc.prems by (auto simp: xlate.simps Let_def split: if_splits)
    then show ?thesis using Suc.IH by (simp add: Let_def)
  qed (simp add: Let_def)
qed simp

definition run_ok :: "ptfmt \<Rightarrow> nat \<Rightarrow> (u64 \<Rightarrow> u64) \<Rightarrow> nat \<Rightarrow> u64 \<Rightarrow> bool" where
  "run_ok F k pte n va \<longleftrightarrow> (\<forall>p. aligned (pt_shift k) p \<longrightarrow> unat va \<le> unat p \<longrightarrow>
     unat p < unat va + n * 2 ^ pt_shift k \<longrightarrow> \<not> is_table F k (pte p) \<and> entry_ok F k (pte p))"

text \<open>The state after a run of \<open>n\<close> entries at level \<open>k\<close> from \<open>va\<close> on.\<close>

definition mapped ::
  "ptfmt \<Rightarrow> nat \<Rightarrow> u64 \<Rightarrow> (u64 \<Rightarrow> u64) \<Rightarrow> nat \<Rightarrow> u64 \<Rightarrow> 'a pa_state_scheme \<Rightarrow> 'a pa_state_scheme \<Rightarrow> bool" where
  "mapped F k root pte n va s s' \<longleftrightarrow>
     (\<forall>va'. va' < 2 ^ 48 \<longrightarrow> xlate F (mem s') 4 root va' =
        (if unat va \<le> unat va' \<and> unat va' < unat va + n * 2 ^ pt_shift k
         then pte_xl F k (pte (region_base k va')) va' else xlate F (mem s) 4 root va'))"

text \<open>Enough pages for a run, whatever tables are there already.\<close>

definition run_pages :: "nat \<Rightarrow> nat \<Rightarrow> nat \<Rightarrow> nat" where
  "run_pages k a n = (if n = 0 then 0 else (4 - k) + new_tables k a n)"

context table_step
begin

lemma install_one:
  assumes inv: "tinv F s fl 4 root" and k: "1 \<le> k" "k \<le> 4" and va: "va < 2 ^ 48"
    and pages: "missing F (mem s) k 4 root va \<le> length fl"
    and way: "splits \<or> nolarge F (mem s) k 4 root va"
    and pte: "\<not> is_table F k e" "entry_ok F k e"
  shows "\<exists>s'. radix_install step (pf_addr F) k 4 va e root s = Some s' \<and>
    grown F s fl s' (missing F (mem s) k 4 root va) 4 root \<and>
    missing F (mem s') k 4 root va = 0 \<and>
    (\<forall>va'. va' < 2 ^ 48 \<longrightarrow> xlate F (mem s') 4 root va' =
      (if drop_bit (pt_shift k) va' = drop_bit (pt_shift k) va then pte_xl F k e va'
       else xlate F (mem s) 4 root va'))"
proof -
  have d: "drop_bit 48 a = 0" if "a < 2 ^ 48" for a :: u64 using that drop_bit_zero_iff[of 48 a] by simp
  have sr: "same_region k 4 va va' \<longleftrightarrow> drop_bit (pt_shift k) va' = drop_bit (pt_shift k) va"
    if "va' < 2 ^ 48" for va'
    using same_region_iff[OF k, of va va'] d[OF that] d[OF va] by simp
  obtain s' where "radix_install step (pf_addr F) k 4 va e root s = Some s'"
    "grown F s fl s' (missing F (mem s) k 4 root va) 4 root" "missing F (mem s') k 4 root va = 0"
    "\<forall>va'. xlate F (mem s') 4 root va' =
      (if same_region k 4 va va' then pte_xl F k e va' else xlate F (mem s) 4 root va')"
    using install_correct[OF inv k _ pages way pte] by auto
  then show ?thesis using sr by (intro exI[of _ s']) simp
qed

lemma install_run:
  assumes k: "1 \<le> k" "k \<le> 3" and inv: "tinv F s fl 4 root" and al: "aligned (pt_shift k) va"
    and fit: "unat va + n * 2 ^ pt_shift k \<le> 2 ^ 48" and ok: "run_ok F k pte n va"
    and way: "splits \<or> (\<forall>p. unat va \<le> unat p \<longrightarrow> unat p < unat va + n * 2 ^ pt_shift k \<longrightarrow>
      xlate F (mem s) 4 root p = None)"
    and pages: "0 < n \<Longrightarrow> missing F (mem s) k 4 root va + new_tables k (unat va) n \<le> length fl"
  shows "\<exists>s' c. install_seq step (pf_addr F) k root pte n va s = Some s' \<and>
      grown F s fl s' c 4 root \<and>
      (0 < n \<longrightarrow> c \<le> missing F (mem s) k 4 root va + new_tables k (unat va) n) \<and>
      (n = 0 \<longrightarrow> c = 0) \<and> mapped F k root pte n va s s'"
  using inv al fit ok way pages
proof (induction n arbitrary: s fl va)
  case 0
  have "grown F s fl s 0 4 root" using "0.prems"(1) by (simp add: grown_def tinv_def)
  then show ?case by (auto simp: mapped_def)
next
  case (Suc n)
  let ?st = "2 ^ pt_shift k :: nat" and ?q = "va + 2 ^ pt_shift k"
  have sh: "pt_shift k \<le> 30" using k by (simp add: pt_shift_def)
  have u2: "unat (2 ^ pt_shift k :: u64) = ?st" using sh by (simp add: unat_pow2)
  have room: "unat va + ?st + n * ?st \<le> 2 ^ 48" using Suc.prems(3) by simp
  then have uq: "unat ?q = unat va + ?st" by (simp add: unat_word_ariths u2)
  have st0: "0 < ?st" by simp
  have "unat va < 2 ^ 48" using room st0 by linarith
  then have vle: "va < 2 ^ 48" by (simp add: word_less_nat_alt)
  have miss: "missing F (mem s) k 4 root va \<le> length fl" using Suc.prems(6) by simp
  have pok: "\<not> is_table F k (pte va)" "entry_ok F k (pte va)"
    using Suc.prems(2,4) by (auto simp: run_ok_def)
  have wy: "splits \<or> nolarge F (mem s) k 4 root va"
    using Suc.prems(5) st0 by (auto intro!: unmapped_nolarge)
  have k4: "k \<le> 4" using k by simp
  obtain s1 where s1: "radix_install step (pf_addr F) k 4 va (pte va) root s = Some s1"
    "grown F s fl s1 (missing F (mem s) k 4 root va) 4 root"
    "missing F (mem s1) k 4 root va = 0"
    "\<And>va'. va' < 2 ^ 48 \<Longrightarrow> xlate F (mem s1) 4 root va' =
      (if drop_bit (pt_shift k) va' = drop_bit (pt_shift k) va then pte_xl F k (pte va) va'
       else xlate F (mem s) 4 root va')"
    using install_one[OF Suc.prems(1) k(1) k4 vle miss wy pok] by blast
  have blk: "drop_bit (pt_shift k) va' = drop_bit (pt_shift k) va \<longleftrightarrow>
      unat va \<le> unat va' \<and> unat va' < unat va + ?st" for va'
    using block_iff[OF Suc.prems(2), of va'] sh by simp
  let ?c = "missing F (mem s) k 4 root va" and ?fl = "drop (missing F (mem s) k 4 root va) fl"
  have inv1: "tinv F s1 ?fl 4 root" by (rule grown_tinv[OF Suc.prems(1) s1(2)])
  have alq: "aligned (pt_shift k) ?q"
    using Suc.prems(2) sh aligned_mult[of "pt_shift k" 1] by (intro aligned_add) simp_all
  have fitq: "unat ?q + n * ?st \<le> 2 ^ 48" using room uq by simp
  have okq: "run_ok F k pte n ?q" using Suc.prems(4) uq by (auto simp: run_ok_def)
  have wayq: "splits \<or> (\<forall>p. unat ?q \<le> unat p \<longrightarrow> unat p < unat ?q + n * ?st \<longrightarrow>
      xlate F (mem s1) 4 root p = None)"
  proof (cases splits)
    case False
    have "xlate F (mem s1) 4 root p = None" if "unat ?q \<le> unat p" "unat p < unat ?q + n * ?st" for p
    proof -
      have "p < 2 ^ 48" using that fitq by (simp add: word_less_nat_alt)
      then show ?thesis using s1(4)[of p] blk[of p] that uq Suc.prems(5) False by simp
    qed
    then show ?thesis by blast
  qed simp
  have nxt: "missing F (mem s1) k 4 root ?q + new_tables k (unat ?q) n + ?c \<le>
      ?c + new_tables k (unat va) (Suc n)" if "0 < n"
  proof -
    have "?st \<le> n * ?st" using that by simp
    then have "unat va + ?st < 2 ^ 48" using room st0 by linarith
    then have "?q < 2 ^ 48" using uq by (simp add: word_less_nat_alt)
    then have "missing F (mem s1) k 4 root ?q \<le> new_tables k (unat va) 2"
      using missing_next[OF k s1(3) vle _ uq] by simp
    then show ?thesis using new_tables_Suc[OF that, of k "unat va"] by (simp add: uq)
  qed
  have pg: "missing F (mem s1) k 4 root ?q + new_tables k (unat ?q) n \<le> length ?fl" if "0 < n"
    using nxt[OF that] Suc.prems(6) by simp
  obtain s' c where s': "install_seq step (pf_addr F) k root pte n ?q s1 = Some s'"
      "grown F s1 ?fl s' c 4 root"
      "0 < n \<longrightarrow> c \<le> missing F (mem s1) k 4 root ?q + new_tables k (unat ?q) n"
      "n = 0 \<longrightarrow> c = 0" "mapped F k root pte n ?q s1 s'"
    using Suc.IH[OF inv1 alq fitq okq wayq pg] by blast
  have "install_seq step (pf_addr F) k root pte (Suc n) va s = Some s'" using s1(1) s'(1) by simp
  moreover have "grown F s fl s' (?c + c) 4 root" by (rule grown_trans[OF s1(2) s'(2)])
  moreover have "?c + c \<le> ?c + new_tables k (unat va) (Suc n)"
    using s'(3,4) nxt by (cases n) auto
  moreover have "mapped F k root pte (Suc n) va s s'"
    unfolding mapped_def
  proof (intro allI impI)
    fix va' :: u64 assume va': "va' < 2 ^ 48"
    show "xlate F (mem s') 4 root va' =
        (if unat va \<le> unat va' \<and> unat va' < unat va + Suc n * ?st
         then pte_xl F k (pte (region_base k va')) va' else xlate F (mem s) 4 root va')"
    proof (cases "drop_bit (pt_shift k) va' = drop_bit (pt_shift k) va")
      case True
      then show ?thesis using s'(5) va' s1(4)[OF va'] blk[of va'] uq
          region_base_aligned[OF Suc.prems(2) True] by (auto simp: mapped_def)
    next
      case False
      then show ?thesis using s'(5) va' s1(4)[OF va'] blk[of va'] uq by (auto simp: mapped_def)
    qed
  qed
  ultimately show ?case by blast
qed

lemma install_run_pages:
  assumes "1 \<le> k" "k \<le> 3" "tinv F s fl 4 root" "aligned (pt_shift k) va"
    "unat va + n * 2 ^ pt_shift k \<le> 2 ^ 48" "run_ok F k pte n va"
    "splits \<or> (\<forall>p. unat va \<le> unat p \<longrightarrow> unat p < unat va + n * 2 ^ pt_shift k \<longrightarrow>
      xlate F (mem s) 4 root p = None)"
    and pages: "run_pages k (unat va) n \<le> length fl"
  shows "\<exists>s' c. install_seq step (pf_addr F) k root pte n va s = Some s' \<and>
      grown F s fl s' c 4 root \<and> c \<le> run_pages k (unat va) n \<and> mapped F k root pte n va s s'"
proof -
  have m: "missing F (mem s) k 4 root va \<le> 4 - k" by (rule missing_le)
  then have pg: "0 < n \<Longrightarrow> missing F (mem s) k 4 root va + new_tables k (unat va) n \<le> length fl"
    using pages by (simp add: run_pages_def)
  obtain s' c where "install_seq step (pf_addr F) k root pte n va s = Some s'"
      "grown F s fl s' c 4 root" "0 < n \<longrightarrow> c \<le> missing F (mem s) k 4 root va + new_tables k (unat va) n"
      "n = 0 \<longrightarrow> c = 0" "mapped F k root pte n va s s'"
    using install_run[OF assms(1-7) pg] by blast
  then show ?thesis using m by (intro exI[of _ s'] exI[of _ c]) (auto simp: run_pages_def)
qed

end

end
