(* ===== verification/Hw.thy ===== *)
theory Hw
  imports Radix_Map
begin

text \<open>
  The processor and its devices, as the inline functions of \<^verbatim>\<open>lib/x86/processor.h\<close> and
  \<^verbatim>\<open>lib/x86/asm/io.h\<close> use them. A device is not code of this program: it is a parameter
  \<open>hw\<close> that says what a read returns after a history of accesses, and the state keeps
  that history. Control registers and segment tables are fields of the state.
\<close>

lemma ucast_widen [simp]:
  "ucast (ucast (x::u8) :: u64) = x" "ucast (ucast (y::u16) :: u64) = y"
  "ucast (ucast (z::u32) :: u64) = z" "ucast (ucast (x::u8) :: u32) = x"
  "ucast (ucast (y::u16) :: u32) = y"
  by (auto intro!: bit_word_eqI simp: bit_simps)

section \<open>Accesses and the state of the processor\<close>

datatype ioev =
    PortIn nat u16
  | PortOut nat u16 u32
  | MmioR nat u64
  | MmioW nat u64 u64
  | MsrR u32
  | MsrW u32 u64
  | VmxInsn string u64
  | Insn string

type_synonym hw = "ioev list \<Rightarrow> ioev \<Rightarrow> u64"

record descriptor_table_ptr =
  dt_limit :: u16
  dt_base :: u64

record cpu_state = pa_state +
  trace :: "ioev list"
  cr0 :: u64
  cr2 :: u64
  cr3 :: u64
  cr4 :: u64
  rflags_reg :: u64
  fw_lock :: u32

definition hw_read :: "hw \<Rightarrow> ioev \<Rightarrow> 'a cpu_state_scheme \<Rightarrow> u64 \<times> 'a cpu_state_scheme" where
  "hw_read hw e s = (hw (trace s) e, s\<lparr>trace := trace s @ [e]\<rparr>)"

definition hw_write :: "ioev \<Rightarrow> 'a cpu_state_scheme \<Rightarrow> 'a cpu_state_scheme" where
  "hw_write e s = s\<lparr>trace := trace s @ [e]\<rparr>"

section \<open>Port I/O\<close>

definition inb :: "hw \<Rightarrow> u64 \<Rightarrow> 'a cpu_state_scheme \<Rightarrow> u8 \<times> 'a cpu_state_scheme" where
  "inb hw port s = map_prod ucast id (hw_read hw (PortIn 1 (ucast port)) s)"

definition inw :: "hw \<Rightarrow> u64 \<Rightarrow> 'a cpu_state_scheme \<Rightarrow> u16 \<times> 'a cpu_state_scheme" where
  "inw hw port s = map_prod ucast id (hw_read hw (PortIn 2 (ucast port)) s)"

definition inl :: "hw \<Rightarrow> u64 \<Rightarrow> 'a cpu_state_scheme \<Rightarrow> u32 \<times> 'a cpu_state_scheme" where
  "inl hw port s = map_prod ucast id (hw_read hw (PortIn 4 (ucast port)) s)"

definition outb :: "u8 \<Rightarrow> u64 \<Rightarrow> 'a cpu_state_scheme \<Rightarrow> 'a cpu_state_scheme" where
  "outb v port s = hw_write (PortOut 1 (ucast port) (ucast v)) s"

definition outw :: "u16 \<Rightarrow> u64 \<Rightarrow> 'a cpu_state_scheme \<Rightarrow> 'a cpu_state_scheme" where
  "outw v port s = hw_write (PortOut 2 (ucast port) (ucast v)) s"

definition outl :: "u32 \<Rightarrow> u64 \<Rightarrow> 'a cpu_state_scheme \<Rightarrow> 'a cpu_state_scheme" where
  "outl v port s = hw_write (PortOut 4 (ucast port) v) s"

section \<open>Device memory\<close>

definition raw_readl :: "hw \<Rightarrow> u64 \<Rightarrow> 'a cpu_state_scheme \<Rightarrow> u32 \<times> 'a cpu_state_scheme" where
  "raw_readl hw a s = map_prod ucast id (hw_read hw (MmioR 4 a) s)"

definition raw_readq :: "hw \<Rightarrow> u64 \<Rightarrow> 'a cpu_state_scheme \<Rightarrow> u64 \<times> 'a cpu_state_scheme" where
  "raw_readq hw a s = hw_read hw (MmioR 8 a) s"

definition raw_writel :: "u32 \<Rightarrow> u64 \<Rightarrow> 'a cpu_state_scheme \<Rightarrow> 'a cpu_state_scheme" where
  "raw_writel v a s = hw_write (MmioW 4 a (ucast v)) s"

definition raw_writeq :: "u64 \<Rightarrow> u64 \<Rightarrow> 'a cpu_state_scheme \<Rightarrow> 'a cpu_state_scheme" where
  "raw_writeq v a s = hw_write (MmioW 8 a v) s"

section \<open>Model-specific and control registers\<close>

definition rdmsr :: "hw \<Rightarrow> u32 \<Rightarrow> 'a cpu_state_scheme \<Rightarrow> u64 \<times> 'a cpu_state_scheme" where
  "rdmsr hw index s = hw_read hw (MsrR index) s"

definition wrmsr :: "u32 \<Rightarrow> u64 \<Rightarrow> 'a cpu_state_scheme \<Rightarrow> 'a cpu_state_scheme" where
  "wrmsr index v s = hw_write (MsrW index v) s"

definition read_cr0 :: "'a cpu_state_scheme \<Rightarrow> u64" where "read_cr0 s = cr0 s"
definition read_cr2 :: "'a cpu_state_scheme \<Rightarrow> u64" where "read_cr2 s = cr2 s"
definition read_cr3 :: "'a cpu_state_scheme \<Rightarrow> u64" where "read_cr3 s = cr3 s"
definition read_cr4 :: "'a cpu_state_scheme \<Rightarrow> u64" where "read_cr4 s = cr4 s"

definition write_cr0 :: "u64 \<Rightarrow> 'a cpu_state_scheme \<Rightarrow> 'a cpu_state_scheme" where
  "write_cr0 v s = s\<lparr>cr0 := v\<rparr>"

definition write_cr3 :: "u64 \<Rightarrow> 'a cpu_state_scheme \<Rightarrow> 'a cpu_state_scheme" where
  "write_cr3 v s = s\<lparr>cr3 := v\<rparr>"

definition write_cr4 :: "u64 \<Rightarrow> 'a cpu_state_scheme \<Rightarrow> 'a cpu_state_scheme" where
  "write_cr4 v s = s\<lparr>cr4 := v\<rparr>"

definition X86_CR0_PE :: u64 where [c_defs]: "X86_CR0_PE = 0x1"
definition X86_CR0_WP :: u64 where [c_defs]: "X86_CR0_WP = 0x10000"
definition X86_CR0_PG :: u64 where [c_defs]: "X86_CR0_PG = 0x80000000"
definition X86_CR4_PAE :: u64 where [c_defs]: "X86_CR4_PAE = 0x20"
definition X86_CR4_PGE :: u64 where [c_defs]: "X86_CR4_PGE = 0x80"
definition X86_CR4_VMXE :: u64 where [c_defs]: "X86_CR4_VMXE = 0x2000"
definition X86_CR4_PCIDE :: u64 where [c_defs]: "X86_CR4_PCIDE = 0x20000"

definition flush_tlb :: "'a cpu_state_scheme \<Rightarrow> 'a cpu_state_scheme" where
  "flush_tlb s = (let cr4v = read_cr4 s
                  in write_cr4 cr4v (write_cr4 (cr4v XOR X86_CR4_PGE) s))"

lemma flush_tlb_id [simp]: "flush_tlb s = s"
  by (simp add: flush_tlb_def read_cr4_def write_cr4_def Let_def)

text \<open>\<^verbatim>\<open>is_canonical\<close>: the address survives sign extension from bit 47.\<close>

definition is_canonical :: "u64 \<Rightarrow> bool" where
  "is_canonical addr \<longleftrightarrow> signed_drop_bit 16 (push_bit 16 addr) = addr"

section \<open>CPUID\<close>

record cpuid =
  cpuid_a :: u32
  cpuid_b :: u32
  cpuid_c :: u32
  cpuid_d :: u32

text \<open>The instruction is a parameter too: a function of leaf and index.\<close>

type_synonym cpuid_insn = "u32 \<Rightarrow> u32 \<Rightarrow> cpuid"

definition raw_cpuid :: "cpuid_insn \<Rightarrow> u32 \<Rightarrow> u32 \<Rightarrow> cpuid" where
  "raw_cpuid ci function index = ci function index"

definition cpuid_indexed :: "cpuid_insn \<Rightarrow> u32 \<Rightarrow> u32 \<Rightarrow> cpuid" where
  "cpuid_indexed ci func index =
     (let level = cpuid_a (raw_cpuid ci (func AND 0xf0000000) 0)
      in if level < func then \<lparr>cpuid_a = 0, cpuid_b = 0, cpuid_c = 0, cpuid_d = 0\<rparr>
         else raw_cpuid ci func index)"

definition cpuid_leaf :: "cpuid_insn \<Rightarrow> u32 \<Rightarrow> cpuid" where
  "cpuid_leaf ci func = cpuid_indexed ci func 0"

definition cpuid_maxphyaddr :: "cpuid_insn \<Rightarrow> u8" where
  "cpuid_maxphyaddr ci =
     (if cpuid_a (raw_cpuid ci 0x80000000 0) < 0x80000008 then 36
      else ucast (cpuid_a (raw_cpuid ci 0x80000008 0) AND 0xff))"

section \<open>Frames of the accesses\<close>

lemma hw_read_fields [simp]:
  "mem (snd (hw_read hw e s)) = mem s" "freelist (snd (hw_read hw e s)) = freelist s"
  "pa_lock (snd (hw_read hw e s)) = pa_lock s" "fw_lock (snd (hw_read hw e s)) = fw_lock s"
  "trace (snd (hw_read hw e s)) = trace s @ [e]"
  "fst (hw_read hw e s) = hw (trace s) e"
  by (simp_all add: hw_read_def)

lemma hw_write_fields [simp]:
  "mem (hw_write e s) = mem s" "freelist (hw_write e s) = freelist s"
  "pa_lock (hw_write e s) = pa_lock s" "fw_lock (hw_write e s) = fw_lock s"
  "trace (hw_write e s) = trace s @ [e]"
  by (simp_all add: hw_write_def)

end
