(* ===== verification/Fwcfg.thy ===== *)
theory Fwcfg
  imports Hw
begin

text \<open>
  \<^verbatim>\<open>lib/x86/fwcfg.c\<close>: reading an item of QEMU's firmware configuration device, a selector
  written to port 0x510 and the bytes of the item read one by one from port 0x511.
\<close>

definition BIOS_CFG_IOPORT :: u64 where [c_defs]: "BIOS_CFG_IOPORT = 0x510"
definition FW_CFG_RAM_SIZE :: u32 where [c_defs]: "FW_CFG_RAM_SIZE = 0x03"
definition FW_CFG_NB_CPUS :: u32 where [c_defs]: "FW_CFG_NB_CPUS = 0x05"
definition FW_CFG_MAX_CPUS :: u32 where [c_defs]: "FW_CFG_MAX_CPUS = 0x0f"

text \<open>The loop of \<^verbatim>\<open>fwcfg_get_u\<close>; its first argument counts the iterations left.\<close>

fun fwcfg_bytes :: "hw \<Rightarrow> nat \<Rightarrow> nat \<Rightarrow> u64 \<Rightarrow> 'a cpu_state_scheme \<Rightarrow> u64 \<times> 'a cpu_state_scheme" where
  "fwcfg_bytes hw 0 i r s = (r, s)"
| "fwcfg_bytes hw (Suc n) i r s =
     (let (b, s) = inb hw (BIOS_CFG_IOPORT + 1) s
      in fwcfg_bytes hw n (Suc i) (r OR push_bit (i * 8) (ucast b)) s)"

definition fwcfg_get_u :: "hw \<Rightarrow> u16 \<Rightarrow> nat \<Rightarrow> 'a cpu_state_scheme \<Rightarrow> (u64 \<times> 'a cpu_state_scheme) option" where
  "fwcfg_get_u hw index bytes s = do {
     v \<leftarrow> spin_lock (fw_lock s);
     let s = s\<lparr>fw_lock := v\<rparr>;
     let s = outw index BIOS_CFG_IOPORT s;
     let (r, s) = fwcfg_bytes hw bytes 0 0 s;
     Some (r, s\<lparr>fw_lock := spin_unlock (fw_lock s)\<rparr>)
   }"

definition fwcfg_get_u8 :: "hw \<Rightarrow> u32 \<Rightarrow> 'a cpu_state_scheme \<Rightarrow> (u8 \<times> 'a cpu_state_scheme) option" where
  "fwcfg_get_u8 hw index s = map_option (map_prod ucast id) (fwcfg_get_u hw (ucast index) 1 s)"

definition fwcfg_get_u16 :: "hw \<Rightarrow> u32 \<Rightarrow> 'a cpu_state_scheme \<Rightarrow> (u16 \<times> 'a cpu_state_scheme) option" where
  "fwcfg_get_u16 hw index s = map_option (map_prod ucast id) (fwcfg_get_u hw (ucast index) 2 s)"

definition fwcfg_get_u32 :: "hw \<Rightarrow> u32 \<Rightarrow> 'a cpu_state_scheme \<Rightarrow> (u32 \<times> 'a cpu_state_scheme) option" where
  "fwcfg_get_u32 hw index s = map_option (map_prod ucast id) (fwcfg_get_u hw (ucast index) 4 s)"

definition fwcfg_get_u64 :: "hw \<Rightarrow> u32 \<Rightarrow> 'a cpu_state_scheme \<Rightarrow> (u64 \<times> 'a cpu_state_scheme) option" where
  "fwcfg_get_u64 hw index s = fwcfg_get_u hw (ucast index) 8 s"

definition fwcfg_get_nb_cpus :: "hw \<Rightarrow> 'a cpu_state_scheme \<Rightarrow> (u32 \<times> 'a cpu_state_scheme) option" where
  "fwcfg_get_nb_cpus hw s = map_option (map_prod ucast id) (fwcfg_get_u16 hw FW_CFG_NB_CPUS s)"

section \<open>The device and what is read from it\<close>

text \<open>The documented device: after a selector is written, the \<open>k\<close>-th read of the data port
  returns byte \<open>k\<close> of the selected item.\<close>

definition fw_cfg_dev :: "hw \<Rightarrow> (u16 \<Rightarrow> nat \<Rightarrow> u8) \<Rightarrow> bool" where
  "fw_cfg_dev hw item \<longleftrightarrow> (\<forall>tr key k.
     hw (tr @ PortOut 2 0x510 (ucast key) # replicate k (PortIn 1 0x511)) (PortIn 1 0x511) =
       ucast (item key k))"

fun le_bytes :: "(nat \<Rightarrow> u8) \<Rightarrow> nat \<Rightarrow> u64" where
  "le_bytes f 0 = 0"
| "le_bytes f (Suc n) = le_bytes f n OR push_bit (n * 8) (ucast (f n))"

definition fw_done :: "u16 \<Rightarrow> nat \<Rightarrow> 'a cpu_state_scheme \<Rightarrow> 'a cpu_state_scheme" where
  "fw_done index n s =
     s\<lparr>trace := trace s @ PortOut 2 0x510 (ucast index) # replicate n (PortIn 1 0x511)\<rparr>"

lemma fwcfg_bytes_item:
  assumes dev: "fw_cfg_dev hw item"
    and tr: "trace s = tr @ PortOut 2 0x510 (ucast key) # replicate i (PortIn 1 0x511)"
  shows "fwcfg_bytes hw n i (le_bytes (item key) i) s =
    (le_bytes (item key) (i + n), s\<lparr>trace := trace s @ replicate n (PortIn 1 0x511)\<rparr>)"
  using tr
proof (induction n arbitrary: i s)
  case (Suc n)
  let ?s = "s\<lparr>trace := trace s @ [PortIn 1 0x511]\<rparr>"
  have b: "inb hw (BIOS_CFG_IOPORT + 1) s = (item key i, ?s)"
    using dev Suc.prems by (simp add: inb_def hw_read_def c_defs fw_cfg_dev_def)
  have "trace ?s = tr @ PortOut 2 0x510 (ucast key) # replicate (Suc i) (PortIn 1 0x511)"
    using Suc.prems by (simp add: replicate_append_same)
  from Suc.IH[OF this] show ?case
    by (simp add: b)
qed simp

lemma fwcfg_get_u_item:
  assumes "fw_cfg_dev hw item" "fw_lock s = 0"
  shows "fwcfg_get_u hw index n s = Some (le_bytes (item index) n, fw_done index n s)"
proof -
  let ?s = "outw index BIOS_CFG_IOPORT (s\<lparr>fw_lock := 1\<rparr>)"
  have "trace ?s = trace s @ PortOut 2 0x510 (ucast index) # replicate 0 (PortIn 1 0x511)"
    by (simp add: outw_def c_defs)
  from fwcfg_bytes_item[OF assms(1) this, of n] show ?thesis
    using assms(2) by (simp add: fwcfg_get_u_def outw_def c_defs hw_write_def fw_done_def)
qed

end
