(* ===== verification/Vmx_State.thy ===== *)
theory Vmx_State
  imports Fwcfg
begin

text \<open>
  \<^verbatim>\<open>x86/vmx.h\<close>: the VMCS field encodings and control bits the code uses, the state of the
  hypervisor (the globals of \<^verbatim>\<open>x86/vmx.c\<close> and \<^verbatim>\<open>x86/ept.c\<close>), and access to the current VMCS.
\<close>

section \<open>VMCS field encodings\<close>

definition VPID :: u64 where [c_defs]: "VPID = 0x0000"
definition GUEST_SEL_ES :: u64 where [c_defs]: "GUEST_SEL_ES = 0x0800"
definition GUEST_SEL_CS :: u64 where [c_defs]: "GUEST_SEL_CS = 0x0802"
definition GUEST_SEL_SS :: u64 where [c_defs]: "GUEST_SEL_SS = 0x0804"
definition GUEST_SEL_DS :: u64 where [c_defs]: "GUEST_SEL_DS = 0x0806"
definition GUEST_SEL_FS :: u64 where [c_defs]: "GUEST_SEL_FS = 0x0808"
definition GUEST_SEL_GS :: u64 where [c_defs]: "GUEST_SEL_GS = 0x080a"
definition GUEST_SEL_LDTR :: u64 where [c_defs]: "GUEST_SEL_LDTR = 0x080c"
definition GUEST_SEL_TR :: u64 where [c_defs]: "GUEST_SEL_TR = 0x080e"
definition HOST_SEL_ES :: u64 where [c_defs]: "HOST_SEL_ES = 0x0c00"
definition HOST_SEL_CS :: u64 where [c_defs]: "HOST_SEL_CS = 0x0c02"
definition HOST_SEL_SS :: u64 where [c_defs]: "HOST_SEL_SS = 0x0c04"
definition HOST_SEL_DS :: u64 where [c_defs]: "HOST_SEL_DS = 0x0c06"
definition HOST_SEL_FS :: u64 where [c_defs]: "HOST_SEL_FS = 0x0c08"
definition HOST_SEL_GS :: u64 where [c_defs]: "HOST_SEL_GS = 0x0c0a"
definition HOST_SEL_TR :: u64 where [c_defs]: "HOST_SEL_TR = 0x0c0c"
definition EPTP :: u64 where [c_defs]: "EPTP = 0x201a"
definition VMCS_LINK_PTR :: u64 where [c_defs]: "VMCS_LINK_PTR = 0x2800"
definition VMCS_LINK_PTR_HI :: u64 where [c_defs]: "VMCS_LINK_PTR_HI = 0x2801"
definition GUEST_EFER :: u64 where [c_defs]: "GUEST_EFER = 0x2806"
definition HOST_EFER :: u64 where [c_defs]: "HOST_EFER = 0x2c02"
definition PIN_CONTROLS :: u64 where [c_defs]: "PIN_CONTROLS = 0x4000"
definition CPU_EXEC_CTRL0 :: u64 where [c_defs]: "CPU_EXEC_CTRL0 = 0x4002"
definition PF_ERROR_MASK :: u64 where [c_defs]: "PF_ERROR_MASK = 0x4006"
definition PF_ERROR_MATCH :: u64 where [c_defs]: "PF_ERROR_MATCH = 0x4008"
definition CR3_TARGET_COUNT :: u64 where [c_defs]: "CR3_TARGET_COUNT = 0x400a"
definition EXI_CONTROLS :: u64 where [c_defs]: "EXI_CONTROLS = 0x400c"
definition ENT_CONTROLS :: u64 where [c_defs]: "ENT_CONTROLS = 0x4012"
definition CPU_EXEC_CTRL1 :: u64 where [c_defs]: "CPU_EXEC_CTRL1 = 0x401e"
definition VMX_INST_ERROR :: u64 where [c_defs]: "VMX_INST_ERROR = 0x4400"
definition EXI_REASON :: u64 where [c_defs]: "EXI_REASON = 0x4402"
definition GUEST_LIMIT_ES :: u64 where [c_defs]: "GUEST_LIMIT_ES = 0x4800"
definition GUEST_LIMIT_CS :: u64 where [c_defs]: "GUEST_LIMIT_CS = 0x4802"
definition GUEST_LIMIT_SS :: u64 where [c_defs]: "GUEST_LIMIT_SS = 0x4804"
definition GUEST_LIMIT_DS :: u64 where [c_defs]: "GUEST_LIMIT_DS = 0x4806"
definition GUEST_LIMIT_FS :: u64 where [c_defs]: "GUEST_LIMIT_FS = 0x4808"
definition GUEST_LIMIT_GS :: u64 where [c_defs]: "GUEST_LIMIT_GS = 0x480a"
definition GUEST_LIMIT_LDTR :: u64 where [c_defs]: "GUEST_LIMIT_LDTR = 0x480c"
definition GUEST_LIMIT_TR :: u64 where [c_defs]: "GUEST_LIMIT_TR = 0x480e"
definition GUEST_LIMIT_GDTR :: u64 where [c_defs]: "GUEST_LIMIT_GDTR = 0x4810"
definition GUEST_LIMIT_IDTR :: u64 where [c_defs]: "GUEST_LIMIT_IDTR = 0x4812"
definition GUEST_AR_ES :: u64 where [c_defs]: "GUEST_AR_ES = 0x4814"
definition GUEST_AR_CS :: u64 where [c_defs]: "GUEST_AR_CS = 0x4816"
definition GUEST_AR_SS :: u64 where [c_defs]: "GUEST_AR_SS = 0x4818"
definition GUEST_AR_DS :: u64 where [c_defs]: "GUEST_AR_DS = 0x481a"
definition GUEST_AR_FS :: u64 where [c_defs]: "GUEST_AR_FS = 0x481c"
definition GUEST_AR_GS :: u64 where [c_defs]: "GUEST_AR_GS = 0x481e"
definition GUEST_AR_LDTR :: u64 where [c_defs]: "GUEST_AR_LDTR = 0x4820"
definition GUEST_AR_TR :: u64 where [c_defs]: "GUEST_AR_TR = 0x4822"
definition GUEST_INTR_STATE :: u64 where [c_defs]: "GUEST_INTR_STATE = 0x4824"
definition GUEST_ACTV_STATE :: u64 where [c_defs]: "GUEST_ACTV_STATE = 0x4826"
definition GUEST_SYSENTER_CS :: u64 where [c_defs]: "GUEST_SYSENTER_CS = 0x482a"
definition HOST_SYSENTER_CS :: u64 where [c_defs]: "HOST_SYSENTER_CS = 0x4c00"
definition EXI_QUALIFICATION :: u64 where [c_defs]: "EXI_QUALIFICATION = 0x6400"
definition GUEST_CR0 :: u64 where [c_defs]: "GUEST_CR0 = 0x6800"
definition GUEST_CR3 :: u64 where [c_defs]: "GUEST_CR3 = 0x6802"
definition GUEST_CR4 :: u64 where [c_defs]: "GUEST_CR4 = 0x6804"
definition GUEST_BASE_ES :: u64 where [c_defs]: "GUEST_BASE_ES = 0x6806"
definition GUEST_BASE_CS :: u64 where [c_defs]: "GUEST_BASE_CS = 0x6808"
definition GUEST_BASE_SS :: u64 where [c_defs]: "GUEST_BASE_SS = 0x680a"
definition GUEST_BASE_DS :: u64 where [c_defs]: "GUEST_BASE_DS = 0x680c"
definition GUEST_BASE_FS :: u64 where [c_defs]: "GUEST_BASE_FS = 0x680e"
definition GUEST_BASE_GS :: u64 where [c_defs]: "GUEST_BASE_GS = 0x6810"
definition GUEST_BASE_LDTR :: u64 where [c_defs]: "GUEST_BASE_LDTR = 0x6812"
definition GUEST_BASE_TR :: u64 where [c_defs]: "GUEST_BASE_TR = 0x6814"
definition GUEST_BASE_GDTR :: u64 where [c_defs]: "GUEST_BASE_GDTR = 0x6816"
definition GUEST_BASE_IDTR :: u64 where [c_defs]: "GUEST_BASE_IDTR = 0x6818"
definition GUEST_DR7 :: u64 where [c_defs]: "GUEST_DR7 = 0x681a"
definition GUEST_RSP :: u64 where [c_defs]: "GUEST_RSP = 0x681c"
definition GUEST_RIP :: u64 where [c_defs]: "GUEST_RIP = 0x681e"
definition GUEST_RFLAGS :: u64 where [c_defs]: "GUEST_RFLAGS = 0x6820"
definition GUEST_SYSENTER_ESP :: u64 where [c_defs]: "GUEST_SYSENTER_ESP = 0x6824"
definition GUEST_SYSENTER_EIP :: u64 where [c_defs]: "GUEST_SYSENTER_EIP = 0x6826"
definition HOST_CR0 :: u64 where [c_defs]: "HOST_CR0 = 0x6c00"
definition HOST_CR3 :: u64 where [c_defs]: "HOST_CR3 = 0x6c02"
definition HOST_CR4 :: u64 where [c_defs]: "HOST_CR4 = 0x6c04"
definition HOST_BASE_FS :: u64 where [c_defs]: "HOST_BASE_FS = 0x6c06"
definition HOST_BASE_GS :: u64 where [c_defs]: "HOST_BASE_GS = 0x6c08"
definition HOST_BASE_TR :: u64 where [c_defs]: "HOST_BASE_TR = 0x6c0a"
definition HOST_BASE_GDTR :: u64 where [c_defs]: "HOST_BASE_GDTR = 0x6c0c"
definition HOST_BASE_IDTR :: u64 where [c_defs]: "HOST_BASE_IDTR = 0x6c0e"
definition HOST_SYSENTER_EIP :: u64 where [c_defs]: "HOST_SYSENTER_EIP = 0x6c12"
definition HOST_RSP :: u64 where [c_defs]: "HOST_RSP = 0x6c14"
definition HOST_RIP :: u64 where [c_defs]: "HOST_RIP = 0x6c16"

section \<open>Exit reasons, control bits, handler results\<close>

definition VMX_ENTRY_FAILURE :: u64 where [c_defs]: "VMX_ENTRY_FAILURE = 0x80000000"
definition VMX_VMCALL :: u64 where [c_defs]: "VMX_VMCALL = 18"
definition VMX_FAIL_STATE :: u64 where [c_defs]: "VMX_FAIL_STATE = 33"
definition VMX_FAIL_MSR :: u64 where [c_defs]: "VMX_FAIL_MSR = 34"
definition VMX_FAIL_MCHECK :: u64 where [c_defs]: "VMX_FAIL_MCHECK = 41"
definition EXI_HOST_64 :: u32 where [c_defs]: "EXI_HOST_64 = 0x200"
definition EXI_LOAD_EFER :: u32 where [c_defs]: "EXI_LOAD_EFER = 0x200000"
definition ENT_GUEST_64 :: u32 where [c_defs]: "ENT_GUEST_64 = 0x200"
definition ENT_LOAD_EFER :: u32 where [c_defs]: "ENT_LOAD_EFER = 0x8000"
definition PIN_EXTINT :: u32 where [c_defs]: "PIN_EXTINT = 0x1"
definition PIN_NMI :: u32 where [c_defs]: "PIN_NMI = 0x8"
definition PIN_VIRT_NMI :: u32 where [c_defs]: "PIN_VIRT_NMI = 0x20"
definition CPU_IO :: u32 where [c_defs]: "CPU_IO = 0x1000000"
definition CPU_IO_BITMAP :: u32 where [c_defs]: "CPU_IO_BITMAP = 0x2000000"
definition CPU_SECONDARY :: u32 where [c_defs]: "CPU_SECONDARY = 0x80000000"
definition CPU_EPT :: u32 where [c_defs]: "CPU_EPT = 0x2"
definition CPU_VPID :: u32 where [c_defs]: "CPU_VPID = 0x20"
definition VMX_VMEXIT :: u32 where [c_defs]: "VMX_VMEXIT = 1"
definition VMX_EXIT :: u32 where [c_defs]: "VMX_EXIT = 2"
definition VMX_RESUME :: u32 where [c_defs]: "VMX_RESUME = 3"
definition VMX_VMABORT :: u32 where [c_defs]: "VMX_VMABORT = 4"
definition VMX_VMSKIP :: u32 where [c_defs]: "VMX_VMSKIP = 5"
definition HYPERCALL_BIT :: u64 where [c_defs]: "HYPERCALL_BIT = 0x1000"
definition HYPERCALL_MASK :: u64 where [c_defs]: "HYPERCALL_MASK = 0xfff"
definition HYPERCALL_VMEXIT :: u64 where [c_defs]: "HYPERCALL_VMEXIT = 0x1"
definition HYPERCALL_VMABORT :: u64 where [c_defs]: "HYPERCALL_VMABORT = 0x2"
definition HYPERCALL_VMSKIP :: u64 where [c_defs]: "HYPERCALL_VMSKIP = 0x3"
definition ACTV_ACTIVE :: u64 where [c_defs]: "ACTV_ACTIVE = 0"

section \<open>Extended page tables\<close>

definition EPTP_PG_WALK_LEN_SHIFT :: u64 where [c_defs]: "EPTP_PG_WALK_LEN_SHIFT = 3"
definition EPTP_AD_FLAG :: u64 where [c_defs]: "EPTP_AD_FLAG = 0x40"
definition EPT_MEM_TYPE_WB :: u64 where [c_defs]: "EPT_MEM_TYPE_WB = 6"
definition EPT_RA :: u64 where [c_defs]: "EPT_RA = 1"
definition EPT_WA :: u64 where [c_defs]: "EPT_WA = 2"
definition EPT_EA :: u64 where [c_defs]: "EPT_EA = 4"
definition EPT_LARGE_PAGE :: u64 where [c_defs]: "EPT_LARGE_PAGE = 0x80"
definition EPT_CAP_PWL4 :: u64 where [c_defs]: "EPT_CAP_PWL4 = 0x40"
definition EPT_CAP_WB :: u64 where [c_defs]: "EPT_CAP_WB = 0x4000"
definition EPT_CAP_2M_PAGE :: u64 where [c_defs]: "EPT_CAP_2M_PAGE = 0x10000"
definition EPT_PGDIR_MASK :: u64 where [c_defs]: "EPT_PGDIR_MASK = 511"

definition EPT_PRESENT :: u64 where [c_defs]: "EPT_PRESENT = EPT_RA OR EPT_WA OR EPT_EA"
definition EPT_PAGE_LEVEL :: int where [c_defs]: "EPT_PAGE_LEVEL = 4"
definition EPT_PGDIR_ENTRIES :: int where [c_defs]: "EPT_PGDIR_ENTRIES = 512"

definition EPT_LEVEL_SHIFT :: "int \<Rightarrow> nat" where
  "EPT_LEVEL_SHIFT level = nat ((level - 1) * 9 + 12)"

definition EPT_ADDR_MASK :: u64 where
  "EPT_ADDR_MASK = GENMASK_ULL 51 12"

definition PAGE_MASK :: u64 where "PAGE_MASK = NOT (PAGE_SIZE - 1)"
definition PAGE_SIZE_2M :: u64 where [c_defs]: "PAGE_SIZE_2M = 0x200000"
definition PAGE_SIZE_1G :: u64 where [c_defs]: "PAGE_SIZE_1G = 0x40000000"

section \<open>Unions\<close>

text \<open>\<^verbatim>\<open>union vmx_ctrl_msr\<close>: the low half says which bits must be 1, the high half which may be 1.
  \<^verbatim>\<open>union vmx_basic\<close>: revision in the low half, \<^verbatim>\<open>ctrl\<close> at bit 55.\<close>

definition msr_set :: "u64 \<Rightarrow> u32" where "msr_set v = ucast v"
definition msr_clr :: "u64 \<Rightarrow> u32" where "msr_clr v = ucast (drop_bit 32 v)"
definition basic_revision :: "u64 \<Rightarrow> u32" where "basic_revision v = ucast v"
definition basic_ctrl :: "u64 \<Rightarrow> bool" where "basic_ctrl v \<longleftrightarrow> bit v 55"

section \<open>State\<close>

record regs =
  rax :: u64
  rcx :: u64
  rdx :: u64
  rbx :: u64
  rcr2 :: u64
  rbp :: u64
  rsi :: u64
  rdi :: u64
  r8 :: u64
  r9 :: u64
  r10 :: u64
  r11 :: u64
  r12 :: u64
  r13 :: u64
  r14 :: u64
  r15 :: u64
  rflags :: u64

record vmx_state = cpu_state +
  vmcs_field :: "u64 \<Rightarrow> u64"
  pml4 :: u64
  eptp :: u64
  vmxon_region :: u64
  vpid_cnt :: u32
  guest_stack :: u64
  guest_syscall_stack :: u64
  ctrl_pin :: u32
  ctrl_enter :: u32
  ctrl_exit :: u32
  ctrl_cpu0 :: u32
  ctrl_cpu1 :: u32
  vregs :: regs
  current_guest :: "nat option"
  guest_vmcs :: u64
  guest_exits :: u32
  basic :: u64
  ctrl_pin_rev :: u64
  ctrl_cpu_rev0 :: u64
  ctrl_cpu_rev1 :: u64
  ctrl_exit_rev :: u64
  ctrl_enter_rev :: u64
  ept_vpid :: u64
  hypercall_field :: u64
  launched :: bool
  guest_finished :: bool
  in_guest :: bool

section \<open>Fields of the current VMCS\<close>

text \<open>A field holds as many bits as bits 13 and 14 of its encoding say; bit 0 selects the high
  half of a 64-bit field. The code ignores the result of \<^verbatim>\<open>vmcs_write\<close>.\<close>

definition vmcs_key :: "u64 \<Rightarrow> u64" where
  "vmcs_key enc = enc AND NOT 1"

definition vmcs_value :: "u64 \<Rightarrow> u64 \<Rightarrow> u64 \<Rightarrow> u64" where
  "vmcs_value enc old v =
     (if bit enc 0 then (old AND 0xffffffff) OR push_bit 32 v
      else if drop_bit 13 enc AND 3 = 0 then v AND 0xffff
      else if drop_bit 13 enc AND 3 = 2 then v AND 0xffffffff
      else v)"

definition vmcs_read :: "u64 \<Rightarrow> 'a vmx_state_scheme \<Rightarrow> u64" where
  "vmcs_read enc s = (if bit enc 0 then drop_bit 32 (vmcs_field s (vmcs_key enc))
                      else vmcs_field s (vmcs_key enc))"

definition vmcs_write :: "u64 \<Rightarrow> u64 \<Rightarrow> 'a vmx_state_scheme \<Rightarrow> 'a vmx_state_scheme" where
  "vmcs_write enc v s = s\<lparr>vmcs_field :=
     (vmcs_field s)(vmcs_key enc := vmcs_value enc (vmcs_field s (vmcs_key enc)) v)\<rparr>"

lemma vmcs_write_frame [simp]:
  "mem (vmcs_write e v s) = mem s" "freelist (vmcs_write e v s) = freelist s"
  "pa_lock (vmcs_write e v s) = pa_lock s" "fw_lock (vmcs_write e v s) = fw_lock s"
  "trace (vmcs_write e v s) = trace s" "pml4 (vmcs_write e v s) = pml4 s"
  "eptp (vmcs_write e v s) = eptp s"
  by (simp_all add: vmcs_write_def)

end
