(* ===== verification/Ept.thy ===== *)
theory Ept
  imports Vmx_State
begin

text \<open>
  Extended page tables, \<^verbatim>\<open>x86/ept.c\<close>: splitting a large entry, installing an entry at a level,
  the identity map, and the VMCS fields that switch the tables on. The tables are a
  format of the generic theory of translation tables, and the walk down of
  \<^verbatim>\<open>install_ept_entry\<close> is an instance of its interface.
\<close>

section \<open>Splitting a large page\<close>

definition split_large_ept_entry ::
  "u64 \<Rightarrow> int \<Rightarrow> 'a pa_state_scheme \<Rightarrow> 'a pa_state_scheme option" where
  "split_large_ept_entry ptep level s = do {
     let pte = ld64 (mem s) ptep;
     c_assert (pte AND EPT_PRESENT \<noteq> 0);
     c_assert (pte AND EPT_LARGE_PAGE \<noteq> 0);
     c_assert (level = 2 \<or> level = 3);
     (new_pt, s) \<leftarrow> alloc_page s;
     c_assert (new_pt \<noteq> 0);
     let s = s\<lparr>mem := memset new_pt 0 PAGE_SIZE (mem s)\<rparr>;
     let prototype = pte AND NOT EPT_ADDR_MASK;
     let prototype = (if level = 2 then prototype AND NOT EPT_LARGE_PAGE else prototype);
     let gpa = pte AND EPT_ADDR_MASK;
     let s = s\<lparr>mem := fill_entries (nat EPT_PGDIR_ENTRIES) new_pt 0 prototype gpa
                        (push_bit (EPT_LEVEL_SHIFT (level - 1)) 1) (mem s)\<rparr>;
     let pte = pte AND NOT EPT_LARGE_PAGE;
     let pte = pte AND NOT EPT_ADDR_MASK;
     let pte = pte OR virt_to_phys new_pt;
     Some (s\<lparr>mem := st64 (mem s) ptep pte\<rparr>)
   }"

section \<open>Installing an entry\<close>

text \<open>The body of the loop of \<^verbatim>\<open>install_ept_entry\<close> up to the assignment of \<^verbatim>\<open>pt\<close>; it returns the
  new value of \<^verbatim>\<open>pt_page\<close>.\<close>

definition install_ept_step ::
  "int \<Rightarrow> u64 \<Rightarrow> u64 \<Rightarrow> u64 \<Rightarrow> 'a pa_state_scheme \<Rightarrow> (u64 \<times> 'a pa_state_scheme) option" where
  "install_ept_step level pt offset pt_page s =
     (if ld64 (mem s) (pt + 8 * offset) AND EPT_PRESENT = 0 then do {
        (new_pt, pt_page, s) \<leftarrow>
          (if pt_page = 0 then map_option (\<lambda>(p, s). (p, pt_page, s)) (alloc_page s)
           else Some (pt_page, 0, s));
        let s = s\<lparr>mem := memset new_pt 0 PAGE_SIZE (mem s)\<rparr>;
        Some (pt_page, s\<lparr>mem := st64 (mem s) (pt + 8 * offset)
                             (virt_to_phys new_pt OR EPT_RA OR EPT_WA OR EPT_EA)\<rparr>)
      }
      else if ld64 (mem s) (pt + 8 * offset) AND EPT_LARGE_PAGE \<noteq> 0 then
        map_option (\<lambda>s. (pt_page, s)) (split_large_ept_entry (pt + 8 * offset) level s)
      else Some (pt_page, s))"

definition ept_offset :: "int \<Rightarrow> u64 \<Rightarrow> u64" where
  "ept_offset level guest_addr = drop_bit (EPT_LEVEL_SHIFT level) guest_addr AND EPT_PGDIR_MASK"

function install_ept_loop ::
  "int \<Rightarrow> int \<Rightarrow> u64 \<Rightarrow> u64 \<Rightarrow> u64 \<Rightarrow> 'a pa_state_scheme \<Rightarrow> (int \<times> u64 \<times> 'a pa_state_scheme) option" where
  "install_ept_loop level pte_level guest_addr pt pt_page s =
     (if pte_level < level then do {
        let offset = ept_offset level guest_addr;
        (pt_page, s) \<leftarrow> install_ept_step level pt offset pt_page s;
        let pt = phys_to_virt (ld64 (mem s) (pt + 8 * offset) AND EPT_ADDR_MASK);
        install_ept_loop (level - 1) pte_level guest_addr pt pt_page s
      }
      else Some (level, pt, s))"
  by pat_completeness auto
termination
  by (relation "measure (\<lambda>(level, pte_level, _). nat (level - pte_level))") auto

declare install_ept_loop.simps [simp del]

definition install_ept_entry ::
  "u64 \<Rightarrow> int \<Rightarrow> u64 \<Rightarrow> u64 \<Rightarrow> u64 \<Rightarrow> 'a pa_state_scheme \<Rightarrow> 'a pa_state_scheme option" where
  "install_ept_entry root pte_level guest_addr pte pt_page s = do {
     c_assert (guest_addr < push_bit 48 1);
     (level, pt, s) \<leftarrow> install_ept_loop EPT_PAGE_LEVEL pte_level guest_addr root pt_page s;
     let offset = ept_offset level guest_addr;
     Some (s\<lparr>mem := st64 (mem s) (pt + 8 * offset) pte\<rparr>)
   }"

definition install_ept ::
  "u64 \<Rightarrow> u64 \<Rightarrow> u64 \<Rightarrow> u64 \<Rightarrow> 'a pa_state_scheme \<Rightarrow> 'a pa_state_scheme option" where
  "install_ept root phys guest_addr perm s =
     install_ept_entry root 1 guest_addr ((phys AND PAGE_MASK) OR perm) 0 s"

definition install_1g_ept ::
  "u64 \<Rightarrow> u64 \<Rightarrow> u64 \<Rightarrow> u64 \<Rightarrow> 'a pa_state_scheme \<Rightarrow> 'a pa_state_scheme option" where
  "install_1g_ept root phys guest_addr perm s =
     install_ept_entry root 3 guest_addr ((phys AND PAGE_MASK) OR perm OR EPT_LARGE_PAGE) 0 s"

definition install_2m_ept ::
  "u64 \<Rightarrow> u64 \<Rightarrow> u64 \<Rightarrow> u64 \<Rightarrow> 'a pa_state_scheme \<Rightarrow> 'a pa_state_scheme option" where
  "install_2m_ept root phys guest_addr perm s =
     install_ept_entry root 2 guest_addr ((phys AND PAGE_MASK) OR perm OR EPT_LARGE_PAGE) 0 s"

section \<open>The identity map\<close>

text \<open>The three loops of \<^verbatim>\<open>setup_ept_range\<close> have one shape, \<^verbatim>\<open>while (phys + step <= max)\<close>. With
  \<^verbatim>\<open>max\<close> close to the top of the address space the sum wraps and the loop does not end.\<close>

partial_function (option) ept_map_while ::
  "(u64 \<Rightarrow> 'a pa_state_scheme \<Rightarrow> 'a pa_state_scheme option) \<Rightarrow> u64 \<Rightarrow> u64 \<Rightarrow> u64 \<Rightarrow>
   'a pa_state_scheme \<Rightarrow> (u64 \<times> 'a pa_state_scheme) option" where
  "ept_map_while install step phys mx s =
     (if phys + step \<le> mx then
        Option.bind (install phys s) (\<lambda>s. ept_map_while install step (phys + step) mx s)
      else Some (phys, s))"

definition setup_ept_range ::
  "u64 \<Rightarrow> u64 \<Rightarrow> u64 \<Rightarrow> bool \<Rightarrow> bool \<Rightarrow> u64 \<Rightarrow> 'a pa_state_scheme \<Rightarrow> 'a pa_state_scheme option" where
  "setup_ept_range root start len map_1g map_2m perm s = do {
     let phys = start;
     let mx = len + start;
     (phys, s) \<leftarrow> (if map_1g then
         ept_map_while (\<lambda>p. install_1g_ept root p p perm) PAGE_SIZE_1G phys mx s
       else Some (phys, s));
     (phys, s) \<leftarrow> (if map_2m then
         ept_map_while (\<lambda>p. install_2m_ept root p p perm) PAGE_SIZE_2M phys mx s
       else Some (phys, s));
     (phys, s) \<leftarrow> ept_map_while (\<lambda>p. install_ept root p p perm) PAGE_SIZE phys mx s;
     Some s
   }"

section \<open>Switching the tables on\<close>

definition ept_2m_supported :: "'a vmx_state_scheme \<Rightarrow> bool" where
  "ept_2m_supported s \<longleftrightarrow> ept_vpid s AND EPT_CAP_2M_PAGE \<noteq> 0"

definition setup_ept_fields :: "u64 \<Rightarrow> bool \<Rightarrow> 'a vmx_state_scheme \<Rightarrow> u32 \<times> 'a vmx_state_scheme" where
  "setup_ept_fields hpa enable_ad s =
     (if msr_clr (ctrl_cpu_rev0 s) AND CPU_SECONDARY = 0 \<or>
         msr_clr (ctrl_cpu_rev1 s) AND CPU_EPT = 0 then
        (1, kprintf (TAB @ ''EPT is not supported'') [] s)
      else if ept_vpid s AND EPT_CAP_WB = 0 then
        (1, kprintf (''WB memtype for EPT walks not supported'' @ NL) [] s)
      else if ept_vpid s AND EPT_CAP_PWL4 = 0 then
        (1, kprintf (TAB @ ''PWL4 is not supported'' @ NL) [] s)
      else
        let s = s\<lparr>eptp := EPT_MEM_TYPE_WB\<rparr>;
            s = s\<lparr>eptp := eptp s OR push_bit (unat EPTP_PG_WALK_LEN_SHIFT) 3\<rparr>;
            s = s\<lparr>eptp := eptp s OR hpa\<rparr>;
            s = (if enable_ad then s\<lparr>eptp := eptp s OR EPTP_AD_FLAG\<rparr> else s);
            s = vmcs_write EPTP (eptp s) s;
            s = vmcs_write CPU_EXEC_CTRL0 (vmcs_read CPU_EXEC_CTRL0 s OR ucast CPU_SECONDARY) s;
            s = vmcs_write CPU_EXEC_CTRL1 (vmcs_read CPU_EXEC_CTRL1 s OR ucast CPU_EPT) s
        in (0, s))"

definition setup_ept :: "hw \<Rightarrow> bool \<Rightarrow> 'a vmx_state_scheme \<Rightarrow> (u32 \<times> 'a vmx_state_scheme) option" where
  "setup_ept hw enable_ad s = do {
     (p, s) \<leftarrow> alloc_page s;
     let s = s\<lparr>pml4 := p\<rparr>;
     let (r, s) = setup_ept_fields (virt_to_phys (pml4 s)) enable_ad s;
     if r \<noteq> 0 then Some (1, s)
     else do {
       let s = s\<lparr>mem := memset (pml4 s) 0 PAGE_SIZE (mem s)\<rparr>;
       (end_of_memory, s) \<leftarrow> fwcfg_get_u64 hw FW_CFG_RAM_SIZE s;
       let end_of_memory = (if end_of_memory < push_bit 32 1 then push_bit 32 1 else end_of_memory);
       s \<leftarrow> setup_ept_range (pml4 s) 0 end_of_memory False
              (\<not> enable_ad \<and> ept_2m_supported s) (EPT_WA OR EPT_RA OR EPT_EA) s;
       Some (0, s)
     }
   }"


section \<open>The entry format\<close>

definition ept_fmt :: ptfmt where
  "ept_fmt = \<lparr>pf_present = \<lambda>e. e AND EPT_PRESENT \<noteq> 0,
     pf_large = \<lambda>e. e AND EPT_LARGE_PAGE \<noteq> 0,
     pf_addr = \<lambda>e. e AND EPT_ADDR_MASK,
     pf_attr = \<lambda>e. e AND NOT EPT_ADDR_MASK AND NOT EPT_LARGE_PAGE,
     pf_pass = \<lambda>e. e OR NOT EPT_PRESENT\<rparr>"

lemma ept_fmt_simps [simp]:
  "pf_present ept_fmt e \<longleftrightarrow> e AND EPT_PRESENT \<noteq> 0"
  "pf_large ept_fmt e \<longleftrightarrow> e AND EPT_LARGE_PAGE \<noteq> 0"
  "pf_addr ept_fmt e = e AND EPT_ADDR_MASK"
  "pf_attr ept_fmt e = e AND NOT EPT_ADDR_MASK AND NOT EPT_LARGE_PAGE"
  "pf_pass ept_fmt e = e OR NOT EPT_PRESENT"
  by (simp_all add: ept_fmt_def)

lemma EPT_ADDR_MASK_alt: "EPT_ADDR_MASK = addr_mask"
  by (simp add: EPT_ADDR_MASK_def addr_mask_def)

lemma EPT_LARGE_PAGE_alt: "EPT_LARGE_PAGE = ps_bit"
  by (simp add: EPT_LARGE_PAGE_def ps_bit_def)

lemmas bit_EPT_ADDR_MASK = bit_addr_mask [folded EPT_ADDR_MASK_alt]
lemmas bit_EPT_LARGE_PAGE = bit_ps_bit [folded EPT_LARGE_PAGE_alt]
lemmas ept_mask_addr = mask_addr [folded EPT_ADDR_MASK_alt]
lemmas ept_mask_flags = mask_flags [folded EPT_ADDR_MASK_alt]
lemmas ept_split_child = split_child [folded EPT_ADDR_MASK_alt EPT_LARGE_PAGE_alt]

lemma bit_EPT_PRESENT: "bit EPT_PRESENT n \<longleftrightarrow> n < 3"
proof -
  have e: "EPT_PRESENT = mask 3" by (simp add: c_defs mask_eq_exp_minus_1)
  show ?thesis unfolding e bit_mask_iff by auto
qed

lemma EPT_PRESENT_alt: "EPT_RA OR EPT_WA OR EPT_EA = EPT_PRESENT"
  by (simp add: c_defs)

lemmas ept_bits = bit_EPT_ADDR_MASK bit_EPT_PRESENT bit_EPT_LARGE_PAGE

lemma addr_mask_small [simp]: "EPT_PRESENT AND EPT_ADDR_MASK = 0" "EPT_LARGE_PAGE AND EPT_ADDR_MASK = 0"
  "EPT_PRESENT AND EPT_LARGE_PAGE = 0"
  by (auto intro!: bit_word_eqI simp: bit_simps ept_bits)

lemma page_and_flag [simp]:
  "aligned 12 p \<Longrightarrow> p AND EPT_PRESENT = 0" "aligned 12 p \<Longrightarrow> p AND EPT_LARGE_PAGE = 0"
  by (auto intro!: bit_word_eqI simp: bit_simps ept_bits aligned_bit)

text \<open>The entry the loop writes for a new table.\<close>

lemma ept_table_entry:
  assumes "aligned 12 p" "drop_bit 52 p = 0"
  shows "is_table ept_fmt (Suc (Suc l)) (p OR EPT_PRESENT)"
    "pf_addr ept_fmt (p OR EPT_PRESENT) = p" "pf_pass ept_fmt (p OR EPT_PRESENT) = - 1"
proof -
  have "EPT_PRESENT \<noteq> 0" by (simp add: c_defs)
  then show "is_table ept_fmt (Suc (Suc l)) (p OR EPT_PRESENT)"
    using assms by (simp add: is_table_def is_leaf_def bit.conj_disj_distrib2)
  show "pf_addr ept_fmt (p OR EPT_PRESENT) = p"
    using assms by (simp add: bit.conj_disj_distrib2 ept_mask_addr)
  show "pf_pass ept_fmt (p OR EPT_PRESENT) = - 1"
    by (rule bit_word_eqI) (simp add: bit_simps)
qed

section \<open>One step down\<close>

lemma EPT_LEVEL_SHIFT_nat: "1 \<le> l \<Longrightarrow> EPT_LEVEL_SHIFT (int l) = pt_shift l"
proof -
  assume "1 \<le> l"
  then have "(int l - 1) * 9 + 12 = int (12 + 9 * (l - 1))" by (simp add: of_nat_diff)
  then show ?thesis unfolding EPT_LEVEL_SHIFT_def pt_shift_def by (simp only: nat_int)
qed

definition ept_step :: "nat \<Rightarrow> u64 \<Rightarrow> u64 \<Rightarrow> 'a pa_state_scheme \<Rightarrow> 'a pa_state_scheme option" where
  "ept_step l pt i s = map_option snd (install_ept_step (int l) pt i 0 s)"

lemma ept_step_table:
  "is_table ept_fmt l (ent (mem s) pt i) \<Longrightarrow> 2 \<le> l \<Longrightarrow> entry_ok ept_fmt l (ent (mem s) pt i) \<Longrightarrow>
   ept_step l pt i s = Some s"
  by (auto simp: ept_step_def install_ept_step_def is_table_def is_leaf_def entry_ok_def ent_def)

lemma ept_step_absent:
  assumes inv: "tinv ept_fmt s (p # ps) (Suc (Suc l)) pt" and i: "i < 512"
    and e: "ent (mem s) pt i AND EPT_PRESENT = 0"
  shows "\<exists>s'. ept_step (Suc (Suc l)) pt i s = Some s' \<and>
    grown ept_fmt s (p # ps) s' 1 (Suc (Suc l)) pt \<and>
    is_table ept_fmt (Suc (Suc l)) (ent (mem s') pt i) \<and>
    (\<forall>va. xlate ept_fmt (mem s') (Suc (Suc l)) pt va = xlate ept_fmt (mem s) (Suc (Suc l)) pt va) \<and>
    (\<forall>j<512. ent (mem s') (pf_addr ept_fmt (ent (mem s') pt i)) j = 0)"
proof -
  have fl: "fl_inv s (p # ps)" and p: "aligned 12 p" "p \<noteq> 0" "drop_bit 52 p = 0"
    using inv by (auto simp: tinv_def fl_inv_def)
  let ?m1 = "memset p 0 PAGE_SIZE (mem s)" and ?e = "p OR EPT_PRESENT"
  define s' where "s' = s\<lparr>freelist := ld64 (mem s) p, mem := st64 ?m1 (pt + 8 * i) ?e\<rparr>"
  have st: "ept_step (Suc (Suc l)) pt i s = Some s'"
    using alloc_page_Cons[OF fl] e
    by (simp add: ept_step_def install_ept_step_def ent_def s'_def EPT_PRESENT_alt)
  have z: "ent ?m1 p j = 0" if "j < 512" for j using that p by (simp add: ent_memset_page)
  have n0: "\<not> pf_present ept_fmt 0" by simp
  note zt = zero_table[OF p(1) z n0]
  have old: "\<not> is_table ept_fmt (Suc (Suc l)) (ent (mem s) pt i)" using e by (simp add: is_table_def)
  have xl: "xlate ept_fmt ?m1 (Suc l) p va = xlate ept_fmt (mem s) (Suc (Suc l)) pt va"
    if "pt_idx (Suc (Suc l)) va = i" for va
    using that e zt(3) by (subst (2) xlate.simps) (simp add: Let_def)
  have lg: "\<not> pf_large ept_fmt ?e" using p by (simp add: bit.conj_disj_distrib2)
  have lock: "pa_lock s = 0" using fl by (simp add: fl_inv_def)
  have s': "mem s' = st64 ?m1 (pt + 8 * i) ?e" "freelist s' = ld64 (mem s) p" "pa_lock s' = 0"
    using lock by (simp_all add: s'_def)
  note at = attach_table[OF inv i mframe_memset[OF p(1)] zt(1,2) ept_table_entry[OF p(1,3)] lg xl old s']
  have "ent (mem s') (pf_addr ept_fmt (ent (mem s') pt i)) j = 0" if "j < 512" for j
    using at(4) at(5)[of j] that z[OF that] ept_table_entry(2)[OF p(1,3)] by simp
  then show ?thesis using st at(1,2,3) by blast
qed

text \<open>Splitting: the entries of the new table map the same frames with the same attributes.\<close>

lemma split_entry:
  assumes l: "1 \<le> l" "l \<le> 2" and g: "aligned (pt_shift (Suc l)) (e AND EPT_ADDR_MASK)"
    and e: "e AND EPT_PRESENT \<noteq> 0" "e AND EPT_LARGE_PAGE \<noteq> 0" "e OR NOT EPT_PRESENT = - 1"
    and j: "j < 512"
  defines "pr \<equiv> (if l = 1 then e AND NOT EPT_ADDR_MASK AND NOT EPT_LARGE_PAGE
                 else e AND NOT EPT_ADDR_MASK)"
    and "c \<equiv> (e AND EPT_ADDR_MASK) + j * 2 ^ pt_shift l"
  shows "(pr OR c) AND EPT_ADDR_MASK = c"
    "(pr OR c) AND NOT EPT_ADDR_MASK AND NOT EPT_LARGE_PAGE =
       e AND NOT EPT_ADDR_MASK AND NOT EPT_LARGE_PAGE"
    "(pr OR c) AND EPT_PRESENT \<noteq> 0" "is_leaf ept_fmt l (pr OR c)" "(pr OR c) OR NOT EPT_PRESENT = - 1"
proof -
  note ch = ept_split_child[OF l g j, folded pr_def c_def]
  show "(pr OR c) AND EPT_ADDR_MASK = c" by (rule ch(1))
  show "(pr OR c) AND NOT EPT_ADDR_MASK AND NOT EPT_LARGE_PAGE =
       e AND NOT EPT_ADDR_MASK AND NOT EPT_LARGE_PAGE"
  proof (rule bit_word_eqI)
    fix n show "bit ((pr OR c) AND NOT EPT_ADDR_MASK AND NOT EPT_LARGE_PAGE) n =
        bit (e AND NOT EPT_ADDR_MASK AND NOT EPT_LARGE_PAGE) n"
      using ch(2)[of n] by (auto simp: bit_and_iff bit_not_iff ept_bits)
  qed
  have b0: "bit (pr OR c) n" if "n < 3" for n
  proof -
    have "bit (e OR NOT EPT_PRESENT) n" using that by (simp only: e(3)) simp
    then show ?thesis using ch(2)[of n] that by (simp add: bit_or_iff bit_not_iff ept_bits)
  qed
  then have "bit ((pr OR c) AND EPT_PRESENT) 0" by (simp add: bit_and_iff ept_bits)
  then show "(pr OR c) AND EPT_PRESENT \<noteq> 0" by auto
  show "(pr OR c) OR NOT EPT_PRESENT = - 1"
    using b0 by (intro bit_word_eqI) (auto simp: bit_or_iff bit_not_iff ept_bits)
  have "bit e 7"
  proof (rule ccontr)
    assume "\<not> bit e 7"
    then have "e AND EPT_LARGE_PAGE = 0" by (intro bit_word_eqI) (auto simp: bit_simps ept_bits)
    then show False using e(2) by simp
  qed
  then have "l = 1 \<or> bit ((pr OR c) AND EPT_LARGE_PAGE) 7"
    using ch(2)[of 7] by (simp add: bit_and_iff ept_bits)
  then show "is_leaf ept_fmt l (pr OR c)" using l by (auto simp: is_leaf_def)
qed

lemma ept_step_split:
  assumes inv: "tinv ept_fmt s (p # ps) (Suc (Suc l)) pt" and i: "i < 512" and l: "Suc l \<le> 2"
    and e: "ent (mem s) pt i AND EPT_PRESENT \<noteq> 0" "ent (mem s) pt i AND EPT_LARGE_PAGE \<noteq> 0"
  shows "\<exists>s'. ept_step (Suc (Suc l)) pt i s = Some s' \<and>
    grown ept_fmt s (p # ps) s' 1 (Suc (Suc l)) pt \<and>
    is_table ept_fmt (Suc (Suc l)) (ent (mem s') pt i) \<and>
    (\<forall>va. xlate ept_fmt (mem s') (Suc (Suc l)) pt va = xlate ept_fmt (mem s) (Suc (Suc l)) pt va) \<and>
    (\<forall>j<512. is_leaf ept_fmt (Suc l) (ent (mem s') (pf_addr ept_fmt (ent (mem s') pt i)) j))"
proof -
  let ?e = "ent (mem s) pt i" and ?L = "Suc (Suc l)"
  have fl: "fl_inv s (p # ps)" and p: "aligned 12 p" "p \<noteq> 0" "drop_bit 52 p = 0"
    and ok: "entry_ok ept_fmt ?L ?e" and lock: "pa_lock s = 0"
    using inv i by (auto simp: tinv_def fl_inv_def twf.simps)
  have lf: "is_leaf ept_fmt ?L ?e" using l e(2) by (simp add: is_leaf_def)
  have g: "aligned (pt_shift ?L) (?e AND EPT_ADDR_MASK)" and ps: "?e OR NOT EPT_PRESENT = - 1"
    using ok e(1) lf by (auto simp: entry_ok_def)
  define pr where "pr = (if Suc l = 1 then ?e AND NOT EPT_ADDR_MASK AND NOT EPT_LARGE_PAGE
                 else ?e AND NOT EPT_ADDR_MASK)"
  define m1 where "m1 = fill_entries 512 p 0 pr (?e AND EPT_ADDR_MASK) (2 ^ pt_shift (Suc l))
    (memset p 0 PAGE_SIZE (mem s))"
  define e' where "e' = (?e AND NOT EPT_LARGE_PAGE AND NOT EPT_ADDR_MASK) OR p"
  define s' where "s' = s\<lparr>freelist := ld64 (mem s) p, mem := st64 m1 (pt + 8 * i) e'\<rparr>"
  have lv: "int ?L = 2 \<or> int ?L = 3" "int ?L = 2 \<longleftrightarrow> Suc l = 1" using l by auto
  have sh: "push_bit (EPT_LEVEL_SHIFT (int ?L - 1)) 1 = (2 ^ pt_shift (Suc l) :: u64)"
    using EPT_LEVEL_SHIFT_nat[of "Suc l"] by simp
  have st: "ept_step ?L pt i s = Some s'"
    using alloc_page_Cons[OF fl] e p(2) lv sh
    by (simp add: ept_step_def install_ept_step_def split_large_ept_entry_def ent_def[symmetric]
        s'_def m1_def e'_def pr_def EPT_PGDIR_ENTRIES_def Let_def and.assoc)
  have fr: "mframe (mem s) m1 {p}"
    using mframe_trans[OF mframe_memset[OF p(1)] mframe_fill_entries[OF p(1)]] by (simp add: m1_def)
  have c: "pf_present ept_fmt (ent m1 p j) \<and> is_leaf ept_fmt (Suc l) (ent m1 p j) \<and>
      pf_addr ept_fmt (ent m1 p j) = pf_addr ept_fmt ?e + j * 2 ^ pt_shift (Suc l) \<and>
      pf_attr ept_fmt (ent m1 p j) = pf_attr ept_fmt ?e \<and>
      (1 < Suc l \<longrightarrow> pf_pass ept_fmt (ent m1 p j) = - 1)" if j: "j < 512" for j
  proof -
    have eq: "ent m1 p j = pr OR ((?e AND EPT_ADDR_MASK) + j * 2 ^ pt_shift (Suc l))"
      unfolding m1_def by (rule fill_table[OF p(1) j])
    have l1: "1 \<le> Suc l" by simp
    show ?thesis using split_entry[OF l1 l g e ps j, folded pr_def] unfolding ept_fmt_simps eq
      by blast
  qed
  have "e' AND EPT_PRESENT = ?e AND EPT_PRESENT"
    by (rule bit_word_eqI) (use p(1) aligned_bit in \<open>auto simp: e'_def bit_simps ept_bits\<close>)
  moreover have lg: "\<not> pf_large ept_fmt e'"
    using p(1) by (auto simp: e'_def bit.conj_disj_distrib2 bit_simps intro!: bit_word_eqI)
  ultimately have pe: "pf_present ept_fmt e'" using e by simp
  have ad: "pf_addr ept_fmt e' = p"
    unfolding e'_def ept_fmt_simps
    by (rule ept_mask_flags) (use p in \<open>auto intro!: bit_word_eqI simp: bit_simps\<close>)
  have pass: "pf_pass ept_fmt e' = - 1"
  proof (rule bit_word_eqI)
    fix n assume "n < LENGTH(64)"
    then have "bit (?e OR NOT EPT_PRESENT) n" by (simp only: ps) simp
    then show "bit (pf_pass ept_fmt e') n = bit (- 1 :: u64) n" using \<open>n < LENGTH(64)\<close>
      by (auto simp: e'_def bit_simps ept_bits)
  qed
  have s': "mem s' = st64 m1 (pt + 8 * i) e'" "freelist s' = ld64 (mem s) p" "pa_lock s' = 0"
    using lock by (simp_all add: s'_def)
  have pr0: "pf_present ept_fmt ?e" using e(1) by simp
  note at = split_attach[OF inv i l pr0 lf fr c pe lg ad pass s']
  have "is_leaf ept_fmt (Suc l) (ent (mem s') (pf_addr ept_fmt (ent (mem s') pt i)) j)"
    if "j < 512" for j
    using at(3) at(5)[of j] that c[OF that] ad by simp
  then show ?thesis using st at(1,2,4) by auto
qed

interpretation ept: table_step ept_fmt ept_step True
proof
  show "\<not> pf_present ept_fmt 0" by simp
next
  fix l pt i and s :: "'a pa_state_scheme"
  assume "is_table ept_fmt l (ent (mem s) pt i)" "2 \<le> l" "entry_ok ept_fmt l (ent (mem s) pt i)"
  then show "ept_step l pt i s = Some s" by (rule ept_step_table)
next
  fix s :: "'a pa_state_scheme" and fl l pt and i :: u64
  assume inv: "tinv ept_fmt s fl l pt" and l: "2 \<le> l" "l \<le> 4" and i: "i < 512" and "fl \<noteq> []"
    and e: "\<not> is_table ept_fmt l (ent (mem s) pt i)"
  obtain p ps where fl: "fl = p # ps" using \<open>fl \<noteq> []\<close> by (cases fl) auto
  obtain l' where l': "l = Suc (Suc l')" using l by (cases l; cases "l - 1") auto
  show "\<exists>s'. ept_step l pt i s = Some s' \<and> grown ept_fmt s fl s' 1 l pt \<and>
        is_table ept_fmt l (ent (mem s') pt i) \<and>
        (\<forall>va. xlate ept_fmt (mem s') l pt va = xlate ept_fmt (mem s) l pt va) \<and>
        (\<forall>j<512. \<not> is_table ept_fmt (l - 1) (ent (mem s') (pf_addr ept_fmt (ent (mem s') pt i)) j)) \<and>
        (\<not> pf_present ept_fmt (ent (mem s) pt i) \<longrightarrow>
          (\<forall>j<512. \<not> pf_present ept_fmt (ent (mem s') (pf_addr ept_fmt (ent (mem s') pt i)) j)))"
  proof (cases "pf_present ept_fmt (ent (mem s) pt i)")
    case False
    then obtain s' where "ept_step l pt i s = Some s'" "grown ept_fmt s fl s' 1 l pt"
        "is_table ept_fmt l (ent (mem s') pt i)"
        "\<forall>va. xlate ept_fmt (mem s') l pt va = xlate ept_fmt (mem s) l pt va"
        "\<forall>j<512. ent (mem s') (pf_addr ept_fmt (ent (mem s') pt i)) j = 0"
      using ept_step_absent[OF inv[unfolded fl l'] i] fl l' by auto
    then show ?thesis by (intro exI[of _ s']) (simp add: is_table_def)
  next
    case True
    then have lf: "l \<le> 3" "ent (mem s) pt i AND EPT_LARGE_PAGE \<noteq> 0"
      using e l by (auto simp: is_table_def is_leaf_def)
    then obtain s' where "ept_step l pt i s = Some s'" "grown ept_fmt s fl s' 1 l pt"
        "is_table ept_fmt l (ent (mem s') pt i)"
        "\<forall>va. xlate ept_fmt (mem s') l pt va = xlate ept_fmt (mem s) l pt va"
        "\<forall>j<512. is_leaf ept_fmt (l - 1) (ent (mem s') (pf_addr ept_fmt (ent (mem s') pt i)) j)"
      using ept_step_split[OF inv[unfolded fl l'] i] True fl l' by auto
    then show ?thesis using True by (intro exI[of _ s']) (simp add: is_table_def)
  qed
qed
end
