(* ===== verification/Ept_Map.thy ===== *)
theory Ept_Map
  imports Ept
begin

text \<open>
  What \<^verbatim>\<open>install_ept_entry\<close> and \<^verbatim>\<open>setup_ept_range\<close> of \<^verbatim>\<open>x86/ept.c\<close> achieve: the guest-physical
  to host-physical translation after a call, and how many pages of the allocator are enough.
\<close>

section \<open>The loop is the generic descent\<close>

lemma ept_offset_nat: "1 \<le> l \<Longrightarrow> ept_offset (int l) va = pt_idx l va"
  by (simp add: ept_offset_def pt_idx_def EPT_LEVEL_SHIFT_nat EPT_PGDIR_MASK_def)

lemma install_ept_step_page:
  "install_ept_step lev pt off 0 s = map_option (\<lambda>s. (0, s)) (map_option snd (install_ept_step lev pt off 0 s))"
  by (auto simp: install_ept_step_def map_option_case Let_def split: option.splits)

lemma ept_addr_fun: "pf_addr ept_fmt = (\<lambda>e. e AND EPT_ADDR_MASK)"
  by (simp add: fun_eq_iff)

lemma install_ept_loop_radix:
  "1 \<le> k \<Longrightarrow> k \<le> n \<Longrightarrow> install_ept_loop (int n) (int k) va pt 0 s =
     map_option (\<lambda>(pt, s). (int k, pt, s)) (radix_loop ept_step (pf_addr ept_fmt) k n va pt s)"
proof (induction n arbitrary: pt s)
  case (Suc l)
  show ?case
  proof (cases "k = Suc l")
    case True
    then show ?thesis by (subst install_ept_loop.simps) simp
  next
    case False
    then have k: "k \<le> l" using Suc.prems by simp
    have st: "install_ept_step (int (Suc l)) pt off 0 s = map_option (\<lambda>s. (0, s)) (ept_step (Suc l) pt off s)"
      for off unfolding ept_step_def by (rule install_ept_step_page)
    have of: "ept_offset (int (Suc l)) va = pt_idx (Suc l) va" by (rule ept_offset_nat) simp
    have dec: "int (Suc l) - 1 = int l" by simp
    show ?thesis
      using k Suc.IH[OF Suc.prems(1) k]
      by (subst install_ept_loop.simps, cases "ept_step (Suc l) pt (pt_idx (Suc l) va) s")
         (simp_all add: st of dec ent_def ept_addr_fun Let_def del: of_nat_Suc)
  qed
qed simp

lemma install_ept_entry_radix:
  assumes "1 \<le> k" "k \<le> 4" "drop_bit 48 va = 0"
  shows "install_ept_entry root (int k) va pte 0 s =
    radix_install ept_step (pf_addr ept_fmt) k 4 va pte root s"
proof -
  have "unat va div 2 ^ 48 = 0" using assms(3) unat_drop_bit[of 48 va] by simp
  then have "va < push_bit 48 1" by (simp add: word_less_nat_alt div_eq_0_iff)
  then show ?thesis
    using assms install_ept_loop_radix[of k 4 va root s]
    by (simp add: install_ept_entry_def radix_install_def EPT_PAGE_LEVEL_def ept_offset_nat
        Option.map_conv_bind_option[symmetric] split: option.splits prod.splits bind_splits)
qed

section \<open>Installing one entry\<close>

lemma install_entry_translation:
  assumes inv: "tinv ept_fmt s fl 4 root" and k: "1 \<le> k" "k \<le> 4" and ga: "ga < 2 ^ 48"
    and pages: "missing ept_fmt (mem s) k 4 root ga \<le> length fl"
    and pte: "\<not> is_table ept_fmt k pte" "entry_ok ept_fmt k pte"
  shows "\<exists>s'. install_ept_entry root (int k) ga pte 0 s = Some s' \<and>
    grown ept_fmt s fl s' (missing ept_fmt (mem s) k 4 root ga) 4 root \<and>
    missing ept_fmt (mem s') k 4 root ga = 0 \<and>
    (\<forall>va. va < 2 ^ 48 \<longrightarrow> xlate ept_fmt (mem s') 4 root va =
      (if drop_bit (pt_shift k) va = drop_bit (pt_shift k) ga then pte_xl ept_fmt k pte va
       else xlate ept_fmt (mem s) 4 root va))"
  using ept.install_one[OF inv k ga pages _ pte] drop_bit_zero_iff[of 48 ga] ga
  by (simp add: install_ept_entry_radix[OF k])

section \<open>The identity map\<close>

definition ept_perm :: "nat \<Rightarrow> u64 \<Rightarrow> bool" where
  "ept_perm k perm \<longleftrightarrow> perm AND EPT_ADDR_MASK = 0 \<and> perm AND EPT_LARGE_PAGE = 0 \<and>
     perm AND EPT_PRESENT \<noteq> 0 \<and> (1 < k \<longrightarrow> perm AND EPT_PRESENT = EPT_PRESENT)"

definition ept_pte :: "nat \<Rightarrow> u64 \<Rightarrow> u64 \<Rightarrow> u64" where
  "ept_pte k p perm = (if k = 1 then (p AND PAGE_MASK) OR perm
                       else (p AND PAGE_MASK) OR perm OR EPT_LARGE_PAGE)"

lemma PAGE_MASK_aligned: "aligned 12 p \<Longrightarrow> p AND PAGE_MASK = p"
proof -
  assume p: "aligned 12 p"
  have m: "PAGE_SIZE - 1 = mask 12" by (simp add: mask_eq_exp_minus_1)
  have "bit PAGE_MASK n \<longleftrightarrow> n < 64 \<and> 12 \<le> n" for n
    unfolding PAGE_MASK_def m bit_not_iff bit_mask_iff by auto
  then show ?thesis using aligned_bit[OF p]
    by (intro bit_word_eqI) (auto simp: bit_simps not_less[symmetric])
qed

lemma ept_pte_ok:
  assumes k: "1 \<le> k" "k \<le> 3" and perm: "ept_perm k perm"
    and p: "aligned (pt_shift k) p" "p < 2 ^ 48"
  shows "\<not> is_table ept_fmt k (ept_pte k p perm)" "entry_ok ept_fmt k (ept_pte k p perm)"
    "drop_bit (pt_shift k) va = drop_bit (pt_shift k) p \<Longrightarrow>
     pte_xl ept_fmt k (ept_pte k p perm) va = Some (va, perm)"
proof -
  have p12: "aligned 12 p" using p(1) by (rule aligned_weaken) (simp add: pt_shift_def)
  have p52: "drop_bit 52 p = 0"
    using p(2) by (simp add: drop_bit_zero_iff word_less_nat_alt)
  define f where "f = perm OR (if k = 1 then 0 else EPT_LARGE_PAGE)"
  have e: "ept_pte k p perm = f OR p"
    unfolding ept_pte_def f_def PAGE_MASK_aligned[OF p12] by (simp add: ac_simps)
  have f0: "f AND EPT_ADDR_MASK = 0" using perm
    by (simp add: f_def ept_perm_def bit.conj_disj_distrib2)
  have ad: "(f OR p) AND EPT_ADDR_MASK = p" by (rule ept_mask_flags[OF f0 p12 p52])
  have pr: "(f OR p) AND EPT_PRESENT = perm AND EPT_PRESENT"
    using p12 by (simp add: f_def bit.conj_disj_distrib2 and.commute[of EPT_LARGE_PAGE])
  have lg: "k \<noteq> 1 \<Longrightarrow> (f OR p) AND EPT_LARGE_PAGE \<noteq> 0"
    using p12 perm by (simp add: f_def ept_perm_def bit.conj_disj_distrib2) (simp add: c_defs)
  then show nt: "\<not> is_table ept_fmt k (ept_pte k p perm)"
    using k unfolding e by (auto simp: is_table_def is_leaf_def)
  have pass: "(f OR p) OR NOT EPT_PRESENT = - 1" if "1 < k"
  proof (rule bit_word_eqI)
    fix n assume n: "n < LENGTH(64)"
    have "perm AND EPT_PRESENT = EPT_PRESENT" using perm that by (simp add: ept_perm_def)
    then have "bit EPT_PRESENT n \<longrightarrow> bit perm n" by (metis bit_and_iff)
    then show "bit ((f OR p) OR NOT EPT_PRESENT) n = bit (- 1 :: u64) n"
      using n by (auto simp: f_def bit_simps)
  qed
  show "entry_ok ept_fmt k (ept_pte k p perm)"
    using k p(1) pass unfolding e by (simp add: entry_ok_def ad)
  have at: "(f OR p) AND NOT EPT_ADDR_MASK AND NOT EPT_LARGE_PAGE = perm"
  proof (rule bit_word_eqI)
    fix n
    have "bit (perm AND EPT_ADDR_MASK) n = False" "bit (perm AND EPT_LARGE_PAGE) n = False"
      "bit (p AND EPT_ADDR_MASK) n = bit p n"
      using perm ept_mask_addr[OF p12 p52] by (simp_all add: ept_perm_def)
    then show "bit ((f OR p) AND NOT EPT_ADDR_MASK AND NOT EPT_LARGE_PAGE) n = bit perm n"
      by (auto simp: f_def bit_simps dest: bit_imp_le_length)
  qed
  assume va: "drop_bit (pt_shift k) va = drop_bit (pt_shift k) p"
  have "p = push_bit (pt_shift k) (drop_bit (pt_shift k) p)"
    using bits_ident[of "pt_shift k" p] p(1) by (simp add: aligned_def)
  then have "p + take_bit (pt_shift k) va = va"
    using bits_ident[of "pt_shift k" va] va by simp
  then show "pte_xl ept_fmt k (ept_pte k p perm) va = Some (va, perm)"
    using perm unfolding e by (simp add: pte_xl_def leaf_xl_def ad at pr ept_perm_def)
qed

text \<open>Each loop of \<^verbatim>\<open>setup_ept_range\<close> is a run of installations.\<close>

lemma ept_map_while_seq:
  assumes "1 \<le> k" "k \<le> 3" "mx \<le> 2 ^ 48" "unat phys \<le> unat mx"
    "n = (unat mx - unat phys) div 2 ^ pt_shift k"
    "install_seq ept_step (pf_addr ept_fmt) k root (\<lambda>p. ept_pte k p perm) n phys s = Some s'"
  shows "\<exists>p'. ept_map_while (\<lambda>p. install_ept_entry root (int k) p (ept_pte k p perm) 0)
        (2 ^ pt_shift k) phys mx s = Some (p', s') \<and> unat p' = unat phys + n * 2 ^ pt_shift k"
  using assms(4-6)
proof (induction n arbitrary: s phys)
  case 0
  let ?st = "2 ^ pt_shift k :: nat"
  have sh: "pt_shift k \<le> 30" using assms by (simp add: pt_shift_def)
  have pw: "?st \<le> 2 ^ 30" by (rule power_increasing[OF sh]) simp
  have u2: "unat (2 ^ pt_shift k :: u64) = ?st" using sh by (simp add: unat_pow2)
  have "unat phys + ?st < 2 ^ 64" using 0 assms(3) pw by (simp add: word_le_nat_alt)
  then have "unat (phys + 2 ^ pt_shift k) = unat phys + ?st" by (simp add: unat_word_ariths u2)
  moreover have "unat mx < unat phys + ?st" using "0.prems"(2) by (simp add: div_eq_0_iff)
  ultimately have "\<not> phys + 2 ^ pt_shift k \<le> mx" by (simp add: word_le_nat_alt)
  then show ?case using 0 by (subst ept_map_while.simps) simp
next
  case (Suc n)
  let ?st = "2 ^ pt_shift k :: nat" and ?q = "phys + 2 ^ pt_shift k"
  have sh: "pt_shift k \<le> 30" using assms by (simp add: pt_shift_def)
  have u2: "unat (2 ^ pt_shift k :: u64) = ?st" using sh by (simp add: unat_pow2)
  have m48: "unat mx \<le> 2 ^ 48" using assms(3) by (simp add: word_le_nat_alt)
  have "Suc n * ?st \<le> unat mx - unat phys"
    unfolding Suc.prems(2) by (rule div_times_less_eq_dividend)
  then have room: "unat phys + ?st + n * ?st \<le> unat mx" using Suc.prems(1) by simp
  have uq: "unat ?q = unat phys + ?st" using room m48 by (simp add: unat_word_ariths u2)
  have st0: "0 < ?st" by simp
  have "unat phys < 2 ^ 48" using room m48 st0 by linarith
  then have "drop_bit 48 phys = 0" by (simp add: drop_bit_zero_iff word_less_nat_alt)
  then have ins: "install_ept_entry root (int k) phys (ept_pte k phys perm) 0 s =
      radix_install ept_step (pf_addr ept_fmt) k 4 phys (ept_pte k phys perm) root s"
    using assms(1,2) by (intro install_ept_entry_radix) simp_all
  obtain s1 where s1: "radix_install ept_step (pf_addr ept_fmt) k 4 phys (ept_pte k phys perm) root s = Some s1"
      "install_seq ept_step (pf_addr ept_fmt) k root (\<lambda>p. ept_pte k p perm) n ?q s1 = Some s'"
    using Suc.prems(3) unfolding install_seq.simps bind_eq_Some_conv by blast
  have nq: "n = (unat mx - unat ?q) div ?st"
    using Suc.prems(2) room le_div_geq[of ?st "unat mx - unat phys"] by (simp add: uq)
  have "unat ?q \<le> unat mx" using room by (simp add: uq)
  moreover have "?q \<le> mx" using room by (simp add: word_le_nat_alt uq)
  ultimately show ?case using Suc.IH[OF _ nq s1(2)] s1(1) ins uq
    by (subst ept_map_while.simps) (auto simp: algebra_simps)
qed

definition mapped_run ::
  "u64 \<Rightarrow> nat \<Rightarrow> u64 \<Rightarrow> nat \<Rightarrow> u64 list \<Rightarrow> u64 \<Rightarrow> 'a pa_state_scheme \<Rightarrow> u64 \<Rightarrow> 'a pa_state_scheme \<Rightarrow> nat \<Rightarrow> bool" where
  "mapped_run root k perm n fl phys s p' s' c \<longleftrightarrow>
     unat p' = unat phys + n * 2 ^ pt_shift k \<and> grown ept_fmt s fl s' c 4 root \<and>
     c \<le> run_pages k (unat phys) n \<and>
     (\<forall>va. va < 2 ^ 48 \<longrightarrow> xlate ept_fmt (mem s') 4 root va =
        (if phys \<le> va \<and> va < p' then Some (va, perm) else xlate ept_fmt (mem s) 4 root va))"

lemma ept_run_pages:
  assumes k: "1 \<le> k" "k \<le> 3" and perm: "ept_perm k perm" and mx: "mx \<le> 2 ^ 48"
    and inv: "tinv ept_fmt s fl 4 root" and al: "aligned (pt_shift k) phys"
    and le: "unat phys \<le> unat mx" and n: "n = (unat mx - unat phys) div 2 ^ pt_shift k"
    and pages: "run_pages k (unat phys) n \<le> length fl"
  shows "\<exists>s' c p'. ept_map_while (\<lambda>p. install_ept_entry root (int k) p (ept_pte k p perm) 0)
        (2 ^ pt_shift k) phys mx s = Some (p', s') \<and> mapped_run root k perm n fl phys s p' s' c"
proof -
  have "n * 2 ^ pt_shift k \<le> unat mx - unat phys" unfolding n by simp
  then have fit: "unat phys + n * 2 ^ pt_shift k \<le> 2 ^ 48" using le mx by (simp add: word_le_nat_alt)
  have pok: "\<not> is_table ept_fmt k (ept_pte k p perm)" "entry_ok ept_fmt k (ept_pte k p perm)"
    "drop_bit (pt_shift k) va = drop_bit (pt_shift k) p \<Longrightarrow> pte_xl ept_fmt k (ept_pte k p perm) va = Some (va, perm)"
    if "aligned (pt_shift k) p" "unat p < unat phys + n * 2 ^ pt_shift k" for p va
  proof -
    have "p < 2 ^ 48" using that(2) fit by (simp add: word_less_nat_alt)
    from ept_pte_ok[OF k perm that(1) this] show "\<not> is_table ept_fmt k (ept_pte k p perm)"
      "entry_ok ept_fmt k (ept_pte k p perm)"
      "drop_bit (pt_shift k) va = drop_bit (pt_shift k) p \<Longrightarrow> pte_xl ept_fmt k (ept_pte k p perm) va = Some (va, perm)"
      by blast+
  qed
  have ok: "run_ok ept_fmt k (\<lambda>p. ept_pte k p perm) n phys" using pok by (simp add: run_ok_def)
  obtain s' c where s': "install_seq ept_step (pf_addr ept_fmt) k root (\<lambda>p. ept_pte k p perm) n phys s = Some s'"
      "grown ept_fmt s fl s' c 4 root" "c \<le> run_pages k (unat phys) n"
      "mapped ept_fmt k root (\<lambda>p. ept_pte k p perm) n phys s s'"
    using ept.install_run_pages[OF k inv al fit ok _ pages] by blast
  obtain p' where p': "ept_map_while (\<lambda>p. install_ept_entry root (int k) p (ept_pte k p perm) 0)
        (2 ^ pt_shift k) phys mx s = Some (p', s')" "unat p' = unat phys + n * 2 ^ pt_shift k"
    using ept_map_while_seq[OF k mx le n s'(1)] by blast
  have rb: "pte_xl ept_fmt k (ept_pte k (region_base k va) perm) va = Some (va, perm)"
    if "unat va < unat phys + n * 2 ^ pt_shift k" for va
  proof (rule pok(3))
    have dr: "drop_bit (pt_shift k) (region_base k va) = drop_bit (pt_shift k) va"
      by (rule bit_word_eqI) (auto simp: region_base_def bit_simps dest: bit_imp_le_length)
    then show "drop_bit (pt_shift k) va = drop_bit (pt_shift k) (region_base k va)" by simp
    show al: "aligned (pt_shift k) (region_base k va)"
      by (simp add: region_base_def aligned_def take_bit_push_bit)
    have "unat (region_base k va) \<le> unat va"
      using block_iff[OF al, of va] dr k by (simp add: pt_shift_def)
    then show "unat (region_base k va) < unat phys + n * 2 ^ pt_shift k" using that by simp
  qed
  have "mapped_run root k perm n fl phys s p' s' c"
    using s'(2-4) p'(2) rb by (simp add: mapped_run_def mapped_def word_le_nat_alt word_less_nat_alt)
  then show ?thesis using p'(1) by blast
qed

lemma ept_loops_are:
  "(\<lambda>p. install_1g_ept root p p perm) = (\<lambda>p. install_ept_entry root (int 3) p (ept_pte 3 p perm) 0)"
  "(\<lambda>p. install_2m_ept root p p perm) = (\<lambda>p. install_ept_entry root (int 2) p (ept_pte 2 p perm) 0)"
  "(\<lambda>p. install_ept root p p perm) = (\<lambda>p. install_ept_entry root (int 1) p (ept_pte 1 p perm) 0)"
  "PAGE_SIZE_1G = 2 ^ pt_shift 3" "PAGE_SIZE_2M = 2 ^ pt_shift 2" "PAGE_SIZE = 2 ^ pt_shift 1"
  by (simp_all add: fun_eq_iff install_1g_ept_def install_2m_ept_def install_ept_def ept_pte_def
      PAGE_SIZE_1G_def PAGE_SIZE_2M_def pt_shift_def)

text \<open>The pages \<^verbatim>\<open>setup_ept_range\<close> may take: the lengths of its three loops, each with its tables.\<close>

definition range_pages :: "bool \<Rightarrow> bool \<Rightarrow> nat \<Rightarrow> nat \<Rightarrow> nat" where
  "range_pages map_1g map_2m a len =
     (let e = a + len;
          n1 = (if map_1g then len div 2 ^ 30 else 0); a1 = a + n1 * 2 ^ 30;
          n2 = (if map_2m then (e - a1) div 2 ^ 21 else 0); a2 = a1 + n2 * 2 ^ 21;
          n3 = (e - a2) div 2 ^ 12
      in run_pages 3 a n1 + run_pages 2 a1 n2 + run_pages 1 a2 n3)"

lemma ept_opt_loop:
  assumes k: "1 \<le> k" "k \<le> 3" and perm: "ept_perm k perm" and mx: "mx \<le> 2 ^ 48"
    and inv: "tinv ept_fmt s fl 4 root" and al: "b \<Longrightarrow> aligned (pt_shift k) phys"
    and le: "unat phys \<le> unat mx"
    and n: "n = (if b then (unat mx - unat phys) div 2 ^ pt_shift k else 0)"
    and pages: "run_pages k (unat phys) n \<le> length fl"
  shows "\<exists>s' c p'. (if b then ept_map_while (\<lambda>p. install_ept_entry root (int k) p (ept_pte k p perm) 0)
        (2 ^ pt_shift k) phys mx s else Some (phys, s)) = Some (p', s') \<and>
      mapped_run root k perm n fl phys s p' s' c \<and> unat p' \<le> unat mx"
proof (cases b)
  case True
  have nT: "n = (unat mx - unat phys) div 2 ^ pt_shift k" using n True by simp
  have "n * 2 ^ pt_shift k \<le> unat mx - unat phys" unfolding nT by simp
  moreover obtain s' c p' where r: "ept_map_while (\<lambda>p. install_ept_entry root (int k) p (ept_pte k p perm) 0)
        (2 ^ pt_shift k) phys mx s = Some (p', s')" "mapped_run root k perm n fl phys s p' s' c"
    using ept_run_pages[OF k perm mx inv al[OF True] le nT pages] by blast
  moreover have "unat p' = unat phys + n * 2 ^ pt_shift k" using r(2) by (simp add: mapped_run_def)
  ultimately show ?thesis using le True
    by (intro exI[of _ s'] exI[of _ c] exI[of _ p']) simp
next
  case False
  have "grown ept_fmt s fl s 0 4 root" using inv by (simp add: grown_def tinv_def)
  then show ?thesis using False n le by (auto simp: run_pages_def mapped_run_def)
qed

lemma aligned_steps:
  "aligned m a \<Longrightarrow> m \<le> sh \<Longrightarrow> unat b = unat a + n * 2 ^ sh \<Longrightarrow> aligned m b"
proof -
  assume a: "aligned m a" "m \<le> sh" "unat b = unat a + n * 2 ^ sh"
  then have "2 ^ m dvd unat a" "(2::nat) ^ m dvd n * 2 ^ sh"
    by (auto simp: aligned_iff_mod le_imp_power_dvd)
  then show ?thesis using a(3) by (simp add: aligned_iff_mod)
qed

lemma ept_perm_mono: "ept_perm 3 perm \<Longrightarrow> ept_perm k perm"
  by (auto simp: ept_perm_def)

lemma setup_range_identity:
  assumes inv: "tinv ept_fmt s fl 4 root" and perm: "ept_perm 3 perm"
    and al: "aligned 12 start" "map_2m \<Longrightarrow> aligned 21 start" "map_1g \<Longrightarrow> aligned 30 start"
    and fit: "unat start + unat len \<le> 2 ^ 48"
    and pages: "range_pages map_1g map_2m (unat start) (unat len) \<le> length fl"
  shows "\<exists>s' c. setup_ept_range root start len map_1g map_2m perm s = Some s' \<and>
    grown ept_fmt s fl s' c 4 root \<and> c \<le> range_pages map_1g map_2m (unat start) (unat len) \<and>
    (\<forall>va. va < 2 ^ 48 \<longrightarrow> xlate ept_fmt (mem s') 4 root va =
      (if start \<le> va \<and> unat va < unat start + unat len div 2 ^ 12 * 2 ^ 12 then Some (va, perm)
       else xlate ept_fmt (mem s) 4 root va))"
proof -
  let ?mx = "len + start" and ?S = "unat start" and ?L = "unat len"
  have umx: "unat ?mx = ?S + ?L" using fit by (simp add: unat_word_ariths)
  then have mx: "?mx \<le> 2 ^ 48" using fit by (simp add: word_le_nat_alt)
  note pm = ept_perm_mono[OF perm]
  define n1 where "n1 = (if map_1g then (unat ?mx - ?S) div 2 ^ pt_shift 3 else 0)"
  define a1 where "a1 = ?S + n1 * 2 ^ pt_shift 3"
  define n2 where "n2 = (if map_2m then (unat ?mx - a1) div 2 ^ pt_shift 2 else 0)"
  define a2 where "a2 = a1 + n2 * 2 ^ pt_shift 2"
  define n3 where "n3 = (if True then (unat ?mx - a2) div 2 ^ pt_shift 1 else 0)"
  have rp: "range_pages map_1g map_2m ?S ?L = run_pages 3 ?S n1 + run_pages 2 a1 n2 + run_pages 1 a2 n3"
    by (simp add: range_pages_def Let_def n1_def n2_def n3_def a1_def a2_def pt_shift_def umx add.commute)
  have al1: "map_1g \<Longrightarrow> aligned (pt_shift 3) start" using al by (simp add: pt_shift_def)
  have le1: "?S \<le> unat ?mx" and pg1: "run_pages 3 ?S n1 \<le> length fl" using pages by (simp_all add: umx rp)
  obtain s1 c1 p1 where r1: "(if map_1g then ept_map_while (\<lambda>p. install_ept_entry root (int 3) p (ept_pte 3 p perm) 0)
        (2 ^ pt_shift 3) start ?mx s else Some (start, s)) = Some (p1, s1)"
      "mapped_run root 3 perm n1 fl start s p1 s1 c1" "unat p1 \<le> unat ?mx"
    using ept_opt_loop[OF _ _ pm mx inv al1 le1 n1_def pg1] by auto
  have u1: "unat p1 = a1" and g1: "grown ept_fmt s fl s1 c1 4 root" and c1: "c1 \<le> run_pages 3 ?S n1"
    using r1(2) by (simp_all add: mapped_run_def a1_def)
  have inv1: "tinv ept_fmt s1 (drop c1 fl) 4 root" by (rule grown_tinv[OF inv g1])
  have al2: "map_2m \<Longrightarrow> aligned (pt_shift 2) p1"
    using aligned_steps[of 21 start "pt_shift 3" p1 n1] al u1 by (simp add: pt_shift_def a1_def)
  have pg2: "run_pages 2 (unat p1) n2 \<le> length (drop c1 fl)" using pages c1 by (simp add: rp u1)
  obtain s2 c2 p2 where r2: "(if map_2m then ept_map_while (\<lambda>p. install_ept_entry root (int 2) p (ept_pte 2 p perm) 0)
        (2 ^ pt_shift 2) p1 ?mx s1 else Some (p1, s1)) = Some (p2, s2)"
      "mapped_run root 2 perm n2 (drop c1 fl) p1 s1 p2 s2 c2" "unat p2 \<le> unat ?mx"
    using ept_opt_loop[OF _ _ pm mx inv1 al2 r1(3) n2_def[folded u1] pg2] by auto
  have u2: "unat p2 = a2" and g2: "grown ept_fmt s1 (drop c1 fl) s2 c2 4 root"
    and c2: "c2 \<le> run_pages 2 a1 n2"
    using r2(2) u1 by (simp_all add: mapped_run_def a2_def)
  have inv2: "tinv ept_fmt s2 (drop c2 (drop c1 fl)) 4 root" by (rule grown_tinv[OF inv1 g2])
  have a12: "aligned 12 p1" "aligned 12 p2"
    using aligned_steps[of 12 start "pt_shift 3" p1 n1] aligned_steps[of 12 p1 "pt_shift 2" p2 n2] al u1 u2
    by (simp_all add: pt_shift_def a1_def a2_def)
  have al3: "aligned (pt_shift 1) p2" using a12 by (simp add: pt_shift_def)
  have pg3: "run_pages 1 (unat p2) n3 \<le> length (drop c2 (drop c1 fl))"
    using pages c1 c2 by (simp add: rp u2)
  obtain s3 c3 p3 where r3: "ept_map_while (\<lambda>p. install_ept_entry root (int 1) p (ept_pte 1 p perm) 0)
        (2 ^ pt_shift 1) p2 ?mx s2 = Some (p3, s3)"
      "mapped_run root 1 perm n3 (drop c2 (drop c1 fl)) p2 s2 p3 s3 c3"
    using ept_opt_loop[OF _ _ pm mx inv2 al3 r2(3) n3_def[folded u2] pg3] by auto
  have u3: "unat p3 = a2 + n3 * 2 ^ 12" and g3: "grown ept_fmt s2 (drop c2 (drop c1 fl)) s3 c3 4 root"
    and c3: "c3 \<le> run_pages 1 a2 n3"
    using r3(2) u2 by (simp_all add: mapped_run_def pt_shift_def)
  have run: "setup_ept_range root start len map_1g map_2m perm s = Some s3"
    using r1(1) r2(1) r3(1) unfolding setup_ept_range_def ept_loops_are Let_def by simp
  have gr: "grown ept_fmt s fl s3 (c1 + (c2 + c3)) 4 root"
    by (rule grown_trans[OF g1 grown_trans[OF g2 g3]])
  have cb: "c1 + (c2 + c3) \<le> range_pages map_1g map_2m ?S ?L" using c1 c2 c3 by (simp add: rp)
  have "4096 dvd a2 - ?S" unfolding a1_def a2_def by (simp add: pt_shift_def)
  moreover have "?S \<le> a2" "a2 \<le> ?S + ?L" using r2(3) by (simp_all add: a1_def a2_def u2 umx)
  ultimately have e3: "unat p3 = ?S + ?L div 2 ^ 12 * 2 ^ 12"
  proof -
    obtain q where q: "a2 = ?S + 4096 * q" using \<open>4096 dvd a2 - ?S\<close> \<open>?S \<le> a2\<close>
      by (metis dvdE le_add_diff_inverse)
    then have "?S + ?L - a2 = ?L - 4096 * q" "4096 * q \<le> ?L" using \<open>a2 \<le> ?S + ?L\<close> by simp_all
    then have "n3 = ?L div 4096 - q" by (simp add: n3_def umx pt_shift_def add.commute)
    moreover have "q \<le> ?L div 4096" using \<open>4096 * q \<le> ?L\<close> by simp
    ultimately show ?thesis using q u3 by (simp add: diff_mult_distrib)
  qed
  have "xlate ept_fmt (mem s3) 4 root va =
      (if start \<le> va \<and> unat va < ?S + ?L div 2 ^ 12 * 2 ^ 12 then Some (va, perm)
       else xlate ept_fmt (mem s) 4 root va)" if "va < 2 ^ 48" for va
  proof -
    have "start \<le> p1" "p1 \<le> p2" "p2 \<le> p3"
      using u1 u2 u3 by (simp_all add: word_le_nat_alt a1_def a2_def)
    moreover have "va < p3 \<longleftrightarrow> unat va < ?S + ?L div 2 ^ 12 * 2 ^ 12" by (simp add: word_less_nat_alt e3)
    ultimately show ?thesis using that r1(2) r2(2) r3(2) unfolding mapped_run_def by auto
  qed
  then show ?thesis using run gr cb by blast
qed

section \<open>Switching the tables on\<close>

definition ept_supported :: "'a vmx_state_scheme \<Rightarrow> bool" where
  "ept_supported s \<longleftrightarrow> msr_clr (ctrl_cpu_rev0 s) AND CPU_SECONDARY \<noteq> 0 \<and>
     msr_clr (ctrl_cpu_rev1 s) AND CPU_EPT \<noteq> 0 \<and>
     ept_vpid s AND EPT_CAP_WB \<noteq> 0 \<and> ept_vpid s AND EPT_CAP_PWL4 \<noteq> 0"

text \<open>Parts of the state the stages of the boot keep: what the run loop looks at, the capabilities, the control
  registers; and the fields of the VMCS that switching EPT on changes.\<close>

definition run_fields :: "'a vmx_state_scheme \<Rightarrow> (u32 \<times> bool \<times> u32 \<times> bool) \<times> u64 \<times> nat option" where
  "run_fields s = ((fw_lock s, launched s, guest_exits s, guest_finished s), hypercall_field s, current_guest s)"

definition caps_of :: "'a vmx_state_scheme \<Rightarrow> (u64 \<times> u64 \<times> u64) \<times> u64 \<times> u64 \<times> u64" where
  "caps_of s = ((ctrl_pin_rev s, ctrl_exit_rev s, ctrl_enter_rev s), ctrl_cpu_rev0 s, ctrl_cpu_rev1 s, ept_vpid s)"

definition cregs :: "'a cpu_state_scheme \<Rightarrow> u64 \<times> u64 \<times> u64" where
  "cregs s = (cr0 s, cr3 s, cr4 s)"

definition ept_vmcs :: "u64 \<Rightarrow> (u64 \<Rightarrow> u64) \<Rightarrow> u64 \<Rightarrow> u64" where
  "ept_vmcs ptr f = f(EPTP := ptr, CPU_EXEC_CTRL0 := (f CPU_EXEC_CTRL0 OR ucast CPU_SECONDARY) AND 0xffffffff,
     CPU_EXEC_CTRL1 := (f CPU_EXEC_CTRL1 OR ucast CPU_EPT) AND 0xffffffff)"

lemma setup_ept_fields_ok:
  assumes "ept_supported s"
  obtains s' where "setup_ept_fields hpa ad s = (0, s')"
    "mem s' = mem s" "freelist s' = freelist s" "pa_lock s' = pa_lock s" "fw_lock s' = fw_lock s"
    "pml4 s' = pml4 s" "ept_vpid s' = ept_vpid s"
    "eptp s' = 0x1e OR hpa OR (if ad then 0x40 else 0)" "vmcs_field s' = ept_vmcs (eptp s') (vmcs_field s)"
    "run_fields s' = run_fields s" "caps_of s' = caps_of s" "cregs s' = cregs s"
proof -
  have k: "vmcs_key EPTP = EPTP" "vmcs_key CPU_EXEC_CTRL0 = CPU_EXEC_CTRL0" "vmcs_key CPU_EXEC_CTRL1 = CPU_EXEC_CTRL1"
    "\<not> bit EPTP 0" "\<not> bit CPU_EXEC_CTRL0 0" "\<not> bit CPU_EXEC_CTRL1 0"
    "drop_bit 13 EPTP AND 3 = 1" "drop_bit 13 CPU_EXEC_CTRL0 AND 3 = 2" "drop_bit 13 CPU_EXEC_CTRL1 AND 3 = 2"
    "EPTP \<noteq> CPU_EXEC_CTRL0" "EPTP \<noteq> CPU_EXEC_CTRL1" "CPU_EXEC_CTRL0 \<noteq> CPU_EXEC_CTRL1"
    by (simp_all add: vmcs_key_def EPTP_def CPU_EXEC_CTRL0_def CPU_EXEC_CTRL1_def)
  have w: "EPT_MEM_TYPE_WB OR push_bit (unat EPTP_PG_WALK_LEN_SHIFT) 3 = 0x1e"
    by (simp add: EPT_MEM_TYPE_WB_def EPTP_PG_WALK_LEN_SHIFT_def)
  show thesis
    by (rule that[of "snd (setup_ept_fields hpa ad s)"])
      (use assms k k(10-12)[symmetric] w in \<open>simp_all add: setup_ept_fields_def ept_supported_def Let_def vmcs_write_def
         vmcs_read_def vmcs_value_def EPTP_AD_FLAG_def or.assoc ept_vmcs_def run_fields_def caps_of_def cregs_def\<close>)
qed

text \<open>Building tables touches memory and the page allocator only.\<close>

lemma split_large_ept_entry_more:
  "split_large_ept_entry q lev s = Some s' \<Longrightarrow> pa_state.more s' = pa_state.more s"
  by (auto simp: split_large_ept_entry_def Let_def alloc_page_more split: if_splits bind_splits)

lemma install_ept_step_more:
  "install_ept_step lev pt off pg s = Some (pg', s') \<Longrightarrow> pa_state.more s' = pa_state.more s"
  by (auto simp: install_ept_step_def Let_def alloc_page_more split_large_ept_entry_more
      split: if_splits bind_splits)

lemma install_ept_loop_more:
  "install_ept_loop lev k va pt pg s = Some (l, pt', s') \<Longrightarrow> pa_state.more s' = pa_state.more s"
proof (induction lev k va pt pg s rule: install_ept_loop.induct)
  case (1 level pte_level guest_addr pt pt_page s)
  show ?case
  proof (cases "pte_level < level")
    case True
    obtain pg1 s1 where s1: "install_ept_step level pt (ept_offset level guest_addr) pt_page s = Some (pg1, s1)"
        "install_ept_loop (level - 1) pte_level guest_addr
          (phys_to_virt (ld64 (mem s1) (pt + 8 * ept_offset level guest_addr) AND EPT_ADDR_MASK)) pg1 s1 =
          Some (l, pt', s')"
      using 1(2) True by (subst (asm) install_ept_loop.simps) (auto simp: Let_def split: bind_splits)
    have "pa_state.more s' = pa_state.more s1" by (rule 1(1)[OF True refl s1(1) refl refl s1(2)])
    then show ?thesis using install_ept_step_more[OF s1(1)] by simp
  next
    case False
    then show ?thesis using 1(2) by (subst (asm) install_ept_loop.simps) simp
  qed
qed

lemma install_ept_entry_more:
  "install_ept_entry root k va pte pg s = Some s' \<Longrightarrow> pa_state.more s' = pa_state.more s"
  by (auto simp: install_ept_entry_def Let_def dest!: install_ept_loop_more split: if_splits bind_splits)

lemma ept_map_while_more:
  assumes "ept_map_while f st p mx s = Some r" "\<And>p s s'. f p s = Some s' \<Longrightarrow> pa_state.more s' = pa_state.more s"
  shows "pa_state.more (snd r) = pa_state.more s"
proof -
  have "(\<forall>p s s'. f p s = Some s' \<longrightarrow> pa_state.more s' = pa_state.more s) \<longrightarrow>
      pa_state.more (snd r) = pa_state.more s"
  proof (rule ept_map_while.raw_induct[OF _ assms(1), where P = "\<lambda>f st p mx s r.
      (\<forall>p s s'. f p s = Some s' \<longrightarrow> pa_state.more s' = pa_state.more s) \<longrightarrow>
      pa_state.more (snd r) = pa_state.more s"])
    fix g f st p mx s r
    assume IH: "\<And>f st p mx s r. g f st p mx s = Some r \<Longrightarrow>
        (\<forall>p s s'. f p s = Some s' \<longrightarrow> pa_state.more s' = pa_state.more s) \<longrightarrow>
        pa_state.more (snd r) = pa_state.more s"
      and r: "(if p + st \<le> mx then f p s \<bind> g f st (p + st) mx else Some (p, s)) = Some r"
    show "(\<forall>p s s'. f p s = Some s' \<longrightarrow> pa_state.more s' = pa_state.more s) \<longrightarrow>
        pa_state.more (snd r) = pa_state.more s"
      using r IH[of f st "p + st" mx _ r] by (auto split: if_splits bind_splits)
  qed
  then show ?thesis using assms(2) by blast
qed

lemma setup_ept_range_more:
  assumes "setup_ept_range root start len g m perm s = Some s'"
  shows "pa_state.more s' = pa_state.more s"
proof -
  have w: "pa_state.more s' = pa_state.more s"
    if "ept_map_while (\<lambda>p. install_ept_entry root k p (ept_pte j p perm) 0) st p mx s = Some (q, s')"
    for k j st p mx q and s s' :: "'a pa_state_scheme"
    using ept_map_while_more[OF that] install_ept_entry_more by fastforce
  show ?thesis
    using assms unfolding setup_ept_range_def ept_loops_are Let_def
    by (auto split: if_splits bind_splits dest!: w)
qed

lemma vmx_more_eq:
  fixes s :: "'a vmx_state_scheme"
  shows "pa_state.more s' = pa_state.more s \<Longrightarrow> pml4 s' = pml4 s \<and> eptp s' = eptp s \<and>
    vmcs_field s' = vmcs_field s \<and> run_fields s' = run_fields s \<and> caps_of s' = caps_of s \<and> cregs s' = cregs s"
  by (cases s; cases s') (simp add: run_fields_def caps_of_def cregs_def)

lemma fresh_root:
  assumes fl: "fl_inv s (p # fl)" and p52: "\<forall>q\<in>set fl. drop_bit 52 q = 0"
    and s': "mem s' = memset p 0 PAGE_SIZE (mem s)" "freelist s' = ld64 (mem s) p" "pa_lock s' = pa_lock s"
  shows "tinv ept_fmt s' fl 4 p" "xlate ept_fmt (mem s') 4 p va = None"
proof -
  have p: "aligned 12 p" "p \<noteq> 0" "flist (mem s) (ld64 (mem s) p) fl" "pa_lock s = 0"
    using fl by (auto simp: fl_inv_def)
  have z: "\<And>i. i < 512 \<Longrightarrow> ent (mem s') p i = 0" using p by (simp add: s' ent_memset_page)
  have n0: "\<not> pf_present ept_fmt 0" by simp
  note zt = zero_table[OF p(1) z n0, where l = 3, simplified]
  have "distinct (p # fl)" using fl by (rule fl_inv_distinct)
  then have "flist (mem s') (freelist s') fl"
    unfolding s' using p(3) by (intro flist_mframe[OF _ mframe_memset[OF p(1)]]) auto
  then show "tinv ept_fmt s' fl 4 p"
    using zt(1,2) p52 p(4) s' \<open>distinct (p # fl)\<close> by (simp add: tinv_def fl_inv_def)
  show "xlate ept_fmt (mem s') 4 p va = None" using zt(3) by simp
qed

lemma setup_ept_identity_map:
  assumes fl: "fl_inv s (p # fl)" and p52: "\<forall>q\<in>set fl. drop_bit 52 q = 0"
    and sup: "ept_supported s" and dev: "fw_cfg_dev hw item" and lk: "fw_lock s = 0"
    and mt: "mtop = max (unat (le_bytes (item 3) 8)) (2 ^ 32)" "mtop \<le> 2 ^ 48"
    and pages: "range_pages False (\<not> ad \<and> ept_2m_supported s) 0 mtop \<le> length fl"
  shows "\<exists>s' c. setup_ept hw ad s = Some (0, s') \<and> pml4 s' = p \<and>
    eptp s' = 0x1e OR p OR (if ad then 0x40 else 0) \<and> vmcs_field s' = ept_vmcs (eptp s') (vmcs_field s) \<and>
    run_fields s' = run_fields s \<and> caps_of s' = caps_of s \<and> cregs s' = cregs s \<and>
    fl_inv s' (drop c fl) \<and> mframe (mem s) (mem s') (insert p (set (take c fl))) \<and>
    (\<forall>ga. ga < 2 ^ 48 \<longrightarrow> xlate ept_fmt (mem s') 4 p ga =
      (if unat ga < mtop div 2 ^ 12 * 2 ^ 12 then Some (ga, EPT_PRESENT) else None))"
proof -
  let ?s1 = "s\<lparr>freelist := ld64 (mem s) p, pml4 := p\<rparr>"
  have "ept_supported ?s1" using sup by (simp add: ept_supported_def)
  then obtain s2 where s2: "setup_ept_fields p ad ?s1 = (0, s2)"
    "mem s2 = mem ?s1" "freelist s2 = freelist ?s1" "pa_lock s2 = pa_lock ?s1" "fw_lock s2 = fw_lock ?s1"
    "pml4 s2 = pml4 ?s1" "ept_vpid s2 = ept_vpid ?s1" "eptp s2 = 0x1e OR p OR (if ad then 0x40 else 0)"
    "vmcs_field s2 = ept_vmcs (eptp s2) (vmcs_field ?s1)"
    "run_fields s2 = run_fields ?s1" "caps_of s2 = caps_of ?s1" "cregs s2 = cregs ?s1"
    by (rule setup_ept_fields_ok[where hpa = p and ad = ad])
  define s4 where "s4 = fw_done 3 8 (s2\<lparr>mem := memset p 0 PAGE_SIZE (mem s2)\<rparr>)"
  define eom where "eom = (if le_bytes (item 3) 8 < push_bit 32 1 then push_bit 32 1 else le_bytes (item 3) 8)"
  have ueom: "unat eom = mtop"
    using mt(1) by (auto simp: eom_def word_less_nat_alt max_def)
  have fw: "fwcfg_get_u64 hw FW_CFG_RAM_SIZE (s2\<lparr>mem := memset p 0 PAGE_SIZE (mem s2)\<rparr>) =
      Some (le_bytes (item 3) 8, s4)"
    using fwcfg_get_u_item[OF dev, of "s2\<lparr>mem := memset p 0 PAGE_SIZE (mem s2)\<rparr>" 3 8] s2 lk
    by (simp add: fwcfg_get_u64_def FW_CFG_RAM_SIZE_def s4_def)
  have s4: "mem s4 = memset p 0 PAGE_SIZE (mem s)" "freelist s4 = ld64 (mem s) p" "pa_lock s4 = pa_lock s"
    "pml4 s4 = p" "ept_vpid s4 = ept_vpid s" "eptp s4 = 0x1e OR p OR (if ad then 0x40 else 0)"
    "vmcs_field s4 = ept_vmcs (eptp s4) (vmcs_field s)" "run_fields s4 = run_fields s" "caps_of s4 = caps_of s" "cregs s4 = cregs s"
    using s2 by (simp_all add: s4_def fw_done_def run_fields_def caps_of_def cregs_def)
  note fr = fresh_root[OF fl p52 s4(1-3)]
  have e2m: "ept_2m_supported s4 \<longleftrightarrow> ept_2m_supported s" by (simp add: ept_2m_supported_def s4)
  have pa: "EPT_WA OR EPT_RA OR EPT_EA = EPT_PRESENT" by (simp add: c_defs)
  have "EPT_PRESENT \<noteq> 0" by (simp add: c_defs)
  then have perm: "ept_perm 3 EPT_PRESENT" by (simp add: ept_perm_def)
  obtain s5 c where s5: "setup_ept_range p 0 eom False (\<not> ad \<and> ept_2m_supported s) EPT_PRESENT s4 = Some s5"
    "grown ept_fmt s4 fl s5 c 4 p"
    "\<forall>va. va < 2 ^ 48 \<longrightarrow> xlate ept_fmt (mem s5) 4 p va =
      (if 0 \<le> va \<and> unat va < unat (0::u64) + unat eom div 2 ^ 12 * 2 ^ 12 then Some (va, EPT_PRESENT)
       else xlate ept_fmt (mem s4) 4 p va)"
    using setup_range_identity[OF fr(1) perm, of 0 "\<not> ad \<and> ept_2m_supported s" False eom] mt(2) pages ueom
    by auto
  note fin = vmx_more_eq[OF setup_ept_range_more[OF s5(1)]]
  have "setup_ept hw ad s = Some (0, s5)"
    using alloc_page_Cons[OF fl] s2(1) fw s5(1) s4(4) s2(6) unfolding setup_ept_def
    by (simp add: Let_def eom_def pa e2m)
  moreover have "mframe (mem s) (mem s5) (insert p (set (take c fl)))"
  proof -
    have al: "aligned 12 p" using fl by (simp add: fl_inv_def)
    have "ent (mem s4) p i = 0" if "i < 512" for i using al that by (simp add: s4(1) ent_memset_page)
    then have "tpages ept_fmt (mem s4) 4 p = {p}"
      using zero_table[OF al, of "mem s4" ept_fmt 3] by simp
    then have "mframe (mem s4) (mem s5) ({p} \<union> set (take c fl))" using s5(2) by (simp add: grown_def)
    then have "mframe (mem s) (mem s5) ({p} \<union> ({p} \<union> set (take c fl)))"
      by (rule mframe_trans[OF mframe_memset[OF al, of "mem s"], folded s4(1)])
    then show ?thesis by simp
  qed
  moreover have "fl_inv s5 (drop c fl)" using s5(2) by (simp add: grown_def)
  ultimately show ?thesis using fin s4 s5(3) fr(2) ueom by (intro exI[of _ s5] exI[of _ c]) auto
qed

end
