(* ===== verification/Machines.thy ===== *)
theory Machines
  imports Radix_Map
begin

text \<open>
  Small concrete machines on which the properties of the page allocator and of the page tables are
  exercised: memory full of zeros, some pages from \<^verbatim>\<open>0x100000\<close> on handed to the allocator.
\<close>

definition pa0 :: pa_state where
  "pa0 = \<lparr>mem = \<lambda>_. 0, console = [], freelist = 0, pa_lock = 0\<rparr>"

text \<open>Memory from \<^verbatim>\<open>0x100000\<close> on is handed to the page allocator.\<close>

definition give :: "nat \<Rightarrow> 'a pa_state_scheme \<Rightarrow> 'a pa_state_scheme" where
  "give n s = the (free_pages 0x100000 (PAGE_SIZE * of_nat n) s)"

lemma give_free:
  assumes "freelist s = 0" "pa_lock s = 0" "0 < n" "n \<le> 0x10000"
  shows "fl_inv (give n s) (page_run 0x100000 n)"
    and "aligned 3 q \<Longrightarrow> q \<notin> set (page_run 0x100000 n) \<Longrightarrow> ld64 (mem (give n s)) q = ld64 (mem s) q"
    and "pa_state.more (give n s) = pa_state.more s"
proof -
  have inv: "fl_inv s []" using assms by (simp add: fl_inv_def)
  have al: "aligned 12 0x100000" by (simp add: aligned_iff_mod)
  obtain s' where s': "free_pages 0x100000 (PAGE_SIZE * of_nat n) s = Some s'"
    "fl_inv s' (page_run 0x100000 n)"
    "\<forall>q. aligned 3 q \<longrightarrow> q \<notin> set (page_run 0x100000 n) \<longrightarrow> ld64 (mem s') q = ld64 (mem s) q"
    using free_pages_run[OF inv al assms(3)] assms(4) by auto
  then show "fl_inv (give n s) (page_run 0x100000 n)"
    "aligned 3 q \<Longrightarrow> q \<notin> set (page_run 0x100000 n) \<Longrightarrow> ld64 (mem (give n s)) q = ld64 (mem s) q"
    by (simp_all add: give_def)
  have "pa_state.more s' = pa_state.more s"
    using s'(1) by (auto simp: free_pages_def pa_spin_lock_def pa_spin_unlock_def spin_lock_def Let_def
        split: if_splits bind_splits)
  then show "pa_state.more (give n s) = pa_state.more s" using s'(1) by (simp add: give_def)
qed

lemma page_run_bound:
  assumes "q \<in> set (page_run 0x100000 n)" "n \<le> 0x10000"
  shows "0x100000 \<le> unat q" "unat q < 0x100000 + n * 4096" "drop_bit 52 q = 0"
proof -
  obtain i where i: "i < n" "q = 0x100000 + PAGE_SIZE * of_nat i" using assms by (auto simp: page_run_def)
  then have u: "unat q = 0x100000 + 4096 * i" using assms(2)
    by (simp only: unat_word_ariths unat_of_nat) simp
  then show "0x100000 \<le> unat q" "unat q < 0x100000 + n * 4096" using i by auto
  show "drop_bit 52 q = 0" using u i assms(2) by (simp add: drop_bit_zero_iff word_less_nat_alt)
qed

lemma demo_page_run:
  "page_run 0x100000 (Suc n) = 0x100000 # page_run 0x101000 n"
  by (simp add: page_run_Suc)

text \<open>A machine with an empty root table at \<open>0x1000\<close> and three free pages.\<close>

lemma fresh_root_machine:
  assumes n0: "\<not> pf_present F 0"
  shows
  "tinv F (give 3 pa0) (page_run 0x100000 3) 4 0x1000"
  "xlate F (mem (give 3 pa0)) 4 0x1000 va = None"
  "missing F (mem (give 3 pa0)) 1 4 0x1000 va = 3"
proof -
  let ?s = "give 3 pa0"
  have v: "freelist pa0 = 0" "pa_lock pa0 = 0" by (simp_all add: pa0_def)
  note g = give_free[OF v, of 3]
  have z: "ent (mem ?s) 0x1000 i = 0" if "i < 512" for i
  proof -
    have al: "aligned 12 0x1000" by (simp add: aligned_iff_mod)
    have u: "unat (0x1000 + 8 * i :: u64) = 0x1000 + 8 * unat i"
      using unat_add_aligned[OF al, of "8 * i"] that by (simp add: unat_mult_8 word_less_nat_alt)
    have "0x1000 + 8 * i \<notin> set (page_run 0x100000 3)"
      using page_run_bound(1)[of "0x1000 + 8 * i" 3] u that by (auto simp: word_less_nat_alt)
    then have "ent (mem ?s) 0x1000 i = ld64 (mem pa0) (0x1000 + 8 * i)"
      using g(2)[of "0x1000 + 8 * i"] al by (simp add: ent_def)
    then show ?thesis by (simp add: pa0_def ld64_zero)
  qed
  have al: "aligned 12 0x1000" by (simp add: aligned_iff_mod)
  note zt = zero_table[OF al z n0, where l = 3, simplified]
  have "0x1000 \<notin> set (page_run 0x100000 3)" using page_run_bound(1)[of "0x1000" 3] by auto
  moreover have "drop_bit 52 p = 0" if "p \<in> set (page_run 0x100000 3)" for p
    using page_run_bound(3)[OF that] by simp
  ultimately show "tinv F ?s (page_run 0x100000 3) 4 0x1000"
    using g(1) zt(1,2) by (simp add: tinv_def)
  show "xlate F (mem ?s) 4 0x1000 va = None" by (rule zt(3))
  show "missing F (mem ?s) 1 4 0x1000 va = 3"
    using z[of "pt_idx 4 va"] n0 by (simp add: eval_nat_numeral is_table_def)
qed

text \<open>A machine with one entry in the table at \<open>0x1000\<close> and one free page.\<close>

lemma one_entry_machine:
  assumes v: "freelist z = 0" "pa_lock z = 0" and m: "mem z = st64 (\<lambda>_. 0) 0x1000 e" and i: "i < 512"
  shows "ent (mem (give 1 z)) 0x1000 i = (if i = 0 then e else 0)"
proof -
  note g = give_free[OF v, of 1]
  have al: "aligned 12 0x1000" by (simp add: aligned_iff_mod)
  have u: "unat (0x1000 + 8 * i :: u64) = 0x1000 + 8 * unat i"
    using unat_add_aligned[OF al, of "8 * i"] i by (simp add: unat_mult_8 word_less_nat_alt)
  have "0x1000 + 8 * i \<notin> set (page_run 0x100000 1)"
    using page_run_bound(1)[of "0x1000 + 8 * i" 1] u i by (auto simp: word_less_nat_alt)
  then have "ent (mem (give 1 z)) 0x1000 i = ent (st64 (\<lambda>_. 0) (0x1000 + 8 * 0) e) 0x1000 i"
    using g(2)[of "0x1000 + 8 * i"] al m by (simp add: ent_def)
  also have "\<dots> = (if i = 0 then e else ent (\<lambda>_. 0) 0x1000 i)"
    using ent_st64[OF al al, of 0 i] i by auto
  finally show ?thesis by (simp add: ent_def ld64_zero)
qed

lemma leaf_table:
  assumes "aligned 12 p" "\<And>i. i < 512 \<Longrightarrow> entry_ok F (Suc l) (ent m p i)"
    "\<And>i. i < 512 \<Longrightarrow> \<not> is_table F (Suc l) (ent m p i)"
  shows "twf F m (Suc l) p" "tpages F m (Suc l) p = {p}"
  using assms by (simp_all add: twf.simps tpages_Suc cpages_def)

lemma xlate_leaf:
  "pf_present F (ent m pt (pt_idx (Suc l) va)) \<Longrightarrow> is_leaf F (Suc l) (ent m pt (pt_idx (Suc l) va)) \<Longrightarrow>
   xlate F m (Suc l) pt va = Some (leaf_xl F (Suc l) (ent m pt (pt_idx (Suc l) va)) va)"
  by (simp add: xlate.simps)

end
