(* ===== verification/Vmx_Machine.thy ===== *)
theory Vmx_Machine
  imports Machines Vmx_State
begin

text \<open>
  Concrete machines with VMX state and a firmware configuration device, on which the properties of
  the hypervisor are exercised.
\<close>

definition regs0 :: regs where
  "regs0 = \<lparr>rax = 0, rcx = 0, rdx = 0, rbx = 0, rcr2 = 0, rbp = 0, rsi = 0, rdi = 0, r8 = 0, r9 = 0,
     r10 = 0, r11 = 0, r12 = 0, r13 = 0, r14 = 0, r15 = 0, rflags = 2\<rparr>"

text \<open>A machine whose processor offers EPT with a four-level, write-back walk.\<close>

definition vmx0 :: vmx_state where
  "vmx0 = \<lparr>mem = \<lambda>_. 0, console = [], freelist = 0, pa_lock = 0, trace = [], cr0 = 0, cr2 = 0, cr3 = 0,
     cr4 = 0, rflags_reg = 2, fw_lock = 0, vmcs_field = \<lambda>_. 0, pml4 = 0, eptp = 0, vmxon_region = 0,
     vpid_cnt = 0, guest_stack = 0, guest_syscall_stack = 0, ctrl_pin = 0, ctrl_enter = 0,
     ctrl_exit = 0, ctrl_cpu0 = 0, ctrl_cpu1 = 0, vregs = regs0, current_guest = None, guest_vmcs = 0,
     guest_exits = 0, basic = 0, ctrl_pin_rev = 0, ctrl_cpu_rev0 = 2 ^ 63, ctrl_cpu_rev1 = 2 ^ 33,
     ctrl_exit_rev = 0, ctrl_enter_rev = 0, ept_vpid = 0x4040, hypercall_field = 0, launched = False,
     guest_finished = False, in_guest = False\<rparr>"

text \<open>A firmware configuration device: it answers from the last selector in the history.\<close>

fun fw_answer :: "(u16 \<Rightarrow> nat \<Rightarrow> u8) \<Rightarrow> ioev list \<Rightarrow> nat \<Rightarrow> u64" where
  "fw_answer item (PortOut w p v # tr) n = (if w = 2 \<and> p = 0x510 then ucast (item (ucast v) n) else fw_answer item tr n)"
| "fw_answer item (PortIn w p # tr) n = fw_answer item tr (if w = 1 \<and> p = 0x511 then Suc n else n)"
| "fw_answer item (e # tr) n = fw_answer item tr n"
| "fw_answer item [] n = 0"

definition fw_hw :: "(u16 \<Rightarrow> nat \<Rightarrow> u8) \<Rightarrow> hw" where
  "fw_hw item tr e = fw_answer item (rev tr) 0"

lemma fw_answer_run:
  "fw_answer item (replicate k (PortIn 1 0x511) @ PortOut 2 0x510 v # tr) n = ucast (item (ucast v) (n + k))"
  by (induction k arbitrary: n) simp_all

lemma fw_hw_dev: "fw_cfg_dev (fw_hw item) item"
  by (simp add: fw_cfg_dev_def fw_hw_def fw_answer_run del: One_nat_def)

end
