(* ===== verification/Ept_Props.thy ===== *)
theory Ept_Props
  imports Ept_Map Vmx_Machine
begin

text \<open>
  The properties of the extended page tables, each with a run on a concrete machine.
\<close>

section \<open>Properties\<close>

text \<open>C5: on a processor that supports EPT, with enough free pages, \<^verbatim>\<open>setup_ept\<close> returns 0 and the
  tables it leaves translate every guest-physical address below the larger of the RAM size and
  4 GiB (rounded down to a page) to itself with read, write and execute access, and nothing above it;
  the EPT pointer is write-back, four levels, at the new root.\<close>

theorem setup_ept_identity:
  assumes "fl_inv s (p # fl)" "\<forall>q\<in>set fl. drop_bit 52 q = 0" "ept_supported s"
    "fw_cfg_dev hw item" "fw_lock s = 0"
    "mtop = max (unat (le_bytes (item 3) 8)) (2 ^ 32)" "mtop \<le> 2 ^ 48"
    "range_pages False (\<not> ad \<and> ept_2m_supported s) 0 mtop \<le> length fl"
  shows "\<exists>s'. setup_ept hw ad s = Some (0, s') \<and> pml4 s' = p \<and>
    eptp s' = 0x1e OR p OR (if ad then 0x40 else 0) \<and>
    (\<forall>ga. ga < 2 ^ 48 \<longrightarrow> xlate ept_fmt (mem s') 4 p ga =
      (if unat ga < mtop div 2 ^ 12 * 2 ^ 12 then Some (ga, EPT_PRESENT) else None))"
  using setup_ept_identity_map[OF assms] by blast

theorem setup_ept_identity_witness:
  "\<exists>s'. setup_ept (fw_hw (\<lambda>_ _. 0)) True (give 2054 vmx0) = Some (0, s') \<and> pml4 s' = 0x100000 \<and>
    eptp s' = 0x10005e \<and>
    (\<forall>ga. ga < 2 ^ 48 \<longrightarrow> xlate ept_fmt (mem s') 4 0x100000 ga =
      (if unat ga < 2 ^ 32 then Some (ga, EPT_PRESENT) else None))"
proof -
  let ?s = "give 2054 vmx0"
  have v: "freelist vmx0 = 0" "pa_lock vmx0 = 0" by (simp_all add: vmx0_def)
  note g = give_free[OF v, of 2054]
  have "pa_state.more ?s = pa_state.more vmx0" using g(3) by simp
  then have more: "fw_lock ?s = 0" "ctrl_cpu_rev0 ?s = 2 ^ 63" "ctrl_cpu_rev1 ?s = 2 ^ 33"
    "ept_vpid ?s = 0x4040"
    by (cases "give 2054 vmx0"; simp add: vmx0_def)+
  have sup: "ept_supported ?s"
    by (simp add: ept_supported_def more msr_clr_def c_defs)
  have fl: "fl_inv ?s (0x100000 # page_run 0x101000 2053)"
    using g(1) demo_page_run[of 2053] by simp
  have b: "\<forall>q\<in>set (page_run 0x101000 2053). drop_bit 52 q = 0"
  proof
    fix q assume "q \<in> set (page_run 0x101000 2053)"
    then have "q \<in> set (page_run 0x100000 2054)" using demo_page_run[of 2053] by simp
    then show "drop_bit 52 q = 0" by (rule page_run_bound) simp
  qed
  have z: "le_bytes (\<lambda>_. 0) 8 = 0" by (simp add: eval_nat_numeral)
  have "{Suc 1..4} = {2, 3, 4::nat}" by auto
  then have pages: "range_pages False False 0 (2 ^ 32) = 2053"
    by (simp add: range_pages_def run_pages_def new_tables_def Let_def pt_shift_def)
  show ?thesis
    using setup_ept_identity[OF fl b sup fw_hw_dev[of "\<lambda>_ _. 0"] more(1) refl, of True] pages z by simp
qed

lemmas root_machine = fresh_root_machine [of ept_fmt, simplified]

lemma EPT_ADDR_MASK_val: "EPT_ADDR_MASK = 0xffffffffff000"
  by code_simp

lemma perm7:
  "(7::u64) AND EPT_ADDR_MASK = 0" "(7::u64) AND EPT_LARGE_PAGE = 0" "(7::u64) AND EPT_PRESENT = 7"
  "(7::u64) AND NOT EPT_ADDR_MASK AND NOT EPT_LARGE_PAGE = 7" "ept_perm k 7"
proof -
  have p: "(7::u64) = EPT_PRESENT" by (simp add: c_defs)
  show "(7::u64) AND EPT_ADDR_MASK = 0" "(7::u64) AND EPT_LARGE_PAGE = 0" "(7::u64) AND EPT_PRESENT = 7"
    unfolding p by simp_all
  moreover have "(7::u64) \<noteq> 0" by simp
  ultimately show "ept_perm k 7" using p unfolding ept_perm_def by metis
  show "(7::u64) AND NOT EPT_ADDR_MASK AND NOT EPT_LARGE_PAGE = 7"
    unfolding p by (rule bit_word_eqI) (auto simp: bit_simps ept_bits)
qed

text \<open>C9: \<^verbatim>\<open>install_ept_entry\<close> without a page of the caller, at any level, from any well-formed table
  and with as many free pages as tables are missing on the way: it returns, large pages in the way
  are split, every address of the region the entry covers is afterwards translated by the entry,
  every other address exactly as before, and exactly the missing tables were taken from the
  allocator.\<close>

theorem install_ept_entry_correct:
  assumes "tinv ept_fmt s fl 4 root" "1 \<le> k" "k \<le> 4" "ga < 2 ^ 48"
    "missing ept_fmt (mem s) k 4 root ga \<le> length fl"
    "\<not> is_table ept_fmt k pte" "entry_ok ept_fmt k pte"
  shows "\<exists>s'. install_ept_entry root (int k) ga pte 0 s = Some s' \<and>
    tinv ept_fmt s' (drop (missing ept_fmt (mem s) k 4 root ga) fl) 4 root \<and>
    (\<forall>va. va < 2 ^ 48 \<longrightarrow> xlate ept_fmt (mem s') 4 root va =
      (if drop_bit (pt_shift k) va = drop_bit (pt_shift k) ga then pte_xl ept_fmt k pte va
       else xlate ept_fmt (mem s) 4 root va))"
  using install_entry_translation[OF assms] grown_tinv[OF assms(1)] by blast

theorem install_ept_entry_correct_witness:
  "\<exists>s'. install_ept_entry 0x1000 1 0x7000 0x7 0 (give 3 pa0) = Some s' \<and>
    xlate ept_fmt (mem s') 4 0x1000 0x7123 = Some (0x123, 7) \<and> xlate ept_fmt (mem s') 4 0x1000 0x8123 = None"
proof -
  have e: "\<not> is_table ept_fmt 1 7" by (simp add: is_table_def is_leaf_def)
  have m: "(7::u64) AND EPT_ADDR_MASK = 0" "(7::u64) AND NOT EPT_ADDR_MASK AND NOT EPT_LARGE_PAGE = 7"
    "(7::u64) AND EPT_PRESENT \<noteq> 0"
    using perm7 by simp_all
  have ok: "entry_ok ept_fmt 1 7" using m by (simp add: entry_ok_def)
  have mi: "missing ept_fmt (mem (give 3 pa0)) 1 4 0x1000 0x7000 \<le> length (page_run 0x100000 3)"
    using root_machine(3) by simp
  have ga: "(0x7000::u64) < 2 ^ 48" by simp
  obtain s' where s': "install_ept_entry 0x1000 (int 1) 0x7000 7 0 (give 3 pa0) = Some s'"
    "\<forall>va. va < 2 ^ 48 \<longrightarrow> xlate ept_fmt (mem s') 4 0x1000 va =
      (if drop_bit (pt_shift 1) va = drop_bit (pt_shift 1) 0x7000 then pte_xl ept_fmt 1 7 va
       else xlate ept_fmt (mem (give 3 pa0)) 4 0x1000 va)"
    using install_ept_entry_correct[OF root_machine(1) _ _ ga mi e ok] by auto
  have "pte_xl ept_fmt 1 7 0x7123 = Some (0x123, 7)"
    using m by (simp add: pte_xl_def leaf_xl_def pt_shift_def take_bit_eq_mask mask_eq_exp_minus_1)
  then show ?thesis using s' root_machine(2) by (intro exI[of _ s']) (simp add: pt_shift_def)
qed

text \<open>Splitting a 2M or 1G entry (the entry \<open>i\<close> of a well-formed table at level 2 or 3): with a
  free page \<^verbatim>\<open>split_large_ept_entry\<close> returns, the entry then points to a table of smaller pages, and
  no address is translated differently.\<close>

theorem split_large_ept_entry_preserves:
  assumes "tinv ept_fmt s (p # fl) l pt" "l = 2 \<or> l = 3" "i < 512"
    "ent (mem s) pt i AND EPT_PRESENT \<noteq> 0" "ent (mem s) pt i AND EPT_LARGE_PAGE \<noteq> 0"
  shows "\<exists>s'. split_large_ept_entry (pt + 8 * i) (int l) s = Some s' \<and> tinv ept_fmt s' fl l pt \<and>
    is_table ept_fmt l (ent (mem s') pt i) \<and>
    (\<forall>j<512. is_leaf ept_fmt (l - 1) (ent (mem s') (pf_addr ept_fmt (ent (mem s') pt i)) j)) \<and>
    (\<forall>va. xlate ept_fmt (mem s') l pt va = xlate ept_fmt (mem s) l pt va)"
proof -
  obtain l0 where l0: "l = Suc (Suc l0)" "Suc l0 \<le> 2" using assms(2) by (cases l; cases "l - 1") auto
  have "ept_step l pt i s = split_large_ept_entry (pt + 8 * i) (int l) s"
    using assms(4,5) by (simp add: ept_step_def install_ept_step_def ent_def option.map_comp comp_def option.map_ident)
  then show ?thesis
    using ept_step_split[OF assms(1)[unfolded l0(1)] assms(3) l0(2) assms(4,5)]
      grown_tinv[OF assms(1), of _ 1] l0(1) by auto
qed

theorem split_large_ept_entry_preserves_witness:
  "\<exists>s'. split_large_ept_entry 0x1000 2 (give 1 (pa0\<lparr>mem := st64 (\<lambda>_. 0) 0x1000 0x200087\<rparr>)) = Some s' \<and>
    xlate ept_fmt (mem s') 2 0x1000 0x1234 = Some (0x201234, 7)"
proof -
  let ?z = "pa0\<lparr>mem := st64 (\<lambda>_. 0) 0x1000 0x200087\<rparr>" and ?s = "give 1 (pa0\<lparr>mem := st64 (\<lambda>_. 0) 0x1000 0x200087\<rparr>)"
  have v: "freelist ?z = 0" "pa_lock ?z = 0" by (simp_all add: pa0_def)
  note g = give_free[OF v, of 1]
  have al: "aligned 12 0x1000" by (simp add: aligned_iff_mod)
  have run1: "page_run 0x100000 1 = [0x100000]" by (simp add: page_run_def)
  have z: "ent (mem ?s) 0x1000 i = (if i = 0 then 0x200087 else 0)" if "i < 512" for i
    using one_entry_machine[OF v _ that] by (simp add: pa0_def)
  have mk: "(0x200087::u64) AND EPT_ADDR_MASK = 0x200000"
    "(0x200087::u64) AND NOT EPT_ADDR_MASK AND NOT EPT_LARGE_PAGE = 7"
    by (simp_all add: EPT_ADDR_MASK_val EPT_LARGE_PAGE_def)
  have e: "(0x200087::u64) AND EPT_PRESENT \<noteq> 0" "(0x200087::u64) AND EPT_LARGE_PAGE \<noteq> 0"
    "(0x200087::u64) OR NOT EPT_PRESENT = - 1" by (simp_all add: c_defs)
  have lf: "is_leaf ept_fmt 2 0x200087" using e by (simp add: is_leaf_def)
  have ok: "entry_ok ept_fmt 2 (ent (mem ?s) 0x1000 i)" if "i < 512" for i
    using z[OF that] e mk lf by (simp add: entry_ok_def pt_shift_def aligned_iff_mod)
  have nt: "\<not> is_table ept_fmt 2 (ent (mem ?s) 0x1000 i)" if "i < 512" for i
    using z[OF that] lf by (simp add: is_table_def)
  note wf = leaf_table[of "0x1000" ept_fmt 1, unfolded Suc_1, OF al ok nt]
  have inv: "tinv ept_fmt ?s [0x100000] 2 0x1000"
    using g(1) wf run1 by (simp add: tinv_def)
  have e0: "ent (mem ?s) 0x1000 0 = 0x200087" using z[of 0] by simp
  have ix: "pt_idx 2 0x1234 = 0" by (simp add: pt_idx_def pt_shift_def)
  have "xlate ept_fmt (mem ?s) 2 0x1000 0x1234 = Some (leaf_xl ept_fmt 2 0x200087 0x1234)"
    using xlate_leaf[of ept_fmt "mem ?s" "0x1000" 1 "0x1234", unfolded Suc_1 ix e0] e lf by simp
  then have "xlate ept_fmt (mem ?s) 2 0x1000 0x1234 = Some (0x201234, 7)"
    using mk by (simp add: leaf_xl_def pt_shift_def take_bit_eq_mask mask_eq_exp_minus_1)
  moreover obtain s' where "split_large_ept_entry (0x1000 + 8 * 0) (int 2) ?s = Some s'"
    "\<forall>va. xlate ept_fmt (mem s') 2 0x1000 va = xlate ept_fmt (mem ?s) 2 0x1000 va"
    using split_large_ept_entry_preserves[OF inv, of 0] e0 e by auto
  ultimately show ?thesis by (intro exI[of _ s']) simp
qed

text \<open>\<^verbatim>\<open>setup_ept_range\<close> with any choice of page sizes, from a start aligned to the largest size
  used and within 48 bits: it ends, never takes more than \<^const>\<open>range_pages\<close> pages from the
  allocator, maps exactly the whole pages of the range to themselves with the permission asked for,
  and leaves the translation of all other addresses as it was.\<close>

theorem setup_ept_range_identity:
  assumes "tinv ept_fmt s fl 4 root" "ept_perm 3 perm"
    "aligned 12 start" "map_2m \<longrightarrow> aligned 21 start" "map_1g \<longrightarrow> aligned 30 start"
    "unat start + unat len \<le> 2 ^ 48"
    "range_pages map_1g map_2m (unat start) (unat len) \<le> length fl"
  shows "\<exists>s' c. setup_ept_range root start len map_1g map_2m perm s = Some s' \<and>
    c \<le> range_pages map_1g map_2m (unat start) (unat len) \<and> tinv ept_fmt s' (drop c fl) 4 root \<and>
    (\<forall>va. va < 2 ^ 48 \<longrightarrow> xlate ept_fmt (mem s') 4 root va =
      (if start \<le> va \<and> unat va < unat start + unat len div 2 ^ 12 * 2 ^ 12 then Some (va, perm)
       else xlate ept_fmt (mem s) 4 root va))"
  using setup_range_identity[OF assms(1-3) _ _ assms(6,7)] assms(4,5) grown_tinv[OF assms(1)] by blast

theorem setup_ept_range_identity_witness:
  "\<exists>s'. setup_ept_range 0x1000 0x5000 0x2800 False False 7 (give 3 pa0) = Some s' \<and>
    xlate ept_fmt (mem s') 4 0x1000 0x6abc = Some (0x6abc, 7) \<and>
    xlate ept_fmt (mem s') 4 0x1000 0x7000 = None"
proof -
  have "{Suc 1..4} = {2, 3, 4::nat}" by auto
  then have rp: "range_pages False False 0x5000 0x2800 = 3"
    by (simp add: range_pages_def run_pages_def new_tables_def Let_def pt_shift_def)
  have al: "aligned 12 0x5000" by (simp add: aligned_iff_mod)
  obtain s' c where s': "setup_ept_range 0x1000 0x5000 0x2800 False False 7 (give 3 pa0) = Some s'"
    "\<forall>va. va < 2 ^ 48 \<longrightarrow> xlate ept_fmt (mem s') 4 0x1000 va =
      (if 0x5000 \<le> va \<and> unat va < unat (0x5000::u64) + unat (0x2800::u64) div 2 ^ 12 * 2 ^ 12 then Some (va, 7)
       else xlate ept_fmt (mem (give 3 pa0)) 4 0x1000 va)"
    using setup_ept_range_identity[OF root_machine(1) perm7(5) al, of False False "0x2800"] rp
    by auto
  then show ?thesis using root_machine(2) by (intro exI[of _ s']) simp
qed

lemma setup_ept_fields_unsupported:
  "\<not> ept_supported s \<Longrightarrow> \<exists>msg. setup_ept_fields hpa ad s = (1, kprintf msg [] s)"
  unfolding setup_ept_fields_def ept_supported_def
  by (cases "msr_clr (ctrl_cpu_rev0 s) AND CPU_SECONDARY = 0 \<or> msr_clr (ctrl_cpu_rev1 s) AND CPU_EPT = 0";
      cases "ept_vpid s AND EPT_CAP_WB = 0") auto

text \<open>Without EPT support, or without a write-back or four-level walk, \<^verbatim>\<open>setup_ept\<close> returns 1
  after printing one message, and neither the VMCS nor the EPT pointer has changed.\<close>

theorem setup_ept_unsupported:
  assumes "\<not> ept_supported s" "fl_inv s (p # fl)"
  shows "\<exists>s' msg. setup_ept hw ad s = Some (1, s') \<and> vmcs_field s' = vmcs_field s \<and> eptp s' = eptp s \<and>
    console s' = console s @ [(msg, [])]"
proof -
  let ?s = "s\<lparr>freelist := ld64 (mem s) p, pml4 := p\<rparr>"
  have "\<not> ept_supported ?s" using assms(1) by (simp add: ept_supported_def)
  then obtain msg where "setup_ept_fields p ad ?s = (1, kprintf msg [] ?s)"
    using setup_ept_fields_unsupported by blast
  then have "setup_ept hw ad s = Some (1, kprintf msg [] ?s)"
    using alloc_page_Cons[OF assms(2)] by (simp add: setup_ept_def Let_def)
  then show ?thesis by (auto simp: kprintf_def)
qed

theorem setup_ept_unsupported_witness:
  "\<exists>s' msg. setup_ept (fw_hw (\<lambda>_ _. 0)) True (give 1 (vmx0\<lparr>ept_vpid := 0\<rparr>)) = Some (1, s') \<and>
    vmcs_field s' = (\<lambda>_. 0) \<and> eptp s' = 0 \<and> console s' = [(msg, [])]"
proof -
  let ?v = "vmx0\<lparr>ept_vpid := 0\<rparr>" and ?s = "give 1 (vmx0\<lparr>ept_vpid := 0\<rparr>)"
  have v: "freelist ?v = 0" "pa_lock ?v = 0" by (simp_all add: vmx0_def)
  note g = give_free[OF v, of 1]
  have "pa_state.more ?s = pa_state.more ?v" using g(3) by simp
  then have more: "ept_vpid ?s = 0" "vmcs_field ?s = (\<lambda>_. 0)" "eptp ?s = 0"
    by (cases "give 1 (vmx0\<lparr>ept_vpid := 0\<rparr>)"; simp add: vmx0_def)+
  have c: "console ?s = []"
    by (subst give_def, subst free_pages_def, subst link_pages.simps)
      (simp add: pa_spin_lock_def pa_spin_unlock_def vmx0_def spin_lock_def)
  have "fl_inv ?s (0x100000 # [])" using g(1) by (simp add: page_run_def)
  moreover have "\<not> ept_supported ?s" unfolding ept_supported_def more by simp
  ultimately have "\<exists>s' msg. setup_ept (fw_hw (\<lambda>_ _. 0)) True ?s = Some (1, s') \<and>
      vmcs_field s' = vmcs_field ?s \<and> eptp s' = eptp ?s \<and> console s' = console ?s @ [(msg, [])]"
    by (intro setup_ept_unsupported)
  then show ?thesis unfolding more c by simp
qed

end
