(* ===== verification/X86_Vm.thy ===== *)
theory X86_Vm
  imports Hw
begin

text \<open>
  The hypervisor's own page tables, \<^verbatim>\<open>lib/x86/vm.c\<close> (64-bit build): installing, finding and
  splitting entries, the identity map \<^verbatim>\<open>setup_mmu\<close> switches on.
\<close>

section \<open>Constants of asm/page.h\<close>

definition PT_PRESENT_MASK :: u64 where [c_defs]: "PT_PRESENT_MASK = 0x1"
definition PT_WRITABLE_MASK :: u64 where [c_defs]: "PT_WRITABLE_MASK = 0x2"
definition PT_USER_MASK :: u64 where [c_defs]: "PT_USER_MASK = 0x4"
definition PT_PAGE_SIZE_MASK :: u64 where [c_defs]: "PT_PAGE_SIZE_MASK = 0x80"
definition PT64_NX_MASK :: u64 where [c_defs]: "PT64_NX_MASK = 2 ^ 63"
definition PT_ADDR_MASK :: u64 where "PT_ADDR_MASK = GENMASK_ULL 51 12"
definition LARGE_PAGE_SIZE :: u64 where [c_defs]: "LARGE_PAGE_SIZE = 512 * PAGE_SIZE"
definition PAGE_LEVEL :: int where [c_defs]: "PAGE_LEVEL = 4"
definition PGDIR_MASK :: u64 where [c_defs]: "PGDIR_MASK = 511"

definition PGDIR_BITS :: "int \<Rightarrow> nat" where
  "PGDIR_BITS lvl = nat ((lvl - 1) * 9 + 12)"

definition PGDIR_OFFSET :: "u64 \<Rightarrow> int \<Rightarrow> u64" where
  "PGDIR_OFFSET va lvl = drop_bit (PGDIR_BITS lvl) va AND PGDIR_MASK"

section \<open>Installing an entry\<close>

text \<open>The body of the loop of \<^verbatim>\<open>install_pte\<close> up to the assignment of \<^verbatim>\<open>pt\<close>; it returns the new
  value of \<^verbatim>\<open>pt_page\<close>.\<close>

definition install_pte_step ::
  "u64 \<Rightarrow> u64 \<Rightarrow> u64 \<Rightarrow> 'a pa_state_scheme \<Rightarrow> (u64 \<times> 'a pa_state_scheme) option" where
  "install_pte_step pt offset pt_page s =
     (if ld64 (mem s) (pt + 8 * offset) AND PT_PRESENT_MASK = 0 then do {
        (new_pt, pt_page, s) \<leftarrow>
          (if pt_page = 0 then map_option (\<lambda>(p, s). (p, pt_page, s)) (alloc_page s)
           else Some (pt_page, 0, s));
        let s = s\<lparr>mem := memset new_pt 0 PAGE_SIZE (mem s)\<rparr>;
        Some (pt_page, s\<lparr>mem := st64 (mem s) (pt + 8 * offset)
               (virt_to_phys new_pt OR PT_PRESENT_MASK OR PT_WRITABLE_MASK OR PT_USER_MASK)\<rparr>)
      }
      else Some (pt_page, s))"

function install_pte_loop ::
  "int \<Rightarrow> int \<Rightarrow> u64 \<Rightarrow> u64 \<Rightarrow> u64 \<Rightarrow> 'a pa_state_scheme \<Rightarrow> (int \<times> u64 \<times> 'a pa_state_scheme) option" where
  "install_pte_loop level pte_level virt pt pt_page s =
     (if pte_level < level then do {
        let offset = PGDIR_OFFSET virt level;
        (pt_page, s) \<leftarrow> install_pte_step pt offset pt_page s;
        let pt = phys_to_virt (ld64 (mem s) (pt + 8 * offset) AND PT_ADDR_MASK);
        install_pte_loop (level - 1) pte_level virt pt pt_page s
      }
      else Some (level, pt, s))"
  by pat_completeness auto
termination
  by (relation "measure (\<lambda>(level, pte_level, _). nat (level - pte_level))") auto

declare install_pte_loop.simps [simp del]

definition install_pte ::
  "u64 \<Rightarrow> int \<Rightarrow> u64 \<Rightarrow> u64 \<Rightarrow> u64 \<Rightarrow> 'a pa_state_scheme \<Rightarrow> (u64 \<times> 'a pa_state_scheme) option" where
  "install_pte pgd pte_level virt pte pt_page s = do {
     (level, pt, s) \<leftarrow> install_pte_loop PAGE_LEVEL pte_level virt pgd pt_page s;
     let offset = PGDIR_OFFSET virt level;
     let s = s\<lparr>mem := st64 (mem s) (pt + 8 * offset) pte\<rparr>;
     Some (pt + 8 * offset, s)
   }"

section \<open>Finding an entry\<close>

record pte_search =
  ps_level :: int
  ps_pte :: u64

definition found_huge_pte :: "mem \<Rightarrow> pte_search \<Rightarrow> bool" where
  "found_huge_pte m search \<longleftrightarrow>
     (ps_level search = 2 \<or> ps_level search = 3) \<and>
     ld64 m (ps_pte search) AND PT_PRESENT_MASK \<noteq> 0 \<and>
     ld64 m (ps_pte search) AND PT_PAGE_SIZE_MASK \<noteq> 0"

definition found_leaf_pte :: "mem \<Rightarrow> pte_search \<Rightarrow> bool" where
  "found_leaf_pte m search \<longleftrightarrow> ps_level search = 1 \<or> found_huge_pte m search"

partial_function (option) find_pte_loop :: "mem \<Rightarrow> u64 \<Rightarrow> int \<Rightarrow> int \<Rightarrow> u64 \<Rightarrow> pte_search option" where
  "find_pte_loop m virt lowest_level level pt =
     (let shift = nat ((level - 1) * 9 + 12);
          offset = drop_bit shift virt AND PGDIR_MASK;
          r = \<lparr>ps_level = level, ps_pte = pt + 8 * offset\<rparr>;
          pte = ld64 m (pt + 8 * offset)
      in if pte AND PT_PRESENT_MASK = 0 then Some r
         else if (level = 2 \<or> level = 3) \<and> pte AND PT_PAGE_SIZE_MASK \<noteq> 0 then Some r
         else if level = lowest_level then Some r
         else find_pte_loop m virt lowest_level (level - 1)
                (phys_to_virt (pte AND 0xffffffffff000)))"

definition find_pte_level :: "mem \<Rightarrow> u64 \<Rightarrow> u64 \<Rightarrow> int \<Rightarrow> pte_search option" where
  "find_pte_level m pgd virt lowest_level = do {
     c_assert (lowest_level \<ge> 1 \<and> lowest_level \<le> PAGE_LEVEL);
     find_pte_loop m virt lowest_level PAGE_LEVEL pgd
   }"

definition get_pte :: "mem \<Rightarrow> u64 \<Rightarrow> u64 \<Rightarrow> u64 option" where
  "get_pte m pgd virt = do {
     search \<leftarrow> find_pte_level m pgd virt 1;
     Some (if found_leaf_pte m search then ps_pte search else 0)
   }"

definition get_pte_level :: "mem \<Rightarrow> u64 \<Rightarrow> u64 \<Rightarrow> int \<Rightarrow> u64 option" where
  "get_pte_level m pgd virt pte_level = do {
     search \<leftarrow> find_pte_level m pgd virt pte_level;
     Some (if ps_level search = pte_level then ps_pte search else 0)
   }"

section \<open>Mapping pages\<close>

definition install_large_page ::
  "u64 \<Rightarrow> u64 \<Rightarrow> u64 \<Rightarrow> 'a pa_state_scheme \<Rightarrow> (u64 \<times> 'a pa_state_scheme) option" where
  "install_large_page pgd phys virt s =
     install_pte pgd 2 virt
       (phys OR PT_PRESENT_MASK OR PT_WRITABLE_MASK OR PT_USER_MASK OR PT_PAGE_SIZE_MASK) 0 s"

definition install_page ::
  "u64 \<Rightarrow> u64 \<Rightarrow> u64 \<Rightarrow> 'a pa_state_scheme \<Rightarrow> (u64 \<times> 'a pa_state_scheme) option" where
  "install_page pgd phys virt s =
     install_pte pgd 1 virt (phys OR PT_PRESENT_MASK OR PT_WRITABLE_MASK OR PT_USER_MASK) 0 s"

partial_function (option) install_pages_loop ::
  "u64 \<Rightarrow> u64 \<Rightarrow> u64 \<Rightarrow> u64 \<Rightarrow> 'a pa_state_scheme \<Rightarrow> 'a pa_state_scheme option" where
  "install_pages_loop pgd phys mx virt s =
     (if phys + PAGE_SIZE \<le> mx then
        Option.bind (install_page pgd phys virt s)
          (\<lambda>(r, s). install_pages_loop pgd (phys + PAGE_SIZE) mx (virt + PAGE_SIZE) s)
      else Some s)"

definition install_pages ::
  "u64 \<Rightarrow> u64 \<Rightarrow> u64 \<Rightarrow> u64 \<Rightarrow> 'a pa_state_scheme \<Rightarrow> 'a pa_state_scheme option" where
  "install_pages pgd phys len virt s = do {
     let mx = len + phys;
     c_assert (phys mod PAGE_SIZE = 0);
     c_assert (virt mod PAGE_SIZE = 0);
     c_assert (len mod PAGE_SIZE = 0);
     install_pages_loop pgd phys mx virt s
   }"

partial_function (option) any_present_loop :: "mem \<Rightarrow> u64 \<Rightarrow> u64 \<Rightarrow> u64 \<Rightarrow> bool option" where
  "any_present_loop m pgd cur mx =
     (if cur < mx then
        Option.bind (get_pte m pgd cur)
          (\<lambda>ptep. if ptep \<noteq> 0 \<and> ld64 m ptep AND PT_PRESENT_MASK \<noteq> 0 then Some True
                  else any_present_loop m pgd (cur + PAGE_SIZE) mx)
      else Some False)"

definition any_present_pages :: "mem \<Rightarrow> u64 \<Rightarrow> u64 \<Rightarrow> u64 \<Rightarrow> bool option" where
  "any_present_pages m pgd virt len = any_present_loop m pgd virt (virt + len)"

partial_function (option) setup_mmu_large ::
  "u64 \<Rightarrow> u64 \<Rightarrow> u64 \<Rightarrow> 'a pa_state_scheme \<Rightarrow> (u64 \<times> 'a pa_state_scheme) option" where
  "setup_mmu_large pgd phys mx s =
     (if phys + LARGE_PAGE_SIZE \<le> mx then
        Option.bind (install_large_page pgd phys phys s)
          (\<lambda>(r, s). setup_mmu_large pgd (phys + LARGE_PAGE_SIZE) mx s)
      else Some (phys, s))"

definition setup_mmu_range :: "u64 \<Rightarrow> u64 \<Rightarrow> u64 \<Rightarrow> 'a pa_state_scheme \<Rightarrow> 'a pa_state_scheme option" where
  "setup_mmu_range pgd start len s = do {
     let mx = len + start;
     (phys, s) \<leftarrow> setup_mmu_large pgd start mx s;
     install_pages pgd phys (mx - phys) phys s
   }"

definition setup_mmu :: "u64 \<Rightarrow> 'a cpu_state_scheme \<Rightarrow> (u64 \<times> 'a cpu_state_scheme) option" where
  "setup_mmu end_of_memory s = do {
     (pgd, s) \<leftarrow> alloc_page s;
     let s = s\<lparr>mem := memset pgd 0 PAGE_SIZE (mem s)\<rparr>;
     let end_of_memory = (if end_of_memory < push_bit 32 1 then push_bit 32 1 else end_of_memory);
     s \<leftarrow> setup_mmu_range pgd 0 end_of_memory s;
     let s = write_cr3 (virt_to_phys pgd) s;
     let s = write_cr0 (X86_CR0_PG OR X86_CR0_PE OR X86_CR0_WP) s;
     let s = kprintf (''paging enabled'' @ NL) [] s;
     let s = kprintf (''cr0 = %lx'' @ NL) [PNum (read_cr0 s)] s;
     let s = kprintf (''cr3 = %lx'' @ NL) [PNum (read_cr3 s)] s;
     let s = kprintf (''cr4 = %lx'' @ NL) [PNum (read_cr4 s)] s;
     Some (pgd, s)
   }"

text \<open>\<^verbatim>\<open>virt_to_pte_phys\<close> reads through the result of \<^verbatim>\<open>get_pte\<close> without testing it for NULL.\<close>

definition virt_to_pte_phys :: "mem \<Rightarrow> u64 \<Rightarrow> u64 \<Rightarrow> u64 option" where
  "virt_to_pte_phys m pgd va = do {
     ptep \<leftarrow> get_pte m pgd va;
     Some ((ld64 m ptep AND PT_ADDR_MASK) + (va AND (PAGE_SIZE - 1)))
   }"

section \<open>Splitting large pages\<close>

definition split_large_page :: "u64 \<Rightarrow> int \<Rightarrow> 'a cpu_state_scheme \<Rightarrow> 'a cpu_state_scheme option" where
  "split_large_page ptep level s = do {
     let pte = ld64 (mem s) ptep;
     c_assert (pte AND PT_PRESENT_MASK \<noteq> 0);
     c_assert (pte AND PT_PAGE_SIZE_MASK \<noteq> 0);
     c_assert (level = 2 \<or> level = 3);
     (new_pt, s) \<leftarrow> alloc_page s;
     c_assert (new_pt \<noteq> 0);
     let prototype = pte AND NOT PT_ADDR_MASK;
     let prototype = (if level = 2 then prototype AND NOT PT_PAGE_SIZE_MASK else prototype);
     let pa = pte AND PT_ADDR_MASK;
     let s = s\<lparr>mem := fill_entries 512 new_pt 0 prototype pa
                        (push_bit (PGDIR_BITS (level - 1)) 1) (mem s)\<rparr>;
     let pte = pte AND NOT PT_PAGE_SIZE_MASK;
     let pte = pte AND NOT PT_ADDR_MASK;
     let pte = pte OR virt_to_phys new_pt;
     let s = s\<lparr>mem := st64 (mem s) ptep pte\<rparr>;
     Some (flush_tlb s)
   }"

definition current_page_table :: "'a cpu_state_scheme \<Rightarrow> u64" where
  "current_page_table s = phys_to_virt (read_cr3 s)"

definition force_4k_page :: "u64 \<Rightarrow> 'a cpu_state_scheme \<Rightarrow> 'a cpu_state_scheme option" where
  "force_4k_page addr s = do {
     let pgd = current_page_table s;
     ptep \<leftarrow> get_pte_level (mem s) pgd addr 3;
     c_assert (ptep \<noteq> 0);
     let pte = ld64 (mem s) ptep;
     c_assert (pte AND PT_PRESENT_MASK \<noteq> 0);
     s \<leftarrow> (if pte AND PT_PAGE_SIZE_MASK \<noteq> 0 then split_large_page ptep 3 s else Some s);
     ptep \<leftarrow> get_pte_level (mem s) pgd addr 2;
     c_assert (ptep \<noteq> 0);
     let pte = ld64 (mem s) ptep;
     c_assert (pte AND PT_PRESENT_MASK \<noteq> 0);
     (if pte AND PT_PAGE_SIZE_MASK \<noteq> 0 then split_large_page ptep 2 s else Some s)
   }"

section \<open>The entry format\<close>

text \<open>Bit 63 forbids execution; as an attribute it is kept negated, so that attributes pass down
  the levels by conjunction.\<close>

definition x86_fmt :: ptfmt where
  "x86_fmt = \<lparr>pf_present = \<lambda>e. e AND PT_PRESENT_MASK \<noteq> 0,
     pf_large = \<lambda>e. e AND PT_PAGE_SIZE_MASK \<noteq> 0,
     pf_addr = \<lambda>e. e AND PT_ADDR_MASK,
     pf_attr = \<lambda>e. (e XOR PT64_NX_MASK) AND NOT PT_ADDR_MASK AND NOT PT_PAGE_SIZE_MASK,
     pf_pass = \<lambda>e. (e XOR PT64_NX_MASK) OR NOT (PT_WRITABLE_MASK OR PT_USER_MASK OR PT64_NX_MASK)\<rparr>"

lemma x86_fmt_simps [simp]:
  "pf_present x86_fmt e \<longleftrightarrow> e AND PT_PRESENT_MASK \<noteq> 0"
  "pf_large x86_fmt e \<longleftrightarrow> e AND PT_PAGE_SIZE_MASK \<noteq> 0"
  "pf_addr x86_fmt e = e AND PT_ADDR_MASK"
  "pf_attr x86_fmt e = (e XOR PT64_NX_MASK) AND NOT PT_ADDR_MASK AND NOT PT_PAGE_SIZE_MASK"
  "pf_pass x86_fmt e = (e XOR PT64_NX_MASK) OR NOT (PT_WRITABLE_MASK OR PT_USER_MASK OR PT64_NX_MASK)"
  by (simp_all add: x86_fmt_def)

lemma PT_ADDR_MASK_alt: "PT_ADDR_MASK = addr_mask"
  by (simp add: PT_ADDR_MASK_def addr_mask_def)

lemma PT_PAGE_SIZE_MASK_alt: "PT_PAGE_SIZE_MASK = ps_bit"
  by (simp add: PT_PAGE_SIZE_MASK_def ps_bit_def)

lemma bit_PT_flags:
  "bit PT_PRESENT_MASK n \<longleftrightarrow> n = 0" "bit PT_WRITABLE_MASK n \<longleftrightarrow> n = 1"
  "bit PT_USER_MASK n \<longleftrightarrow> n = 2" "bit PT64_NX_MASK n \<longleftrightarrow> n = 63"
proof -
  have e: "PT_PRESENT_MASK = 2 ^ 0" "PT_WRITABLE_MASK = 2 ^ 1" "PT_USER_MASK = 2 ^ 2"
    "PT64_NX_MASK = 2 ^ 63" by (simp_all add: c_defs)
  show "bit PT_PRESENT_MASK n \<longleftrightarrow> n = 0" "bit PT_WRITABLE_MASK n \<longleftrightarrow> n = 1"
    "bit PT_USER_MASK n \<longleftrightarrow> n = 2" "bit PT64_NX_MASK n \<longleftrightarrow> n = 63"
    unfolding e bit_exp_iff by auto
qed

lemmas bit_PT_ADDR_MASK = bit_addr_mask [folded PT_ADDR_MASK_alt]
lemmas bit_PT_PAGE_SIZE_MASK = bit_ps_bit [folded PT_PAGE_SIZE_MASK_alt]
lemmas x86_bits = bit_PT_ADDR_MASK bit_PT_PAGE_SIZE_MASK bit_PT_flags
lemmas x86_mask_addr = mask_addr [folded PT_ADDR_MASK_alt]
lemmas x86_mask_flags = mask_flags [folded PT_ADDR_MASK_alt]
lemmas x86_split_child = split_child [folded PT_ADDR_MASK_alt PT_PAGE_SIZE_MASK_alt]

lemma flag_test: "bit m n \<Longrightarrow> (\<And>k. bit m k \<longleftrightarrow> k = n) \<Longrightarrow> (e AND m \<noteq> 0) \<longleftrightarrow> bit (e::u64) n"
proof
  assume m: "\<And>k. bit m k \<longleftrightarrow> k = n" and e: "e AND m \<noteq> 0"
  then obtain k where "bit (e AND m) k" using bit_word_eqI[of "e AND m" 0] by auto
  then show "bit e n" using m by (auto simp: bit_and_iff)
next
  assume "bit m n" "bit e n"
  then have "bit (e AND m) n" by (simp add: bit_and_iff)
  then show "e AND m \<noteq> 0" by auto
qed

lemma x86_tests:
  "e AND PT_PRESENT_MASK \<noteq> 0 \<longleftrightarrow> bit e 0" "e AND PT_PAGE_SIZE_MASK \<noteq> 0 \<longleftrightarrow> bit e 7"
  by (rule flag_test; simp add: x86_bits)+

lemma x86_pass_iff: "pf_pass x86_fmt e = - 1 \<longleftrightarrow> bit e 1 \<and> bit e 2 \<and> \<not> bit e 63"
proof
  assume "pf_pass x86_fmt e = - 1"
  then have "bit (pf_pass x86_fmt e) n" if "n < 64" for n using that by simp
  from this[of 1] this[of 2] this[of 63] show "bit e 1 \<and> bit e 2 \<and> \<not> bit e 63"
    by (simp add: bit_simps x86_bits)
next
  assume "bit e 1 \<and> bit e 2 \<and> \<not> bit e 63"
  then show "pf_pass x86_fmt e = - 1"
    by (intro bit_word_eqI) (auto simp: bit_simps x86_bits)
qed

abbreviation table_flags :: u64 where
  "table_flags \<equiv> PT_PRESENT_MASK OR PT_WRITABLE_MASK OR PT_USER_MASK"

lemma x86_table_entry:
  assumes "aligned 12 p" "drop_bit 52 p = 0"
  shows "is_table x86_fmt (Suc (Suc l)) (p OR table_flags)"
    "pf_addr x86_fmt (p OR table_flags) = p" "pf_pass x86_fmt (p OR table_flags) = - 1"
    "\<not> pf_large x86_fmt (p OR table_flags)"
proof -
  have b: "\<not> bit p 7" "\<not> bit p 63" using aligned_bit[OF assms(1)] high_bit[OF assms(2)] by simp_all
  show "\<not> pf_large x86_fmt (p OR table_flags)"
    using b by (simp add: x86_tests bit_or_iff x86_bits)
  then show "is_table x86_fmt (Suc (Suc l)) (p OR table_flags)"
    by (simp add: is_table_def is_leaf_def x86_tests bit_or_iff x86_bits)
  have "table_flags AND PT_ADDR_MASK = 0"
    by (rule bit_word_eqI) (auto simp: bit_simps x86_bits)
  then show "pf_addr x86_fmt (p OR table_flags) = p"
    using x86_mask_flags[OF _ assms] unfolding x86_fmt_simps or.commute[of p] by blast
  show "pf_pass x86_fmt (p OR table_flags) = - 1"
    unfolding x86_pass_iff using b by (simp add: bit_or_iff x86_bits)
qed

section \<open>One step down\<close>

definition x86_step :: "nat \<Rightarrow> u64 \<Rightarrow> u64 \<Rightarrow> 'a pa_state_scheme \<Rightarrow> 'a pa_state_scheme option" where
  "x86_step l pt i s = map_option snd (install_pte_step pt i 0 s)"

lemma x86_step_absent:
  assumes inv: "tinv x86_fmt s (p # ps) (Suc (Suc l)) pt" and i: "i < 512"
    and e: "ent (mem s) pt i AND PT_PRESENT_MASK = 0"
  shows "\<exists>s'. x86_step (Suc (Suc l)) pt i s = Some s' \<and>
    grown x86_fmt s (p # ps) s' 1 (Suc (Suc l)) pt \<and>
    is_table x86_fmt (Suc (Suc l)) (ent (mem s') pt i) \<and>
    (\<forall>va. xlate x86_fmt (mem s') (Suc (Suc l)) pt va = xlate x86_fmt (mem s) (Suc (Suc l)) pt va) \<and>
    (\<forall>j<512. ent (mem s') (pf_addr x86_fmt (ent (mem s') pt i)) j = 0)"
proof -
  have fl: "fl_inv s (p # ps)" and p: "aligned 12 p" "p \<noteq> 0" "drop_bit 52 p = 0"
    using inv by (auto simp: tinv_def fl_inv_def)
  let ?m1 = "memset p 0 PAGE_SIZE (mem s)" and ?e = "p OR table_flags"
  define s' where "s' = s\<lparr>freelist := ld64 (mem s) p, mem := st64 ?m1 (pt + 8 * i) ?e\<rparr>"
  have st: "x86_step (Suc (Suc l)) pt i s = Some s'"
    using alloc_page_Cons[OF fl] e
    by (simp add: x86_step_def install_pte_step_def ent_def s'_def)
  have z: "ent ?m1 p j = 0" if "j < 512" for j using that p by (simp add: ent_memset_page)
  have n0: "\<not> pf_present x86_fmt 0" by simp
  note zt = zero_table[OF p(1) z n0]
  have old: "\<not> is_table x86_fmt (Suc (Suc l)) (ent (mem s) pt i)" using e by (simp add: is_table_def)
  have xl: "xlate x86_fmt ?m1 (Suc l) p va = xlate x86_fmt (mem s) (Suc (Suc l)) pt va"
    if "pt_idx (Suc (Suc l)) va = i" for va
    using that e zt(3) by (subst (2) xlate.simps) (simp add: Let_def)
  have lock: "pa_lock s = 0" using fl by (simp add: fl_inv_def)
  have s': "mem s' = st64 ?m1 (pt + 8 * i) ?e" "freelist s' = ld64 (mem s) p" "pa_lock s' = 0"
    using lock by (simp_all add: s'_def)
  note te = x86_table_entry[OF p(1,3)]
  note at = attach_table[OF inv i mframe_memset[OF p(1)] zt(1,2) te(1-3) te(4) xl old s']
  have "ent (mem s') (pf_addr x86_fmt (ent (mem s') pt i)) j = 0" if "j < 512" for j
    using at(4) at(5)[of j] that z[OF that] te(2) by simp
  then show ?thesis using st at(1,2,3) by blast
qed

interpretation x86: table_step x86_fmt x86_step False
proof
  show "\<not> pf_present x86_fmt 0" by simp
next
  fix l pt i and s :: "'a pa_state_scheme"
  assume "is_table x86_fmt l (ent (mem s) pt i)"
  then show "x86_step l pt i s = Some s"
    by (simp add: x86_step_def install_pte_step_def is_table_def ent_def)
next
  fix s :: "'a pa_state_scheme" and fl l pt and i :: u64
  assume inv: "tinv x86_fmt s fl l pt" and l: "2 \<le> l" "l \<le> 4" and i: "i < 512" and "fl \<noteq> []"
    and e: "False \<or> \<not> pf_present x86_fmt (ent (mem s) pt i)"
  obtain p ps where fl: "fl = p # ps" using \<open>fl \<noteq> []\<close> by (cases fl) auto
  obtain l' where l': "l = Suc (Suc l')" using l by (cases l; cases "l - 1") auto
  obtain s' where "x86_step l pt i s = Some s'" "grown x86_fmt s fl s' 1 l pt"
      "is_table x86_fmt l (ent (mem s') pt i)"
      "\<forall>va. xlate x86_fmt (mem s') l pt va = xlate x86_fmt (mem s) l pt va"
      "\<forall>j<512. ent (mem s') (pf_addr x86_fmt (ent (mem s') pt i)) j = 0"
    using x86_step_absent[OF inv[unfolded fl l'] i] e fl l' by auto
  then show "\<exists>s'. x86_step l pt i s = Some s' \<and> grown x86_fmt s fl s' 1 l pt \<and>
        is_table x86_fmt l (ent (mem s') pt i) \<and>
        (\<forall>va. xlate x86_fmt (mem s') l pt va = xlate x86_fmt (mem s) l pt va) \<and>
        (\<forall>j<512. \<not> is_table x86_fmt (l - 1) (ent (mem s') (pf_addr x86_fmt (ent (mem s') pt i)) j)) \<and>
        (\<not> pf_present x86_fmt (ent (mem s) pt i) \<longrightarrow>
          (\<forall>j<512. \<not> pf_present x86_fmt (ent (mem s') (pf_addr x86_fmt (ent (mem s') pt i)) j)))"
    by (intro exI[of _ s']) (simp add: is_table_def)
qed

end
