(* ===== verification/X86_Vm_Map.thy ===== *)
theory X86_Vm_Map
  imports X86_Vm
begin

text \<open>
  What the functions of \<^verbatim>\<open>lib/x86/vm.c\<close> achieve: the translation after a page is installed, the
  identity map of \<^verbatim>\<open>setup_mmu\<close>, what \<^verbatim>\<open>get_pte\<close> finds, and that splitting changes no translation.
\<close>

section \<open>The loop is the generic descent\<close>

lemma PGDIR_BITS_nat: "1 \<le> l \<Longrightarrow> PGDIR_BITS (int l) = pt_shift l"
proof -
  assume "1 \<le> l"
  then have "(int l - 1) * 9 + 12 = int (12 + 9 * (l - 1))" by (simp add: of_nat_diff)
  then show ?thesis unfolding PGDIR_BITS_def pt_shift_def by (simp only: nat_int)
qed

lemma PGDIR_OFFSET_nat: "1 \<le> l \<Longrightarrow> PGDIR_OFFSET va (int l) = pt_idx l va"
  by (simp add: PGDIR_OFFSET_def pt_idx_def PGDIR_BITS_nat PGDIR_MASK_def)

lemma install_pte_step_page:
  "install_pte_step pt off 0 s = map_option (\<lambda>s. (0, s)) (map_option snd (install_pte_step pt off 0 s))"
  by (auto simp: install_pte_step_def map_option_case Let_def split: option.splits)

lemma x86_addr_fun: "pf_addr x86_fmt = (\<lambda>e. e AND PT_ADDR_MASK)"
  by (simp add: fun_eq_iff)

lemma install_pte_loop_radix:
  "1 \<le> k \<Longrightarrow> k \<le> n \<Longrightarrow> install_pte_loop (int n) (int k) va pt 0 s =
     map_option (\<lambda>(pt, s). (int k, pt, s)) (radix_loop x86_step (pf_addr x86_fmt) k n va pt s)"
proof (induction n arbitrary: pt s)
  case (Suc l)
  show ?case
  proof (cases "k = Suc l")
    case True
    then show ?thesis by (subst install_pte_loop.simps) simp
  next
    case False
    then have k: "k \<le> l" using Suc.prems by simp
    have st: "install_pte_step pt off 0 s = map_option (\<lambda>s. (0, s)) (x86_step (Suc l) pt off s)"
      for off unfolding x86_step_def by (rule install_pte_step_page)
    have of: "PGDIR_OFFSET va (int (Suc l)) = pt_idx (Suc l) va" by (rule PGDIR_OFFSET_nat) simp
    have dec: "int (Suc l) - 1 = int l" by simp
    show ?thesis
      using k Suc.IH[OF Suc.prems(1) k]
      by (subst install_pte_loop.simps, cases "x86_step (Suc l) pt (pt_idx (Suc l) va) s")
         (simp_all add: st of dec ent_def x86_addr_fun Let_def del: of_nat_Suc)
  qed
qed simp

lemma install_pte_radix:
  assumes "1 \<le> k" "k \<le> 4"
  shows "map_option snd (install_pte root (int k) va pte 0 s) =
    radix_install x86_step (pf_addr x86_fmt) k 4 va pte root s"
  using assms install_pte_loop_radix[of k 4 va root s]
  by (cases "radix_loop x86_step (pf_addr x86_fmt) k 4 va root s")
     (auto simp: install_pte_def radix_install_def PAGE_LEVEL_def PGDIR_OFFSET_nat x86_addr_fun Let_def)

lemma install_pte_at:
  "install_pte root k va pte 0 s = Some (r, s') \<Longrightarrow> ld64 (mem s') r = pte"
  by (auto simp: install_pte_def Let_def split: bind_splits)

lemma install_pte_translation:
  assumes inv: "tinv x86_fmt s fl 4 root" and k: "1 \<le> k" "k \<le> 4" and va: "va < 2 ^ 48"
    and pages: "missing x86_fmt (mem s) k 4 root va \<le> length fl"
    and way: "nolarge x86_fmt (mem s) k 4 root va"
    and pte: "\<not> is_table x86_fmt k pte" "entry_ok x86_fmt k pte"
  shows "\<exists>r s'. install_pte root (int k) va pte 0 s = Some (r, s') \<and> ld64 (mem s') r = pte \<and>
    grown x86_fmt s fl s' (missing x86_fmt (mem s) k 4 root va) 4 root \<and>
    missing x86_fmt (mem s') k 4 root va = 0 \<and>
    (\<forall>va'. va' < 2 ^ 48 \<longrightarrow> xlate x86_fmt (mem s') 4 root va' =
      (if drop_bit (pt_shift k) va' = drop_bit (pt_shift k) va then pte_xl x86_fmt k pte va'
       else xlate x86_fmt (mem s) 4 root va'))"
proof -
  obtain s' where s': "radix_install x86_step (pf_addr x86_fmt) k 4 va pte root s = Some s'"
    "grown x86_fmt s fl s' (missing x86_fmt (mem s) k 4 root va) 4 root"
    "missing x86_fmt (mem s') k 4 root va = 0"
    "\<forall>va'. va' < 2 ^ 48 \<longrightarrow> xlate x86_fmt (mem s') 4 root va' =
      (if drop_bit (pt_shift k) va' = drop_bit (pt_shift k) va then pte_xl x86_fmt k pte va'
       else xlate x86_fmt (mem s) 4 root va')"
    using x86.install_one[OF inv k va pages _ pte] way by auto
  then obtain r where "install_pte root (int k) va pte 0 s = Some (r, s')"
    using install_pte_radix[OF k, of root va pte s] by (auto simp: map_option_eq_Some)
  then show ?thesis using s'(2-4) install_pte_at by blast
qed

section \<open>Entries of the maps\<close>

definition x86_pte :: "nat \<Rightarrow> u64 \<Rightarrow> u64" where
  "x86_pte k phys = (if k = 1 then phys OR table_flags else phys OR table_flags OR PT_PAGE_SIZE_MASK)"

text \<open>What the walk reports for a page mapped with these flags: present, writable, user, executable.\<close>

definition x86_rwx :: u64 where
  "x86_rwx = table_flags OR PT64_NX_MASK"

lemma x86_pte_ok:
  assumes k: "1 \<le> k" "k \<le> 3" and p: "aligned (pt_shift k) p" "p < 2 ^ 52"
  shows "\<not> is_table x86_fmt k (x86_pte k p)" "entry_ok x86_fmt k (x86_pte k p)"
    "pte_xl x86_fmt k (x86_pte k p) va = Some (p + take_bit (pt_shift k) va, x86_rwx)"
proof -
  have p12: "aligned 12 p" using p(1) by (rule aligned_weaken) (simp add: pt_shift_def)
  have p52: "drop_bit 52 p = 0" using p(2) by (simp add: drop_bit_zero_iff)
  have pb: "bit p n \<Longrightarrow> 12 \<le> n \<and> n < 52" for n
    using aligned_bit[OF p12, of n] high_bit[OF p52, of n] by (meson not_le)
  define f where "f = (if k = 1 then table_flags else table_flags OR PT_PAGE_SIZE_MASK)"
  have e: "x86_pte k p = f OR p" by (simp add: x86_pte_def f_def ac_simps)
  have fb: "bit f n \<longleftrightarrow> n < 3 \<or> n = 7 \<and> k \<noteq> 1" for n
    by (auto simp: f_def bit_or_iff x86_bits)
  have eb: "bit (f OR p) n \<longleftrightarrow> bit p n \<or> n < 3 \<or> n = 7 \<and> k \<noteq> 1" for n
    using fb by (auto simp: bit_or_iff)
  have "f AND PT_ADDR_MASK = 0"
    by (rule bit_word_eqI) (auto simp: bit_and_iff fb x86_bits)
  then have ad: "(f OR p) AND PT_ADDR_MASK = p" by (rule x86_mask_flags[OF _ p12 p52])
  show "\<not> is_table x86_fmt k (x86_pte k p)"
    using k unfolding e by (auto simp: is_table_def is_leaf_def x86_tests eb)
  have "pf_pass x86_fmt (f OR p) = - 1" unfolding x86_pass_iff eb using pb[of 63] by auto
  then show "entry_ok x86_fmt k (x86_pte k p)"
    using k p(1) unfolding e by (simp add: entry_ok_def ad del: x86_fmt_simps(5))
  have at: "((f OR p) XOR PT64_NX_MASK) AND NOT PT_ADDR_MASK AND NOT PT_PAGE_SIZE_MASK = x86_rwx"
    by (rule bit_word_eqI) (auto simp: bit_and_iff bit_xor_iff bit_not_iff fb x86_bits x86_rwx_def bit_or_iff dest: pb)
  have "(f OR p) AND PT_PRESENT_MASK \<noteq> 0" by (simp add: x86_tests eb)
  then show "pte_xl x86_fmt k (x86_pte k p) va = Some (p + take_bit (pt_shift k) va, x86_rwx)"
    unfolding e by (simp add: pte_xl_def leaf_xl_def ad at)
qed

section \<open>Loops of the maps\<close>

lemma install_large_is: "install_large_page root phys virt s = install_pte root (int 2) virt (x86_pte 2 phys) 0 s"
  by (simp add: install_large_page_def x86_pte_def or.assoc)

lemma install_page_is: "install_page root phys virt s = install_pte root (int 1) virt (x86_pte 1 phys) 0 s"
  by (simp add: install_page_def x86_pte_def or.assoc)

lemma LARGE_is: "LARGE_PAGE_SIZE = 2 ^ pt_shift 2" "PAGE_SIZE = 2 ^ pt_shift 1"
  by (simp_all add: LARGE_PAGE_SIZE_def pt_shift_def)

text \<open>One iteration of a loop \<^verbatim>\<open>while (phys + step <= max)\<close> below 48 bits.\<close>

lemma loop_room:
  fixes phys mx :: u64
  assumes k: "1 \<le> k" "k \<le> 3" and mx: "mx \<le> 2 ^ 48" "unat phys \<le> unat mx"
    and n: "n = (unat mx - unat phys) div 2 ^ pt_shift k"
  shows "phys + 2 ^ pt_shift k \<le> mx \<longleftrightarrow> 0 < n"
    and "0 < n \<Longrightarrow> unat (phys + 2 ^ pt_shift k) = unat phys + 2 ^ pt_shift k"
    and "0 < n \<Longrightarrow> unat (phys + 2 ^ pt_shift k) \<le> unat mx"
    and "0 < n \<Longrightarrow> n - 1 = (unat mx - unat (phys + 2 ^ pt_shift k)) div 2 ^ pt_shift k"
proof -
  let ?st = "2 ^ pt_shift k :: nat"
  have sh: "pt_shift k \<le> 30" using k by (simp add: pt_shift_def)
  have pw: "?st \<le> 2 ^ 30" by (rule power_increasing[OF sh]) simp
  have u2: "unat (2 ^ pt_shift k :: u64) = ?st" using sh by (simp add: unat_pow2)
  have "unat phys + ?st < 2 ^ 64" using mx pw by (simp add: word_le_nat_alt)
  then have u: "unat (phys + 2 ^ pt_shift k) = unat phys + ?st" by (simp add: unat_word_ariths u2)
  have "0 < n \<longleftrightarrow> unat phys + ?st \<le> unat mx"
    using n mx(2) by (auto simp: div_greater_zero_iff)
  then show "phys + 2 ^ pt_shift k \<le> mx \<longleftrightarrow> 0 < n"
    "0 < n \<Longrightarrow> unat (phys + 2 ^ pt_shift k) \<le> unat mx"
    by (simp_all add: word_le_nat_alt u)
  show "0 < n \<Longrightarrow> unat (phys + 2 ^ pt_shift k) = unat phys + ?st" by (rule u)
  show "n - 1 = (unat mx - unat (phys + 2 ^ pt_shift k)) div ?st" if "0 < n"
    using n le_div_geq[of ?st "unat mx - unat phys"] \<open>0 < n \<longleftrightarrow> unat phys + ?st \<le> unat mx\<close> that
    by (simp add: u)
qed

lemma setup_mmu_large_seq:
  assumes "mx \<le> 2 ^ 48" "unat phys \<le> unat mx" "n = (unat mx - unat phys) div 2 ^ pt_shift 2"
    "install_seq x86_step (pf_addr x86_fmt) 2 root (x86_pte 2) n phys s = Some s'"
  shows "\<exists>p'. setup_mmu_large root phys mx s = Some (p', s') \<and> unat p' = unat phys + n * 2 ^ pt_shift 2"
  using assms(2-4)
proof (induction n arbitrary: s phys)
  case 0
  then show ?case using loop_room(1)[OF _ _ assms(1) "0.prems"(1,2)]
    by (subst setup_mmu_large.simps) (simp add: LARGE_is)
next
  case (Suc n)
  note lr = loop_room[OF _ _ assms(1) Suc.prems(1,2), simplified]
  obtain s1 where s1: "radix_install x86_step (pf_addr x86_fmt) 2 4 phys (x86_pte 2 phys) root s = Some s1"
      "install_seq x86_step (pf_addr x86_fmt) 2 root (x86_pte 2) n (phys + 2 ^ pt_shift 2) s1 = Some s'"
    using Suc.prems(3) unfolding install_seq.simps bind_eq_Some_conv by blast
  obtain r where r: "install_pte root (int 2) phys (x86_pte 2 phys) 0 s = Some (r, s1)"
    using install_pte_radix[of 2 root phys "x86_pte 2 phys" s] s1(1) by (auto simp: map_option_eq_Some)
  show ?case
    using Suc.IH[OF lr(3) lr(4) s1(2)] lr(1,2) r
    by (subst setup_mmu_large.simps) (auto simp: LARGE_is install_large_is)
qed

lemma install_pages_seq:
  assumes "mx \<le> 2 ^ 48" "unat phys \<le> unat mx" "n = (unat mx - unat phys) div 2 ^ pt_shift 1"
    "install_seq x86_step (pf_addr x86_fmt) 1 root (\<lambda>v. x86_pte 1 (v + d)) n virt s = Some s'"
    "phys = virt + d"
  shows "install_pages_loop root phys mx virt s = Some s'"
  using assms(2-5)
proof (induction n arbitrary: s phys virt)
  case 0
  then show ?case using loop_room(1)[OF _ _ assms(1) "0.prems"(1,2)]
    by (subst install_pages_loop.simps) (simp add: LARGE_is)
next
  case (Suc n)
  have lr: "phys + 2 ^ pt_shift 1 \<le> mx" "unat (phys + 2 ^ pt_shift 1) \<le> unat mx"
    "n = (unat mx - unat (phys + 2 ^ pt_shift 1)) div 2 ^ pt_shift 1"
    using loop_room[OF le_refl _ assms(1) Suc.prems(1,2)] by simp_all
  obtain s1 where s1: "radix_install x86_step (pf_addr x86_fmt) 1 4 virt (x86_pte 1 (virt + d)) root s = Some s1"
      "install_seq x86_step (pf_addr x86_fmt) 1 root (\<lambda>v. x86_pte 1 (v + d)) n (virt + 2 ^ pt_shift 1) s1 = Some s'"
    using Suc.prems(3) unfolding install_seq.simps bind_eq_Some_conv by blast
  obtain r where r: "install_pte root (int 1) virt (x86_pte 1 phys) 0 s = Some (r, s1)"
    using install_pte_radix[of 1 root virt "x86_pte 1 phys" s] s1(1) Suc.prems(4)
    by (auto simp: map_option_eq_Some)
  show ?case
    using Suc.IH[OF lr(2) lr(3) s1(2)] lr(1) r Suc.prems(4)
    by (subst install_pages_loop.simps) (auto simp: LARGE_is install_page_is algebra_simps)
qed

section \<open>Mapped ranges\<close>

lemma region_base_facts:
  "k \<le> 3 \<Longrightarrow> aligned (pt_shift k) (region_base k va)"
  "k \<le> 3 \<Longrightarrow> unat (region_base k va) \<le> unat va"
  "k \<le> 3 \<Longrightarrow> aligned (pt_shift k) p \<Longrightarrow> unat p \<le> unat va \<Longrightarrow> unat p \<le> unat (region_base k va)"
proof -
  assume k: "k \<le> 3"
  have dr: "drop_bit (pt_shift k) (region_base k va) = drop_bit (pt_shift k) va"
    by (rule bit_word_eqI) (auto simp: region_base_def bit_simps dest: bit_imp_le_length)
  show al: "aligned (pt_shift k) (region_base k va)"
    by (simp add: region_base_def aligned_def take_bit_push_bit)
  show "unat (region_base k va) \<le> unat va"
    using block_iff[OF al, of va] dr k by (simp add: pt_shift_def)
  assume p: "aligned (pt_shift k) p" "unat p \<le> unat va"
  have u: "unat (region_base k va) = unat va div 2 ^ pt_shift k * 2 ^ pt_shift k"
    using al dr unat_drop_bit[of "pt_shift k" va] unat_drop_bit[of "pt_shift k" "region_base k va"]
    by (auto simp: aligned_iff_mod mod_eq_0_iff_dvd elim: dvdE)
  have "unat p = unat p div 2 ^ pt_shift k * 2 ^ pt_shift k"
    using p(1) by (auto simp: aligned_iff_mod mod_eq_0_iff_dvd)
  then show "unat p \<le> unat (region_base k va)" unfolding u using p(2)
    by (metis div_le_mono mult_le_mono1)
qed

lemma x86_run:
  assumes k: "1 \<le> k" "k \<le> 3" and inv: "tinv x86_fmt s fl 4 root"
    and al: "aligned (pt_shift k) virt" "aligned (pt_shift k) phys"
    and fit: "unat virt + n * 2 ^ pt_shift k \<le> 2 ^ 48" "unat phys + n * 2 ^ pt_shift k \<le> 2 ^ 48"
    and free: "\<forall>v. virt \<le> v \<longrightarrow> unat v < unat virt + n * 2 ^ pt_shift k \<longrightarrow> xlate x86_fmt (mem s) 4 root v = None"
    and pages: "run_pages k (unat virt) n \<le> length fl"
  shows "\<exists>s' c. install_seq x86_step (pf_addr x86_fmt) k root (\<lambda>v. x86_pte k (v + (phys - virt))) n virt s = Some s' \<and>
    grown x86_fmt s fl s' c 4 root \<and> c \<le> run_pages k (unat virt) n \<and>
    (\<forall>va. va < 2 ^ 48 \<longrightarrow> xlate x86_fmt (mem s') 4 root va =
      (if virt \<le> va \<and> unat va < unat virt + n * 2 ^ pt_shift k then Some (va - virt + phys, x86_rwx)
       else xlate x86_fmt (mem s) 4 root va))"
proof -
  let ?d = "phys - virt" and ?len = "n * 2 ^ pt_shift k"
  have sh: "pt_shift k \<le> 64" using k by (simp add: pt_shift_def)
  have d: "aligned (pt_shift k) (p + ?d) \<and> p + ?d < 2 ^ 52"
    if "aligned (pt_shift k) p" "unat virt \<le> unat p" "unat p < unat virt + ?len" for p
  proof -
    have e: "p + ?d = phys + (p - virt)" by (simp add: algebra_simps)
    have "unat (p - virt) = unat p - unat virt" using that(2) by (simp add: unat_sub word_le_nat_alt)
    then have u: "unat (p + ?d) = unat phys + (unat p - unat virt)"
      unfolding e using that(3) fit(2) by (simp add: unat_word_ariths)
    have "2 ^ pt_shift k dvd unat p - unat virt" using that(1) al(1)
      by (intro dvd_diff_nat) (auto simp: aligned_iff_mod)
    then have "aligned (pt_shift k) (p + ?d)"
      using al(2) unfolding aligned_iff_mod mod_eq_0_iff_dvd u by (intro dvd_add)
    moreover have "p + ?d < 2 ^ 52" using u that(2,3) fit(2) by (simp add: word_less_nat_alt)
    ultimately show ?thesis by simp
  qed
  have ok: "run_ok x86_fmt k (\<lambda>v. x86_pte k (v + ?d)) n virt"
    using d x86_pte_ok(1,2)[OF k] by (simp add: run_ok_def)
  have way: "False \<or> (\<forall>p. unat virt \<le> unat p \<longrightarrow> unat p < unat virt + ?len \<longrightarrow> xlate x86_fmt (mem s) 4 root p = None)"
    using free by (simp add: word_le_nat_alt)
  obtain s' c where s': "install_seq x86_step (pf_addr x86_fmt) k root (\<lambda>v. x86_pte k (v + ?d)) n virt s = Some s'"
      "grown x86_fmt s fl s' c 4 root" "c \<le> run_pages k (unat virt) n"
      "mapped x86_fmt k root (\<lambda>v. x86_pte k (v + ?d)) n virt s s'"
    using x86.install_run_pages[OF k inv al(1) fit(1) ok way pages] by blast
  have "pte_xl x86_fmt k (x86_pte k (region_base k va + ?d)) va = Some (va - virt + phys, x86_rwx)"
    if "unat virt \<le> unat va" "unat va < unat virt + ?len" for va
  proof -
    have "region_base k va + ?d + take_bit (pt_shift k) va = va - virt + phys"
      using region_base_plus[of k va] by (simp add: algebra_simps)
    moreover have "aligned (pt_shift k) (region_base k va + ?d) \<and> region_base k va + ?d < 2 ^ 52"
    proof (rule d)
      show "aligned (pt_shift k) (region_base k va)" using region_base_facts(1) k by blast
      show "unat virt \<le> unat (region_base k va)" using region_base_facts(3)[OF k(2) al(1) that(1)] .
      show "unat (region_base k va) < unat virt + ?len"
        using region_base_facts(2)[OF k(2), of va] that(2) by simp
    qed
    ultimately show ?thesis using x86_pte_ok(3)[OF k, of "region_base k va + ?d" va] by simp
  qed
  then show ?thesis using s' by (intro exI[of _ s'] exI[of _ c]) (simp add: mapped_def word_le_nat_alt)
qed

lemma aligned_mod: "aligned 12 x \<longleftrightarrow> x mod PAGE_SIZE = 0"
  using unat_mod[of x PAGE_SIZE] by (simp add: aligned_iff_mod word_unat_eq_iff)

lemma install_pages_map:
  assumes inv: "tinv x86_fmt s fl 4 root" and al: "aligned 12 virt" "aligned 12 phys" "aligned 12 len"
    and fit: "unat virt + unat len \<le> 2 ^ 48" "unat phys + unat len \<le> 2 ^ 48"
    and free: "\<forall>v. virt \<le> v \<longrightarrow> unat v < unat virt + unat len \<longrightarrow> xlate x86_fmt (mem s) 4 root v = None"
    and pages: "run_pages 1 (unat virt) (unat len div 4096) \<le> length fl"
  shows "\<exists>s' c. install_pages root phys len virt s = Some s' \<and>
    grown x86_fmt s fl s' c 4 root \<and> c \<le> run_pages 1 (unat virt) (unat len div 4096) \<and>
    (\<forall>va. va < 2 ^ 48 \<longrightarrow> xlate x86_fmt (mem s') 4 root va =
      (if virt \<le> va \<and> unat va < unat virt + unat len then Some (va - virt + phys, x86_rwx)
       else xlate x86_fmt (mem s) 4 root va))"
proof -
  let ?n = "unat len div 4096"
  have sh: "pt_shift 1 = 12" by (simp add: pt_shift_def)
  have len: "?n * 4096 = unat len" using al(3) by (auto simp: aligned_iff_mod)
  obtain s' c where s': "install_seq x86_step (pf_addr x86_fmt) 1 root (\<lambda>v. x86_pte 1 (v + (phys - virt))) ?n virt s = Some s'"
      "grown x86_fmt s fl s' c 4 root" "c \<le> run_pages 1 (unat virt) ?n"
      "\<forall>va. va < 2 ^ 48 \<longrightarrow> xlate x86_fmt (mem s') 4 root va =
      (if virt \<le> va \<and> unat va < unat virt + unat len then Some (va - virt + phys, x86_rwx)
       else xlate x86_fmt (mem s) 4 root va)"
    using x86_run[OF le_refl _ inv, of virt phys ?n] al(1,2) fit free pages len unfolding sh by auto
  have umx: "unat (len + phys) = unat phys + unat len" using fit(2) by (simp add: unat_word_ariths)
  then have "len + phys \<le> 2 ^ 48" "unat phys \<le> unat (len + phys)"
    "?n = (unat (len + phys) - unat phys) div 2 ^ pt_shift 1"
    using fit(2) unfolding sh by (simp_all add: word_le_nat_alt)
  from install_pages_seq[OF this s'(1)] have "install_pages_loop root phys (len + phys) virt s = Some s'"
    by simp
  then have "install_pages root phys len virt s = Some s'"
    using al by (simp add: install_pages_def aligned_mod)
  then show ?thesis using s'(2-4) by blast
qed

text \<open>The identity map: large pages as far as they go, small pages for the rest.\<close>

definition mmu_pages :: "nat \<Rightarrow> nat" where
  "mmu_pages len = run_pages 2 0 (len div 2 ^ 21) +
     run_pages 1 (len div 2 ^ 21 * 2 ^ 21) (len mod 2 ^ 21 div 4096)"

lemma setup_mmu_range_identity:
  assumes inv: "tinv x86_fmt s fl 4 root" and al: "aligned 12 len" and fit: "unat len \<le> 2 ^ 48"
    and free: "\<forall>v. unat v < unat len \<longrightarrow> xlate x86_fmt (mem s) 4 root v = None"
    and pages: "mmu_pages (unat len) \<le> length fl"
  shows "\<exists>s' c. setup_mmu_range root 0 len s = Some s' \<and> grown x86_fmt s fl s' c 4 root \<and>
    c \<le> mmu_pages (unat len) \<and>
    (\<forall>va. va < 2 ^ 48 \<longrightarrow> xlate x86_fmt (mem s') 4 root va =
      (if unat va < unat len then Some (va, x86_rwx) else xlate x86_fmt (mem s) 4 root va))"
proof -
  let ?L = "unat len" and ?n = "unat len div 2 ^ 21"
  have sh: "pt_shift 2 = 21" by (simp add: pt_shift_def)
  have split: "?L = ?n * 2 ^ 21 + ?L mod 2 ^ 21" by (rule div_mult_mod_eq[symmetric])
  have free2: "\<forall>v. 0 \<le> v \<longrightarrow> unat v < unat (0::u64) + ?n * 2 ^ pt_shift 2 \<longrightarrow> xlate x86_fmt (mem s) 4 root v = None"
    using free split unfolding sh by simp
  have fit2: "unat (0::u64) + ?n * 2 ^ pt_shift 2 \<le> 2 ^ 48" using split fit unfolding sh unat_0 by linarith
  have c1: "run_pages 2 (unat (0::u64)) ?n \<le> length fl" using pages by (simp add: mmu_pages_def)
  obtain s1 c1 where s1: "install_seq x86_step (pf_addr x86_fmt) 2 root (\<lambda>v. x86_pte 2 (v + (0 - 0))) ?n 0 s = Some s1"
      "grown x86_fmt s fl s1 c1 4 root" "c1 \<le> run_pages 2 0 ?n"
      "\<forall>va. va < 2 ^ 48 \<longrightarrow> xlate x86_fmt (mem s1) 4 root va =
        (if unat va < ?n * 2 ^ 21 then Some (va, x86_rwx) else xlate x86_fmt (mem s) 4 root va)"
    using x86_run[OF _ _ inv aligned_0 aligned_0 fit2 fit2 free2 c1] unfolding sh by auto
  have "len \<le> 2 ^ 48" "unat (0::u64) \<le> unat len" "?n = (unat len - unat (0::u64)) div 2 ^ pt_shift 2"
    using fit by (simp_all add: word_le_nat_alt sh)
  from setup_mmu_large_seq[OF this, of root s s1] s1(1) obtain p where
    p: "setup_mmu_large root 0 len s = Some (p, s1)" "unat p = ?n * 2 ^ 21" unfolding sh by auto
  have inv1: "tinv x86_fmt s1 (drop c1 fl) 4 root" by (rule grown_tinv[OF inv s1(2)])
  have ur: "unat (len - p) = ?L mod 2 ^ 21"
    using p(2) split by (simp add: unat_sub word_le_nat_alt minus_div_mult_eq_mod)
  have alr: "aligned 12 p" "aligned 12 (len - p)"
  proof -
    have "(4096::nat) dvd ?n * 2 ^ 21" by (rule dvd_mult) simp
    then show "aligned 12 p" by (simp add: aligned_iff_mod p(2))
    have "(4096::nat) dvd ?L mod 2 ^ 21" using al by (intro dvd_mod) (auto simp: aligned_iff_mod)
    then show "aligned 12 (len - p)" by (simp add: aligned_iff_mod ur)
  qed
  have fits: "unat p + unat (len - p) = ?L" using p(2) ur split by simp
  have freer: "\<forall>v. p \<le> v \<longrightarrow> unat v < unat p + unat (len - p) \<longrightarrow> xlate x86_fmt (mem s1) 4 root v = None"
  proof (intro allI impI)
    fix v :: u64 assume v: "p \<le> v" "unat v < unat p + unat (len - p)"
    then have "v < 2 ^ 48" using fit fits by (simp add: word_less_nat_alt)
    moreover have "\<not> unat v < ?n * 2 ^ 21" using v(1) p(2) by (simp add: word_le_nat_alt)
    ultimately show "xlate x86_fmt (mem s1) 4 root v = None" using s1(4) free v fits by simp
  qed
  have pg: "run_pages 1 (unat p) (unat (len - p) div 4096) \<le> length (drop c1 fl)"
    using pages s1(3) by (simp add: mmu_pages_def p(2) ur)
  obtain s2 c2 where s2: "install_pages root p (len - p) p s1 = Some s2"
      "grown x86_fmt s1 (drop c1 fl) s2 c2 4 root" "c2 \<le> run_pages 1 (unat p) (unat (len - p) div 4096)"
      "\<forall>va. va < 2 ^ 48 \<longrightarrow> xlate x86_fmt (mem s2) 4 root va =
      (if p \<le> va \<and> unat va < unat p + unat (len - p) then Some (va - p + p, x86_rwx)
       else xlate x86_fmt (mem s1) 4 root va)"
    using install_pages_map[OF inv1 alr(1) alr(1) alr(2) _ _ freer pg] fits fit by auto
  have "setup_mmu_range root 0 len s = Some s2" using p(1) s2(1) by (simp add: setup_mmu_range_def)
  moreover have "grown x86_fmt s fl s2 (c1 + c2) 4 root" by (rule grown_trans[OF s1(2) s2(2)])
  moreover have "c1 + c2 \<le> mmu_pages ?L" using s1(3) s2(3) by (simp add: mmu_pages_def p(2) ur)
  moreover have "xlate x86_fmt (mem s2) 4 root va =
      (if unat va < ?L then Some (va, x86_rwx) else xlate x86_fmt (mem s) 4 root va)"
    if "va < 2 ^ 48" for va
    using that s2(4) s1(4) p(2) fits split by (auto simp: word_le_nat_alt)
  ultimately show ?thesis by blast
qed

lemma fresh_x86_root:
  assumes fl: "fl_inv s (p # fl)" and p52: "\<forall>q\<in>set fl. drop_bit 52 q = 0"
    and s': "mem s' = memset p 0 PAGE_SIZE (mem s)" "freelist s' = ld64 (mem s) p" "pa_lock s' = pa_lock s"
  shows "tinv x86_fmt s' fl 4 p" "xlate x86_fmt (mem s') 4 p va = None"
proof -
  have p: "aligned 12 p" "p \<noteq> 0" "flist (mem s) (ld64 (mem s) p) fl" "pa_lock s = 0"
    using fl by (auto simp: fl_inv_def)
  have z: "\<And>i. i < 512 \<Longrightarrow> ent (mem s') p i = 0" using p by (simp add: s' ent_memset_page)
  have n0: "\<not> pf_present x86_fmt 0" by simp
  note zt = zero_table[OF p(1) z n0, where l = 3, simplified]
  have "distinct (p # fl)" using fl by (rule fl_inv_distinct)
  then have "flist (mem s') (freelist s') fl"
    unfolding s' using p(3) by (intro flist_mframe[OF _ mframe_memset[OF p(1)]]) auto
  then show "tinv x86_fmt s' fl 4 p"
    using zt(1,2) p52 p(4) s' \<open>distinct (p # fl)\<close> by (simp add: tinv_def fl_inv_def)
  show "xlate x86_fmt (mem s') 4 p va = None" using zt(3) by simp
qed

lemma setup_mmu_identity_map:
  assumes fl: "fl_inv s (p # fl)" and p52: "\<forall>q\<in>set fl. drop_bit 52 q = 0"
    and al: "aligned 12 eom" and mt: "mtop = max (unat eom) (2 ^ 32)" "mtop \<le> 2 ^ 48"
    and pages: "mmu_pages mtop \<le> length fl"
  shows "\<exists>s' c. setup_mmu eom s = Some (p, s') \<and> cr3 s' = p \<and>
    cr0 s' = X86_CR0_PG OR X86_CR0_PE OR X86_CR0_WP \<and> c \<le> mmu_pages mtop \<and> tinv x86_fmt s' (drop c fl) 4 p \<and>
    (\<forall>va. va < 2 ^ 48 \<longrightarrow> xlate x86_fmt (mem s') 4 p va =
      (if unat va < mtop then Some (va, x86_rwx) else None))"
proof -
  let ?s = "s\<lparr>freelist := ld64 (mem s) p, mem := memset p 0 PAGE_SIZE (mem s)\<rparr>"
  define e where "e = (if eom < push_bit 32 1 then push_bit 32 1 else eom)"
  have ue: "unat e = mtop" using mt(1) by (auto simp: e_def word_less_nat_alt max_def)
  have ale: "aligned 12 e" using al by (auto simp: e_def aligned_iff_mod)
  have fr: "tinv x86_fmt ?s fl 4 p" "\<And>va. xlate x86_fmt (mem ?s) 4 p va = None"
    by (rule fresh_x86_root[OF fl p52]; simp)+
  obtain s1 c where s1: "setup_mmu_range p 0 e ?s = Some s1" "grown x86_fmt ?s fl s1 c 4 p" "c \<le> mmu_pages mtop"
    "\<forall>va. va < 2 ^ 48 \<longrightarrow> xlate x86_fmt (mem s1) 4 p va =
      (if unat va < unat e then Some (va, x86_rwx) else xlate x86_fmt (mem ?s) 4 p va)"
    using setup_mmu_range_identity[OF fr(1) ale] mt(2) ue fr(2) pages by auto
  have "\<exists>s'. setup_mmu eom s = Some (p, s') \<and> cr3 s' = p \<and>
      cr0 s' = X86_CR0_PG OR X86_CR0_PE OR X86_CR0_WP \<and> mem s' = mem s1 \<and> freelist s' = freelist s1 \<and> pa_lock s' = pa_lock s1"
    using alloc_page_Cons[OF fl] s1(1) unfolding e_def
    by (simp add: setup_mmu_def Let_def write_cr3_def write_cr0_def kprintf_def)
  then show ?thesis using s1(3,4) grown_tinv[OF fr(1) s1(2)] fr(2) ue by (auto simp: tinv_def fl_inv_def)
qed

text \<open>Building page tables keeps the rest of the state.\<close>

lemma install_pte_step_more:
  "install_pte_step pt off pg s = Some (pg', s') \<Longrightarrow> pa_state.more s' = pa_state.more s"
  by (auto simp: install_pte_step_def Let_def alloc_page_more split: if_splits bind_splits)

lemma install_pte_loop_more:
  "install_pte_loop lev k va pt pg s = Some (l, pt', s') \<Longrightarrow> pa_state.more s' = pa_state.more s"
proof (induction lev k va pt pg s rule: install_pte_loop.induct)
  case (1 level pte_level virt pt pt_page s)
  show ?case
  proof (cases "pte_level < level")
    case True
    obtain pg1 s1 where s1: "install_pte_step pt (PGDIR_OFFSET virt level) pt_page s = Some (pg1, s1)"
        "install_pte_loop (level - 1) pte_level virt
          (phys_to_virt (ld64 (mem s1) (pt + 8 * PGDIR_OFFSET virt level) AND PT_ADDR_MASK)) pg1 s1 =
          Some (l, pt', s')"
      using 1(2) True by (subst (asm) install_pte_loop.simps) (auto simp: Let_def split: bind_splits)
    have "pa_state.more s' = pa_state.more s1" by (rule 1(1)[OF True refl s1(1) refl refl s1(2)])
    then show ?thesis using install_pte_step_more[OF s1(1)] by simp
  next
    case False
    then show ?thesis using 1(2) by (subst (asm) install_pte_loop.simps) simp
  qed
qed

lemma install_pte_more: "install_pte pgd k va pte pg s = Some (r, s') \<Longrightarrow> pa_state.more s' = pa_state.more s"
  by (auto simp: install_pte_def Let_def dest!: install_pte_loop_more split: bind_splits)

lemma setup_mmu_large_more:
  assumes "setup_mmu_large pgd phys mx s = Some r"
  shows "pa_state.more (snd r) = pa_state.more s"
proof (rule setup_mmu_large.raw_induct[OF _ assms, where P = "\<lambda>pgd phys mx s r. pa_state.more (snd r) = pa_state.more s"])
  fix f pgd phys mx and s :: "'a pa_state_scheme" and r
  assume IH: "\<And>pgd phys mx s r. f pgd phys mx s = Some r \<Longrightarrow> pa_state.more (snd r) = pa_state.more s"
    and r: "(if phys + LARGE_PAGE_SIZE \<le> mx then install_large_page pgd phys phys s \<bind>
      (\<lambda>(u, s). f pgd (phys + LARGE_PAGE_SIZE) mx s) else Some (phys, s)) = Some r"
  show "pa_state.more (snd r) = pa_state.more s"
    using r by (auto simp: install_large_page_def dest!: install_pte_more IH split: if_splits bind_splits)
qed

lemma install_pages_loop_more:
  assumes "install_pages_loop pgd phys mx va s = Some s'"
  shows "pa_state.more s' = pa_state.more s"
proof (rule install_pages_loop.raw_induct[OF _ assms, where P = "\<lambda>pgd phys mx va s r. pa_state.more r = pa_state.more s"])
  fix f pgd phys mx va and s r :: "'a pa_state_scheme"
  assume IH: "\<And>pgd phys mx va s r. f pgd phys mx va s = Some r \<Longrightarrow> pa_state.more r = pa_state.more s"
    and r: "(if phys + PAGE_SIZE \<le> mx then install_page pgd phys va s \<bind>
      (\<lambda>(u, s). f pgd (phys + PAGE_SIZE) mx (va + PAGE_SIZE) s) else Some s) = Some r"
  show "pa_state.more r = pa_state.more s"
    using r by (auto simp: install_page_def dest!: install_pte_more IH split: if_splits bind_splits)
qed

lemma setup_mmu_range_more: "setup_mmu_range pgd st len s = Some s' \<Longrightarrow> pa_state.more s' = pa_state.more s"
  by (auto simp: setup_mmu_range_def install_pages_def Let_def dest!: setup_mmu_large_more install_pages_loop_more
      split: if_splits bind_splits)

text \<open>Memory below the processor state changed, the processor kept except for CR0 and CR3.\<close>

lemma setup_mmu_keeps:
  assumes "setup_mmu eom s = Some (p, s')"
  shows "cpu_state.more s' = cpu_state.more s \<and> cr4 s' = cr4 s \<and> fw_lock s' = fw_lock s \<and> trace s' = trace s"
proof -
  obtain s1 pgd where a: "alloc_page s = Some (pgd, s1)"
    using assms by (auto simp: setup_mmu_def split: bind_splits)
  obtain s2 where b: "setup_mmu_range pgd 0 (if eom < push_bit 32 1 then push_bit 32 1 else eom)
      (s1\<lparr>mem := memset pgd 0 PAGE_SIZE (mem s1)\<rparr>) = Some s2"
    using assms a by (auto simp: setup_mmu_def Let_def split: bind_splits)
  have "pa_state.more s2 = pa_state.more s"
    using setup_mmu_range_more[OF b] alloc_page_more[OF a] by simp
  then have "cpu_state.more s2 = cpu_state.more s" "cr4 s2 = cr4 s" "fw_lock s2 = fw_lock s" "trace s2 = trace s"
    by (cases s; cases s2; simp)+
  then show ?thesis using assms a b
    by (auto simp: setup_mmu_def Let_def write_cr0_def write_cr3_def kprintf_def)
qed


section \<open>Splitting\<close>

lemma split_page_entry:
  assumes l: "1 \<le> l" "l \<le> 2" and g: "aligned (pt_shift (Suc l)) (e AND PT_ADDR_MASK)"
    and e: "bit e 0" "bit e 7" "pf_pass x86_fmt e = - 1" and j: "j < 512"
  defines "pr \<equiv> (if l = 1 then e AND NOT PT_ADDR_MASK AND NOT PT_PAGE_SIZE_MASK
                 else e AND NOT PT_ADDR_MASK)"
    and "c \<equiv> (e AND PT_ADDR_MASK) + j * 2 ^ pt_shift l"
  shows "pf_present x86_fmt (pr OR c)" "is_leaf x86_fmt l (pr OR c)" "pf_addr x86_fmt (pr OR c) = c"
    "pf_attr x86_fmt (pr OR c) = pf_attr x86_fmt e" "pf_pass x86_fmt (pr OR c) = - 1"
proof -
  note ch = x86_split_child[OF l g j, folded pr_def c_def]
  show "pf_present x86_fmt (pr OR c)" using ch(2)[of 0] e by (simp add: x86_tests)
  show "is_leaf x86_fmt l (pr OR c)" using ch(2)[of 7] e l by (auto simp: is_leaf_def x86_tests)
  show "pf_addr x86_fmt (pr OR c) = c" using ch(1) by simp
  show "pf_attr x86_fmt (pr OR c) = pf_attr x86_fmt e"
  proof (rule bit_word_eqI)
    fix n show "bit (pf_attr x86_fmt (pr OR c)) n = bit (pf_attr x86_fmt e) n"
      using ch(2)[of n] unfolding x86_fmt_simps by (auto simp: bit_and_iff bit_not_iff bit_xor_iff x86_bits)
  qed
  show "pf_pass x86_fmt (pr OR c) = - 1"
    using ch(2)[of 1] ch(2)[of 2] ch(2)[of 63] e(3) unfolding x86_pass_iff by simp
qed

lemma split_large_page_ok:
  assumes inv: "tinv x86_fmt s (p # ps) (Suc (Suc l)) pt" and i: "i < 512" and l: "Suc l \<le> 2"
    and e: "bit (ent (mem s) pt i) 0" "bit (ent (mem s) pt i) 7"
  shows "\<exists>s'. split_large_page (pt + 8 * i) (int (Suc (Suc l))) s = Some s' \<and>
    grown x86_fmt s (p # ps) s' 1 (Suc (Suc l)) pt \<and>
    is_table x86_fmt (Suc (Suc l)) (ent (mem s') pt i) \<and> pf_addr x86_fmt (ent (mem s') pt i) = p \<and>
    (\<forall>j<512. pf_present x86_fmt (ent (mem s') p j) \<and> is_leaf x86_fmt (Suc l) (ent (mem s') p j)) \<and>
    (\<forall>va. xlate x86_fmt (mem s') (Suc (Suc l)) pt va = xlate x86_fmt (mem s) (Suc (Suc l)) pt va) \<and>
    cpu_state.more s' = cpu_state.more s \<and> cr3 s' = cr3 s"
proof -
  let ?e = "ent (mem s) pt i" and ?L = "Suc (Suc l)"
  have fl: "fl_inv s (p # ps)" and p: "aligned 12 p" "p \<noteq> 0" "drop_bit 52 p = 0"
    and ok: "entry_ok x86_fmt ?L ?e" and lock: "pa_lock s = 0"
    using inv i by (auto simp: tinv_def fl_inv_def twf.simps)
  have pr0: "pf_present x86_fmt ?e" and lf: "is_leaf x86_fmt ?L ?e"
    using l e by (simp_all add: is_leaf_def x86_tests)
  have g: "aligned (pt_shift ?L) (?e AND PT_ADDR_MASK)" and ps: "pf_pass x86_fmt ?e = - 1"
    using ok pr0 lf by (auto simp: entry_ok_def simp del: x86_fmt_simps(5))
  define pr where "pr = (if Suc l = 1 then ?e AND NOT PT_ADDR_MASK AND NOT PT_PAGE_SIZE_MASK
                 else ?e AND NOT PT_ADDR_MASK)"
  define m1 where "m1 = fill_entries 512 p 0 pr (?e AND PT_ADDR_MASK) (2 ^ pt_shift (Suc l)) (mem s)"
  define e' where "e' = (?e AND NOT PT_PAGE_SIZE_MASK AND NOT PT_ADDR_MASK) OR p"
  define s' where "s' = s\<lparr>freelist := ld64 (mem s) p, mem := st64 m1 (pt + 8 * i) e'\<rparr>"
  have lv: "int ?L = 2 \<or> int ?L = 3" "int ?L = 2 \<longleftrightarrow> Suc l = 1" using l by auto
  have sh: "push_bit (PGDIR_BITS (int ?L - 1)) 1 = (2 ^ pt_shift (Suc l) :: u64)"
    using PGDIR_BITS_nat[of "Suc l"] by simp
  have st: "split_large_page (pt + 8 * i) (int ?L) s = Some s'"
    using alloc_page_Cons[OF fl] e p(2) lv sh
    by (simp add: split_large_page_def ent_def[symmetric] x86_tests
        s'_def m1_def e'_def pr_def Let_def and.assoc)
  have fr: "mframe (mem s) m1 {p}" using mframe_fill_entries[OF p(1)] by (simp add: m1_def)
  have c: "pf_present x86_fmt (ent m1 p j) \<and> is_leaf x86_fmt (Suc l) (ent m1 p j) \<and>
      pf_addr x86_fmt (ent m1 p j) = pf_addr x86_fmt ?e + j * 2 ^ pt_shift (Suc l) \<and>
      pf_attr x86_fmt (ent m1 p j) = pf_attr x86_fmt ?e \<and>
      (1 < Suc l \<longrightarrow> pf_pass x86_fmt (ent m1 p j) = - 1)" if j: "j < 512" for j
  proof -
    have eq: "ent m1 p j = pr OR ((?e AND PT_ADDR_MASK) + j * 2 ^ pt_shift (Suc l))"
      unfolding m1_def by (rule fill_table[OF p(1) j])
    have l1: "1 \<le> Suc l" by simp
    show ?thesis using split_page_entry[OF l1 l g e ps j, folded pr_def] unfolding eq x86_fmt_simps(3)
      by blast
  qed
  have bp: "\<not> bit p n" if "n < 12 \<or> 52 \<le> n" for n
    using that aligned_bit[OF p(1)] high_bit[OF p(3)] by auto
  have e'b: "bit e' n \<longleftrightarrow> bit ?e n \<and> n \<noteq> 7" if "n < 12 \<or> 52 \<le> n" "n < 64" for n
    using bp[of n] that by (auto simp: e'_def bit_simps x86_bits)
  have pe: "pf_present x86_fmt e'" and lg: "\<not> pf_large x86_fmt e'" and pass: "pf_pass x86_fmt e' = - 1"
    using e'b[of 0] e'b[of 7] e'b[of 1] e'b[of 2] e'b[of 63] e ps unfolding x86_pass_iff
    by (simp_all add: x86_tests)
  have ad: "pf_addr x86_fmt e' = p"
    unfolding e'_def x86_fmt_simps
    by (rule x86_mask_flags) (use p in \<open>auto intro!: bit_word_eqI simp: bit_simps\<close>)
  have s': "mem s' = st64 m1 (pt + 8 * i) e'" "freelist s' = ld64 (mem s) p" "pa_lock s' = 0"
    using lock by (simp_all add: s'_def)
  note at = split_attach[OF inv i l pr0 lf fr c pe lg ad pass s']
  have "\<forall>j<512. pf_present x86_fmt (ent (mem s') p j) \<and> is_leaf x86_fmt (Suc l) (ent (mem s') p j)"
    using at(5) c by simp
  moreover have "cpu_state.more s' = cpu_state.more s" "cr3 s' = cr3 s" by (simp_all add: s'_def)
  ultimately show ?thesis using st at(1,2,3,4) ad by auto
qed

section \<open>Finding\<close>

lemma PT_ADDR_MASK_val: "0xffffffffff000 = PT_ADDR_MASK"
  by code_simp

text \<open>The search is the processor's walk: it ends at the entry that decides the translation.\<close>

lemma find_loop_walk:
  assumes "1 \<le> n"
  shows "\<exists>l pt'. find_pte_loop m va 1 (int n) pt =
      Some \<lparr>ps_level = int l, ps_pte = pt' + 8 * pt_idx l va\<rparr> \<and> 1 \<le> l \<and> l \<le> n \<and>
    (is_leaf x86_fmt l (ent m pt' (pt_idx l va)) \<or> \<not> pf_present x86_fmt (ent m pt' (pt_idx l va))) \<and>
    (twf x86_fmt m n pt \<longrightarrow> n \<le> 4 \<longrightarrow> xlate x86_fmt m n pt va = pte_xl x86_fmt l (ent m pt' (pt_idx l va)) va)"
  using assms
proof (induction n arbitrary: pt)
  case (Suc n)
  let ?e = "ent m pt (pt_idx (Suc n) va)"
  have off: "drop_bit (nat ((int (Suc n) - 1) * 9 + 12)) va AND PGDIR_MASK = pt_idx (Suc n) va"
    using PGDIR_OFFSET_nat[of "Suc n" va] by (simp add: PGDIR_OFFSET_def PGDIR_BITS_def)
  have "find_pte_loop m va 1 (int (Suc n)) pt =
      (let r = \<lparr>ps_level = int (Suc n), ps_pte = pt + 8 * pt_idx (Suc n) va\<rparr>
       in if ?e AND PT_PRESENT_MASK = 0 then Some r
          else if (int (Suc n) = 2 \<or> int (Suc n) = 3) \<and> ?e AND PT_PAGE_SIZE_MASK \<noteq> 0 then Some r
          else if int (Suc n) = 1 then Some r
          else find_pte_loop m va 1 (int (Suc n) - 1) (phys_to_virt (?e AND 0xffffffffff000)))"
    by (subst find_pte_loop.simps) (simp only: Let_def off ent_def)
  moreover have "int (Suc n) - 1 = int n" "(int (Suc n) = 2 \<or> int (Suc n) = 3) \<longleftrightarrow> (Suc n = 2 \<or> Suc n = 3)"
    "int (Suc n) = 1 \<longleftrightarrow> n = 0" by auto
  ultimately have unf: "find_pte_loop m va 1 (int (Suc n)) pt =
      (if \<not> bit ?e 0 \<or> (Suc n = 2 \<or> Suc n = 3) \<and> bit ?e 7 \<or> n = 0
       then Some \<lparr>ps_level = int (Suc n), ps_pte = pt + 8 * pt_idx (Suc n) va\<rparr>
       else find_pte_loop m va 1 (int n) (?e AND PT_ADDR_MASK))"
    by (simp only: x86_tests[symmetric] PT_ADDR_MASK_val virt_phys_id Let_def) auto
  show ?case
  proof (cases "\<not> bit ?e 0 \<or> (Suc n = 2 \<or> Suc n = 3) \<and> bit ?e 7 \<or> n = 0")
    case True
    have "is_leaf x86_fmt (Suc n) ?e \<or> \<not> pf_present x86_fmt ?e"
      using True by (auto simp: is_leaf_def x86_tests)
    moreover have "xlate x86_fmt m (Suc n) pt va = pte_xl x86_fmt (Suc n) ?e va"
      using calculation by (auto simp: xlate.simps pte_xl_def Let_def)
    ultimately show ?thesis using unf True by (intro exI[of _ "Suc n"] exI[of _ pt]) simp
  next
    case False
    then have n: "1 \<le> n" and p: "pf_present x86_fmt ?e" by (auto simp: x86_tests)
    have tb: "is_table x86_fmt (Suc n) ?e" if "twf x86_fmt m (Suc n) pt" "Suc n \<le> 4"
      using False that n by (auto simp: is_table_def is_leaf_def x86_tests le_Suc_eq numeral_eq_Suc)
    obtain l pt' where r: "find_pte_loop m va 1 (int n) (?e AND PT_ADDR_MASK) =
        Some \<lparr>ps_level = int l, ps_pte = pt' + 8 * pt_idx l va\<rparr>" "1 \<le> l" "l \<le> n"
      "is_leaf x86_fmt l (ent m pt' (pt_idx l va)) \<or> \<not> pf_present x86_fmt (ent m pt' (pt_idx l va))"
      "twf x86_fmt m n (?e AND PT_ADDR_MASK) \<longrightarrow> n \<le> 4 \<longrightarrow>
        xlate x86_fmt m n (?e AND PT_ADDR_MASK) va = pte_xl x86_fmt l (ent m pt' (pt_idx l va)) va"
      using Suc.IH[OF n, of "?e AND PT_ADDR_MASK"] by blast
    have "xlate x86_fmt m (Suc n) pt va = pte_xl x86_fmt l (ent m pt' (pt_idx l va)) va"
      if wf: "twf x86_fmt m (Suc n) pt" "Suc n \<le> 4"
    proof -
      have "twf x86_fmt m n (?e AND PT_ADDR_MASK)" using wf tb[OF wf] by (simp add: twf.simps)
      then show ?thesis using xlate_table[OF tb[OF wf] table_pass[OF wf(1) _ tb[OF wf]]] r(5) wf(2) by simp
    qed
    then show ?thesis using unf False r(1-4) by (intro exI[of _ l] exI[of _ pt']) simp
  qed
qed simp

lemma get_pte_walk:
  assumes wf: "twf x86_fmt m 4 root"
  shows "\<exists>l pt. 1 \<le> l \<and> l \<le> 4 \<and>
    find_pte_level m root va 1 = Some \<lparr>ps_level = int l, ps_pte = pt + 8 * pt_idx l va\<rparr> \<and>
    get_pte m root va = Some (if is_leaf x86_fmt l (ent m pt (pt_idx l va)) \<and>
        (l = 1 \<or> pf_present x86_fmt (ent m pt (pt_idx l va))) then pt + 8 * pt_idx l va else 0) \<and>
    xlate x86_fmt m 4 root va = pte_xl x86_fmt l (ent m pt (pt_idx l va)) va"
proof -
  obtain l pt where r: "find_pte_loop m va 1 (int 4) root =
      Some \<lparr>ps_level = int l, ps_pte = pt + 8 * pt_idx l va\<rparr>" "1 \<le> l" "l \<le> 4"
    "is_leaf x86_fmt l (ent m pt (pt_idx l va)) \<or> \<not> pf_present x86_fmt (ent m pt (pt_idx l va))"
    "xlate x86_fmt m 4 root va = pte_xl x86_fmt l (ent m pt (pt_idx l va)) va"
    using find_loop_walk[of 4 m va root] wf by auto
  have f: "find_pte_level m root va 1 = Some \<lparr>ps_level = int l, ps_pte = pt + 8 * pt_idx l va\<rparr>"
    using r(1) by (simp add: find_pte_level_def PAGE_LEVEL_def)
  moreover have "get_pte m root va = Some (if is_leaf x86_fmt l (ent m pt (pt_idx l va)) \<and>
        (l = 1 \<or> pf_present x86_fmt (ent m pt (pt_idx l va))) then pt + 8 * pt_idx l va else 0)"
  proof -
    have "l = 1 \<or> l = 2 \<or> l = 3 \<or> l = 4" using r(2,3) by auto
    then show ?thesis using r(4) f
      by (auto simp: get_pte_def found_leaf_pte_def found_huge_pte_def is_leaf_def x86_tests ent_def)
  qed
  ultimately show ?thesis using r(2,3,5) by blast
qed

end
