(* ===== verification/X86_Vm_Props.thy ===== *)
theory X86_Vm_Props
  imports X86_Vm_Map Machines
begin

text \<open>
  The properties of the hypervisor's own page tables (\<^verbatim>\<open>lib/x86/vm.c\<close>), each with a run on a concrete
  machine.
\<close>

definition cpu0 :: cpu_state where
  "cpu0 = \<lparr>mem = \<lambda>_. 0, console = [], freelist = 0, pa_lock = 0, trace = [], cr0 = 0, cr2 = 0, cr3 = 0,
     cr4 = 0, rflags_reg = 2, fw_lock = 0\<rparr>"

lemmas x86_root_machine = fresh_root_machine [of x86_fmt, simplified]

lemma pte7: "x86_pte 1 0x5000 = 0x5007"
  by (simp add: x86_pte_def c_defs)

section \<open>Properties\<close>

text \<open>C8: \<^verbatim>\<open>setup_mmu\<close> with a page-aligned end of memory below 48 bits and enough free pages returns the
  new root, loads it into CR3, enables paging and write protection, and the tables translate exactly
  the addresses below the larger of the end of memory and 4 GiB, each to itself, writable and
  executable.\<close>

theorem setup_mmu_identity:
  assumes "fl_inv s (p # fl)" "\<forall>q\<in>set fl. drop_bit 52 q = 0" "aligned 12 eom"
    "mtop = max (unat eom) (2 ^ 32)" "mtop \<le> 2 ^ 48" "mmu_pages mtop \<le> length fl"
  shows "\<exists>s'. setup_mmu eom s = Some (p, s') \<and> cr3 s' = p \<and>
    cr0 s' = X86_CR0_PG OR X86_CR0_PE OR X86_CR0_WP \<and>
    (\<forall>va. va < 2 ^ 48 \<longrightarrow> xlate x86_fmt (mem s') 4 p va =
      (if unat va < mtop then Some (va, x86_rwx) else None))"
  using setup_mmu_identity_map[OF assms] by blast

theorem setup_mmu_identity_witness:
  "\<exists>s'. setup_mmu 0x8000000 (give 10 cpu0) = Some (0x100000, s') \<and> cr3 s' = 0x100000 \<and>
    (\<forall>va. va < 2 ^ 48 \<longrightarrow> xlate x86_fmt (mem s') 4 0x100000 va =
      (if unat va < 2 ^ 32 then Some (va, x86_rwx) else None))"
proof -
  let ?s = "give 10 cpu0"
  have v: "freelist cpu0 = 0" "pa_lock cpu0 = 0" by (simp_all add: cpu0_def)
  note g = give_free[OF v, of 10]
  have fl: "fl_inv ?s (0x100000 # page_run 0x101000 9)" using g(1) demo_page_run[of 9] by simp
  have b: "\<forall>q\<in>set (page_run 0x101000 9). drop_bit 52 q = 0"
  proof
    fix q assume "q \<in> set (page_run 0x101000 9)"
    then have "q \<in> set (page_run 0x100000 10)" using demo_page_run[of 9] by simp
    then show "drop_bit 52 q = 0" by (rule page_run_bound) simp
  qed
  have al: "aligned 12 0x8000000" by (simp add: aligned_iff_mod)
  have "{Suc 2..4} = {3, 4::nat}" by auto
  then have pages: "mmu_pages (2 ^ 32) = 5"
    by (simp add: mmu_pages_def run_pages_def new_tables_def pt_shift_def)
  show ?thesis using setup_mmu_identity[OF fl b al refl] pages by auto
qed

text \<open>C22: \<^verbatim>\<open>install_pte\<close> at any level, from any well-formed table without a large page on the way and
  with as many free pages as tables are missing: it returns the address of the entry, which holds the
  value given; every address of the region the entry covers is translated by it, every other address
  as before, and exactly the missing tables were taken from the allocator.\<close>

theorem install_pte_correct:
  assumes "tinv x86_fmt s fl 4 root" "1 \<le> k" "k \<le> 4" "virt < 2 ^ 48"
    "missing x86_fmt (mem s) k 4 root virt \<le> length fl" "nolarge x86_fmt (mem s) k 4 root virt"
    "\<not> is_table x86_fmt k pte" "entry_ok x86_fmt k pte"
  shows "\<exists>r s'. install_pte root (int k) virt pte 0 s = Some (r, s') \<and> ld64 (mem s') r = pte \<and>
    tinv x86_fmt s' (drop (missing x86_fmt (mem s) k 4 root virt) fl) 4 root \<and>
    (\<forall>va. va < 2 ^ 48 \<longrightarrow> xlate x86_fmt (mem s') 4 root va =
      (if drop_bit (pt_shift k) va = drop_bit (pt_shift k) virt then pte_xl x86_fmt k pte va
       else xlate x86_fmt (mem s) 4 root va))"
  using install_pte_translation[OF assms] grown_tinv[OF assms(1)] by blast

theorem install_pte_correct_witness:
  "\<exists>r s'. install_pte 0x1000 1 0x7000 0x5007 0 (give 3 pa0) = Some (r, s') \<and> ld64 (mem s') r = 0x5007 \<and>
    xlate x86_fmt (mem s') 4 0x1000 0x7123 = Some (0x5123, x86_rwx) \<and>
    xlate x86_fmt (mem s') 4 0x1000 0x8123 = None"
proof -
  let ?m = "mem (give 3 pa0)"
  have ok: "\<not> is_table x86_fmt 1 0x5007" "entry_ok x86_fmt 1 0x5007"
    "pte_xl x86_fmt 1 0x5007 0x7123 = Some (0x5123, x86_rwx)"
    using x86_pte_ok(1,2)[of 1 "0x5000", unfolded pte7] x86_pte_ok(3)[of 1 "0x5000" "0x7123", unfolded pte7]
    by (simp_all add: aligned_iff_mod pt_shift_def take_bit_eq_mask mask_eq_exp_minus_1)
  have nl: "nolarge x86_fmt ?m 1 4 0x1000 0x7000"
    using unmapped_nolarge[of x86_fmt ?m 4 "0x1000"] x86_root_machine(1) x86_root_machine(2)[of "0x7000"] by (simp add: tinv_def)
  have mi: "missing x86_fmt ?m 1 4 0x1000 0x7000 \<le> length (page_run 0x100000 3)"
    using x86_root_machine(3) by simp
  have lt: "(0x7000::u64) < 2 ^ 48" by simp
  obtain r s' where s': "install_pte 0x1000 (int 1) 0x7000 0x5007 0 (give 3 pa0) = Some (r, s')"
    "ld64 (mem s') r = 0x5007"
    "\<forall>va. va < 2 ^ 48 \<longrightarrow> xlate x86_fmt (mem s') 4 0x1000 va =
      (if drop_bit (pt_shift 1) va = drop_bit (pt_shift 1) 0x7000 then pte_xl x86_fmt 1 0x5007 va
       else xlate x86_fmt ?m 4 0x1000 va)"
    using install_pte_correct[OF x86_root_machine(1) _ _ lt mi nl ok(1,2)] by auto
  then show ?thesis using ok(3) x86_root_machine(2)
    by (intro exI[of _ r] exI[of _ s']) (simp add: pt_shift_def)
qed

text \<open>\<^verbatim>\<open>install_pages\<close> maps a page-aligned block of virtual addresses, unmapped before, to the block of
  physical addresses given, page by page; it ends, takes at most the tables the block spans from the
  allocator, and leaves all other translations alone.\<close>

theorem install_pages_correct:
  assumes "tinv x86_fmt s fl 4 root" "aligned 12 virt" "aligned 12 phys" "aligned 12 len"
    "unat virt + unat len \<le> 2 ^ 48" "unat phys + unat len \<le> 2 ^ 48"
    "\<forall>v. virt \<le> v \<longrightarrow> unat v < unat virt + unat len \<longrightarrow> xlate x86_fmt (mem s) 4 root v = None"
    "run_pages 1 (unat virt) (unat len div 4096) \<le> length fl"
  shows "\<exists>s' c. install_pages root phys len virt s = Some s' \<and>
    c \<le> run_pages 1 (unat virt) (unat len div 4096) \<and> tinv x86_fmt s' (drop c fl) 4 root \<and>
    (\<forall>va. va < 2 ^ 48 \<longrightarrow> xlate x86_fmt (mem s') 4 root va =
      (if virt \<le> va \<and> unat va < unat virt + unat len then Some (va - virt + phys, x86_rwx)
       else xlate x86_fmt (mem s) 4 root va))"
  using install_pages_map[OF assms] grown_tinv[OF assms(1)] by blast

theorem install_pages_correct_witness:
  "\<exists>s'. install_pages 0x1000 0x40000 0x2000 0x7000 (give 3 pa0) = Some s' \<and>
    xlate x86_fmt (mem s') 4 0x1000 0x8123 = Some (0x41123, x86_rwx) \<and>
    xlate x86_fmt (mem s') 4 0x1000 0x9000 = None"
proof -
  have "{Suc 1..4} = {2, 3, 4::nat}" by auto
  then have rp: "run_pages 1 (unat (0x7000::u64)) (unat (0x2000::u64) div 4096) = 3"
    by (simp add: run_pages_def new_tables_def pt_shift_def)
  have al: "aligned 12 0x7000" "aligned 12 0x40000" "aligned 12 0x2000" by (simp_all add: aligned_iff_mod)
  obtain s' c where "install_pages 0x1000 0x40000 0x2000 0x7000 (give 3 pa0) = Some s'"
    "\<forall>va. va < 2 ^ 48 \<longrightarrow> xlate x86_fmt (mem s') 4 0x1000 va =
      (if 0x7000 \<le> va \<and> unat va < unat (0x7000::u64) + unat (0x2000::u64) then Some (va - 0x7000 + 0x40000, x86_rwx)
       else xlate x86_fmt (mem (give 3 pa0)) 4 0x1000 va)"
    using install_pages_correct[OF x86_root_machine(1) al] x86_root_machine(2) rp by auto
  then show ?thesis using x86_root_machine(2) by (intro exI[of _ s']) simp
qed

text \<open>Splitting a 2M or 1G page (the entry \<open>i\<close> of a well-formed table at level 2 or 3): with a free
  page \<^verbatim>\<open>split_large_page\<close> returns, the entry points to a table of smaller pages, and no address is
  translated differently.\<close>

theorem split_large_page_preserves:
  assumes "tinv x86_fmt s (p # fl) l pt" "l = 2 \<or> l = 3" "i < 512"
    "ent (mem s) pt i AND PT_PRESENT_MASK \<noteq> 0" "ent (mem s) pt i AND PT_PAGE_SIZE_MASK \<noteq> 0"
  shows "\<exists>s'. split_large_page (pt + 8 * i) (int l) s = Some s' \<and> tinv x86_fmt s' fl l pt \<and>
    is_table x86_fmt l (ent (mem s') pt i) \<and>
    (\<forall>j<512. is_leaf x86_fmt (l - 1) (ent (mem s') (pf_addr x86_fmt (ent (mem s') pt i)) j)) \<and>
    (\<forall>va. xlate x86_fmt (mem s') l pt va = xlate x86_fmt (mem s) l pt va)"
proof -
  obtain l0 where l0: "l = Suc (Suc l0)" "Suc l0 \<le> 2" using assms(2) by (cases l; cases "l - 1") auto
  have b: "bit (ent (mem s) pt i) 0" "bit (ent (mem s) pt i) 7" using assms(4,5) by (simp_all add: x86_tests)
  show ?thesis
    using split_large_page_ok[OF assms(1)[unfolded l0(1)] assms(3) l0(2) b] grown_tinv[OF assms(1), of _ 1] l0(1)
    by auto
qed

theorem split_large_page_preserves_witness:
  "\<exists>s'. split_large_page 0x1000 2 (give 1 (cpu0\<lparr>mem := st64 (\<lambda>_. 0) 0x1000 0x200087\<rparr>)) = Some s' \<and>
    xlate x86_fmt (mem s') 2 0x1000 0x1234 = Some (0x201234, x86_rwx)"
proof -
  let ?z = "cpu0\<lparr>mem := st64 (\<lambda>_. 0) 0x1000 0x200087\<rparr>" and ?s = "give 1 (cpu0\<lparr>mem := st64 (\<lambda>_. 0) 0x1000 0x200087\<rparr>)"
  have v: "freelist ?z = 0" "pa_lock ?z = 0" by (simp_all add: cpu0_def)
  note g = give_free[OF v, of 1]
  have run1: "page_run 0x100000 1 = [0x100000]" by (simp add: page_run_def)
  have z: "ent (mem ?s) 0x1000 i = (if i = 0 then 0x200087 else 0)" if "i < 512" for i
    using one_entry_machine[OF v _ that] by (simp add: cpu0_def)
  have pt: "x86_pte 2 0x200000 = 0x200087" by (simp add: x86_pte_def c_defs)
  have ok: "\<not> is_table x86_fmt 2 0x200087" "entry_ok x86_fmt 2 0x200087"
    "pte_xl x86_fmt 2 0x200087 0x1234 = Some (0x201234, x86_rwx)"
    using x86_pte_ok(1,2)[of 2 "0x200000", unfolded pt] x86_pte_ok(3)[of 2 "0x200000" "0x1234", unfolded pt]
    by (simp_all add: aligned_iff_mod pt_shift_def take_bit_eq_mask mask_eq_exp_minus_1)
  have e: "(0x200087::u64) AND PT_PRESENT_MASK \<noteq> 0" "(0x200087::u64) AND PT_PAGE_SIZE_MASK \<noteq> 0"
    by (simp_all add: c_defs)
  have eok: "entry_ok x86_fmt 2 (ent (mem ?s) 0x1000 i)" if "i < 512" for i
    using z[OF that] ok(2) by (auto simp: entry_ok_def)
  have nt: "\<not> is_table x86_fmt 2 (ent (mem ?s) 0x1000 i)" if "i < 512" for i
    using z[OF that] ok(1) by (auto simp: is_table_def)
  have al: "aligned 12 0x1000" by (simp add: aligned_iff_mod)
  note wf = leaf_table[of "0x1000" x86_fmt 1, unfolded Suc_1, OF al eok nt]
  have inv: "tinv x86_fmt ?s [0x100000] 2 0x1000"
    using g(1) wf run1 by (simp add: tinv_def)
  have e0: "ent (mem ?s) 0x1000 0 = 0x200087" using z[of 0] by simp
  have ix: "pt_idx 2 0x1234 = 0" by (simp add: pt_idx_def pt_shift_def)
  have lf: "is_leaf x86_fmt 2 0x200087" using e by (simp add: is_leaf_def)
  have "xlate x86_fmt (mem ?s) 2 0x1000 0x1234 = Some (0x201234, x86_rwx)"
    using xlate_leaf[of x86_fmt "mem ?s" "0x1000" 1 "0x1234", unfolded Suc_1 ix e0] e lf ok(3)
    by (simp add: pte_xl_def split: if_splits)
  moreover obtain s' where "split_large_page (0x1000 + 8 * 0) (int 2) ?s = Some s'"
    "\<forall>va. xlate x86_fmt (mem s') 2 0x1000 va = xlate x86_fmt (mem ?s) 2 0x1000 va"
    using split_large_page_preserves[OF inv, of 0] e0 e by auto
  ultimately show ?thesis by (intro exI[of _ s']) simp
qed

text \<open>C23: \<^verbatim>\<open>find_pte_level\<close> and \<^verbatim>\<open>get_pte\<close> follow the processor's walk: on a well-formed table the search
  ends at the entry that decides the translation of the address; \<^verbatim>\<open>get_pte\<close> returns the address of
  that entry when it maps a page (or sits in a last-level table) and NULL otherwise.\<close>

theorem get_pte_is_walk:
  assumes "twf x86_fmt m 4 root"
  shows "\<exists>l pt. 1 \<le> l \<and> l \<le> 4 \<and>
    find_pte_level m root va 1 = Some \<lparr>ps_level = int l, ps_pte = pt + 8 * pt_idx l va\<rparr> \<and>
    get_pte m root va = Some (if is_leaf x86_fmt l (ent m pt (pt_idx l va)) \<and>
        (l = 1 \<or> pf_present x86_fmt (ent m pt (pt_idx l va))) then pt + 8 * pt_idx l va else 0) \<and>
    xlate x86_fmt m 4 root va = pte_xl x86_fmt l (ent m pt (pt_idx l va)) va"
  using assms by (rule get_pte_walk)

theorem get_pte_is_walk_witness:
  "\<exists>l pt. 1 \<le> l \<and> l \<le> 4 \<and>
    find_pte_level (mem (give 3 pa0)) 0x1000 0x7000 1 = Some \<lparr>ps_level = int l, ps_pte = pt + 8 * pt_idx l 0x7000\<rparr> \<and>
    pte_xl x86_fmt l (ent (mem (give 3 pa0)) pt (pt_idx l 0x7000)) 0x7000 = None"
proof -
  have "twf x86_fmt (mem (give 3 pa0)) 4 0x1000" using x86_root_machine(1) by (simp add: tinv_def)
  from get_pte_is_walk[OF this, of "0x7000"] show ?thesis using x86_root_machine(2) by metis
qed

end
