(* ===== verification/Page_Alloc_Props.thy ===== *)
theory Page_Alloc_Props
  imports Machines
begin

text \<open>
  The properties of the page allocator \<^verbatim>\<open>lib/alloc_page.c\<close>, each with a run on a concrete machine.
\<close>

section \<open>The scan finds the first aligned run\<close>

lemma scan_skip:
  assumes "flist (mem s) (freelist s) (pre @ as @ rest)" "\<forall>q\<in>set as. \<not> aligned (12 + order) q"
  shows "alloc_pages_loop n (2 ^ (12 + order) - 1) (last0 pre) (hd0 (as @ rest)) 0 rs rp rn s =
    alloc_pages_loop n (2 ^ (12 + order) - 1) (last0 (pre @ as)) (hd0 rest) 0 rs rp rn s \<or> n = 0"
  using assms
proof (induction as arbitrary: pre)
  case (Cons c as)
  have c: "c \<noteq> 0" "ld64 (mem s) c = hd0 (as @ rest)"
    using flist_next[of "mem s" "freelist s" pre c "as @ rest"] Cons.prems(1) by auto
  have "c AND (2 ^ (12 + order) - 1) \<noteq> 0" using Cons.prems(2) mask_aligned[of c "12 + order"] by simp
  then have "alloc_pages_loop n (2 ^ (12 + order) - 1) (last0 pre) (hd0 ((c # as) @ rest)) 0 rs rp rn s =
      alloc_pages_loop n (2 ^ (12 + order) - 1) c (hd0 (as @ rest)) 0 rs rp rn s \<or> n = 0"
    using c by (subst alloc_pages_loop.simps) (simp add: hd0_def Let_def)
  moreover have "last0 (pre @ [c]) = c" by (simp add: last0_def)
  ultimately show ?case using Cons.IH[of "pre @ [c]"] Cons.prems by auto
qed simp

lemma scan_collect:
  assumes "flist (mem s) (freelist s) (pre @ page_run (rs + PAGE_SIZE * of_nat r) k @ rest)"
    "0 < r" "r + k = 2 ^ order" "0 < k" "order < 52"
  shows "fst (the (alloc_pages_loop (2 ^ order) mk (last0 pre)
      (hd0 (page_run (rs + PAGE_SIZE * of_nat r) k @ rest)) (of_nat r) rs rp
      (rs + PAGE_SIZE * of_nat r) s)) = rs"
  using assms
proof (induction k arbitrary: pre r)
  case (Suc k)
  let ?c = "rs + PAGE_SIZE * of_nat r"
  have run: "page_run ?c (Suc k) = ?c # page_run (rs + PAGE_SIZE * of_nat (Suc r)) k"
    by (simp add: page_run_Suc ring_distribs ac_simps)
  have c: "?c \<noteq> 0" "ld64 (mem s) ?c = hd0 (page_run (rs + PAGE_SIZE * of_nat (Suc r)) k @ rest)"
    using flist_next[of "mem s" "freelist s" pre ?c "page_run (rs + PAGE_SIZE * of_nat (Suc r)) k @ rest"]
      Suc.prems(1) unfolding run by auto
  have le: "r \<le> 2 ^ order" "Suc r \<le> 2 ^ order" using Suc.prems by auto
  have p: "(2::nat) ^ order < 2 ^ 64" by (rule power_strict_increasing) (use Suc.prems(5) in auto)
  have nz: "(of_nat r :: u64) \<noteq> 0"
    using le(1) p Suc.prems(2) unat_of_nat[of r, where 'a = 64]
    by (auto simp: take_bit_nat_eq_self unat_eq_zero)
  have dn: "(of_nat r + 1 :: u64) = 2 ^ order \<longleftrightarrow> k = 0"
    using of_nat_pow_eq[OF le(2) Suc.prems(5)] Suc.prems(3) by (auto simp: add.commute)
  have h: "hd0 (page_run ?c (Suc k) @ rest) = ?c" unfolding run by (simp add: hd0_def)
  have unf: "alloc_pages_loop (2 ^ order) mk (last0 pre) ?c (of_nat r) rs rp ?c s =
      (if (of_nat r + 1 :: u64) = 2 ^ order then
         Some (rs, if rp \<noteq> 0 then s\<lparr>mem := st64 (mem s) rp (hd0 (page_run (rs + PAGE_SIZE * of_nat (Suc r)) k @ rest))\<rparr>
           else s\<lparr>freelist := hd0 (page_run (rs + PAGE_SIZE * of_nat (Suc r)) k @ rest)\<rparr>)
       else alloc_pages_loop (2 ^ order) mk ?c (hd0 (page_run (rs + PAGE_SIZE * of_nat (Suc r)) k @ rest))
         (of_nat r + 1) rs rp (?c + PAGE_SIZE) s)"
    using c nz by (subst alloc_pages_loop.simps) (simp add: Let_def)
  show ?case
  proof (cases "k = 0")
    case True
    then show ?thesis unfolding h unf using dn by simp
  next
    case False
    have "flist (mem s) (freelist s) ((pre @ [?c]) @ page_run (rs + PAGE_SIZE * of_nat (Suc r)) k @ rest)"
      using Suc.prems(1) unfolding run by simp
    from Suc.IH[OF this] show ?thesis unfolding h unf
      using dn False Suc.prems by (simp add: last0_def ring_distribs ac_simps)
  qed
qed simp

lemma alloc_pages_first:
  assumes fl: "fl_inv s (as @ page_run p (2 ^ unat order) @ bs)" and o: "order < 52"
    and al: "aligned (12 + unat order) p" "\<forall>q\<in>set as. \<not> aligned (12 + unat order) q"
  shows "\<exists>s'. alloc_pages order s = Some (p, s')"
proof -
  let ?s = "s\<lparr>pa_lock := 1\<rparr>" and ?o = "unat order" and ?n = "2 ^ unat order :: u64"
  let ?mk = "2 ^ (12 + unat order) - 1 :: u64" and ?run = "page_run p (2 ^ unat order)"
  have o': "?o < 52" using o by (simp add: word_less_nat_alt)
  have f: "flist (mem ?s) (freelist ?s) (as @ ?run @ bs)" "pa_lock s = 0"
    using fl by (auto simp: fl_inv_def)
  have nz: "?n \<noteq> 0" using o' by simp
  obtain k where k: "(2::nat) ^ ?o = Suc k" by (metis Suc_pred zero_less_numeral zero_less_power)
  have run: "?run = p # page_run (p + PAGE_SIZE) k" unfolding k by (rule page_run_Suc)
  have c: "p \<noteq> 0" "ld64 (mem s) p = hd0 (page_run (p + PAGE_SIZE) k @ bs)"
    using flist_next[of "mem s" "freelist s" as p "page_run (p + PAGE_SIZE) k @ bs"] f unfolding run by auto
  have one: "?n = 1 \<longleftrightarrow> k = 0"
    using of_nat_pow_eq[of 1 ?o] o' k by (metis One_nat_def Suc_inject of_nat_1 one_le_power one_le_numeral)
  have msk: "p AND ?mk = 0" using al(1) by (simp add: mask_aligned)
  have st: "alloc_pages_loop ?n ?mk (last0 as) p 0 0 0 0 ?s =
      (if 1 = ?n then Some (p, if last0 as \<noteq> 0 then ?s\<lparr>mem := st64 (mem s) (last0 as) (hd0 (page_run (p + PAGE_SIZE) k @ bs))\<rparr>
         else ?s\<lparr>freelist := hd0 (page_run (p + PAGE_SIZE) k @ bs)\<rparr>)
       else alloc_pages_loop ?n ?mk p (hd0 (page_run (p + PAGE_SIZE) k @ bs)) 1 p (last0 as) (p + PAGE_SIZE) ?s)"
    using c msk by (subst alloc_pages_loop.simps) (simp add: Let_def)
  have "fst (the (alloc_pages_loop ?n ?mk (last0 as) p 0 0 0 0 ?s)) = p"
  proof (cases "k = 0")
    case True
    then show ?thesis unfolding st using one by simp
  next
    case False
    have "flist (mem ?s) (freelist ?s) ((as @ [p]) @ page_run (p + PAGE_SIZE * of_nat 1) k @ bs)"
      using f(1) unfolding run by simp
    from scan_collect[OF this _ _ _ o'] show ?thesis unfolding st using one False k by (simp add: last0_def)
  qed
  then have fst: "fst (the (alloc_pages_loop ?n ?mk 0 (freelist s) 0 0 0 0 ?s)) = p"
    using scan_skip[of ?s "[]" as "?run @ bs" ?o ?n 0 0 0] f(1) al(2) nz flist_hd0[OF f(1)]
    unfolding run by (simp add: last0_def hd0_def)
  have msk: "push_bit 12 (push_bit ?o 1) - 1 = ?mk" by (simp add: push_bit_eq_mult power_add)
  obtain q s' where q: "alloc_pages order s = Some (q, s')" using alloc_pages_run[OF fl o] by blast
  have "order < 8 * 8" using o by (simp add: word_less_nat_alt)
  then have "q = p" using q fst f(2) msk
    by (auto simp: alloc_pages_def pa_spin_lock_def Let_def split: bind_splits)
  then show ?thesis using q by blast
qed

section \<open>Properties\<close>



text \<open>C16: \<^verbatim>\<open>free_pages\<close> on an aligned block of at least one page that does not overlap the list and does
  not wrap around: it returns, the pages of the block are put in front of the list in ascending
  order, and no memory but the first words of those pages has changed.\<close>

theorem free_pages_correct:
  assumes "fl_inv s ps" "aligned 12 pg" "0 < n" "n * 4096 < 2 ^ 64" "unat pg + n * 4096 \<le> 2 ^ 64"
    "pg \<noteq> 0" "set (page_run pg n) \<inter> set ps = {}"
  shows "\<exists>s'. free_pages pg (PAGE_SIZE * of_nat n) s = Some s' \<and> fl_inv s' (page_run pg n @ ps) \<and>
    (\<forall>q. aligned 3 q \<longrightarrow> q \<notin> set (page_run pg n) \<longrightarrow> ld64 (mem s') q = ld64 (mem s) q)"
  using assms by (rule free_pages_run)

theorem free_pages_correct_witness:
  "\<exists>s'. free_pages 0x200000 0x2000 (give 1 pa0) = Some s' \<and> fl_inv s' [0x200000, 0x201000, 0x100000]"
proof -
  have v: "freelist pa0 = 0" "pa_lock pa0 = 0" by (simp_all add: pa0_def)
  have i: "fl_inv (give 1 pa0) [0x100000]" using give_free(1)[OF v, of 1] by (simp add: page_run_def)
  have al: "aligned 12 0x200000" by (simp add: aligned_iff_mod)
  have r2: "page_run 0x200000 2 = [0x200000, 0x201000]" by (simp add: page_run_def upt_rec)
  show ?thesis using free_pages_correct[OF i al, of 2] unfolding r2 by auto
qed

text \<open>A page given back by \<^verbatim>\<open>free_page\<close> is the one the next \<^verbatim>\<open>alloc_page\<close> returns, and the free list
  is then the one before.\<close>

theorem free_alloc_page_lifo:
  assumes "fl_inv s ps" "aligned 12 p" "p \<noteq> 0" "p \<notin> set ps"
  shows "\<exists>s1 s2. free_page p s = Some s1 \<and> fl_inv s1 (p # ps) \<and> alloc_page s1 = Some (p, s2) \<and>
    fl_inv s2 ps \<and> freelist s2 = freelist s"
proof -
  obtain s1 where s1: "free_page p s = Some s1" "fl_inv s1 (p # ps)" "mem s1 = st64 (mem s) p (freelist s)"
    using free_page_Cons[OF assms] by blast
  then show ?thesis using alloc_page_Cons[OF s1(2)] by auto
qed

theorem free_alloc_page_lifo_witness:
  "\<exists>s1 s2. free_page 0x5000 (give 1 pa0) = Some s1 \<and> alloc_page s1 = Some (0x5000, s2) \<and> fl_inv s2 [0x100000]"
proof -
  have v: "freelist pa0 = 0" "pa_lock pa0 = 0" by (simp_all add: pa0_def)
  have i: "fl_inv (give 1 pa0) [0x100000]" using give_free(1)[OF v, of 1] by (simp add: page_run_def)
  show ?thesis using free_alloc_page_lifo[OF i, of "0x5000"] by (auto simp: aligned_iff_mod)
qed

text \<open>A block of size 0 (page aligned) given to \<^verbatim>\<open>free_pages\<close> empties the whole free list: the pages
  that were free are lost.\<close>

theorem free_pages_empty_block:
  assumes "fl_inv s ps" "aligned 12 pg"
  shows "\<exists>s'. free_pages pg 0 s = Some s' \<and> fl_inv s' [] \<and> alloc_page s' = Some (0, s')"
proof -
  have "pg mod PAGE_SIZE = 0"
    using assms(2) unat_mod[of pg PAGE_SIZE] by (simp add: aligned_iff_mod word_unat_eq_iff)
  then show ?thesis using assms(1) alloc_page_Nil[of "s\<lparr>freelist := 0\<rparr>"]
    by (simp add: free_pages_zero fl_inv_def)
qed

theorem free_pages_empty_block_witness:
  "\<exists>s'. free_pages 0x5000 0 (give 1 pa0) = Some s' \<and> alloc_page s' = Some (0, s')"
proof -
  have v: "freelist pa0 = 0" "pa_lock pa0 = 0" by (simp_all add: pa0_def)
  have i: "fl_inv (give 1 pa0) [0x100000]" using give_free(1)[OF v, of 1] by (simp add: page_run_def)
  show ?thesis using free_pages_empty_block[OF i, of "0x5000"] by (auto simp: aligned_iff_mod)
qed

end
