(* ===== verification/Vmx.thy ===== *)
theory Vmx
  imports Ept
begin

text \<open>
  \<^verbatim>\<open>x86/vmx.c\<close>: switching VMX on, filling the VMCS, and the loop that enters the guest and handles
  its exits. What is not code of this program is gathered in an environment: the answers of the
  hardware, \<^verbatim>\<open>cpuid\<close>, the run of the guest between an entry and the exit that ends it, symbols
  of the linker and of assembly files, and the registers of the caller.
\<close>

section \<open>Environment\<close>

text \<open>One execution of \<^verbatim>\<open>vmlaunch\<close> or \<^verbatim>\<open>vmresume\<close>: the instruction fails and leaves \<^verbatim>\<open>rflags\<close>, or
  control comes back at \<^verbatim>\<open>vmx_return\<close> with the guest's registers and a new state.\<close>

datatype 's vm_outcome = VmFail u64 | VmExit regs 's

record 's vmx_env =
  e_hw :: hw
  e_cpuid :: cpuid_insn
  e_enter :: "bool \<Rightarrow> regs \<Rightarrow> 's \<Rightarrow> 's vm_outcome option"
  e_host_gpr :: regs
  e_host_rsp :: u64
  gdt64_desc :: descriptor_table_ptr
  idt_descr :: descriptor_table_ptr
  tss_descr :: descriptor_table_ptr
  vmx_return :: u64
  entry_sysenter :: u64
  guest_entry :: u64

record vmentry_failure =
  vf_vmlaunch :: bool
  vf_instr :: string
  vf_early :: bool
  vf_flags :: u64

text \<open>\<^verbatim>\<open>struct asor_guest\<close>: the callbacks the host side uses. A callback that is NULL is \<open>None\<close>;
  calling \<^verbatim>\<open>exit_handler\<close> through NULL is not survived.\<close>

record 's asor_guest =
  g_name :: "string option"
  g_exit_handler :: "('s \<Rightarrow> (u32 \<times> 's) option) option"
  g_entry_failure_handler :: "(vmentry_failure \<Rightarrow> 's \<Rightarrow> (u32 \<times> 's) option) option"

section \<open>Constants\<close>

definition MSR_EFER :: u32 where [c_defs]: "MSR_EFER = 0xc0000080"
definition MSR_IA32_FEATURE_CONTROL :: u32 where [c_defs]: "MSR_IA32_FEATURE_CONTROL = 0x3a"
definition MSR_IA32_VMX_BASIC :: u32 where [c_defs]: "MSR_IA32_VMX_BASIC = 0x480"
definition MSR_IA32_VMX_PINBASED_CTLS :: u32 where [c_defs]: "MSR_IA32_VMX_PINBASED_CTLS = 0x481"
definition MSR_IA32_VMX_PROCBASED_CTLS :: u32 where [c_defs]: "MSR_IA32_VMX_PROCBASED_CTLS = 0x482"
definition MSR_IA32_VMX_EXIT_CTLS :: u32 where [c_defs]: "MSR_IA32_VMX_EXIT_CTLS = 0x483"
definition MSR_IA32_VMX_ENTRY_CTLS :: u32 where [c_defs]: "MSR_IA32_VMX_ENTRY_CTLS = 0x484"
definition MSR_IA32_VMX_CR0_FIXED0 :: u32 where [c_defs]: "MSR_IA32_VMX_CR0_FIXED0 = 0x486"
definition MSR_IA32_VMX_CR0_FIXED1 :: u32 where [c_defs]: "MSR_IA32_VMX_CR0_FIXED1 = 0x487"
definition MSR_IA32_VMX_CR4_FIXED0 :: u32 where [c_defs]: "MSR_IA32_VMX_CR4_FIXED0 = 0x488"
definition MSR_IA32_VMX_CR4_FIXED1 :: u32 where [c_defs]: "MSR_IA32_VMX_CR4_FIXED1 = 0x489"
definition MSR_IA32_VMX_PROCBASED_CTLS2 :: u32 where [c_defs]: "MSR_IA32_VMX_PROCBASED_CTLS2 = 0x48b"
definition MSR_IA32_VMX_EPT_VPID_CAP :: u32 where [c_defs]: "MSR_IA32_VMX_EPT_VPID_CAP = 0x48c"
definition MSR_IA32_VMX_TRUE_PIN :: u32 where [c_defs]: "MSR_IA32_VMX_TRUE_PIN = 0x48d"
definition MSR_IA32_VMX_TRUE_PROC :: u32 where [c_defs]: "MSR_IA32_VMX_TRUE_PROC = 0x48e"
definition MSR_IA32_VMX_TRUE_EXIT :: u32 where [c_defs]: "MSR_IA32_VMX_TRUE_EXIT = 0x48f"
definition MSR_IA32_VMX_TRUE_ENTRY :: u32 where [c_defs]: "MSR_IA32_VMX_TRUE_ENTRY = 0x490"
definition KERNEL_CS :: u64 where [c_defs]: "KERNEL_CS = 0x08"
definition KERNEL_DS :: u64 where [c_defs]: "KERNEL_DS = 0x10"
definition TSS_MAIN :: u64 where [c_defs]: "TSS_MAIN = 0x80"
definition X86_EFLAGS_CF :: u64 where [c_defs]: "X86_EFLAGS_CF = 0x1"
definition X86_EFLAGS_PF :: u64 where [c_defs]: "X86_EFLAGS_PF = 0x4"
definition X86_EFLAGS_AF :: u64 where [c_defs]: "X86_EFLAGS_AF = 0x10"
definition X86_EFLAGS_ZF :: u64 where [c_defs]: "X86_EFLAGS_ZF = 0x40"
definition X86_EFLAGS_SF :: u64 where [c_defs]: "X86_EFLAGS_SF = 0x80"
definition X86_EFLAGS_OF :: u64 where [c_defs]: "X86_EFLAGS_OF = 0x800"

definition VMX_ENTRY_FLAGS :: u64 where [c_defs]:
  "VMX_ENTRY_FLAGS = X86_EFLAGS_CF OR X86_EFLAGS_PF OR X86_EFLAGS_AF OR X86_EFLAGS_ZF OR
     X86_EFLAGS_SF OR X86_EFLAGS_OF"

section \<open>VMX instructions\<close>

text \<open>\<^verbatim>\<open>setbe\<close> after the instruction: the answer is the value of CF or ZF.\<close>

definition vmx_insn :: "hw \<Rightarrow> string \<Rightarrow> u64 \<Rightarrow> 'a cpu_state_scheme \<Rightarrow> bool \<times> 'a cpu_state_scheme" where
  "vmx_insn hw nm operand s = map_prod (\<lambda>v. v \<noteq> 0) id (hw_read hw (VmxInsn nm operand) s)"

definition vmx_on :: "hw \<Rightarrow> 'a vmx_state_scheme \<Rightarrow> bool \<times> 'a vmx_state_scheme" where
  "vmx_on hw s = vmx_insn hw ''vmxon'' (vmxon_region s) s"

definition vmx_off :: "hw \<Rightarrow> 'a vmx_state_scheme \<Rightarrow> bool \<times> 'a vmx_state_scheme" where
  "vmx_off hw s = vmx_insn hw ''vmxoff'' 0 s"

definition make_vmcs_current :: "hw \<Rightarrow> u64 \<Rightarrow> 'a vmx_state_scheme \<Rightarrow> bool \<times> 'a vmx_state_scheme" where
  "make_vmcs_current hw vmcs s = vmx_insn hw ''vmptrld'' vmcs s"

definition vmcs_clear :: "hw \<Rightarrow> u64 \<Rightarrow> 'a vmx_state_scheme \<Rightarrow> bool \<times> 'a vmx_state_scheme" where
  "vmcs_clear hw vmcs s = vmx_insn hw ''vmclear'' vmcs s"

definition vmcs_set_bits :: "u64 \<Rightarrow> u64 \<Rightarrow> 'a vmx_state_scheme \<Rightarrow> 'a vmx_state_scheme" where
  "vmcs_set_bits enc val s = vmcs_write enc (vmcs_read enc s OR val) s"

definition vmcs_clear_bits :: "u64 \<Rightarrow> u64 \<Rightarrow> 'a vmx_state_scheme \<Rightarrow> 'a vmx_state_scheme" where
  "vmcs_clear_bits enc val s = vmcs_write enc (vmcs_read enc s AND NOT val) s"

section \<open>Is VMX there\<close>

definition is_vmx_supported :: "'s vmx_env \<Rightarrow> 'a vmx_state_scheme \<Rightarrow> bool \<times> 'a vmx_state_scheme" where
  "is_vmx_supported e s =
     (if cpuid_c (cpuid_leaf (e_cpuid e) 1) AND push_bit 5 1 = 0 then
        (False, kprintf (''Error: vmx not supported.'' @ NL) [] s)
      else
        let (ia32_feature_control, s) = rdmsr (e_hw e) MSR_IA32_FEATURE_CONTROL s
        in if ia32_feature_control AND 0x5 = 0x5 then
             (True, kprintf (''VMX enabled and locked by BIOS'' @ NL) [] s)
           else if ia32_feature_control AND 0x1 \<noteq> 0 then
             (False, kprintf (''ERROR: VMX locked out by BIOS without enabled.'' @ NL) [] s)
           else (True, wrmsr MSR_IA32_FEATURE_CONTROL 0x5 s))"

section \<open>Filling the VMCS\<close>

definition init_vmcs_ctrl :: "'a vmx_state_scheme \<Rightarrow> 'a vmx_state_scheme" where
  "init_vmcs_ctrl s =
     (let s = vmcs_write PIN_CONTROLS (ucast (ctrl_pin s)) s;
          s = vmcs_write CPU_EXEC_CTRL0 (ucast (ctrl_cpu0 s)) s;
          s = (if msr_set (ctrl_cpu_rev0 s) AND CPU_SECONDARY \<noteq> 0 then
                 let s = s\<lparr>ctrl_cpu1 := (ctrl_cpu1 s OR msr_set (ctrl_cpu_rev1 s)) AND msr_clr (ctrl_cpu_rev1 s)\<rparr>
                 in vmcs_write CPU_EXEC_CTRL1 (ucast (ctrl_cpu1 s)) s
               else s);
          s = vmcs_write CR3_TARGET_COUNT 0 s;
          s = s\<lparr>vpid_cnt := vpid_cnt s + 1\<rparr>
      in vmcs_write VPID (ucast (vpid_cnt s)) s)"

text \<open>A sequence of \<^verbatim>\<open>vmcs_write\<close> calls, in order.\<close>

fun vmcs_writes :: "(u64 \<times> u64) list \<Rightarrow> 'a vmx_state_scheme \<Rightarrow> 'a vmx_state_scheme" where
  "vmcs_writes [] s = s"
| "vmcs_writes ((enc, v) # ws) s = vmcs_writes ws (vmcs_write enc v s)"

definition host_fields :: "'s vmx_env \<Rightarrow> 'a vmx_state_scheme \<Rightarrow> (u64 \<times> u64) list" where
  "host_fields e s =
    [(ENT_CONTROLS, ucast (ctrl_enter s)), (EXI_CONTROLS, ucast (ctrl_exit s)),
     (HOST_CR0, read_cr0 s), (HOST_CR3, read_cr3 s), (HOST_CR4, read_cr4 s),
     (HOST_SYSENTER_EIP, entry_sysenter e), (HOST_SYSENTER_CS, KERNEL_CS),
     (HOST_SEL_CS, KERNEL_CS), (HOST_SEL_SS, KERNEL_DS), (HOST_SEL_DS, KERNEL_DS),
     (HOST_SEL_ES, KERNEL_DS), (HOST_SEL_FS, KERNEL_DS), (HOST_SEL_GS, KERNEL_DS),
     (HOST_SEL_TR, TSS_MAIN), (HOST_BASE_TR, dt_base (tss_descr e)),
     (HOST_BASE_GDTR, dt_base (gdt64_desc e)), (HOST_BASE_IDTR, dt_base (idt_descr e)),
     (HOST_BASE_FS, 0), (HOST_BASE_GS, 0),
     (PF_ERROR_MASK, 0), (PF_ERROR_MATCH, 0),
     (VMCS_LINK_PTR, NOT 0), (VMCS_LINK_PTR_HI, NOT 0),
     (HOST_RIP, vmx_return e)]"

definition init_vmcs_host :: "'s vmx_env \<Rightarrow> 'a vmx_state_scheme \<Rightarrow> 'a vmx_state_scheme" where
  "init_vmcs_host e s =
     (let (efer, s) = rdmsr (e_hw e) MSR_EFER s;
          s = vmcs_write HOST_EFER efer s
      in vmcs_writes (host_fields e s) s)"

definition guest_cr0_val :: "'a vmx_state_scheme \<Rightarrow> u64" where
  "guest_cr0_val s =
     (let c = read_cr0 s;
          c = (if ctrl_enter s AND ENT_GUEST_64 \<noteq> 0 then c OR X86_CR0_PG else c)
      in if c AND X86_CR0_PG \<noteq> 0 then c OR X86_CR0_PE else c)"

definition guest_cr4_val :: "'a vmx_state_scheme \<Rightarrow> u64" where
  "guest_cr4_val s =
     (let c = read_cr4 s;
          c = (if ctrl_enter s AND ENT_GUEST_64 \<noteq> 0 then c OR X86_CR4_PAE else c)
      in if ctrl_enter s AND ENT_GUEST_64 = 0 then c AND NOT X86_CR4_PCIDE else c)"

definition guest_cr_fields :: "'s vmx_env \<Rightarrow> 'a vmx_state_scheme \<Rightarrow> (u64 \<times> u64) list" where
  "guest_cr_fields e s =
    [(GUEST_CR0, guest_cr0_val s), (GUEST_CR3, read_cr3 s), (GUEST_CR4, guest_cr4_val s),
     (GUEST_SYSENTER_CS, KERNEL_CS), (GUEST_SYSENTER_ESP, guest_syscall_stack s + PAGE_SIZE - 1),
     (GUEST_SYSENTER_EIP, entry_sysenter e), (GUEST_DR7, 0)]"

definition guest_fields :: "'s vmx_env \<Rightarrow> 'a vmx_state_scheme \<Rightarrow> (u64 \<times> u64) list" where
  "guest_fields e s =
    [(GUEST_SEL_CS, KERNEL_CS), (GUEST_SEL_SS, KERNEL_DS), (GUEST_SEL_DS, KERNEL_DS),
     (GUEST_SEL_ES, KERNEL_DS), (GUEST_SEL_FS, KERNEL_DS), (GUEST_SEL_GS, KERNEL_DS),
     (GUEST_SEL_TR, TSS_MAIN), (GUEST_SEL_LDTR, 0),
     (GUEST_BASE_CS, 0), (GUEST_BASE_ES, 0), (GUEST_BASE_SS, 0), (GUEST_BASE_DS, 0),
     (GUEST_BASE_FS, 0), (GUEST_BASE_GS, 0), (GUEST_BASE_TR, dt_base (tss_descr e)),
     (GUEST_BASE_LDTR, 0),
     (GUEST_LIMIT_CS, 0xFFFFFFFF), (GUEST_LIMIT_DS, 0xFFFFFFFF), (GUEST_LIMIT_ES, 0xFFFFFFFF),
     (GUEST_LIMIT_SS, 0xFFFFFFFF), (GUEST_LIMIT_FS, 0xFFFFFFFF), (GUEST_LIMIT_GS, 0xFFFFFFFF),
     (GUEST_LIMIT_LDTR, 0xffff), (GUEST_LIMIT_TR, ucast (dt_limit (tss_descr e))),
     (GUEST_AR_CS, 0xa09b), (GUEST_AR_DS, 0xc093), (GUEST_AR_ES, 0xc093), (GUEST_AR_FS, 0xc093),
     (GUEST_AR_GS, 0xc093), (GUEST_AR_SS, 0xc093), (GUEST_AR_LDTR, 0x82), (GUEST_AR_TR, 0x8b),
     (GUEST_BASE_GDTR, dt_base (gdt64_desc e)), (GUEST_BASE_IDTR, dt_base (idt_descr e)),
     (GUEST_LIMIT_GDTR, ucast (dt_limit (gdt64_desc e))),
     (GUEST_LIMIT_IDTR, ucast (dt_limit (idt_descr e))),
     (GUEST_RIP, guest_entry e), (GUEST_RSP, guest_stack s + PAGE_SIZE - 1), (GUEST_RFLAGS, 0x2),
     (GUEST_ACTV_STATE, ACTV_ACTIVE), (GUEST_INTR_STATE, 0)]"

definition init_vmcs_guest :: "'s vmx_env \<Rightarrow> 'a vmx_state_scheme \<Rightarrow> 'a vmx_state_scheme" where
  "init_vmcs_guest e s =
     (let s = vmcs_writes (guest_cr_fields e s) s;
          (efer, s) = rdmsr (e_hw e) MSR_EFER s;
          s = vmcs_write GUEST_EFER efer s
      in vmcs_writes (guest_fields e s) s)"

text \<open>The control words of \<^verbatim>\<open>init_vmcs\<close>: what the hypervisor asks for, adjusted to what the processor
  requires and allows.\<close>

definition adjust_ctrl :: "u32 \<Rightarrow> u64 \<Rightarrow> u32" where
  "adjust_ctrl c cap = (c OR msr_set cap) AND msr_clr cap"

definition init_ctrl_words :: "'a vmx_state_scheme \<Rightarrow> 'a vmx_state_scheme" where
  "init_ctrl_words s =
     (let s = s\<lparr>ctrl_pin := ctrl_pin s OR (PIN_EXTINT OR PIN_NMI OR PIN_VIRT_NMI)\<rparr>;
          s = s\<lparr>ctrl_exit := EXI_LOAD_EFER OR EXI_HOST_64\<rparr>;
          s = s\<lparr>ctrl_enter := ENT_LOAD_EFER OR ENT_GUEST_64\<rparr>;
          s = s\<lparr>ctrl_cpu0 := ctrl_cpu0 s AND NOT (CPU_IO OR CPU_IO_BITMAP)\<rparr>;
          s = s\<lparr>ctrl_cpu1 := 0\<rparr>;
          s = s\<lparr>ctrl_pin := adjust_ctrl (ctrl_pin s) (ctrl_pin_rev s)\<rparr>;
          s = s\<lparr>ctrl_enter := adjust_ctrl (ctrl_enter s) (ctrl_enter_rev s)\<rparr>;
          s = s\<lparr>ctrl_exit := adjust_ctrl (ctrl_exit s) (ctrl_exit_rev s)\<rparr>
      in s\<lparr>ctrl_cpu0 := adjust_ctrl (ctrl_cpu0 s) (ctrl_cpu_rev0 s)\<rparr>)"

text \<open>\<^verbatim>\<open>init_vmcs\<close>: the revision identifier has 31 bits, the bit above stays 0 after \<^verbatim>\<open>memset\<close>.\<close>

definition init_vmcs :: "'s vmx_env \<Rightarrow> 'a vmx_state_scheme \<Rightarrow> (u32 \<times> 'a vmx_state_scheme) option" where
  "init_vmcs e s = do {
     (p, s) \<leftarrow> alloc_page s;
     let s = s\<lparr>guest_vmcs := p\<rparr>;
     let s = s\<lparr>mem := memset p 0 PAGE_SIZE (mem s)\<rparr>;
     let s = s\<lparr>mem := st32 (mem s) p (basic_revision (basic s) AND 0x7fffffff)\<rparr>;
     let (err, s) = vmcs_clear (e_hw e) p s;
     if err then Some (1, kprintf (''%s : vmcs_clear error'' @ NL) [PStr ''init_vmcs''] s)
     else do {
       let (err, s) = make_vmcs_current (e_hw e) p s;
       if err then Some (1, kprintf (''%s : make_vmcs_current error'' @ NL) [PStr ''init_vmcs''] s)
       else Some (0, init_vmcs_guest e (init_vmcs_host e (init_vmcs_ctrl (init_ctrl_words s))))
     }
   }"

section \<open>Switching VMX on\<close>

definition init_vmx_caps :: "hw \<Rightarrow> 'a vmx_state_scheme \<Rightarrow> 'a vmx_state_scheme" where
  "init_vmx_caps hw s =
     (let (v, s) = rdmsr hw MSR_IA32_VMX_BASIC s;
          s = s\<lparr>basic := v\<rparr>;
          (v, s) = rdmsr hw (if basic_ctrl (basic s) then MSR_IA32_VMX_TRUE_PIN else MSR_IA32_VMX_PINBASED_CTLS) s;
          s = s\<lparr>ctrl_pin_rev := v\<rparr>;
          (v, s) = rdmsr hw (if basic_ctrl (basic s) then MSR_IA32_VMX_TRUE_EXIT else MSR_IA32_VMX_EXIT_CTLS) s;
          s = s\<lparr>ctrl_exit_rev := v\<rparr>;
          (v, s) = rdmsr hw (if basic_ctrl (basic s) then MSR_IA32_VMX_TRUE_ENTRY else MSR_IA32_VMX_ENTRY_CTLS) s;
          s = s\<lparr>ctrl_enter_rev := v\<rparr>;
          (v, s) = rdmsr hw (if basic_ctrl (basic s) then MSR_IA32_VMX_TRUE_PROC else MSR_IA32_VMX_PROCBASED_CTLS) s;
          s = s\<lparr>ctrl_cpu_rev0 := v\<rparr>;
          (v, s) = (if msr_clr (ctrl_cpu_rev0 s) AND CPU_SECONDARY \<noteq> 0
                    then rdmsr hw MSR_IA32_VMX_PROCBASED_CTLS2 s else (0, s));
          s = s\<lparr>ctrl_cpu_rev1 := v\<rparr>;
          (v, s) = (if msr_clr (ctrl_cpu_rev1 s) AND (CPU_EPT OR CPU_VPID) \<noteq> 0
                    then rdmsr hw MSR_IA32_VMX_EPT_VPID_CAP s else (0, s))
      in s\<lparr>ept_vpid := v\<rparr>)"

definition init_vmx :: "hw \<Rightarrow> 'a vmx_state_scheme \<Rightarrow> 'a vmx_state_scheme option" where
  "init_vmx hw s = do {
     (p, s) \<leftarrow> alloc_page s;
     let s = s\<lparr>vmxon_region := p\<rparr>;
     let s = s\<lparr>mem := memset p 0 PAGE_SIZE (mem s)\<rparr>;
     let (fix_cr0_set, s) = rdmsr hw MSR_IA32_VMX_CR0_FIXED0 s;
     let (fix_cr0_clr, s) = rdmsr hw MSR_IA32_VMX_CR0_FIXED1 s;
     let (fix_cr4_set, s) = rdmsr hw MSR_IA32_VMX_CR4_FIXED0 s;
     let (fix_cr4_clr, s) = rdmsr hw MSR_IA32_VMX_CR4_FIXED1 s;
     let s = init_vmx_caps hw s;
     let s = write_cr0 ((read_cr0 s AND fix_cr0_clr) OR fix_cr0_set) s;
     let s = write_cr4 ((read_cr4 s AND fix_cr4_clr) OR fix_cr4_set OR X86_CR4_VMXE) s;
     let s = s\<lparr>mem := st64 (mem s) (vmxon_region s) (ucast (basic_revision (basic s)))\<rparr>;
     (p, s) \<leftarrow> alloc_page s;
     let s = s\<lparr>guest_stack := p\<rparr>;
     let s = s\<lparr>mem := memset p 0 PAGE_SIZE (mem s)\<rparr>;
     (p, s) \<leftarrow> alloc_page s;
     let s = s\<lparr>guest_syscall_stack := p\<rparr>;
     Some (s\<lparr>mem := memset p 0 PAGE_SIZE (mem s)\<rparr>)
   }"

section \<open>Hypercalls\<close>

definition hypercall :: "u32 \<Rightarrow> 'a vmx_state_scheme \<Rightarrow> 'a vmx_state_scheme" where
  "hypercall hypercall_no s =
     (let v = (ucast hypercall_no AND HYPERCALL_MASK) OR HYPERCALL_BIT
      in hw_write (VmxInsn ''vmcall'' 0) (s\<lparr>hypercall_field := v\<rparr>))"

definition is_hypercall :: "'a vmx_state_scheme \<Rightarrow> bool" where
  "is_hypercall s =
     (let reason = vmcs_read EXI_REASON s AND 0xff;
          hyper_bit = hypercall_field s AND HYPERCALL_BIT
      in reason = VMX_VMCALL \<and> hyper_bit \<noteq> 0)"

definition handle_hypercall :: "'a vmx_state_scheme \<Rightarrow> u32 \<times> 'a vmx_state_scheme" where
  "handle_hypercall s =
     (let hypercall_no = hypercall_field s AND HYPERCALL_MASK;
          s = s\<lparr>hypercall_field := 0\<rparr>
      in if hypercall_no = HYPERCALL_VMEXIT then (VMX_VMEXIT, s)
         else if hypercall_no = HYPERCALL_VMABORT then (VMX_VMABORT, s)
         else if hypercall_no = HYPERCALL_VMSKIP then (VMX_VMSKIP, s)
         else (VMX_EXIT, kprintf (''ERROR : Invalid hypercall number : %ld'' @ NL) [PNum hypercall_no] s))"

section \<open>Handlers\<close>

text \<open>\<^verbatim>\<open>current\<close> is NULL or an index into the array of guests; results are \<^verbatim>\<open>int\<close>s read as \<^verbatim>\<open>u32\<close>.
  \<^verbatim>\<open>exits\<close> is a field of the guest; only the first guest is ever current.\<close>

definition exit_handler ::
  "'a vmx_state_scheme asor_guest list \<Rightarrow> 'a vmx_state_scheme \<Rightarrow> (u32 \<times> 'a vmx_state_scheme) option" where
  "exit_handler guests s =
     (case current_guest s of
        None \<Rightarrow> Some (- 1, kprintf (''Error: current vm is NULL.'' @ NL) [] s)
      | Some i \<Rightarrow> do {
          let s = s\<lparr>guest_exits := guest_exits s + 1\<rparr>;
          let s = s\<lparr>vregs := (vregs s)\<lparr>rflags := vmcs_read GUEST_RFLAGS s\<rparr>\<rparr>;
          (ret, s) \<leftarrow> (if is_hypercall s then Some (handle_hypercall s)
                      else Option.bind (g_exit_handler (guests ! i)) (\<lambda>h. h s));
          Some (ret, vmcs_write GUEST_RFLAGS (rflags (vregs s)) s)
        })"

definition entry_failure_handler ::
  "'a vmx_state_scheme asor_guest list \<Rightarrow> vmentry_failure \<Rightarrow> 'a vmx_state_scheme \<Rightarrow>
     (u32 \<times> 'a vmx_state_scheme) option" where
  "entry_failure_handler guests failure s =
     (case current_guest s of
        None \<Rightarrow> Some (- 1, kprintf (''Error: current vm is NULL.'' @ NL) [] s)
      | Some i \<Rightarrow> (case g_entry_failure_handler (guests ! i) of
            Some h \<Rightarrow> h failure s
          | None \<Rightarrow> Some (VMX_EXIT, s)))"

section \<open>Saving and loading registers\<close>

text \<open>The memory of \<^verbatim>\<open>struct regs regs\<close> by offset, fields in the order of the declaration.\<close>

definition regs_ld :: "regs \<Rightarrow> nat \<Rightarrow> u64" where
  "regs_ld r off = [rax r, rcx r, rdx r, rbx r, rcr2 r, rbp r, rsi r, rdi r, r8 r, r9 r, r10 r, r11 r,
     r12 r, r13 r, r14 r, r15 r, rflags r] ! (off div 8)"

definition regs_st :: "regs \<Rightarrow> nat \<Rightarrow> u64 \<Rightarrow> regs" where
  "regs_st r off v =
     [r\<lparr>rax := v\<rparr>, r\<lparr>rcx := v\<rparr>, r\<lparr>rdx := v\<rparr>, r\<lparr>rbx := v\<rparr>, r\<lparr>rcr2 := v\<rparr>, r\<lparr>rbp := v\<rparr>,
      r\<lparr>rsi := v\<rparr>, r\<lparr>rdi := v\<rparr>, r\<lparr>r8 := v\<rparr>, r\<lparr>r9 := v\<rparr>, r\<lparr>r10 := v\<rparr>, r\<lparr>r11 := v\<rparr>,
      r\<lparr>r12 := v\<rparr>, r\<lparr>r13 := v\<rparr>, r\<lparr>r14 := v\<rparr>, r\<lparr>r15 := v\<rparr>, r\<lparr>rflags := v\<rparr>] ! (off div 8)"

text \<open>\<^verbatim>\<open>xchg %reg, regs+off\<close> on the pair of the processor's registers and the save area.\<close>

definition xchg_reg ::
  "(regs \<Rightarrow> u64) \<Rightarrow> ((u64 \<Rightarrow> u64) \<Rightarrow> regs \<Rightarrow> regs) \<Rightarrow> nat \<Rightarrow> regs \<times> regs \<Rightarrow> regs \<times> regs" where
  "xchg_reg reg upd off c = (case c of (cpu, area) \<Rightarrow> (upd (\<lambda>_. regs_ld area off) cpu, regs_st area off (reg cpu)))"

definition SAVE_GPR :: "regs \<times> regs \<Rightarrow> regs \<times> regs" where
  "SAVE_GPR c =
     (let c = xchg_reg rax rax_update 0x0 c;
          c = xchg_reg rbx rbx_update 0x8 c;
          c = xchg_reg rcx rcx_update 0x10 c;
          c = xchg_reg rdx rdx_update 0x18 c;
          c = xchg_reg rbp rbp_update 0x28 c;
          c = xchg_reg rsi rsi_update 0x30 c;
          c = xchg_reg rdi rdi_update 0x38 c;
          c = xchg_reg r8 r8_update 0x40 c;
          c = xchg_reg r9 r9_update 0x48 c;
          c = xchg_reg r10 r10_update 0x50 c;
          c = xchg_reg r11 r11_update 0x58 c;
          c = xchg_reg r12 r12_update 0x60 c;
          c = xchg_reg r13 r13_update 0x68 c;
          c = xchg_reg r14 r14_update 0x70 c
      in xchg_reg r15 r15_update 0x78 c)"

definition LOAD_GPR :: "regs \<times> regs \<Rightarrow> regs \<times> regs" where
  "LOAD_GPR c = SAVE_GPR c"

section \<open>Entering the guest\<close>

definition vmx_enter_guest ::
  "'a vmx_state_scheme vmx_env \<Rightarrow> 'a vmx_state_scheme \<Rightarrow>
     (bool \<times> vmentry_failure \<times> 'a vmx_state_scheme) option" where
  "vmx_enter_guest e s = do {
     let s = s\<lparr>in_guest := True\<rparr>;
     let s = vmcs_write HOST_RSP (e_host_rsp e) s;
     let (gpr, area) = LOAD_GPR ((e_host_gpr e)\<lparr>rdi := HOST_RSP\<rparr>, vregs s);
     let s = s\<lparr>vregs := area\<rparr>;
     outcome \<leftarrow> e_enter e (launched s) gpr s;
     let (early, flags, gpr, s) = (case outcome of
           VmFail fl \<Rightarrow> (True, fl, gpr, s)
         | VmExit gpr' s' \<Rightarrow> (False, 0, gpr', s'));
     let (gpr, area) = SAVE_GPR (gpr, vregs s);
     let s = s\<lparr>vregs := area\<rparr>;
     let s = s\<lparr>in_guest := False\<rparr>;
     let failure = \<lparr>vf_vmlaunch = (\<not> launched s),
                    vf_instr = (if launched s then ''vmresume'' else ''vmlaunch''),
                    vf_early = early, vf_flags = flags\<rparr>;
     Some (\<not> early \<and> vmcs_read EXI_REASON s AND VMX_ENTRY_FAILURE = 0, failure, s)
   }"

section \<open>Diagnostics\<close>

definition print_vmexit_info :: "'a vmx_state_scheme \<Rightarrow> 'a vmx_state_scheme" where
  "print_vmexit_info s =
     (let reason = vmcs_read EXI_REASON s AND 0xff;
          exit_qual = vmcs_read EXI_QUALIFICATION s;
          guest_rip = vmcs_read GUEST_RIP s;
          guest_rsp = vmcs_read GUEST_RSP s;
          r = vregs s;
          s = kprintf (''VMEXIT info:'' @ NL) [] s;
          s = kprintf (TAB @ ''vmexit reason = %ld'' @ NL) [PNum reason] s;
          s = kprintf (TAB @ ''exit qualification = %#lx'' @ NL) [PNum exit_qual] s;
          s = kprintf (TAB @ ''Bit 31 of reason = %lx'' @ NL) [PNum (drop_bit 31 (vmcs_read EXI_REASON s) AND 1)] s;
          s = kprintf (TAB @ ''guest_rip = %#lx'' @ NL) [PNum guest_rip] s;
          s = kprintf (TAB @ ''RAX=%#lx    RBX=%#lx    RCX=%#lx    RDX=%#lx'' @ NL)
                [PNum (rax r), PNum (rbx r), PNum (rcx r), PNum (rdx r)] s;
          s = kprintf (TAB @ ''RSP=%#lx    RBP=%#lx    RSI=%#lx    RDI=%#lx'' @ NL)
                [PNum guest_rsp, PNum (rbp r), PNum (rsi r), PNum (rdi r)] s;
          s = kprintf (TAB @ ''R8 =%#lx    R9 =%#lx    R10=%#lx    R11=%#lx'' @ NL)
                [PNum (r8 r), PNum (r9 r), PNum (r10 r), PNum (r11 r)] s
      in kprintf (TAB @ ''R12=%#lx    R13=%#lx    R14=%#lx    R15=%#lx'' @ NL)
                [PNum (r12 r), PNum (r13 r), PNum (r14 r), PNum (r15 r)] s)"

definition print_vmentry_failure_info ::
  "vmentry_failure \<Rightarrow> 'a vmx_state_scheme \<Rightarrow> 'a vmx_state_scheme" where
  "print_vmentry_failure_info failure s =
     (if vf_early failure then
        let s = kprintf ''Early %s failure: '' [PStr (vf_instr failure)] s;
            fl = vf_flags failure AND VMX_ENTRY_FLAGS
        in if fl = X86_EFLAGS_CF then kprintf (''current-VMCS pointer is not valid.'' @ NL) [] s
           else if fl = X86_EFLAGS_ZF then
             kprintf (''error number is %ld. See Intel 30.4.'' @ NL) [PNum (vmcs_read VMX_INST_ERROR s)] s
           else kprintf (''unexpected flags %lx!'' @ NL) [PNum (vf_flags failure)] s
      else
        let reason = vmcs_read EXI_REASON s;
            qual = vmcs_read EXI_QUALIFICATION s;
            s = kprintf ''Non-early %s failure (reason=%#lx, qual=%#lx): ''
                  [PStr (vf_instr failure), PNum reason, PNum qual] s;
            r = reason AND 0xff;
            s = (if r = VMX_FAIL_STATE then kprintf (''invalid guest state'' @ NL) [] s
                 else if r = VMX_FAIL_MSR then kprintf (''MSR loading'' @ NL) [] s
                 else if r = VMX_FAIL_MCHECK then kprintf (''machine-check event'' @ NL) [] s
                 else kprintf (''unexpected basic exit reason %ld'' @ NL) [PNum (reason AND 0xff)] s);
            s = (if reason AND VMX_ENTRY_FAILURE = 0 then
                   kprintf (TAB @ ''VMX_ENTRY_FAILURE BIT NOT SET!'' @ NL) [] s else s)
        in (if reason AND 0x7fff0000 \<noteq> 0 then
              kprintf (TAB @ ''RESERVED BITS SET!'' @ NL) [] s else s))"

section \<open>The run loop\<close>

text \<open>What the body of the loop does: go round again, return 0, or call \<^verbatim>\<open>abort\<close> in a state.\<close>

datatype 's run_result = Again 's | Done 's | Aborted 's

definition vmx_run_body ::
  "'a vmx_state_scheme vmx_env \<Rightarrow> 'a vmx_state_scheme asor_guest list \<Rightarrow> 'a vmx_state_scheme \<Rightarrow>
     'a vmx_state_scheme run_result option" where
  "vmx_run_body e guests s = do {
     (entered, failure, s) \<leftarrow> vmx_enter_guest e s;
     (ret, s) \<leftarrow> (if entered then exit_handler guests (s\<lparr>launched := True\<rparr>)
                 else entry_failure_handler guests failure s);
     if ret = VMX_RESUME then Some (Again s)
     else if ret = VMX_VMEXIT then Some (Done (s\<lparr>guest_finished := True\<rparr>))
     else do {
       let s = (if ret = VMX_EXIT then s
                else kprintf (''ERROR : Invalid %s_handler return val %d.'' @ NL)
                       [PStr (if entered then ''exit'' else ''entry_failure''), PNum (ucast ret)] s);
       let s = (if entered then print_vmexit_info s else print_vmentry_failure_info failure s);
       Some (Aborted s)
     }
   }"

partial_function (option) vmx_run ::
  "'a vmx_state_scheme vmx_env \<Rightarrow> 'a vmx_state_scheme asor_guest list \<Rightarrow> 'a vmx_state_scheme \<Rightarrow>
     'a vmx_state_scheme run_result option" where
  "vmx_run e guests s =
     Option.bind (vmx_run_body e guests s)
       (\<lambda>r. case r of Again s' \<Rightarrow> vmx_run e guests s' | Done s' \<Rightarrow> Some (Done s') | Aborted s' \<Rightarrow> Some (Aborted s'))"

text \<open>\<^verbatim>\<open>x86_virt_enable\<close>: a number returned, or \<open>Inl\<close> of the state in which \<^verbatim>\<open>abort\<close> was called. The
  results of \<^verbatim>\<open>init_vmcs\<close> and \<^verbatim>\<open>setup_ept\<close> are ignored.\<close>

definition x86_virt_enable ::
  "'a vmx_state_scheme vmx_env \<Rightarrow> 'a vmx_state_scheme asor_guest list \<Rightarrow> 'a vmx_state_scheme \<Rightarrow>
     ('a vmx_state_scheme + u32 \<times> 'a vmx_state_scheme) option" where
  "x86_virt_enable e guests s = do {
     let s = s\<lparr>current_guest := Some 0\<rparr>;
     let (ok, s) = is_vmx_supported e s;
     if \<not> ok then Some (Inr (1, kprintf (''Error: vmx not supported.'' @ NL) [] s))
     else do {
       s \<leftarrow> init_vmx (e_hw e) s;
       let (err, s) = vmx_on (e_hw e) s;
       if err then Some (Inr (1, kprintf (''Error: %s : vmxon failed.'' @ NL) [PStr ''x86_virt_enable''] s))
       else do {
         (r, s) \<leftarrow> init_vmcs e s;
         (r, s) \<leftarrow> setup_ept (e_hw e) True s;
         res \<leftarrow> vmx_run e guests s;
         (case res of
            Done s \<Rightarrow>
              (let (err, s) = vmx_off (e_hw e) s
               in if err then Some (Inr (1, kprintf (''Error: %s : vmxoff failed.'' @ NL) [PStr ''x86_virt_enable''] s))
                  else Some (Inr (0, s)))
          | Again s \<Rightarrow> None
          | Aborted s \<Rightarrow> Some (Inl s))
       }
     }
   }"

section \<open>The guest of this build\<close>

definition asor_guest_exit_handler :: "'a vmx_state_scheme \<Rightarrow> (u32 \<times> 'a vmx_state_scheme) option" where
  "asor_guest_exit_handler s = Some (VMX_EXIT, print_vmexit_info s)"

definition asor_guests :: "'a vmx_state_scheme asor_guest list" where
  "asor_guests =
     [\<lparr>g_name = Some ''default guest'', g_exit_handler = Some asor_guest_exit_handler,
       g_entry_failure_handler = None\<rparr>,
      \<lparr>g_name = None, g_exit_handler = None, g_entry_failure_handler = None\<rparr>]"

text \<open>What the guest does between entry and exit: its main function and the final hypercall of the
  assembly stub \<^verbatim>\<open>guest_entry\<close>.\<close>

definition asor_guest_main :: "'a vmx_state_scheme \<Rightarrow> 'a vmx_state_scheme" where
  "asor_guest_main s = kprintf (''Hello Guest'' @ NL) [] s"

definition guest_entry_code :: "'a vmx_state_scheme \<Rightarrow> 'a vmx_state_scheme" where
  "guest_entry_code s = hypercall 1 (asor_guest_main s)"

end
