(* ===== verification/Vmx_Run.thy ===== *)
theory Vmx_Run
  imports Vmx Vmx_Machine
begin

text \<open>
  The loop of \<^verbatim>\<open>vmx_run\<close> as a transition system, and the properties of entering and leaving the guest.
\<close>

section \<open>Register exchange\<close>

lemma SAVE_GPR_eq:
  "SAVE_GPR (cpu, area) =
    (\<lparr>rax = rax area, rcx = rdx area, rdx = rbx area, rbx = rcx area, rcr2 = rcr2 cpu, rbp = rbp area,
      rsi = rsi area, rdi = rdi area, r8 = r8 area, r9 = r9 area, r10 = r10 area, r11 = r11 area,
      r12 = r12 area, r13 = r13 area, r14 = r14 area, r15 = r15 area, rflags = rflags cpu\<rparr>,
     \<lparr>rax = rax cpu, rcx = rbx cpu, rdx = rcx cpu, rbx = rdx cpu, rcr2 = rcr2 area, rbp = rbp cpu,
      rsi = rsi cpu, rdi = rdi cpu, r8 = r8 cpu, r9 = r9 cpu, r10 = r10 cpu, r11 = r11 cpu,
      r12 = r12 cpu, r13 = r13 cpu, r14 = r14 cpu, r15 = r15 cpu, rflags = rflags area\<rparr>)"
  by (cases cpu; cases area) (simp add: SAVE_GPR_def xchg_reg_def regs_ld_def regs_st_def Let_def)

lemma gpr_swap: "SAVE_GPR (LOAD_GPR c) = c"
proof -
  obtain cpu area where "c = (cpu, area)" by fastforce
  then show ?thesis by (cases cpu; cases area) (simp add: LOAD_GPR_def SAVE_GPR_eq)
qed

section \<open>Steps\<close>

text \<open>One round of the loop that ends in another round; runs of rounds.\<close>

inductive vmx_round ::
  "'a vmx_state_scheme vmx_env \<Rightarrow> 'a vmx_state_scheme asor_guest list \<Rightarrow>
   'a vmx_state_scheme \<Rightarrow> 'a vmx_state_scheme \<Rightarrow> bool" for e guests where
  round: "vmx_run_body e guests s = Some (Again s') \<Longrightarrow> vmx_round e guests s s'"

inductive_simps vmx_round_iff: "vmx_round e guests s s'"

abbreviation vmx_rounds ::
  "'a vmx_state_scheme vmx_env \<Rightarrow> 'a vmx_state_scheme asor_guest list \<Rightarrow>
   'a vmx_state_scheme \<Rightarrow> 'a vmx_state_scheme \<Rightarrow> bool" where
  "vmx_rounds e guests \<equiv> (vmx_round e guests)\<^sup>*\<^sup>*"

definition final_result :: "'s run_result \<Rightarrow> bool" where
  "final_result r = (case r of Again _ \<Rightarrow> False | _ \<Rightarrow> True)"

lemma vmx_run_final: "vmx_run_body e guests s = Some r \<Longrightarrow> final_result r \<Longrightarrow> vmx_run e guests s = Some r"
  by (subst vmx_run.simps) (auto simp: final_result_def split: run_result.splits)

lemma vmx_run_again: "vmx_run_body e guests s = Some (Again s') \<Longrightarrow> vmx_run e guests s = vmx_run e guests s'"
  by (subst vmx_run.simps) simp

lemma vmx_run_rounds: "vmx_rounds e guests s s' \<Longrightarrow> vmx_run e guests s = vmx_run e guests s'"
  by (induction rule: rtranclp_induct) (auto simp: vmx_round_iff dest: vmx_run_again)

lemma vmx_run_reaches:
  assumes "vmx_run e guests s = Some r"
  shows "\<exists>s'. vmx_rounds e guests s s' \<and> vmx_run_body e guests s' = Some r \<and> final_result r"
  using assms
proof (rule vmx_run.raw_induct[of "\<lambda>e guests s r. \<exists>s'. vmx_rounds e guests s s' \<and>
    vmx_run_body e guests s' = Some r \<and> final_result r", rotated])
  fix run e and guests :: "'a vmx_state_scheme asor_guest list" and s :: "'a vmx_state_scheme" and r
  assume ih: "\<And>e guests s r. run e guests s = Some r \<Longrightarrow>
      \<exists>s'. vmx_rounds e guests s s' \<and> vmx_run_body e guests s' = Some r \<and> final_result r"
    and b: "Option.bind (vmx_run_body e guests s)
      (\<lambda>r. case r of Again s' \<Rightarrow> run e guests s' | Done s' \<Rightarrow> Some (Done s') | Aborted s' \<Rightarrow> Some (Aborted s')) = Some r"
  then obtain q where q: "vmx_run_body e guests s = Some q" by (cases "vmx_run_body e guests s") auto
  show "\<exists>s'. vmx_rounds e guests s s' \<and> vmx_run_body e guests s' = Some r \<and> final_result r"
  proof (cases q)
    case (Again s1)
    then obtain s' where s': "vmx_rounds e guests s1 s'" "vmx_run_body e guests s' = Some r" "final_result r"
      using ih[of e guests s1 r] b q by auto
    have "vmx_round e guests s s1" using Again q by (simp add: vmx_round_iff)
    then show ?thesis using s' converse_rtranclp_into_rtranclp[of "vmx_round e guests"] by blast
  qed (use b q in \<open>auto simp: final_result_def\<close>)
qed

section \<open>The handlers\<close>

lemma kprintf_fields [simp]:
  "current_guest (kprintf f a s) = current_guest s" "launched (kprintf f a s) = launched s"
  "guest_exits (kprintf f a s) = guest_exits s" "guest_finished (kprintf f a s) = guest_finished s"
  "hypercall_field (kprintf f a s) = hypercall_field s" "vregs (kprintf f a s) = vregs s"
  "vmcs_read enc (kprintf f a s) = vmcs_read enc s"
  by (simp_all add: kprintf_def vmcs_read_def)

lemma vmcs_write_fields [simp]:
  "current_guest (vmcs_write enc v s) = current_guest s" "launched (vmcs_write enc v s) = launched s"
  "guest_exits (vmcs_write enc v s) = guest_exits s" "guest_finished (vmcs_write enc v s) = guest_finished s"
  "hypercall_field (vmcs_write enc v s) = hypercall_field s" "vregs (vmcs_write enc v s) = vregs s"
  "console (vmcs_write enc v s) = console s"
  by (simp_all add: vmcs_write_def)

lemma print_fields [simp]:
  "launched (print_vmexit_info s) = launched s" "guest_exits (print_vmexit_info s) = guest_exits s"
  "guest_finished (print_vmexit_info s) = guest_finished s"
  "hypercall_field (print_vmexit_info s) = hypercall_field s"
  "launched (print_vmentry_failure_info fl s) = launched s"
  "guest_exits (print_vmentry_failure_info fl s) = guest_exits s"
  "guest_finished (print_vmentry_failure_info fl s) = guest_finished s"
  by (simp_all add: print_vmexit_info_def print_vmentry_failure_info_def Let_def)

lemma is_hypercall_update [simp]:
  "is_hypercall (s\<lparr>guest_exits := n\<rparr>) = is_hypercall s" "is_hypercall (s\<lparr>launched := b\<rparr>) = is_hypercall s"
  "is_hypercall (s\<lparr>vregs := r\<rparr>) = is_hypercall s"
  by (simp_all add: is_hypercall_def vmcs_read_def)

lemmas result_codes = VMX_RESUME_def VMX_VMEXIT_def VMX_EXIT_def VMX_VMABORT_def VMX_VMSKIP_def

lemma exit_handler_call:
  assumes "is_hypercall s" "current_guest s = Some i"
  shows "\<exists>ret s'. exit_handler guests s = Some (ret, s') \<and>
    (ret = VMX_VMEXIT \<longleftrightarrow> hypercall_field s AND HYPERCALL_MASK = HYPERCALL_VMEXIT) \<and> ret \<noteq> VMX_RESUME \<and>
    launched s' = launched s \<and> guest_exits s' = guest_exits s + 1 \<and>
    guest_finished s' = guest_finished s \<and> hypercall_field s' = 0"
  using assms by (auto simp: exit_handler_def handle_hypercall_def result_codes Let_def)

lemma exit_handler_default:
  assumes "\<not> is_hypercall s" "current_guest s = Some 0"
  shows "\<exists>s'. exit_handler asor_guests s = Some (VMX_EXIT, s') \<and>
    launched s' = launched s \<and> guest_exits s' = guest_exits s + 1 \<and>
    guest_finished s' = guest_finished s \<and> hypercall_field s' = hypercall_field s"
  using assms by (auto simp: exit_handler_def asor_guests_def asor_guest_exit_handler_def Let_def)

lemma run_default_guest:
  assumes "vmx_enter_guest e s = Some (entered, failure, s1)" "current_guest s1 = Some 0"
  shows "\<exists>s2. vmx_run e asor_guests s =
      Some (if entered \<and> is_hypercall s1 \<and> hypercall_field s1 AND HYPERCALL_MASK = HYPERCALL_VMEXIT
            then Done s2 else Aborted s2) \<and>
    (if entered then launched s2 \<and> guest_exits s2 = guest_exits s1 + 1 \<and>
       hypercall_field s2 = (if is_hypercall s1 then 0 else hypercall_field s1)
     else launched s2 = launched s1 \<and> guest_exits s2 = guest_exits s1) \<and>
    (guest_finished s2 \<longleftrightarrow> guest_finished s1 \<or>
       entered \<and> is_hypercall s1 \<and> hypercall_field s1 AND HYPERCALL_MASK = HYPERCALL_VMEXIT)"
proof -
  have r: "vmx_run e asor_guests s = Some r" if "vmx_run_body e asor_guests s = Some r" "final_result r" for r
    using that by (rule vmx_run_final)
  consider (fail) "\<not> entered" | (call) "entered" "is_hypercall s1" | (other) "entered" "\<not> is_hypercall s1" by blast
  then show ?thesis
  proof cases
    case fail
    then have "vmx_run_body e asor_guests s = Some (Aborted (print_vmentry_failure_info failure s1))"
      using assms by (simp add: vmx_run_body_def entry_failure_handler_def asor_guests_def result_codes)
    then show ?thesis using r fail by (fastforce simp: final_result_def)
  next
    case call
    obtain ret s2 where h: "exit_handler asor_guests (s1\<lparr>launched := True\<rparr>) = Some (ret, s2)"
      "ret = VMX_VMEXIT \<longleftrightarrow> hypercall_field s1 AND HYPERCALL_MASK = HYPERCALL_VMEXIT" "ret \<noteq> VMX_RESUME"
      "launched s2" "guest_exits s2 = guest_exits s1 + 1" "guest_finished s2 = guest_finished s1"
      "hypercall_field s2 = 0"
      using exit_handler_call[of "s1\<lparr>launched := True\<rparr>" 0 asor_guests] call assms(2) by auto
    show ?thesis
    proof (cases "ret = VMX_VMEXIT")
      case True
      then have "vmx_run_body e asor_guests s = Some (Done (s2\<lparr>guest_finished := True\<rparr>))"
        using h(1,3) call assms(1) by (simp add: vmx_run_body_def)
      from r[OF this] show ?thesis using True h call
        by (intro exI[of _ "s2\<lparr>guest_finished := True\<rparr>"]) (simp add: final_result_def)
    next
      case False
      then obtain s3 where s3: "vmx_run_body e asor_guests s = Some (Aborted s3)" "launched s3 = launched s2"
        "guest_exits s3 = guest_exits s2" "guest_finished s3 = guest_finished s2" "hypercall_field s3 = hypercall_field s2"
        using h(1,3) call assms(1) by (simp add: vmx_run_body_def Let_def)
      from r[OF s3(1)] show ?thesis using False h s3 call
        by (intro exI[of _ s3]) (simp add: final_result_def)
    qed
  next
    case other
    obtain s2 where h: "exit_handler asor_guests (s1\<lparr>launched := True\<rparr>) = Some (VMX_EXIT, s2)"
      "launched s2" "guest_exits s2 = guest_exits s1 + 1" "guest_finished s2 = guest_finished s1"
      "hypercall_field s2 = hypercall_field s1"
      using exit_handler_default[of "s1\<lparr>launched := True\<rparr>"] other assms(2) by auto
    then have "vmx_run_body e asor_guests s = Some (Aborted (print_vmexit_info s2))"
      using other assms(1) by (simp add: vmx_run_body_def result_codes)
    from r[OF this] show ?thesis using h other
      by (intro exI[of _ "print_vmexit_info s2"]) (simp add: final_result_def)
  qed
qed

section \<open>Properties\<close>


text \<open>C6: with the guest of this build current, \<^verbatim>\<open>vmx_run\<close> enters the guest exactly once. It returns (with
  \<^verbatim>\<open>guest_finished\<close> set) exactly when the guest left with the hypercall VMEXIT, and aborts on every
  other exit and on a failed entry. \<^verbatim>\<open>launched\<close> is set and the exit counted only when the entry
  succeeded; a hypercall is consumed.\<close>

theorem vmx_run_default_guest:
  assumes "vmx_enter_guest e s = Some (entered, failure, s1)" "current_guest s1 = Some 0"
  shows "\<exists>s2. vmx_run e asor_guests s =
      Some (if entered \<and> is_hypercall s1 \<and> hypercall_field s1 AND HYPERCALL_MASK = HYPERCALL_VMEXIT
            then Done s2 else Aborted s2) \<and>
    (if entered then launched s2 \<and> guest_exits s2 = guest_exits s1 + 1 \<and>
       hypercall_field s2 = (if is_hypercall s1 then 0 else hypercall_field s1)
     else launched s2 = launched s1 \<and> guest_exits s2 = guest_exits s1) \<and>
    (guest_finished s2 \<longleftrightarrow> guest_finished s1 \<or>
       entered \<and> is_hypercall s1 \<and> hypercall_field s1 AND HYPERCALL_MASK = HYPERCALL_VMEXIT)"
  using assms by (rule run_default_guest)

text \<open>The environment of the witnesses: devices answer 0, and the guest runs \<^verbatim>\<open>guest_entry\<close> and leaves
  with exit reason 18 (VMCALL).\<close>

definition env0 :: "vmx_state vmx_env" where
  "env0 = \<lparr>e_hw = \<lambda>_ _. 0, e_cpuid = \<lambda>_ _. \<lparr>cpuid_a = 0, cpuid_b = 0, cpuid_c = 0, cpuid_d = 0\<rparr>,
     e_enter = \<lambda>l g s. Some (VmExit g (vmcs_write EXI_REASON 18 (guest_entry_code s))),
     e_host_gpr = regs0, e_host_rsp = 0, gdt64_desc = \<lparr>dt_limit = 0, dt_base = 0\<rparr>,
     idt_descr = \<lparr>dt_limit = 0, dt_base = 0\<rparr>, tss_descr = \<lparr>dt_limit = 0, dt_base = 0\<rparr>,
     vmx_return = 0, entry_sysenter = 0, guest_entry = 0\<rparr>"

lemma env0_enter:
  "\<exists>fl s1. vmx_enter_guest env0 (vmx0\<lparr>current_guest := Some 0\<rparr>) = Some (True, fl, s1) \<and>
    current_guest s1 = Some 0 \<and> is_hypercall s1 \<and> hypercall_field s1 = 0x1001 \<and> guest_exits s1 = 0"
  by (simp add: vmx_enter_guest_def env0_def Let_def LOAD_GPR_def SAVE_GPR_eq guest_entry_code_def
      asor_guest_main_def hypercall_def kprintf_def hw_write_def vmcs_write_def vmcs_read_def
      vmcs_key_def vmcs_value_def is_hypercall_def vmx0_def c_defs)

theorem vmx_run_default_guest_witness:
  "\<exists>s2. vmx_run env0 asor_guests (vmx0\<lparr>current_guest := Some 0\<rparr>) = Some (Done s2) \<and> launched s2 \<and>
     guest_finished s2 \<and> guest_exits s2 = 1 \<and> hypercall_field s2 = 0"
proof -
  obtain fl s1 where s1: "vmx_enter_guest env0 (vmx0\<lparr>current_guest := Some 0\<rparr>) = Some (True, fl, s1)"
    "current_guest s1 = Some 0" "is_hypercall s1" "hypercall_field s1 = 0x1001" "guest_exits s1 = 0"
    using env0_enter by blast
  show ?thesis using vmx_run_default_guest[OF s1(1,2)] s1(3-5)
    by (auto simp: HYPERCALL_MASK_def HYPERCALL_VMEXIT_def)
qed

text \<open>The registers of the guest survive an exit and the next entry: what \<^verbatim>\<open>SAVE_GPR\<close> stores when the
  guest leaves, \<^verbatim>\<open>LOAD_GPR\<close> puts back when it is entered again, whatever the host's
  registers are then (CR2 and the flags are not exchanged); and the host's registers, parked in the
  save area during the run, come back unchanged.\<close>

theorem gpr_exchange_restores:
  "fst (LOAD_GPR (h, snd (SAVE_GPR (g, area)))) = g\<lparr>rcr2 := rcr2 h, rflags := rflags h\<rparr> \<and>
   fst (SAVE_GPR (g, snd (LOAD_GPR (h, area)))) = h\<lparr>rcr2 := rcr2 g, rflags := rflags g\<rparr>"
  by (cases h; cases g) (simp add: LOAD_GPR_def SAVE_GPR_eq)

text \<open>\<^verbatim>\<open>syscall_handler\<close> and the code at \<^verbatim>\<open>entry_sysenter\<close> up to its \<^verbatim>\<open>vmresume\<close>. The handler of the guest may be missing; it is given
  the number and the state and leaves the registers and the state.\<close>

definition syscall_handler ::
  "(u64 \<Rightarrow> regs \<times> 's \<Rightarrow> regs \<times> 's) option \<Rightarrow> u64 \<Rightarrow> regs \<times> 's \<Rightarrow> regs \<times> 's" where
  "syscall_handler h syscall_no c = (case h of Some f \<Rightarrow> f syscall_no c | None \<Rightarrow> c)"

definition sysenter_entry ::
  "(u64 \<Rightarrow> regs \<times> 'a vmx_state_scheme \<Rightarrow> regs \<times> 'a vmx_state_scheme) option \<Rightarrow> regs \<Rightarrow> 'a vmx_state_scheme \<Rightarrow> regs \<times> 'a vmx_state_scheme" where
  "sysenter_entry h gpr s =
     (let (gpr, area) = SAVE_GPR (gpr, vregs s);
          s = s\<lparr>vregs := area\<rparr>;
          gpr = gpr\<lparr>rax := rax gpr AND 0xf\<rparr>;
          gpr = gpr\<lparr>rdi := rax gpr\<rparr>;
          (gpr, s) = syscall_handler h (rdi gpr) (gpr, s);
          (gpr, area) = LOAD_GPR (gpr, vregs s)
      in (gpr, s\<lparr>vregs := area\<rparr>))"

text \<open>The registers of the guest survive a system call that leaves the save area alone; but the number the handler gets
  is taken from the register after the exchange, so it is what was parked in the save area and not what the guest
  put into RAX.\<close>

theorem sysenter_number:
  "sysenter_entry (Some h) g s = (let c = h (regs_ld (vregs s) 0 AND 0xf) ((fst (SAVE_GPR (g, vregs s)))\<lparr>rax := regs_ld (vregs s) 0 AND 0xf,
      rdi := regs_ld (vregs s) 0 AND 0xf\<rparr>, s\<lparr>vregs := snd (SAVE_GPR (g, vregs s))\<rparr>)
    in map_prod id (\<lambda>area. (snd c)\<lparr>vregs := area\<rparr>) (LOAD_GPR (fst c, vregs (snd c))))"
  "fst (sysenter_entry None g s) = g"
proof -
  have r: "rax (fst (SAVE_GPR (g, vregs s))) = regs_ld (vregs s) 0" by (simp add: SAVE_GPR_eq regs_ld_def)
  show "sysenter_entry (Some h) g s = (let c = h (regs_ld (vregs s) 0 AND 0xf) ((fst (SAVE_GPR (g, vregs s)))\<lparr>rax := regs_ld (vregs s) 0 AND 0xf,
      rdi := regs_ld (vregs s) 0 AND 0xf\<rparr>, s\<lparr>vregs := snd (SAVE_GPR (g, vregs s))\<rparr>)
    in map_prod id (\<lambda>area. (snd c)\<lparr>vregs := area\<rparr>) (LOAD_GPR (fst c, vregs (snd c))))"
    unfolding r[symmetric] by (simp add: sysenter_entry_def syscall_handler_def Let_def split_def map_prod_def)
  show "fst (sysenter_entry None g s) = g"
    by (cases g) (simp add: sysenter_entry_def syscall_handler_def LOAD_GPR_def SAVE_GPR_eq)
qed

text \<open>C26: the save area is not laid out like \<^verbatim>\<open>struct regs\<close>: after a guest left with registers \<open>g\<close>,
  the line \<^verbatim>\<open>print_vmexit_info\<close> prints as RBX, RCX and RDX shows the guest's RDX, RBX and RCX.\<close>

theorem vmexit_info_registers:
  "(TAB @ ''RAX=%#lx    RBX=%#lx    RCX=%#lx    RDX=%#lx'' @ NL,
    [PNum (rax g), PNum (rdx g), PNum (rbx g), PNum (rcx g)])
   \<in> set (console (print_vmexit_info (s\<lparr>vregs := snd (SAVE_GPR (g, area))\<rparr>)))"
  by (simp add: print_vmexit_info_def Let_def kprintf_def SAVE_GPR_eq)

text \<open>C25: a hypercall made by the guest is recognised by the host on a VMCALL exit, and handling it gives
  the result code of its number (0 to 4095; only 1, 2 and 3 are defined, any other is reported and
  ends the run) and clears the request, so that it is handled once.\<close>

theorem hypercall_roundtrip:
  assumes "vmcs_read EXI_REASON s AND 0xff = VMX_VMCALL"
  shows "is_hypercall (hypercall n s) \<and>
    (\<exists>s'. handle_hypercall (hypercall n s) =
       (if n AND 0xfff = 1 then VMX_VMEXIT else if n AND 0xfff = 2 then VMX_VMABORT
        else if n AND 0xfff = 3 then VMX_VMSKIP else VMX_EXIT, s') \<and> \<not> is_hypercall s')"
proof -
  let ?v = "(ucast n AND HYPERCALL_MASK) OR HYPERCALL_BIT"
  have b: "?v AND HYPERCALL_BIT \<noteq> 0"
  proof -
    have "bit (?v AND HYPERCALL_BIT) 12" by (simp add: bit_simps HYPERCALL_BIT_def)
    then show ?thesis by auto
  qed
  have e: "HYPERCALL_MASK = mask 12" "(0xfff :: u32) = mask 12" "HYPERCALL_BIT = 2 ^ 12"
    by (simp_all add: c_defs mask_eq_exp_minus_1)
  have b12: "bit HYPERCALL_BIT k \<longleftrightarrow> k = 12" for k unfolding e bit_exp_iff by auto
  have m: "?v AND HYPERCALL_MASK = ucast (n AND 0xfff)"
    unfolding e(1,2) by (rule bit_word_eqI) (auto simp: bit_simps b12)
  have inj: "(ucast x :: u64) = ucast y \<longleftrightarrow> x = y" for x y :: u32 by (metis ucast_widen(3))
  have nos: "(ucast (n AND 0xfff) = HYPERCALL_VMEXIT) = (n AND 0xfff = 1)"
    "(ucast (n AND 0xfff) = HYPERCALL_VMABORT) = (n AND 0xfff = 2)"
    "(ucast (n AND 0xfff) = HYPERCALL_VMSKIP) = (n AND 0xfff = 3)"
    using inj[of "n AND 0xfff" 1] inj[of "n AND 0xfff" 2] inj[of "n AND 0xfff" 3] by (simp_all add: c_defs)
  have r: "vmcs_read EXI_REASON (hypercall n s) = vmcs_read EXI_REASON s"
    by (simp add: hypercall_def Let_def vmcs_read_def hw_write_def)
  have f: "hypercall_field (hypercall n s) = ?v" by (simp add: hypercall_def Let_def hw_write_def)
  have "is_hypercall (hypercall n s)" using assms b by (simp add: is_hypercall_def r f)
  moreover have "\<not> is_hypercall (s'\<lparr>hypercall_field := 0\<rparr>)" for s' :: "'a vmx_state_scheme"
    by (simp add: is_hypercall_def)
  moreover have "\<not> is_hypercall (kprintf t as (s'\<lparr>hypercall_field := 0\<rparr>))" for s' :: "'a vmx_state_scheme" and t as
    by (simp add: is_hypercall_def)
  ultimately show ?thesis by (auto simp: handle_hypercall_def f m nos Let_def)
qed

theorem hypercall_roundtrip_witness:
  "is_hypercall (hypercall 1 (vmcs_write EXI_REASON 18 vmx0)) \<and>
   (\<exists>s'. handle_hypercall (hypercall 1 (vmcs_write EXI_REASON 18 vmx0)) = (VMX_VMEXIT, s') \<and> \<not> is_hypercall s')"
proof -
  have "vmcs_read EXI_REASON (vmcs_write EXI_REASON 18 vmx0) AND 0xff = VMX_VMCALL"
    by (simp add: vmcs_read_def vmcs_write_def vmcs_key_def vmcs_value_def c_defs)
  from hypercall_roundtrip[OF this, of 1] show ?thesis by simp
qed

end
