(* ===== verification/Vmx_Init.thy ===== *)
theory Vmx_Init
  imports Vmx Ept_Map Vmx_Machine
begin

text \<open>
  What \<^verbatim>\<open>init_vmx\<close> and \<^verbatim>\<open>init_vmcs\<close> establish: the control registers VMX operation needs, and a VMCS
  that passes the checks the processor makes on VM entry.
\<close>

section \<open>Fields after a sequence of writes\<close>

fun last_val :: "u64 \<Rightarrow> (u64 \<times> u64) list \<Rightarrow> u64 \<Rightarrow> u64" where
  "last_val key [] old = old"
| "last_val key ((enc, v) # ws) old =
     last_val key ws (if vmcs_key enc = key then vmcs_value enc old v else old)"

lemma vmcs_writes_eq:
  "vmcs_writes ws s = s\<lparr>vmcs_field := \<lambda>k. last_val k ws (vmcs_field s k)\<rparr>"
  by (induction ws s rule: vmcs_writes.induct) (simp_all add: vmcs_write_def fun_eq_iff)

section \<open>Frames\<close>

lemma mframe_bytes:
  assumes "\<And>a. drop_bit 12 a \<noteq> drop_bit 12 p \<Longrightarrow> m' a = m a" "aligned 12 p"
  shows "mframe m m' {p}"
  unfolding mframe_def
proof (intro allI impI, elim conjE)
  fix q i assume q: "aligned 12 q" "q \<notin> {p}" and i: "i < (512::u64)"
  have "m' (q + 8 * i + j) = m (q + 8 * i + j)" if j: "j < 8" for j
  proof (rule assms(1))
    have "unat (8 * i + j) = 8 * unat i + unat j"
      using i j by (simp add: unat_word_ariths word_less_nat_alt)
    then have "unat (8 * i + j) < 2 ^ 12" using i j by (simp add: word_less_nat_alt)
    then have "drop_bit 12 (q + (8 * i + j)) = drop_bit 12 q"
      using q by (intro drop_bit_add_aligned) auto
    then show "drop_bit 12 (q + 8 * i + j) \<noteq> drop_bit 12 p"
      using q assms(2) by (simp add: aligned_eq_iff add.assoc)
  qed
  then show "ent m' q i = ent m q i" unfolding ent_def by (intro ld64_cong) simp
qed

lemma mframe_st32: "aligned 12 p \<Longrightarrow> mframe m (st32 m p v) {p}"
proof (rule mframe_bytes)
  fix a assume p: "aligned 12 p" and a: "drop_bit 12 a \<noteq> drop_bit 12 p"
  have "a \<noteq> p + j" if "unat j < 2 ^ 12" for j
    using drop_bit_add_aligned[OF p that] a by auto
  from this[of 0] this[of 1] this[of 2] this[of 3] show "st32 m p v a = m a"
    by (simp add: st32_def)
qed

text \<open>Taking a page and filling it leaves the rest of the free list.\<close>

lemma fl_take:
  assumes "fl_inv s (p # fl)" "mframe (mem s) m' {p}" "freelist s' = ld64 (mem s) p" "mem s' = m'"
    "pa_lock s' = pa_lock s"
  shows "fl_inv s' fl"
proof -
  have "p \<notin> set fl" using flist_distinct[of "mem s" "freelist s" "p # fl"] assms(1) by (simp add: fl_inv_def)
  then have "flist m' (ld64 (mem s) p) fl"
    using assms(1,2) flist_mframe[of "mem s" "ld64 (mem s) p" fl m' "{p}"] by (auto simp: fl_inv_def)
  then show ?thesis using assms by (simp add: fl_inv_def)
qed

section \<open>Checks on VM entry\<close>

text \<open>Capabilities are consistent: a bit that must be 1 may be 1. A control word is allowed: all bits
  that must be 1 are, and none that must be 0.\<close>

definition cap_ok :: "u64 \<Rightarrow> bool" where
  "cap_ok cap \<longleftrightarrow> msr_set cap AND NOT (msr_clr cap) = 0"

definition ctrl_allowed :: "u64 \<Rightarrow> u32 \<Rightarrow> bool" where
  "ctrl_allowed cap v \<longleftrightarrow> msr_set cap AND NOT v = 0 \<and> v AND NOT (msr_clr cap) = 0"

definition controls_ok :: "'a vmx_state_scheme \<Rightarrow> bool" where
  "controls_ok s \<longleftrightarrow>
     ctrl_allowed (ctrl_pin_rev s) (ucast (vmcs_read PIN_CONTROLS s)) \<and>
     ctrl_allowed (ctrl_cpu_rev0 s) (ucast (vmcs_read CPU_EXEC_CTRL0 s)) \<and>
     ctrl_allowed (ctrl_exit_rev s) (ucast (vmcs_read EXI_CONTROLS s)) \<and>
     ctrl_allowed (ctrl_enter_rev s) (ucast (vmcs_read ENT_CONTROLS s)) \<and>
     vmcs_read CR3_TARGET_COUNT s = 0"

text \<open>Host state: selectors without RPL and table bits, CS and TR not null, base addresses canonical,
  and the processor comes back to the hypervisor's control registers at \<^verbatim>\<open>vmx_return\<close>.\<close>

definition host_state_ok :: "'s vmx_env \<Rightarrow> 'a vmx_state_scheme \<Rightarrow> bool" where
  "host_state_ok e s \<longleftrightarrow>
     vmcs_read HOST_CR0 s = cr0 s \<and> vmcs_read HOST_CR3 s = cr3 s \<and> vmcs_read HOST_CR4 s = cr4 s \<and>
     vmcs_read HOST_RIP s = vmx_return e \<and>
     list_all (\<lambda>f. vmcs_read f s AND 7 = 0)
       [HOST_SEL_CS, HOST_SEL_SS, HOST_SEL_DS, HOST_SEL_ES, HOST_SEL_FS, HOST_SEL_GS, HOST_SEL_TR] \<and>
     vmcs_read HOST_SEL_CS s \<noteq> 0 \<and> vmcs_read HOST_SEL_TR s \<noteq> 0 \<and>
     list_all (\<lambda>f. is_canonical (vmcs_read f s))
       [HOST_BASE_FS, HOST_BASE_GS, HOST_BASE_TR, HOST_BASE_GDTR, HOST_BASE_IDTR, HOST_SYSENTER_EIP, HOST_RIP]"

text \<open>Guest state of a 64-bit guest: paging, protection and PAE on, a long-mode code segment that is not
  also 32-bit, a busy 64-bit TSS, no reserved flag set, active and not blocking, no shadow
  VMCS.\<close>

definition guest_state_ok :: "'s vmx_env \<Rightarrow> 'a vmx_state_scheme \<Rightarrow> bool" where
  "guest_state_ok e s \<longleftrightarrow>
     bit (vmcs_read GUEST_CR0 s) 31 \<and> bit (vmcs_read GUEST_CR0 s) 0 \<and> bit (vmcs_read GUEST_CR4 s) 5 \<and>
     vmcs_read GUEST_CR3 s = cr3 s \<and>
     bit (vmcs_read GUEST_AR_CS s) 13 \<and> \<not> bit (vmcs_read GUEST_AR_CS s) 14 \<and>
     vmcs_read GUEST_AR_TR s AND 0xf = 11 \<and> vmcs_read GUEST_SEL_TR s AND 4 = 0 \<and>
     list_all (\<lambda>f. bit (vmcs_read f s) 7) [GUEST_AR_CS, GUEST_AR_DS, GUEST_AR_ES, GUEST_AR_FS, GUEST_AR_GS,
       GUEST_AR_SS, GUEST_AR_TR] \<and>
     vmcs_read GUEST_RFLAGS s AND NOT 0x3f7fd5 = 2 \<and>
     vmcs_read GUEST_ACTV_STATE s = 0 \<and> vmcs_read GUEST_INTR_STATE s = 0 \<and>
     vmcs_read VMCS_LINK_PTR s = - 1 \<and> vmcs_read GUEST_RIP s = guest_entry e"

text \<open>Addresses of the environment are canonical.\<close>

definition env_canonical :: "'s vmx_env \<Rightarrow> bool" where
  "env_canonical e \<longleftrightarrow> is_canonical (dt_base (tss_descr e)) \<and> is_canonical (dt_base (gdt64_desc e)) \<and>
     is_canonical (dt_base (idt_descr e)) \<and> is_canonical (entry_sysenter e) \<and> is_canonical (vmx_return e)"

lemma adjust_allowed: "cap_ok cap \<Longrightarrow> ctrl_allowed cap (adjust_ctrl c cap)"
proof -
  assume c: "cap_ok cap"
  have "\<not> (bit (msr_set cap) n \<and> \<not> bit (msr_clr cap) n)" for n
  proof
    assume "bit (msr_set cap) n \<and> \<not> bit (msr_clr cap) n"
    then have "bit (msr_set cap AND NOT (msr_clr cap)) n" by (auto simp: bit_simps dest: bit_imp_le_length)
    then show False using c by (simp add: cap_ok_def)
  qed
  then show ?thesis by (auto simp: ctrl_allowed_def adjust_ctrl_def bit_simps intro!: bit_word_eqI)
qed

lemma adjust_keeps: "c AND NOT (msr_clr cap) = 0 \<Longrightarrow> adjust_ctrl c cap AND c = c"
proof (rule bit_word_eqI)
  fix n assume "c AND NOT (msr_clr cap) = 0"
  then have "\<not> bit (c AND NOT (msr_clr cap)) n" by simp
  then show "bit (adjust_ctrl c cap AND c) n = bit c n"
    by (auto simp: adjust_ctrl_def bit_simps dest: bit_imp_le_length)
qed

section \<open>The filled VMCS\<close>

lemma last_val_append: "last_val k (as @ bs) old = last_val k bs (last_val k as old)"
  by (induction k as old rule: last_val.induct) simp_all

definition ctrl_writes :: "'a vmx_state_scheme \<Rightarrow> u32 \<Rightarrow> (u64 \<times> u64) list" where
  "ctrl_writes s c1 =
     [(PIN_CONTROLS, ucast (ctrl_pin s)), (CPU_EXEC_CTRL0, ucast (ctrl_cpu0 s))] @
     (if msr_set (ctrl_cpu_rev0 s) AND CPU_SECONDARY \<noteq> 0 then [(CPU_EXEC_CTRL1, ucast c1)] else []) @
     [(CR3_TARGET_COUNT, 0), (VPID, ucast (vpid_cnt s + 1))]"

definition vmcs_image :: "'s vmx_env \<Rightarrow> 'a vmx_state_scheme \<Rightarrow> u32 \<Rightarrow> u64 \<Rightarrow> u64 \<Rightarrow> (u64 \<times> u64) list" where
  "vmcs_image e s c1 efer efer' =
     ctrl_writes s c1 @ (HOST_EFER, efer) # host_fields e s @ guest_cr_fields e s @
     (GUEST_EFER, efer') # guest_fields e s"

lemma fields_frame [simp]:
  "host_fields e (s\<lparr>vmcs_field := f\<rparr>) = host_fields e s"
  "host_fields e (s\<lparr>trace := t\<rparr>) = host_fields e s"
  "host_fields e (s\<lparr>vpid_cnt := n\<rparr>) = host_fields e s"
  "host_fields e (s\<lparr>ctrl_cpu1 := c\<rparr>) = host_fields e s"
  "guest_cr_fields e (s\<lparr>vmcs_field := f\<rparr>) = guest_cr_fields e s"
  "guest_cr_fields e (s\<lparr>trace := t\<rparr>) = guest_cr_fields e s"
  "guest_cr_fields e (s\<lparr>vpid_cnt := n\<rparr>) = guest_cr_fields e s"
  "guest_cr_fields e (s\<lparr>ctrl_cpu1 := c\<rparr>) = guest_cr_fields e s"
  "guest_fields e (s\<lparr>vmcs_field := f\<rparr>) = guest_fields e s"
  "guest_fields e (s\<lparr>trace := t\<rparr>) = guest_fields e s"
  "guest_fields e (s\<lparr>vpid_cnt := n\<rparr>) = guest_fields e s"
  "guest_fields e (s\<lparr>ctrl_cpu1 := c\<rparr>) = guest_fields e s"
  by (simp_all add: host_fields_def guest_cr_fields_def guest_fields_def guest_cr0_val_def guest_cr4_val_def
      read_cr0_def read_cr3_def read_cr4_def)

lemma vmcs_writes_append: "vmcs_writes (as @ bs) s = vmcs_writes bs (vmcs_writes as s)"
  by (induction as s rule: vmcs_writes.induct) simp_all

lemma writes_trace:
  "(vmcs_writes ws s)\<lparr>trace := t\<rparr> = vmcs_writes ws (s\<lparr>trace := t\<rparr>)"
  "(vmcs_write enc v s)\<lparr>trace := t\<rparr> = vmcs_write enc v (s\<lparr>trace := t\<rparr>)"
  "trace (vmcs_writes ws s) = trace s"
  by (simp_all add: vmcs_writes_eq vmcs_write_def)

lemma write_fields:
  "host_fields e (vmcs_writes ws s) = host_fields e s" "host_fields e (vmcs_write enc v s) = host_fields e s"
  "guest_cr_fields e (vmcs_writes ws s) = guest_cr_fields e s"
  "guest_cr_fields e (vmcs_write enc v s) = guest_cr_fields e s"
  "guest_fields e (vmcs_writes ws s) = guest_fields e s" "guest_fields e (vmcs_write enc v s) = guest_fields e s"
  by (simp_all add: vmcs_writes_eq vmcs_write_def)

lemma init_vmcs_fill:
  "\<exists>c1' efer efer' t. init_vmcs_guest e (init_vmcs_host e (init_vmcs_ctrl s)) =
     s\<lparr>ctrl_cpu1 := c1', vpid_cnt := vpid_cnt s + 1, trace := t,
       vmcs_field := \<lambda>k. last_val k (vmcs_image e s (adjust_ctrl (ctrl_cpu1 s) (ctrl_cpu_rev1 s)) efer efer') (vmcs_field s k)\<rparr>"
proof -
  let ?c1 = "adjust_ctrl (ctrl_cpu1 s) (ctrl_cpu_rev1 s)"
  let ?c1' = "if msr_set (ctrl_cpu_rev0 s) AND CPU_SECONDARY \<noteq> 0 then ?c1 else ctrl_cpu1 s"
  have c: "init_vmcs_ctrl s = vmcs_writes (ctrl_writes s ?c1) (s\<lparr>ctrl_cpu1 := ?c1', vpid_cnt := vpid_cnt s + 1\<rparr>)"
    by (simp add: init_vmcs_ctrl_def ctrl_writes_def vmcs_write_def Let_def adjust_ctrl_def)
  let ?s = "s\<lparr>ctrl_cpu1 := ?c1', vpid_cnt := vpid_cnt s + 1\<rparr>"
  define efer where "efer = e_hw e (trace s) (MsrR MSR_EFER)"
  define efer' where "efer' = e_hw e (trace s @ [MsrR MSR_EFER]) (MsrR MSR_EFER)"
  have h: "init_vmcs_host e (init_vmcs_ctrl s) =
      vmcs_writes (ctrl_writes s ?c1 @ (HOST_EFER, efer) # host_fields e s) (?s\<lparr>trace := trace s @ [MsrR MSR_EFER]\<rparr>)"
    unfolding c init_vmcs_host_def vmcs_writes_append vmcs_writes.simps
    by (simp add: rdmsr_def hw_read_def Let_def efer_def writes_trace write_fields)
  have "init_vmcs_guest e (init_vmcs_host e (init_vmcs_ctrl s)) =
      vmcs_writes (vmcs_image e s ?c1 efer efer') (?s\<lparr>trace := trace s @ [MsrR MSR_EFER, MsrR MSR_EFER]\<rparr>)"
    unfolding h init_vmcs_guest_def vmcs_image_def vmcs_writes_append vmcs_writes.simps
    by (simp add: rdmsr_def hw_read_def Let_def efer'_def writes_trace write_fields vmcs_writes_append)
  then have "init_vmcs_guest e (init_vmcs_host e (init_vmcs_ctrl s)) =
     s\<lparr>ctrl_cpu1 := ?c1', vpid_cnt := vpid_cnt s + 1, trace := trace s @ [MsrR MSR_EFER, MsrR MSR_EFER],
       vmcs_field := \<lambda>k. last_val k (vmcs_image e s ?c1 efer efer') (vmcs_field s k)\<rparr>"
    by (simp add: vmcs_writes_eq)
  then show ?thesis by blast
qed

lemmas image_defs = vmcs_image_def ctrl_writes_def host_fields_def guest_cr_fields_def guest_fields_def
  vmcs_key_def vmcs_value_def c_defs

lemma ucast_mask32 [simp]: "(ucast (x :: u32) :: u64) AND 0xffffffff = ucast x"
proof -
  have e: "(0xffffffff :: u64) = mask 32" by (simp add: mask_eq_exp_minus_1)
  show ?thesis unfolding e by (rule bit_word_eqI) (auto simp: bit_simps dest: bit_imp_le_length)
qed

lemma image_controls:
  fixes old :: u64 and e :: "'s vmx_env" and s :: "'a vmx_state_scheme" and c1 :: u32 and efer efer' :: u64
  defines "F \<equiv> \<lambda>k. last_val k (vmcs_image e s c1 efer efer') old"
  shows "F PIN_CONTROLS = ucast (ctrl_pin s)" "F CPU_EXEC_CTRL0 = ucast (ctrl_cpu0 s)"
    "F EXI_CONTROLS = ucast (ctrl_exit s)" "F ENT_CONTROLS = ucast (ctrl_enter s)"
    "F CR3_TARGET_COUNT = 0"
    "F CPU_EXEC_CTRL1 = (if msr_set (ctrl_cpu_rev0 s) AND CPU_SECONDARY \<noteq> 0 then ucast c1 else old)"
  unfolding F_def by (simp_all add: image_defs)

lemma image_host:
  fixes old :: u64 and e :: "'s vmx_env" and s :: "'a vmx_state_scheme" and c1 :: u32 and efer efer' :: u64
  defines "F \<equiv> \<lambda>k. last_val k (vmcs_image e s c1 efer efer') old"
  shows "F HOST_CR0 = cr0 s" "F HOST_CR3 = cr3 s" "F HOST_CR4 = cr4 s" "F HOST_RIP = vmx_return e"
    "F HOST_SEL_CS = 8" "F HOST_SEL_SS = 16" "F HOST_SEL_DS = 16" "F HOST_SEL_ES = 16" "F HOST_SEL_FS = 16"
    "F HOST_SEL_GS = 16" "F HOST_SEL_TR = 0x80"
    "F HOST_BASE_FS = 0" "F HOST_BASE_GS = 0" "F HOST_BASE_TR = dt_base (tss_descr e)"
    "F HOST_BASE_GDTR = dt_base (gdt64_desc e)" "F HOST_BASE_IDTR = dt_base (idt_descr e)"
    "F HOST_SYSENTER_EIP = entry_sysenter e"
  unfolding F_def by (simp_all add: image_defs read_cr0_def read_cr3_def read_cr4_def)

lemma image_guest:
  fixes old :: u64 and e :: "'s vmx_env" and s :: "'a vmx_state_scheme" and c1 :: u32 and efer efer' :: u64
  defines "F \<equiv> \<lambda>k. last_val k (vmcs_image e s c1 efer efer') old"
  shows "F GUEST_CR0 = guest_cr0_val s" "F GUEST_CR3 = cr3 s" "F GUEST_CR4 = guest_cr4_val s"
    "F GUEST_AR_CS = 0xa09b" "F GUEST_AR_DS = 0xc093" "F GUEST_AR_ES = 0xc093" "F GUEST_AR_FS = 0xc093"
    "F GUEST_AR_GS = 0xc093" "F GUEST_AR_SS = 0xc093" "F GUEST_AR_TR = 0x8b" "F GUEST_SEL_TR = 0x80"
    "F GUEST_RFLAGS = 2" "F GUEST_ACTV_STATE = 0" "F GUEST_INTR_STATE = 0" "F VMCS_LINK_PTR = - 1"
    "F GUEST_RIP = guest_entry e"
  unfolding F_def by (simp_all add: image_defs read_cr3_def mask_eq_exp_minus_1)

lemma read_fields:
  "vmcs_read PIN_CONTROLS s = vmcs_field s PIN_CONTROLS"
  "vmcs_read CPU_EXEC_CTRL0 s = vmcs_field s CPU_EXEC_CTRL0"
  "vmcs_read CPU_EXEC_CTRL1 s = vmcs_field s CPU_EXEC_CTRL1"
  "vmcs_read EXI_CONTROLS s = vmcs_field s EXI_CONTROLS"
  "vmcs_read ENT_CONTROLS s = vmcs_field s ENT_CONTROLS"
  "vmcs_read CR3_TARGET_COUNT s = vmcs_field s CR3_TARGET_COUNT"
  "vmcs_read HOST_CR0 s = vmcs_field s HOST_CR0"
  "vmcs_read HOST_CR3 s = vmcs_field s HOST_CR3"
  "vmcs_read HOST_CR4 s = vmcs_field s HOST_CR4"
  "vmcs_read HOST_RIP s = vmcs_field s HOST_RIP"
  "vmcs_read HOST_SEL_CS s = vmcs_field s HOST_SEL_CS"
  "vmcs_read HOST_SEL_SS s = vmcs_field s HOST_SEL_SS"
  "vmcs_read HOST_SEL_DS s = vmcs_field s HOST_SEL_DS"
  "vmcs_read HOST_SEL_ES s = vmcs_field s HOST_SEL_ES"
  "vmcs_read HOST_SEL_FS s = vmcs_field s HOST_SEL_FS"
  "vmcs_read HOST_SEL_GS s = vmcs_field s HOST_SEL_GS"
  "vmcs_read HOST_SEL_TR s = vmcs_field s HOST_SEL_TR"
  "vmcs_read HOST_BASE_FS s = vmcs_field s HOST_BASE_FS"
  "vmcs_read HOST_BASE_GS s = vmcs_field s HOST_BASE_GS"
  "vmcs_read HOST_BASE_TR s = vmcs_field s HOST_BASE_TR"
  "vmcs_read HOST_BASE_GDTR s = vmcs_field s HOST_BASE_GDTR"
  "vmcs_read HOST_BASE_IDTR s = vmcs_field s HOST_BASE_IDTR"
  "vmcs_read HOST_SYSENTER_EIP s = vmcs_field s HOST_SYSENTER_EIP"
  "vmcs_read GUEST_CR0 s = vmcs_field s GUEST_CR0"
  "vmcs_read GUEST_CR3 s = vmcs_field s GUEST_CR3"
  "vmcs_read GUEST_CR4 s = vmcs_field s GUEST_CR4"
  "vmcs_read GUEST_AR_CS s = vmcs_field s GUEST_AR_CS"
  "vmcs_read GUEST_AR_DS s = vmcs_field s GUEST_AR_DS"
  "vmcs_read GUEST_AR_ES s = vmcs_field s GUEST_AR_ES"
  "vmcs_read GUEST_AR_FS s = vmcs_field s GUEST_AR_FS"
  "vmcs_read GUEST_AR_GS s = vmcs_field s GUEST_AR_GS"
  "vmcs_read GUEST_AR_SS s = vmcs_field s GUEST_AR_SS"
  "vmcs_read GUEST_AR_TR s = vmcs_field s GUEST_AR_TR"
  "vmcs_read GUEST_SEL_TR s = vmcs_field s GUEST_SEL_TR"
  "vmcs_read GUEST_RFLAGS s = vmcs_field s GUEST_RFLAGS"
  "vmcs_read GUEST_ACTV_STATE s = vmcs_field s GUEST_ACTV_STATE"
  "vmcs_read GUEST_INTR_STATE s = vmcs_field s GUEST_INTR_STATE"
  "vmcs_read VMCS_LINK_PTR s = vmcs_field s VMCS_LINK_PTR"
  "vmcs_read GUEST_RIP s = vmcs_field s GUEST_RIP"
  by (simp_all add: vmcs_read_def vmcs_key_def c_defs)

lemma ld32_st32_same [simp, mem_simps]: "ld32 (st32 m a v) a = v"
proof -
  have "ucast (ucast v :: u8) OR push_bit 8 (ucast (ucast (drop_bit 8 v) :: u8))
     OR push_bit 16 (ucast (ucast (drop_bit 16 v) :: u8)) OR push_bit 24 (ucast (ucast (drop_bit 24 v) :: u8)) = v"
    (is "?l = v")
  proof (rule bit_word_eqI)
    fix n assume "n < LENGTH(32)"
    then consider "n < 8" | "8 \<le> n" "n < 16" | "16 \<le> n" "n < 24" | "24 \<le> n" "n < 32" by (simp, linarith)
    then show "bit ?l n = bit v n" by cases (simp_all add: bit_simps less_diff_conv2)
  qed
  then show ?thesis by (simp add: ld32_def st32_def)
qed

lemma ucast_and_flag: "x AND f \<noteq> (0 :: u32) \<Longrightarrow> (ucast x :: u64) AND ucast f \<noteq> 0"
proof -
  assume n: "x AND f \<noteq> 0"
  have "(ucast x :: u64) AND ucast f = ucast (x AND f)" by (rule bit_word_eqI) (auto simp: bit_simps)
  moreover have "ucast (ucast (x AND f) :: u64) = x AND f" by (rule ucast_widen)
  ultimately show ?thesis using n by (metis unsigned_0)
qed

section \<open>The checks pass\<close>

text \<open>The host runs in long mode.\<close>

definition long_mode :: "'a cpu_state_scheme \<Rightarrow> bool" where
  "long_mode s \<longleftrightarrow> bit (cr0 s) 31 \<and> bit (cr0 s) 0 \<and> bit (cr4 s) 5"

lemma is_canonical_0: "is_canonical 0"
  by (simp add: is_canonical_def)

lemma guest_cr_bits:
  assumes "long_mode s" "ctrl_enter s AND ENT_GUEST_64 \<noteq> 0"
  shows "bit (guest_cr0_val s) 31" "bit (guest_cr0_val s) 0" "bit (guest_cr4_val s) 5"
  using assms by (auto simp: long_mode_def guest_cr0_val_def guest_cr4_val_def read_cr0_def read_cr4_def Let_def bit_simps)

definition caps_ok :: "'a vmx_state_scheme \<Rightarrow> bool" where
  "caps_ok s \<longleftrightarrow> cap_ok (ctrl_pin_rev s) \<and> cap_ok (ctrl_cpu_rev0 s) \<and> cap_ok (ctrl_exit_rev s) \<and>
     cap_ok (ctrl_enter_rev s) \<and> ENT_GUEST_64 AND NOT (msr_clr (ctrl_enter_rev s)) = 0 \<and>
     EXI_HOST_64 AND NOT (msr_clr (ctrl_exit_rev s)) = 0"

lemma adjust_flag:
  assumes "f AND NOT (msr_clr cap) = 0" "f \<noteq> 0" "c AND f = f"
  shows "adjust_ctrl c cap AND f \<noteq> 0"
proof -
  have "adjust_ctrl c cap AND f = f"
  proof (rule bit_word_eqI)
    fix n
    have "bit (f AND NOT (msr_clr cap)) n = bit 0 n" "bit (c AND f) n = bit f n" using assms by simp_all
    then show "bit (adjust_ctrl c cap AND f) n = bit f n"
      by (auto simp: adjust_ctrl_def bit_simps dest: bit_imp_le_length)
  qed
  then show ?thesis using assms(2) by simp
qed

lemma init_vmcs_checks:
  assumes fl: "fl_inv s (p # fl)" and hw: "\<And>tr nm. e_hw e tr (VmxInsn nm p) = 0"
    and caps: "caps_ok s" and lm: "long_mode s" and env: "env_canonical e"
  shows "\<exists>s'. init_vmcs e s = Some (0, s') \<and> controls_ok s' \<and> host_state_ok e s' \<and> guest_state_ok e s' \<and>
    vmcs_read EXI_CONTROLS s' AND ucast EXI_HOST_64 \<noteq> 0 \<and> vmcs_read ENT_CONTROLS s' AND ucast ENT_GUEST_64 \<noteq> 0 \<and>
    fl_inv s' fl \<and> guest_vmcs s' = p \<and> ld32 (mem s') p = basic_revision (basic s) AND 0x7fffffff \<and>
    caps_of s' = caps_of s \<and> cregs s' = cregs s \<and> run_fields s' = run_fields s \<and>
    vmcs_field s' CPU_EXEC_CTRL1 = (if msr_set (ctrl_cpu_rev0 s) AND CPU_SECONDARY \<noteq> 0
      then ucast (adjust_ctrl 0 (ctrl_cpu_rev1 s)) else vmcs_field s CPU_EXEC_CTRL1) \<and>
    mframe (mem s) (mem s') {p}"
proof -
  let ?m = "st32 (memset p 0 PAGE_SIZE (mem s)) p (basic_revision (basic s) AND 0x7fffffff)"
  let ?s1 = "s\<lparr>freelist := ld64 (mem s) p, guest_vmcs := p, mem := ?m,
    trace := trace s @ [VmxInsn ''vmclear'' p, VmxInsn ''vmptrld'' p]\<rparr>"
  define s2 where "s2 = init_ctrl_words ?s1"
  obtain c1' efer efer' t where s': "init_vmcs_guest e (init_vmcs_host e (init_vmcs_ctrl s2)) =
     s2\<lparr>ctrl_cpu1 := c1', vpid_cnt := vpid_cnt s2 + 1, trace := t,
       vmcs_field := \<lambda>k. last_val k (vmcs_image e s2 (adjust_ctrl (ctrl_cpu1 s2) (ctrl_cpu_rev1 s2)) efer efer') (vmcs_field s2 k)\<rparr>" (is "_ = ?s'")
    using init_vmcs_fill by blast
  have "init_vmcs e s = Some (0, init_vmcs_guest e (init_vmcs_host e (init_vmcs_ctrl s2)))"
    using alloc_page_Cons[OF fl] hw unfolding s2_def
    by (simp add: init_vmcs_def Let_def vmcs_clear_def make_vmcs_current_def vmx_insn_def hw_read_def)
  then have r: "init_vmcs e s = Some (0, ?s')" unfolding s' .
  have f2: "ctrl_pin_rev s2 = ctrl_pin_rev s" "ctrl_cpu_rev0 s2 = ctrl_cpu_rev0 s" "ctrl_exit_rev s2 = ctrl_exit_rev s"
    "ctrl_enter_rev s2 = ctrl_enter_rev s" "cr0 s2 = cr0 s" "cr3 s2 = cr3 s" "cr4 s2 = cr4 s"
    "mem s2 = ?m" "freelist s2 = ld64 (mem s) p" "pa_lock s2 = pa_lock s" "guest_vmcs s2 = p"
    "ctrl_exit s2 = adjust_ctrl (EXI_LOAD_EFER OR EXI_HOST_64) (ctrl_exit_rev s)"
    "ctrl_enter s2 = adjust_ctrl (ENT_LOAD_EFER OR ENT_GUEST_64) (ctrl_enter_rev s)"
    "\<exists>c. ctrl_pin s2 = adjust_ctrl c (ctrl_pin_rev s)" "\<exists>c. ctrl_cpu0 s2 = adjust_ctrl c (ctrl_cpu_rev0 s)"
    by (simp_all add: s2_def init_ctrl_words_def Let_def) blast+
  have lm2: "long_mode s2" using lm by (simp add: long_mode_def f2)
  have en: "ctrl_enter s2 AND ENT_GUEST_64 \<noteq> 0" and ex: "ctrl_exit s2 AND EXI_HOST_64 \<noteq> 0"
    using caps adjust_flag[of ENT_GUEST_64 "ctrl_enter_rev s" "ENT_LOAD_EFER OR ENT_GUEST_64"]
      adjust_flag[of EXI_HOST_64 "ctrl_exit_rev s" "EXI_LOAD_EFER OR EXI_HOST_64"]
    unfolding f2 caps_ok_def by (simp_all add: c_defs)
  obtain cp cc where pc: "ctrl_pin s2 = adjust_ctrl cp (ctrl_pin_rev s)" "ctrl_cpu0 s2 = adjust_ctrl cc (ctrl_cpu_rev0 s)"
    using f2(14,15) by blast
  have "controls_ok ?s'"
    using caps unfolding controls_ok_def read_fields
    by (simp add: image_controls f2(1-13) pc caps_ok_def adjust_allowed)
  moreover have "host_state_ok e ?s'"
    using env is_canonical_0 unfolding host_state_ok_def read_fields
    by (simp add: image_host env_canonical_def list_all_def read_fields)
  moreover have "guest_state_ok e ?s'"
    using guest_cr_bits[OF lm2 en] unfolding guest_state_ok_def read_fields
    by (simp add: image_guest list_all_def read_fields)
  moreover have "vmcs_read EXI_CONTROLS ?s' AND ucast EXI_HOST_64 \<noteq> 0"
    "vmcs_read ENT_CONTROLS ?s' AND ucast ENT_GUEST_64 \<noteq> 0"
    using en ex ucast_and_flag by (simp_all add: read_fields image_controls)
  moreover have "fl_inv ?s' fl"
  proof (rule fl_take[OF fl])
    have al: "aligned 12 p" using fl by (simp add: fl_inv_def)
    show "mframe (mem s) ?m {p}"
      using mframe_trans[OF mframe_memset[OF al] mframe_st32[OF al]] by simp
  qed (simp_all add: f2)
  moreover have "ld32 (mem ?s') p = basic_revision (basic s) AND 0x7fffffff" by (simp add: f2)
  moreover have "caps_of ?s' = caps_of s" "run_fields ?s' = run_fields s" "cregs ?s' = cregs s"
    by (simp_all add: caps_of_def run_fields_def cregs_def s2_def init_ctrl_words_def Let_def)
  moreover have "mframe (mem s) (mem ?s') {p}"
    using mframe_trans[OF mframe_memset mframe_st32, of p p "mem s"] fl by (simp add: f2 fl_inv_def)
  moreover have "vmcs_field ?s' CPU_EXEC_CTRL1 = (if msr_set (ctrl_cpu_rev0 s) AND CPU_SECONDARY \<noteq> 0
      then ucast (adjust_ctrl 0 (ctrl_cpu_rev1 s)) else vmcs_field s CPU_EXEC_CTRL1)"
    by (simp add: image_controls(6)) (simp add: s2_def init_ctrl_words_def Let_def)
  ultimately show ?thesis using r by (intro exI[of _ ?s']) (simp add: f2(1-13))
qed

section \<open>Switching VMX on\<close>

text \<open>The capability registers are constants of the processor.\<close>

definition msr_dev :: "hw \<Rightarrow> (u32 \<Rightarrow> u64) \<Rightarrow> bool" where
  "msr_dev hw msr \<longleftrightarrow> (\<forall>tr i. hw tr (MsrR i) = msr i)"

definition cr_fixed_ok :: "u64 \<Rightarrow> u64 \<Rightarrow> u64 \<Rightarrow> bool" where
  "cr_fixed_ok fixed0 fixed1 v \<longleftrightarrow> fixed0 AND NOT v = 0 \<and> v AND NOT fixed1 = 0"

lemma cr_fixed:
  assumes "f0 AND NOT f1 = 0" "x AND NOT f1 = 0"
  shows "cr_fixed_ok f0 f1 ((c AND f1) OR f0 OR x)"
proof -
  have "bit (f0 AND NOT f1) n = bit 0 n" "bit (x AND NOT f1) n = bit 0 n" for n using assms by simp_all
  then show ?thesis
    by (auto simp: cr_fixed_ok_def bit_simps intro!: bit_word_eqI)
qed

lemma rdmsr_dev: "msr_dev hw msr \<Longrightarrow> rdmsr hw i s = (msr i, s\<lparr>trace := trace s @ [MsrR i]\<rparr>)"
  by (simp add: rdmsr_def hw_read_def msr_dev_def)

lemma rdmsr_if:
  "msr_dev hw msr \<Longrightarrow> (if c then rdmsr hw i s else (0, s)) =
     (if c then msr i else 0, s\<lparr>trace := trace s @ (if c then [MsrR i] else [])\<rparr>)"
  by (simp add: rdmsr_dev)

lemma init_vmx_caps_frame:
  assumes "msr_dev hw msr"
  shows
    "mem (init_vmx_caps hw s) = mem s"
    "freelist (init_vmx_caps hw s) = freelist s"
    "pa_lock (init_vmx_caps hw s) = pa_lock s"
    "fw_lock (init_vmx_caps hw s) = fw_lock s"
    "cr0 (init_vmx_caps hw s) = cr0 s"
    "cr3 (init_vmx_caps hw s) = cr3 s"
    "cr4 (init_vmx_caps hw s) = cr4 s"
    "vmxon_region (init_vmx_caps hw s) = vmxon_region s"
    "current_guest (init_vmx_caps hw s) = current_guest s"
    "launched (init_vmx_caps hw s) = launched s"
    "vmcs_field (init_vmx_caps hw s) = vmcs_field s"
    "vregs (init_vmx_caps hw s) = vregs s"
    "ctrl_pin (init_vmx_caps hw s) = ctrl_pin s"
    "ctrl_cpu0 (init_vmx_caps hw s) = ctrl_cpu0 s"
    "hypercall_field (init_vmx_caps hw s) = hypercall_field s"
    "guest_exits (init_vmx_caps hw s) = guest_exits s"
    "guest_finished (init_vmx_caps hw s) = guest_finished s"
  by (simp_all add: init_vmx_caps_def rdmsr_if[OF assms] rdmsr_dev[OF assms] Let_def split: if_split)

lemma init_vmx_caps_values:
  assumes "msr_dev hw msr"
  shows "basic (init_vmx_caps hw s) = msr MSR_IA32_VMX_BASIC"
    "ctrl_pin_rev (init_vmx_caps hw s) =
       msr (if basic_ctrl (msr MSR_IA32_VMX_BASIC) then MSR_IA32_VMX_TRUE_PIN else MSR_IA32_VMX_PINBASED_CTLS)"
    "ctrl_exit_rev (init_vmx_caps hw s) =
       msr (if basic_ctrl (msr MSR_IA32_VMX_BASIC) then MSR_IA32_VMX_TRUE_EXIT else MSR_IA32_VMX_EXIT_CTLS)"
    "ctrl_enter_rev (init_vmx_caps hw s) =
       msr (if basic_ctrl (msr MSR_IA32_VMX_BASIC) then MSR_IA32_VMX_TRUE_ENTRY else MSR_IA32_VMX_ENTRY_CTLS)"
    "ctrl_cpu_rev0 (init_vmx_caps hw s) =
       msr (if basic_ctrl (msr MSR_IA32_VMX_BASIC) then MSR_IA32_VMX_TRUE_PROC else MSR_IA32_VMX_PROCBASED_CTLS)"
    "ctrl_cpu_rev1 (init_vmx_caps hw s) =
       (if msr_clr (ctrl_cpu_rev0 (init_vmx_caps hw s)) AND CPU_SECONDARY \<noteq> 0 then msr MSR_IA32_VMX_PROCBASED_CTLS2 else 0)"
    "ept_vpid (init_vmx_caps hw s) =
       (if msr_clr (ctrl_cpu_rev1 (init_vmx_caps hw s)) AND (CPU_EPT OR CPU_VPID) \<noteq> 0 then msr MSR_IA32_VMX_EPT_VPID_CAP else 0)"
  by (simp_all add: init_vmx_caps_def rdmsr_if[OF assms] rdmsr_dev[OF assms] Let_def split: if_split)

text \<open>The capabilities read by \<^verbatim>\<open>init_vmx\<close>.\<close>

definition msr_true :: "(u32 \<Rightarrow> u64) \<Rightarrow> u32 \<Rightarrow> u32 \<Rightarrow> u64" where
  "msr_true msr t d = msr (if basic_ctrl (msr MSR_IA32_VMX_BASIC) then t else d)"

definition msr_caps :: "(u32 \<Rightarrow> u64) \<Rightarrow> 'a vmx_state_scheme \<Rightarrow> bool" where
  "msr_caps msr s \<longleftrightarrow>
     ctrl_pin_rev s = msr_true msr MSR_IA32_VMX_TRUE_PIN MSR_IA32_VMX_PINBASED_CTLS \<and>
     ctrl_exit_rev s = msr_true msr MSR_IA32_VMX_TRUE_EXIT MSR_IA32_VMX_EXIT_CTLS \<and>
     ctrl_enter_rev s = msr_true msr MSR_IA32_VMX_TRUE_ENTRY MSR_IA32_VMX_ENTRY_CTLS \<and>
     ctrl_cpu_rev0 s = msr_true msr MSR_IA32_VMX_TRUE_PROC MSR_IA32_VMX_PROCBASED_CTLS \<and>
     ctrl_cpu_rev1 s = (if msr_clr (ctrl_cpu_rev0 s) AND CPU_SECONDARY \<noteq> 0 then msr MSR_IA32_VMX_PROCBASED_CTLS2 else 0) \<and>
     ept_vpid s = (if msr_clr (ctrl_cpu_rev1 s) AND (CPU_EPT OR CPU_VPID) \<noteq> 0 then msr MSR_IA32_VMX_EPT_VPID_CAP else 0)"

lemma init_vmx_ok:
  assumes fl: "fl_inv s (p1 # p2 # p3 # fl)" and dev: "msr_dev hw msr"
  shows "\<exists>s'. init_vmx hw s = Some s' \<and> fl_inv s' fl \<and> vmxon_region s' = p1 \<and> guest_stack s' = p2 \<and>
    guest_syscall_stack s' = p3 \<and> ld64 (mem s') p1 = ucast (basic_revision (msr MSR_IA32_VMX_BASIC)) \<and>
    cr0 s' = (cr0 s AND msr MSR_IA32_VMX_CR0_FIXED1) OR msr MSR_IA32_VMX_CR0_FIXED0 \<and>
    cr4 s' = (cr4 s AND msr MSR_IA32_VMX_CR4_FIXED1) OR msr MSR_IA32_VMX_CR4_FIXED0 OR X86_CR4_VMXE \<and>
    cr3 s' = cr3 s \<and> run_fields s' = run_fields s \<and> vmcs_field s' = vmcs_field s \<and> msr_caps msr s' \<and> basic s' = msr MSR_IA32_VMX_BASIC \<and>
    mframe (mem s) (mem s') {p1, p2, p3}"
proof -
  have al: "aligned 12 p1" "aligned 12 p2" "aligned 12 p3" and d: "p1 \<noteq> p2" "p1 \<noteq> p3" "p2 \<noteq> p3"
    using fl flist_distinct[of "mem s" "freelist s" "p1 # p2 # p3 # fl"] by (auto simp: fl_inv_def)
  define tr where "tr = trace s @ map MsrR [MSR_IA32_VMX_CR0_FIXED0, MSR_IA32_VMX_CR0_FIXED1,
    MSR_IA32_VMX_CR4_FIXED0, MSR_IA32_VMX_CR4_FIXED1]"
  define s0 where "s0 = s\<lparr>freelist := ld64 (mem s) p1, vmxon_region := p1, mem := memset p1 0 PAGE_SIZE (mem s), trace := tr\<rparr>"
  define a where "a = init_vmx_caps hw s0"
  define s1 where "s1 = write_cr4 ((cr4 a AND msr MSR_IA32_VMX_CR4_FIXED1) OR msr MSR_IA32_VMX_CR4_FIXED0 OR X86_CR4_VMXE)
    (write_cr0 ((cr0 a AND msr MSR_IA32_VMX_CR0_FIXED1) OR msr MSR_IA32_VMX_CR0_FIXED0) a)"
  define s2 where "s2 = s1\<lparr>mem := st64 (mem s1) (vmxon_region s1) (ucast (basic_revision (basic s1)))\<rparr>"
  define s3 where "s3 = s2\<lparr>freelist := ld64 (mem s2) p2, guest_stack := p2, mem := memset p2 0 PAGE_SIZE (mem s2)\<rparr>"
  define s4 where "s4 = s3\<lparr>freelist := ld64 (mem s3) p3, guest_syscall_stack := p3, mem := memset p3 0 PAGE_SIZE (mem s3)\<rparr>"
  have a: "mem a = memset p1 0 PAGE_SIZE (mem s)" "freelist a = ld64 (mem s) p1" "pa_lock a = pa_lock s"
    "basic a = msr MSR_IA32_VMX_BASIC" "cr0 a = cr0 s" "cr4 a = cr4 s" "vmxon_region a = p1"
    by (simp_all add: a_def init_vmx_caps_frame[OF dev] init_vmx_caps_values[OF dev] s0_def)
  have f2: "mem s2 = st64 (memset p1 0 PAGE_SIZE (mem s)) (p1 + 8 * 0) (ucast (basic_revision (msr MSR_IA32_VMX_BASIC)))"
    "freelist s2 = ld64 (mem s) p1" "pa_lock s2 = pa_lock s" "vmxon_region s2 = p1"
    by (simp_all add: s2_def s1_def a write_cr0_def write_cr4_def)
  have i2: "fl_inv s2 (p2 # p3 # fl)"
    using fl_take[OF fl _ f2(2,1,3)] mframe_trans[OF mframe_memset[OF al(1)] mframe_st64[OF al(1), of 0]] by simp
  have i3: "fl_inv s3 (p3 # fl)"
    using fl_take[OF i2 mframe_memset[OF al(2)], of s3] by (simp add: s3_def)
  have i4: "fl_inv s4 fl"
    using fl_take[OF i3 mframe_memset[OF al(3)], of s4] by (simp add: s4_def)
  have r: "init_vmx hw s = Some s4"
    using alloc_page_Cons[OF fl] alloc_page_Cons[OF i2] alloc_page_Cons[OF i3] dev
    unfolding init_vmx_def s4_def s3_def
    by (simp add: Let_def rdmsr_dev[OF dev] read_cr0_def read_cr4_def
        a_def s0_def tr_def s1_def s2_def s3_def write_cr0_def)
  have "ent (mem s4) p1 0 = ucast (basic_revision (msr MSR_IA32_VMX_BASIC))"
    using d al ent_st64[OF al(1) al(1), of 0 0] by (simp add: s4_def s3_def f2 ent_memset_page)
  then have "ld64 (mem s4) p1 = ucast (basic_revision (msr MSR_IA32_VMX_BASIC))" by (simp add: ent_def)
  moreover have "vmxon_region s4 = p1" "guest_stack s4 = p2" "guest_syscall_stack s4 = p3"
    by (simp_all add: s4_def s3_def f2)
  moreover have "cr0 s4 = (cr0 s AND msr MSR_IA32_VMX_CR0_FIXED1) OR msr MSR_IA32_VMX_CR0_FIXED0"
    "cr4 s4 = (cr4 s AND msr MSR_IA32_VMX_CR4_FIXED1) OR msr MSR_IA32_VMX_CR4_FIXED0 OR X86_CR4_VMXE"
    by (simp_all add: s4_def s3_def s2_def s1_def a write_cr0_def write_cr4_def)
  moreover have "cr3 s4 = cr3 s" "basic s4 = msr MSR_IA32_VMX_BASIC"
    by (simp_all add: s4_def s3_def s2_def s1_def write_cr0_def write_cr4_def a)
      (simp_all add: a_def init_vmx_caps_frame[OF dev] s0_def)
  moreover have "run_fields s4 = run_fields s" "vmcs_field s4 = vmcs_field s"
    by (simp_all add: run_fields_def s4_def s3_def s2_def s1_def write_cr0_def write_cr4_def)
      (simp_all add: a_def init_vmx_caps_frame[OF dev] s0_def)
  moreover have "msr_caps msr s4"
    by (simp add: msr_caps_def s4_def s3_def s2_def s1_def write_cr0_def write_cr4_def)
      (simp add: a_def init_vmx_caps_values[OF dev] msr_true_def)
  moreover have "mframe (mem s) (mem s4) {p1, p2, p3}"
  proof -
    have "mframe (mem s) (mem s2) {p1}" unfolding f2(1)
      using mframe_trans[OF mframe_memset[OF al(1)] mframe_st64[OF al(1), of 0]] by simp
    moreover have "mframe (mem s2) (mem s3) {p2}" "mframe (mem s3) (mem s4) {p3}"
      using mframe_memset[OF al(2)] mframe_memset[OF al(3)] by (simp_all add: s4_def s3_def)
    ultimately have "mframe (mem s) (mem s4) ({p1} \<union> {p2} \<union> {p3})" using mframe_trans by blast
    then show ?thesis by (rule mframe_mono) auto
  qed
  ultimately show ?thesis using r i4 by blast
qed

section \<open>Properties\<close>

text \<open>C4: when the capability registers are consistent and allow a 64-bit host and guest, the host runs in
  long mode, the addresses given by the linker are canonical and the instructions that load the VMCS
  succeed, \<^verbatim>\<open>init_vmcs\<close> returns 0 and leaves a VMCS that passes the checks on VM entry: all control
  words have every required and no forbidden bit, the host area brings the processor back to the
  hypervisor, the guest area describes a 64-bit guest. The VMCS page carries the processor's
  revision and is taken from the free list.\<close>

theorem init_vmcs_passes_checks:
  assumes "fl_inv s (p # fl)" "\<forall>tr nm. e_hw e tr (VmxInsn nm p) = 0" "caps_ok s" "long_mode s" "env_canonical e"
  shows "\<exists>s'. init_vmcs e s = Some (0, s') \<and> controls_ok s' \<and> host_state_ok e s' \<and> guest_state_ok e s' \<and>
    vmcs_read EXI_CONTROLS s' AND ucast EXI_HOST_64 \<noteq> 0 \<and> vmcs_read ENT_CONTROLS s' AND ucast ENT_GUEST_64 \<noteq> 0 \<and>
    fl_inv s' fl \<and> guest_vmcs s' = p \<and> ld32 (mem s') p = basic_revision (basic s) AND 0x7fffffff"
  using init_vmcs_checks[OF assms(1) _ assms(3-5)] assms(2) by blast

definition vmx1 :: vmx_state where
  "vmx1 = vmx0\<lparr>ctrl_pin_rev := 0xffffffff00000000, ctrl_cpu_rev0 := 0xffffffff00000000,
     ctrl_exit_rev := 0xffffffff00000000, ctrl_enter_rev := 0xffffffff00000000, cr0 := 0x80000001, cr4 := 0x20\<rparr>"

definition env1 :: "vmx_state vmx_env" where
  "env1 = \<lparr>e_hw = \<lambda>_ _. 0, e_cpuid = \<lambda>_ _. \<lparr>cpuid_a = 0, cpuid_b = 0, cpuid_c = 0, cpuid_d = 0\<rparr>,
     e_enter = \<lambda>l g s. None, e_host_gpr = regs0, e_host_rsp = 0, gdt64_desc = \<lparr>dt_limit = 0, dt_base = 0\<rparr>,
     idt_descr = \<lparr>dt_limit = 0, dt_base = 0\<rparr>, tss_descr = \<lparr>dt_limit = 0, dt_base = 0\<rparr>,
     vmx_return = 0, entry_sysenter = 0, guest_entry = 0\<rparr>"

lemma vmx1_ready:
  "fl_inv (give 1 vmx1) [0x100000]" "caps_ok (give 1 vmx1)" "long_mode (give 1 vmx1)" "env_canonical env1"
proof -
  have v: "freelist vmx1 = 0" "pa_lock vmx1 = 0" by (simp_all add: vmx1_def vmx0_def)
  note g = give_free[OF v, of 1]
  show "fl_inv (give 1 vmx1) [0x100000]" using g(1) by (simp add: page_run_def)
  have "pa_state.more (give 1 vmx1) = pa_state.more vmx1" using g(3) by simp
  then have more: "ctrl_pin_rev (give 1 vmx1) = 0xffffffff00000000" "ctrl_cpu_rev0 (give 1 vmx1) = 0xffffffff00000000"
    "ctrl_exit_rev (give 1 vmx1) = 0xffffffff00000000" "ctrl_enter_rev (give 1 vmx1) = 0xffffffff00000000"
    "cr0 (give 1 vmx1) = 0x80000001" "cr4 (give 1 vmx1) = 0x20"
    by (cases "give 1 vmx1"; simp add: vmx1_def vmx0_def)+
  show "caps_ok (give 1 vmx1)" unfolding caps_ok_def more
    by (simp add: cap_ok_def msr_set_def msr_clr_def c_defs)
  show "long_mode (give 1 vmx1)" unfolding long_mode_def more by simp
  show "env_canonical env1" by (simp add: env_canonical_def env1_def is_canonical_0)
qed

theorem init_vmcs_passes_checks_witness:
  "\<exists>s'. init_vmcs env1 (give 1 vmx1) = Some (0, s') \<and> controls_ok s' \<and> host_state_ok env1 s' \<and>
    guest_state_ok env1 s' \<and> guest_vmcs s' = 0x100000"
proof -
  have "\<forall>tr nm. e_hw env1 tr (VmxInsn nm 0x100000) = 0" by (simp add: env1_def)
  from init_vmcs_passes_checks[OF vmx1_ready(1) this vmx1_ready(2-4)] show ?thesis by blast
qed

text \<open>C21: with three free pages \<^verbatim>\<open>init_vmx\<close> returns; CR0 and CR4 then satisfy the fixed bits VMX operation
  demands (CR4 with VMXE set), the VMXON region is a page that starts with the processor's
  revision, and it and the two guest stacks are the pages taken from the free list.\<close>

theorem init_vmx_fixed_bits:
  assumes "fl_inv s (p1 # p2 # p3 # fl)" "msr_dev hw msr"
    "msr MSR_IA32_VMX_CR0_FIXED0 AND NOT (msr MSR_IA32_VMX_CR0_FIXED1) = 0"
    "msr MSR_IA32_VMX_CR4_FIXED0 AND NOT (msr MSR_IA32_VMX_CR4_FIXED1) = 0"
    "X86_CR4_VMXE AND NOT (msr MSR_IA32_VMX_CR4_FIXED1) = 0"
  shows "\<exists>s'. init_vmx hw s = Some s' \<and> fl_inv s' fl \<and> vmxon_region s' = p1 \<and> guest_stack s' = p2 \<and>
    guest_syscall_stack s' = p3 \<and> ld64 (mem s') p1 = ucast (basic_revision (msr MSR_IA32_VMX_BASIC)) \<and>
    cr_fixed_ok (msr MSR_IA32_VMX_CR0_FIXED0) (msr MSR_IA32_VMX_CR0_FIXED1) (cr0 s') \<and>
    cr_fixed_ok (msr MSR_IA32_VMX_CR4_FIXED0) (msr MSR_IA32_VMX_CR4_FIXED1) (cr4 s') \<and>
    cr4 s' AND X86_CR4_VMXE = X86_CR4_VMXE"
proof -
  have vm: "(x OR X86_CR4_VMXE) AND X86_CR4_VMXE = X86_CR4_VMXE" for x :: u64
    by (rule bit_word_eqI) (auto simp: bit_simps)
  have c0: "cr_fixed_ok (msr MSR_IA32_VMX_CR0_FIXED0) (msr MSR_IA32_VMX_CR0_FIXED1)
      ((c AND msr MSR_IA32_VMX_CR0_FIXED1) OR msr MSR_IA32_VMX_CR0_FIXED0)" for c
    using cr_fixed[OF assms(3), of 0 c] by simp
  note c4 = cr_fixed[OF assms(4,5)]
  obtain s' where "init_vmx hw s = Some s'" "fl_inv s' fl" "vmxon_region s' = p1" "guest_stack s' = p2"
    "guest_syscall_stack s' = p3" "ld64 (mem s') p1 = ucast (basic_revision (msr MSR_IA32_VMX_BASIC))"
    "cr0 s' = (cr0 s AND msr MSR_IA32_VMX_CR0_FIXED1) OR msr MSR_IA32_VMX_CR0_FIXED0"
    "cr4 s' = (cr4 s AND msr MSR_IA32_VMX_CR4_FIXED1) OR msr MSR_IA32_VMX_CR4_FIXED0 OR X86_CR4_VMXE"
    using init_vmx_ok[OF assms(1,2)] by blast
  then show ?thesis using c0 c4 vm[of "(cr4 s AND msr MSR_IA32_VMX_CR4_FIXED1) OR msr MSR_IA32_VMX_CR4_FIXED0"]
    by (intro exI[of _ s']) (simp add: or.assoc)
qed

theorem init_vmx_fixed_bits_witness:
  "\<exists>s'. init_vmx (\<lambda>_ e. if e = MsrR 0x489 then 0x2000 else 0) (give 3 vmx0) = Some s' \<and> cr4 s' = 0x2000 \<and>
     vmxon_region s' = 0x100000 \<and> guest_stack s' = 0x101000"
proof -
  let ?msr = "\<lambda>i. if i = 0x489 then 0x2000 else 0 :: u64"
  have v: "freelist vmx0 = 0" "pa_lock vmx0 = 0" by (simp_all add: vmx0_def)
  have i: "fl_inv (give 3 vmx0) [0x100000, 0x101000, 0x102000]"
    using give_free(1)[OF v, of 3] by (simp add: page_run_def upt_rec)
  have d: "msr_dev (\<lambda>_ e. if e = MsrR 0x489 then 0x2000 else 0) ?msr" by (simp add: msr_dev_def)
  obtain s' where s': "init_vmx (\<lambda>_ e. if e = MsrR 0x489 then 0x2000 else 0) (give 3 vmx0) = Some s'"
    "vmxon_region s' = 0x100000" "guest_stack s' = 0x101000" "cr_fixed_ok 0 0x2000 (cr4 s')"
    "cr4 s' AND X86_CR4_VMXE = X86_CR4_VMXE"
    using init_vmx_fixed_bits[OF i d] by (auto simp: c_defs)
  have "cr4 s' = 0x2000"
  proof (rule bit_word_eqI)
    fix n
    have "bit (cr4 s' AND NOT 0x2000) n = bit (0 :: u64) n" "bit (cr4 s' AND 0x2000) n = bit (0x2000 :: u64) n"
      using s'(4,5) by (simp_all add: cr_fixed_ok_def X86_CR4_VMXE_def)
    then show "bit (cr4 s') n = bit (0x2000 :: u64) n" by (auto simp: bit_simps dest: bit_imp_le_length)
  qed
  then show ?thesis using s' by blast
qed

end
