(* ===== verification/Strings.thy ===== *)
theory Strings
  imports Cstring "HOL-Library.Sublist"
begin

text \<open>
  The rest of \<^verbatim>\<open>lib/string.c\<close> over byte memory. A loop over a string that may lack its terminator is a
  \<open>partial_function\<close>; loops with a count are total. Characters are signed, as on this processor.
\<close>

section \<open>Definitions\<close>

definition schar :: "u8 \<Rightarrow> int" where
  "schar c = sint c"

partial_function (option) strlen_loop :: "mem \<Rightarrow> u64 \<Rightarrow> u64 \<Rightarrow> u64 option" where
  "strlen_loop m buf len = (if m buf \<noteq> 0 then strlen_loop m (buf + 1) (len + 1) else Some len)"

definition strlen :: "mem \<Rightarrow> u64 \<Rightarrow> u64 option" where
  "strlen m buf = strlen_loop m buf 0"

partial_function (option) skip_to_nul :: "mem \<Rightarrow> u64 \<Rightarrow> u64 option" where
  "skip_to_nul m p = (if m p \<noteq> 0 then skip_to_nul m (p + 1) else Some p)"

partial_function (option) copy_str :: "mem \<Rightarrow> u64 \<Rightarrow> u64 \<Rightarrow> mem option" where
  "copy_str m p src =
     (let c = m src; m = m(p := c) in if c \<noteq> 0 then copy_str m (p + 1) (src + 1) else Some m)"

definition strcat :: "mem \<Rightarrow> u64 \<Rightarrow> u64 \<Rightarrow> (u64 \<times> mem) option" where
  "strcat m dest src = do { p \<leftarrow> skip_to_nul m dest; m \<leftarrow> copy_str m p src; Some (dest, m) }"

definition strcpy :: "mem \<Rightarrow> u64 \<Rightarrow> u64 \<Rightarrow> (u64 \<times> mem) option" where
  "strcpy m dest src = strcat (m(dest := 0)) dest src"

fun strncmp_loop :: "mem \<Rightarrow> nat \<Rightarrow> u64 \<Rightarrow> u64 \<Rightarrow> int" where
  "strncmp_loop m 0 a b = 0"
| "strncmp_loop m (Suc n) a b =
     (if m a \<noteq> m b \<or> m a = 0 then schar (m a) - schar (m b) else strncmp_loop m n (a + 1) (b + 1))"

definition strncmp :: "mem \<Rightarrow> u64 \<Rightarrow> u64 \<Rightarrow> u64 \<Rightarrow> int" where
  "strncmp m a b n = strncmp_loop m (unat n) a b"

definition strcmp :: "mem \<Rightarrow> u64 \<Rightarrow> u64 \<Rightarrow> int" where
  "strcmp m a b = strncmp m a b (- 1)"

text \<open>\<^verbatim>\<open>strchr\<close>: the result 0 is NULL.\<close>

partial_function (option) strchr :: "mem \<Rightarrow> u64 \<Rightarrow> u8 \<Rightarrow> u64 option" where
  "strchr m s c = (if m s \<noteq> c then (if m s = 0 then Some 0 else strchr m (s + 1) c) else Some s)"

fun memcmp_loop :: "mem \<Rightarrow> nat \<Rightarrow> u64 \<Rightarrow> u64 \<Rightarrow> int" where
  "memcmp_loop m 0 a b = 0"
| "memcmp_loop m (Suc n) a b =
     (let ret = uint (m a) - uint (m b) in if ret \<noteq> 0 then ret else memcmp_loop m n (a + 1) (b + 1))"

definition memcmp :: "mem \<Rightarrow> u64 \<Rightarrow> u64 \<Rightarrow> u64 \<Rightarrow> int" where
  "memcmp m s1 s2 n = memcmp_loop m (unat n) s1 s2"

function strstr_loop :: "mem \<Rightarrow> u64 \<Rightarrow> u64 \<Rightarrow> u64 \<Rightarrow> u64 \<Rightarrow> u64" where
  "strstr_loop m s1 s2 l1 l2 =
     (if l1 < l2 \<or> l2 = 0 then 0
      else if memcmp m s1 s2 l2 = 0 then s1
      else strstr_loop m (s1 + 1) s2 (l1 - 1) l2)"
  by pat_completeness auto
termination
proof (relation "measure (\<lambda>(m, s1, s2, l1, l2). unat l1)")
  fix m s1 s2 and l1 l2 :: u64
  assume "\<not> (l1 < l2 \<or> l2 = 0)"
  then have "0 < l1" by (metis not_less word_gt_0 order_le_less_trans word_le_0_iff)
  then have "l1 \<noteq> 0" "0 < unat l1" by (auto simp: word_less_nat_alt)
  then show "((m, s1 + 1, s2, l1 - 1, l2), m, s1, s2, l1, l2) \<in> measure (\<lambda>(m, s1, s2, l1, l2). unat l1)"
    by (simp add: unat_minus_one)
qed simp

declare strstr_loop.simps [simp del]

definition strstr :: "mem \<Rightarrow> u64 \<Rightarrow> u64 \<Rightarrow> u64 option" where
  "strstr m s1 s2 = do {
     l2 \<leftarrow> strlen m s2;
     if l2 = 0 then Some s1
     else do { l1 \<leftarrow> strlen m s1; Some (strstr_loop m s1 s2 l1 l2) }
   }"

fun memcpy_loop :: "u64 \<Rightarrow> u64 \<Rightarrow> nat \<Rightarrow> nat \<Rightarrow> mem \<Rightarrow> mem" where
  "memcpy_loop a b i 0 m = m"
| "memcpy_loop a b i (Suc n) m = memcpy_loop a b (Suc i) n (m(a + of_nat i := m (b + of_nat i)))"

definition memcpy :: "u64 \<Rightarrow> u64 \<Rightarrow> u64 \<Rightarrow> mem \<Rightarrow> mem" where
  "memcpy dest src n m = memcpy_loop dest src 0 (unat n) m"

fun move_up :: "u64 \<Rightarrow> u64 \<Rightarrow> nat \<Rightarrow> mem \<Rightarrow> mem" where
  "move_up d s 0 m = m"
| "move_up d s (Suc n) m = move_up (d + 1) (s + 1) n (m(d := m s))"

fun move_down :: "u64 \<Rightarrow> u64 \<Rightarrow> nat \<Rightarrow> mem \<Rightarrow> mem" where
  "move_down d s 0 m = m"
| "move_down d s (Suc n) m = move_down (d - 1) (s - 1) n (m(d - 1 := m (s - 1)))"

definition memmove :: "u64 \<Rightarrow> u64 \<Rightarrow> u64 \<Rightarrow> mem \<Rightarrow> mem" where
  "memmove dest src n m =
     (if dest \<le> src then move_up dest src (unat n) m
      else move_down (dest + n) (src + n) (unat n) m)"

fun memchr_loop :: "mem \<Rightarrow> nat \<Rightarrow> u64 \<Rightarrow> u8 \<Rightarrow> u64" where
  "memchr_loop m 0 s c = 0"
| "memchr_loop m (Suc n) s c = (if m s = c then s else memchr_loop m n (s + 1) c)"

definition memchr :: "mem \<Rightarrow> u64 \<Rightarrow> u8 \<Rightarrow> u64 \<Rightarrow> u64" where
  "memchr m s c n = memchr_loop m (unat n) s c"

text \<open>\<^verbatim>\<open>atol\<close>: the accumulator is a \<^verbatim>\<open>long\<close> and is kept in 64 bits.\<close>

partial_function (option) skip_blank :: "mem \<Rightarrow> u64 \<Rightarrow> u64 option" where
  "skip_blank m s = (if m s = 0x20 \<or> m s = 0x09 then skip_blank m (s + 1) else Some s)"

partial_function (option) atol_digits :: "mem \<Rightarrow> u64 \<Rightarrow> u64 \<Rightarrow> u64 option" where
  "atol_digits m s acc =
     (if m s \<noteq> 0 \<and> \<not> (schar (m s) < 48 \<or> schar (m s) > 57)
      then atol_digits m (s + 1) (acc * 10 + of_int (schar (m s) - 48))
      else Some acc)"

definition atol :: "mem \<Rightarrow> u64 \<Rightarrow> u64 option" where
  "atol m ptr = do {
     s \<leftarrow> skip_blank m ptr;
     let (neg, s) = (if m s = 0x2d then (True, s + 1)
                     else if m s = 0x2b then (False, s + 1) else (False, s));
     acc \<leftarrow> atol_digits m s 0;
     Some (if neg then - acc else acc)
   }"

text \<open>\<^verbatim>\<open>getenv\<close>: \<^verbatim>\<open>environ\<close> is a NULL-terminated array of pointers.\<close>

partial_function (option) getenv_loop :: "mem \<Rightarrow> u64 \<Rightarrow> u64 \<Rightarrow> u64 option" where
  "getenv_loop m name envp =
     (if ld64 m envp = 0 then Some 0
      else Option.bind (strchr m (ld64 m envp) 0x3d)
        (\<lambda>delim. if delim \<noteq> 0 \<and> strncmp m name (ld64 m envp) (delim - ld64 m envp) = 0
                 then Some (delim + 1) else getenv_loop m name (envp + 8)))"

definition getenv :: "mem \<Rightarrow> u64 \<Rightarrow> u64 \<Rightarrow> u64 option" where
  "getenv m environ name = getenv_loop m name environ"

text \<open>\<^verbatim>\<open>simple_glob\<close>: \<open>copy\<close> is the address of the local array; the part after the test for a
  leading star is a function of its own.\<close>

definition glob_rest :: "mem \<Rightarrow> u64 \<Rightarrow> u64 \<Rightarrow> u64 \<Rightarrow> u64 \<Rightarrow> bool \<Rightarrow> bool option" where
  "glob_rest m copy txt pattern n star_start = do {
     (r, m) \<leftarrow> strcpy m copy pattern;
     let (n, m, star_end) =
       (if 0 < n \<and> m (pattern + n - 1) = 0x2a then (n - 1, m(copy + (n - 1) := 0), True) else (n, m, False));
     if star_start \<and> star_end then map_option (\<lambda>p. p \<noteq> 0) (strstr m txt copy)
     else if star_end then map_option (\<lambda>p. p = txt) (strstr m txt copy)
     else if star_start then do {
       text_len \<leftarrow> strlen m txt;
       if text_len < n then Some False
       else Some (strcmp m (txt + text_len - n) copy = 0)
     }
     else Some (strcmp m txt copy = 0)
   }"

definition simple_glob :: "mem \<Rightarrow> u64 \<Rightarrow> u64 \<Rightarrow> u64 \<Rightarrow> bool option" where
  "simple_glob m copy txt pattern = do {
     n \<leftarrow> strlen m pattern;
     if m pattern = 0x2a then glob_rest m copy txt (pattern + 1) (n - 1) True
     else glob_rest m copy txt pattern n False
   }"

section \<open>Strings in memory\<close>

fun cstr :: "mem \<Rightarrow> u64 \<Rightarrow> u8 list \<Rightarrow> bool" where
  "cstr m a [] \<longleftrightarrow> m a = 0"
| "cstr m a (x # xs) \<longleftrightarrow> m a = x \<and> x \<noteq> 0 \<and> cstr m (a + 1) xs"

fun write_bytes :: "mem \<Rightarrow> u64 \<Rightarrow> u8 list \<Rightarrow> mem" where
  "write_bytes m a [] = m"
| "write_bytes m a (x # xs) = write_bytes (m(a := x)) (a + 1) xs"

lemma cstr_nth: "cstr m a xs \<Longrightarrow> i < length xs \<Longrightarrow> m (a + of_nat i) = xs ! i \<and> xs ! i \<noteq> 0"
proof (induction xs arbitrary: a i)
  case (Cons x xs)
  then show ?case using Cons.IH[of "a + 1" "i - 1"] by (cases i) (auto simp: add.assoc)
qed simp

lemma cstr_end: "cstr m a xs \<Longrightarrow> m (a + of_nat (length xs)) = 0"
proof (induction xs arbitrary: a)
  case (Cons x xs)
  then show ?case using Cons.IH[of "a + 1"] by (simp add: add.assoc)
qed simp

lemma cstr_iff:
  "cstr m a xs \<longleftrightarrow> (\<forall>i<length xs. m (a + of_nat i) = xs ! i \<and> xs ! i \<noteq> 0) \<and> m (a + of_nat (length xs)) = 0"
proof (induction xs arbitrary: a)
  case (Cons x xs)
  have "(\<forall>i<length (x # xs). m (a + of_nat i) = (x # xs) ! i \<and> (x # xs) ! i \<noteq> 0) \<longleftrightarrow>
      m a = x \<and> x \<noteq> 0 \<and> (\<forall>i<length xs. m (a + 1 + of_nat i) = xs ! i \<and> xs ! i \<noteq> 0)"
    by (auto simp: less_Suc_eq_0_disj add.assoc)
  then show ?case using Cons.IH[of "a + 1"] by (auto simp: add.assoc)
qed simp

lemma cstr_length: "cstr m a xs \<Longrightarrow> length xs < 2 ^ 64"
proof (rule ccontr)
  assume c: "cstr m a xs" and "\<not> length xs < 2 ^ 64"
  then have l: "2 ^ 64 \<le> length xs" by simp
  let ?i = "length xs mod 2 ^ 64"
  have "?i < 2 ^ 64" by simp
  then have lt: "?i < length xs" using l by linarith
  have "(of_nat (length xs) :: u64) = of_nat ?i"
    by (rule word_unat_eq_iff[THEN iffD2]) (simp only: unat_of_nat, simp add: take_bit_eq_mod)
  then show False using cstr_nth[OF c lt] cstr_end[OF c] by simp
qed

lemma cstr_drop: "cstr m a xs \<Longrightarrow> i \<le> length xs \<Longrightarrow> cstr m (a + of_nat i) (drop i xs)"
proof (induction xs arbitrary: a i)
  case (Cons x xs)
  then show ?case using Cons.IH[of "a + 1" "i - 1"] by (cases i) (auto simp: add.assoc)
qed simp

lemma cstr_unique: "cstr m a xs \<Longrightarrow> cstr m a ys \<Longrightarrow> xs = ys"
proof (induction xs arbitrary: a ys)
  case Nil
  then show ?case by (cases ys) auto
next
  case (Cons x xs)
  then show ?case by (cases ys) auto
qed

lemma cstr_frame: "(\<And>i. i \<le> length xs \<Longrightarrow> m' (a + of_nat i) = m (a + of_nat i)) \<Longrightarrow> cstr m a xs \<Longrightarrow> cstr m' a xs"
  by (auto simp: cstr_iff)

lemma strlen_loop_cstr: "cstr m a xs \<Longrightarrow> strlen_loop m a n = Some (n + of_nat (length xs))"
proof (induction xs arbitrary: a n)
  case Nil
  then show ?case by (subst strlen_loop.simps) simp
next
  case (Cons x xs)
  then show ?case by (subst strlen_loop.simps) (auto simp: algebra_simps)
qed

lemma strlen_cstr: "cstr m a xs \<Longrightarrow> strlen m a = Some (of_nat (length xs))"
  by (simp add: strlen_def strlen_loop_cstr)

lemma skip_to_nul_cstr: "cstr m a xs \<Longrightarrow> skip_to_nul m a = Some (a + of_nat (length xs))"
proof (induction xs arbitrary: a)
  case Nil
  then show ?case by (subst skip_to_nul.simps) simp
next
  case (Cons x xs)
  then show ?case by (subst skip_to_nul.simps) (auto simp: algebra_simps)
qed

lemma strncmp_loop_zero:
  "cstr m a xs \<Longrightarrow> cstr m b ys \<Longrightarrow> strncmp_loop m n a b = 0 \<longleftrightarrow> take n xs = take n ys"
proof (induction n arbitrary: a b xs ys)
  case (Suc n)
  have inj: "schar x = schar y \<longleftrightarrow> x = y" for x y by (auto simp: schar_def intro: signed_word_eqI)
  show ?case
  proof (cases xs; cases ys)
    fix x xs' y ys' assume e: "xs = x # xs'" "ys = y # ys'"
    then show ?thesis using Suc.IH[of "a + 1" xs' "b + 1" ys'] Suc.prems by (auto simp: inj)
  qed (use Suc.prems in \<open>auto simp: inj\<close>)
qed simp

lemma strcmp_cstr: "cstr m a xs \<Longrightarrow> cstr m b ys \<Longrightarrow> strcmp m a b = 0 \<longleftrightarrow> xs = ys"
proof -
  assume c: "cstr m a xs" "cstr m b ys"
  have n: "unat (- 1 :: u64) = 2 ^ 64 - 1" by (simp add: unsigned_minus_1_eq_mask mask_eq_exp_minus_1)
  have "length xs \<le> 2 ^ 64 - 1" "length ys \<le> 2 ^ 64 - 1" using cstr_length[OF c(1)] cstr_length[OF c(2)] by auto
  then show ?thesis using strncmp_loop_zero[OF c, of "2 ^ 64 - 1"] unfolding strcmp_def strncmp_def n by simp
qed

lemma memcmp_loop_zero: "memcmp_loop m n a b = 0 \<longleftrightarrow> (\<forall>i<n. m (a + of_nat i) = m (b + of_nat i))"
proof (induction n arbitrary: a b)
  case (Suc n)
  have "(\<forall>i<Suc n. m (a + of_nat i) = m (b + of_nat i)) \<longleftrightarrow>
      m a = m b \<and> (\<forall>i<n. m (a + 1 + of_nat i) = m (b + 1 + of_nat i))"
    by (auto simp: less_Suc_eq_0_disj add.assoc)
  moreover have "uint (m a) - uint (m b) = 0 \<longleftrightarrow> m a = m b" by (simp add: word_uint_eq_iff)
  ultimately show ?case using Suc.IH[of "a + 1" "b + 1"] by (simp add: Let_def)
qed simp

lemma memcmp_prefix:
  assumes "cstr m a xs" "cstr m b ys" "length ys \<le> length xs"
  shows "memcmp m a b (of_nat (length ys)) = 0 \<longleftrightarrow> prefix ys xs"
proof -
  have u: "unat (of_nat (length ys) :: u64) = length ys"
    using cstr_length[OF assms(2)] by (simp add: unat_of_nat take_bit_nat_eq_self)
  have "memcmp m a b (of_nat (length ys)) = 0 \<longleftrightarrow> (\<forall>i<length ys. xs ! i = ys ! i)"
    using assms cstr_nth[OF assms(1)] cstr_nth[OF assms(2)] by (auto simp: memcmp_def u memcmp_loop_zero)
  also have "\<dots> \<longleftrightarrow> take (length ys) xs = ys" using assms(3) by (auto simp: list_eq_iff_nth_eq)
  also have "\<dots> \<longleftrightarrow> prefix ys xs" by (auto simp: prefix_def) (metis append_take_drop_id)
  finally show ?thesis .
qed

lemma unat_of_nat64: "n < 2 ^ 64 \<Longrightarrow> unat (of_nat n :: u64) = n"
  by (simp add: unat_of_nat take_bit_nat_eq_self)

section \<open>Searching\<close>

text \<open>\<open>r\<close> is the address of the first occurrence of \<open>ys\<close> in the string \<open>xs\<close> at \<open>a\<close>, or 0 when there
  is none.\<close>

definition first_occurrence :: "u8 list \<Rightarrow> u8 list \<Rightarrow> u64 \<Rightarrow> u64 \<Rightarrow> bool" where
  "first_occurrence ys xs a r \<longleftrightarrow>
    (\<exists>i\<le>length xs. r = a + of_nat i \<and> prefix ys (drop i xs) \<and> (\<forall>j<i. \<not> prefix ys (drop j xs))) \<or>
    r = 0 \<and> (\<forall>j\<le>length xs. \<not> prefix ys (drop j xs))"

lemma first_occurrence_step:
  assumes "first_occurrence ys xs (a + 1) r" "\<not> prefix ys (x # xs)"
  shows "first_occurrence ys (x # xs) a r"
  using assms(1) unfolding first_occurrence_def
proof (elim disjE exE conjE)
  fix i assume i: "i \<le> length xs" "r = a + 1 + of_nat i" "prefix ys (drop i xs)" "\<forall>j<i. \<not> prefix ys (drop j xs)"
  have "\<not> prefix ys (drop j (x # xs))" if "j < Suc i" for j using that i(4) assms(2) by (cases j) auto
  then show "(\<exists>i\<le>length (x # xs). r = a + of_nat i \<and> prefix ys (drop i (x # xs)) \<and>
      (\<forall>j<i. \<not> prefix ys (drop j (x # xs)))) \<or> r = 0 \<and> (\<forall>j\<le>length (x # xs). \<not> prefix ys (drop j (x # xs)))"
    using i by (intro disjI1 exI[of _ "Suc i"]) (simp add: algebra_simps)
next
  assume r: "r = 0" "\<forall>j\<le>length xs. \<not> prefix ys (drop j xs)"
  have "\<not> prefix ys (drop j (x # xs))" if "j \<le> length (x # xs)" for j using that r(2) assms(2) by (cases j) auto
  then show "(\<exists>i\<le>length (x # xs). r = a + of_nat i \<and> prefix ys (drop i (x # xs)) \<and>
      (\<forall>j<i. \<not> prefix ys (drop j (x # xs)))) \<or> r = 0 \<and> (\<forall>j\<le>length (x # xs). \<not> prefix ys (drop j (x # xs)))"
    using r by blast
qed

lemma strstr_loop_spec:
  assumes "cstr m a xs" "cstr m b ys" "ys \<noteq> []"
  shows "first_occurrence ys xs a (strstr_loop m a b (of_nat (length xs)) (of_nat (length ys)))"
  using assms(1)
proof (induction xs arbitrary: a)
  case Nil
  have "(0 :: u64) < of_nat (length ys)"
  proof -
    have "unat (of_nat (length ys) :: u64) = length ys"
      using cstr_length[OF assms(2)] by (simp add: unat_of_nat take_bit_nat_eq_self)
    then show ?thesis using assms(3) by (simp add: word_less_nat_alt)
  qed
  then show ?case using assms(3) by (subst strstr_loop.simps) (simp add: first_occurrence_def)
next
  case (Cons x xs)
  have u: "unat (of_nat (length ys) :: u64) = length ys" "unat (of_nat (length (x # xs)) :: u64) = length (x # xs)"
    using cstr_length[OF assms(2)] cstr_length[OF Cons.prems] by (simp_all only: unat_of_nat64)
  have lt: "(of_nat (length (x # xs)) :: u64) < of_nat (length ys) \<longleftrightarrow> length (x # xs) < length ys"
    unfolding word_less_nat_alt u ..
  have nz: "(of_nat (length ys) :: u64) \<noteq> 0" using u(1) assms(3) by (metis length_0_conv unat_0)
  have dec: "(of_nat (length (x # xs)) :: u64) - 1 = of_nat (length xs)" by simp
  consider (short) "length (x # xs) < length ys" | (hit) "length ys \<le> length (x # xs)" "prefix ys (x # xs)"
    | (miss) "length ys \<le> length (x # xs)" "\<not> prefix ys (x # xs)" by linarith
  then show ?case
  proof cases
    case short
    then have "\<not> prefix ys (drop j (x # xs))" for j using prefix_length_le[of ys "drop j (x # xs)"] by auto
    moreover have "strstr_loop m a b (of_nat (length (x # xs))) (of_nat (length ys)) = 0"
      using short lt by (subst strstr_loop.simps) simp
    ultimately show ?thesis by (simp add: first_occurrence_def)
  next
    case hit
    have "strstr_loop m a b (of_nat (length (x # xs))) (of_nat (length ys)) = a"
      using hit lt nz memcmp_prefix[OF Cons.prems assms(2)] by (subst strstr_loop.simps) simp
    then show ?thesis using hit unfolding first_occurrence_def by (intro disjI1 exI[of _ 0]) auto
  next
    case miss
    have st: "strstr_loop m a b (of_nat (length (x # xs))) (of_nat (length ys)) =
        strstr_loop m (a + 1) b (of_nat (length xs)) (of_nat (length ys))"
      using miss lt nz memcmp_prefix[OF Cons.prems assms(2)] dec by (subst strstr_loop.simps) simp
    have "cstr m (a + 1) xs" using Cons.prems by simp
    from first_occurrence_step[OF Cons.IH[OF this] miss(2)] show ?thesis unfolding st .
  qed
qed

section \<open>Copying\<close>

lemma write_bytes_other:
  "(\<And>i. i < length xs \<Longrightarrow> x \<noteq> a + of_nat i) \<Longrightarrow> write_bytes m a xs x = m x"
proof (induction xs arbitrary: a m)
  case (Cons y ys)
  have "x \<noteq> a" using Cons.prems[of 0] by simp
  moreover have "x \<noteq> a + 1 + of_nat i" if "i < length ys" for i
    using Cons.prems[of "Suc i"] that by (simp add: algebra_simps)
  ultimately have "write_bytes (m(a := y)) (a + 1) ys x = (m(a := y)) x" by (intro Cons.IH) auto
  then show ?case using \<open>x \<noteq> a\<close> by simp
qed simp

lemma of_nat_inj64: "i < 2 ^ 64 \<Longrightarrow> j < 2 ^ 64 \<Longrightarrow> (of_nat i :: u64) = of_nat j \<longleftrightarrow> i = j"
proof -
  assume "i < 2 ^ 64" "j < 2 ^ 64"
  then have "unat (of_nat i :: u64) = i" "unat (of_nat j :: u64) = j"
    by (simp_all add: unat_of_nat take_bit_nat_eq_self)
  then show ?thesis by metis
qed

lemma write_bytes_nth:
  "length xs \<le> 2 ^ 64 \<Longrightarrow> i < length xs \<Longrightarrow> write_bytes m a xs (a + of_nat i) = xs ! i"
proof (induction xs arbitrary: a m i)
  case (Cons y ys)
  show ?case
  proof (cases i)
    case 0
    have "write_bytes (m(a := y)) (a + 1) ys a = (m(a := y)) a"
    proof (rule write_bytes_other)
      fix j assume j: "j < length ys"
      then have "of_nat 0 \<noteq> (of_nat (Suc j) :: u64)" using of_nat_inj64[of 0 "Suc j"] Cons.prems(1) by simp
      then show "a \<noteq> a + 1 + of_nat j" by (simp add: algebra_simps)
    qed
    then show ?thesis using 0 by simp
  next
    case (Suc k)
    then have "write_bytes (m(a := y)) (a + 1) ys (a + 1 + of_nat k) = ys ! k"
      using Cons.prems by (intro Cons.IH) simp_all
    then show ?thesis using Suc by (simp add: add.assoc)
  qed
qed simp

lemma copy_str_cstr:
  assumes "cstr m src xs" "\<And>i j. i \<le> length xs \<Longrightarrow> j \<le> length xs \<Longrightarrow> p + of_nat i \<noteq> src + of_nat j"
  shows "copy_str m p src = Some (write_bytes m p (xs @ [0]))"
  using assms
proof (induction xs arbitrary: m p src)
  case Nil
  then show ?case by (subst copy_str.simps) simp
next
  case (Cons x xs)
  have dis: "p + 1 + of_nat i \<noteq> src + 1 + of_nat j" if "i \<le> length xs" "j \<le> length xs" for i j
    using Cons.prems(2)[of "Suc i" "Suc j"] that by (simp add: algebra_simps)
  have "cstr (m(p := x)) (src + 1) xs"
  proof (rule cstr_frame[where m = m])
    fix j assume "j \<le> length xs"
    then show "(m(p := x)) (src + 1 + of_nat j) = m (src + 1 + of_nat j)"
      using Cons.prems(2)[of 0 "Suc j"] by (auto simp: algebra_simps)
  qed (use Cons.prems in simp)
  then have "copy_str (m(p := x)) (p + 1) (src + 1) = Some (write_bytes (m(p := x)) (p + 1) (xs @ [0]))"
    using dis by (rule Cons.IH)
  then show ?case using Cons.prems(1) by (subst copy_str.simps) (simp add: Let_def)
qed

lemma cstr_write:
  assumes "0 \<notin> set xs" "length xs < 2 ^ 64"
  shows "cstr (write_bytes m p (xs @ [0])) p xs"
proof -
  have "write_bytes m p (xs @ [0]) (p + of_nat i) = (xs @ [0]) ! i" if "i < length (xs @ [0])" for i
    using assms(2) that by (intro write_bytes_nth) simp_all
  then show ?thesis using assms(1) by (auto simp: cstr_iff nth_append in_set_conv_nth)
qed

lemma strcpy_cstr:
  assumes "cstr m src xs" "\<And>i j. i \<le> length xs \<Longrightarrow> j \<le> length xs \<Longrightarrow> p + of_nat i \<noteq> src + of_nat j"
  shows "strcpy m p src = Some (p, write_bytes m p (xs @ [0]))"
proof -
  have c: "cstr (m(p := 0)) src xs"
  proof (rule cstr_frame[OF _ assms(1)])
    fix j assume "j \<le> length xs"
    then show "(m(p := 0)) (src + of_nat j) = m (src + of_nat j)" using assms(2)[of 0 j] by auto
  qed
  have "skip_to_nul (m(p := 0)) p = Some p" by (subst skip_to_nul.simps) simp
  moreover have "write_bytes (m(p := 0)) p (xs @ [0]) = write_bytes m p (xs @ [0])" by (cases xs) simp_all
  ultimately show ?thesis using copy_str_cstr[OF c assms(2)] by (simp add: strcpy_def strcat_def)
qed

section \<open>Moving blocks\<close>

lemma unat_add_nowrap: "unat (a :: u64) + unat b < 2 ^ 64 \<Longrightarrow> unat (a + b) = unat a + unat b"
  by (simp add: unat_word_ariths)

lemma move_up_apply:
  "d \<le> s \<Longrightarrow> unat s + n \<le> 2 ^ 64 \<Longrightarrow> n < 2 ^ 64 \<Longrightarrow>
   move_up d s n m x = (if unat (x - d) < n then m (s + (x - d)) else m x)"
proof (induction n arbitrary: d s m)
  case (Suc n)
  show ?case
  proof (cases "n = 0")
    case True
    then show ?thesis by (auto simp: unat_eq_zero)
  next
    case False
    have u1: "unat (d + 1) = unat d + 1" "unat (s + 1) = unat s + 1"
      using Suc.prems False by (auto simp: unat_word_ariths word_le_nat_alt)
    have ih: "move_up (d + 1) (s + 1) n (m(d := m s)) x =
        (if unat (x - (d + 1)) < n then (m(d := m s)) (s + 1 + (x - (d + 1))) else (m(d := m s)) x)"
      using Suc.prems u1 by (intro Suc.IH) (auto simp: word_le_nat_alt)
    show ?thesis
    proof (cases "x = d")
      case True
      have "unat (- 1 :: u64) = 2 ^ 64 - 1" by (simp add: unsigned_minus_1_eq_mask mask_eq_exp_minus_1)
      then show ?thesis using ih Suc.prems True by simp
    next
      case False
      then have "x - d \<noteq> 0" by simp
      then have u: "unat (x - (d + 1)) = unat (x - d) - 1" "0 < unat (x - d)"
        using unat_minus_one[of "x - d"] by (simp_all add: algebra_simps unat_gt_0)
      have e: "s + 1 + (x - (d + 1)) = s + (x - d)" by (simp add: algebra_simps)
      have "s + (x - d) \<noteq> d" if "unat (x - d) < Suc n"
      proof -
        have "unat (s + (x - d)) = unat s + unat (x - d)"
          using that Suc.prems by (intro unat_add_nowrap) linarith
        then have "unat (s + (x - d)) \<noteq> unat d" using u(2) Suc.prems(1) by (simp add: word_le_nat_alt)
        then show ?thesis by metis
      qed
      then show ?thesis using ih u False unfolding e by auto
    qed
  qed
qed simp

lemma move_down_apply:
  "s < d \<Longrightarrow> unat d + n \<le> 2 ^ 64 \<Longrightarrow>
   move_down (d + of_nat n) (s + of_nat n) n m x = (if unat (x - d) < n then m (s + (x - d)) else m x)"
proof (induction n arbitrary: m)
  case (Suc n)
  have nn: "unat (of_nat n :: u64) = n" using Suc.prems by (intro unat_of_nat64) auto
  have e: "d + of_nat (Suc n) - 1 = d + of_nat n" "s + of_nat (Suc n) - 1 = s + of_nat n" by simp_all
  let ?m = "m(d + of_nat n := m (s + of_nat n))"
  have ih: "move_down (d + of_nat n) (s + of_nat n) n ?m x = (if unat (x - d) < n then ?m (s + (x - d)) else ?m x)"
    using Suc.prems by (intro Suc.IH) auto
  have ne: "s + (x - d) \<noteq> d + of_nat n" if "unat (x - d) < n"
  proof -
    have "unat (s + (x - d)) = unat s + unat (x - d)" "unat (d + of_nat n) = unat d + n"
      using that Suc.prems nn by (auto simp: word_less_nat_alt intro!: unat_add_nowrap[THEN trans])
    then have "unat (s + (x - d)) \<noteq> unat (d + of_nat n)" using that Suc.prems(1) by (simp add: word_less_nat_alt)
    then show ?thesis by metis
  qed
  have x: "x = d + of_nat n \<longleftrightarrow> unat (x - d) = n"
  proof
    assume "unat (x - d) = n"
    then have "x - d = of_nat n" using nn by (metis word_unat_eq_iff)
    then show "x = d + of_nat n" by (simp add: algebra_simps)
  qed (simp add: nn)
  show ?case unfolding move_down.simps e ih
    using ne x by (auto simp: less_Suc_eq)
qed simp

lemma memmove_apply:
  assumes "unat dest + unat n \<le> 2 ^ 64" "unat src + unat n \<le> 2 ^ 64"
  shows "memmove dest src n m x = (if x - dest < n then m (src + (x - dest)) else m x)"
proof (cases "dest \<le> src")
  case True
  have "unat n < 2 ^ 64" by simp
  then show ?thesis using move_up_apply[OF True assms(2)] True by (simp add: memmove_def word_less_nat_alt)
next
  case False
  then have "src < dest" by simp
  then show ?thesis using move_down_apply[of src dest "unat n" m x] assms(1) False
    by (simp add: memmove_def word_less_nat_alt[of "x - dest" n])
qed

section \<open>Patterns\<close>

text \<open>What a pattern matches: a star at the beginning, a star at the end of the rest.\<close>

definition glob_match :: "u8 list \<Rightarrow> u8 list \<Rightarrow> bool" where
  "glob_match p t =
     (let (ss, q) = (if p \<noteq> [] \<and> hd p = 0x2a then (True, tl p) else (False, p));
          (se, q) = (if q \<noteq> [] \<and> last q = 0x2a then (True, butlast q) else (False, q))
      in if ss \<and> se then sublist q t else if se then prefix q t else if ss then suffix q t else t = q)"

lemma strstr_cstr:
  assumes "cstr m a xs" "cstr m b ys"
  shows "\<exists>r. strstr m a b = Some r \<and> first_occurrence ys xs a r"
proof (cases "ys = []")
  case True
  have "strstr m a b = Some a" using strlen_cstr[OF assms(2)] True by (simp add: strstr_def)
  moreover have "first_occurrence ys xs a a"
    unfolding first_occurrence_def using True by (intro disjI1 exI[of _ 0]) simp
  ultimately show ?thesis by blast
next
  case False
  then have "(of_nat (length ys) :: u64) \<noteq> 0"
    using unat_of_nat64[OF cstr_length[OF assms(2)]] by (metis length_0_conv unat_0)
  then show ?thesis using strstr_loop_spec[OF assms False] strlen_cstr[OF assms(1)] strlen_cstr[OF assms(2)]
    by (simp add: strstr_def)
qed

lemma occurrence_sublist:
  assumes "first_occurrence q t a r" "\<And>i. i \<le> length t \<Longrightarrow> a + of_nat i \<noteq> 0" "length t < 2 ^ 64"
  shows "r \<noteq> 0 \<longleftrightarrow> sublist q t" "r = a \<longleftrightarrow> prefix q t"
proof -
  have sub: "sublist q t \<longleftrightarrow> (\<exists>i\<le>length t. prefix q (drop i t))"
  proof
    assume "sublist q t"
    then obtain u v where "t = u @ q @ v" by (auto simp: sublist_def)
    then show "\<exists>i\<le>length t. prefix q (drop i t)" by (intro exI[of _ "length u"]) simp
  next
    assume "\<exists>i\<le>length t. prefix q (drop i t)"
    then obtain i v where "drop i t = q @ v" by (auto simp: prefix_def)
    then have "t = take i t @ q @ v" by (metis append_take_drop_id)
    then show "sublist q t" by (metis sublist_appendI)
  qed
  show "r \<noteq> 0 \<longleftrightarrow> sublist q t"
    using assms(1) unfolding sub first_occurrence_def
  proof (elim disjE exE conjE)
    fix i assume "i \<le> length t" "r = a + of_nat i" "prefix q (drop i t)"
    then show "r \<noteq> 0 \<longleftrightarrow> (\<exists>i\<le>length t. prefix q (drop i t))" using assms(2)[of i] by metis
  qed simp
  show "r = a \<longleftrightarrow> prefix q t"
  proof
    assume r: "r = a"
    have "a \<noteq> 0" using assms(2)[of 0] by simp
    then obtain i where i: "i \<le> length t" "a = a + of_nat i" "prefix q (drop i t)"
      using assms(1) r unfolding first_occurrence_def by (elim disjE exE conjE) (metis, simp)
    then have "i = 0" using of_nat_inj64[of i 0] assms(3) by simp
    then show "prefix q t" using i by simp
  next
    assume "prefix q t"
    then have p0: "prefix q (drop 0 t)" by simp
    show "r = a" using assms(1) unfolding first_occurrence_def
    proof (elim disjE exE conjE)
      fix i assume "r = a + of_nat i" "\<forall>j<i. \<not> prefix q (drop j t)"
      then show "r = a" using p0 by (cases i) auto
    qed (use p0 in blast)
  qed
qed

lemma copy_prepared:
  assumes t: "cstr m txt t" and q: "cstr m pat q"
    and dt: "\<And>i j. i \<le> length q \<Longrightarrow> j \<le> length t \<Longrightarrow> copy + of_nat i \<noteq> txt + of_nat j"
    and dq: "\<And>i j. i \<le> length q \<Longrightarrow> j \<le> length q \<Longrightarrow> copy + of_nat i \<noteq> pat + of_nat j"
  shows "\<exists>m'. strcpy m copy pat = Some (copy, m') \<and> cstr m' copy q \<and> cstr m' txt t \<and> cstr m' pat q"
proof -
  let ?m = "write_bytes m copy (q @ [0])"
  have nz: "0 \<notin> set q" using cstr_nth[OF q] by (auto simp: in_set_conv_nth)
  have fr: "?m x = m x" if "\<And>i. i \<le> length q \<Longrightarrow> copy + of_nat i \<noteq> x" for x
    using that by (intro write_bytes_other) (metis length_append_singleton less_Suc_eq_le)
  have "cstr ?m txt t" by (rule cstr_frame[OF fr t]) (use dt in blast)
  moreover have "cstr ?m pat q" by (rule cstr_frame[OF fr q]) (use dq in blast)
  ultimately show ?thesis using strcpy_cstr[OF q dq] cstr_write[OF nz cstr_length[OF q]] by blast
qed

lemma cstr_truncate:
  assumes "cstr m a (q @ [x])"
  shows "cstr (m(a + of_nat (length q) := 0)) a q"
proof -
  have "length q < 2 ^ 64" using cstr_length[OF assms] by simp
  then have "a + of_nat i \<noteq> a + of_nat (length q)" if "i < length q" for i
    using that of_nat_inj64[of i "length q"] by simp
  moreover have "m (a + of_nat i) = q ! i \<and> q ! i \<noteq> 0" if "i < length q" for i
    using cstr_nth[OF assms, of i] that by (simp add: nth_append)
  ultimately show ?thesis unfolding cstr_iff by simp
qed

lemma simple_glob_rest:
  assumes t: "cstr m txt t" and q: "cstr m pat q"
    and dt: "\<And>i j. i \<le> length q \<Longrightarrow> j \<le> length t \<Longrightarrow> copy + of_nat i \<noteq> txt + of_nat j"
    and dq: "\<And>i j. i \<le> length q \<Longrightarrow> j \<le> length q \<Longrightarrow> copy + of_nat i \<noteq> pat + of_nat j"
    and nn: "\<And>i. i \<le> length t \<Longrightarrow> txt + of_nat i \<noteq> 0"
  shows "glob_rest m copy txt pat (of_nat (length q)) ss =
    Some (if q \<noteq> [] \<and> last q = 0x2a then if ss then sublist (butlast q) t else prefix (butlast q) t
          else if ss then suffix q t else t = q)"
proof -
  obtain m' where m': "strcpy m copy pat = Some (copy, m')" "cstr m' copy q" "cstr m' txt t" "cstr m' pat q"
    using copy_prepared[OF t q dt dq] by blast
  note lt = cstr_length[OF t] cstr_length[OF q]
  have pos: "0 < (of_nat (length q) :: u64) \<longleftrightarrow> q \<noteq> []"
    using unat_of_nat64[OF lt(2)] by (simp add: word_less_nat_alt)
  show ?thesis
  proof (cases "q \<noteq> [] \<and> last q = 0x2a")
    case True
    then obtain q' where q': "q = q' @ [0x2a]" by (metis append_butlast_last_id)
    have "m' (pat + of_nat (length q')) = 0x2a" using cstr_nth[OF m'(4), of "length q'"] q' by simp
    then have star: "m' (pat + of_nat (length q) - 1) = 0x2a" using q' by (simp add: algebra_simps)
    have n: "(of_nat (length q) :: u64) - 1 = of_nat (length q')" using q' by simp
    let ?m = "m'(copy + of_nat (length q') := 0)"
    have c: "cstr ?m copy q'" using cstr_truncate m'(2) unfolding q' by simp
    have tt: "cstr ?m txt t"
    proof (rule cstr_frame[OF _ m'(3)])
      fix j assume "j \<le> length t"
      then show "?m (txt + of_nat j) = m' (txt + of_nat j)" using dt[of "length q'" j] q' by auto
    qed
    obtain r where r: "strstr ?m txt copy = Some r" "first_occurrence q' t txt r" using strstr_cstr[OF tt c] by blast
    note oc = occurrence_sublist[OF r(2) nn lt(1)]
    show ?thesis using m'(1) True pos star n r(1) oc q' by (simp add: glob_rest_def Let_def)
  next
    case False
    have ns: "\<not> (q \<noteq> [] \<and> m' (pat + of_nat (length q) - 1) = 0x2a)"
    proof
      assume a: "q \<noteq> [] \<and> m' (pat + of_nat (length q) - 1) = 0x2a"
      then obtain q' x where q': "q = q' @ [x]" by (metis append_butlast_last_id)
      then have "m' (pat + of_nat (length q')) = x" using cstr_nth[OF m'(4), of "length q'"] by simp
      then show False using a q' False by (simp add: algebra_simps)
    qed
    have le: "(of_nat (length t) :: u64) < of_nat (length q) \<longleftrightarrow> length t < length q"
      using unat_of_nat64[OF lt(1)] unat_of_nat64[OF lt(2)] by (simp add: word_less_nat_alt)
    have suf: "strcmp m' (txt + of_nat (length t) - of_nat (length q)) copy = 0 \<longleftrightarrow> suffix q t"
      if "length q \<le> length t"
    proof -
      have "cstr m' (txt + of_nat (length t - length q)) (drop (length t - length q) t)"
        by (rule cstr_drop[OF m'(3)]) simp
      from strcmp_cstr[OF this m'(2)] show ?thesis using that
        by (auto simp: of_nat_diff algebra_simps suffix_def) (metis append_take_drop_id)+
    qed
    have "\<not> suffix q t" if "length t < length q" using that suffix_length_le[of q t] by auto
    then show ?thesis using m'(1) False ns pos le suf strlen_cstr[OF m'(3)] strcmp_cstr[OF m'(3,2)]
      by (auto simp: glob_rest_def Let_def not_less)
  qed
qed

section \<open>Properties\<close>

text \<open>\<^verbatim>\<open>memmove\<close> on blocks that do not run past the end of memory copies the source as it was before the
  call to the destination, byte for byte, however the two overlap, and changes nothing else.\<close>

theorem memmove_correct:
  assumes "unat dest + unat n \<le> 2 ^ 64" "unat src + unat n \<le> 2 ^ 64"
  shows "memmove dest src n m = (\<lambda>x. if x - dest < n then m (src + (x - dest)) else m x)"
  using memmove_apply[OF assms] by (simp add: fun_eq_iff)

theorem memmove_correct_witness:
  "memmove 0x1002 0x1000 4 (\<lambda>a. ucast a) 0x1005 = 3 \<and> memmove 0x1000 0x1002 4 (\<lambda>a. ucast a) 0x1003 = 5"
  using memmove_correct[of "0x1002" 4 "0x1000" "\<lambda>a. ucast a"] memmove_correct[of "0x1000" 4 "0x1002" "\<lambda>a. ucast a"]
  by simp

text \<open>\<^verbatim>\<open>strstr\<close> on two strings returns, and its result is the address of the first occurrence of the
  second in the first, or NULL when there is none.\<close>

theorem strstr_first_occurrence:
  assumes "cstr m a xs" "cstr m b ys"
  shows "\<exists>r. strstr m a b = Some r \<and> first_occurrence ys xs a r"
  using assms by (rule strstr_cstr)

definition mem_ab :: mem where
  "mem_ab = write_bytes (\<lambda>_. 0) 0x1000 [97, 97, 98, 0, 97, 98, 0]"

theorem strstr_first_occurrence_witness:
  "\<exists>r. strstr mem_ab 0x1000 0x1004 = Some r \<and> first_occurrence [97, 98] [97, 97, 98] 0x1000 r"
  by (rule strstr_first_occurrence) (simp_all add: mem_ab_def)

text \<open>\<^verbatim>\<open>simple_glob\<close> decides the match it describes: with a star at both ends whether the rest occurs in
  the text, with one at the end (beginning) whether it is a prefix (suffix), otherwise equality. The
  local copy of the pattern must not overlap text or pattern.\<close>

theorem simple_glob_correct:
  assumes "cstr m txt t" "cstr m pat p"
    "\<forall>i j. i \<le> length p \<longrightarrow> j \<le> length t \<longrightarrow> copy + of_nat i \<noteq> txt + of_nat j"
    "\<forall>i j. i \<le> length p \<longrightarrow> j \<le> length p \<longrightarrow> copy + of_nat i \<noteq> pat + of_nat j"
    "\<forall>i. i \<le> length t \<longrightarrow> txt + of_nat i \<noteq> 0"
  shows "simple_glob m copy txt pat = Some (glob_match p t)"
proof (cases "p \<noteq> [] \<and> hd p = 0x2a")
  case True
  then obtain q where q: "p = 0x2a # q" by (cases p) auto
  have d: "copy + of_nat i \<noteq> pat + 1 + of_nat j" if "i \<le> length q" "j \<le> length q" for i j
    using assms(4)[rule_format, of i "Suc j"] that q by (simp add: algebra_simps)
  have "cstr m (pat + 1) q" "m pat = 0x2a" using assms(2) q by simp_all
  with simple_glob_rest[OF assms(1) this(1) _ d, of True] show ?thesis
    using assms(3,5) q strlen_cstr[OF assms(2)]
    by (simp add: simple_glob_def glob_match_def Let_def)
next
  case False
  then have "m pat \<noteq> 0x2a" using assms(2) by (cases p) auto
  with simple_glob_rest[OF assms(1,2) assms(3)[rule_format] assms(4)[rule_format], of False]
  show ?thesis using assms(5) strlen_cstr[OF assms(2)]
    unfolding glob_match_def if_not_P[OF False] by (simp add: simple_glob_def Let_def)
qed

theorem simple_glob_correct_witness:
  "simple_glob (write_bytes (\<lambda>_. 0) 0x1000 [97, 98, 0, 0x2a, 98, 0]) 0x2000 0x1000 0x1003 = Some True"
proof -
  let ?m = "write_bytes (\<lambda>_. 0) 0x1000 [97, 98, 0, 0x2a, 98, 0]"
  have c: "cstr ?m 0x1000 [97, 98]" "cstr ?m 0x1003 [0x2a, 98]" by simp_all
  have le: "i \<le> 2 \<longleftrightarrow> i = 0 \<or> i = 1 \<or> i = 2" for i :: nat by auto
  have "simple_glob ?m 0x2000 0x1000 0x1003 = Some (glob_match [0x2a, 98] [97, 98])"
    by (rule simple_glob_correct[OF c]) (auto simp: numeral_2_eq_2[symmetric] le)
  moreover have "glob_match [0x2a, 98] [97, 98]"
    by (simp add: glob_match_def suffix_def)
  ultimately show ?thesis by simp
qed

lemma strchr_find:
  "cstr m a (xs @ c # ys) \<Longrightarrow> c \<notin> set xs \<Longrightarrow> strchr m a c = Some (a + of_nat (length xs))"
proof (induction xs arbitrary: a)
  case Nil
  then show ?case by (subst strchr.simps) simp
next
  case (Cons x xs)
  then show ?case by (subst strchr.simps) (auto simp: algebra_simps)
qed

lemma strncmp_prefix:
  "cstr m a (xs @ zs) \<Longrightarrow> cstr m b (xs @ ys) \<Longrightarrow> strncmp_loop m (length xs) a b = 0"
  using strncmp_loop_zero[of m a "xs @ zs" b "xs @ ys" "length xs"] by simp

text \<open>\<^verbatim>\<open>getenv\<close> compares only as many characters as the variable's name has before the equals sign, and
  stops at the end of the shorter: a request for a longer name that starts with the name of the first
  variable is answered with that variable's value.\<close>

theorem getenv_longer_name:
  assumes "ld64 m env = v" "v \<noteq> 0" "cstr m v (key @ 0x3d # val)" "0x3d \<notin> set key"
    "cstr m name (key @ rest)" "v + of_nat (length key) \<noteq> 0"
  shows "getenv m env name = Some (v + of_nat (length key) + 1)"
proof -
  have u: "unat (of_nat (length key) :: u64) = length key"
    using cstr_length[OF assms(3)] by (intro unat_of_nat64) simp
  have "strncmp m name v (of_nat (length key)) = 0"
    using strncmp_prefix[OF assms(5,3)] by (simp add: strncmp_def u)
  then show ?thesis using strchr_find[OF assms(3,4)] assms(1,2,6)
    by (simp add: getenv_def, subst getenv_loop.simps) simp
qed

theorem getenv_longer_name_witness:
  "getenv (st64 (write_bytes (\<lambda>_. 0) 0x1000 [65, 0x3d, 49, 0, 65, 66, 0]) 0x2000 0x1000) 0x2000 0x1004 = Some 0x1002"
proof -
  let ?m = "st64 (write_bytes (\<lambda>_. 0) 0x1000 [65, 0x3d, 49, 0, 65, 66, 0]) 0x2000 0x1000"
  have "ld64 ?m 0x2000 = 0x1000" by simp
  moreover have "cstr ?m 0x1000 ([65] @ 0x3d # [49])" "cstr ?m 0x1004 ([65] @ [66])"
    by (simp_all add: st64_def)
  ultimately show ?thesis using getenv_longer_name[of ?m "0x2000" "0x1000" "[65]" "[49]" "0x1004" "[66]"] by simp
qed

end
