(* ===== verification/Printf.thy ===== *)
theory Printf
  imports Memory
begin

text \<open>
  \<^verbatim>\<open>lib/printf.c\<close>: formatting. Format and output are character lists without the terminating NUL; a
  \<^verbatim>\<open>va_list\<close> is the list of arguments, and taking an argument that is not there or of the wrong kind
  has no result. Counters are C \<^verbatim>\<open>int\<close>s far from overflow and are kept as integers.
\<close>

record pstream =
  ps_buffer :: string
  ps_remain :: int
  ps_added :: int

record strprops =
  sp_pad :: char
  sp_npad :: int
  sp_alternate :: bool

definition addchar :: "pstream \<Rightarrow> char \<Rightarrow> pstream" where
  "addchar p c =
     (let p = (if ps_remain p \<noteq> 0 then p\<lparr>ps_buffer := ps_buffer p @ [c], ps_remain := ps_remain p - 1\<rparr> else p)
      in p\<lparr>ps_added := ps_added p + 1\<rparr>)"

text \<open>The loops \<^verbatim>\<open>while (npad > 0)\<close> and \<^verbatim>\<open>while (npad < 0)\<close> add as many padding characters.\<close>

fun addchars :: "pstream \<Rightarrow> string \<Rightarrow> pstream" where
  "addchars p [] = p"
| "addchars p (c # cs) = addchars (addchar p c) cs"

definition print_str :: "pstream \<Rightarrow> string \<Rightarrow> strprops \<Rightarrow> pstream" where
  "print_str p s props =
     (let npad = sp_npad props;
          (p, npad) = (if npad > 0
            then let npad = npad - int (length s)
                 in (addchars p (replicate (nat npad) (sp_pad props)), if npad > 0 then 0 else npad)
            else (p, npad));
          p = addchars p s
      in if npad < 0
         then let npad = npad + int (length s)
              in addchars p (replicate (nat (- npad)) CHR '' '')
         else p)"

definition digit_chars :: string where
  "digit_chars = ''0123456789abcdef''"

text \<open>The digits of a number, least significant first: the loop \<^verbatim>\<open>while (n)\<close> of both printers.\<close>

fun digs :: "nat \<Rightarrow> nat \<Rightarrow> string" where
  "digs base n = (if n = 0 \<or> base \<le> 1 then [] else digit_chars ! (n mod base) # digs base (n div base))"

declare digs.simps [simp del]

text \<open>Both printers build the text in a local array of 26 and of 27 bytes; running over it has no
  result. The most negative \<^verbatim>\<open>long long\<close> has no negation: the digits are then looked up at negative
  indices and there is no result either.\<close>

definition print_int :: "pstream \<Rightarrow> int \<Rightarrow> nat \<Rightarrow> strprops \<Rightarrow> pstream option" where
  "print_int ps n base props =
     (if n = - (2 ^ 63) then None
      else
        let s = (n < 0);
            n = (if n < 0 then - n else n);
            buf = digs base (nat n);
            buf = (if s then buf @ ''-'' else buf);
            buf = (if buf = [] then ''0'' else buf)
        in if length buf + 1 > 8 * 3 + 2 then None else Some (print_str ps (rev buf) props))"

definition print_unsigned :: "pstream \<Rightarrow> nat \<Rightarrow> nat \<Rightarrow> strprops \<Rightarrow> pstream option" where
  "print_unsigned ps n base props =
     (let buf = digs base n;
          (ps, props, buf) =
            (if buf = [] then (ps, props, ''0'')
             else if sp_alternate props \<and> base = 16 then
               (if sp_pad props = CHR ''0'' then
                  (addchar (addchar ps CHR ''0'') CHR ''x'',
                   (if sp_npad props > 0 then props\<lparr>sp_npad := max (sp_npad props - 2) 0\<rparr> else props), buf)
                else (ps, props, buf @ ''x0''))
             else (ps, props, buf))
      in if length buf + 1 > 8 * 3 + 3 then None else Some (print_str ps (rev buf) props))"

section \<open>Numbers in formats\<close>

definition is_digit :: "char \<Rightarrow> bool" where
  "is_digit c \<longleftrightarrow> c \<in> set ''0123456789''"

definition digit_val :: "char \<Rightarrow> nat" where
  "digit_val c = of_char c - 48"

text \<open>\<^verbatim>\<open>atol\<close> on a character list.\<close>

definition atol_str :: "string \<Rightarrow> int" where
  "atol_str s =
     (let s = dropWhile (\<lambda>c. c = CHR '' '' \<or> c = CHR 0x09) s;
          (neg, s) = (if s \<noteq> [] \<and> hd s = CHR ''-'' then (True, tl s)
                      else if s \<noteq> [] \<and> hd s = CHR ''+'' then (False, tl s) else (False, s));
          acc = foldl (\<lambda>acc c. acc * 10 + int (digit_val c)) 0 (takeWhile is_digit s)
      in if neg then - acc else acc)"

definition fmtnum :: "string \<Rightarrow> int \<times> string" where
  "fmtnum fmt =
     (let (f, len) = (if fmt \<noteq> [] \<and> hd fmt = CHR ''-'' then (tl fmt, 1) else (fmt, 0));
          len = len + length (takeWhile is_digit f)
      in (atol_str fmt, drop len fmt))"

section \<open>Conversions\<close>

definition arg_num :: "parg list \<Rightarrow> (u64 \<times> parg list) option" where
  "arg_num va = (case va of PNum v # va \<Rightarrow> Some (v, va) | _ \<Rightarrow> None)"

definition arg_str :: "parg list \<Rightarrow> (string \<times> parg list) option" where
  "arg_str va = (case va of PStr v # va \<Rightarrow> Some (v, va) | _ \<Rightarrow> None)"

definition arg_signed :: "nat \<Rightarrow> u64 \<Rightarrow> int" where
  "arg_signed nlong v = (if nlong = 0 then sint (ucast v :: u32) else sint v)"

definition arg_unsigned :: "nat \<Rightarrow> u64 \<Rightarrow> nat" where
  "arg_unsigned nlong v = (if nlong = 0 then unat (ucast v :: u32) else unat v)"

text \<open>The conversion characters that end a specification (\<^verbatim>\<open>break\<close> in the \<^verbatim>\<open>switch\<close>).\<close>

definition fmt_final ::
  "char \<Rightarrow> nat \<Rightarrow> strprops \<Rightarrow> parg list \<Rightarrow> pstream \<Rightarrow> (parg list \<times> pstream) option" where
  "fmt_final f nlong props va s =
     (if f = CHR ''%'' then Some (va, addchar s CHR ''%'')
      else if f = CHR ''c'' then do { (v, va) \<leftarrow> arg_num va; Some (va, addchar s (char_of (unat (ucast v :: u8)))) }
      else if f = CHR ''d'' then do {
        (v, va) \<leftarrow> arg_num va; s \<leftarrow> print_int s (arg_signed nlong v) 10 props; Some (va, s) }
      else if f = CHR ''u'' then do {
        (v, va) \<leftarrow> arg_num va; s \<leftarrow> print_unsigned s (arg_unsigned nlong v) 10 props; Some (va, s) }
      else if f = CHR ''x'' then do {
        (v, va) \<leftarrow> arg_num va; s \<leftarrow> print_unsigned s (arg_unsigned nlong v) 16 props; Some (va, s) }
      else if f = CHR ''p'' then do {
        (v, va) \<leftarrow> arg_num va; s \<leftarrow> print_unsigned s (unat v) 16 (props\<lparr>sp_alternate := True\<rparr>); Some (va, s) }
      else if f = CHR ''s'' then do {
        (v, va) \<leftarrow> arg_str va; Some (va, print_str s v props) }
      else Some (va, addchar s f))"

lemma fmtnum_shorter: "f = CHR ''-'' \<or> is_digit f \<Longrightarrow> length (snd (fmtnum (f # fmt))) < length (f # fmt)"
  by (cases "f = CHR ''-''") (simp_all add: fmtnum_def Let_def)

lemma fmtnum_le: "length (snd (fmtnum fmt)) \<le> length fmt"
  by (auto simp: fmtnum_def Let_def split: prod.split)

text \<open>From \<^verbatim>\<open>morefmt\<close> on: flags, widths and length modifiers, then a conversion.\<close>

function morefmt ::
  "string \<Rightarrow> nat \<Rightarrow> strprops \<Rightarrow> parg list \<Rightarrow> pstream \<Rightarrow> (string \<times> parg list \<times> pstream) option" where
  "morefmt [] nlong props va s = Some ([], va, s)"
| "morefmt (f # fmt) nlong props va s =
     (if f = CHR ''#'' then morefmt fmt nlong (props\<lparr>sp_alternate := True\<rparr>) va s
      else if f = CHR ''0'' then
        morefmt (snd (fmtnum fmt)) nlong (props\<lparr>sp_pad := CHR ''0'', sp_npad := fst (fmtnum fmt)\<rparr>) va s
      else if f = CHR ''-'' \<or> is_digit f then
        morefmt (snd (fmtnum (f # fmt))) nlong (props\<lparr>sp_npad := fst (fmtnum (f # fmt))\<rparr>) va s
      else if f = CHR ''l'' then morefmt fmt (nlong + 1) props va s
      else if f = CHR ''t'' \<or> f = CHR ''z'' then morefmt fmt 1 props va s
      else map_option (\<lambda>(va, s). (fmt, va, s)) (fmt_final f nlong props va s))"
  by pat_completeness auto
termination
  by (relation "measure (\<lambda>(fmt, _). length fmt)")
     (auto simp: less_Suc_eq_le intro: fmtnum_le fmtnum_shorter[simplified])

declare morefmt.simps [simp del]

lemma morefmt_shorter: "morefmt fmt nlong props va s = Some (fmt', va', s') \<Longrightarrow> length fmt' \<le> length fmt"
proof (induction fmt nlong props va s rule: morefmt.induct)
  case (2 f fmt nlong props va s)
  have n: "length (snd (fmtnum fmt)) \<le> length fmt" by (rule fmtnum_le)
  have d: "length (snd (fmtnum (f # fmt))) \<le> length fmt" if "f = CHR ''-'' \<or> is_digit f"
    using fmtnum_shorter[OF that, of fmt] by simp
  consider "f = CHR ''#''" | "f = CHR ''0''" | "f \<noteq> CHR ''0''" "f = CHR ''-'' \<or> is_digit f"
    | "f = CHR ''l''" | "f = CHR ''t'' \<or> f = CHR ''z''"
    | "f \<notin> set ''#0-ltz''" "\<not> is_digit f" by auto
  then show ?case
  proof cases
    case 1 then show ?thesis using 2(1,6) by (simp add: morefmt.simps(2))
  next
    case 2 then show ?thesis using "2.IH"(2) "2.prems" n by (simp add: morefmt.simps(2))
  next
    case 3
    then have "f \<noteq> CHR ''#''" by (auto simp: is_digit_def)
    then show ?thesis using 3 "2.IH"(3) "2.prems" d by (simp add: morefmt.simps(2))
  next
    case 4 then show ?thesis using "2.IH"(4) "2.prems" by (simp add: morefmt.simps(2) is_digit_def)
  next
    case 5 then show ?thesis using "2.IH"(5) "2.prems" by (auto simp: morefmt.simps(2) is_digit_def)
  next
    case 6 then show ?thesis using "2.prems" by (auto simp: morefmt.simps(2))
  qed
qed (simp add: morefmt.simps)

definition props0 :: strprops where
  "props0 = \<lparr>sp_pad = CHR '' '', sp_npad = 0, sp_alternate = False\<rparr>"

section \<open>The formatting loop\<close>

function vsn_loop :: "string \<Rightarrow> parg list \<Rightarrow> pstream \<Rightarrow> pstream option" where
  "vsn_loop [] va s = Some s"
| "vsn_loop (f # fmt) va s =
     (if f \<noteq> CHR ''%'' then vsn_loop fmt va (addchar s f)
      else case morefmt fmt 0 props0 va s of
        None \<Rightarrow> None
      | Some (fmt, va, s) \<Rightarrow> vsn_loop fmt va s)"
  by pat_completeness auto
termination
  by (relation "measure (\<lambda>(fmt, _). length fmt)") (auto dest: morefmt_shorter)

declare vsn_loop.simps [simp del]

definition vsnprintf :: "int \<Rightarrow> string \<Rightarrow> parg list \<Rightarrow> (string \<times> int) option" where
  "vsnprintf sz fmt va = do {
     s \<leftarrow> vsn_loop fmt va \<lparr>ps_buffer = [], ps_remain = sz - 1, ps_added = 0\<rparr>;
     Some (ps_buffer s, ps_added s) }"

definition snprintf :: "int \<Rightarrow> string \<Rightarrow> parg list \<Rightarrow> (string \<times> int) option" where
  "snprintf sz fmt va = vsnprintf sz fmt va"

text \<open>\<^verbatim>\<open>binstr\<close>: a separator follows every fourth digit but the last.\<close>

definition BINSTR_SZ :: nat where "BINSTR_SZ = 8 * 8 + 8 * 2"

fun binstr_loop :: "u64 \<Rightarrow> nat \<Rightarrow> string" where
  "binstr_loop x 0 = []"
| "binstr_loop x (Suc k) =
     (if x AND push_bit k 1 \<noteq> 0 then CHR ''1'' else CHR ''0'')
     # (if k = 0 then [] else if (64 - k) mod 4 = 0 then CHR 0x27 # binstr_loop x k else binstr_loop x k)"

definition binstr :: "u64 \<Rightarrow> string option" where
  "binstr x = (let out = binstr_loop x 64 in if length out + 1 = BINSTR_SZ then Some out else None)"

section \<open>What is printed, without a buffer\<close>

text \<open>The text each conversion stands for, and the text of a whole format: the specification
  \<^verbatim>\<open>vsnprintf\<close> is measured against.\<close>

definition pad_out :: "strprops \<Rightarrow> string \<Rightarrow> string" where
  "pad_out props s =
     replicate (nat (sp_npad props) - length s) (sp_pad props) @ s
     @ replicate (nat (- sp_npad props) - length s) CHR '' ''"

definition num_out :: "nat \<Rightarrow> nat \<Rightarrow> string" where
  "num_out base n = (if n = 0 then ''0'' else rev (digs base n))"

definition int_out :: "int \<Rightarrow> string" where
  "int_out n = (if n < 0 then CHR ''-'' # num_out 10 (nat (- n)) else num_out 10 (nat n))"

definition hex_out :: "strprops \<Rightarrow> nat \<Rightarrow> string" where
  "hex_out props n =
     (if sp_alternate props \<and> n \<noteq> 0 then
        (if sp_pad props = CHR ''0''
         then ''0x'' @ pad_out (props\<lparr>sp_npad := (if sp_npad props > 0 then max (sp_npad props - 2) 0 else sp_npad props)\<rparr>)
                 (num_out 16 n)
         else pad_out props (''0x'' @ num_out 16 n))
      else pad_out props (num_out 16 n))"

definition conv_out :: "char \<Rightarrow> nat \<Rightarrow> strprops \<Rightarrow> parg list \<Rightarrow> (parg list \<times> string) option" where
  "conv_out f nlong props va =
     (if f = CHR ''c'' then map_option (\<lambda>(v, va). (va, [char_of (unat (ucast v :: u8))])) (arg_num va)
      else if f = CHR ''d'' then Option.bind (arg_num va) (\<lambda>(v, va).
        if arg_signed nlong v = - (2 ^ 63) then None else Some (va, pad_out props (int_out (arg_signed nlong v))))
      else if f = CHR ''u'' then map_option (\<lambda>(v, va). (va, pad_out props (num_out 10 (arg_unsigned nlong v)))) (arg_num va)
      else if f = CHR ''x'' then map_option (\<lambda>(v, va). (va, hex_out props (arg_unsigned nlong v))) (arg_num va)
      else if f = CHR ''p'' then map_option (\<lambda>(v, va). (va, hex_out (props\<lparr>sp_alternate := True\<rparr>) (unat v))) (arg_num va)
      else if f = CHR ''s'' then map_option (\<lambda>(v, va). (va, pad_out props v)) (arg_str va)
      else Some (va, [f]))"

primrec spec_out :: "nat \<Rightarrow> string \<Rightarrow> nat \<Rightarrow> strprops \<Rightarrow> parg list \<Rightarrow> (string \<times> parg list \<times> string) option" where
  "spec_out 0 fmt nlong props va = Some ([], va, [])"
| "spec_out (Suc k) fs nlong props va = (case fs of [] \<Rightarrow> Some ([], va, []) | f # fmt \<Rightarrow>
      if f = CHR ''#'' then spec_out k fmt nlong (props\<lparr>sp_alternate := True\<rparr>) va
      else if f = CHR ''0'' then
        spec_out k (snd (fmtnum fmt)) nlong (props\<lparr>sp_pad := CHR ''0'', sp_npad := fst (fmtnum fmt)\<rparr>) va
      else if f = CHR ''-'' \<or> is_digit f then
        spec_out k (snd (fmtnum (f # fmt))) nlong (props\<lparr>sp_npad := fst (fmtnum (f # fmt))\<rparr>) va
      else if f = CHR ''l'' then spec_out k fmt (nlong + 1) props va
      else if f = CHR ''t'' \<or> f = CHR ''z'' then spec_out k fmt 1 props va
      else map_option (\<lambda>(va, out). (fmt, va, out)) (conv_out f nlong props va))"

primrec render :: "nat \<Rightarrow> string \<Rightarrow> parg list \<Rightarrow> string option" where
  "render 0 fmt va = Some []"
| "render (Suc k) fs va = (case fs of [] \<Rightarrow> Some [] | f # fmt \<Rightarrow>
      if f \<noteq> CHR ''%'' then map_option ((#) f) (render k fmt va)
      else Option.bind (spec_out (length fmt) fmt 0 props0 va)
        (\<lambda>(fmt, va, out). map_option ((@) out) (render k fmt va)))"

definition formatted :: "string \<Rightarrow> parg list \<Rightarrow> string option" where
  "formatted fmt va = render (length fmt) fmt va"


section \<open>Every printer adds a text to the stream\<close>

lemma addchars_append [simp]: "addchars p (a @ b) = addchars (addchars p a) b"
  by (induction a arbitrary: p) simp_all

lemma addchars_one: "addchar p c = addchars p [c]"
  by simp

lemma print_str_out: "print_str p s props = addchars p (pad_out props s)"
proof (cases "sp_npad props > 0")
  case True
  then show ?thesis
    by (cases "sp_npad props > int (length s)")
       (simp_all add: print_str_def pad_out_def Let_def nat_diff_distrib' nat_le_iff)
next
  case False
  then show ?thesis
    by (simp add: print_str_def pad_out_def Let_def nat_diff_distrib' minus_add_distrib)
qed

lemma digs_eq_Nil: "1 < base \<Longrightarrow> digs base n = [] \<longleftrightarrow> n = 0"
  by (subst digs.simps) simp

lemma digs_length: "1 < base \<Longrightarrow> n < base ^ k \<Longrightarrow> length (digs base n) \<le> k"
proof (induction k arbitrary: n)
  case (Suc k)
  then have "n div base < base ^ k" by (simp add: less_mult_imp_div_less mult.commute)
  then show ?case using Suc by (subst digs.simps) simp
qed (simp add: digs.simps)

lemma print_int_out:
  assumes "- (2 ^ 63) \<le> n" "n < 2 ^ 63"
  shows "print_int p n 10 props = (if n = - (2 ^ 63) then None else Some (addchars p (pad_out props (int_out n))))"
proof (cases "n = - (2 ^ 63)")
  case False
  have "nat \<bar>n\<bar> < 10 ^ 19" using assms by auto
  then have "length (digs 10 (nat \<bar>n\<bar>)) \<le> 19" by (intro digs_length) simp_all
  then have "n < 0 \<Longrightarrow> length (digs 10 (nat (- n))) \<le> 19" "0 \<le> n \<Longrightarrow> length (digs 10 (nat n)) \<le> 19"
    by simp_all
  then show ?thesis using False
    by (auto simp: print_int_def Let_def print_str_out int_out_def num_out_def digs_eq_Nil)
qed (simp add: print_int_def)

lemma print_unsigned_out:
  assumes "n < 2 ^ 64"
  shows "print_unsigned p n 10 props = Some (addchars p (pad_out props (num_out 10 n)))"
    and "print_unsigned p n 16 props = Some (addchars p (hex_out props n))"
proof -
  have "length (digs 10 n) \<le> 20" using assms by (intro digs_length) simp_all
  then show "print_unsigned p n 10 props = Some (addchars p (pad_out props (num_out 10 n)))"
    by (simp add: print_unsigned_def Let_def print_str_out num_out_def digs_eq_Nil)
  have "length (digs 16 n) \<le> 16" using assms by (intro digs_length) simp_all
  then show "print_unsigned p n 16 props = Some (addchars p (hex_out props n))"
    by (simp add: print_unsigned_def Let_def print_str_out num_out_def hex_out_def digs_eq_Nil)
qed

lemma arg_signed_range: "- (2 ^ 63) \<le> arg_signed nlong v" "arg_signed nlong v < 2 ^ 63"
  using sint_ge[of v] sint_lt[of v] sint_ge[of "ucast v :: u32"] sint_lt[of "ucast v :: u32"] by (simp_all add: arg_signed_def)

lemma arg_unsigned_range: "arg_unsigned nlong v < 2 ^ 64" "unat (v :: u64) < 2 ^ 64"
  using unsigned_less[of v, where 'a = nat] unsigned_less[of "ucast v :: u32", where 'a = nat] by (simp_all add: arg_unsigned_def)

lemma fmt_final_out:
  "fmt_final f nlong props va s =
     map_option (\<lambda>(va, out). (va, addchars s out)) (conv_out f nlong props va)"
  by (cases "arg_num va"; cases "arg_str va")
     (simp_all add: fmt_final_def conv_out_def print_int_out[OF arg_signed_range]
        print_unsigned_out[OF arg_unsigned_range(1)] print_unsigned_out[OF arg_unsigned_range(2)] print_str_out addchars_one
        case_prod_beta del: addchars.simps)

lemma morefmt_out:
  "length fmt \<le> k \<Longrightarrow> morefmt fmt nlong props va s =
     map_option (\<lambda>(fmt, va, out). (fmt, va, addchars s out)) (spec_out k fmt nlong props va)"
proof (induction k arbitrary: fmt nlong props)
  case (Suc k)
  show ?case
  proof (cases fmt)
    case (Cons f r)
    have n: "length (snd (fmtnum r)) \<le> k" using fmtnum_le[of r] Suc.prems Cons by simp
    have d: "length (snd (fmtnum (f # r))) \<le> k" if "f = CHR ''-'' \<or> is_digit f"
      using fmtnum_shorter[OF that, of r] Suc.prems Cons by simp
    have "length r \<le> k" using Suc.prems Cons by simp
    then show ?thesis using d
      by (simp add: Cons morefmt.simps(2) Suc.IH n fmt_final_out option.map_comp comp_def case_prod_unfold)
  qed (simp add: morefmt.simps)
qed (simp add: morefmt.simps)

lemma vsn_loop_out:
  "length fmt \<le> k \<Longrightarrow> vsn_loop fmt va s = map_option (addchars s) (render k fmt va)"
proof (induction k arbitrary: fmt va s)
  case (Suc k)
  show ?case
  proof (cases fmt)
    case (Cons f r)
    have r: "length r \<le> k" using Suc.prems Cons by simp
    show ?thesis
    proof (cases "spec_out (length r) r 0 props0 va")
      case None
      then show ?thesis
        by (simp add: Cons vsn_loop.simps(2) Suc.IH[OF r] morefmt_out[of r "length r"] option.map_comp comp_def)
    next
      case (Some t)
      obtain fmt' va' out where t: "t = (fmt', va', out)" by (cases t)
      then have "length fmt' \<le> length r"
        using morefmt_shorter[of r 0 props0 va s] by (simp add: morefmt_out[of r "length r"] Some)
      then have "length fmt' \<le> k" using r by simp
      then show ?thesis
        by (simp add: Cons vsn_loop.simps(2) Suc.IH r morefmt_out[of r "length r"] Some t option.map_comp comp_def)
    qed
  qed (simp add: vsn_loop.simps)
qed (simp add: vsn_loop.simps)

lemma addchars_stream:
  "addchars p cs = p\<lparr>
     ps_buffer := ps_buffer p @ (if ps_remain p < 0 then cs else take (nat (ps_remain p)) cs),
     ps_remain := (if ps_remain p < 0 then ps_remain p - int (length cs) else max 0 (ps_remain p - int (length cs))),
     ps_added := ps_added p + int (length cs)\<rparr>"
proof (induction cs arbitrary: p)
  case (Cons c cs)
  show ?case
    by (cases "ps_remain p" "0::int" rule: linorder_cases)
       (simp_all add: Cons.IH addchar_def Let_def nat_diff_distrib take_Cons' max_def)
qed simp

lemma vsnprintf_out:
  "vsnprintf sz fmt va = map_option
     (\<lambda>out. (if sz < 1 then out else take (nat (sz - 1)) out, int (length out))) (formatted fmt va)"
  by (cases "sz < 1") (simp_all add: vsnprintf_def formatted_def vsn_loop_out[of fmt "length fmt"] addchars_stream
      Option.bind_map_option map_conv_bind_option comp_def)



text \<open>A \<^verbatim>\<open>size\<close> of 0 does not mean an empty buffer: the whole text is stored, however long.
\<close>

theorem vsnprintf_size_zero:
  "vsnprintf 0 fmt va = map_option (\<lambda>out. (out, int (length out))) (formatted fmt va)"
  by (simp add: vsnprintf_out)

section \<open>Printing and reading back a number\<close>

lemma digit_chars_digit: "d < 10 \<Longrightarrow> is_digit (digit_chars ! d) \<and> digit_val (digit_chars ! d) = d"
proof -
  assume "d < 10"
  then have "d \<in> {0, 1, 2, 3, 4, 5, 6, 7, 8, 9}" by auto
  then show ?thesis by (auto simp: digit_chars_def is_digit_def digit_val_def)
qed

lemma digs_digits: "c \<in> set (digs 10 n) \<Longrightarrow> is_digit c"
proof (induction "10::nat" n rule: digs.induct)
  case (1 n)
  from "1.prems" have n: "n \<noteq> 0" by (cases "n = 0") (simp_all add: digs.simps)
  then have "c = digit_chars ! (n mod 10) \<or> c \<in> set (digs 10 (n div 10))"
    using "1.prems" by (simp add: digs.simps[of 10 n])
  then show ?case using "1.hyps" n digit_chars_digit[of "n mod 10"] by auto
qed

lemma digs_value: "foldr (\<lambda>c acc. acc * 10 + int (digit_val c)) (digs 10 n) 0 = int n"
proof (induction "10::nat" n rule: digs.induct)
  case (1 n)
  show ?case
  proof (cases "n = 0")
    case False
    have "int (n div 10) * 10 + int (n mod 10) = int n" by presburger
    with False show ?thesis using "1.hyps" digit_chars_digit[of "n mod 10"]
      by (simp add: digs.simps[of 10 n])
  qed (simp add: digs.simps)
qed

lemma num_out_digits: "\<forall>c \<in> set (num_out 10 n). is_digit c"
  using digs_digits by (auto simp: num_out_def is_digit_def)

lemma num_out_value: "foldl (\<lambda>acc c. acc * 10 + int (digit_val c)) 0 (num_out 10 n) = int n"
  using digs_value[of n] by (simp add: num_out_def foldr_conv_foldl[symmetric] foldl_conv_foldr digit_val_def)

lemma num_out_first: "\<exists>c cs. num_out 10 n = c # cs \<and> is_digit c"
  using num_out_digits[of n] by (cases "num_out 10 n") (auto simp: num_out_def digs_eq_Nil split: if_splits)

lemma is_digit_no_sign: "is_digit c \<Longrightarrow> c \<noteq> CHR ''-'' \<and> c \<noteq> CHR ''+'' \<and> c \<noteq> CHR '' '' \<and> c \<noteq> CHR 0x09"
  by (auto simp: is_digit_def)

lemma atol_int_out: "atol_str (int_out n) = n"
proof (cases "n < 0")
  case True
  then show ?thesis
    using num_out_value[of "nat (- n)"] num_out_digits[of "nat (- n)"]
    by (simp add: int_out_def atol_str_def takeWhile_eq_all_conv[THEN iffD2])
next
  case False
  obtain c cs where "num_out 10 (nat n) = c # cs" "is_digit c" using num_out_first by blast
  with False show ?thesis
    using num_out_value[of "nat n"] num_out_digits[of "nat n"] is_digit_no_sign[of c]
    by (simp add: int_out_def atol_str_def takeWhile_eq_all_conv[THEN iffD2] del: foldl_Cons)
qed

lemma int_out_length: "- (2 ^ 63) \<le> n \<Longrightarrow> n < 2 ^ 63 \<Longrightarrow> length (int_out n) \<le> 20"
proof -
  assume "- (2 ^ 63) \<le> n" "n < 2 ^ 63"
  then have "nat \<bar>n\<bar> < 10 ^ 19" by auto
  then have "length (digs 10 (nat \<bar>n\<bar>)) \<le> 19" by (intro digs_length) simp_all
  then show ?thesis by (cases "n < 0") (auto simp: int_out_def num_out_def)
qed

lemma pad_out_none [simp]: "pad_out props0 s = s"
  by (simp add: pad_out_def props0_def)

text \<open>A \<^verbatim>\<open>long\<close> printed by \<^verbatim>\<open>%ld\<close> into the buffer of \<^verbatim>\<open>printf\<close> reads back as itself with \<^verbatim>\<open>atol\<close>; the one
  value excluded is the most negative one, which \<^verbatim>\<open>print_int\<close> cannot negate.
\<close>

theorem printf_atol_roundtrip:
  assumes "v \<noteq> 0x8000000000000000"
  shows "\<exists>out. vsnprintf 2000 ''%ld'' [PNum v] = Some (out, int (length out)) \<and> atol_str out = sint v"
proof -
  have "sint v \<noteq> - (2 ^ 63)"
  proof
    assume "sint v = - (2 ^ 63)"
    then have "word_of_int (sint v) = (word_of_int (- (2 ^ 63)) :: u64)" by simp
    then show False using assms by simp
  qed
  moreover have "\<not> is_digit CHR ''l''" "\<not> is_digit CHR ''d''" by (simp_all add: is_digit_def)
  ultimately have "formatted ''%ld'' [PNum v] = Some (int_out (sint v))"
    by (simp add: formatted_def conv_out_def arg_num_def arg_signed_def)
  moreover have "length (int_out (sint v)) \<le> 1999"
    using int_out_length[of "sint v"] sint_ge[of v] sint_lt[of v] by simp
  ultimately show ?thesis by (simp add: vsnprintf_out atol_int_out)
qed

theorem printf_atol_roundtrip_witness:
  "(0xfffffffffffffc18 :: u64) \<noteq> 0x8000000000000000 \<and> (\<exists>out. vsnprintf 2000 ''%ld'' [PNum 0xfffffffffffffc18] = Some (out, int (length out))
    \<and> atol_str out = sint (0xfffffffffffffc18 :: u64))"
  using printf_atol_roundtrip[of "0xfffffffffffffc18"] by simp

section \<open>Binary strings\<close>

lemma binstr_loop_bits:
  "k \<le> 64 \<Longrightarrow> filter (\<lambda>c. c \<noteq> CHR 0x27) (binstr_loop x k) = map (\<lambda>i. if bit x i then CHR ''1'' else CHR ''0'') (rev [0..<k])"
  by (induction k) (simp_all add: bit_iff_and_push_bit_not_eq_0)

lemma binstr_loop_length: "k \<le> 64 \<Longrightarrow> length (binstr_loop x k) = k + (k - 1) div 4"
proof (induction k)
  case (Suc k)
  show ?case
  proof (cases k)
    case (Suc j)
    have "(64 - Suc j) mod 4 = 0 \<longleftrightarrow> Suc j mod 4 = 0" using Suc.prems \<open>k = Suc j\<close> by presburger
    moreover have "Suc j div 4 = (if Suc j mod 4 = 0 then Suc (j div 4) else j div 4)" by (simp add: div_Suc)
    ultimately show ?thesis using Suc.IH Suc.prems \<open>k = Suc j\<close> by (simp split: if_splits)
  qed simp
qed simp

lemma binstr_length: "length (binstr_loop x 64) + 1 = BINSTR_SZ"
proof -
  have "length (binstr_loop x 64) = 79" by (simp add: binstr_loop_length)
  then show ?thesis by (simp add: BINSTR_SZ_def)
qed

text \<open>\<^verbatim>\<open>binstr\<close> fills its buffer of \<^verbatim>\<open>BINSTR_SZ\<close> bytes exactly (its assertion never fires), and the
  digits left when the separators are dropped are the 64 bits of the number, the highest first.
\<close>

theorem binstr_correct:
  "\<exists>out. binstr x = Some out \<and> length out + 1 = BINSTR_SZ \<and>
     filter (\<lambda>c. c \<noteq> CHR 0x27) out = map (\<lambda>i. if bit x i then CHR ''1'' else CHR ''0'') (rev [0..<64])"
  using binstr_length[of x] binstr_loop_bits[of 64 x] by (simp add: binstr_def Let_def)

end
