(* ===== verification/Monitor.thy ===== *)
theory Monitor
  imports Hw Printf
begin

text \<open>
  \<^verbatim>\<open>driver/monitor.c\<close>: the text screen. Video memory is memory at \<^verbatim>\<open>0xB8000\<close>, the cursor is two bytes,
  and the hardware cursor is set through ports. Strings are character lists without the NUL.
\<close>

section \<open>Colours, cells and the cursor\<close>

datatype mcolor_t =
    MC_BLACK | MC_DARK_BLUE | MC_DARK_GREEN | MC_DARK_CYAN | MC_DARK_RED | MC_DARK_MAGENTA
  | MC_DARK_YELLOW | MC_LIGHT_GREY | MC_DARK_GREY | MC_LIGHT_BLUE | MC_LIGHT_GREEN | MC_LIGHT_CYAN
  | MC_LIGHT_RED | MC_LIGHT_MAGENTA | MC_LIGHT_YELLOW | MC_WHITE

fun mcolor_num :: "mcolor_t \<Rightarrow> u8" where
  "mcolor_num MC_BLACK = 0"
| "mcolor_num MC_DARK_BLUE = 1"
| "mcolor_num MC_DARK_GREEN = 2"
| "mcolor_num MC_DARK_CYAN = 3"
| "mcolor_num MC_DARK_RED = 4"
| "mcolor_num MC_DARK_MAGENTA = 5"
| "mcolor_num MC_DARK_YELLOW = 6"
| "mcolor_num MC_LIGHT_GREY = 7"
| "mcolor_num MC_DARK_GREY = 8"
| "mcolor_num MC_LIGHT_BLUE = 9"
| "mcolor_num MC_LIGHT_GREEN = 10"
| "mcolor_num MC_LIGHT_CYAN = 11"
| "mcolor_num MC_LIGHT_RED = 12"
| "mcolor_num MC_LIGHT_MAGENTA = 13"
| "mcolor_num MC_LIGHT_YELLOW = 14"
| "mcolor_num MC_WHITE = 15"

record mon_state = cpu_state +
  cursor_x :: u8
  cursor_y :: u8

definition video_memory :: u64 where "video_memory = 0xB8000"

definition vget :: "mem \<Rightarrow> nat \<Rightarrow> u16" where
  "vget m i = ld16 m (video_memory + 2 * of_nat i)"

definition vset :: "mem \<Rightarrow> nat \<Rightarrow> u16 \<Rightarrow> mem" where
  "vset m i v = st16 m (video_memory + 2 * of_nat i) v"

definition move_cursor :: "'a mon_state_scheme \<Rightarrow> 'a mon_state_scheme" where
  "move_cursor s =
     (let cursorLocation = ucast (cursor_y s) * 80 + ucast (cursor_x s) :: u16;
          s = outb 14 0x3D4 s;
          s = outb (ucast (drop_bit 8 cursorLocation)) 0x3D5 s;
          s = outb 15 0x3D4 s
      in outb (ucast cursorLocation) 0x3D5 s)"

definition video_blank :: u16 where
  "video_blank = 0x20 OR push_bit 8 (ucast ((push_bit 4 0 OR (15 AND 0x0F)) :: u8))"

text \<open>The two loops: blanking a range of cells and moving every line up by one.\<close>

definition video_fill :: "nat \<Rightarrow> nat \<Rightarrow> mem \<Rightarrow> mem" where
  "video_fill a b m = fold (\<lambda>i m. vset m i video_blank) [a..<b] m"

definition video_up :: "mem \<Rightarrow> mem" where
  "video_up m = fold (\<lambda>i m. vset m i (vget m (i + 80))) [0 * 80..<24 * 80] m"

definition scroll :: "'a mon_state_scheme \<Rightarrow> 'a mon_state_scheme" where
  "scroll s =
     (if cursor_y s \<ge> 25 then
        s\<lparr>mem := video_fill (24 * 80) (25 * 80) (video_up (mem s)), cursor_y := 24\<rparr>
      else s)"

definition attribute_of :: "mcolor_t \<Rightarrow> mcolor_t \<Rightarrow> u16" where
  "attribute_of bc fc =
     (let bcolor = mcolor_num bc; fcolor = mcolor_num fc;
          attribute_byte = push_bit 4 bcolor OR (fcolor AND 0x0F)
      in push_bit 8 (ucast attribute_byte))"

text \<open>\<^verbatim>\<open>char\<close> is signed: bytes from \<^verbatim>\<open>0x80\<close> on are below the space.\<close>

definition printable :: "u8 \<Rightarrow> bool" where
  "printable c \<longleftrightarrow> 0x20 \<le> sint c"

text \<open>The chain of conditionals of \<^verbatim>\<open>monitor_put\<close>, then wrapping and scrolling.\<close>

definition put_char :: "char \<Rightarrow> u16 \<Rightarrow> 'a mon_state_scheme \<Rightarrow> 'a mon_state_scheme" where
  "put_char ch attr s =
     (let c = of_char ch :: u8 in
      if c = 0x08 \<and> cursor_x s \<noteq> 0 then s\<lparr>cursor_x := cursor_x s - 1\<rparr>
      else if c = 0x09 then s\<lparr>cursor_x := (cursor_x s + 8) AND NOT (8 - 1)\<rparr>
      else if c = 0x0D then s\<lparr>cursor_x := 0\<rparr>
      else if c = 0x0A then s\<lparr>cursor_x := 0, cursor_y := cursor_y s + 1\<rparr>
      else if printable c then
        s\<lparr>mem := vset (mem s) (unat (cursor_y s) * 80 + unat (cursor_x s)) (ucast c OR attr),
          cursor_x := cursor_x s + 1\<rparr>
      else s)"

definition monitor_put :: "char \<Rightarrow> mcolor_t \<Rightarrow> mcolor_t \<Rightarrow> 'a mon_state_scheme \<Rightarrow> 'a mon_state_scheme" where
  "monitor_put ch bc fc s =
     (let attribute = attribute_of bc fc;
          s = put_char ch attribute s;
          s = (if cursor_x s \<ge> 80 then s\<lparr>cursor_x := 0, cursor_y := cursor_y s + 1\<rparr> else s)
      in move_cursor (scroll s))"

definition monitor_clear :: "'a mon_state_scheme \<Rightarrow> 'a mon_state_scheme" where
  "monitor_clear s =
     move_cursor (s\<lparr>mem := video_fill 0 (80 * 25) (mem s), cursor_x := 0, cursor_y := 0\<rparr>)"

fun monitor_write_color :: "string \<Rightarrow> mcolor_t \<Rightarrow> mcolor_t \<Rightarrow> 'a mon_state_scheme \<Rightarrow> 'a mon_state_scheme" where
  "monitor_write_color [] bc fc s = s"
| "monitor_write_color (c # str) bc fc s = monitor_write_color str bc fc (monitor_put c bc fc s)"

definition monitor_write :: "string \<Rightarrow> 'a mon_state_scheme \<Rightarrow> 'a mon_state_scheme" where
  "monitor_write str s = monitor_write_color str MC_BLACK MC_WHITE s"

section \<open>Numbers on the screen\<close>

definition hex_char :: "nat \<Rightarrow> char" where
  "hex_char tmp = (if tmp \<ge> 0xA then char_of (tmp - 0xA + 97) else char_of (tmp + 48))"

text \<open>The loop \<^verbatim>\<open>for (i = 28; i > 0; i -= 4)\<close>, over the shifts it takes.\<close>

fun hex_loop :: "nat list \<Rightarrow> u32 \<Rightarrow> bool \<Rightarrow> mcolor_t \<Rightarrow> mcolor_t \<Rightarrow> 'a mon_state_scheme \<Rightarrow> 'a mon_state_scheme" where
  "hex_loop [] n no_zeroes bc fc s = s"
| "hex_loop (i # is) n no_zeroes bc fc s =
     (let tmp = unat (drop_bit i n AND 0xF)
      in if tmp = 0 \<and> no_zeroes then hex_loop is n no_zeroes bc fc s
         else hex_loop is n False bc fc (monitor_put (hex_char tmp) bc fc s))"

definition monitor_write_hex :: "u32 \<Rightarrow> mcolor_t \<Rightarrow> mcolor_t \<Rightarrow> 'a mon_state_scheme \<Rightarrow> 'a mon_state_scheme" where
  "monitor_write_hex n bc fc s =
     (let s = monitor_write_color ''0x'' bc fc s;
          s = hex_loop [28, 24, 20, 16, 12, 8, 4] n True bc fc s;
          tmp = unat (n AND 0xF)
      in monitor_put (hex_char tmp) bc fc s)"

text \<open>The first loop of \<^verbatim>\<open>monitor_write_dec\<close> fills \<^verbatim>\<open>c\<close> with the digits, lowest first; the second copies
  them reversed to \<^verbatim>\<open>c2\<close>.\<close>

function dec_digits :: "u32 \<Rightarrow> string" where
  "dec_digits acc = (if acc > 0 then char_of (48 + unat (acc mod 10)) # dec_digits (acc div 10) else [])"
  by auto
termination
proof (relation "measure unat")
  fix acc :: u32 assume "0 < acc"
  then have "0 < unat acc" by (simp add: word_less_nat_alt)
  then show "(acc div 10, acc) \<in> measure unat" by (simp add: unat_div)
qed simp

declare dec_digits.simps [simp del]

definition monitor_write_dec :: "u32 \<Rightarrow> mcolor_t \<Rightarrow> mcolor_t \<Rightarrow> 'a mon_state_scheme \<Rightarrow> 'a mon_state_scheme" where
  "monitor_write_dec n bc fc s =
     (if n = 0 then monitor_put CHR ''0'' bc fc s
      else let c = dec_digits n; c2 = rev c in monitor_write_color c2 bc fc s)"

section \<open>The screen\<close>

text \<open>The abstract screen: 2000 cells, column and row.\<close>

record screen =
  cells :: "u16 list"
  col :: nat
  row :: nat

definition screen_of :: "'a mon_state_scheme \<Rightarrow> screen" where
  "screen_of s = \<lparr>cells = map (vget (mem s)) [0..<2000], col = unat (cursor_x s), row = unat (cursor_y s)\<rparr>"

definition screen_scroll :: "screen \<Rightarrow> screen" where
  "screen_scroll t = (if 25 \<le> row t then t\<lparr>cells := drop 80 (cells t) @ replicate 80 0x0F20, row := 24\<rparr> else t)"

definition screen_wrap :: "screen \<Rightarrow> screen" where
  "screen_wrap t = (if 80 \<le> col t then t\<lparr>col := 0, row := row t + 1\<rparr> else t)"

definition put_glyph :: "char \<Rightarrow> u16 \<Rightarrow> screen \<Rightarrow> screen" where
  "put_glyph ch attr t =
    (if ch = CHR 0x08 \<and> col t \<noteq> 0 then t\<lparr>col := col t - 1\<rparr>
     else if ch = CHR 0x09 then t\<lparr>col := (col t div 8 + 1) * 8\<rparr>
     else if ch = CHR 0x0D then t\<lparr>col := 0\<rparr>
     else if ch = CHR 0x0A then t\<lparr>col := 0, row := row t + 1\<rparr>
     else if 32 \<le> (of_char ch :: nat) \<and> (of_char ch :: nat) < 128 then
       t\<lparr>cells := (cells t)[row t * 80 + col t := of_char ch OR attr], col := col t + 1\<rparr>
     else t)"

definition screen_put :: "char \<Rightarrow> u16 \<Rightarrow> screen \<Rightarrow> screen" where
  "screen_put ch attr t = screen_scroll (screen_wrap (put_glyph ch attr t))"

definition mon_ok :: "'a mon_state_scheme \<Rightarrow> bool" where
  "mon_ok s \<longleftrightarrow> cursor_x s < 80 \<and> cursor_y s < 25"

section \<open>Video memory as a list of cells\<close>

definition video_byte :: "u64 \<Rightarrow> bool" where
  "video_byte a \<longleftrightarrow> 0xB8000 \<le> a \<and> a < 0xB8FA0"

lemma unat_video_addr:
  "i < 2000 \<Longrightarrow> unat (video_memory + 2 * of_nat i) = 0xB8000 + 2 * i"
  "i < 2000 \<Longrightarrow> unat (video_memory + 2 * of_nat i + 1) = 0xB8001 + 2 * i"
  by (simp_all add: video_memory_def unat_word_ariths unat_of_nat)

lemma halves_u16: "ucast (ucast v :: u8) OR push_bit 8 (ucast (ucast (drop_bit 8 v) :: u8)) = (v :: u16)"
  by (rule bit_word_eqI) (auto simp: bit_simps)

lemma vget_vset [simp]:
  assumes "i < 2000" "j < 2000"
  shows "vget (vset m i v) j = (if i = j then v else vget m j)"
proof -
  let ?a = "\<lambda>i. video_memory + 2 * of_nat i"
  have "?a i = ?a j \<longleftrightarrow> i = j" "?a i + 1 = ?a j + 1 \<longleftrightarrow> i = j" "?a i \<noteq> ?a j + 1" "?a j \<noteq> ?a i + 1"
    using assms by (simp_all add: word_unat_eq_iff unat_video_addr del: add_right_cancel) presburger+
  then show ?thesis
    by (auto simp: vget_def vset_def ld16_def st16_def halves_u16)
qed

lemma vset_outside:
  assumes "i < 2000" "\<not> video_byte a"
  shows "vset m i v a = m a"
proof -
  have "a \<noteq> video_memory + 2 * of_nat i" "a \<noteq> video_memory + 2 * of_nat i + 1"
    using assms unat_video_addr[OF assms(1)]
    by (auto simp: video_byte_def word_le_nat_alt word_less_nat_alt)
  then show ?thesis by (simp add: vset_def st16_def)
qed

lemma video_fill:
  assumes "n \<le> 2000" "m \<le> n"
  shows "j < 2000 \<Longrightarrow> vget (video_fill m n mm) j = (if m \<le> j \<and> j < n then video_blank else vget mm j)"
    and "\<not> video_byte a \<Longrightarrow> video_fill m n mm a = mm a"
  using assms(2,1) unfolding video_fill_def by (induction n rule: dec_induct) (auto simp: vset_outside)

lemma fold_vcopy:
  assumes "n \<le> 1920"
  shows "j < 2000 \<Longrightarrow> vget (fold (\<lambda>i mm. vset mm i (vget mm (i + 80))) [0..<n] mm) j =
      (if j < n then vget mm (j + 80) else vget mm j)"
    and "\<not> video_byte a \<Longrightarrow> fold (\<lambda>i mm. vset mm i (vget mm (i + 80))) [0..<n] mm a = mm a"
  using assms by (induction n arbitrary: j) (auto simp: vset_outside less_Suc_eq)

lemma video_up:
  "j < 2000 \<Longrightarrow> vget (video_up mm) j = (if j < 1920 then vget mm (j + 80) else vget mm j)"
  "\<not> video_byte a \<Longrightarrow> video_up mm a = mm a"
  using fold_vcopy[of 1920] by (simp_all only: video_up_def mult_0 order_refl) simp_all

lemma video_blank_eq [simp]: "video_blank = 0x0F20"
  by (simp add: video_blank_def) 

section \<open>The screen follows the abstract screen\<close>

lemma move_cursor_fields [simp]:
  "mem (move_cursor s) = mem s" "cursor_x (move_cursor s) = cursor_x s" "cursor_y (move_cursor s) = cursor_y s"
  by (simp_all add: move_cursor_def outb_def hw_write_def Let_def)

lemma screen_of_move_cursor [simp]: "screen_of (move_cursor s) = screen_of s"
  by (simp add: screen_of_def)

lemma scroll_screen: "screen_of (scroll s) = screen_scroll (screen_of s)"
proof (cases "cursor_y s \<ge> 25")
  case True
  have "map (vget (mem (scroll s))) [0..<2000] = drop 80 (map (vget (mem s)) [0..<2000]) @ replicate 80 0x0F20"
    by (rule nth_equalityI) (use True in \<open>auto simp: scroll_def nth_append video_fill video_up add.commute\<close>)
  then show ?thesis using True by (simp add: screen_of_def screen_scroll_def scroll_def word_le_nat_alt)
next
  case False
  then show ?thesis by (simp add: screen_of_def screen_scroll_def scroll_def word_le_nat_alt)
qed

lemma scroll_outside: "\<not> video_byte a \<Longrightarrow> mem (scroll s) a = mem s a"
  by (simp add: scroll_def video_fill(2) video_up(2))

lemma scroll_cursor: "cursor_x (scroll s) = cursor_x s" "cursor_y (scroll s) < 25"
  by (auto simp: scroll_def)

lemma u8_char: "unat (of_char ch :: u8) = of_char ch"
  using nat_of_char_less_256[of ch] unat_of_nat[of "of_char ch", where 'a = 8] by (simp add: of_nat_of_char)

lemma u8_char_eq: "(of_char ch :: u8) = of_char d \<longleftrightarrow> ch = d"
  by (metis u8_char of_char_eq_iff)

lemma ucast_char: "ucast (of_char ch :: u8) = (of_char ch :: u16)"
  by (metis u8_char of_nat_of_char of_nat_unat)

lemma printable_char: "printable (of_char ch) \<longleftrightarrow> 32 \<le> (of_char ch :: nat) \<and> (of_char ch :: nat) < 128"
proof -
  have "\<forall>n \<in> set [0..<256]. 32 \<le> sint (of_nat n :: u8) \<longleftrightarrow> 32 \<le> n \<and> n < 128" by code_simp
  then have "32 \<le> sint (of_nat (of_char ch) :: u8) \<longleftrightarrow> 32 \<le> (of_char ch :: nat) \<and> (of_char ch :: nat) < 128"
    using nat_of_char_less_256[of ch] by (metis atLeastLessThan_iff set_upt le0)
  then show ?thesis by (simp add: printable_def of_nat_of_char)
qed

lemma tab_stop: "x < 80 \<Longrightarrow> unat ((x + 8) AND NOT (8 - 1) :: u8) = (unat x div 8 + 1) * 8"
proof -
  assume "x < 80"
  then have "unat x \<in> set [0..<80]" by (simp add: word_less_nat_alt)
  moreover have "\<forall>n \<in> set [0..<80]. unat ((of_nat n + 8) AND NOT (8 - 1) :: u8) = (n div 8 + 1) * 8" by code_simp
  ultimately show ?thesis using unat_arith_simps by (metis of_nat_unat ucast_id)
qed

lemma u8_char_keys:
  "(of_char ch :: u8) = 8 \<longleftrightarrow> ch = CHR 0x08" "(of_char ch :: u8) = 9 \<longleftrightarrow> ch = CHR 0x09"
  "(of_char ch :: u8) = 13 \<longleftrightarrow> ch = CHR 0x0D" "(of_char ch :: u8) = 10 \<longleftrightarrow> ch = CHR 0x0A"
  using u8_char_eq[of ch "CHR 0x08"] u8_char_eq[of ch "CHR 0x09"] u8_char_eq[of ch "CHR 0x0D"]
    u8_char_eq[of ch "CHR 0x0A"] by simp_all

lemma cells_vset:
  "i < 2000 \<Longrightarrow> map (vget (vset m i v)) [0..<2000] = (map (vget m) [0..<2000])[i := v]"
  by (rule nth_equalityI) (auto simp: nth_list_update)

lemma put_char_screen:
  assumes "mon_ok s"
  shows "screen_of (put_char ch attr s) = put_glyph ch attr (screen_of s)"
    and "cursor_x (put_char ch attr s) \<le> 80" and "cursor_y (put_char ch attr s) \<le> 25"
    and "\<not> video_byte a \<Longrightarrow> mem (put_char ch attr s) a = mem s a"
proof -
  have x: "unat (cursor_x s) < 80" and y: "unat (cursor_y s) < 25"
    using assms by (simp_all add: mon_ok_def word_less_nat_alt)
  then have i: "unat (cursor_y s) * 80 + unat (cursor_x s) < 2000" by linarith
  have inc: "unat (cursor_x s + 1) = unat (cursor_x s) + 1" "unat (cursor_y s + 1) = unat (cursor_y s) + 1"
    using x y by (simp_all add: unat_word_ariths)
  have dec: "cursor_x s \<noteq> 0 \<Longrightarrow> unat (cursor_x s - 1) = unat (cursor_x s) - 1" by (rule unat_minus_one)
  have tab: "unat ((cursor_x s + 8) AND NOT (8 - 1)) = (unat (cursor_x s) div 8 + 1) * 8"
    using assms by (intro tab_stop) (simp add: mon_ok_def)
  show "screen_of (put_char ch attr s) = put_glyph ch attr (screen_of s)"
    using tab by (auto simp: put_char_def put_glyph_def screen_of_def u8_char_keys printable_char cells_vset[OF i]
        inc dec Let_def unat_eq_0 ucast_char)
  show "cursor_x (put_char ch attr s) \<le> 80" "cursor_y (put_char ch attr s) \<le> 25"
    using x y tab by (auto simp: put_char_def Let_def word_le_nat_alt inc dec)
  show "\<not> video_byte a \<Longrightarrow> mem (put_char ch attr s) a = mem s a"
    by (simp add: put_char_def Let_def vset_outside[OF i])
qed

definition wrap_line :: "'a mon_state_scheme \<Rightarrow> 'a mon_state_scheme" where
  "wrap_line s = (if cursor_x s \<ge> 80 then s\<lparr>cursor_x := 0, cursor_y := cursor_y s + 1\<rparr> else s)"

lemma wrap_line_screen:
  assumes "cursor_x s \<le> 80" "cursor_y s \<le> 25"
  shows "screen_of (wrap_line s) = screen_wrap (screen_of s)" "cursor_x (wrap_line s) < 80"
    "mem (wrap_line s) = mem s"
  using assms by (auto simp: wrap_line_def screen_of_def screen_wrap_def word_le_nat_alt word_less_nat_alt unat_word_ariths)

lemma monitor_put_alt: "monitor_put ch bc fc s = move_cursor (scroll (wrap_line (put_char ch (attribute_of bc fc) s)))"
  by (simp add: monitor_put_def wrap_line_def Let_def)

lemma monitor_put_screen:
  assumes "mon_ok s"
  shows "screen_of (monitor_put ch bc fc s) = screen_put ch (attribute_of bc fc) (screen_of s)"
    and "mon_ok (monitor_put ch bc fc s)"
    and "\<not> video_byte a \<Longrightarrow> mem (monitor_put ch bc fc s) a = mem s a"
proof -
  note p = put_char_screen[OF assms, where ch = ch and attr = "attribute_of bc fc"]
  note w = wrap_line_screen[OF p(2,3)]
  show "screen_of (monitor_put ch bc fc s) = screen_put ch (attribute_of bc fc) (screen_of s)"
    by (simp add: monitor_put_alt scroll_screen w p screen_put_def)
  show "mon_ok (monitor_put ch bc fc s)"
    using w(2) by (simp add: monitor_put_alt mon_ok_def scroll_cursor)
  show "mem (monitor_put ch bc fc s) a = mem s a" if "\<not> video_byte a"
    using p(4)[OF that] by (simp add: monitor_put_alt scroll_outside[OF that] w)
qed

lemma monitor_write_color_screen:
  assumes "mon_ok s"
  shows "screen_of (monitor_write_color str bc fc s) = fold (\<lambda>c. screen_put c (attribute_of bc fc)) str (screen_of s)"
    and "mon_ok (monitor_write_color str bc fc s)"
    and "\<not> video_byte a \<Longrightarrow> mem (monitor_write_color str bc fc s) a = mem s a"
  using assms by (induction str arbitrary: s) (simp_all add: monitor_put_screen)

text \<open>C15: writing a string to the screen from a cursor inside it does what the abstract 80 by 25 screen
  does character by character (glyphs, backspace, tabs, line breaks, wrapping, scrolling), leaves the
  cursor inside the screen, and touches no memory but the 4000 bytes of video memory.
\<close>

theorem monitor_write_refines:
  assumes "mon_ok s"
  shows "screen_of (monitor_write_color str bc fc s) =
      fold (\<lambda>c. screen_put c (attribute_of bc fc)) str (screen_of s) \<and>
    mon_ok (monitor_write_color str bc fc s) \<and>
    (\<forall>a. \<not> video_byte a \<longrightarrow> mem (monitor_write_color str bc fc s) a = mem s a)"
  using monitor_write_color_screen[OF assms] by blast

lemma monitor_clear_screen:
  "screen_of (monitor_clear s) = \<lparr>cells = replicate 2000 0x0F20, col = 0, row = 0\<rparr>" "mon_ok (monitor_clear s)"
proof -
  have "map (vget (video_fill 0 2000 (mem s))) [0..<2000] = replicate 2000 0x0F20"
    by (rule nth_equalityI) (auto simp: video_fill)
  then show "screen_of (monitor_clear s) = \<lparr>cells = replicate 2000 0x0F20, col = 0, row = 0\<rparr>"
    by (simp add: monitor_clear_def screen_of_def)
  show "mon_ok (monitor_clear s)" by (simp add: monitor_clear_def mon_ok_def)
qed

definition mon0 :: mon_state where
  "mon0 = \<lparr>mem = \<lambda>_. 0, console = [], freelist = 0, pa_lock = 0, trace = [], cr0 = 0, cr2 = 0, cr3 = 0,
     cr4 = 0, rflags_reg = 0, fw_lock = 0, cursor_x = 78, cursor_y = 24\<rparr>"

lemma vget_zero: "vget (\<lambda>_. 0) = (\<lambda>_. 0)"
  by (rule ext) (simp add: vget_def ld16_def)

text \<open>Three letters at the end of the last line: the third one comes to a fresh last line.\<close>

theorem monitor_write_refines_witness:
  "mon_ok mon0 \<and> cells (screen_of (monitor_write_color ''abc'' MC_BLACK MC_WHITE mon0)) ! 1919 = 0x0F62 \<and>
   cells (screen_of (monitor_write_color ''abc'' MC_BLACK MC_WHITE mon0)) ! 1920 = 0x0F63 \<and>
   col (screen_of (monitor_write_color ''abc'' MC_BLACK MC_WHITE mon0)) = 1"
proof -
  have ok: "mon_ok mon0" by (simp add: mon_ok_def mon0_def)
  have a: "attribute_of MC_BLACK MC_WHITE = 0x0F00" by (simp add: attribute_of_def)
  have m: "screen_of mon0 = \<lparr>cells = replicate 2000 0, col = 78, row = 24\<rparr>"
    by (simp add: screen_of_def mon0_def vget_zero map_replicate_const)
  show ?thesis
    using monitor_write_refines[OF ok, of "''abc''" MC_BLACK MC_WHITE] ok
    by (simp add: a m screen_put_def put_glyph_def screen_wrap_def screen_scroll_def nth_append nth_list_update)
qed

section \<open>Numbers on the screen are the numbers printf writes\<close>

lemma monitor_write_color_append:
  "monitor_write_color (a @ b) bc fc s = monitor_write_color b bc fc (monitor_write_color a bc fc s)"
  by (induction a arbitrary: s) simp_all

lemma hex_char_digit: "d < 16 \<Longrightarrow> hex_char d = digit_chars ! d"
proof -
  assume "d < 16"
  moreover have "\<forall>d \<in> set [0..<16]. hex_char d = digit_chars ! d" by code_simp
  ultimately show ?thesis by simp
qed

lemma dec_char: "d < 10 \<Longrightarrow> char_of (48 + d) = digit_chars ! d"
  using hex_char_digit[of d] by (simp add: hex_char_def add.commute)

lemma dec_digits_digs: "dec_digits n = digs 10 (unat n)"
proof (induction n rule: dec_digits.induct)
  case (1 n)
  show ?case
  proof (cases "n = 0")
    case False
    then have "0 < n" by (simp add: word_gt_0)
    moreover have "char_of (48 + unat n mod 10) = digit_chars ! (unat n mod 10)"
      by (rule dec_char) simp
    ultimately show ?thesis using 1 False
      by (simp add: dec_digits.simps[of n] digs.simps[of 10 "unat n"] unat_mod unat_div unat_eq_0)
  qed (simp add: dec_digits.simps digs.simps)
qed

definition hex_digits :: "nat \<Rightarrow> nat \<Rightarrow> string" where
  "hex_digits k n = map (\<lambda>i. digit_chars ! (n div 16 ^ i mod 16)) (rev [0..<k])"

lemma hex_digits_Suc: "hex_digits (Suc k) n = hex_digits k (n div 16) @ [digit_chars ! (n mod 16)]"
proof -
  have "map (\<lambda>i. digit_chars ! (n div 16 ^ i mod 16)) [0..<Suc k] =
      digit_chars ! (n mod 16) # map (\<lambda>i. digit_chars ! (n div 16 div 16 ^ i mod 16)) [0..<k]"
    by (simp only: upt_conv_Cons[OF zero_less_Suc] map_Suc_upt[symmetric] list.map list.map_comp comp_def)
       (simp add: div_mult2_eq)
  then show ?thesis by (simp only: hex_digits_def rev_map[symmetric] rev.simps)
qed

lemma num_out_hex: "16 ^ k \<le> n \<Longrightarrow> n < 16 ^ Suc k \<Longrightarrow> num_out 16 n = hex_digits (Suc k) n"
proof (induction k arbitrary: n)
  case 0
  then show ?case by (simp add: num_out_def digs.simps hex_digits_def)
next
  case (Suc k)
  have "16 ^ k \<le> n div 16" using Suc.prems(1) by (simp add: less_eq_div_iff_mult_less_eq mult.commute)
  moreover have "n div 16 < 16 ^ Suc k" using Suc.prems(2) by (simp add: less_mult_imp_div_less mult.commute)
  ultimately have "num_out 16 (n div 16) = hex_digits (Suc k) (n div 16)" by (rule Suc.IH)
  moreover have "n div 16 \<noteq> 0" using \<open>16 ^ k \<le> n div 16\<close> by (metis not_one_le_zero one_le_numeral one_le_power order_trans)
  moreover have "n \<noteq> 0" using \<open>n div 16 \<noteq> 0\<close> by auto
  ultimately show ?case
    by (simp add: num_out_def digs.simps[of 16 n] hex_digits_Suc[of "Suc k"])
qed

lemma nibble: "unat (drop_bit i (n::u32) AND 0xF) = unat n div 2 ^ i mod 16"
proof -
  have "drop_bit i n AND 0xF = take_bit 4 (drop_bit i n)" by (simp add: take_bit_eq_mask mask_eq_exp_minus_1)
  moreover have "unat n mod 4294967296 = unat n" using unsigned_less[of n, where 'a = nat] by simp
  ultimately show ?thesis
    by (simp only: unsigned_take_bit_eq unsigned_drop_bit_eq) (simp add: take_bit_eq_mod drop_bit_eq_div)
qed

text \<open>The shifts of the loop are 4 times the positions \<open>k, \<dots>, 1\<close>.\<close>

definition shifts :: "nat \<Rightarrow> nat list" where
  "shifts k = map (\<lambda>i. 4 * i) (rev [1..<Suc k])"

lemma shifts_Suc: "shifts (Suc k) = 4 * Suc k # shifts k"
  by (simp add: shifts_def)

lemma hex_position: "unat (drop_bit (4 * k) (n::u32) AND 0xF) = unat n div 16 ^ k mod 16"
  by (simp only: nibble power_mult) simp

lemma hex_loop_digits:
  "monitor_put (hex_char (unat n mod 16)) bc fc (hex_loop (shifts k) n False bc fc s) =
     monitor_write_color (hex_digits (Suc k) (unat n)) bc fc s"
proof (induction k arbitrary: s)
  case 0
  then show ?case by (simp add: shifts_def hex_digits_def hex_char_digit)
next
  case (Suc k)
  then show ?case
    by (simp add: shifts_Suc hex_position[of "Suc k", simplified] hex_char_digit Let_def hex_digits_def)
qed

lemma hex_loop_stripped:
  "unat n < 16 ^ Suc k \<Longrightarrow>
   monitor_put (hex_char (unat n mod 16)) bc fc (hex_loop (shifts k) n True bc fc s) =
     monitor_write_color (num_out 16 (unat n)) bc fc s"
proof (induction k arbitrary: s)
  case 0
  then show ?case
    by (cases "unat n = 0") (simp_all add: shifts_def num_out_def digs.simps hex_char_digit digit_chars_def)
next
  case (Suc k)
  show ?case
  proof (cases "unat n < 16 ^ Suc k")
    case True
    then have "unat n div 16 ^ Suc k mod 16 = 0" by simp
    then show ?thesis using Suc.IH[OF True] by (simp add: shifts_Suc hex_position[of "Suc k", simplified])
  next
    case False
    then have d: "0 < unat n div 16 ^ Suc k" by (simp add: div_greater_zero_iff)
    moreover have "unat n div 16 ^ Suc k < 16" using Suc.prems by (simp add: less_mult_imp_div_less)
    ultimately have z: "unat n div 16 ^ Suc k mod 16 \<noteq> 0" by simp
    have "num_out 16 (unat n) = hex_digits (Suc (Suc k)) (unat n)"
      using False Suc.prems by (intro num_out_hex) simp_all
    then show ?thesis using z hex_loop_digits[of n bc fc k]
      by (simp add: shifts_Suc hex_position[of "Suc k", simplified] hex_char_digit Let_def hex_digits_def)
  qed
qed

text \<open>The numbers \<^verbatim>\<open>monitor_write_dec\<close> and \<^verbatim>\<open>monitor_write_hex\<close> put on the screen are those \<^verbatim>\<open>printf\<close> writes
  for \<^verbatim>\<open>%u\<close> and for \<^verbatim>\<open>%x\<close> after \<^verbatim>\<open>0x\<close>, for every 32-bit number: no leading zeros, a single zero for zero.
\<close>

theorem monitor_numbers_agree:
  "monitor_write_dec n bc fc s = monitor_write_color (num_out 10 (unat n)) bc fc s \<and>
   monitor_write_hex n bc fc s = monitor_write_color (''0x'' @ num_out 16 (unat n)) bc fc s"
proof
  show "monitor_write_dec n bc fc s = monitor_write_color (num_out 10 (unat n)) bc fc s"
    by (auto simp: monitor_write_dec_def num_out_def dec_digits_digs unat_eq_0 Let_def)
  have "shifts 7 = [28, 24, 20, 16, 12, 8, 4]" by (simp add: shifts_def upt_rec)
  moreover have "unat n < 16 ^ Suc 7" using unsigned_less[of n, where 'a = nat] by simp
  moreover have "unat (n AND 0xF) = unat n mod 16" using nibble[of 0 n] by simp
  ultimately show "monitor_write_hex n bc fc s = monitor_write_color (''0x'' @ num_out 16 (unat n)) bc fc s"
    using hex_loop_stripped[of n 7 bc fc "monitor_write_color ''0x'' bc fc s"]
    by (simp add: monitor_write_hex_def monitor_write_color_append)
qed

end
