(* ===== verification/Io.thy ===== *)
theory Io
  imports Monitor
begin

text \<open>
  \<^verbatim>\<open>lib/x86/io.c\<close>, \<^verbatim>\<open>lib/abort.c\<close> and the printing functions of \<^verbatim>\<open>lib/printf.c\<close>: the serial port, \<^verbatim>\<open>puts\<close>,
  and \<^verbatim>\<open>printf\<close>, \<^verbatim>\<open>warning\<close> and \<^verbatim>\<open>error\<close>, which format once and write to the screen and to the serial port.
\<close>

record io_state = mon_state +
  io_lock :: u32
  serial_inited :: bool

definition serial_iobase :: u64 where "serial_iobase = 0x3f8"

text \<open>\<^verbatim>\<open>serial_outb\<close> polls the line status until the transmitter is empty.\<close>

partial_function (option) serial_wait :: "hw \<Rightarrow> 'a io_state_scheme \<Rightarrow> 'a io_state_scheme option" where
  "serial_wait hw s =
     (let (lsr, s) = inb hw (serial_iobase + 0x05) s
      in if lsr AND 0x20 \<noteq> 0 then Some s else serial_wait hw s)"

definition serial_outb :: "hw \<Rightarrow> char \<Rightarrow> 'a io_state_scheme \<Rightarrow> 'a io_state_scheme option" where
  "serial_outb hw ch s = do { s \<leftarrow> serial_wait hw s; Some (outb (of_char ch) (serial_iobase + 0x00) s) }"

definition serial_put :: "hw \<Rightarrow> char \<Rightarrow> 'a io_state_scheme \<Rightarrow> 'a io_state_scheme option" where
  "serial_put hw ch s = do {
     s \<leftarrow> (if ch = CHR 0x0A then serial_outb hw CHR 0x0D s else Some s);
     serial_outb hw ch s }"

definition serial_init :: "hw \<Rightarrow> 'a io_state_scheme \<Rightarrow> 'a io_state_scheme" where
  "serial_init hw s =
     (let (lcr, s) = inb hw (serial_iobase + 0x03) s;
          s = outb (lcr OR 0x80) (serial_iobase + 0x03) s;
          s = outb 0x01 (serial_iobase + 0x00) s;
          s = outb 0x00 (serial_iobase + 0x01) s;
          (lcr, s) = inb hw (serial_iobase + 0x03) s;
          s = outb (lcr AND NOT 0x80) (serial_iobase + 0x03) s;
          s = outb 0x00 (serial_iobase + 0x01) s;
          s = outb 0x03 (serial_iobase + 0x03) s;
          s = outb 0x00 (serial_iobase + 0x02) s
      in outb 0x03 (serial_iobase + 0x04) s)"

fun serial_puts :: "hw \<Rightarrow> string \<Rightarrow> 'a io_state_scheme \<Rightarrow> 'a io_state_scheme option" where
  "serial_puts hw [] s = Some s"
| "serial_puts hw (c # buf) s = do { s \<leftarrow> serial_put hw c s; serial_puts hw buf s }"

definition print_serial :: "hw \<Rightarrow> string \<Rightarrow> 'a io_state_scheme \<Rightarrow> 'a io_state_scheme option" where
  "print_serial hw buf s =
     serial_puts hw buf (if \<not> serial_inited s then (serial_init hw s)\<lparr>serial_inited := True\<rparr> else s)"

definition puts :: "hw \<Rightarrow> string \<Rightarrow> 'a io_state_scheme \<Rightarrow> 'a io_state_scheme option" where
  "puts hw str s = do {
     v \<leftarrow> spin_lock (io_lock s);
     s \<leftarrow> print_serial hw str (s\<lparr>io_lock := v\<rparr>);
     Some (s\<lparr>io_lock := spin_unlock (io_lock s)\<rparr>) }"

text \<open>\<^verbatim>\<open>exit\<close> leaves its writes on the bus and does not come back; its definition is the state it stops in.\<close>

definition exit_code :: "u32 \<Rightarrow> 'a io_state_scheme \<Rightarrow> 'a io_state_scheme" where
  "exit_code code s =
     fold (\<lambda>c s. outb (of_char c) 0x8900 s) ''Shutdown'' (outl code 0xf4 s)"

definition ABORT_EXIT_STATUS :: u32 where "ABORT_EXIT_STATUS = 63"

definition abort :: "'a io_state_scheme \<Rightarrow> 'a io_state_scheme" where
  "abort s = exit_code ABORT_EXIT_STATUS s"

section \<open>Formatted output\<close>

definition BUFSZ :: int where "BUFSZ = 2000"

definition vprintf :: "hw \<Rightarrow> string \<Rightarrow> parg list \<Rightarrow> 'a io_state_scheme \<Rightarrow> (int \<times> 'a io_state_scheme) option" where
  "vprintf hw fmt va s = do {
     (buf, r) \<leftarrow> vsnprintf BUFSZ fmt va;
     s \<leftarrow> puts hw buf s;
     Some (r, s) }"

definition printf :: "hw \<Rightarrow> string \<Rightarrow> parg list \<Rightarrow> 'a io_state_scheme \<Rightarrow> (int \<times> 'a io_state_scheme) option" where
  "printf hw fmt va s = do {
     (buf, r) \<leftarrow> vsnprintf BUFSZ fmt va;
     s \<leftarrow> puts hw buf (monitor_write buf s);
     Some (r, s) }"

definition warning :: "hw \<Rightarrow> string \<Rightarrow> parg list \<Rightarrow> 'a io_state_scheme \<Rightarrow> (int \<times> 'a io_state_scheme) option" where
  "warning hw fmt va s = do {
     (buf, r) \<leftarrow> vsnprintf BUFSZ fmt va;
     s \<leftarrow> puts hw buf (monitor_write_color buf MC_BLACK MC_LIGHT_YELLOW s);
     Some (r, s) }"

definition error_msg :: "hw \<Rightarrow> string \<Rightarrow> parg list \<Rightarrow> 'a io_state_scheme \<Rightarrow> (int \<times> 'a io_state_scheme) option" where
  "error_msg hw fmt va s = do {
     (buf, r) \<leftarrow> vsnprintf BUFSZ fmt va;
     s \<leftarrow> puts hw buf (monitor_write_color buf MC_BLACK MC_DARK_RED s);
     Some (r, s) }"

definition print_binstr :: "hw \<Rightarrow> u64 \<Rightarrow> 'a io_state_scheme \<Rightarrow> (int \<times> 'a io_state_scheme) option" where
  "print_binstr hw x s = do { out \<leftarrow> binstr x; printf hw ''%s'' [PStr out] s }"

section \<open>What the serial line carries\<close>

text \<open>The transmitter of the device is ready again after at most \<open>n\<close> polls, whatever was done before.\<close>

definition uart_ready :: "nat \<Rightarrow> hw \<Rightarrow> bool" where
  "uart_ready n hw \<longleftrightarrow> (\<forall>tr. \<exists>k < n.
     ucast (hw (tr @ replicate k (PortIn 1 0x3fd)) (PortIn 1 0x3fd)) AND (0x20 :: u8) \<noteq> 0)"

text \<open>The bytes written to the data port.\<close>

fun sent :: "ioev list \<Rightarrow> u32 list" where
  "sent [] = []"
| "sent (PortOut n p v # tr) = (if p = 0x3f8 then v # sent tr else sent tr)"
| "sent (_ # tr) = sent tr"

lemma sent_append [simp]: "sent (a @ b) = sent a @ sent b"
  by (induction a rule: sent.induct) auto

fun crlf :: "string \<Rightarrow> string" where
  "crlf [] = []"
| "crlf (c # cs) = (if c = CHR 0x0A then [CHR 0x0D, CHR 0x0A] else [c]) @ crlf cs"

lemma serial_wait_returns:
  assumes "uart_ready n hw"
  shows "\<exists>k. serial_wait hw s = Some (s\<lparr>trace := trace s @ replicate k (PortIn 1 0x3fd)\<rparr>)"
proof -
  obtain k where "ucast (hw (trace s @ replicate k (PortIn 1 0x3fd)) (PortIn 1 0x3fd)) AND (0x20 :: u8) \<noteq> 0"
    using assms by (auto simp: uart_ready_def)
  then show ?thesis
  proof (induction k arbitrary: s)
    case 0
    then show ?case
      by (intro exI[of _ 1], subst serial_wait.simps)
         (simp add: inb_def hw_read_def serial_iobase_def)
  next
    case (Suc k)
    let ?e = "PortIn 1 0x3fd"
    let ?s = "s\<lparr>trace := trace s @ [?e]\<rparr>"
    have "ucast (hw (trace ?s @ replicate k ?e) ?e) AND (0x20 :: u8) \<noteq> 0"
      using Suc.prems by (simp add: replicate_append_same[symmetric])
    then obtain j where "serial_wait hw ?s = Some (?s\<lparr>trace := trace ?s @ replicate j ?e\<rparr>)"
      using Suc.IH[of ?s] by blast
    then show ?case
      by (subst serial_wait.simps)
         (auto simp: inb_def hw_read_def serial_iobase_def intro: exI[of _ 1] exI[of _ "Suc j"])
  qed
qed

definition bytes_of :: "string \<Rightarrow> u32 list" where
  "bytes_of str = map (\<lambda>c. ucast (of_char c :: u8)) str"

lemma sent_polls [simp]: "sent (replicate k (PortIn w p)) = []"
  by (induction k) simp_all

lemma serial_outb_sends:
  assumes "uart_ready n hw"
  shows "\<exists>tr. serial_outb hw ch s = Some (s\<lparr>trace := trace s @ tr\<rparr>) \<and> sent tr = bytes_of [ch]"
proof -
  obtain k where "serial_wait hw s = Some (s\<lparr>trace := trace s @ replicate k (PortIn 1 0x3fd)\<rparr>)"
    using serial_wait_returns[OF assms] by blast
  then have "serial_outb hw ch s =
      Some (s\<lparr>trace := trace s @ (replicate k (PortIn 1 0x3fd) @ [PortOut 1 0x3f8 (ucast (of_char ch :: u8))])\<rparr>)"
    by (simp add: serial_outb_def outb_def hw_write_def serial_iobase_def)
  moreover have "sent (replicate k (PortIn 1 0x3fd) @ [PortOut 1 0x3f8 (ucast (of_char ch :: u8))]) = bytes_of [ch]"
    by (simp add: bytes_of_def)
  ultimately show ?thesis by blast
qed

lemma serial_puts_sends:
  assumes "uart_ready n hw"
  shows "\<exists>tr. serial_puts hw str s = Some (s\<lparr>trace := trace s @ tr\<rparr>) \<and> sent tr = bytes_of (crlf str)"
proof (induction str arbitrary: s)
  case Nil
  have "s = s\<lparr>trace := trace s @ []\<rparr>" by simp
  then show ?case by (intro exI[of _ "[]"]) (simp add: bytes_of_def)
next
  case (Cons c str)
  have "\<exists>tr. serial_put hw c s = Some (s\<lparr>trace := trace s @ tr\<rparr>) \<and> sent tr = bytes_of (crlf [c])"
  proof (cases "c = CHR 0x0A")
    case True
    obtain t1 where t1: "serial_outb hw CHR 0x0D s = Some (s\<lparr>trace := trace s @ t1\<rparr>)" "sent t1 = bytes_of [CHR 0x0D]"
      using serial_outb_sends[OF assms] by blast
    obtain t2 where "serial_outb hw c (s\<lparr>trace := trace s @ t1\<rparr>) = Some (s\<lparr>trace := trace s @ (t1 @ t2)\<rparr>)" "sent t2 = bytes_of [c]"
      using serial_outb_sends[OF assms, of c "s\<lparr>trace := trace s @ t1\<rparr>"] by auto
    with t1 True show ?thesis
      by (intro exI[of _ "t1 @ t2"]) (simp add: serial_put_def bytes_of_def)
  next
    case False
    then show ?thesis using serial_outb_sends[OF assms, of c s] by (simp add: serial_put_def)
  qed
  then obtain t1 where t1: "serial_put hw c s = Some (s\<lparr>trace := trace s @ t1\<rparr>)" "sent t1 = bytes_of (crlf [c])"
    by blast
  obtain t2 where "serial_puts hw str (s\<lparr>trace := trace s @ t1\<rparr>) = Some (s\<lparr>trace := trace s @ (t1 @ t2)\<rparr>)"
      "sent t2 = bytes_of (crlf str)"
    using Cons.IH[of "s\<lparr>trace := trace s @ t1\<rparr>"] by auto
  with t1 show ?case by (intro exI[of _ "t1 @ t2"]) (simp add: bytes_of_def)
qed

lemma serial_init_sends:
  "\<exists>tr. serial_init hw s = s\<lparr>trace := trace s @ tr\<rparr> \<and> sent tr = [1]"
  by (intro exI[of _ "drop (length (trace s)) (trace (serial_init hw s))"])
     (simp add: serial_init_def Let_def inb_def outb_def hw_read_def hw_write_def serial_iobase_def case_prod_beta)

text \<open>The divisor latch shares the data port: initialisation sends one byte that is no character.\<close>

definition init_bytes :: "'a io_state_scheme \<Rightarrow> u32 list" where
  "init_bytes s = (if serial_inited s then [] else [1])"

lemma puts_sends:
  assumes "uart_ready n hw" "io_lock s = 0"
  shows "\<exists>tr. puts hw str s = Some (s\<lparr>trace := trace s @ tr, serial_inited := True\<rparr>) \<and>
     sent tr = init_bytes s @ bytes_of (crlf str)"
proof (cases "serial_inited s")
  case True
  obtain t where "serial_puts hw str (s\<lparr>io_lock := 1\<rparr>) = Some (s\<lparr>io_lock := 1, trace := trace s @ t\<rparr>)" "sent t = bytes_of (crlf str)"
    using serial_puts_sends[OF assms(1), of str "s\<lparr>io_lock := 1\<rparr>"] by auto
  with True assms(2) show ?thesis
    by (intro exI[of _ t]) (simp add: puts_def print_serial_def init_bytes_def)
next
  case False
  obtain t0 where t0: "serial_init hw (s\<lparr>io_lock := 1\<rparr>) = s\<lparr>io_lock := 1, trace := trace s @ t0\<rparr>" "sent t0 = [1]"
    using serial_init_sends[of hw "s\<lparr>io_lock := 1\<rparr>"] by auto
  let ?s = "s\<lparr>io_lock := 1, trace := trace s @ t0, serial_inited := True\<rparr>"
  obtain t where "serial_puts hw str ?s = Some (?s\<lparr>trace := trace s @ (t0 @ t)\<rparr>)" "sent t = bytes_of (crlf str)"
    using serial_puts_sends[OF assms(1), of str ?s] by auto
  with False assms(2) t0 show ?thesis
    by (intro exI[of _ "t0 @ t"]) (simp add: puts_def print_serial_def init_bytes_def)
qed

section \<open>printf on both outputs\<close>

lemma move_cursor_line: "\<exists>tr. move_cursor s = s\<lparr>trace := trace s @ tr\<rparr> \<and> sent tr = []"
  by (intro exI[of _ "drop (length (trace s)) (trace (move_cursor s))"])
     (simp add: move_cursor_def Let_def outb_def hw_write_def)

lemma monitor_put_line:
  "sent (trace (monitor_put c bc fc s)) = sent (trace s)"
  "io_lock (monitor_put c bc fc s) = io_lock s" "serial_inited (monitor_put c bc fc s) = serial_inited s"
proof -
  let ?t = "scroll (wrap_line (put_char c (attribute_of bc fc) s))"
  obtain tr where m: "move_cursor ?t = ?t\<lparr>trace := trace ?t @ tr\<rparr>" "sent tr = []"
    using move_cursor_line by blast
  have "trace ?t = trace s" "io_lock ?t = io_lock s" "serial_inited ?t = serial_inited s"
    by (simp_all add: scroll_def wrap_line_def put_char_def Let_def)
  with m show "sent (trace (monitor_put c bc fc s)) = sent (trace s)"
    "io_lock (monitor_put c bc fc s) = io_lock s" "serial_inited (monitor_put c bc fc s) = serial_inited s"
    by (simp_all add: monitor_put_alt)
qed

lemma monitor_write_color_line:
  "sent (trace (monitor_write_color str bc fc s)) = sent (trace s)"
  "io_lock (monitor_write_color str bc fc s) = io_lock s"
  "serial_inited (monitor_write_color str bc fc s) = serial_inited s"
  by (induction str arbitrary: s) (simp_all add: monitor_put_line)

text \<open>The state after a text was written in a colour to both outputs.\<close>

definition shown :: "string \<Rightarrow> u16 \<Rightarrow> 'a io_state_scheme \<Rightarrow> 'a io_state_scheme \<Rightarrow> bool" where
  "shown txt attr s s' \<longleftrightarrow>
     screen_of s' = fold (\<lambda>c. screen_put c attr) txt (screen_of s) \<and> mon_ok s' \<and>
     sent (trace s') = sent (trace s) @ init_bytes s @ bytes_of (crlf txt) \<and>
     io_lock s' = 0 \<and> serial_inited s' \<and> (\<forall>a. \<not> video_byte a \<longrightarrow> mem s' a = mem s a)"

lemma screen_of_io: "mem s' = mem s \<Longrightarrow> cursor_x s' = cursor_x s \<Longrightarrow> cursor_y s' = cursor_y s \<Longrightarrow> screen_of s' = screen_of s"
  by (simp add: screen_of_def)

lemma write_and_puts:
  assumes "uart_ready n hw" "io_lock s = 0" "mon_ok s"
  shows "\<exists>s'. puts hw txt (monitor_write_color txt bc fc s) = Some s' \<and> shown txt (attribute_of bc fc) s s'"
proof -
  let ?m = "monitor_write_color txt bc fc s"
  have l: "io_lock ?m = 0" by (simp add: monitor_write_color_line assms(2))
  obtain tr where p: "puts hw txt ?m = Some (?m\<lparr>trace := trace ?m @ tr, serial_inited := True\<rparr>)"
      "sent tr = init_bytes ?m @ bytes_of (crlf txt)"
    using puts_sends[OF assms(1) l] by blast
  let ?s' = "?m\<lparr>trace := trace ?m @ tr, serial_inited := True\<rparr>"
  have "screen_of ?s' = screen_of ?m" by (rule screen_of_io) simp_all
  then have "shown txt (attribute_of bc fc) s ?s'"
    using monitor_write_color_screen[OF assms(3), where str = "txt" and bc = bc and fc = fc] p(2) assms(2)
    by (simp add: shown_def monitor_write_color_line init_bytes_def mon_ok_def)
  with p(1) show ?thesis by blast
qed


definition io0 :: io_state where
  "io0 = \<lparr>mem = \<lambda>_. 0, console = [], freelist = 0, pa_lock = 0, trace = [], cr0 = 0, cr2 = 0, cr3 = 0,
     cr4 = 0, rflags_reg = 0, fw_lock = 0, cursor_x = 0, cursor_y = 0, io_lock = 0, serial_inited = False\<rparr>"

text \<open>A transmitter that is ready when the number of accesses so far is even.\<close>

definition uart_hw :: hw where
  "uart_hw tr e = (if e = PortIn 1 0x3fd \<and> even (length tr) then 0x60 else 0)"

lemma uart_hw_ready: "uart_ready 2 uart_hw"
  unfolding uart_ready_def
proof
  fix tr :: "ioev list"
  show "\<exists>k<2. ucast (uart_hw (tr @ replicate k (PortIn 1 0x3fd)) (PortIn 1 0x3fd)) AND (0x20::u8) \<noteq> 0"
  proof (cases "even (length tr)")
    case True
    then show ?thesis by (intro exI[of _ 0]) (simp add: uart_hw_def)
  next
    case False
    then show ?thesis by (intro exI[of _ 1]) (simp add: uart_hw_def)
  qed
qed


end
