(* ===== verification/Report.thy ===== *)
theory Report
  imports Io
begin

text \<open>
  \<^verbatim>\<open>lib/report.c\<close>: counting and printing results. \<^verbatim>\<open>prefixes\<close> is a string in an array of 256 bytes; \<^verbatim>\<open>strstr\<close> with
  the delimiter is \<open>find_delim\<close> on character lists.
\<close>

definition PREFIX_DELIMITER :: string where [c_defs]: "PREFIX_DELIMITER = '': ''"

record rep_state = io_state +
  tests :: u32
  failures :: u32
  xfailures :: u32
  skipped :: u32
  prefixes :: string
  rep_lock :: u32

definition rep_spin_lock :: "'a rep_state_scheme \<Rightarrow> 'a rep_state_scheme option" where
  "rep_spin_lock s = map_option (\<lambda>v. s\<lparr>rep_lock := v\<rparr>) (spin_lock (rep_lock s))"

definition rep_spin_unlock :: "'a rep_state_scheme \<Rightarrow> 'a rep_state_scheme" where
  "rep_spin_unlock s = s\<lparr>rep_lock := spin_unlock (rep_lock s)\<rparr>"

definition report_pass :: "'a rep_state_scheme \<Rightarrow> 'a rep_state_scheme option" where
  "report_pass s = do {
     s \<leftarrow> rep_spin_lock s;
     let s = s\<lparr>tests := tests s + 1\<rparr>;
     Some (rep_spin_unlock s) }"

fun find_delim :: "string \<Rightarrow> nat option" where
  "find_delim [] = None"
| "find_delim (c # cs) = (if take 2 (c # cs) = PREFIX_DELIMITER then Some 0 else map_option Suc (find_delim cs))"

definition report_prefix_pushf :: "string \<Rightarrow> parg list \<Rightarrow> 'a rep_state_scheme \<Rightarrow> 'a rep_state_scheme option" where
  "report_prefix_pushf prefix_fmt va s = do {
     s \<leftarrow> rep_spin_lock s;
     let len = int (length (prefixes s));
     c_assert (len < 256);
     (buf, n) \<leftarrow> vsnprintf (256 - len) prefix_fmt va;
     let s = s\<lparr>prefixes := prefixes s @ buf\<rparr>;
     let len = len + n;
     c_assert (len < 256);
     c_assert (find_delim buf = None);
     (buf, n) \<leftarrow> snprintf (256 - len) PREFIX_DELIMITER [];
     let s = s\<lparr>prefixes := prefixes s @ buf\<rparr>;
     let len = len + n;
     c_assert (len < 256);
     Some (rep_spin_unlock s) }"

definition report_prefix_push :: "string \<Rightarrow> 'a rep_state_scheme \<Rightarrow> 'a rep_state_scheme option" where
  "report_prefix_push prefix s = report_prefix_pushf ''%s'' [PStr prefix] s"

lemma find_delim_less: "find_delim s = Some i \<Longrightarrow> i < length s"
  by (induction s arbitrary: i) (auto split: if_splits)

text \<open>The loop of \<^verbatim>\<open>report_prefix_pop\<close> on the rest of the string from \<^verbatim>\<open>p\<close> on: where the last prefix starts.
  \<^verbatim>\<open>strstr\<close> returning NULL leaves a pointer to nowhere.\<close>

function last_prefix :: "nat \<Rightarrow> string \<Rightarrow> nat option" where
  "last_prefix p rest =
     (case find_delim rest of
        None \<Rightarrow> None
      | Some i \<Rightarrow> if drop (i + 2) rest = [] then Some p else last_prefix (p + i + 2) (drop (i + 2) rest))"
  by pat_completeness auto
termination
  by (relation "measure (\<lambda>(p, rest). length rest)") (auto dest: find_delim_less)

declare last_prefix.simps [simp del]

definition report_prefix_pop :: "'a rep_state_scheme \<Rightarrow> 'a rep_state_scheme option" where
  "report_prefix_pop s = do {
     s \<leftarrow> rep_spin_lock s;
     if prefixes s = [] then Some (rep_spin_unlock s)
     else do {
       p \<leftarrow> last_prefix 0 (prefixes s);
       let s = s\<lparr>prefixes := take p (prefixes s)\<rparr>;
       Some (rep_spin_unlock s) } }"

definition va_report ::
  "hw \<Rightarrow> string \<Rightarrow> bool \<Rightarrow> bool \<Rightarrow> bool \<Rightarrow> parg list \<Rightarrow> 'a rep_state_scheme \<Rightarrow> 'a rep_state_scheme option" where
  "va_report hw msg_fmt pass xfail skip va s = do {
     let prefix = (if skip then ''SKIP'' else if xfail then (if pass then ''XPASS'' else ''XFAIL'')
                   else (if pass then ''PASS'' else ''FAIL''));
     s \<leftarrow> rep_spin_lock s;
     let s = s\<lparr>tests := tests s + 1\<rparr>;
     (r, s) \<leftarrow> printf hw ''%s: '' [PStr prefix] s;
     s \<leftarrow> puts hw (prefixes s) s;
     (r, s) \<leftarrow> vprintf hw msg_fmt va s;
     s \<leftarrow> puts hw NL s;
     let s = (if skip then s\<lparr>skipped := skipped s + 1\<rparr>
              else if xfail \<and> \<not> pass then s\<lparr>xfailures := xfailures s + 1\<rparr>
              else if xfail \<or> \<not> pass then s\<lparr>failures := failures s + 1\<rparr>
              else s);
     Some (rep_spin_unlock s) }"

definition report :: "hw \<Rightarrow> string \<Rightarrow> bool \<Rightarrow> parg list \<Rightarrow> 'a rep_state_scheme \<Rightarrow> 'a rep_state_scheme option" where
  "report hw msg_fmt pass va s = va_report hw msg_fmt pass False False va s"

definition report_xfail ::
  "hw \<Rightarrow> string \<Rightarrow> bool \<Rightarrow> bool \<Rightarrow> parg list \<Rightarrow> 'a rep_state_scheme \<Rightarrow> 'a rep_state_scheme option" where
  "report_xfail hw msg_fmt xfail pass va s = va_report hw msg_fmt pass xfail False va s"

definition report_skip :: "hw \<Rightarrow> string \<Rightarrow> parg list \<Rightarrow> 'a rep_state_scheme \<Rightarrow> 'a rep_state_scheme option" where
  "report_skip hw msg_fmt va s = va_report hw msg_fmt False False True va s"

definition report_info :: "hw \<Rightarrow> string \<Rightarrow> parg list \<Rightarrow> 'a rep_state_scheme \<Rightarrow> 'a rep_state_scheme option" where
  "report_info hw msg_fmt va s = do {
     s \<leftarrow> rep_spin_lock s;
     s \<leftarrow> puts hw ''INFO: '' s;
     s \<leftarrow> puts hw (prefixes s) s;
     (r, s) \<leftarrow> vprintf hw msg_fmt va s;
     s \<leftarrow> puts hw NL s;
     Some (rep_spin_unlock s) }"

definition print_if :: "hw \<Rightarrow> bool \<Rightarrow> string \<Rightarrow> parg list \<Rightarrow> 'a rep_state_scheme \<Rightarrow> 'a rep_state_scheme option" where
  "print_if hw b fmt va s = (if b then map_option snd (printf hw fmt va s) else Some s)"

definition report_summary :: "hw \<Rightarrow> 'a rep_state_scheme \<Rightarrow> (u32 \<times> 'a rep_state_scheme) option" where
  "report_summary hw s = do {
     s \<leftarrow> rep_spin_lock s;
     (r, s) \<leftarrow> printf hw ''SUMMARY: %d tests'' [PNum (ucast (tests s))] s;
     s \<leftarrow> print_if hw (failures s \<noteq> 0) '', %d unexpected failures'' [PNum (ucast (failures s))] s;
     s \<leftarrow> print_if hw (xfailures s \<noteq> 0) '', %d expected failures'' [PNum (ucast (xfailures s))] s;
     s \<leftarrow> print_if hw (skipped s \<noteq> 0) '', %d skipped'' [PNum (ucast (skipped s))] s;
     (r, s) \<leftarrow> printf hw NL [] s;
     if tests s = skipped s then Some (77 div 2, rep_spin_unlock s)
     else Some (if failures s > 0 then 1 else 0, rep_spin_unlock s) }"

text \<open>\<^verbatim>\<open>report_abort\<close> ends in \<^verbatim>\<open>abort\<close>: its result is the state the machine is left in.\<close>

definition report_abort :: "hw \<Rightarrow> string \<Rightarrow> parg list \<Rightarrow> 'a rep_state_scheme \<Rightarrow> 'a rep_state_scheme option" where
  "report_abort hw msg_fmt va s = do {
     s \<leftarrow> rep_spin_lock s;
     s \<leftarrow> puts hw ''ABORT: '' s;
     s \<leftarrow> puts hw (prefixes s) s;
     (r, s) \<leftarrow> vprintf hw msg_fmt va s;
     s \<leftarrow> puts hw NL s;
     (r, s) \<leftarrow> report_summary hw (rep_spin_unlock s);
     Some (abort s) }"

section \<open>Prefixes\<close>

definition join :: "string list \<Rightarrow> string" where
  "join ps = concat (map (\<lambda>p. p @ PREFIX_DELIMITER) ps)"

lemma find_delim_snoc:
  "find_delim p = None \<Longrightarrow> find_delim (p @ PREFIX_DELIMITER @ rest) = Some (length p)"
proof (induction p)
  case (Cons c p)
  have "take 2 (c # p @ PREFIX_DELIMITER @ rest) \<noteq> PREFIX_DELIMITER"
    using Cons.prems by (cases p) (auto simp: PREFIX_DELIMITER_def split: if_splits)
  then show ?case using Cons by (auto split: if_splits)
qed (simp add: PREFIX_DELIMITER_def)

lemma last_prefix_join:
  "ps \<noteq> [] \<Longrightarrow> \<forall>p \<in> set ps. find_delim p = None \<Longrightarrow> last_prefix n (join ps) = Some (n + length (join (butlast ps)))"
proof (induction ps arbitrary: n)
  case (Cons p ps)
  have "join (p # ps) = p @ PREFIX_DELIMITER @ join ps" by (simp add: join_def)
  moreover have f: "find_delim (p @ PREFIX_DELIMITER @ join ps) = Some (length p)"
    using Cons.prems by (intro find_delim_snoc) simp
  moreover have "length PREFIX_DELIMITER = 2" by (simp add: PREFIX_DELIMITER_def)
  ultimately show ?case
  proof (cases "ps = []")
    case False
    moreover have "join ps \<noteq> []" using False by (cases ps) (simp_all add: join_def PREFIX_DELIMITER_def)
    ultimately show ?thesis using Cons f \<open>length PREFIX_DELIMITER = 2\<close>
      by (subst last_prefix.simps) (simp add: join_def)
  qed (subst last_prefix.simps, simp add: join_def)
qed simp

lemma formatted_plain: "CHR ''%'' \<notin> set fmt \<Longrightarrow> formatted fmt va = Some fmt"
proof -
  have "CHR ''%'' \<notin> set fmt \<Longrightarrow> render (length fmt) fmt va = Some fmt" by (induction fmt) auto
  then show "CHR ''%'' \<notin> set fmt \<Longrightarrow> formatted fmt va = Some fmt" by (simp add: formatted_def)
qed

text \<open>Prefixes are a stack. On a prefix string made of earlier pushes, pushing a text without the delimiter appends
  it when the array has room, and a pop then restores the state before the push; when there is no room an
  assertion stops the program and nothing is written past the array.\<close>

theorem report_prefix_push_pop:
  assumes "rep_lock s = 0" "prefixes s = join ps" "\<forall>p \<in> set ps. find_delim p = None"
    "formatted fmt va = Some out" "find_delim out = None" "length (join ps) < 256"
  shows "if length (join ps) + length out + 2 < 256
    then \<exists>s'. report_prefix_pushf fmt va s = Some s' \<and> prefixes s' = join (ps @ [out]) \<and> report_prefix_pop s' = Some s
    else report_prefix_pushf fmt va s = None"
proof -
  let ?n = "length (join ps)"
  have v: "vsnprintf (256 - int ?n) fmt va = Some (take (255 - ?n) out, int (length out))"
    using assms(4,6) by (simp add: vsnprintf_out nat_diff_distrib')
  have d: "formatted PREFIX_DELIMITER [] = Some PREFIX_DELIMITER" "length PREFIX_DELIMITER = 2"
    by (simp_all add: formatted_plain PREFIX_DELIMITER_def)
  show ?thesis
  proof (cases "?n + length out < 256")
    case False
    then show ?thesis using assms v by (simp add: report_prefix_pushf_def rep_spin_lock_def Let_def)
  next
    case True
    then have t: "take (255 - ?n) out = out" by simp
    have w: "snprintf (256 - (int ?n + int (length out))) PREFIX_DELIMITER [] =
        Some (take (255 - (?n + length out)) PREFIX_DELIMITER, 2)"
    proof -
      have "nat (256 - (int ?n + int (length out)) - 1) = 255 - (?n + length out)" by arith
      moreover have "\<not> 256 - (int ?n + int (length out)) < 1" using True by linarith
      ultimately show ?thesis unfolding snprintf_def vsnprintf_out d(1) by (simp only: if_False option.map d(2)) simp
    qed
    show ?thesis
    proof (cases "?n + length out + 2 < 256")
      case False
      then show ?thesis using assms v w t True by (simp add: report_prefix_pushf_def rep_spin_lock_def Let_def)
    next
      case room: True
      then have "take (255 - (?n + length out)) PREFIX_DELIMITER = PREFIX_DELIMITER" using d(2) by simp
      then have push: "report_prefix_pushf fmt va s = Some (s\<lparr>prefixes := join (ps @ [out]), rep_lock := 0\<rparr>)"
        using assms v w t True room
        by (simp add: report_prefix_pushf_def rep_spin_lock_def rep_spin_unlock_def Let_def join_def)
      have l: "last_prefix 0 (join (ps @ [out])) = Some ?n"
        using last_prefix_join[of "ps @ [out]" 0] assms(3,5) by simp
      have "join (ps @ [out]) = join ps @ out @ PREFIX_DELIMITER" by (simp add: join_def)
      then have "take ?n (join (ps @ [out])) = join ps" "join (ps @ [out]) \<noteq> []" using d(2) by auto
      then have "report_prefix_pop (s\<lparr>prefixes := join (ps @ [out]), rep_lock := 0\<rparr>) = Some (s\<lparr>prefixes := join ps, rep_lock := 0\<rparr>)"
        using l by (simp add: report_prefix_pop_def rep_spin_lock_def rep_spin_unlock_def)
      moreover have "s\<lparr>prefixes := join ps, rep_lock := 0\<rparr> = s" using assms(1,2) by (cases s) simp
      ultimately show ?thesis using push room by simp
    qed
  qed
qed

section \<open>Counting\<close>

definition io_ok :: "'a io_state_scheme \<Rightarrow> bool" where
  "io_ok s \<longleftrightarrow> io_lock s = 0 \<and> mon_ok s"

lemma monitor_put_more: "mon_state.more (monitor_put c bc fc s) = mon_state.more s"
  by (simp add: monitor_put_alt move_cursor_def scroll_def wrap_line_def put_char_def outb_def hw_write_def Let_def)

lemma monitor_write_color_more: "mon_state.more (monitor_write_color str bc fc s) = mon_state.more s"
  by (induction str arbitrary: s) (simp_all add: monitor_put_more)

lemma puts_step:
  assumes "uart_ready n hw" "io_ok s"
  shows "\<exists>s'. puts hw str s = Some s' \<and> io_ok s' \<and> io_state.more s' = io_state.more s"
  using puts_sends[OF assms(1), of s str] assms(2) by (auto simp: io_ok_def mon_ok_def)

lemma printf_step:
  assumes "uart_ready n hw" "io_ok s" "formatted fmt va = Some out"
  shows "\<exists>s'. printf hw fmt va s = Some (int (length out), s') \<and> io_ok s' \<and> io_state.more s' = io_state.more s"
proof -
  let ?m = "monitor_write (take 1999 out) s"
  have "mon_state.more ?m = mon_state.more s" by (simp add: monitor_write_def monitor_write_color_more)
  then have m: "io_lock ?m = io_lock s" "io_state.more ?m = io_state.more s" by (cases s; cases ?m; simp)+
  have "io_ok ?m" using assms(2) m by (simp add: io_ok_def monitor_write_def monitor_write_color_screen(2))
  then show ?thesis using puts_step[OF assms(1), of ?m "take 1999 out"] assms(3) m(2)
    by (auto simp: printf_def vsnprintf_out BUFSZ_def)
qed

lemma vprintf_step:
  assumes "uart_ready n hw" "io_ok s" "formatted fmt va = Some out"
  shows "\<exists>s'. vprintf hw fmt va s = Some (int (length out), s') \<and> io_ok s' \<and> io_state.more s' = io_state.more s"
  using puts_step[OF assms(1,2), of "take 1999 out"] assms(3) by (auto simp: vprintf_def vsnprintf_out BUFSZ_def)

text \<open>One report: format, pass, expected to fail, skipped, arguments.\<close>

type_synonym report_item = "string \<times> bool \<times> bool \<times> bool \<times> parg list"

fun va_reports :: "hw \<Rightarrow> report_item list \<Rightarrow> 'a rep_state_scheme \<Rightarrow> 'a rep_state_scheme option" where
  "va_reports hw [] s = Some s"
| "va_reports hw ((fmt, pass, xfail, skip, va) # rs) s = do { s \<leftarrow> va_report hw fmt pass xfail skip va s; va_reports hw rs s }"

definition is_skip :: "report_item \<Rightarrow> bool" where
  "is_skip = (\<lambda>(fmt, pass, xfail, skip, va). skip)"

definition is_xfailure :: "report_item \<Rightarrow> bool" where
  "is_xfailure = (\<lambda>(fmt, pass, xfail, skip, va). \<not> skip \<and> xfail \<and> \<not> pass)"

definition is_failure :: "report_item \<Rightarrow> bool" where
  "is_failure = (\<lambda>(fmt, pass, xfail, skip, va). \<not> skip \<and> xfail = pass)"

definition count_of :: "(report_item \<Rightarrow> bool) \<Rightarrow> report_item list \<Rightarrow> u32" where
  "count_of P rs = of_nat (length (filter P rs))"

lemma rep_more_fields:
  "io_state.more s' = io_state.more s \<Longrightarrow> tests s' = tests s \<and> failures s' = failures s \<and> xfailures s' = xfailures s \<and>
     skipped s' = skipped s \<and> prefixes s' = prefixes s \<and> rep_lock s' = rep_lock s"
  by (cases s; cases s') simp

lemma va_report_counts:
  assumes "uart_ready n hw" "io_ok s" "rep_lock s = 0" "formatted fmt va = Some out"
  shows "\<exists>s'. va_report hw fmt pass xfail skip va s = Some s' \<and> io_ok s' \<and> rep_lock s' = 0 \<and>
    tests s' = tests s + 1 \<and> skipped s' = skipped s + (if skip then 1 else 0) \<and>
    xfailures s' = xfailures s + (if \<not> skip \<and> xfail \<and> \<not> pass then 1 else 0) \<and>
    failures s' = failures s + (if \<not> skip \<and> xfail = pass then 1 else 0)"
proof -
  let ?p = "if skip then ''SKIP'' else if xfail then (if pass then ''XPASS'' else ''XFAIL'') else (if pass then ''PASS'' else ''FAIL'')"
  let ?s = "s\<lparr>rep_lock := 1, tests := tests s + 1\<rparr>"
  have f: "\<exists>o1. formatted ''%s: '' [PStr p] = Some o1" for p
    by (simp add: formatted_def conv_out_def arg_str_def is_digit_def)
  have ok: "io_ok ?s" using assms(2) by (simp add: io_ok_def mon_ok_def)
  obtain o1 where "formatted ''%s: '' [PStr ?p] = Some o1" using f by blast
  then obtain r1 s1 where s1: "printf hw ''%s: '' [PStr ?p] ?s = Some (r1, s1)" "io_ok s1" "io_state.more s1 = io_state.more ?s"
    using printf_step[OF assms(1) ok] by blast
  obtain s2 where s2: "puts hw (prefixes s1) s1 = Some s2" "io_ok s2" "io_state.more s2 = io_state.more s1"
    using puts_step[OF assms(1) s1(2)] by blast
  obtain r3 s3 where s3: "vprintf hw fmt va s2 = Some (r3, s3)" "io_ok s3" "io_state.more s3 = io_state.more s2"
    using vprintf_step[OF assms(1) s2(2) assms(4)] by blast
  obtain s4 where s4: "puts hw NL s3 = Some s4" "io_ok s4" "io_state.more s4 = io_state.more s3"
    using puts_step[OF assms(1) s3(2)] by blast
  have m: "io_state.more s4 = io_state.more ?s" using s1(3) s2(3) s3(3) s4(3) by simp
  note q = rep_more_fields[OF m]
  show ?thesis
    using s1(1) s2(1) s3(1) s4(1,2) q assms(3)
    by (auto simp: va_report_def Let_def rep_spin_lock_def rep_spin_unlock_def io_ok_def mon_ok_def)
qed

lemma va_reports_counts:
  assumes "uart_ready n hw"
  shows "io_ok s \<Longrightarrow> rep_lock s = 0 \<Longrightarrow> \<forall>(fmt, p, x, k, va) \<in> set rs. \<exists>out. formatted fmt va = Some out \<Longrightarrow>
    \<exists>s'. va_reports hw rs s = Some s' \<and> io_ok s' \<and> rep_lock s' = 0 \<and> tests s' = tests s + of_nat (length rs) \<and>
      skipped s' = skipped s + count_of is_skip rs \<and> xfailures s' = xfailures s + count_of is_xfailure rs \<and>
      failures s' = failures s + count_of is_failure rs"
proof (induction rs arbitrary: s)
  case (Cons r rs)
  obtain fmt pass xfail skip va where r: "r = (fmt, pass, xfail, skip, va)" by (cases r)
  obtain out where out: "formatted fmt va = Some out" using Cons.prems(3) r by auto
  obtain s1 where s1: "va_report hw fmt pass xfail skip va s = Some s1" "io_ok s1" "rep_lock s1 = 0"
    "tests s1 = tests s + 1" "skipped s1 = skipped s + (if skip then 1 else 0)"
    "xfailures s1 = xfailures s + (if \<not> skip \<and> xfail \<and> \<not> pass then 1 else 0)"
    "failures s1 = failures s + (if \<not> skip \<and> xfail = pass then 1 else 0)"
    using va_report_counts[OF assms Cons.prems(1,2) out, of pass xfail skip] by blast
  have "\<forall>(fmt, p, x, k, va) \<in> set rs. \<exists>out. formatted fmt va = Some out" using Cons.prems(3) by simp
  note ih = Cons.IH[OF s1(2,3) this]
  have c: "count_of P (r # rs) = (if P r then 1 else 0) + count_of P rs" for P
    by (simp add: count_of_def)
  have t: "is_skip r = skip" "is_xfailure r = (\<not> skip \<and> xfail \<and> \<not> pass)" "is_failure r = (\<not> skip \<and> xfail = pass)"
    by (simp_all add: r is_skip_def is_xfailure_def is_failure_def)
  obtain s2 where "va_reports hw rs s1 = Some s2" "io_ok s2" "rep_lock s2 = 0" "tests s2 = tests s1 + of_nat (length rs)"
      "skipped s2 = skipped s1 + count_of is_skip rs" "xfailures s2 = xfailures s1 + count_of is_xfailure rs"
      "failures s2 = failures s1 + count_of is_failure rs"
    using ih by blast
  then show ?case using s1 by (intro exI[of _ s2]) (simp add: r[symmetric] c t, simp add: r)
qed (simp add: count_of_def)

lemma arg_signed_int: "arg_signed 0 v \<noteq> - (2 ^ 63)"
  using sint_ge[of "ucast v :: u32"] by (simp add: arg_signed_def)

lemma summary_formats:
  "\<exists>out. formatted ''SUMMARY: %d tests'' [PNum v] = Some out" "\<exists>out. formatted '', %d unexpected failures'' [PNum v] = Some out"
  "\<exists>out. formatted '', %d expected failures'' [PNum v] = Some out" "\<exists>out. formatted '', %d skipped'' [PNum v] = Some out"
  using arg_signed_int[of v] by (simp_all add: formatted_def conv_out_def arg_num_def is_digit_def)

lemma print_if_step:
  assumes "uart_ready n hw" "io_ok s" "\<exists>out. formatted fmt va = Some out"
  shows "\<exists>s'. print_if hw b fmt va s = Some s' \<and> io_ok s' \<and> io_state.more s' = io_state.more s"
proof -
  obtain out where "formatted fmt va = Some out" using assms(3) by blast
  then obtain r s' where "printf hw fmt va s = Some (r, s')" "io_ok s'" "io_state.more s' = io_state.more s"
    using printf_step[OF assms(1,2)] by blast
  then show ?thesis using assms(2) by (cases b) (auto simp: print_if_def)
qed

lemma report_summary_status:
  assumes "uart_ready n hw" "io_ok s" "rep_lock s = 0"
  shows "\<exists>s'. report_summary hw s =
    Some (if tests s = skipped s then 38 else if failures s > 0 then 1 else 0, s')"
proof -
  let ?s = "s\<lparr>rep_lock := 1\<rparr>"
  have ok: "io_ok ?s" using assms(2) by (simp add: io_ok_def mon_ok_def)
  obtain r1 s1 where s1: "printf hw ''SUMMARY: %d tests'' [PNum (ucast (tests ?s))] ?s = Some (r1, s1)" "io_ok s1" "io_state.more s1 = io_state.more ?s"
    using printf_step[OF assms(1) ok] summary_formats(1)[of "ucast (tests ?s)"] by blast
  obtain s2 where s2: "print_if hw (failures s1 \<noteq> 0) '', %d unexpected failures'' [PNum (ucast (failures s1))] s1 = Some s2" "io_ok s2" "io_state.more s2 = io_state.more s1"
    using print_if_step[OF assms(1) s1(2) summary_formats(2)] by blast
  obtain s3 where s3: "print_if hw (xfailures s2 \<noteq> 0) '', %d expected failures'' [PNum (ucast (xfailures s2))] s2 = Some s3" "io_ok s3" "io_state.more s3 = io_state.more s2"
    using print_if_step[OF assms(1) s2(2) summary_formats(3)] by blast
  obtain s4 where s4: "print_if hw (skipped s3 \<noteq> 0) '', %d skipped'' [PNum (ucast (skipped s3))] s3 = Some s4" "io_ok s4" "io_state.more s4 = io_state.more s3"
    using print_if_step[OF assms(1) s3(2) summary_formats(4)] by blast
  have "formatted NL [] = Some NL" by (rule formatted_plain) simp
  then obtain r5 s5 where s5: "printf hw NL [] s4 = Some (r5, s5)" "io_state.more s5 = io_state.more s4"
    using printf_step[OF assms(1) s4(2)] by blast
  have m: "io_state.more s5 = io_state.more ?s" using s1(3) s2(3) s3(3) s4(3) s5(2) by simp
  show ?thesis
    using s1(1) s2(1) s3(1) s4(1) s5(1) assms(3) rep_more_fields[OF m]
    by (simp add: report_summary_def rep_spin_lock_def)
qed

text \<open>C33: the summary reports the verdicts. After any sequence of fewer than \<open>2\<^sup>3\<^sup>2\<close> reports from fresh counters, with
  messages that fit their arguments and a serial line that becomes ready, \<^verbatim>\<open>report_summary\<close> returns 38 (77 shifted)
  when every report was skipped, otherwise 1 exactly when some report failed unexpectedly: a failure
  not marked as expected, or an expected one that passed.\<close>

theorem report_summary_correct:
  assumes "uart_ready n hw" "io_ok s" "rep_lock s = 0" "tests s = 0" "failures s = 0" "xfailures s = 0" "skipped s = 0"
    "\<forall>(fmt, p, x, k, va) \<in> set rs. \<exists>out. formatted fmt va = Some out" "length rs < 2 ^ 32"
  shows "\<exists>s1 s2. va_reports hw rs s = Some s1 \<and>
    report_summary hw s1 = Some (if \<forall>r \<in> set rs. is_skip r then 38 else if \<exists>r \<in> set rs. is_failure r then 1 else 0, s2)"
proof -
  obtain s1 where s1: "va_reports hw rs s = Some s1" "io_ok s1" "rep_lock s1 = 0" "tests s1 = of_nat (length rs)"
      "skipped s1 = count_of is_skip rs" "failures s1 = count_of is_failure rs"
    using va_reports_counts[OF assms(1-3,8)] assms(4-7) by auto
  have u: "unat (of_nat k :: u32) = k" if "k \<le> length rs" for k
    using that assms(9) by (simp add: unat_of_nat take_bit_nat_eq_self)
  have c: "unat (count_of P rs) = length (filter P rs)" for P
    by (simp add: count_of_def u length_filter_le)
  have "tests s1 = skipped s1 \<longleftrightarrow> length rs = length (filter is_skip rs)"
    unfolding s1(4,5) word_unat_eq_iff c u[OF order_refl] ..
  also have "\<dots> \<longleftrightarrow> (\<forall>r \<in> set rs. is_skip r)"
    by (metis filter_True length_filter_less order_less_irrefl)
  finally have a: "tests s1 = skipped s1 \<longleftrightarrow> (\<forall>r \<in> set rs. is_skip r)" .
  have "failures s1 > 0 \<longleftrightarrow> 0 < length (filter is_failure rs)" using s1(6) c by (simp add: word_less_nat_alt)
  also have "\<dots> \<longleftrightarrow> (\<exists>r \<in> set rs. is_failure r)" by (auto simp: filter_empty_conv)
  finally have b: "failures s1 > 0 \<longleftrightarrow> (\<exists>r \<in> set rs. is_failure r)" .
  show ?thesis using report_summary_status[OF assms(1) s1(2,3)] s1(1) unfolding a b by blast
qed

definition rep0 :: rep_state where
  "rep0 = io_state.extend io0 \<lparr>tests = 0, failures = 0, xfailures = 0, skipped = 0, prefixes = [], rep_lock = 0\<rparr>"

lemma rep0_fields:
  "io_ok rep0" "rep_lock rep0 = 0" "tests rep0 = 0" "failures rep0 = 0" "xfailures rep0 = 0" "skipped rep0 = 0"
  "prefixes rep0 = []"
  by (simp_all add: rep0_def io_state.defs io_ok_def mon_ok_def io0_def)

theorem report_prefix_push_pop_witness:
  "\<exists>s'. report_prefix_pushf ''cpu%d'' [PNum 3] rep0 = Some s' \<and> prefixes s' = ''cpu3: '' \<and> report_prefix_pop s' = Some rep0"
proof -
  have f: "formatted ''cpu%d'' [PNum 3] = Some ''cpu3''" "find_delim ''cpu3'' = None" by code_simp+
  have j: "join [] = []" "join [''cpu3''] = ''cpu3: ''" by (simp_all add: join_def PREFIX_DELIMITER_def)
  show ?thesis
    using report_prefix_push_pop[of rep0 "[]" "''cpu%d''" "[PNum 3]" "''cpu3''"] f rep0_fields j by simp
qed

theorem report_summary_correct_witness:
  "\<exists>s1 s2. va_reports uart_hw [(''a'', True, False, False, []), (''b'', True, True, False, []), (''c'', False, False, True, [])] rep0
     = Some s1 \<and> report_summary uart_hw s1 = Some (1, s2)"
proof -
  let ?rs = "[(''a'', True, False, False, []), (''b'', True, True, False, []), (''c'', False, False, True, [])] :: report_item list"
  have f: "\<forall>(fmt, p, x, k, va) \<in> set ?rs. \<exists>out. formatted fmt va = Some out"
    by (simp add: formatted_plain)
  show ?thesis using report_summary_correct[OF uart_hw_ready rep0_fields(1-6) f] by (simp add: is_skip_def is_failure_def)
qed

end
