(* ===== verification/Phys_Alloc.thy ===== *)
theory Phys_Alloc
  imports Vmx_Machine
begin

text \<open>
  \<^verbatim>\<open>lib/alloc_phys.c\<close>: the allocator of physical memory that never frees. The array \<^verbatim>\<open>regions\<close> has 256
  entries; a store past its end has no result.
\<close>

definition PHYS_ALLOC_NR_REGIONS :: nat where [c_defs]: "PHYS_ALLOC_NR_REGIONS = 256"
definition DEFAULT_MINIMUM_ALIGNMENT :: u64 where [c_defs]: "DEFAULT_MINIMUM_ALIGNMENT = 32"
definition INVALID_PHYS_ADDR :: u64 where [c_defs]: "INVALID_PHYS_ADDR = NOT 0"

record phys_alloc_region =
  region_base :: u64
  region_size :: u64

record phys_state = vmx_state +
  regions :: "phys_alloc_region list"
  nr_regions :: nat
  phys_lock :: u32
  phys_base :: u64
  phys_top :: u64
  early_align_min :: u64
  phys_warned :: bool

definition phys_spin_lock :: "'a phys_state_scheme \<Rightarrow> 'a phys_state_scheme option" where
  "phys_spin_lock s = map_option (\<lambda>v. s\<lparr>phys_lock := v\<rparr>) (spin_lock (phys_lock s))"

definition phys_spin_unlock :: "'a phys_state_scheme \<Rightarrow> 'a phys_state_scheme" where
  "phys_spin_unlock s = s\<lparr>phys_lock := spin_unlock (phys_lock s)\<rparr>"

text \<open>\<^verbatim>\<open>regions[nr_regions] = \<dots>; ++nr_regions;\<close>\<close>

definition log_region :: "u64 \<Rightarrow> u64 \<Rightarrow> 'a phys_state_scheme \<Rightarrow> 'a phys_state_scheme option" where
  "log_region a sz s = do {
     c_assert (nr_regions s < length (regions s));
     Some (s\<lparr>regions := (regions s)[nr_regions s := \<lparr>region_base = a, region_size = sz\<rparr>],
       nr_regions := nr_regions s + 1\<rparr>) }"

fun show_regions :: "phys_alloc_region list \<Rightarrow> 'a phys_state_scheme \<Rightarrow> 'a phys_state_scheme" where
  "show_regions [] s = s"
| "show_regions (r # rs) s =
     show_regions rs (kprintf (''%016lx-%016lx [%s]'' @ NL)
       [PNum (region_base r), PNum (region_base r + region_size r - 1), PStr ''USED''] s)"

definition phys_alloc_show :: "'a phys_state_scheme \<Rightarrow> 'a phys_state_scheme option" where
  "phys_alloc_show s = do {
     s \<leftarrow> phys_spin_lock s;
     let s = kprintf (''phys_alloc minimum alignment: %#lx'' @ NL) [PNum (early_align_min s)] s;
     c_assert (nr_regions s \<le> length (regions s));
     let s = show_regions (take (nr_regions s) (regions s)) s;
     let s = kprintf (''%016lx-%016lx [%s]'' @ NL) [PNum (phys_base s), PNum (phys_top s - 1), PStr ''FREE''] s;
     Some (phys_spin_unlock s) }"

definition phys_alloc_init :: "u64 \<Rightarrow> u64 \<Rightarrow> 'a phys_state_scheme \<Rightarrow> 'a phys_state_scheme option" where
  "phys_alloc_init base_addr sz s = do {
     s \<leftarrow> phys_spin_lock s;
     let s = s\<lparr>phys_base := base_addr\<rparr>;
     let s = s\<lparr>phys_top := phys_base s + sz, nr_regions := 0\<rparr>;
     Some (phys_spin_unlock s) }"

definition phys_alloc_set_minimum_alignment :: "u64 \<Rightarrow> 'a phys_state_scheme \<Rightarrow> 'a phys_state_scheme option" where
  "phys_alloc_set_minimum_alignment align s = do {
     c_assert (align \<noteq> 0 \<and> align AND (align - 1) = 0);
     s \<leftarrow> phys_spin_lock s;
     let s = s\<lparr>early_align_min := align\<rparr>;
     Some (phys_spin_unlock s) }"

text \<open>On a 64-bit build \<^verbatim>\<open>sizeof(long) == 4\<close> is false, so \<^verbatim>\<open>top_safe\<close> is \<^verbatim>\<open>top\<close> whatever \<open>safe\<close> is.\<close>

definition phys_alloc_aligned_safe ::
  "u64 \<Rightarrow> u64 \<Rightarrow> bool \<Rightarrow> 'a phys_state_scheme \<Rightarrow> (u64 \<times> 'a phys_state_scheme) option" where
  "phys_alloc_aligned_safe sz align safe s = do {
     let size_orig = sz;
     s \<leftarrow> phys_spin_lock s;
     let top_safe = phys_top s;
     c_assert (phys_base s < top_safe);
     let addr = ALIGN (phys_base s) align;
     let sz = sz + (addr - phys_base s);
     if top_safe - phys_base s < sz then
       let s = kprintf (''phys_alloc: requested=%#lx (align=%#lx), need=%#lx, but free=%#lx. top=%#lx, top_safe=%#lx'' @ NL)
         [PNum size_orig, PNum align, PNum sz, PNum (top_safe - phys_base s), PNum (phys_top s), PNum top_safe] s
       in Some (INVALID_PHYS_ADDR, phys_spin_unlock s)
     else do {
       let s = s\<lparr>phys_base := phys_base s + sz\<rparr>;
       s \<leftarrow> (if nr_regions s < PHYS_ALLOC_NR_REGIONS then log_region addr size_orig s
             else if \<not> phys_warned s then
               Some ((kprintf (''WARNING: phys_alloc: No free log entries, can no longer log allocations...'' @ NL) [] s)
                 \<lparr>phys_warned := True\<rparr>)
             else Some s);
       Some (addr, phys_spin_unlock s) } }"

definition phys_alloc_get_unused :: "'a phys_state_scheme \<Rightarrow> (u64 \<times> u64 \<times> 'a phys_state_scheme) option" where
  "phys_alloc_get_unused s = do {
     let p_base = phys_base s;
     let p_top = phys_top s;
     if phys_base s = phys_top s then Some (p_base, p_top, s)
     else do {
       s \<leftarrow> phys_spin_lock s;
       s \<leftarrow> log_region (phys_base s) (phys_top s - phys_base s) s;
       let s = s\<lparr>phys_base := phys_top s\<rparr>;
       Some (p_base, p_top, phys_spin_unlock s) } }"

definition early_memalign :: "u64 \<Rightarrow> u64 \<Rightarrow> 'a phys_state_scheme \<Rightarrow> (u64 \<times> 'a phys_state_scheme) option" where
  "early_memalign alignment sz s = do {
     c_assert (alignment \<noteq> 0 \<and> alignment AND (alignment - 1) = 0);
     (addr, s) \<leftarrow> phys_alloc_aligned_safe sz alignment True s;
     Some (if addr = INVALID_PHYS_ADDR then 0 else phys_to_virt addr, s) }"

section \<open>Rounding up to a power of two\<close>

definition round_up :: "nat \<Rightarrow> nat \<Rightarrow> nat" where
  "round_up k n = (n + 2 ^ k - 1) div 2 ^ k * 2 ^ k"

lemma round_up_ge: "n \<le> round_up k n"
proof -
  have "(n + 2 ^ k - 1) div 2 ^ k * 2 ^ k + (n + 2 ^ k - 1) mod 2 ^ k = n + 2 ^ k - 1" by (rule div_mult_mod_eq)
  moreover have "(n + 2 ^ k - 1) mod 2 ^ k < 2 ^ k" by (rule mod_less_divisor) simp
  moreover have "(1::nat) \<le> 2 ^ k" by simp
  ultimately show ?thesis unfolding round_up_def by linarith
qed

lemma round_up_less: "round_up k n < n + 2 ^ k"
proof -
  have "(n + 2 ^ k - 1) div 2 ^ k * 2 ^ k \<le> n + 2 ^ k - 1" by (rule div_times_less_eq_dividend)
  moreover have "(1::nat) \<le> 2 ^ k" by simp
  ultimately show ?thesis unfolding round_up_def by linarith
qed

lemma round_up_dvd [simp]: "2 ^ k dvd round_up k n"
  by (simp add: round_up_def)

lemma round_up_id: "2 ^ k dvd n \<Longrightarrow> round_up k n = n"
proof -
  assume "2 ^ k dvd n"
  then obtain q where q: "n = 2 ^ k * q" by (elim dvdE)
  have "round_up k n < n + 2 ^ k" "n \<le> round_up k n" "2 ^ k dvd round_up k n"
    by (simp_all add: round_up_less round_up_ge)
  then obtain r where r: "round_up k n = 2 ^ k * r" by (elim dvdE)
  with q \<open>n \<le> round_up k n\<close> \<open>round_up k n < n + 2 ^ k\<close> have "2 ^ k * q \<le> 2 ^ k * r" "2 ^ k * r < 2 ^ k * Suc q" by simp_all
  then have "q \<le> r" "r < Suc q" by (simp_all only: mult_le_cancel1 mult_less_cancel1)
  then have "q = r" by simp
  with q r show ?thesis by simp
qed

lemma unat_and_not_mask: "unat (x AND NOT (mask k) :: u64) = unat x div 2 ^ k * 2 ^ k"
proof -
  have "x AND NOT (mask k) = push_bit k (drop_bit k x)"
    by (rule bit_word_eqI) (auto simp: bit_simps)
  moreover have "unat (push_bit k (drop_bit k x)) = unat x div 2 ^ k * 2 ^ k"
  proof -
    have "unat (drop_bit k x) * 2 ^ k \<le> unat x" by (simp add: unat_drop_bit div_times_less_eq_dividend)
    also have "unat x < 2 ^ 64" using unat_lt_2_64[of x] by simp
    finally have "unat (drop_bit k x) * 2 ^ k < 2 ^ 64" .
    then show ?thesis 
      by (simp only: unsigned_push_bit_eq) (simp add: unat_drop_bit take_bit_nat_eq_self push_bit_eq_mult)
  qed
  ultimately show ?thesis by simp
qed

lemma unat_ALIGN:
  assumes "k < 64" "unat x + 2 ^ k \<le> 2 ^ 64"
  shows "unat (ALIGN x (2 ^ k)) = round_up k (unat x)"
proof -
  have m: "(2 ^ k - 1 :: u64) = mask k" by (simp add: mask_eq_exp_minus_1)
  have "unat (2 ^ k :: u64) = 2 ^ k" by (rule unat_pow2) (use assms(1) in simp)
  then have "unat (mask k :: u64) = 2 ^ k - 1"
    by (simp add: mask_eq_exp_minus_1 unat_sub word_le_nat_alt)
  moreover have "(1::nat) \<le> 2 ^ k" by simp
  ultimately have "unat (x + mask k) = unat x + 2 ^ k - 1" using assms(2) by (simp add: unat_word_ariths)
  then show ?thesis by (simp add: ALIGN_def ALIGN_MASK_def m unat_and_not_mask round_up_def)
qed

section \<open>Regions in order\<close>

fun regions_ok :: "nat \<Rightarrow> nat \<Rightarrow> phys_alloc_region list \<Rightarrow> bool" where
  "regions_ok lo hi [] \<longleftrightarrow> lo \<le> hi"
| "regions_ok lo hi (r # rs) \<longleftrightarrow> lo \<le> unat (region_base r) \<and>
     regions_ok (unat (region_base r) + unat (region_size r)) hi rs"

lemma regions_ok_snoc:
  "regions_ok lo hi (rs @ [r]) \<longleftrightarrow>
     regions_ok lo (unat (region_base r)) rs \<and> unat (region_base r) + unat (region_size r) \<le> hi"
  by (induction rs arbitrary: lo) auto

lemma regions_ok_mono: "regions_ok lo hi rs \<Longrightarrow> hi \<le> hi' \<Longrightarrow> regions_ok lo hi' rs"
  by (induction rs arbitrary: lo) auto

lemma regions_ok_le: "regions_ok lo hi rs \<Longrightarrow> lo \<le> hi"
  by (induction rs arbitrary: lo) fastforce+

text \<open>\<open>b0\<close> is where the allocator started; what it has handed out lies below \<^verbatim>\<open>base\<close>, in the order of the log.\<close>

definition phys_inv :: "nat \<Rightarrow> 'a phys_state_scheme \<Rightarrow> bool" where
  "phys_inv b0 s \<longleftrightarrow> length (regions s) = 256 \<and> nr_regions s \<le> 256 \<and> phys_lock s = 0 \<and>
     phys_base s \<le> phys_top s \<and> regions_ok b0 (unat (phys_base s)) (take (nr_regions s) (regions s))"

lemma phys_alloc_aligned_safe_ok:
  assumes inv: "phys_inv b0 s" and lt: "phys_base s < phys_top s" and k: "k < 64"
    and room: "unat (phys_base s) + 2 ^ k \<le> 2 ^ 64" "unat sz + 2 ^ k \<le> 2 ^ 64"
  shows "\<exists>a s'. phys_alloc_aligned_safe sz (2 ^ k) safe s = Some (a, s') \<and> phys_inv b0 s' \<and>
     phys_top s' = phys_top s \<and> mem s' = mem s \<and>
     (let addr = round_up k (unat (phys_base s)) in
      if addr + unat sz \<le> unat (phys_top s)
      then unat a = addr \<and> unat (phys_base s') = addr + unat sz
      else a = INVALID_PHYS_ADDR \<and> phys_base s' = phys_base s)"
proof -
  let ?b = "phys_base s" and ?a = "ALIGN (phys_base s) (2 ^ k)"
  have a: "unat ?a = round_up k (unat ?b)" by (rule unat_ALIGN[OF k room(1)])
  have ge: "unat ?b \<le> unat ?a" and less: "unat ?a < unat ?b + 2 ^ k"
    by (simp_all add: a round_up_ge round_up_less)
  have d: "unat (?a - ?b) = unat ?a - unat ?b" using ge by (simp add: unat_sub word_le_nat_alt)
  have "unat sz + (unat ?a - unat ?b) < 2 ^ 64" using ge less room(2) by linarith
  then have need: "unat (sz + (?a - ?b)) = unat sz + (unat ?a - unat ?b)" by (simp add: unat_word_ariths d)
  have free: "unat (phys_top s - ?b) = unat (phys_top s) - unat ?b"
    using lt by (simp add: unat_sub less_imp_le)
  have bt: "unat ?b < unat (phys_top s)" using lt by (simp add: word_less_nat_alt)
  have fits: "phys_top s - ?b < sz + (?a - ?b) \<longleftrightarrow> \<not> unat ?a + unat sz \<le> unat (phys_top s)"
    unfolding word_less_nat_alt need free using ge bt by linarith
  show ?thesis
  proof (cases "unat ?a + unat sz \<le> unat (phys_top s)")
    case False
    then show ?thesis using inv lt fits
      by (simp add: phys_alloc_aligned_safe_def phys_spin_lock_def phys_spin_unlock_def phys_inv_def Let_def
          kprintf_def a)
  next
    case True
    have nb: "unat (?b + (sz + (?a - ?b))) = unat ?a + unat sz"
    proof -
      have "unat ?a + unat sz < 18446744073709551616" using True unat_lt_2_64[of "phys_top s"] by linarith
      then have "unat (?a + sz) = unat ?a + unat sz" by (simp add: unat_word_ariths)
      moreover have "?b + (sz + (?a - ?b)) = ?a + sz" by simp
      ultimately show ?thesis by (simp only:)
    qed
    have le: "?b + (sz + (?a - ?b)) \<le> phys_top s" using True nb by (simp add: word_le_nat_alt)
    have mono: "regions_ok b0 (unat ?a) (take (nr_regions s) (regions s))"
      using inv ge by (auto simp: phys_inv_def intro: regions_ok_mono)
    then have mono': "regions_ok b0 (unat ?a + unat sz) (take (nr_regions s) (regions s))"
      by (rule regions_ok_mono) simp
    have log: "nr_regions s < 256 \<Longrightarrow> regions_ok b0 (unat ?a + unat sz)
        (take (Suc (nr_regions s)) ((regions s)[nr_regions s := \<lparr>region_base = ?a, region_size = sz\<rparr>]))"
      using inv mono by (simp add: phys_inv_def take_Suc_conv_app_nth regions_ok_snoc)
    show ?thesis using inv lt fits True nb le mono' log
      by (auto simp: phys_alloc_aligned_safe_def phys_spin_lock_def phys_spin_unlock_def phys_inv_def Let_def
          kprintf_def log_region_def c_defs a)
  qed
qed

text \<open>C29: the physical allocator. Requests of any size and any power-of-two alignment (that do not overflow 64 bits)
  come back: when the request fits, with the first aligned address above what was handed out before, and
  the block ends at the new \<^verbatim>\<open>base\<close>; otherwise with the invalid address and nothing taken. The log keeps
  listing disjoint blocks in address order inside the memory given, and no memory is written.\<close>

theorem phys_alloc_correct:
  assumes "phys_inv b0 s" "phys_base s < phys_top s" "k < 64"
    "unat (phys_base s) + 2 ^ k \<le> 2 ^ 64" "unat sz + 2 ^ k \<le> 2 ^ 64"
  shows "\<exists>a s'. phys_alloc_aligned_safe sz (2 ^ k) safe s = Some (a, s') \<and> phys_inv b0 s' \<and>
     phys_top s' = phys_top s \<and> mem s' = mem s \<and>
     (let addr = round_up k (unat (phys_base s)) in
      if addr + unat sz \<le> unat (phys_top s)
      then unat a = addr \<and> unat (phys_base s') = addr + unat sz
      else a = INVALID_PHYS_ADDR \<and> phys_base s' = phys_base s)"
  using assms by (rule phys_alloc_aligned_safe_ok)

text \<open>A machine whose physical allocator owns the addresses from \<open>b\<close> to \<open>t\<close>.\<close>

definition phys_machine :: "u64 \<Rightarrow> u64 \<Rightarrow> phys_state" where
  "phys_machine b t = vmx_state.extend vmx0 \<lparr>regions = replicate 256 \<lparr>region_base = 0, region_size = 0\<rparr>,
     nr_regions = 0, phys_lock = 0, phys_base = b, phys_top = t, early_align_min = 32, phys_warned = False\<rparr>"

lemma phys_machine_fields [simp]:
  "phys_base (phys_machine b t) = b" "phys_top (phys_machine b t) = t" "phys_lock (phys_machine b t) = 0"
  "nr_regions (phys_machine b t) = 0"
  "regions (phys_machine b t) = replicate 256 \<lparr>region_base = 0, region_size = 0\<rparr>"
  by (simp_all add: phys_machine_def vmx_state.extend_def)

theorem phys_alloc_correct_witness:
  "\<exists>a s'. phys_alloc_aligned_safe 0x100 (2 ^ 12) True (phys_machine 0x1234 0x9000) = Some (a, s') \<and>
     unat a = 0x2000 \<and> unat (phys_base s') = 0x2100"
proof -
  have inv: "phys_inv 0x1234 (phys_machine 0x1234 0x9000)" by (simp add: phys_inv_def)
  show ?thesis
    using phys_alloc_correct[OF inv, of 12 "0x100" True] by (auto simp: round_up_def)
qed

text \<open>Handing over what is left stores into the log without looking at its length: with 256 regions
  logged the store is past the end of the array.\<close>

theorem phys_alloc_get_unused_overruns:
  assumes "length (regions s) = 256" "nr_regions s = 256" "phys_base s \<noteq> phys_top s"
  shows "phys_alloc_get_unused s = None"
  using assms by (cases "phys_lock s = 0")
    (simp_all add: phys_alloc_get_unused_def phys_spin_lock_def log_region_def spin_lock_def)

theorem phys_alloc_get_unused_overruns_witness:
  "phys_alloc_get_unused ((phys_machine 0x1000 0x2000)\<lparr>nr_regions := 256\<rparr>) = None"
  by (rule phys_alloc_get_unused_overruns) simp_all

end
