(* ===== verification/Malloc.thy ===== *)
theory Malloc
  imports Phys_Alloc Page_Alloc_Props
begin

text \<open>
  \<^verbatim>\<open>lib/alloc.c\<close>: \<^verbatim>\<open>malloc\<close> and its friends on top of a table of operations (\<^verbatim>\<open>struct alloc_ops\<close>). The block the
  provider returns carries two words in front of what the caller gets: the distance to its start and its size.
  The locale states what a provider owes; the early and the page allocator are its instances.
\<close>

record 's alloc_ops =
  ao_memalign :: "u64 \<Rightarrow> u64 \<Rightarrow> 's \<Rightarrow> (u64 \<times> 's) option"
  ao_free :: "(u64 \<Rightarrow> u64 \<Rightarrow> 's \<Rightarrow> 's option) option"
  ao_align_min :: u64

definition METADATA_EXTRA :: u64 where [c_defs]: "METADATA_EXTRA = 2 * 8"
definition OFS_SLACK :: u64 where [c_defs]: "OFS_SLACK = - 2 * 8"
definition OFS_SIZE :: u64 where [c_defs]: "OFS_SIZE = - 8"

definition block_begin :: "mem \<Rightarrow> u64 \<Rightarrow> u64" where
  "block_begin m p = (let slack = ld64 m (p + OFS_SLACK) in p - slack)"

definition block_size :: "mem \<Rightarrow> u64 \<Rightarrow> u64" where
  "block_size m p = ld64 m (p + OFS_SIZE)"

definition free :: "'a mstate_scheme alloc_ops \<Rightarrow> u64 \<Rightarrow> 'a mstate_scheme \<Rightarrow> 'a mstate_scheme option" where
  "free ops ptr s =
     (case ao_free ops of
        None \<Rightarrow> Some s
      | Some f \<Rightarrow> f (block_begin (mem s) ptr) (block_size (mem s) ptr) s)"

text \<open>The sizes \<^verbatim>\<open>memalign\<close> works with: alignment, alignment of the block and size of the block.\<close>

definition memalign_request :: "u64 \<Rightarrow> u64 \<Rightarrow> u64 \<Rightarrow> u64 \<times> u64 \<times> u64" where
  "memalign_request align_min alignment sz =
     (let (alignment, sz) = (if alignment \<le> 8 then (8, sz) else (alignment, sz + (alignment - 1)));
          blkalign = max alignment align_min;
          sz = ALIGN (sz + METADATA_EXTRA) align_min
      in (alignment, blkalign, sz))"

definition memalign ::
  "'a mstate_scheme alloc_ops \<Rightarrow> u64 \<Rightarrow> u64 \<Rightarrow> 'a mstate_scheme \<Rightarrow> (u64 \<times> 'a mstate_scheme) option" where
  "memalign ops alignment sz s = do {
     let (alignment, blkalign, sz) = memalign_request (ao_align_min ops) alignment sz;
     (p, s) \<leftarrow> ao_memalign ops blkalign sz s;
     let m = p + METADATA_EXTRA;
     let m = ALIGN m alignment;
     let s = s\<lparr>mem := st64 (mem s) (m + OFS_SLACK) (m - p)\<rparr>;
     let s = s\<lparr>mem := st64 (mem s) (m + OFS_SIZE) sz\<rparr>;
     Some (m, s) }"

definition malloc :: "'a mstate_scheme alloc_ops \<Rightarrow> u64 \<Rightarrow> 'a mstate_scheme \<Rightarrow> (u64 \<times> 'a mstate_scheme) option" where
  "malloc ops sz s = memalign ops 8 sz s"

definition calloc ::
  "'a mstate_scheme alloc_ops \<Rightarrow> u64 \<Rightarrow> u64 \<Rightarrow> 'a mstate_scheme \<Rightarrow> (u64 \<times> 'a mstate_scheme) option" where
  "calloc ops nmemb sz s = do {
     (ptr, s) \<leftarrow> malloc ops (nmemb * sz) s;
     Some (ptr, if ptr \<noteq> 0 then s\<lparr>mem := memset ptr 0 (nmemb * sz) (mem s)\<rparr> else s) }"

section \<open>Where the caller's bytes are\<close>

text \<open>What \<^verbatim>\<open>memalign\<close> makes of a block: \<open>m\<close> is aligned, the two words and the \<open>sz\<close> bytes of the caller
  lie inside the block of \<open>bs\<close> bytes at \<open>p\<close>, and the words lead back to it.\<close>

definition carved :: "nat \<Rightarrow> nat \<Rightarrow> u64 \<Rightarrow> u64 \<Rightarrow> u64 \<Rightarrow> mem \<Rightarrow> bool" where
  "carved j sz p bs m mm \<longleftrightarrow> 2 ^ j dvd unat m \<and> unat p + 16 \<le> unat m \<and> unat m + sz \<le> unat p + unat bs \<and>
     block_begin mm m = p \<and> block_size mm m = bs"

lemma memalign_request_ok:
  assumes j: "j < 63" and n: "n < 63" and fit: "unat sz + 2 ^ j + 2 ^ n + 16 \<le> 2 ^ 64"
    and req: "memalign_request (2 ^ n) (2 ^ j) sz = (al, ba, bs)"
  shows "al = 2 ^ max 3 j" "ba = 2 ^ max (max 3 j) n"
    "unat sz + (if j \<le> 3 then 0 else 2 ^ j - 1) + 16 \<le> unat bs"
proof -
  have p2: "unat (2 ^ i :: u64) = 2 ^ i" if "i < 64" for i using that by (rule unat_pow2)
  have le8: "(2 ^ j :: u64) \<le> 8 \<longleftrightarrow> j \<le> 3"
    using j power_increasing_iff[of "2::nat" j 3] by (simp add: word_le_nat_alt p2)
  have mx: "max (2 ^ a) (2 ^ b) = (2 ^ max a b :: u64)" if "a < 63" "b < 63" for a b
    using that by (simp add: max_def word_le_nat_alt p2)
  show al: "al = 2 ^ max 3 j"
    using req le8 by (auto simp: memalign_request_def Let_def max_def split: if_splits)
  have "ba = max al (2 ^ n)" using req by (auto simp: memalign_request_def Let_def split: if_splits)
  then show "ba = 2 ^ max (max 3 j) n" using j n by (simp add: al mx)
  let ?sz = "if j \<le> 3 then sz else sz + (2 ^ j - 1)" and ?e = "if j \<le> 3 then 0 else 2 ^ j - 1 :: nat"
  have e: "unat (2 ^ j - 1 :: u64) = 2 ^ j - 1" using j by (simp add: unat_sub word_le_nat_alt p2)
  have "unat ?sz = unat sz + ?e" using fit j by (auto simp: unat_word_ariths e)
  moreover have "unat sz + ?e + 16 < 2 ^ 64"
  proof -
    have "0 < (2::nat) ^ j" "0 < (2::nat) ^ n" by simp_all
    with fit have "unat sz + (2 ^ j - 1) + 16 < 2 ^ 64" "unat sz + 0 + 16 < 2 ^ 64" by linarith+
    then show ?thesis by simp
  qed
  ultimately have u: "unat (?sz + METADATA_EXTRA) = unat sz + ?e + 16"
    by (simp add: METADATA_EXTRA_def unat_word_ariths)
  have bs: "bs = ALIGN (?sz + METADATA_EXTRA) (2 ^ n)"
    using req le8 by (auto simp: memalign_request_def Let_def split: if_splits)
  have "unat bs = round_up n (unat sz + ?e + 16)"
    unfolding bs u[symmetric] by (rule unat_ALIGN) (use n fit u in auto)
  then show "unat sz + ?e + 16 \<le> unat bs" using round_up_ge[of "unat sz + ?e + 16" n] by simp
qed

lemma metadata_back:
  assumes "aligned 3 m"
  shows "block_begin (st64 (st64 mm (m + OFS_SLACK) (m - p)) (m + OFS_SIZE) bs) m = p"
    "block_size (st64 (st64 mm (m + OFS_SLACK) (m - p)) (m + OFS_SIZE) bs) m = bs"
proof -
  have al: "aligned 3 (m + OFS_SLACK)" "aligned 3 (m + OFS_SIZE)"
  proof -
    have "aligned 3 OFS_SLACK" "aligned 3 OFS_SIZE"
      by (simp_all add: OFS_SLACK_def OFS_SIZE_def aligned_iff_mod)
    then show "aligned 3 (m + OFS_SLACK)" "aligned 3 (m + OFS_SIZE)" using assms by (auto intro: aligned_add)
  qed
  have "m + OFS_SIZE \<noteq> m + OFS_SLACK" by (simp add: OFS_SLACK_def OFS_SIZE_def)
  then have "ld64 (st64 (st64 mm (m + OFS_SLACK) (m - p)) (m + OFS_SIZE) bs) (m + OFS_SLACK) = m - p"
    using al by (simp add: ld64_st64_other)
  then show "block_begin (st64 (st64 mm (m + OFS_SLACK) (m - p)) (m + OFS_SIZE) bs) m = p"
    by (simp add: block_begin_def)
qed (simp add: block_size_def)

lemma carve_address:
  assumes p3: "aligned 3 p" and fit: "unat p + unat bs < 2 ^ 64"
    and bs: "sz + (if j \<le> 3 then 0 else 2 ^ j - 1) + 16 \<le> unat bs" and j: "j < 63"
  defines "m \<equiv> ALIGN (p + METADATA_EXTRA) (2 ^ max 3 j)"
  shows "2 ^ max 3 j dvd unat m" "unat p + 16 \<le> unat m" "unat m + sz \<le> unat p + unat bs"
proof -
  let ?k = "max 3 j"
  have u: "unat (p + METADATA_EXTRA) = unat p + 16"
    using fit bs by (simp add: METADATA_EXTRA_def unat_word_ariths)
  have d: "8 dvd unat p + 16" using p3 by (simp add: aligned_iff_mod mod_eq_0_iff_dvd)
  have room: "unat p + 16 + 2 ^ ?k \<le> 2 ^ 64"
  proof (cases "j \<le> 3")
    case True
    obtain q where q: "unat p + 16 = 8 * q" using d by (elim dvdE)
    have "unat p + 16 < 2 ^ 64" using fit bs by linarith
    then show ?thesis using True q by (simp add: max_def) 
  next
    case False
    have "(1::nat) \<le> 2 ^ j" by simp
    then show ?thesis using False fit bs by simp
  qed
  have m: "unat m = round_up ?k (unat p + 16)"
    unfolding m_def u[symmetric] by (rule unat_ALIGN) (use room u j in auto)
  show "2 ^ ?k dvd unat m" "unat p + 16 \<le> unat m" by (simp_all add: m round_up_ge)
  show "unat m + sz \<le> unat p + unat bs"
  proof (cases "j \<le> 3")
    case True
    then have "unat m = unat p + 16" using d round_up_id[of 3 "unat p + 16"] by (simp add: m max_def)
    then show ?thesis using bs True by simp
  next
    case False
    then show ?thesis using round_up_less[of j "unat p + 16"] bs by (simp add: m max_def)
  qed
qed

lemma st64_outside: "16 \<le> unat (a - (m + OFS_SLACK)) \<Longrightarrow>
    st64 (st64 mm (m + OFS_SLACK) v) (m + OFS_SIZE) w a = mm a"
proof -
  assume a: "16 \<le> unat (a - (m + OFS_SLACK))"
  define d where "d = a - (m + OFS_SLACK)"
  have "a - (m + OFS_SIZE) = d - 8" by (simp add: OFS_SLACK_def OFS_SIZE_def d_def)
  moreover have "unat (d - 8) = unat d - 8" using a by (simp add: unat_sub word_le_nat_alt d_def)
  ultimately have "8 \<le> a - (m + OFS_SIZE)" "8 \<le> a - (m + OFS_SLACK)"
    using a by (simp_all add: word_le_nat_alt flip: d_def)
  then show ?thesis by (simp add: st64_other)
qed

lemma memalign_carves:
  assumes req: "memalign_request (ao_align_min ops) (2 ^ j) sz = (al, ba, bs)" and am: "ao_align_min ops = 2 ^ n"
    and j: "j < 63" and n: "n < 63" and sz: "unat sz + 2 ^ j + 2 ^ n + 16 \<le> 2 ^ 64"
    and pr: "ao_memalign ops ba bs s = Some (p, s')" and p3: "aligned 3 p" and fit: "unat p + unat bs < 2 ^ 64"
  shows "\<exists>m mm. memalign ops (2 ^ j) sz s = Some (m, s'\<lparr>mem := mm\<rparr>) \<and> carved j (unat sz) p bs m mm \<and>
    (\<forall>a. 16 \<le> unat (a - (m - 16)) \<longrightarrow> mm a = mem s' a)"
proof -
  note r = memalign_request_ok[OF j n sz req[unfolded am]]
  let ?m = "ALIGN (p + METADATA_EXTRA) (2 ^ max 3 j)"
  let ?mm = "st64 (st64 (mem s') (?m + OFS_SLACK) (?m - p)) (?m + OFS_SIZE) bs"
  note c = carve_address[OF p3 fit r(3) j]
  have "(2::nat) ^ 3 dvd unat ?m" "2 ^ j dvd unat ?m"
    using c(1) by (meson dvd_trans le_imp_power_dvd max.cobounded1 max.cobounded2)+
  then have "aligned 3 ?m" "2 ^ j dvd unat ?m" by (simp_all add: aligned_iff_mod mod_eq_0_iff_dvd)
  then have "carved j (unat sz) p bs ?m ?mm" using c metadata_back by (simp add: carved_def)
  moreover have "memalign ops (2 ^ j) sz s = Some (?m, s'\<lparr>mem := ?mm\<rparr>)"
    using req pr by (simp add: memalign_def r(1) Let_def)
  moreover have "\<forall>a. 16 \<le> unat (a - (?m - 16)) \<longrightarrow> ?mm a = mem s' a"
    using st64_outside[of _ ?m] by (simp add: OFS_SLACK_def)
  ultimately show ?thesis by blast
qed

section \<open>The contract of a provider\<close>

locale block_provider =
  fixes ops :: "'a mstate_scheme alloc_ops" and ready :: "u64 \<Rightarrow> u64 \<Rightarrow> 'a mstate_scheme \<Rightarrow> bool" and n :: nat
  assumes align_min: "ao_align_min ops = 2 ^ n" and min_bound: "n < 63"
    and block: "ready ba bs s \<Longrightarrow> \<exists>p s'. ao_memalign ops ba bs s = Some (p, s') \<and>
      (p \<noteq> 0 \<longrightarrow> aligned 3 p \<and> unat p + unat bs < 2 ^ 64)"
begin

lemma memalign_block:
  assumes "memalign_request (ao_align_min ops) (2 ^ j) sz = (al, ba, bs)" "ready ba bs s"
    "j < 63" "unat sz + 2 ^ j + 2 ^ n + 16 \<le> 2 ^ 64"
  shows "\<exists>p s'. ao_memalign ops ba bs s = Some (p, s') \<and> (p \<noteq> 0 \<longrightarrow>
     (\<exists>m mm. memalign ops (2 ^ j) sz s = Some (m, s'\<lparr>mem := mm\<rparr>) \<and> carved j (unat sz) p bs m mm \<and>
       (\<forall>a. 16 \<le> unat (a - (m - 16)) \<longrightarrow> mm a = mem s' a)))"
proof -
  obtain p s' where p: "ao_memalign ops ba bs s = Some (p, s')"
      "p \<noteq> 0 \<longrightarrow> aligned 3 p \<and> unat p + unat bs < 2 ^ 64"
    using block[OF assms(2)] by blast
  then show ?thesis using memalign_carves[OF assms(1) align_min assms(3) min_bound assms(4) p(1)] by auto
qed

lemma free_block:
  assumes "ao_free ops = Some f" "carved j sz p bs m (mem s)"
  shows "free ops m s = f p bs s"
  using assms by (simp add: free_def carved_def)

end

section \<open>The early allocator\<close>

definition early_ops :: "u64 \<Rightarrow> 'a phys_state_scheme alloc_ops" where
  "early_ops align_min = \<lparr>ao_memalign = early_memalign, ao_free = None, ao_align_min = align_min\<rparr>"

definition early_ready :: "u64 \<Rightarrow> u64 \<Rightarrow> 'a phys_state_scheme \<Rightarrow> bool" where
  "early_ready ba bs s \<longleftrightarrow> (\<exists>k b0. ba = 2 ^ k \<and> 3 \<le> k \<and> k < 64 \<and> phys_inv b0 s \<and> phys_base s < phys_top s \<and>
     unat (phys_base s) + 2 ^ k \<le> 2 ^ 64 \<and> unat bs + 2 ^ k \<le> 2 ^ 64)"

lemma pow2_minus_and: "k < 64 \<Longrightarrow> (2 ^ k :: u64) AND (2 ^ k - 1) = 0"
  by (rule bit_word_eqI) (auto simp: bit_simps mask_eq_exp_minus_1[symmetric] bit_exp_iff)

lemma early_memalign_block:
  assumes "early_ready ba bs s"
  shows "\<exists>p s'. early_memalign ba bs s = Some (p, s') \<and> (p \<noteq> 0 \<longrightarrow> aligned 3 p \<and> unat p + unat bs < 2 ^ 64)"
proof -
  obtain k b0 where k: "ba = 2 ^ k" "3 \<le> k" "k < 64" "phys_inv b0 s" "phys_base s < phys_top s"
      "unat (phys_base s) + 2 ^ k \<le> 2 ^ 64" "unat bs + 2 ^ k \<le> 2 ^ 64"
    using assms by (auto simp: early_ready_def)
  obtain a s' where a: "phys_alloc_aligned_safe bs (2 ^ k) True s = Some (a, s')"
     "let addr = round_up k (unat (phys_base s)) in
      if addr + unat bs \<le> unat (phys_top s)
      then unat a = addr \<and> unat (phys_base s') = addr + unat bs
      else a = INVALID_PHYS_ADDR \<and> phys_base s' = phys_base s"
    using phys_alloc_aligned_safe_ok[OF k(4,5,3,6,7)] by metis
  have nz: "(2 ^ k :: u64) \<noteq> 0" using k(3) unat_pow2[of k] by (metis unat_0 power_not_zero zero_neq_numeral)
  have e: "early_memalign ba bs s = Some (if a = INVALID_PHYS_ADDR then 0 else a, s')"
    using a(1) nz pow2_minus_and[OF k(3)] by (simp add: early_memalign_def k(1))
  have "aligned 3 a \<and> unat a + unat bs < 2 ^ 64" if "a \<noteq> INVALID_PHYS_ADDR"
  proof -
    have u: "unat a = round_up k (unat (phys_base s))" "unat a + unat bs \<le> unat (phys_top s)"
      using a(2) that by (auto simp: Let_def split: if_splits)
    have "(2::nat) ^ 3 dvd 2 ^ k" using k(2) by (rule le_imp_power_dvd)
    then have "2 ^ 3 dvd unat a" using round_up_dvd[of k] u(1) dvd_trans by metis
    then show ?thesis using order_le_less_trans[OF u(2) unat_lt_2_64] by (simp add: aligned_iff_mod mod_eq_0_iff_dvd)
  qed
  with e show ?thesis by auto
qed

interpretation early: block_provider "early_ops 32" early_ready 5
  by unfold_locales (simp_all add: early_ops_def early_memalign_block[simplified])

section \<open>The page allocator\<close>

definition page_alloc_ops :: "'a pa_state_scheme alloc_ops" where
  "page_alloc_ops = \<lparr>ao_memalign = page_memalign, ao_free = Some page_free, ao_align_min = PAGE_SIZE\<rparr>"

lemma bit_unat_range: "unat (w::u64) < 2 ^ Suc k \<Longrightarrow> (if bit w k then 2 ^ k \<le> unat w else unat w < 2 ^ k)"
proof -
  assume u: "unat w < 2 ^ Suc k"
  have b: "bit w k \<longleftrightarrow> odd (unat w div 2 ^ k)" 
  proof -
    have "bit (unat w) k \<longleftrightarrow> bit w k" by (simp add: bit_unsigned_iff)
    then show ?thesis using bit_iff_odd[of "unat w" k] by simp
  qed
  have "unat w div 2 ^ k < 2" using u by (simp add: less_mult_imp_div_less)
  then have "bit w k \<longleftrightarrow> unat w div 2 ^ k = 1" using b by (auto simp: less_2_cases_iff)
  moreover have "unat w div 2 ^ k = 0 \<or> unat w div 2 ^ k = 1" using \<open>unat w div 2 ^ k < 2\<close> by linarith
  moreover have "2 ^ k \<le> unat w" if "unat w div 2 ^ k = 1"
    using div_times_less_eq_dividend[of "unat w" "2 ^ k"] that by simp
  ultimately show ?thesis by (auto simp: div_eq_0_iff)
qed

lemma msb_index_range:
  "w \<noteq> 0 \<Longrightarrow> unat w < 2 ^ Suc k \<Longrightarrow> \<exists>i \<le> k. msb_index k w = of_nat i \<and> 2 ^ i \<le> unat w \<and> unat w < 2 ^ Suc i"
proof (induction k)
  case 0
  then have "unat w = 1" using unat_eq_0[of w] by (cases "unat w = 0") auto
  then show ?case by simp
next
  case (Suc k)
  show ?case
  proof (cases "bit w (Suc k)")
    case True
    then show ?thesis using bit_unat_range[OF Suc.prems(2)] Suc.prems(2) by (intro exI[of _ "Suc k"]) simp
  next
    case False
    then have "unat w < 2 ^ Suc k" using bit_unat_range[OF Suc.prems(2)] by simp
    then obtain i where "i \<le> k" "msb_index k w = of_nat i" "2 ^ i \<le> unat w" "unat w < 2 ^ Suc i"
      using Suc.IH[OF Suc.prems(1)] by blast
    then show ?thesis using False by (intro exI[of _ i]) simp
  qed
qed

text \<open>The order \<^verbatim>\<open>page_memalign\<close> computes is the least whose block holds the pages asked for.\<close>

definition page_order :: "u64 \<Rightarrow> u64 option" where
  "page_order n = (if is_power_of_2 n then fls n else map_option (\<lambda>k. k + 1) (fls n))"

lemma page_order_least:
  assumes "n \<noteq> 0" "unat n \<le> 2 ^ 50"
  shows "\<exists>i \<le> 50. page_order n = Some (of_nat i) \<and> unat n \<le> 2 ^ i \<and> 2 ^ i < 2 * unat n"
proof -
  have "unat n < 2 ^ Suc 63" by simp
  then obtain i where i: "i \<le> 63" "msb_index 63 n = of_nat i" "2 ^ i \<le> unat n" "unat n < 2 ^ Suc i"
    using msb_index_range[OF assms(1)] by blast
  have i50: "i \<le> 50"
  proof (rule ccontr)
    assume "\<not> i \<le> 50"
    then have "(2::nat) ^ 51 \<le> 2 ^ i" by (intro power_increasing) simp_all
    then show False using i(3) assms(2) by simp
  qed
  show ?thesis
  proof (cases "unat n = 2 ^ i")
    case True
    then have "n = 2 ^ i" using unat_pow2[of i] i50 by (simp add: word_unat_eq_iff)
    then have "is_power_of_2 n" using assms(1) pow2_minus_and[of i] i50 by (simp add: is_power_of_2_def)
    then show ?thesis using i i50 assms(1) True by (intro exI[of _ i]) (simp add: page_order_def fls_def)
  next
    case False
    have np: "\<not> is_power_of_2 n"
    proof
      assume "is_power_of_2 n"
      then have z: "n AND (n - 1) = 0" by (simp add: is_power_of_2_def)
      have b: "bit n i" using bit_unat_range[OF i(4)] i(3) by (simp split: if_splits)
      have "2 ^ i \<le> unat (n - 1)" "unat (n - 1) < 2 ^ Suc i"
        using False i(3,4) assms(1) by (simp_all add: unat_minus_one)
      then have "bit (n - 1) i" using bit_unat_range[of "n - 1" i] by (simp split: if_splits)
      then have "bit (n AND (n - 1)) i" using b by (simp add: bit_and_iff)
      then show False using z by simp
    qed
    have "Suc i \<le> 50"
    proof (rule ccontr)
      assume "\<not> Suc i \<le> 50"
      then have "(2::nat) ^ 50 \<le> 2 ^ i" by (intro power_increasing) simp_all
      then show False using i(3) assms(2) False i50 by simp
    qed
    then show ?thesis using np i assms(1) False
      by (intro exI[of _ "Suc i"]) (simp add: page_order_def fls_def add.commute)
  qed
qed

definition pages_for :: "u64 \<Rightarrow> nat" where
  "pages_for bs = round_up 12 (unat bs) div 4096"

lemma pages_for_unat:
  assumes "unat bs \<le> 2 ^ 62"
  shows "unat (drop_bit 12 (ALIGN bs PAGE_SIZE)) = pages_for bs" "pages_for bs * 4096 = round_up 12 (unat bs)"
    "unat bs \<le> pages_for bs * 4096" "bs \<noteq> 0 \<Longrightarrow> 0 < pages_for bs" "pages_for bs \<le> 2 ^ 50"
proof -
  have "unat (ALIGN bs (2 ^ 12)) = round_up 12 (unat bs)" using assms by (intro unat_ALIGN) simp_all
  then show "unat (drop_bit 12 (ALIGN bs PAGE_SIZE)) = pages_for bs"
    by (simp add: unat_drop_bit pages_for_def)
  show m: "pages_for bs * 4096 = round_up 12 (unat bs)" using round_up_dvd[of 12 "unat bs"] by (simp add: pages_for_def)
  show ge: "unat bs \<le> pages_for bs * 4096" unfolding m by (rule round_up_ge)
  show "bs \<noteq> 0 \<Longrightarrow> 0 < pages_for bs" using ge unat_eq_0[of bs] by (cases "pages_for bs") auto
  have "round_up 12 (unat bs) \<le> 2 ^ 62"
  proof -
    have "unat bs + 2 ^ 12 - 1 < (2 ^ 50 + 1) * 2 ^ 12" using assms by simp
    then have "(unat bs + 2 ^ 12 - 1) div 2 ^ 12 < 2 ^ 50 + 1" by (rule less_mult_imp_div_less)
    then show ?thesis by (simp add: round_up_def)
  qed
  then show "pages_for bs \<le> 2 ^ 50" using m by simp
qed

lemma order_unique: "n \<le> 2 ^ k \<Longrightarrow> 2 ^ k < 2 * n \<Longrightarrow> n \<le> 2 ^ i \<Longrightarrow> 2 ^ i < 2 * n \<Longrightarrow> k = (i::nat)" for n :: nat
proof -
  have *: "k \<le> i" if "2 ^ k < 2 * n" "n \<le> 2 ^ i" for k i
  proof -
    have "(2::nat) ^ k < 2 ^ Suc i" using that by simp
    then have "k < Suc i" by (rule power_less_imp_less_exp[rotated]) simp
    then show ?thesis by simp
  qed
  assume "n \<le> 2 ^ k" "2 ^ k < 2 * n" "n \<le> 2 ^ i" "2 ^ i < 2 * n"
  then show "k = i" using *[of k i] *[of i k] by simp
qed

definition page_ready :: "u64 \<Rightarrow> u64 \<Rightarrow> 'a pa_state_scheme \<Rightarrow> bool" where
  "page_ready ba bs s \<longleftrightarrow> bs \<noteq> 0 \<and> unat bs \<le> 2 ^ 62 \<and> (\<exists>fl. fl_inv s fl \<and> (\<forall>q \<in> set fl. unat q < 2 ^ 63))"

lemma page_memalign_alloc:
  assumes "bs \<noteq> 0" "unat bs \<le> 2 ^ 62"
  shows "\<exists>i \<le> 50. page_memalign ba bs s = alloc_pages (of_nat i) s \<and> pages_for bs \<le> 2 ^ i \<and> 2 ^ i < 2 * pages_for bs"
proof -
  note f = pages_for_unat[OF assms(2)]
  let ?n = "drop_bit 12 (ALIGN bs PAGE_SIZE)"
  have "?n \<noteq> 0" using f(1) f(4)[OF assms(1)] by (metis less_irrefl unat_0)
  moreover have "unat ?n \<le> 2 ^ 50" using f(1,5) by simp
  ultimately obtain i where "i \<le> 50" "page_order ?n = Some (of_nat i)" "unat ?n \<le> 2 ^ i" "2 ^ i < 2 * unat ?n"
    using page_order_least by blast
  then show ?thesis using assms(1) by (intro exI[of _ i]) (simp add: page_memalign_def page_order_def Let_def f(1))
qed

lemma page_memalign_order:
  assumes "n \<le> 2 ^ i" "2 ^ i < 2 * n" "i \<le> 50"
  shows "page_memalign ba (PAGE_SIZE * of_nat n) s = alloc_pages (of_nat i) s"
proof -
  let ?bs = "PAGE_SIZE * of_nat n :: u64"
  have "(2::nat) ^ i \<le> 2 ^ 50" using assms(3) by (intro power_increasing) simp_all
  then have n: "n \<le> 2 ^ 50" "0 < n" using assms(1,2) by linarith+
  have u: "unat ?bs = 4096 * n" using n by (simp add: unat_word_ariths unat_of_nat)
  have pf: "pages_for ?bs = n" by (simp add: pages_for_def u round_up_id)
  have bs: "?bs \<noteq> 0" "unat ?bs \<le> 2 ^ 62" using n u by (auto simp: unat_eq_0[symmetric])
  show ?thesis using page_memalign_alloc[OF bs, of ba s] order_unique[OF _ _ assms(1,2)] pf by auto
qed

lemma page_memalign_block:
  assumes "page_ready ba bs s"
  shows "\<exists>p s'. page_memalign ba bs s = Some (p, s') \<and> (p \<noteq> 0 \<longrightarrow> aligned 3 p \<and> unat p + unat bs < 2 ^ 64)"
proof -
  obtain fl where r: "bs \<noteq> 0" "unat bs \<le> 2 ^ 62" "fl_inv s fl" "\<forall>q \<in> set fl. unat q < 2 ^ 63"
    using assms by (auto simp: page_ready_def)
  obtain i where i: "i \<le> 50" "page_memalign ba bs s = alloc_pages (of_nat i) s"
    using page_memalign_alloc[OF r(1,2)] by blast
  have o: "(of_nat i :: u64) < 52" "unat (of_nat i :: u64) = i" using i(1) by (simp_all add: word_less_nat_alt unat_of_nat)
  obtain p s' where p: "alloc_pages (of_nat i) s = Some (p, s')"
     "p \<noteq> 0 \<longrightarrow> (\<exists>as bs. fl = as @ page_run p (2 ^ i) @ bs \<and> aligned (12 + i) p)"
    using alloc_pages_run[OF r(3) o(1)] o(2) by (metis (no_types, lifting))
  have "aligned 3 p \<and> unat p + unat bs < 2 ^ 64" if nz: "p \<noteq> 0"
  proof -
    obtain as cs where c: "fl = as @ page_run p (2 ^ i) @ cs" "aligned (12 + i) p" using p(2) nz by blast
    have "p \<in> set (page_run p (2 ^ i))" by (cases "2 ^ i :: nat") (simp_all add: page_run_Suc)
    then have "unat p < 2 ^ 63" using c(1) r(4) by simp
    then show ?thesis using c(2) r(2) aligned_weaken[of "12 + i" p 3] by simp
  qed
  with i(2) p(1) show ?thesis by auto
qed

interpretation pages: block_provider page_alloc_ops page_ready 12
  by unfold_locales (simp_all add: page_alloc_ops_def page_memalign_block[simplified])

section \<open>Properties\<close>



text \<open>A failed allocation is not reported: when the provider returns \<^verbatim>\<open>NULL\<close>, \<^verbatim>\<open>malloc\<close> writes its two words over the
  first 16 bytes of memory and returns the address 16.\<close>

theorem malloc_null_provider:
  assumes "memalign_request (ao_align_min ops) 8 sz = (8, ba, bs)" "ao_memalign ops ba bs s = Some (0, s')"
  shows "malloc ops sz s = Some (16, s'\<lparr>mem := st64 (st64 (mem s') 0 16) 8 bs\<rparr>)"
  using assms
  by (simp add: malloc_def memalign_def Let_def METADATA_EXTRA_def OFS_SLACK_def OFS_SIZE_def ALIGN_def ALIGN_MASK_def)

theorem malloc_null_provider_witness:
  "malloc page_alloc_ops 100 pa0 = Some (16, pa0\<lparr>mem := st64 (st64 (\<lambda>_. 0) 0 16) 8 4096\<rparr>)"
proof -
  have "memalign_request (ao_align_min (page_alloc_ops :: pa_state alloc_ops)) 8 100 = (8, 4096, 4096)"
    by (simp add: page_alloc_ops_def memalign_request_def METADATA_EXTRA_def ALIGN_def ALIGN_MASK_def max_def)
  moreover have "ao_memalign page_alloc_ops 4096 4096 pa0 = Some (0, pa0)"
    using page_memalign_order[of 1 0 4096 pa0]
    by (simp add: page_alloc_ops_def alloc_pages_def pa0_def pa_spin_lock_def pa_spin_unlock_def
        alloc_pages_loop.simps Let_def)
  ultimately show ?thesis using malloc_null_provider[of page_alloc_ops 100 4096 4096 pa0 pa0] by (simp add: pa0_def)
qed

lemma aligned_top: "aligned k p \<Longrightarrow> k < 64 \<Longrightarrow> unat p + 2 ^ k \<le> 2 ^ 64"
proof -
  assume "aligned k p" "k < 64"
  then obtain q where q: "unat p = 2 ^ k * q" by (auto simp: aligned_iff_mod mod_eq_0_iff_dvd elim: dvdE)
  have "(2::nat) ^ 64 = 2 ^ k * 2 ^ (64 - k)" using \<open>k < 64\<close> by (simp only: flip: power_add) simp
  moreover have "unat p < 2 ^ 64" by simp
  ultimately have "2 ^ k * q < 2 ^ k * 2 ^ (64 - k)" using q by simp
  then have "Suc q \<le> 2 ^ (64 - k)" by simp
  then have "2 ^ k * Suc q \<le> 2 ^ k * 2 ^ (64 - k)" by (rule mult_le_mono2)
  then show ?thesis using q \<open>(2::nat) ^ 64 = 2 ^ k * 2 ^ (64 - k)\<close> by simp
qed

text \<open>The page allocator rounds a request up to a power of two pages but is given back only the pages asked for:
  from a free list that starts with \<open>2\<^sup>i\<close> pages a block of \<open>n\<close> pages is cut, \<open>2\<^sup>i\<^sup>-\<^sup>1 < n \<le> 2\<^sup>i\<close>, and after freeing it
  the last \<open>2\<^sup>i - n\<close> of these pages are gone.\<close>

theorem page_free_loses_tail:
  assumes "fl_inv s (page_run p (2 ^ i) @ rest)" "aligned (12 + i) p" "i \<le> 50" "n \<le> 2 ^ i" "2 ^ i < 2 * n"
  shows "\<exists>s1 s2. page_memalign ba (PAGE_SIZE * of_nat n) s = Some (p, s1) \<and>
    page_free p (PAGE_SIZE * of_nat n) s1 = Some s2 \<and> fl_inv s2 (page_run p n @ rest)"
proof -
  have o: "(of_nat i :: u64) < 52" "unat (of_nat i :: u64) = i" using assms(3) by (simp_all add: word_less_nat_alt unat_of_nat)
  obtain s1 where s1: "alloc_pages (of_nat i) s = Some (p, s1)"
    using alloc_pages_first[of s "[]" p "of_nat i" rest] assms(1,2) o by auto
  have "p \<in> set (page_run p (2 ^ i))" by (cases "2 ^ i :: nat") (simp_all add: page_run_Suc)
  then have nz: "p \<noteq> 0" using assms(1) by (auto simp: fl_inv_def dest!: flist_aligned)
  obtain as bs where ab: "page_run p (2 ^ i) @ rest = as @ page_run p (2 ^ i) @ bs" "fl_inv s1 (as @ bs)"
    using alloc_pages_run[OF assms(1) o(1)] s1 nz o(2) by auto
  obtain c where c: "(2::nat) ^ i = Suc c" by (metis Suc_pred zero_less_numeral zero_less_power)
  have d: "distinct (page_run p (2 ^ i) @ rest)" using assms(1) by (rule fl_inv_distinct)
  have "as = []"
  proof (rule ccontr)
    assume "as \<noteq> []"
    then obtain xs where "as = p # xs" using ab(1) by (cases as) (auto simp: c page_run_Suc)
    then show False using d \<open>p \<in> set (page_run p (2 ^ i))\<close> unfolding ab(1) by simp
  qed
  then have s1r: "fl_inv s1 rest" using ab by simp
  have "set (page_run p n) \<subseteq> set (page_run p (2 ^ i))" using assms(4) by (auto simp: page_run_def)
  then have new: "set (page_run p n) \<inter> set rest = {}" using d by auto
  have n: "0 < n" "n * 4096 \<le> 2 ^ i * 4096" using assms(4,5) by simp_all
  have "(2::nat) ^ i \<le> 2 ^ 50" using assms(3) by (intro power_increasing) simp_all
  then have n64: "n * 4096 < 2 ^ 64" using n(2) by simp
  have "unat p + 2 ^ (12 + i) \<le> 2 ^ 64" by (rule aligned_top) (use assms(2,3) in simp_all)
  then have fit: "unat p + n * 4096 \<le> 2 ^ 64" using n(2) by (simp add: power_add)
  have p12: "aligned 12 p" using assms(2) by (rule aligned_weaken) simp
  show ?thesis
    using free_pages_run[OF s1r p12 n(1) n64 fit nz new] page_memalign_order[OF assms(4,5,3), of ba s] s1
    by (auto simp: page_free_def)
qed

theorem page_free_loses_tail_witness:
  "\<exists>s1 s2. page_memalign 4096 (PAGE_SIZE * of_nat 3) (give 4 pa0) = Some (0x100000, s1) \<and>
    page_free 0x100000 (PAGE_SIZE * of_nat 3) s1 = Some s2 \<and> fl_inv s2 [0x100000, 0x101000, 0x102000]"
proof -
  have g: "fl_inv (give 4 pa0) (page_run 0x100000 (2 ^ 2) @ [])" using give_free(1)[of pa0 4] by (simp add: pa0_def)
  have al: "aligned (12 + 2) 0x100000" by (simp add: aligned_iff_mod)
  show ?thesis using page_free_loses_tail[OF g al, of 3 4096] by (simp add: page_run_def eval_nat_numeral)
qed

end
