(* ===== verification/Vmalloc.thy ===== *)
theory Vmalloc
  imports Malloc X86_Vm_Props Ept_Map
begin

text \<open>
  \<^verbatim>\<open>lib/vmalloc.c\<close>: virtual memory handed out downwards from \<^verbatim>\<open>vfree_top\<close>, mapped page by page; \<^verbatim>\<open>setup_vm\<close>, which
  turns paging on; \<^verbatim>\<open>ioremap\<close> of \<^verbatim>\<open>lib/x86/io.c\<close> and the choice of the operations behind \<^verbatim>\<open>malloc\<close>.
\<close>

datatype alloc_ops_ptr = EarlyOps | PageOps | VmallocOps

record vm_state = phys_state +
  vm_lock :: u32
  vfree_top :: u64
  page_root :: u64
  alloc_ops_var :: alloc_ops_ptr

definition alloc_vpages :: "u64 \<Rightarrow> 'a vm_state_scheme \<Rightarrow> (u64 \<times> 'a vm_state_scheme) option" where
  "alloc_vpages nr s = do {
     v \<leftarrow> spin_lock (vm_lock s);
     let s = s\<lparr>vm_lock := v\<rparr>;
     let s = s\<lparr>vfree_top := vfree_top s - PAGE_SIZE * nr\<rparr>;
     let s = s\<lparr>vm_lock := spin_unlock (vm_lock s)\<rparr>;
     Some (vfree_top s, s) }"

definition alloc_vpage :: "'a vm_state_scheme \<Rightarrow> (u64 \<times> 'a vm_state_scheme) option" where
  "alloc_vpage s = alloc_vpages 1 s"

definition init_alloc_vpage :: "u64 \<Rightarrow> 'a vm_state_scheme \<Rightarrow> 'a vm_state_scheme" where
  "init_alloc_vpage vtop s = s\<lparr>vfree_top := vtop\<rparr>"

text \<open>\<^verbatim>\<open>unsigned pages = size / PAGE_SIZE\<close> keeps 32 bits.\<close>

definition vm_pages :: "u64 \<Rightarrow> u32" where
  "vm_pages sz = (let sz = (sz + PAGE_SIZE - 1) AND NOT (PAGE_SIZE - 1) in ucast (sz div PAGE_SIZE))"

fun vmap_loop :: "nat \<Rightarrow> u64 \<Rightarrow> u64 \<Rightarrow> 'a vm_state_scheme \<Rightarrow> 'a vm_state_scheme option" where
  "vmap_loop 0 phys p s = Some s"
| "vmap_loop (Suc pages) phys p s = do {
     (r, s) \<leftarrow> install_page (page_root s) phys p s;
     vmap_loop pages (phys + PAGE_SIZE) (p + PAGE_SIZE) s }"

definition vmap :: "u64 \<Rightarrow> u64 \<Rightarrow> 'a vm_state_scheme \<Rightarrow> (u64 \<times> 'a vm_state_scheme) option" where
  "vmap phys sz s = do {
     let pages = vm_pages sz;
     (m, s) \<leftarrow> alloc_vpages (ucast pages) s;
     let phys = phys AND NOT (PAGE_SIZE - 1);
     s \<leftarrow> vmap_loop (unat pages) phys m s;
     Some (m, s) }"

fun vm_memalign_loop :: "nat \<Rightarrow> u64 \<Rightarrow> 'a vm_state_scheme \<Rightarrow> 'a vm_state_scheme option" where
  "vm_memalign_loop 0 p s = Some s"
| "vm_memalign_loop (Suc pages) p s = do {
     (pg, s) \<leftarrow> alloc_page s;
     let pa = virt_to_phys pg;
     (r, s) \<leftarrow> install_page (page_root s) pa p s;
     vm_memalign_loop pages (p + PAGE_SIZE) s }"

definition vm_memalign :: "u64 \<Rightarrow> u64 \<Rightarrow> 'a vm_state_scheme \<Rightarrow> (u64 \<times> 'a vm_state_scheme) option" where
  "vm_memalign alignment sz s = do {
     c_assert (alignment \<le> PAGE_SIZE);
     let pages = vm_pages sz;
     (m, s) \<leftarrow> alloc_vpages (ucast pages) s;
     s \<leftarrow> vm_memalign_loop (unat pages) m s;
     Some (m, s) }"

partial_function (option) vm_free :: "u64 \<Rightarrow> u64 \<Rightarrow> 'a vm_state_scheme \<Rightarrow> 'a vm_state_scheme option" where
  "vm_free p sz s =
     (if sz \<noteq> 0 then
        Option.bind (virt_to_pte_phys (mem s) (page_root s) p) (\<lambda>pa.
        Option.bind (free_page (phys_to_virt pa) s) (\<lambda>s.
        vm_free (p + PAGE_SIZE) (sz - PAGE_SIZE) s))
      else Some s)"

definition vmalloc_ops :: "'a vm_state_scheme alloc_ops" where
  "vmalloc_ops = \<lparr>ao_memalign = vm_memalign, ao_free = Some vm_free, ao_align_min = PAGE_SIZE\<rparr>"

definition page_alloc_ops_enable :: "'a vm_state_scheme \<Rightarrow> 'a vm_state_scheme" where
  "page_alloc_ops_enable s = s\<lparr>alloc_ops_var := PageOps\<rparr>"

text \<open>What \<^verbatim>\<open>malloc\<close> and its friends call: the operations \<^verbatim>\<open>alloc_ops\<close> points to.\<close>

definition current_ops :: "'a vm_state_scheme \<Rightarrow> 'a vm_state_scheme alloc_ops" where
  "current_ops s = (case alloc_ops_var s of
      EarlyOps \<Rightarrow> early_ops (early_align_min s) | PageOps \<Rightarrow> page_alloc_ops | VmallocOps \<Rightarrow> vmalloc_ops)"

definition setup_vm :: "'a vm_state_scheme \<Rightarrow> 'a vm_state_scheme option" where
  "setup_vm s =
     (if alloc_ops_var s = VmallocOps then Some s
      else do {
        (base, mtop, s) \<leftarrow> phys_alloc_get_unused s;
        c_assert (base \<noteq> mtop \<or> page_alloc_initialized s);
        (mtop, s) \<leftarrow> (if \<not> page_alloc_initialized s then do {
             let base = (base + PAGE_SIZE - 1) AND (- PAGE_SIZE);
             let mtop = mtop AND (- PAGE_SIZE);
             s \<leftarrow> free_pages (phys_to_virt base) (mtop - base) s;
             Some (mtop, s) }
           else Some (mtop, s));
        (root, s) \<leftarrow> setup_mmu mtop s;
        let s = s\<lparr>page_root := root\<rparr>;
        Some (s\<lparr>alloc_ops_var := VmallocOps\<rparr>) })"

definition ioremap :: "u64 \<Rightarrow> u64 \<Rightarrow> 'a vm_state_scheme \<Rightarrow> (u64 \<times> 'a vm_state_scheme) option" where
  "ioremap phys_addr sz s = do {
     let base = phys_addr AND PAGE_MASK;
     let offset = phys_addr - base;
     (m, s) \<leftarrow> vmap phys_addr sz s;
     Some (m + offset, s) }"

section \<open>Addresses above 48 bits\<close>

text \<open>Only bits 12 to 47 of an address choose table entries, so mapping at a high address is mapping at its
  48-bit part.\<close>

lemma pt_idx_low: "l \<le> 4 \<Longrightarrow> pt_idx l (take_bit 48 va) = pt_idx l va"
  by (rule bit_word_eqI) (auto simp: pt_idx_take_bit pt_shift_def bit_simps)

lemma radix_loop_low:
  "n \<le> 4 \<Longrightarrow> radix_loop step adr k n (take_bit 48 va) pt s = radix_loop step adr k n va pt s"
proof (induction n arbitrary: pt s)
  case (Suc n)
  have "pt_idx (Suc n) (take_bit 48 va) = pt_idx (Suc n) va" using Suc.prems by (intro pt_idx_low) simp
  then show ?case using Suc by simp
qed simp

lemma radix_install_low:
  "k \<le> 4 \<Longrightarrow> radix_install step adr k 4 (take_bit 48 va) pte pt s = radix_install step adr k 4 va pte pt s"
  by (simp add: radix_install_def radix_loop_low pt_idx_low)

lemma install_page_radix:
  "map_option snd (install_page root phys virt s) =
     radix_install x86_step (pf_addr x86_fmt) 1 4 (take_bit 48 virt) (x86_pte 1 phys) root s"
  unfolding install_page_is using install_pte_radix[of 1 root virt "x86_pte 1 phys" s]
  by (simp add: radix_install_low)

lemma install_page_more: "install_page root phys virt s = Some (r, s') \<Longrightarrow> pa_state.more s' = pa_state.more s"
  by (auto simp: install_page_def dest!: install_pte_more split: bind_splits)

lemma page_root_more: "pa_state.more s' = pa_state.more s \<Longrightarrow> page_root s' = page_root s"
  by (cases s; cases s') simp

section \<open>Mapping runs of pages\<close>

lemma vmap_loop_seq:
  "install_seq x86_step (pf_addr x86_fmt) 1 (page_root s) (\<lambda>v. x86_pte 1 (v + (phys - p))) n p s = Some s' \<Longrightarrow>
   vmap_loop n phys p s = Some s'"
proof (induction n arbitrary: s phys p)
  case (Suc n)
  obtain s1 where s1: "radix_install x86_step (pf_addr x86_fmt) 1 4 p (x86_pte 1 phys) (page_root s) s = Some s1"
      "install_seq x86_step (pf_addr x86_fmt) 1 (page_root s) (\<lambda>v. x86_pte 1 (v + (phys - p))) n (p + 2 ^ pt_shift 1) s1 = Some s'"
    using Suc.prems unfolding install_seq.simps bind_eq_Some_conv by auto
  obtain r where r: "install_page (page_root s) phys p s = Some (r, s1)"
    using install_page_radix[of "page_root s" phys p s] s1(1)
    by (auto simp: radix_install_low map_option_eq_Some)
  have "page_root s1 = page_root s" using install_page_more[OF r] by (rule page_root_more)
  moreover have "phys + PAGE_SIZE - (p + PAGE_SIZE) = phys - p" by simp
  moreover have "2 ^ pt_shift 1 = PAGE_SIZE" by (simp add: pt_shift_def)
  ultimately have "vmap_loop n (phys + PAGE_SIZE) (p + PAGE_SIZE) s1 = Some s'"
    using Suc.IH[of s1 "phys + PAGE_SIZE" "p + PAGE_SIZE"] s1(2) by (simp only:)
  then show ?case using r by simp
qed simp

lemma take_bit_page_step:
  fixes p :: u64
  assumes "unat (take_bit 48 p) + 4096 < 2 ^ 48"
  shows "take_bit 48 (p + PAGE_SIZE) = take_bit 48 p + PAGE_SIZE"
proof -
  have t: "unat (take_bit 48 x) = unat x mod 2 ^ 48" for x :: u64
    unfolding unsigned_take_bit_eq by (rule take_bit_eq_mod)
  have "unat (p + PAGE_SIZE) mod 2 ^ 48 = (unat p + 4096) mod 2 ^ 48"
    by (simp add: unat_word_ariths mod_mod_cancel)
  also have "\<dots> = (unat p mod 2 ^ 48 + 4096) mod 2 ^ 48" by (simp add: mod_simps)
  also have "\<dots> = unat p mod 2 ^ 48 + 4096" using assms by (simp add: t)
  finally have "unat (take_bit 48 (p + PAGE_SIZE)) = unat (take_bit 48 p) + 4096" by (simp only: t)
  moreover have "unat (take_bit 48 p + PAGE_SIZE) = unat (take_bit 48 p) + 4096"
    using assms by (simp add: unat_word_ariths)
  ultimately show ?thesis by (simp add: word_unat_eq_iff)
qed

lemma install_seq_low:
  "unat (take_bit 48 p) + n * 4096 \<le> 2 ^ 48 \<Longrightarrow>
   install_seq st ad 1 root (\<lambda>v. f (v + (d - p))) n p s =
   install_seq st ad 1 root (\<lambda>v. f (v + (d - take_bit 48 p))) n (take_bit 48 p) s"
proof (induction n arbitrary: p d s)
  case (Suc n)
  let ?q = "p + PAGE_SIZE" and ?l = "take_bit 48 p"
  show ?case
  proof (cases n)
    case 0
    then show ?thesis
      by (cases "radix_install st ad 1 4 p (f d) root s") (simp_all add: radix_install_low)
  next
    case (Suc m)
    then have u: "unat ?l + 4096 < 2 ^ 48" using Suc.prems by simp
    have q: "take_bit 48 ?q = ?l + PAGE_SIZE" using u by (rule take_bit_page_step)
    have "unat (take_bit 48 ?q) + n * 4096 \<le> 2 ^ 48" using Suc.prems u by (simp add: q unat_word_ariths)
    note ih = Suc.IH[OF this, of "d + PAGE_SIZE"]
    have "d + PAGE_SIZE - ?q = d - p" "d + PAGE_SIZE - take_bit 48 ?q = d - ?l" by (simp_all add: q)
    then show ?thesis using ih
      by (cases "radix_install st ad 1 4 p (f d) root s") (simp_all add: radix_install_low pt_shift_def q)
  qed
qed simp

text \<open>The number of pages of a request, and how the code computes it.\<close>

definition vpages :: "u64 \<Rightarrow> nat" where
  "vpages sz = (unat sz + 4095) div 4096"

lemma vm_pages_unat:
  assumes "unat sz < 2 ^ 43"
  shows "unat (vm_pages sz) = vpages sz" "unat (ucast (vm_pages sz) :: u64) = vpages sz" "vpages sz \<le> 2 ^ 31"
proof -
  have m: "PAGE_SIZE - 1 = mask 12" by (simp add: mask_eq_exp_minus_1)
  have u: "unat (sz + PAGE_SIZE - 1) = unat sz + 4095" using assms by (simp add: unat_word_ariths unat_sub_if_size word_size)
  have a: "unat (((sz + PAGE_SIZE - 1) AND NOT (mask 12)) div PAGE_SIZE) = vpages sz"
    unfolding unat_div unat_and_not_mask u by (simp add: vpages_def)
  show le: "vpages sz \<le> 2 ^ 31" using assms by (simp add: vpages_def)
  then show v: "unat (vm_pages sz) = vpages sz"
    unfolding vm_pages_def Let_def m unsigned_ucast_eq a by (simp add: take_bit_nat_eq_self)
  show "unat (ucast (vm_pages sz) :: u64) = vpages sz"
    using v le by (simp add: unsigned_ucast_eq take_bit_nat_eq_self)
qed

lemma vmap_loop_more: "vmap_loop n phys p s = Some s' \<Longrightarrow> pa_state.more s' = pa_state.more s"
  by (induction n arbitrary: phys p s) (fastforce dest: install_page_more split: bind_splits)+

lemma vm_more_fields:
  "pa_state.more s' = pa_state.more s \<Longrightarrow>
    page_root s' = page_root s \<and> vfree_top s' = vfree_top s \<and> vm_lock s' = vm_lock s"
  by (cases s; cases s') simp

text \<open>Room for a request: the window below \<^verbatim>\<open>vfree_top\<close> is page aligned, inside the 48 bits the tables translate, not
  mapped yet, and there are enough pages for the tables it may need.\<close>

definition vwindow :: "u64 \<Rightarrow> 'a vm_state_scheme \<Rightarrow> u64" where
  "vwindow sz s = take_bit 48 (vfree_top s - PAGE_SIZE * of_nat (vpages sz))"

definition vroom :: "u64 \<Rightarrow> u64 list \<Rightarrow> 'a vm_state_scheme \<Rightarrow> bool" where
  "vroom sz fl s \<longleftrightarrow> unat sz < 2 ^ 43 \<and> vm_lock s = 0 \<and> aligned 12 (vfree_top s) \<and>
     tinv x86_fmt s fl 4 (page_root s) \<and> unat (vwindow sz s) + vpages sz * 4096 \<le> 2 ^ 48 \<and>
     (\<forall>v. vwindow sz s \<le> v \<longrightarrow> unat v < unat (vwindow sz s) + vpages sz * 4096 \<longrightarrow>
        xlate x86_fmt (mem s) 4 (page_root s) v = None) \<and>
     run_pages 1 (unat (vwindow sz s)) (vpages sz) \<le> length fl"

lemma aligned_take_bit: "aligned 12 (a :: u64) \<Longrightarrow> aligned 12 (take_bit 48 a)"
  by (simp add: aligned_def)

lemma alloc_vpages_ok:
  "vm_lock s = 0 \<Longrightarrow> alloc_vpages nr s = Some (vfree_top s - PAGE_SIZE * nr, s\<lparr>vfree_top := vfree_top s - PAGE_SIZE * nr\<rparr>)"
  by (cases s) (simp add: alloc_vpages_def)

lemma vmap_ok:
  assumes room: "vroom sz fl s" and phys: "unat (phys AND NOT (mask 12)) + vpages sz * 4096 \<le> 2 ^ 48"
  shows "\<exists>s' c. vmap phys sz s = Some (vfree_top s - PAGE_SIZE * of_nat (vpages sz), s') \<and>
    vfree_top s' = vfree_top s - PAGE_SIZE * of_nat (vpages sz) \<and> page_root s' = page_root s \<and> vm_lock s' = 0 \<and>
    tinv x86_fmt s' (drop c fl) 4 (page_root s) \<and>
    (\<forall>va. va < 2 ^ 48 \<longrightarrow> xlate x86_fmt (mem s') 4 (page_root s) va =
      (if vwindow sz s \<le> va \<and> unat va < unat (vwindow sz s) + vpages sz * 4096
       then Some (va - vwindow sz s + (phys AND NOT (mask 12)), x86_rwx)
       else xlate x86_fmt (mem s) 4 (page_root s) va))"
proof -
  let ?n = "vpages sz" and ?ph = "phys AND NOT (mask 12)"
  let ?m = "vfree_top s - PAGE_SIZE * of_nat ?n" and ?w = "vwindow sz s"
  let ?s = "s\<lparr>vfree_top := ?m\<rparr>"
  note r = room[unfolded vroom_def]
  have n: "unat (vm_pages sz) = ?n" "unat (ucast (vm_pages sz) :: u64) = ?n" using r vm_pages_unat[of sz] by simp_all
  have nr: "ucast (vm_pages sz) = (of_nat ?n :: u64)" using n(2) by (metis of_nat_unat ucast_id)
  have msk: "NOT (PAGE_SIZE - 1) = NOT (mask 12)" by (simp add: mask_eq_exp_minus_1)
  have alm: "aligned 12 ?m"
    using aligned_page_step[of "vfree_top s" "- of_nat ?n"] r by simp
  have alw: "aligned 12 ?w" unfolding vwindow_def by (rule aligned_take_bit[OF alm])
  have alp: "aligned 12 ?ph" by (simp add: aligned_iff_mod unat_and_not_mask)
  have sh: "pt_shift 1 = 12" by (simp add: pt_shift_def)
  have inv: "tinv x86_fmt ?s fl 4 (page_root s)" using r by (simp add: tinv_def fl_inv_def)
  obtain s' c where s': "install_seq x86_step (pf_addr x86_fmt) 1 (page_root s) (\<lambda>v. x86_pte 1 (v + (?ph - ?w))) ?n ?w ?s = Some s'"
      "grown x86_fmt ?s fl s' c 4 (page_root s)"
      "\<forall>va. va < 2 ^ 48 \<longrightarrow> xlate x86_fmt (mem s') 4 (page_root s) va =
        (if ?w \<le> va \<and> unat va < unat ?w + ?n * 4096 then Some (va - ?w + ?ph, x86_rwx)
         else xlate x86_fmt (mem s) 4 (page_root s) va)"
    using x86_run[OF le_refl _ inv, of ?w ?ph ?n] alw alp r phys sh by auto
  have "install_seq x86_step (pf_addr x86_fmt) 1 (page_root ?s) (\<lambda>v. x86_pte 1 (v + (?ph - ?m))) ?n ?m ?s = Some s'"
  proof -
    have "unat (take_bit 48 ?m) + ?n * 4096 \<le> 2 ^ 48" using r by (simp only: vwindow_def)
    note low = install_seq_low[OF this, of x86_step "pf_addr x86_fmt" "page_root s" "x86_pte 1" ?ph ?s]
    have "page_root ?s = page_root s" by simp
    then show ?thesis using low s'(1) by (simp only: vwindow_def)
  qed
  then have l: "vmap_loop ?n ?ph ?m ?s = Some s'" by (rule vmap_loop_seq)
  have "vmap phys sz s = Some (?m, s')"
    using l r unfolding vmap_def Let_def msk n(1) nr by (simp add: alloc_vpages_ok)
  moreover have "vfree_top s' = ?m" "page_root s' = page_root s" "vm_lock s' = 0"
    using vm_more_fields[OF vmap_loop_more[OF l]] r by simp_all
  moreover have "tinv x86_fmt s' (drop c fl) 4 (page_root s)" by (rule grown_tinv[OF inv s'(2)])
  ultimately show ?thesis using s'(3) by blast
qed

section \<open>Properties\<close>

text \<open>C30: \<^verbatim>\<open>vmap\<close> of a physical range: with room below \<^verbatim>\<open>vfree_top\<close> and pages for the tables it returns the start of
  a fresh window of as many pages as the size needs; exactly that window (in the 48 bits the processor
  translates) is mapped, page by page, to the physical pages from the one of the address on; everything
  else is translated as before, and the next window ends where this one begins.\<close>

theorem vmap_maps:
  assumes "vroom sz fl s" "unat (phys AND NOT (mask 12)) + vpages sz * 4096 \<le> 2 ^ 48"
  shows "\<exists>s' c. vmap phys sz s = Some (vfree_top s - PAGE_SIZE * of_nat (vpages sz), s') \<and>
    vfree_top s' = vfree_top s - PAGE_SIZE * of_nat (vpages sz) \<and> page_root s' = page_root s \<and> vm_lock s' = 0 \<and>
    tinv x86_fmt s' (drop c fl) 4 (page_root s) \<and>
    (\<forall>va. va < 2 ^ 48 \<longrightarrow> xlate x86_fmt (mem s') 4 (page_root s) va =
      (if vwindow sz s \<le> va \<and> unat va < unat (vwindow sz s) + vpages sz * 4096
       then Some (va - vwindow sz s + (phys AND NOT (mask 12)), x86_rwx)
       else xlate x86_fmt (mem s) 4 (page_root s) va))"
  using assms by (rule vmap_ok)

text \<open>A machine with an empty root table at \<^verbatim>\<open>0x1000\<close>, three free pages and virtual memory down from \<open>vt\<close>.\<close>

definition vm_machine :: "pa_state \<Rightarrow> u64 \<Rightarrow> u64 \<Rightarrow> u64 \<Rightarrow> vm_state" where
  "vm_machine a vt b t = phys_state.extend
     ((phys_machine b t)\<lparr>mem := mem a, freelist := freelist a, pa_lock := pa_lock a\<rparr>)
     \<lparr>vm_lock = 0, vfree_top = vt, page_root = 0x1000, alloc_ops_var = EarlyOps\<rparr>"

lemma vm_machine_fields [simp]:
  "vfree_top (vm_machine a vt b t) = vt" "page_root (vm_machine a vt b t) = 0x1000" "vm_lock (vm_machine a vt b t) = 0"
  "alloc_ops_var (vm_machine a vt b t) = EarlyOps" "mem (vm_machine a vt b t) = mem a"
  "freelist (vm_machine a vt b t) = freelist a" "pa_lock (vm_machine a vt b t) = pa_lock a"
  "phys_base (vm_machine a vt b t) = b" "phys_top (vm_machine a vt b t) = t" "phys_lock (vm_machine a vt b t) = 0"
  "nr_regions (vm_machine a vt b t) = 0"
  "regions (vm_machine a vt b t) = replicate 256 \<lparr>region_base = 0, region_size = 0\<rparr>"
  by (simp_all add: vm_machine_def phys_state.extend_def phys_machine_def vmx_state.extend_def)

lemma vm_machine_room:
  assumes "sz = 0x1000" "aligned 12 vt" "take_bit 48 (vt - 0x1000) = w" "unat w + 4096 \<le> 2 ^ 48"
  shows "vroom sz (page_run 0x100000 3) (vm_machine (give 3 pa0) vt 0 0)"
    "vwindow sz (vm_machine (give 3 pa0) vt 0 0) = w" "vpages sz = 1"
proof -
  have np: "\<not> pf_present x86_fmt 0" by simp
  note f = fresh_root_machine[OF np]
  show v: "vpages sz = 1" by (simp add: assms(1) vpages_def)
  show win: "vwindow sz (vm_machine (give 3 pa0) vt 0 0) = w" using assms(3) by (simp add: vwindow_def v)
  have "run_pages 1 (unat w) 1 \<le> 3" by (simp add: run_pages_def new_tables_def)
  then show "vroom sz (page_run 0x100000 3) (vm_machine (give 3 pa0) vt 0 0)"
    unfolding vroom_def win v using f assms by (simp add: tinv_def fl_inv_def)
qed

theorem vmap_maps_witness:
  "\<exists>s'. vmap 0xfee00010 0x1000 (vm_machine (give 3 pa0) 0 0 0) = Some (0xfffffffffffff000, s') \<and>
    xlate x86_fmt (mem s') 4 0x1000 0xfffffffff010 = Some (0xfee00010, x86_rwx)"
proof -
  have al: "aligned 12 (0 :: u64)" by simp
  note r = vm_machine_room[OF refl al, of "0xfffffffff000", simplified]
  have m: "(0xfee00010 :: u64) AND NOT (mask 12) = 0xfee00000" by (simp add: mask_eq_exp_minus_1)
  show ?thesis using vmap_maps[OF r(1), of "0xfee00010"] r(2,3) m by auto
qed

text \<open>\<^verbatim>\<open>ioremap\<close> counts pages from the size alone: when the range starts inside a page and its end runs into one page
  more than its size fills, the last byte asked for is not mapped.\<close>

theorem ioremap_misses_tail:
  assumes "vroom sz fl s" "unat (phys AND NOT (mask 12)) + vpages sz * 4096 \<le> 2 ^ 48"
    "unat (vwindow sz s) + vpages sz * 4096 + 4096 \<le> 2 ^ 48" "vpages sz * 4096 < unat (phys AND mask 12) + unat sz"
    "lastb = vwindow sz s + (phys AND mask 12) + sz - 1"
  shows "\<exists>s'. ioremap phys sz s = Some (vfree_top s - PAGE_SIZE * of_nat (vpages sz) + (phys AND mask 12), s') \<and>
    xlate x86_fmt (mem s') 4 (page_root s) lastb = xlate x86_fmt (mem s) 4 (page_root s) lastb"
proof -
  obtain s' where s': "vmap phys sz s = Some (vfree_top s - PAGE_SIZE * of_nat (vpages sz), s')"
    "\<forall>va. va < 2 ^ 48 \<longrightarrow> xlate x86_fmt (mem s') 4 (page_root s) va =
      (if vwindow sz s \<le> va \<and> unat va < unat (vwindow sz s) + vpages sz * 4096
       then Some (va - vwindow sz s + (phys AND NOT (mask 12)), x86_rwx)
       else xlate x86_fmt (mem s) 4 (page_root s) va)"
    using vmap_ok[OF assms(1,2)] by blast
  have dis: "(phys AND PAGE_MASK) + (phys AND mask 12) = phys"
  proof -
    have "(phys AND NOT (mask 12)) + (phys AND mask 12) = (phys AND NOT (mask 12)) OR (phys AND mask 12)"
      by (rule disjunctive_add) (simp add: bit_simps)
    also have "\<dots> = phys" by (rule bit_word_eqI) (auto simp: bit_simps)
    finally show ?thesis by (simp add: PAGE_MASK_def mask_eq_exp_minus_1)
  qed
  then have off: "phys - (phys AND PAGE_MASK) = phys AND mask 12" by (metis add_diff_cancel_left')
  have o: "unat (phys AND mask 12) < 4096" 
    unfolding take_bit_eq_mask[symmetric] take_bit_eq_mod by (simp add: unat_mod)
  have sz: "unat sz \<le> vpages sz * 4096" by (simp add: vpages_def)
  have "unat (vwindow sz s) + unat (phys AND mask 12) + unat sz < 2 ^ 48" using o sz assms(3) by linarith
  then have u: "unat (vwindow sz s + (phys AND mask 12) + sz) = unat (vwindow sz s) + unat (phys AND mask 12) + unat sz"
    by (simp add: unat_word_ariths)
  have pos: "0 < unat (vwindow sz s + (phys AND mask 12) + sz)" using u assms(4) by linarith
  have l: "unat lastb = unat (vwindow sz s) + unat (phys AND mask 12) + unat sz - 1"
    unfolding assms(5) using u pos by (simp add: unat_minus_one unat_eq_0[symmetric])
  have "lastb < 2 ^ 48" using l \<open>_ < 2 ^ 48\<close> by (simp add: word_less_nat_alt)
  moreover have "\<not> unat lastb < unat (vwindow sz s) + vpages sz * 4096" using l assms(4) by linarith
  ultimately have "xlate x86_fmt (mem s') 4 (page_root s) lastb = xlate x86_fmt (mem s) 4 (page_root s) lastb"
    using s'(2) by auto
  moreover have "ioremap phys sz s = Some (vfree_top s - PAGE_SIZE * of_nat (vpages sz) + (phys AND mask 12), s')"
    using s'(1) unfolding ioremap_def Let_def off by simp
  ultimately show ?thesis by blast
qed

theorem ioremap_misses_tail_witness:
  "\<exists>s'. ioremap 0xfee00ff0 0x1000 (vm_machine (give 3 pa0) 0xfffffffffffff000 0 0) = Some (0xffffffffffffeff0, s') \<and>
    xlate x86_fmt (mem s') 4 0x1000 0xffffffffffef = None"
proof -
  have np: "\<not> pf_present x86_fmt 0" by simp
  have al: "aligned 12 (0xfffffffffffff000 :: u64)" by (simp add: aligned_iff_mod)
  have w: "take_bit 48 (0xfffffffffffff000 - 0x1000 :: u64) = 0xffffffffe000" by simp
  note r = vm_machine_room[OF refl al w, simplified]
  have m: "(0xfee00ff0 :: u64) AND NOT (mask 12) = 0xfee00000" "(0xfee00ff0 :: u64) AND mask 12 = 0xff0"
    by (simp_all add: mask_eq_exp_minus_1)
  show ?thesis
    using ioremap_misses_tail[OF r(1), of "0xfee00ff0" "0xffffffffffef"] r(2,3) m fresh_root_machine(2)[OF np]
    by auto
qed

lemma setup_vm_bounds:
  fixes b t :: u64 and lo hi n :: nat
  assumes "b < t" "lo = round_up 12 (unat b)" "hi = unat t div 4096 * 4096" "lo < hi" "0 < lo" "hi \<le> 2 ^ 48"
    "n = (hi - lo) div 4096"
  defines "l \<equiv> (b + PAGE_SIZE - 1) AND (- PAGE_SIZE)" and "h \<equiv> t AND (- PAGE_SIZE)"
  shows "l = of_nat lo" "unat h = hi" "aligned 12 l" "h - l = PAGE_SIZE * of_nat n" "aligned 12 h"
    "0 < n" "n * 4096 < 2 ^ 64" "unat l + n * 4096 \<le> 2 ^ 64" "l \<noteq> 0" "\<forall>q \<in> set (page_run l n). drop_bit 52 q = 0"
proof -
  have m: "- PAGE_SIZE = NOT (mask 12)" by (simp add: mask_eq_exp_minus_1)
  have "unat b \<le> lo" using assms(2) round_up_ge by simp
  then have "unat b + 4095 < 2 ^ 64" using assms(4,6) by simp
  then have ub: "unat (b + PAGE_SIZE - 1) = unat b + 4095" by (simp add: unat_word_ariths unat_sub_if_size word_size)
  have ul: "unat l = lo" unfolding l_def m unat_and_not_mask ub assms(2) round_up_def by simp
  show uh: "unat h = hi" unfolding h_def m unat_and_not_mask assms(3) by simp
  show "l = of_nat lo" using ul by (metis of_nat_unat ucast_id)
  have dl: "4096 dvd lo" using round_up_dvd[of 12 "unat b"] assms(2) by simp
  have dh: "4096 dvd hi" using assms(3) by simp
  show "aligned 12 l" "aligned 12 h" using ul uh dl dh by (simp_all add: aligned_iff_mod mod_eq_0_iff_dvd)
  have nn: "n * 4096 = hi - lo" using dl dh assms(7) by (simp add: dvd_diff_nat)
  then show n0: "0 < n" and n64: "n * 4096 < 2 ^ 64" using assms(4,6) by (cases n; simp)+
  show "unat l + n * 4096 \<le> 2 ^ 64" using nn ul assms(4,6) by simp
  show "l \<noteq> 0" using ul assms(5) by auto
  have "unat (h - l) = hi - lo" using uh ul assms(4) by (simp add: unat_sub word_le_nat_alt)
  moreover have "unat (PAGE_SIZE * of_nat n :: u64) = n * 4096" using n64 by (simp add: unat_word_ariths unat_of_nat)
  ultimately show "h - l = PAGE_SIZE * of_nat n" using nn by (simp add: word_unat_eq_iff)
  show "\<forall>q \<in> set (page_run l n). drop_bit 52 q = 0"
  proof
    fix q assume "q \<in> set (page_run l n)"
    then obtain i where i: "i < n" "q = l + PAGE_SIZE * of_nat i" by (auto simp: page_run_def)
    then have "i * 4096 < hi - lo" using nn by simp
    then have "lo + i * 4096 < 2 ^ 48" using assms(4,6) by simp
    then have "unat q < 2 ^ 48" using i ul by (simp add: unat_word_ariths unat_of_nat mult.commute)
    then show "drop_bit 52 q = 0" by (simp add: drop_bit_zero_iff word_less_nat_alt)
  qed
qed

lemma run_fields_more:
  fixes s s' :: "'a vmx_state_scheme"
  shows "cpu_state.more s' = cpu_state.more s \<Longrightarrow> fw_lock s' = fw_lock s \<Longrightarrow>
    run_fields s' = run_fields s \<and> vmcs_field s' = vmcs_field s"
  by (cases s; cases s') (simp add: run_fields_def)

lemma setup_vm_full:
  assumes "alloc_ops_var s \<noteq> VmallocOps" "freelist s = 0" "pa_lock s = 0" "phys_lock s = 0"
    "nr_regions s < length (regions s)" "phys_base s = b" "phys_top s = t" "b < t"
    "lo = round_up 12 (unat b)" "hi = unat t div 4096 * 4096" "lo < hi" "0 < lo" "hi \<le> 2 ^ 48"
    "n = (hi - lo) div 4096" "mtop = max hi (2 ^ 32)" "mmu_pages mtop < n"
  shows "\<exists>s' c. setup_vm s = Some s' \<and> alloc_ops_var s' = VmallocOps \<and> page_root s' = of_nat lo \<and> cr3 s' = of_nat lo \<and>
    cr0 s' = X86_CR0_PG OR X86_CR0_PE OR X86_CR0_WP \<and> cr4 s' = cr4 s \<and> run_fields s' = run_fields s \<and> vmcs_field s' = vmcs_field s \<and>
    vm_state.more s' = vm_state.more s \<and>
    c \<le> mmu_pages mtop \<and> tinv x86_fmt s' (drop (Suc c) (page_run (of_nat lo) n)) 4 (of_nat lo) \<and>
    (\<forall>va. va < 2 ^ 48 \<longrightarrow> xlate x86_fmt (mem s') 4 (page_root s') va =
      (if unat va < mtop then Some (va, x86_rwx) else None))"
proof -
  let ?lo = "(b + PAGE_SIZE - 1) AND (- PAGE_SIZE)" and ?hi = "t AND (- PAGE_SIZE)"
  note sz = setup_vm_bounds[OF assms(8-14)]
  obtain s1 where s1: "phys_alloc_get_unused s = Some (b, t, s1)" "fl_inv s1 []" "mem s1 = mem s"
      "freelist s1 = 0" "alloc_ops_var s1 = alloc_ops_var s" "cr4 s1 = cr4 s" "run_fields s1 = run_fields s \<and> vmcs_field s1 = vmcs_field s"
      "vm_state.more s1 = vm_state.more s"
  proof -
    have "phys_base s \<noteq> phys_top s" using assms(6-8) by auto
    then have "\<exists>s1. phys_alloc_get_unused s = Some (b, t, s1) \<and> fl_inv s1 [] \<and> mem s1 = mem s \<and> freelist s1 = 0 \<and>
        alloc_ops_var s1 = alloc_ops_var s \<and> cr4 s1 = cr4 s \<and>
        (run_fields s1 = run_fields s \<and> vmcs_field s1 = vmcs_field s) \<and> vm_state.more s1 = vm_state.more s"
      using assms(2-7) by (simp add: phys_alloc_get_unused_def phys_spin_lock_def phys_spin_unlock_def log_region_def
          Let_def fl_inv_def run_fields_def)
    then show ?thesis using that by blast
  qed
  obtain s2 where s2: "free_pages ?lo (?hi - ?lo) s1 = Some s2" "fl_inv s2 (page_run ?lo n)"
    using free_pages_run[OF s1(2) sz(3,6,7,8,9)] sz(4) by auto
  have f2: "pa_state.more s2 = pa_state.more s1" by (rule free_pages_more[OF s2(1)])
  have run: "page_run ?lo n = ?lo # page_run (?lo + PAGE_SIZE) (n - 1)"
    using sz(6) page_run_Suc[of ?lo "n - 1"] by simp
  have fl: "fl_inv s2 (?lo # page_run (?lo + PAGE_SIZE) (n - 1))" using s2(2) unfolding run .
  have p52: "\<forall>q \<in> set (page_run (?lo + PAGE_SIZE) (n - 1)). drop_bit 52 q = 0"
    using sz(10) unfolding run by simp
  obtain s3 c where s3: "setup_mmu ?hi s2 = Some (?lo, s3)" "cr3 s3 = ?lo" "cr0 s3 = X86_CR0_PG OR X86_CR0_PE OR X86_CR0_WP"
      "c \<le> mmu_pages mtop" "tinv x86_fmt s3 (drop c (page_run (?lo + PAGE_SIZE) (n - 1))) 4 ?lo"
      "\<forall>va. va < 2 ^ 48 \<longrightarrow> xlate x86_fmt (mem s3) 4 ?lo va = (if unat va < mtop then Some (va, x86_rwx) else None)"
  proof -
    have mt: "mtop = max (unat ?hi) (2 ^ 32)" "mtop \<le> 2 ^ 48" using assms(13,15) sz(2) by simp_all
    have pg: "mmu_pages mtop \<le> length (page_run (?lo + PAGE_SIZE) (n - 1))" using assms(16) by simp
    show ?thesis using that setup_mmu_identity_map[OF fl p52 sz(5) mt pg] by blast
  qed
  note k3 = setup_mmu_keeps[OF s3(1)]
  have c2: "cr4 s2 = cr4 s1" "cpu_state.more s2 = cpu_state.more s1" "fw_lock s2 = fw_lock s1"
    using f2 by (cases s1; cases s2; simp)+
  have "cr4 s3 = cr4 s" "run_fields s3 = run_fields s" "vmcs_field s3 = vmcs_field s"
    using k3 c2 run_fields_more[of s3 s1] s1(6,7) by simp_all
  moreover have "vm_state.more s3 = vm_state.more s"
  proof -
    have "cpu_state.more s3 = cpu_state.more s1" using k3 c2 by simp
    then have "vm_state.more s3 = vm_state.more s1" by (cases s1; cases s3; simp)
    then show ?thesis using s1(8) by simp
  qed
  moreover have "setup_vm s = Some (s3\<lparr>page_root := ?lo, alloc_ops_var := VmallocOps\<rparr>)"
    using assms(1) s1 s2(1) s3(1) assms(8) by (simp add: setup_vm_def page_alloc_initialized_def Let_def)
  moreover have "drop (Suc c) (page_run ?lo n) = drop c (page_run (?lo + PAGE_SIZE) (n - 1))"
    unfolding run by simp
  ultimately show ?thesis using s3 sz(1)
    by (intro exI[of _ "s3\<lparr>page_root := ?lo, alloc_ops_var := VmallocOps\<rparr>"] exI[of _ c])
      (simp add: run_fields_def tinv_def fl_inv_def)
qed



end
