(* ===== verification/Pci.thy ===== *)
theory Pci
  imports Phys_Alloc
begin

text \<open>
  \<^verbatim>\<open>lib/pci.c\<close> and \<^verbatim>\<open>lib/x86/asm/pci.h\<close>: PCI configuration space through the ports 0xCF8 and 0xCFC, scanning
  bus 0, base address registers, capabilities and message-signalled interrupts. A device structure the
  code changes through a pointer is passed in and returned. An index outside \<^verbatim>\<open>resource\<close> gives \<open>None\<close>.
\<close>

section \<open>Configuration space access\<close>

type_synonym pcidevaddr_t = u16

definition PCIDEVADDR_INVALID :: pcidevaddr_t where [c_defs]: "PCIDEVADDR_INVALID = 0xffff"
definition PCI_BAR_NUM :: int where [c_defs]: "PCI_BAR_NUM = 6"
definition PCI_DEVFN_MAX :: nat where [c_defs]: "PCI_DEVFN_MAX = 256"

definition PCI_VENDOR_ID :: u8 where [c_defs]: "PCI_VENDOR_ID = 0x00"
definition PCI_DEVICE_ID :: u8 where [c_defs]: "PCI_DEVICE_ID = 0x02"
definition PCI_COMMAND :: u8 where [c_defs]: "PCI_COMMAND = 0x04"
definition PCI_COMMAND_MASTER :: u16 where [c_defs]: "PCI_COMMAND_MASTER = 0x4"
definition PCI_CLASS_PROG :: u8 where [c_defs]: "PCI_CLASS_PROG = 0x09"
definition PCI_CLASS_DEVICE :: u8 where [c_defs]: "PCI_CLASS_DEVICE = 0x0a"
definition PCI_HEADER_TYPE :: u8 where [c_defs]: "PCI_HEADER_TYPE = 0x0e"
definition PCI_HEADER_TYPE_NORMAL :: u8 where [c_defs]: "PCI_HEADER_TYPE_NORMAL = 0"
definition PCI_HEADER_TYPE_MASK :: u8 where [c_defs]: "PCI_HEADER_TYPE_MASK = 0x7f"
definition PCI_BASE_ADDRESS_0 :: int where [c_defs]: "PCI_BASE_ADDRESS_0 = 0x10"
definition PCI_BASE_ADDRESS_SPACE_IO :: u32 where [c_defs]: "PCI_BASE_ADDRESS_SPACE_IO = 0x01"
definition PCI_BASE_ADDRESS_MEM_TYPE_MASK :: u32 where [c_defs]: "PCI_BASE_ADDRESS_MEM_TYPE_MASK = 0x06"
definition PCI_BASE_ADDRESS_MEM_TYPE_32 :: u32 where [c_defs]: "PCI_BASE_ADDRESS_MEM_TYPE_32 = 0x00"
definition PCI_BASE_ADDRESS_MEM_TYPE_1M :: u32 where [c_defs]: "PCI_BASE_ADDRESS_MEM_TYPE_1M = 0x02"
definition PCI_BASE_ADDRESS_MEM_TYPE_64 :: u32 where [c_defs]: "PCI_BASE_ADDRESS_MEM_TYPE_64 = 0x04"
definition PCI_BASE_ADDRESS_MEM_PREFETCH :: u32 where [c_defs]: "PCI_BASE_ADDRESS_MEM_PREFETCH = 0x08"
definition PCI_BASE_ADDRESS_MEM_MASK :: u64 where [c_defs]: "PCI_BASE_ADDRESS_MEM_MASK = NOT 0x0f"
definition PCI_BASE_ADDRESS_IO_MASK :: u64 where [c_defs]: "PCI_BASE_ADDRESS_IO_MASK = NOT 0x03"
definition PCI_CAPABILITY_LIST :: u8 where [c_defs]: "PCI_CAPABILITY_LIST = 0x34"
definition PCI_INTERRUPT_LINE :: u8 where [c_defs]: "PCI_INTERRUPT_LINE = 0x3c"
definition PCI_CAP_ID_MSI :: u8 where [c_defs]: "PCI_CAP_ID_MSI = 0x05"
definition PCI_CAP_ID_EA :: u8 where [c_defs]: "PCI_CAP_ID_EA = 0x14"
definition PCI_CAP_ID_MAX :: u8 where [c_defs]: "PCI_CAP_ID_MAX = PCI_CAP_ID_EA"
definition PCI_MSI_FLAGS :: u16 where [c_defs]: "PCI_MSI_FLAGS = 2"
definition PCI_MSI_FLAGS_ENABLE :: u16 where [c_defs]: "PCI_MSI_FLAGS_ENABLE = 0x0001"
definition PCI_MSI_FLAGS_64BIT :: u16 where [c_defs]: "PCI_MSI_FLAGS_64BIT = 0x0080"
definition PCI_MSI_ADDRESS_LO :: u16 where [c_defs]: "PCI_MSI_ADDRESS_LO = 4"
definition PCI_MSI_ADDRESS_HI :: u16 where [c_defs]: "PCI_MSI_ADDRESS_HI = 8"
definition PCI_MSI_DATA_32 :: u16 where [c_defs]: "PCI_MSI_DATA_32 = 8"
definition PCI_MSI_DATA_64 :: u16 where [c_defs]: "PCI_MSI_DATA_64 = 12"

record pci_dev =
  bdf :: u16
  msi_offset :: u16
  resource :: "u64 list"

definition PCI_CONF1_ADDRESS :: "pcidevaddr_t \<Rightarrow> u8 \<Rightarrow> u32" where
  "PCI_CONF1_ADDRESS dev reg = push_bit 31 1 OR push_bit 8 (ucast dev) OR ucast reg"

definition pci_config_readb :: "hw \<Rightarrow> pcidevaddr_t \<Rightarrow> u8 \<Rightarrow> 'a cpu_state_scheme \<Rightarrow> u8 \<times> 'a cpu_state_scheme" where
  "pci_config_readb hw dev reg s = inb hw 0xCFC (outl (PCI_CONF1_ADDRESS dev reg) 0xCF8 s)"

definition pci_config_readw :: "hw \<Rightarrow> pcidevaddr_t \<Rightarrow> u8 \<Rightarrow> 'a cpu_state_scheme \<Rightarrow> u16 \<times> 'a cpu_state_scheme" where
  "pci_config_readw hw dev reg s = inw hw 0xCFC (outl (PCI_CONF1_ADDRESS dev reg) 0xCF8 s)"

definition pci_config_readl :: "hw \<Rightarrow> pcidevaddr_t \<Rightarrow> u8 \<Rightarrow> 'a cpu_state_scheme \<Rightarrow> u32 \<times> 'a cpu_state_scheme" where
  "pci_config_readl hw dev reg s = inl hw 0xCFC (outl (PCI_CONF1_ADDRESS dev reg) 0xCF8 s)"

definition pci_config_writeb :: "pcidevaddr_t \<Rightarrow> u8 \<Rightarrow> u8 \<Rightarrow> 'a cpu_state_scheme \<Rightarrow> 'a cpu_state_scheme" where
  "pci_config_writeb dev reg val s = outb val 0xCFC (outl (PCI_CONF1_ADDRESS dev reg) 0xCF8 s)"

definition pci_config_writew :: "pcidevaddr_t \<Rightarrow> u8 \<Rightarrow> u16 \<Rightarrow> 'a cpu_state_scheme \<Rightarrow> 'a cpu_state_scheme" where
  "pci_config_writew dev reg val s = outw val 0xCFC (outl (PCI_CONF1_ADDRESS dev reg) 0xCF8 s)"

definition pci_config_writel :: "pcidevaddr_t \<Rightarrow> u8 \<Rightarrow> u32 \<Rightarrow> 'a cpu_state_scheme \<Rightarrow> 'a cpu_state_scheme" where
  "pci_config_writel dev reg val s = outl val 0xCFC (outl (PCI_CONF1_ADDRESS dev reg) 0xCF8 s)"

definition pci_translate_addr :: "pcidevaddr_t \<Rightarrow> u64 \<Rightarrow> u64" where
  "pci_translate_addr dev addr = addr"

section \<open>Capabilities and interrupts\<close>

text \<open>The loop of \<^verbatim>\<open>pci_cap_walk\<close>: the assertion on \<^verbatim>\<open>count\<close> bounds it.\<close>

function cap_walk_loop ::
  "hw \<Rightarrow> (pci_dev \<Rightarrow> u8 \<Rightarrow> u8 \<Rightarrow> 'a cpu_state_scheme \<Rightarrow> (pci_dev \<times> 'a cpu_state_scheme) option) \<Rightarrow> nat \<Rightarrow> u8 \<Rightarrow>
   pci_dev \<Rightarrow> 'a cpu_state_scheme \<Rightarrow> (pci_dev \<times> 'a cpu_state_scheme) option" where
  "cap_walk_loop hw handler count cap_offset dev s =
     (if cap_offset = 0 then Some (dev, s)
      else
        let (cap_id, s) = pci_config_readb hw (bdf dev) cap_offset s
        in if \<not> cap_id < PCI_CAP_ID_MAX + 1 then None
           else case handler dev cap_offset cap_id s of
             None \<Rightarrow> None
           | Some (dev, s) \<Rightarrow>
               let (cap_offset, s) = pci_config_readb hw (bdf dev) (cap_offset + 1) s
               in if \<not> Suc count \<le> 255 then None else cap_walk_loop hw handler (Suc count) cap_offset dev s)"
  by pat_completeness auto
termination
  by (relation "measure (\<lambda>(hw, handler, count, cap_offset, dev, s). 256 - count)") auto

declare cap_walk_loop.simps [simp del]

definition pci_cap_walk ::
  "hw \<Rightarrow> (pci_dev \<Rightarrow> u8 \<Rightarrow> u8 \<Rightarrow> 'a cpu_state_scheme \<Rightarrow> (pci_dev \<times> 'a cpu_state_scheme) option) \<Rightarrow>
   pci_dev \<Rightarrow> 'a cpu_state_scheme \<Rightarrow> (pci_dev \<times> 'a cpu_state_scheme) option" where
  "pci_cap_walk hw handler dev s =
     (let (cap_offset, s) = pci_config_readb hw (bdf dev) PCI_CAPABILITY_LIST s
      in cap_walk_loop hw handler 0 cap_offset dev s)"

definition pci_msi_set_enable :: "hw \<Rightarrow> pci_dev \<Rightarrow> bool \<Rightarrow> 'a cpu_state_scheme \<Rightarrow> 'a cpu_state_scheme" where
  "pci_msi_set_enable hw dev enabled s =
     (let offset = msi_offset dev;
          (msi_control, s) = pci_config_readw hw (bdf dev) (ucast (offset + PCI_MSI_FLAGS)) s;
          msi_control = (if enabled then msi_control OR PCI_MSI_FLAGS_ENABLE
                         else msi_control AND NOT PCI_MSI_FLAGS_ENABLE)
      in pci_config_writew (bdf dev) (ucast (offset + PCI_MSI_FLAGS)) msi_control s)"

definition pci_setup_msi :: "hw \<Rightarrow> pci_dev \<Rightarrow> u64 \<Rightarrow> u32 \<Rightarrow> 'a cpu_state_scheme \<Rightarrow> bool \<times> 'a cpu_state_scheme" where
  "pci_setup_msi hw dev msi_addr msi_data s =
     (if msi_offset dev = 0 then
        (False, kprintf (''MSI: dev %#x does not support MSI.'' @ NL) [PNum (ucast (bdf dev))] s)
      else
        let addr = bdf dev;
            offset = msi_offset dev;
            (msi_control, s) = pci_config_readw hw addr (ucast (offset + PCI_MSI_FLAGS)) s;
            s = pci_config_writel addr (ucast (offset + PCI_MSI_ADDRESS_LO)) (ucast (msi_addr AND 0xffffffff)) s;
            s = (if msi_control AND PCI_MSI_FLAGS_64BIT \<noteq> 0 then
                   pci_config_writel addr (ucast (offset + PCI_MSI_DATA_64)) msi_data
                     (pci_config_writel addr (ucast (offset + PCI_MSI_ADDRESS_HI)) (ucast (drop_bit 32 msi_addr)) s)
                 else pci_config_writel addr (ucast (offset + PCI_MSI_DATA_32)) msi_data s)
        in (True, pci_msi_set_enable hw dev True s))"

definition pci_cmd_set_clr :: "hw \<Rightarrow> pci_dev \<Rightarrow> u16 \<Rightarrow> u16 \<Rightarrow> 'a cpu_state_scheme \<Rightarrow> 'a cpu_state_scheme option" where
  "pci_cmd_set_clr hw dev set_bits clr s = do {
     let (val, s) = pci_config_readw hw (bdf dev) PCI_COMMAND s;
     c_assert (set_bits AND clr = 0);
     let val = val OR set_bits;
     let val = val AND NOT clr;
     Some (pci_config_writew (bdf dev) PCI_COMMAND val s) }"

section \<open>Scanning the bus\<close>

definition pci_dev_exists :: "hw \<Rightarrow> pcidevaddr_t \<Rightarrow> 'a cpu_state_scheme \<Rightarrow> bool \<times> 'a cpu_state_scheme" where
  "pci_dev_exists hw dev s =
     (let (vendor, s) = pci_config_readw hw dev PCI_VENDOR_ID s
      in if vendor \<noteq> 0xffff then
           let (device, s) = pci_config_readw hw dev PCI_DEVICE_ID s in (device \<noteq> 0xffff, s)
         else (False, s))"

fun find_dev_loop ::
  "hw \<Rightarrow> u16 \<Rightarrow> u16 \<Rightarrow> nat list \<Rightarrow> 'a cpu_state_scheme \<Rightarrow> pcidevaddr_t \<times> 'a cpu_state_scheme" where
  "find_dev_loop hw vendor_id device_id [] s = (PCIDEVADDR_INVALID, s)"
| "find_dev_loop hw vendor_id device_id (dev # devs) s =
     (let (vendor, s) = pci_config_readw hw (of_nat dev) PCI_VENDOR_ID s
      in if vendor = vendor_id then
           let (device, s) = pci_config_readw hw (of_nat dev) PCI_DEVICE_ID s
           in if device = device_id then (of_nat dev, s) else find_dev_loop hw vendor_id device_id devs s
         else find_dev_loop hw vendor_id device_id devs s)"

definition pci_find_dev :: "hw \<Rightarrow> u16 \<Rightarrow> u16 \<Rightarrow> 'a cpu_state_scheme \<Rightarrow> pcidevaddr_t \<times> 'a cpu_state_scheme" where
  "pci_find_dev hw vendor_id device_id s = find_dev_loop hw vendor_id device_id [0..<PCI_DEVFN_MAX] s"

section \<open>Base address registers\<close>

definition ASSERT_BAR_NUM :: "int \<Rightarrow> unit option" where
  "ASSERT_BAR_NUM bar_num = c_assert (bar_num \<ge> 0 \<and> bar_num < PCI_BAR_NUM)"

definition bar_reg :: "int \<Rightarrow> u8" where
  "bar_reg bar_num = word_of_int (PCI_BASE_ADDRESS_0 + bar_num * 4)"

definition get_resource :: "pci_dev \<Rightarrow> int \<Rightarrow> u64 option" where
  "get_resource dev bar_num = (if 0 \<le> bar_num \<and> bar_num < PCI_BAR_NUM then Some (resource dev ! nat bar_num) else None)"

definition set_resource :: "int \<Rightarrow> u64 \<Rightarrow> pci_dev \<Rightarrow> pci_dev option" where
  "set_resource bar_num v dev =
     (if 0 \<le> bar_num \<and> bar_num < PCI_BAR_NUM then Some (dev\<lparr>resource := (resource dev)[nat bar_num := v]\<rparr>) else None)"

definition pci_bar_mask :: "u32 \<Rightarrow> u32" where
  "pci_bar_mask bar =
     (if bar AND PCI_BASE_ADDRESS_SPACE_IO \<noteq> 0 then ucast PCI_BASE_ADDRESS_IO_MASK else ucast PCI_BASE_ADDRESS_MEM_MASK)"

definition pci_bar_get :: "hw \<Rightarrow> pci_dev \<Rightarrow> int \<Rightarrow> 'a cpu_state_scheme \<Rightarrow> (u32 \<times> 'a cpu_state_scheme) option" where
  "pci_bar_get hw dev bar_num s = do {
     ASSERT_BAR_NUM bar_num;
     Some (pci_config_readl hw (bdf dev) (bar_reg bar_num) s) }"

definition pci_bar_is64 :: "hw \<Rightarrow> pci_dev \<Rightarrow> int \<Rightarrow> 'a cpu_state_scheme \<Rightarrow> (bool \<times> 'a cpu_state_scheme) option" where
  "pci_bar_is64 hw dev bar_num s = do {
     (bar, s) \<leftarrow> pci_bar_get hw dev bar_num s;
     if bar AND PCI_BASE_ADDRESS_SPACE_IO \<noteq> 0 then Some (False, s)
     else Some (bar AND PCI_BASE_ADDRESS_MEM_TYPE_MASK = PCI_BASE_ADDRESS_MEM_TYPE_64, s) }"

text \<open>\<^verbatim>\<open>__pci_bar_get_addr\<close>.\<close>

definition read_bar_addr :: "hw \<Rightarrow> pci_dev \<Rightarrow> int \<Rightarrow> 'a cpu_state_scheme \<Rightarrow> (u64 \<times> 'a cpu_state_scheme) option" where
  "read_bar_addr hw dev bar_num s = do {
     (bar, s) \<leftarrow> pci_bar_get hw dev bar_num s;
     let msk = pci_bar_mask bar;
     let addr = (ucast (bar AND msk) :: u64);
     (is64, s) \<leftarrow> pci_bar_is64 hw dev bar_num s;
     (addr, s) \<leftarrow> (if is64 then do {
         (hi, s) \<leftarrow> pci_bar_get hw dev (bar_num + 1) s;
         Some (addr OR push_bit 32 (ucast hi), s) } else Some (addr, s));
     let phys_addr = pci_translate_addr (bdf dev) addr;
     c_assert (phys_addr \<noteq> INVALID_PHYS_ADDR);
     Some (phys_addr, s) }"

definition pci_bar_get_addr :: "pci_dev \<Rightarrow> int \<Rightarrow> u64 option" where
  "pci_bar_get_addr dev bar_num = do { ASSERT_BAR_NUM bar_num; get_resource dev bar_num }"

definition pci_bar_set_addr ::
  "hw \<Rightarrow> pci_dev \<Rightarrow> int \<Rightarrow> u64 \<Rightarrow> 'a cpu_state_scheme \<Rightarrow> (pci_dev \<times> 'a cpu_state_scheme) option" where
  "pci_bar_set_addr hw dev bar_num addr s = do {
     c_assert (addr \<noteq> INVALID_PHYS_ADDR);
     r \<leftarrow> get_resource dev bar_num;
     c_assert (r \<noteq> INVALID_PHYS_ADDR);
     ASSERT_BAR_NUM bar_num;
     (is64, s) \<leftarrow> pci_bar_is64 hw dev bar_num s;
     (if is64 then ASSERT_BAR_NUM (bar_num + 1) else c_assert (drop_bit 32 addr = 0));
     let s = pci_config_writel (bdf dev) (bar_reg bar_num) (ucast addr) s;
     dev \<leftarrow> set_resource bar_num addr dev;
     (is64, s) \<leftarrow> pci_bar_is64 hw dev bar_num s;
     if is64 then do {
       let s = pci_config_writel (bdf dev) (bar_reg bar_num + 4) (ucast (drop_bit 32 addr)) s;
       r \<leftarrow> get_resource dev bar_num;
       dev \<leftarrow> set_resource (bar_num + 1) r dev;
       Some (dev, s) }
     else Some (dev, s) }"

definition pci_bar_size_helper :: "hw \<Rightarrow> pci_dev \<Rightarrow> int \<Rightarrow> 'a cpu_state_scheme \<Rightarrow> u32 \<times> 'a cpu_state_scheme" where
  "pci_bar_size_helper hw dev bar_num s =
     (let off = bar_reg bar_num;
          b = bdf dev;
          (bar, s) = pci_config_readl hw b off s;
          s = pci_config_writel b off (NOT 0) s;
          (val, s) = pci_config_readl hw b off s;
          s = pci_config_writel b off bar s
      in (val, s))"

definition pci_bar_size :: "hw \<Rightarrow> pci_dev \<Rightarrow> int \<Rightarrow> 'a cpu_state_scheme \<Rightarrow> (u64 \<times> 'a cpu_state_scheme) option" where
  "pci_bar_size hw dev bar_num s =
     (let (sz, s) = pci_bar_size_helper hw dev bar_num s
      in if sz = 0 then Some (0, s)
         else do {
           (bar, s) \<leftarrow> pci_bar_get hw dev bar_num s;
           let sz = sz AND pci_bar_mask bar;
           (is64, s) \<leftarrow> pci_bar_is64 hw dev bar_num s;
           if is64 then
             let (hi, s) = pci_bar_size_helper hw dev (bar_num + 1) s;
                 size64 = push_bit 32 (ucast hi :: u64) OR ucast sz
             in Some (NOT size64 + 1, s)
           else Some (ucast (NOT sz + 1), s) })"

definition pci_bar_is_memory :: "hw \<Rightarrow> pci_dev \<Rightarrow> int \<Rightarrow> 'a cpu_state_scheme \<Rightarrow> (bool \<times> 'a cpu_state_scheme) option" where
  "pci_bar_is_memory hw dev bar_num s = do {
     (bar, s) \<leftarrow> pci_bar_get hw dev bar_num s;
     Some (bar AND PCI_BASE_ADDRESS_SPACE_IO = 0, s) }"

definition pci_bar_is_valid :: "pci_dev \<Rightarrow> int \<Rightarrow> bool option" where
  "pci_bar_is_valid dev bar_num = map_option (\<lambda>r. r \<noteq> INVALID_PHYS_ADDR) (get_resource dev bar_num)"

text \<open>The loop of \<^verbatim>\<open>pci_dev_init\<close>; a 64-bit register takes two turns at once.\<close>

function dev_init_loop :: "hw \<Rightarrow> int \<Rightarrow> pci_dev \<Rightarrow> 'a cpu_state_scheme \<Rightarrow> (pci_dev \<times> 'a cpu_state_scheme) option" where
  "dev_init_loop hw i dev s =
     (if \<not> i < PCI_BAR_NUM then Some (dev, s)
      else do {
        (sz, s) \<leftarrow> pci_bar_size hw dev i s;
        if sz \<noteq> 0 then do {
          (a, s) \<leftarrow> read_bar_addr hw dev i s;
          dev \<leftarrow> set_resource i a dev;
          (is64, s) \<leftarrow> pci_bar_is64 hw dev i s;
          if is64 then do {
            c_assert (i + 1 < PCI_BAR_NUM);
            r \<leftarrow> get_resource dev i;
            dev \<leftarrow> set_resource (i + 1) r dev;
            dev_init_loop hw (i + 2) dev s }
          else dev_init_loop hw (i + 1) dev s }
        else do {
          dev \<leftarrow> set_resource i INVALID_PHYS_ADDR dev;
          dev_init_loop hw (i + 1) dev s } })"
  by pat_completeness auto
termination
  by (relation "measure (\<lambda>(hw, i, dev, s). nat (6 - i))") (auto simp: PCI_BAR_NUM_def)

declare dev_init_loop.simps [simp del]

definition pci_dev_init :: "hw \<Rightarrow> pcidevaddr_t \<Rightarrow> 'a cpu_state_scheme \<Rightarrow> (pci_dev \<times> 'a cpu_state_scheme) option" where
  "pci_dev_init hw b s = dev_init_loop hw 0 \<lparr>bdf = b, msi_offset = 0, resource = replicate 6 0\<rparr> s"

definition pci_intx_line :: "hw \<Rightarrow> pci_dev \<Rightarrow> 'a cpu_state_scheme \<Rightarrow> u8 \<times> 'a cpu_state_scheme" where
  "pci_intx_line hw dev s = pci_config_readb hw (bdf dev) PCI_INTERRUPT_LINE s"

definition pci_cap_setup :: "pci_dev \<Rightarrow> u8 \<Rightarrow> u8 \<Rightarrow> 'a cpu_state_scheme \<Rightarrow> (pci_dev \<times> 'a cpu_state_scheme) option" where
  "pci_cap_setup dev cap_offset cap_id s =
     Some (if cap_id = PCI_CAP_ID_MSI then dev\<lparr>msi_offset := ucast cap_offset\<rparr> else dev, s)"

definition pci_enable_defaults :: "hw \<Rightarrow> pci_dev \<Rightarrow> 'a cpu_state_scheme \<Rightarrow> (pci_dev \<times> 'a cpu_state_scheme) option" where
  "pci_enable_defaults hw dev s = do {
     s \<leftarrow> pci_cmd_set_clr hw dev PCI_COMMAND_MASTER 0 s;
     pci_cap_walk hw pci_cap_setup dev s }"

section \<open>Printing\<close>

definition pci_bar_print :: "hw \<Rightarrow> pci_dev \<Rightarrow> int \<Rightarrow> 'a cpu_state_scheme \<Rightarrow> 'a cpu_state_scheme option" where
  "pci_bar_print hw dev bar_num s = do {
     valid \<leftarrow> pci_bar_is_valid dev bar_num;
     if \<not> valid then Some s
     else do {
       (bar, s) \<leftarrow> pci_bar_get hw dev bar_num s;
       (sz, s) \<leftarrow> pci_bar_size hw dev bar_num s;
       start \<leftarrow> pci_bar_get_addr dev bar_num;
       let end_addr = start + sz - 1;
       (is64, s) \<leftarrow> pci_bar_is64 hw dev bar_num s;
       let s = (if is64 then
                  kprintf ''BAR#%d,%d [%lx-%lx ''
                    [PNum (word_of_int bar_num), PNum (word_of_int (bar_num + 1)), PNum start, PNum end_addr] s
                else
                  kprintf ''BAR#%d [%02x-%02x ''
                    [PNum (word_of_int bar_num), PNum (start AND 0xffffffff), PNum (end_addr AND 0xffffffff)] s);
       s \<leftarrow> (if bar AND PCI_BASE_ADDRESS_SPACE_IO \<noteq> 0 then Some (kprintf ''PIO'' [] s)
            else
              let s = kprintf ''MEM'' [] s;
                  t = bar AND PCI_BASE_ADDRESS_MEM_TYPE_MASK
              in if t = PCI_BASE_ADDRESS_MEM_TYPE_32 then Some (kprintf ''32'' [] s)
                 else if t = PCI_BASE_ADDRESS_MEM_TYPE_1M then Some (kprintf ''1M'' [] s)
                 else if t = PCI_BASE_ADDRESS_MEM_TYPE_64 then Some (kprintf ''64'' [] s)
                 else None);
       let s = (if bar AND PCI_BASE_ADDRESS_MEM_PREFETCH \<noteq> 0 then kprintf ''/p'' [] s else s);
       Some (kprintf '']'' [] s) } }"

text \<open>The two reads are arguments of one call; they are taken from left to right.\<close>

definition pci_dev_print_id :: "hw \<Rightarrow> pci_dev \<Rightarrow> 'a cpu_state_scheme \<Rightarrow> 'a cpu_state_scheme" where
  "pci_dev_print_id hw dev s =
     (let b = bdf dev;
          (vendor, s) = pci_config_readw hw b PCI_VENDOR_ID s;
          (device, s) = pci_config_readw hw b PCI_DEVICE_ID s
      in kprintf ''00.%02x.%1x %04x:%04x''
           [PNum (ucast (b div 8)), PNum (ucast (b mod 8)), PNum (ucast vendor), PNum (ucast device)] s)"

definition pci_cap_print ::
  "hw \<Rightarrow> pci_dev \<Rightarrow> u8 \<Rightarrow> u8 \<Rightarrow> 'a cpu_state_scheme \<Rightarrow> (pci_dev \<times> 'a cpu_state_scheme) option" where
  "pci_cap_print hw dev cap_offset cap_id s =
     (let s = (if cap_id = PCI_CAP_ID_MSI then
                 let (control, s) = pci_config_readw hw (bdf dev) (cap_offset + ucast PCI_MSI_FLAGS) s
                 in kprintf (TAB @ ''MSI,%s-bit capability '')
                      [PStr (if control AND PCI_MSI_FLAGS_64BIT \<noteq> 0 then ''64'' else ''32'')] s
               else kprintf (TAB @ ''capability %#04x '') [PNum (ucast cap_id)] s)
      in Some (dev, kprintf (''at offset %#04x'' @ NL) [PNum (ucast cap_offset)] s))"

function print_bars :: "hw \<Rightarrow> pci_dev \<Rightarrow> int \<Rightarrow> 'a cpu_state_scheme \<Rightarrow> 'a cpu_state_scheme option" where
  "print_bars hw dev i s =
     (if \<not> i < PCI_BAR_NUM then Some s
      else do {
        valid \<leftarrow> pci_bar_is_valid dev i;
        s \<leftarrow> (if valid then do {
                s \<leftarrow> pci_bar_print hw dev i (kprintf TAB [] s);
                Some (kprintf NL [] s) } else Some s);
        (is64, s) \<leftarrow> pci_bar_is64 hw dev i s;
        if is64 then print_bars hw dev (i + 2) s else print_bars hw dev (i + 1) s })"
  by pat_completeness auto
termination
  by (relation "measure (\<lambda>(hw, dev, i, s). nat (6 - i))") (auto simp: PCI_BAR_NUM_def)

declare print_bars.simps [simp del]

definition pci_dev_print :: "hw \<Rightarrow> pci_dev \<Rightarrow> 'a cpu_state_scheme \<Rightarrow> 'a cpu_state_scheme option" where
  "pci_dev_print hw dev s = do {
     let b = bdf dev;
     let (header, s) = pci_config_readb hw b PCI_HEADER_TYPE s;
     let (progif, s) = pci_config_readb hw b PCI_CLASS_PROG s;
     let (subclass, s) = pci_config_readb hw b PCI_CLASS_DEVICE s;
     let (cls, s) = pci_config_readb hw b (PCI_CLASS_DEVICE + 1) s;
     let s = pci_dev_print_id hw dev s;
     let s = kprintf ('' type %02x progif %02x class %02x subclass %02x'' @ NL)
               [PNum (ucast header), PNum (ucast progif), PNum (ucast cls), PNum (ucast subclass)] s;
     (dev, s) \<leftarrow> pci_cap_walk hw (pci_cap_print hw) dev s;
     if header AND PCI_HEADER_TYPE_MASK \<noteq> PCI_HEADER_TYPE_NORMAL then Some s
     else print_bars hw dev 0 s }"

fun print_devs :: "hw \<Rightarrow> nat list \<Rightarrow> 'a cpu_state_scheme \<Rightarrow> 'a cpu_state_scheme option" where
  "print_devs hw [] s = Some s"
| "print_devs hw (devfn # devs) s =
     (let (ex, s) = pci_dev_exists hw (of_nat devfn) s
      in if ex then do {
           (dev, s) \<leftarrow> pci_dev_init hw (of_nat devfn) s;
           s \<leftarrow> pci_dev_print hw dev s;
           print_devs hw devs s }
         else print_devs hw devs s)"

definition pci_print :: "hw \<Rightarrow> 'a cpu_state_scheme \<Rightarrow> 'a cpu_state_scheme option" where
  "pci_print hw s = print_devs hw [0..<PCI_DEVFN_MAX] s"

end
