(* ===== verification/Pci_Host.thy ===== *)
theory Pci_Host
  imports Pci
begin

text \<open>
  The host bridge as the program relies on it. A write to port 0xCF8 selects a device and a register; the data
  port then reads and writes bytes of that device's configuration space from that register on. A byte of the
  space has writable bits, the other bits keep their value; this is how a base address register tells its size.
\<close>

type_synonym conf = "u8 \<Rightarrow> u8"

fun get_bytes :: "nat \<Rightarrow> conf \<Rightarrow> u8 \<Rightarrow> u32" where
  "get_bytes 0 c r = 0"
| "get_bytes (Suc n) c r = ucast (c r) OR push_bit 8 (get_bytes n c (r + 1))"

fun put_bytes :: "nat \<Rightarrow> conf \<Rightarrow> u8 \<Rightarrow> u32 \<Rightarrow> conf \<Rightarrow> conf" where
  "put_bytes 0 wm r v c = c"
| "put_bytes (Suc n) wm r v c =
     put_bytes n wm (r + 1) (drop_bit 8 v) (c(r := (ucast v AND wm r) OR (c r AND NOT (wm r))))"

definition sel_dev :: "u32 \<Rightarrow> u16" where "sel_dev l = ucast (drop_bit 8 l)"
definition sel_reg :: "u32 \<Rightarrow> u8" where "sel_reg l = ucast l"

type_synonym space = "u16 \<Rightarrow> conf"

definition host_step :: "space \<Rightarrow> u32 \<times> space \<Rightarrow> ioev \<Rightarrow> u32 \<times> space" where
  "host_step wm h e =
     (case e of
        PortOut n p v \<Rightarrow>
          if p = 0xCF8 \<and> n = 4 then (v, snd h)
          else if p = 0xCFC \<and> bit (fst h) 31 then
            (fst h, (snd h)(sel_dev (fst h) :=
               put_bytes n (wm (sel_dev (fst h))) (sel_reg (fst h)) v (snd h (sel_dev (fst h)))))
          else h
      | _ \<Rightarrow> h)"

definition host_at :: "space \<Rightarrow> space \<Rightarrow> ioev list \<Rightarrow> u32 \<times> space" where
  "host_at wm c0 tr = foldl (host_step wm) (0, c0) tr"

text \<open>The devices' configuration spaces after what a state has done on the bus.\<close>

definition conf_of :: "space \<Rightarrow> space \<Rightarrow> 'a cpu_state_scheme \<Rightarrow> space" where
  "conf_of wm c0 s = snd (host_at wm c0 (trace s))"

definition pci_host :: "space \<Rightarrow> space \<Rightarrow> hw \<Rightarrow> bool" where
  "pci_host wm c0 hw \<longleftrightarrow> (\<forall>tr n. n \<in> {1, 2, 4} \<longrightarrow> bit (fst (host_at wm c0 tr)) 31 \<longrightarrow>
     hw tr (PortIn n 0xCFC) =
       ucast (get_bytes n (snd (host_at wm c0 tr) (sel_dev (fst (host_at wm c0 tr)))) (sel_reg (fst (host_at wm c0 tr)))))"

definition pci_hw :: "space \<Rightarrow> space \<Rightarrow> hw" where
  "pci_hw wm c0 tr e =
     (case e of
        PortIn n p \<Rightarrow>
          if p = 0xCFC then
            ucast (get_bytes n (snd (host_at wm c0 tr) (sel_dev (fst (host_at wm c0 tr)))) (sel_reg (fst (host_at wm c0 tr))))
          else 0
      | _ \<Rightarrow> 0)"

lemma pci_hw_host: "pci_host wm c0 (pci_hw wm c0)"
  by (simp add: pci_host_def pci_hw_def)

lemma bit_address:
  "bit (PCI_CONF1_ADDRESS dev reg) n \<longleftrightarrow> n = 31 \<or> 8 \<le> n \<and> bit dev (n - 8) \<or> bit reg n"
proof -
  have "n < 16" if "bit dev n" for n using that bit_imp_le_length[of dev n] by simp
  moreover have "n < 8" if "bit reg n" for n using that bit_imp_le_length[of reg n] by simp
  ultimately show ?thesis
    unfolding PCI_CONF1_ADDRESS_def bit_or_iff bit_push_bit_iff bit_1_iff bit_unsigned_iff
    by (auto simp: possible_bit_word) force+
qed

lemma reg_bits: "bit (reg::u8) n \<Longrightarrow> n < 8"
  using bit_imp_le_length[of reg n] by simp

lemma sel_address [simp]:
  "sel_dev (PCI_CONF1_ADDRESS dev reg) = dev" "sel_reg (PCI_CONF1_ADDRESS dev reg) = reg"
  "bit (PCI_CONF1_ADDRESS dev reg) 31"
  by (auto simp: sel_dev_def sel_reg_def bit_address bit_unsigned_iff bit_drop_bit_eq intro!: bit_word_eqI dest: reg_bits)

lemma host_at_snoc [simp]: "host_at wm c0 (tr @ [e]) = host_step wm (host_at wm c0 tr) e"
  by (simp add: host_at_def)

lemma host_step_simps [simp]:
  "host_step wm h (PortOut 4 0xCF8 v) = (v, snd h)"
  "host_step wm h (PortIn n p) = h"
  "bit (fst h) 31 \<Longrightarrow> host_step wm h (PortOut n 0xCFC v) =
     (fst h, (snd h)(sel_dev (fst h) := put_bytes n (wm (sel_dev (fst h))) (sel_reg (fst h)) v (snd h (sel_dev (fst h)))))"
  by (simp_all add: host_step_def)

section \<open>States that differ in what was read\<close>

definition quiet :: "space \<Rightarrow> space \<Rightarrow> 'a cpu_state_scheme \<Rightarrow> 'a cpu_state_scheme \<Rightarrow> bool" where
  "quiet wm c0 s s' \<longleftrightarrow> (\<exists>tr. s' = s\<lparr>trace := trace s @ tr\<rparr>) \<and> conf_of wm c0 s' = conf_of wm c0 s"

lemma quiet_refl [simp]: "quiet wm c0 s s"
  by (auto simp: quiet_def intro: exI[of _ "[]"])

lemma quiet_trans: "quiet wm c0 s s' \<Longrightarrow> quiet wm c0 s' s'' \<Longrightarrow> quiet wm c0 s s''"
  by (force simp: quiet_def)

lemma quiet_conf: "quiet wm c0 s s' \<Longrightarrow> conf_of wm c0 s' = conf_of wm c0 s"
  by (simp add: quiet_def)

lemma two_accesses: "host_at wm c0 (tr @ [a, b]) = host_step wm (host_step wm (host_at wm c0 tr) a) b"
  by (simp add: host_at_def)

lemma pci_config_read:
  assumes "pci_host wm c0 hw"
  shows "\<exists>s'. pci_config_readb hw dev reg s = (conf_of wm c0 s dev reg, s') \<and> quiet wm c0 s s'"
    "\<exists>s'. pci_config_readw hw dev reg s = (ucast (get_bytes 2 (conf_of wm c0 s dev) reg), s') \<and> quiet wm c0 s s'"
    "\<exists>s'. pci_config_readl hw dev reg s = (get_bytes 4 (conf_of wm c0 s dev) reg, s') \<and> quiet wm c0 s s'"
proof -
  let ?a = "PCI_CONF1_ADDRESS dev reg"
  let ?tr = "trace s @ [PortOut 4 0xCF8 ?a]"
  have h: "hw ?tr (PortIn n 0xCFC) = ucast (get_bytes n (conf_of wm c0 s dev) reg)" if "n \<in> {1, 2, 4}" for n
  proof -
    have "host_at wm c0 ?tr = (?a, conf_of wm c0 s)" by (simp add: conf_of_def)
    then show ?thesis using assms[unfolded pci_host_def, rule_format, of n ?tr] that
      by (simp del: get_bytes.simps host_at_snoc)
  qed
  have q: "quiet wm c0 s (s\<lparr>trace := trace s @ [PortOut 4 0xCF8 ?a, PortIn n 0xCFC]\<rparr>)" for n
    by (simp add: quiet_def conf_of_def two_accesses) blast
  note d = inb_def inw_def inl_def outl_def hw_read_def hw_write_def
  show "\<exists>s'. pci_config_readb hw dev reg s = (conf_of wm c0 s dev reg, s') \<and> quiet wm c0 s s'"
    using h[of 1] q[of 1] by (simp add: pci_config_readb_def d, intro bit_word_eqI) (simp add: bit_simps)
  show "\<exists>s'. pci_config_readw hw dev reg s = (ucast (get_bytes 2 (conf_of wm c0 s dev) reg), s') \<and> quiet wm c0 s s'"
    using h[of 2] q[of 2] by (simp add: pci_config_readw_def d del: get_bytes.simps, intro bit_word_eqI) (simp add: bit_simps)
  show "\<exists>s'. pci_config_readl hw dev reg s = (get_bytes 4 (conf_of wm c0 s dev) reg, s') \<and> quiet wm c0 s s'"
    using h[of 4] q[of 4] by (simp add: pci_config_readl_def d del: get_bytes.simps)
qed

lemma pci_config_write:
  "\<exists>tr. pci_config_writeb dev reg v8 s = s\<lparr>trace := trace s @ tr\<rparr>"
  "\<exists>tr. pci_config_writew dev reg v16 s = s\<lparr>trace := trace s @ tr\<rparr>"
  "\<exists>tr. pci_config_writel dev reg v32 s = s\<lparr>trace := trace s @ tr\<rparr>"
  "conf_of wm c0 (pci_config_writeb dev reg v8 s) =
     (conf_of wm c0 s)(dev := put_bytes 1 (wm dev) reg (ucast v8) (conf_of wm c0 s dev))"
  "conf_of wm c0 (pci_config_writew dev reg v16 s) =
     (conf_of wm c0 s)(dev := put_bytes 2 (wm dev) reg (ucast v16) (conf_of wm c0 s dev))"
  "conf_of wm c0 (pci_config_writel dev reg v32 s) =
     (conf_of wm c0 s)(dev := put_bytes 4 (wm dev) reg v32 (conf_of wm c0 s dev))"
  by (auto simp: pci_config_writeb_def pci_config_writew_def pci_config_writel_def outb_def outw_def outl_def
      hw_write_def conf_of_def two_accesses simp del: get_bytes.simps put_bytes.simps)

section \<open>Registers\<close>

abbreviation reg32 :: "conf \<Rightarrow> u8 \<Rightarrow> u32" where "reg32 \<equiv> get_bytes 4"

lemma four_Suc: "(4::nat) = Suc (Suc (Suc (Suc 0)))"
  by simp

lemma bytes4:
  "get_bytes 4 c r = ucast (c r) OR push_bit 8 (ucast (c (r + 1))) OR push_bit 16 (ucast (c (r + 2))) OR push_bit 24 (ucast (c (r + 3)))"
proof -
  have "get_bytes 4 c r = get_bytes (Suc (Suc (Suc (Suc 0)))) c r" by (simp only: four_Suc)
  also have "\<dots> = ucast (c r) OR push_bit 8 (ucast (c (r + 1))) OR push_bit 16 (ucast (c (r + 2))) OR push_bit 24 (ucast (c (r + 3)))"
    by (simp add: push_bit_or add.assoc or.assoc)
  finally show ?thesis .
qed

lemma put4:
  "put_bytes 4 wm r v c = (\<lambda>x. if x = r then (ucast v AND wm r) OR (c r AND NOT (wm r))
     else if x = r + 1 then (ucast (drop_bit 8 v) AND wm x) OR (c x AND NOT (wm x))
     else if x = r + 2 then (ucast (drop_bit 16 v) AND wm x) OR (c x AND NOT (wm x))
     else if x = r + 3 then (ucast (drop_bit 24 v) AND wm x) OR (c x AND NOT (wm x)) else c x)"
proof -
  have "put_bytes 4 wm r v c = put_bytes (Suc (Suc (Suc (Suc 0)))) wm r v c" by (simp only: four_Suc)
  then show ?thesis by (auto simp: add.assoc fun_eq_iff)
qed

lemma octets_of_bytes4:
  "ucast (get_bytes 4 c r) = c r" "ucast (drop_bit 8 (get_bytes 4 c r)) = c (r + 1)"
  "ucast (drop_bit 16 (get_bytes 4 c r)) = c (r + 2)" "ucast (drop_bit 24 (get_bytes 4 c r)) = c (r + 3)"
  unfolding bytes4 by (rule bit_word_eqI; auto simp: bit_simps dest: reg_bits)+

text \<open>Writing ones and reading back shows the writable bits; writing the old value back restores the space.\<close>

lemma reg32_ones: "get_bytes 4 (put_bytes 4 wm r (NOT 0) c) r = get_bytes 4 c r OR get_bytes 4 wm r"
proof -
  have ones: "(ucast (NOT 0 :: u32) :: u8) = NOT 0" "(ucast (drop_bit 8 (NOT 0 :: u32)) :: u8) = NOT 0"
    "(ucast (drop_bit 16 (NOT 0 :: u32)) :: u8) = NOT 0" "(ucast (drop_bit 24 (NOT 0 :: u32)) :: u8) = NOT 0"
    by (rule bit_word_eqI; simp add: bit_simps)+
  have b: "(NOT 0 AND w) OR (x AND NOT w) = x OR w" for w x :: u8
    by (rule bit_word_eqI) (auto simp: bit_simps)
  have "put_bytes 4 wm r (NOT 0) c r = c r OR wm r" "put_bytes 4 wm r (NOT 0) c (r + 1) = c (r + 1) OR wm (r + 1)"
    "put_bytes 4 wm r (NOT 0) c (r + 2) = c (r + 2) OR wm (r + 2)" "put_bytes 4 wm r (NOT 0) c (r + 3) = c (r + 3) OR wm (r + 3)"
    unfolding put4 ones b by simp_all
  then show ?thesis unfolding bytes4[of "put_bytes 4 wm r (NOT 0) c"] bytes4[of c] bytes4[of wm]
    by (simp only: unsigned_or_eq push_bit_or or.assoc or.left_commute)
qed

lemma reg32_restore: "put_bytes 4 wm r (get_bytes 4 c r) (put_bytes 4 wm r v c) = c"
  unfolding put4 octets_of_bytes4 by (rule ext, rule bit_word_eqI) (auto simp: bit_simps)

end
