(* ===== verification/Pci_Props.thy ===== *)
theory Pci_Props
  imports Pci_Host
begin

text \<open>
  What PCI initialisation finds: the base address registers of a device as a layout of regions, their sizes by
  probing, their addresses; the capability list; the device asked for. Probing leaves the devices as they were.
\<close>

section \<open>Layouts of base address registers\<close>

text \<open>A slot without a region; a region of \<open>2\<^sup>k\<close> bytes at an address in port space, in memory within 32 bits
  (flags: below 1 MiB, prefetchable) or in memory with a 64-bit address, which takes two slots.\<close>

datatype bar = NoBar | IoBar nat u32 | Mem32 u32 nat u32 | Mem64 u32 nat u64

fun bar_at :: "conf \<Rightarrow> conf \<Rightarrow> nat \<Rightarrow> bar \<Rightarrow> bool" where
  "bar_at c w i NoBar \<longleftrightarrow> reg32 c (bar_reg (int i)) = 0 \<and> reg32 w (bar_reg (int i)) = 0"
| "bar_at c w i (IoBar k a) \<longleftrightarrow> 2 \<le> k \<and> k \<le> 31 \<and> take_bit k a = 0 \<and>
     reg32 c (bar_reg (int i)) = a OR 1 \<and> reg32 w (bar_reg (int i)) = push_bit k (NOT 0)"
| "bar_at c w i (Mem32 f k a) \<longleftrightarrow> 4 \<le> k \<and> k \<le> 31 \<and> take_bit k a = 0 \<and> f \<in> {0, 2, 8, 10} \<and>
     reg32 c (bar_reg (int i)) = a OR f \<and> reg32 w (bar_reg (int i)) = push_bit k (NOT 0)"
| "bar_at c w i (Mem64 f k a) \<longleftrightarrow> 4 \<le> k \<and> k \<le> 63 \<and> take_bit k a = 0 \<and> f \<in> {4, 12} \<and>
     reg32 c (bar_reg (int i)) = ucast a OR f \<and> reg32 c (bar_reg (int i + 1)) = ucast (drop_bit 32 a) \<and>
     reg32 w (bar_reg (int i)) = ucast (push_bit k (NOT 0) :: u64) \<and>
     reg32 w (bar_reg (int i + 1)) = ucast (drop_bit 32 (push_bit k (NOT 0) :: u64))"

fun bar_slots :: "bar \<Rightarrow> nat" where
  "bar_slots (Mem64 f k a) = 2"
| "bar_slots _ = 1"

fun bar_bytes :: "bar \<Rightarrow> u64" where
  "bar_bytes NoBar = 0"
| "bar_bytes (IoBar k a) = 2 ^ k"
| "bar_bytes (Mem32 f k a) = 2 ^ k"
| "bar_bytes (Mem64 f k a) = 2 ^ k"

fun bar_address :: "bar \<Rightarrow> u64" where
  "bar_address NoBar = INVALID_PHYS_ADDR"
| "bar_address (IoBar k a) = ucast a"
| "bar_address (Mem32 f k a) = ucast a"
| "bar_address (Mem64 f k a) = a"

fun layout_at :: "conf \<Rightarrow> conf \<Rightarrow> nat \<Rightarrow> bar list \<Rightarrow> bool" where
  "layout_at c w i [] \<longleftrightarrow> i = 6"
| "layout_at c w i (b # bs) \<longleftrightarrow> bar_at c w i b \<and> layout_at c w (i + bar_slots b) bs"

definition layout_resources :: "bar list \<Rightarrow> u64 list" where
  "layout_resources bs = concat (map (\<lambda>b. replicate (bar_slots b) (bar_address b)) bs)"

section \<open>Bits of a register\<close>

lemma field_mask:
  fixes a f :: "'a::len word"
  assumes "take_bit n a = 0" "take_bit n f = f"
  shows "(a OR f) AND NOT (mask n) = a" "take_bit n m = m \<Longrightarrow> (a OR f) AND m = f AND m"
proof -
  have a: "bit a i \<Longrightarrow> n \<le> i" for i using assms(1) by (metis bit_0_eq bit_take_bit_iff bot_apply bot_bool_def not_le)
  have f: "bit f i \<Longrightarrow> i < n" for i using assms(2) by (metis bit_take_bit_iff)
  show "(a OR f) AND NOT (mask n) = a"
    by (rule bit_word_eqI) (use a f in \<open>force simp: bit_simps\<close>)
  assume "take_bit n m = m"
  then have "bit m i \<Longrightarrow> i < n" for i by (metis bit_take_bit_iff)
  then show "(a OR f) AND m = f AND m"
    by (intro bit_word_eqI) (use a in \<open>force simp: bit_simps\<close>)
qed

lemma size_mask:
  fixes a f :: "'a::len word"
  assumes "take_bit k a = 0" "take_bit n f = f" "n \<le> k"
  shows "((a OR f) OR push_bit k (NOT 0)) AND NOT (mask n) = push_bit k (NOT 0)"
proof -
  have a: "bit a i \<Longrightarrow> k \<le> i" for i using assms(1) by (metis bit_0_eq bit_take_bit_iff bot_apply bot_bool_def not_le)
  have f: "bit f i \<Longrightarrow> i < n" for i using assms(2) by (metis bit_take_bit_iff)
  show ?thesis by (rule bit_word_eqI) (use a f assms(3) in \<open>force simp: bit_simps\<close>)
qed

lemma not_push_ones: "NOT (push_bit k (NOT 0)) + 1 = (2 ^ k :: 'a::len word)"
proof -
  have "NOT (push_bit k (NOT 0)) = (mask k :: 'a word)" by (rule bit_word_eqI) (auto simp: bit_simps)
  then show ?thesis by (simp add: mask_eq_decr_exp)
qed

lemma take_bit_weaken: "take_bit k (a::'a::len word) = 0 \<Longrightarrow> n \<le> k \<Longrightarrow> take_bit n a = 0"
  by (metis min.absorb1 take_bit_of_0 take_bit_take_bit)

lemma masks: "(3::u32) = mask 2" "(15::u32) = mask 4" "(15::u64) = mask 4"
  by (simp_all add: mask_eq_exp_minus_1)

lemma mem_flags: "f \<in> {0, 2, 8, 10, 4, 12} \<Longrightarrow> take_bit 4 (f::u32) = f \<and> f AND 1 = 0"
  by auto

lemma bar_masks [simp]:
  "ucast PCI_BASE_ADDRESS_IO_MASK = (NOT (mask 2) :: u32)" "ucast PCI_BASE_ADDRESS_MEM_MASK = (NOT (mask 4) :: u32)"
  by (simp_all add: c_defs mask_eq_exp_minus_1)

lemma halves: "push_bit 32 (ucast (ucast (drop_bit 32 x) :: u32)) OR ucast (ucast x :: u32) = (x::u64)"
  by (rule bit_word_eqI) (auto simp: bit_simps)

section \<open>Reading and probing\<close>

lemma quiet_app:
  "quiet wm c0 s s' \<Longrightarrow> conf_of wm c0 s' d = conf_of wm c0 s d"
  by (simp add: quiet_def)

lemma pci_bar_get_val:
  assumes "pci_host wm c0 hw" "0 \<le> i" "i < 6"
  shows "\<exists>s'. pci_bar_get hw dev i s = Some (reg32 (conf_of wm c0 s (bdf dev)) (bar_reg i), s') \<and> quiet wm c0 s s'"
  using pci_config_read(3)[OF assms(1), of "bdf dev" "bar_reg i" s] assms(2,3)
  by (auto simp: pci_bar_get_def ASSERT_BAR_NUM_def c_defs)

definition val_is64 :: "u32 \<Rightarrow> bool" where
  "val_is64 v \<longleftrightarrow> v AND 1 = 0 \<and> v AND 6 = 4"

lemma pci_bar_is64_val:
  assumes "pci_host wm c0 hw" "0 \<le> i" "i < 6"
  shows "\<exists>s'. pci_bar_is64 hw dev i s = Some (val_is64 (reg32 (conf_of wm c0 s (bdf dev)) (bar_reg i)), s') \<and> quiet wm c0 s s'"
  using pci_bar_get_val[OF assms, of dev s]
  by (auto simp: pci_bar_is64_def val_is64_def PCI_BASE_ADDRESS_SPACE_IO_def PCI_BASE_ADDRESS_MEM_TYPE_MASK_def
      PCI_BASE_ADDRESS_MEM_TYPE_64_def)

lemma quiet_write_back:
  assumes "quiet wm c0 (pci_config_writel d r v s) s'"
  shows "quiet wm c0 s (pci_config_writel d r (reg32 (conf_of wm c0 s d) r) s')"
proof -
  obtain tr1 where 1: "pci_config_writel d r v s = s\<lparr>trace := trace s @ tr1\<rparr>" using pci_config_write(3) by blast
  obtain tr2 where 2: "s' = (pci_config_writel d r v s)\<lparr>trace := trace (pci_config_writel d r v s) @ tr2\<rparr>"
    using assms by (auto simp: quiet_def)
  obtain tr3 where 3: "pci_config_writel d r (reg32 (conf_of wm c0 s d) r) s' = s'\<lparr>trace := trace s' @ tr3\<rparr>"
    using pci_config_write(3) by blast
  have "conf_of wm c0 (pci_config_writel d r (reg32 (conf_of wm c0 s d) r) s') = conf_of wm c0 s"
    using quiet_conf[OF assms] by (simp add: pci_config_write(6) reg32_restore)
  then show ?thesis unfolding quiet_def by (simp add: 3) (simp add: 2 1, blast)
qed

lemma pci_bar_size_helper_val:
  assumes "pci_host wm c0 hw"
  shows "\<exists>s'. pci_bar_size_helper hw dev i s =
    (reg32 (conf_of wm c0 s (bdf dev)) (bar_reg i) OR reg32 (wm (bdf dev)) (bar_reg i), s') \<and> quiet wm c0 s s'"
proof -
  let ?d = "bdf dev" and ?r = "bar_reg i"
  obtain s1 where s1: "pci_config_readl hw ?d ?r s = (reg32 (conf_of wm c0 s ?d) ?r, s1)" "quiet wm c0 s s1"
    using pci_config_read(3)[OF assms] by blast
  let ?s2 = "pci_config_writel ?d ?r (NOT 0) s1"
  obtain s3 where s3: "pci_config_readl hw ?d ?r ?s2 = (reg32 (conf_of wm c0 ?s2 ?d) ?r, s3)" "quiet wm c0 ?s2 s3"
    using pci_config_read(3)[OF assms] by blast
  have v: "reg32 (conf_of wm c0 ?s2 ?d) ?r = reg32 (conf_of wm c0 s ?d) ?r OR reg32 (wm ?d) ?r"
    by (simp add: pci_config_write(6) reg32_ones[simplified] quiet_conf[OF s1(2)])
  have "quiet wm c0 s (pci_config_writel ?d ?r (reg32 (conf_of wm c0 s ?d) ?r) s3)"
    using quiet_trans[OF s1(2) quiet_write_back[OF s3(2)]] quiet_conf[OF s1(2)] by simp
  then show ?thesis using s1(1) s3(1) v by (simp add: pci_bar_size_helper_def Let_def)
qed

definition val_size :: "u32 \<Rightarrow> u32 \<Rightarrow> u32 \<Rightarrow> u64" where
  "val_size v w hi =
     (if v OR w = 0 then 0
      else if val_is64 v then NOT (push_bit 32 (ucast hi) OR ucast ((v OR w) AND pci_bar_mask v)) + 1
      else ucast (NOT ((v OR w) AND pci_bar_mask v) + 1))"

lemma pci_bar_size_val:
  assumes "pci_host wm c0 hw" "0 \<le> i" "i < 6"
  shows "\<exists>s'. pci_bar_size hw dev i s =
    Some (val_size (reg32 (conf_of wm c0 s (bdf dev)) (bar_reg i)) (reg32 (wm (bdf dev)) (bar_reg i))
      (reg32 (conf_of wm c0 s (bdf dev)) (bar_reg (i + 1)) OR reg32 (wm (bdf dev)) (bar_reg (i + 1))), s') \<and> quiet wm c0 s s'"
proof -
  let ?c = "conf_of wm c0 s (bdf dev)" and ?w = "wm (bdf dev)" and ?r = "bar_reg i"
  obtain s1 where s1: "pci_bar_size_helper hw dev i s = (reg32 ?c ?r OR reg32 ?w ?r, s1)" "quiet wm c0 s s1"
    using pci_bar_size_helper_val[OF assms(1)] by blast
  show ?thesis
  proof (cases "reg32 ?c ?r OR reg32 ?w ?r = 0")
    case True
    then show ?thesis using s1 by (simp add: pci_bar_size_def val_size_def)
  next
    case False
    obtain s2 where s2: "pci_bar_get hw dev i s1 = Some (reg32 ?c ?r, s2)" "quiet wm c0 s1 s2"
      using pci_bar_get_val[OF assms, of dev s1] quiet_app[OF s1(2)] by auto
    have q2: "quiet wm c0 s s2" using quiet_trans[OF s1(2) s2(2)] .
    obtain s3 where s3: "pci_bar_is64 hw dev i s2 = Some (val_is64 (reg32 ?c ?r), s3)" "quiet wm c0 s2 s3"
      using pci_bar_is64_val[OF assms, of dev s2] quiet_app[OF q2] by auto
    have q3: "quiet wm c0 s s3" using quiet_trans[OF q2 s3(2)] .
    obtain s4 where s4: "pci_bar_size_helper hw dev (i + 1) s3 = (reg32 ?c (bar_reg (i + 1)) OR reg32 ?w (bar_reg (i + 1)), s4)"
        "quiet wm c0 s3 s4"
      using pci_bar_size_helper_val[OF assms(1), of dev "i + 1" s3] quiet_app[OF q3] by auto
    show ?thesis using False s1(1) s2(1) s3(1) s4(1) q3 quiet_trans[OF q3 s4(2)]
      by (cases "val_is64 (reg32 ?c ?r)") (simp_all add: pci_bar_size_def val_size_def)
  qed
qed

definition val_addr :: "u32 \<Rightarrow> u32 \<Rightarrow> u64" where
  "val_addr v hi = (if val_is64 v then ucast (v AND pci_bar_mask v) OR push_bit 32 (ucast hi) else ucast (v AND pci_bar_mask v))"

lemma read_bar_addr_val:
  assumes "pci_host wm c0 hw" "0 \<le> i" "i < 6"
    "val_addr (reg32 (conf_of wm c0 s (bdf dev)) (bar_reg i)) (reg32 (conf_of wm c0 s (bdf dev)) (bar_reg (i + 1))) \<noteq> INVALID_PHYS_ADDR"
    "val_is64 (reg32 (conf_of wm c0 s (bdf dev)) (bar_reg i)) \<Longrightarrow> i < 5"
  shows "\<exists>s'. read_bar_addr hw dev i s =
    Some (val_addr (reg32 (conf_of wm c0 s (bdf dev)) (bar_reg i)) (reg32 (conf_of wm c0 s (bdf dev)) (bar_reg (i + 1))), s') \<and> quiet wm c0 s s'"
proof -
  let ?c = "conf_of wm c0 s (bdf dev)" and ?r = "bar_reg i"
  obtain s1 where s1: "pci_bar_get hw dev i s = Some (reg32 ?c ?r, s1)" "quiet wm c0 s s1"
    using pci_bar_get_val[OF assms(1-3)] by blast
  obtain s2 where s2: "pci_bar_is64 hw dev i s1 = Some (val_is64 (reg32 ?c ?r), s2)" "quiet wm c0 s1 s2"
    using pci_bar_is64_val[OF assms(1-3), of dev s1] quiet_app[OF s1(2)] by auto
  have q2: "quiet wm c0 s s2" using quiet_trans[OF s1(2) s2(2)] .
  show ?thesis
  proof (cases "val_is64 (reg32 ?c ?r)")
    case True
    obtain s3 where s3: "pci_bar_get hw dev (i + 1) s2 = Some (reg32 ?c (bar_reg (i + 1)), s3)" "quiet wm c0 s2 s3"
      using pci_bar_get_val[OF assms(1), of "i + 1" dev s2] quiet_app[OF q2] assms(2) assms(5)[OF True] by auto
    show ?thesis using True s1(1) s2(1) s3(1) quiet_trans[OF q2 s3(2)] assms(4)
      by (simp add: read_bar_addr_def val_addr_def pci_translate_addr_def Let_def)
  next
    case False
    then show ?thesis using s1(1) s2(1) q2 assms(4)
      by (simp add: read_bar_addr_def val_addr_def pci_translate_addr_def Let_def)
  qed
qed

section \<open>Decoding a layout\<close>

lemma ucast_exp: "k \<le> 31 \<Longrightarrow> ucast (2 ^ k :: u32) = (2 ^ k :: u64)"
  by (rule bit_word_eqI) (auto simp: bit_simps)

lemma io_decodes:
  assumes "2 \<le> k" "k \<le> 31" "take_bit k (a::u32) = 0"
  shows "val_size (a OR 1) (push_bit k (NOT 0)) hi = 2 ^ k" "val_addr (a OR 1) hi' = ucast a" "\<not> val_is64 (a OR 1)"
proof -
  have a: "take_bit 1 a = 0" "take_bit 2 a = 0" by (rule take_bit_weaken[OF assms(3)], use assms(1) in simp)+
  have b: "(a OR 1) AND 1 = 1" using field_mask(2)[of 1 a 1 1] a by simp
  then show n: "\<not> val_is64 (a OR 1)" by (simp add: val_is64_def)
  have m: "pci_bar_mask (a OR 1) = NOT (mask 2)" using b by (simp add: pci_bar_mask_def PCI_BASE_ADDRESS_SPACE_IO_def)
  have "(a OR 1) OR push_bit k (NOT 0) \<noteq> 0" using b by (metis and_zero_eq or_eq_0_iff zero_neq_one and.commute)
  then show "val_size (a OR 1) (push_bit k (NOT 0)) hi = 2 ^ k"
    using n m size_mask[OF assms(3), of 2 1] assms(1,2) not_push_ones[of k, where 'a = 32]
    by (simp add: val_size_def ucast_exp)
  show "val_addr (a OR 1) hi' = ucast a" using n m field_mask(1)[of 2 a 1] a by (simp add: val_addr_def)
qed

lemma mem_value:
  assumes "take_bit 4 (a::u32) = 0" "f \<in> {0, 2, 8, 10, 4, 12}"
  shows "val_is64 (a OR f) \<longleftrightarrow> f \<in> {4, 12}" "pci_bar_mask (a OR f) = NOT (mask 4)" "(a OR f) AND NOT (mask 4) = a"
proof -
  have f: "take_bit 4 f = f" "f AND 1 = 0" using mem_flags[OF assms(2)] by auto
  have b: "(a OR f) AND 1 = 0" "(a OR f) AND 6 = f AND 6"
    using field_mask(2)[OF assms(1) f(1), of 1] field_mask(2)[OF assms(1) f(1), of 6] f(2) by simp_all
  then show "val_is64 (a OR f) \<longleftrightarrow> f \<in> {4, 12}" using assms(2) by (auto simp: val_is64_def)
  show "pci_bar_mask (a OR f) = NOT (mask 4)" using b(1) by (simp add: pci_bar_mask_def PCI_BASE_ADDRESS_SPACE_IO_def)
  show "(a OR f) AND NOT (mask 4) = a" by (rule field_mask(1)[OF assms(1) f(1)])
qed

lemma mem32_decodes:
  assumes "4 \<le> k" "k \<le> 31" "take_bit k (a::u32) = 0" "f \<in> {0, 2, 8, 10}"
  shows "val_size (a OR f) (push_bit k (NOT 0)) hi = 2 ^ k" "val_addr (a OR f) hi' = ucast a" "\<not> val_is64 (a OR f)"
proof -
  have a: "take_bit 4 a = 0" by (rule take_bit_weaken[OF assms(3,1)])
  have f: "f \<in> {0, 2, 8, 10, 4, 12}" using assms(4) by auto
  note v = mem_value[OF a f]
  show n: "\<not> val_is64 (a OR f)" using v(1) assms(4) by auto
  have sm: "((a OR f) OR push_bit k (NOT 0)) AND NOT (mask 4) = push_bit k (NOT 0)"
    by (rule size_mask[OF assms(3) _ assms(1)]) (use mem_flags[OF f] in simp)
  have p: "push_bit k (NOT 0) \<noteq> (0::u32)"
  proof
    assume "push_bit k (NOT 0) = (0::u32)"
    then have "bit (push_bit k (NOT 0) :: u32) k = bit (0::u32) k" by simp
    then show False using assms(2) by (simp add: bit_simps)
  qed
  then have "(a OR f) OR push_bit k (NOT 0) \<noteq> 0" using sm by (metis and_zero_eq and.commute)
  then show "val_size (a OR f) (push_bit k (NOT 0)) hi = 2 ^ k"
    using n v(2) sm assms(1,2) not_push_ones[of k, where 'a = 32] by (simp add: val_size_def ucast_exp)
  show "val_addr (a OR f) hi' = ucast a" using n v(2,3) by (simp add: val_addr_def)
qed

lemma mem64_decodes:
  assumes "4 \<le> k" "k \<le> 63" "take_bit k (a::u64) = 0" "f \<in> {4, 12}"
  shows "val_size (ucast a OR f) (ucast (push_bit k (NOT 0) :: u64))
      (ucast (drop_bit 32 a) OR ucast (drop_bit 32 (push_bit k (NOT 0) :: u64))) = 2 ^ k"
    "val_addr (ucast a OR f) (ucast (drop_bit 32 a)) = a" "val_is64 (ucast a OR f)"
proof -
  have "take_bit 4 a = 0" by (rule take_bit_weaken[OF assms(3,1)])
  then have a: "take_bit 4 (ucast a :: u32) = 0" by (metis take_bit_of_0 ucast_0 unsigned_take_bit_eq)
  have f: "f \<in> {0, 2, 8, 10, 4, 12}" using assms(4) by auto
  note v = mem_value[OF a f]
  show n: "val_is64 (ucast a OR f)" using v(1) assms(4) by auto
  show "val_addr (ucast a OR f) (ucast (drop_bit 32 a)) = a" using n v(2,3) halves[of a]
    by (simp add: val_addr_def or.commute)
  have ak: "bit a i \<Longrightarrow> k \<le> i" for i using assms(3) by (metis bit_0_eq bit_take_bit_iff bot_apply bot_bool_def not_le)
  have fb: "bit f i \<Longrightarrow> i < 4" for i using mem_flags[OF f] by (metis bit_take_bit_iff)
  have lo: "((ucast a OR f) OR ucast (push_bit k (NOT 0) :: u64)) AND NOT (mask 4) = (ucast (push_bit k (NOT 0) :: u64) :: u32)"
    by (rule bit_word_eqI) (use ak fb assms(1) in \<open>force simp: bit_simps\<close>)
  have hi: "(ucast (drop_bit 32 a) :: u32) OR ucast (drop_bit 32 (push_bit k (NOT 0) :: u64)) = ucast (drop_bit 32 (push_bit k (NOT 0) :: u64))"
    by (rule bit_word_eqI) (use ak in \<open>force simp: bit_simps\<close>)
  have nz: "(ucast a OR f) OR ucast (push_bit k (NOT 0) :: u64) \<noteq> 0"
    using assms(4) by (auto simp: or_eq_0_iff)
  show "val_size (ucast a OR f) (ucast (push_bit k (NOT 0) :: u64))
      (ucast (drop_bit 32 a) OR ucast (drop_bit 32 (push_bit k (NOT 0) :: u64))) = 2 ^ k"
    unfolding val_size_def hi v(2) lo halves using n nz not_push_ones[of k, where 'a = 64] by simp
qed

lemma exp_nonzero: "k \<le> 63 \<Longrightarrow> (2 ^ k :: u64) \<noteq> 0"
proof
  assume k: "k \<le> 63" and "(2 ^ k :: u64) = 0"
  then have "bit (2 ^ k :: u64) k = bit (0::u64) k" by simp
  then show False using k by (simp add: bit_simps)
qed

lemma aligned_valid: "take_bit k (a::u64) = 0 \<Longrightarrow> 1 \<le> k \<Longrightarrow> a \<noteq> INVALID_PHYS_ADDR"
  by (auto simp: INVALID_PHYS_ADDR_def)

lemma bar_at_decodes:
  assumes "bar_at c w i b"
  shows "val_size (reg32 c (bar_reg (int i))) (reg32 w (bar_reg (int i)))
      (reg32 c (bar_reg (int i + 1)) OR reg32 w (bar_reg (int i + 1))) = bar_bytes b"
    "b \<noteq> NoBar \<Longrightarrow> val_addr (reg32 c (bar_reg (int i))) (reg32 c (bar_reg (int i + 1))) = bar_address b"
    "b \<noteq> NoBar \<Longrightarrow> val_is64 (reg32 c (bar_reg (int i))) \<longleftrightarrow> bar_slots b = 2"
    "bar_bytes b = 0 \<longleftrightarrow> b = NoBar" "b \<noteq> NoBar \<Longrightarrow> bar_address b \<noteq> INVALID_PHYS_ADDR"
proof -
  have "val_size (reg32 c (bar_reg (int i))) (reg32 w (bar_reg (int i)))
      (reg32 c (bar_reg (int i + 1)) OR reg32 w (bar_reg (int i + 1))) = bar_bytes b \<and>
    (b \<noteq> NoBar \<longrightarrow> val_addr (reg32 c (bar_reg (int i))) (reg32 c (bar_reg (int i + 1))) = bar_address b \<and>
      (val_is64 (reg32 c (bar_reg (int i))) \<longleftrightarrow> bar_slots b = 2) \<and> bar_address b \<noteq> INVALID_PHYS_ADDR) \<and>
    (bar_bytes b = 0 \<longleftrightarrow> b = NoBar)"
  proof (cases b)
    case NoBar
    then show ?thesis using assms by (simp add: val_size_def)
  next
    case (IoBar k a)
    have "take_bit 1 (ucast a :: u64) = 0"
      using assms IoBar take_bit_weaken[of k a 1] by (simp add: unsigned_take_bit_eq[symmetric])
    then show ?thesis using assms IoBar io_decodes[of k a] exp_nonzero[of k] aligned_valid[of 1 "ucast a"] by simp
  next
    case (Mem32 f k a)
    have "take_bit 1 (ucast a :: u64) = 0"
      using assms Mem32 take_bit_weaken[of k a 1] by (simp add: unsigned_take_bit_eq[symmetric])
    then show ?thesis using assms Mem32 mem32_decodes[of k a f] exp_nonzero[of k] aligned_valid[of 1 "ucast a"] by simp
  next
    case (Mem64 f k a)
    then show ?thesis using assms mem64_decodes[of k a f] exp_nonzero[of k] aligned_valid[of k a] by simp
  qed
  then show "val_size (reg32 c (bar_reg (int i))) (reg32 w (bar_reg (int i)))
      (reg32 c (bar_reg (int i + 1)) OR reg32 w (bar_reg (int i + 1))) = bar_bytes b"
    "b \<noteq> NoBar \<Longrightarrow> val_addr (reg32 c (bar_reg (int i))) (reg32 c (bar_reg (int i + 1))) = bar_address b"
    "b \<noteq> NoBar \<Longrightarrow> val_is64 (reg32 c (bar_reg (int i))) \<longleftrightarrow> bar_slots b = 2"
    "bar_bytes b = 0 \<longleftrightarrow> b = NoBar" "b \<noteq> NoBar \<Longrightarrow> bar_address b \<noteq> INVALID_PHYS_ADDR"
    by blast+
qed

lemma layout_bound: "layout_at c w i bs \<Longrightarrow> i \<le> 6"
  by (induction bs arbitrary: i) (auto dest: add_leD1)

lemma update_at: "i = length xs \<Longrightarrow> (xs @ y # ys)[i := z] = xs @ z # ys"
  by simp

text \<open>The loop over the slots, entered with the slots below \<open>i\<close> done.\<close>

lemma dev_init_loop_layout:
  assumes "pci_host wm c0 hw"
  shows "layout_at (conf_of wm c0 s (bdf dev)) (wm (bdf dev)) i bs \<Longrightarrow> resource dev = rs @ replicate (6 - i) 0 \<Longrightarrow> length rs = i \<Longrightarrow>
    \<exists>s'. dev_init_loop hw (int i) dev s = Some (dev\<lparr>resource := rs @ layout_resources bs\<rparr>, s') \<and> quiet wm c0 s s'"
proof (induction bs arbitrary: i rs dev s)
  case Nil
  then have "dev\<lparr>resource := rs\<rparr> = dev" by simp
  then show ?case using Nil by (subst dev_init_loop.simps) (simp add: PCI_BAR_NUM_def layout_resources_def)
next
  case (Cons b bs)
  let ?c = "conf_of wm c0 s (bdf dev)" and ?w = "wm (bdf dev)"
  have b: "bar_at ?c ?w i b" and l: "layout_at ?c ?w (i + bar_slots b) bs" using Cons.prems(1) by auto
  note d = bar_at_decodes[OF b]
  have i: "i + bar_slots b \<le> 6" using layout_bound[OF l] .
  then have i6: "i < 6" by (cases b) auto
  obtain s1 where s1: "pci_bar_size hw dev (int i) s = Some (bar_bytes b, s1)" "quiet wm c0 s s1"
    using pci_bar_size_val[OF assms, of "int i" dev s] i6 d(1) by auto
  have k: "6 - i = Suc (6 - Suc i)" using i6 by simp
  show ?case
  proof (cases "b = NoBar")
    case True
    let ?dev = "dev\<lparr>resource := (rs @ [INVALID_PHYS_ADDR]) @ replicate (6 - Suc i) 0\<rparr>"
    have set: "set_resource (int i) INVALID_PHYS_ADDR dev = Some ?dev"
      using i6 Cons.prems(2,3) k by (simp add: set_resource_def PCI_BAR_NUM_def list_update_append)
    obtain s2 where s2: "dev_init_loop hw (int (Suc i)) ?dev s1 =
        Some (?dev\<lparr>resource := (rs @ [INVALID_PHYS_ADDR]) @ layout_resources bs\<rparr>, s2)" "quiet wm c0 s1 s2"
      using Cons.IH[of s1 ?dev "Suc i" "rs @ [INVALID_PHYS_ADDR]"] l True quiet_app[OF s1(2)] Cons.prems(3) by auto
    show ?thesis using True s1(1) set s2 quiet_trans[OF s1(2) s2(2)] i6
      by (subst dev_init_loop.simps) (simp add: PCI_BAR_NUM_def layout_resources_def add.commute)
  next
    case False
    let ?a = "bar_address b"
    obtain s2 where s2: "read_bar_addr hw dev (int i) s1 = Some (?a, s2)" "quiet wm c0 s1 s2"
      using read_bar_addr_val[OF assms, of "int i" s1 dev] quiet_app[OF s1(2)] d(2,3,5) False i i6 by auto
    have q2: "quiet wm c0 s s2" using quiet_trans[OF s1(2) s2(2)] .
    let ?dev = "dev\<lparr>resource := (rs @ [?a]) @ replicate (6 - Suc i) 0\<rparr>"
    have set: "set_resource (int i) ?a dev = Some ?dev"
      using i6 Cons.prems(2,3) k by (simp add: set_resource_def PCI_BAR_NUM_def list_update_append)
    obtain s3 where s3: "pci_bar_is64 hw ?dev (int i) s2 = Some (bar_slots b = 2, s3)" "quiet wm c0 s2 s3"
      using pci_bar_is64_val[OF assms, of "int i" ?dev s2] quiet_app[OF q2] d(3) False i6 by auto
    have q3: "quiet wm c0 s s3" using quiet_trans[OF q2 s3(2)] .
    show ?thesis
    proof (cases "bar_slots b = 2")
      case two: True
      let ?dev2 = "dev\<lparr>resource := (rs @ [?a, ?a]) @ replicate (6 - (i + 2)) 0\<rparr>"
      have "6 - Suc i = Suc (6 - (i + 2))" using i two by simp
      then have set2: "get_resource ?dev (int i) = Some ?a" "set_resource (int i + 1) ?a ?dev = Some ?dev2"
        using i two Cons.prems(3) by (simp_all add: get_resource_def set_resource_def PCI_BAR_NUM_def nth_append list_update_append nat_add_distrib)
      obtain s4 where s4: "dev_init_loop hw (int (i + 2)) ?dev2 s3 =
          Some (?dev2\<lparr>resource := (rs @ [?a, ?a]) @ layout_resources bs\<rparr>, s4)" "quiet wm c0 s3 s4"
        using Cons.IH[of s3 ?dev2 "i + 2" "rs @ [?a, ?a]"] l two quiet_app[OF q3] Cons.prems(3) by auto
      have bb: "bar_bytes b \<noteq> 0" using d(4) False by simp
      show ?thesis using two bb s1(1) s2(1) set s3(1) set2 s4 quiet_trans[OF q3 s4(2)] i i6
        by (subst dev_init_loop.simps) (simp add: PCI_BAR_NUM_def layout_resources_def add.commute numeral_2_eq_2)
    next
      case one: False
      then have o: "bar_slots b = 1" by (cases b) auto
      obtain s4 where s4: "dev_init_loop hw (int (Suc i)) ?dev s3 =
          Some (?dev\<lparr>resource := (rs @ [?a]) @ layout_resources bs\<rparr>, s4)" "quiet wm c0 s3 s4"
        using Cons.IH[of s3 ?dev "Suc i" "rs @ [?a]"] l o quiet_app[OF q3] Cons.prems(3) by auto
      have bb: "bar_bytes b \<noteq> 0" using d(4) False by simp
      show ?thesis using o bb s1(1) s2(1) set s3(1) s4 quiet_trans[OF q3 s4(2)] i6
        by (subst dev_init_loop.simps) (simp add: PCI_BAR_NUM_def layout_resources_def add.commute)
    qed
  qed
qed

text \<open>C34: initialising a device finds its regions. For every layout of the six base address registers,
  \<^verbatim>\<open>pci_dev_init\<close> returns; \<^verbatim>\<open>resource\<close> then holds the address of the region in each of its slots and the invalid
  address in a slot without one, and every device's configuration space is as it was: the probing writes
  are undone. \<^verbatim>\<open>pci_bar_size\<close> of a slot is the size of the region there.\<close>

theorem pci_dev_init_decodes:
  assumes "pci_host wm c0 hw" "layout_at (conf_of wm c0 s b) (wm b) 0 bars"
  shows "(\<exists>s'. pci_dev_init hw b s = Some (\<lparr>bdf = b, msi_offset = 0, resource = layout_resources bars\<rparr>, s') \<and> quiet wm c0 s s') \<and>
    (\<forall>dev i bar. bdf dev = b \<and> i < 6 \<and> bar_at (conf_of wm c0 s b) (wm b) i bar \<longrightarrow>
      (\<exists>s'. pci_bar_size hw dev (int i) s = Some (bar_bytes bar, s') \<and> quiet wm c0 s s'))"
proof (intro conjI allI impI)
  let ?dev = "\<lparr>bdf = b, msi_offset = 0, resource = replicate 6 0\<rparr>"
  show "\<exists>s'. pci_dev_init hw b s = Some (\<lparr>bdf = b, msi_offset = 0, resource = layout_resources bars\<rparr>, s') \<and> quiet wm c0 s s'"
    using dev_init_loop_layout[OF assms(1), of s ?dev 0 bars "[]"] assms(2) by (simp add: pci_dev_init_def)
  fix dev :: pci_dev and i bar
  assume "bdf dev = b \<and> i < 6 \<and> bar_at (conf_of wm c0 s b) (wm b) i bar"
  then show "\<exists>s'. pci_bar_size hw dev (int i) s = Some (bar_bytes bar, s') \<and> quiet wm c0 s s'"
    using pci_bar_size_val[OF assms(1), of "int i" dev s] bar_at_decodes(1) by auto
qed

section \<open>Capabilities\<close>

text \<open>A capability list from an offset on: pairs of offset and identifier, linked by the next byte.\<close>

fun caps_at :: "conf \<Rightarrow> u8 \<Rightarrow> (u8 \<times> u8) list \<Rightarrow> bool" where
  "caps_at c off [] \<longleftrightarrow> off = 0"
| "caps_at c off ((o1, cap) # cs) \<longleftrightarrow> off = o1 \<and> o1 \<noteq> 0 \<and> c o1 = cap \<and> cap \<le> 0x14 \<and> caps_at c (c (o1 + 1)) cs"

lemma caps_at_unique: "caps_at c off cs \<Longrightarrow> caps_at c off ds \<Longrightarrow> cs = ds"
proof (induction cs arbitrary: off ds)
  case Nil then show ?case by (cases ds) auto
next
  case (Cons x cs) then show ?case by (cases x; cases ds) auto
qed

lemma caps_at_suffix: "caps_at c off (xs @ (o1, cap) # ys) \<Longrightarrow> caps_at c o1 ((o1, cap) # ys)"
  by (induction xs arbitrary: off) auto

lemma caps_at_distinct: "caps_at c off cs \<Longrightarrow> distinct (map fst cs)"
proof (induction cs arbitrary: off)
  case (Cons x cs)
  obtain o1 a where x: "x = (o1, a)" by (cases x)
  have "o1 \<notin> fst ` set cs"
  proof
    assume "o1 \<in> fst ` set cs"
    then obtain b where "(o1, b) \<in> set cs" by auto
    then obtain as ds where cs: "cs = as @ (o1, b) # ds" using split_list by metis
    have d: "caps_at c o1 ((o1, b) # ds)"
      by (rule caps_at_suffix[of c off "(o1, a) # as"]) (use Cons.prems x cs in simp)
    have "caps_at c o1 (x # cs)" using Cons.prems x by simp
    from caps_at_unique[OF d this] have "(o1, b) # ds = x # cs" .
    then have "length ((o1, b) # ds) = length (x # cs)" by (rule arg_cong)
    then show False using cs by simp
  qed
  then show ?case using Cons x by auto
qed simp

lemma caps_at_length: "caps_at c off cs \<Longrightarrow> length cs \<le> 255"
proof -
  assume l: "caps_at c off cs"
  have "0 \<notin> set (map fst cs)" using l by (induction cs arbitrary: off) force+
  then have "set (map fst cs) \<subseteq> UNIV - {0}" by auto
  then have "card (set (map fst cs)) \<le> card (UNIV - {0::u8})" by (intro card_mono) auto
  also have "\<dots> = 255" by (simp add: card_Diff_singleton card_word)
  finally show ?thesis using distinct_card[OF caps_at_distinct[OF l]] by simp
qed

text \<open>A walk applies the handler to every capability in order, for a handler that keeps the device address
  and does not write to the bus.\<close>

fun visit :: "(pci_dev \<Rightarrow> u8 \<Rightarrow> u8 \<Rightarrow> pci_dev) \<Rightarrow> (u8 \<times> u8) list \<Rightarrow> pci_dev \<Rightarrow> pci_dev" where
  "visit h [] dev = dev"
| "visit h ((o1, cap) # cs) dev = visit h cs (h dev o1 cap)"

lemma cap_walk_loop_visits:
  assumes "pci_host wm c0 hw"
    and h: "\<And>dev o1 cap s. \<exists>s'. handler dev o1 cap s = Some (h dev o1 cap, s') \<and> quiet wm c0 s s'" "\<And>dev o1 cap. bdf (h dev o1 cap) = bdf dev"
  shows "caps_at (conf_of wm c0 s (bdf dev)) off cs \<Longrightarrow> count + length cs \<le> 255 \<Longrightarrow>
    \<exists>s'. cap_walk_loop hw handler count off dev s = Some (visit h cs dev, s') \<and> quiet wm c0 s s'"
proof (induction cs arbitrary: count off dev s)
  case Nil
  then show ?case by (subst cap_walk_loop.simps) simp
next
  case (Cons x cs)
  obtain o1 cap where x: "x = (o1, cap)" by (cases x)
  let ?c = "conf_of wm c0 s (bdf dev)"
  have c: "off \<noteq> 0" "?c off = cap" "cap \<le> 0x14" "o1 = off" "caps_at ?c (?c (off + 1)) cs" using Cons.prems(1) x by auto
  obtain s1 where s1: "pci_config_readb hw (bdf dev) off s = (cap, s1)" "quiet wm c0 s s1"
    using pci_config_read(1)[OF assms(1), of "bdf dev" off s] c(2) by auto
  obtain s2 where s2: "handler dev off cap s1 = Some (h dev off cap, s2)" "quiet wm c0 s1 s2" using h(1) by blast
  have q2: "quiet wm c0 s s2" using quiet_trans[OF s1(2) s2(2)] .
  obtain s3 where s3: "pci_config_readb hw (bdf dev) (off + 1) s2 = (?c (off + 1), s3)" "quiet wm c0 s2 s3"
    using pci_config_read(1)[OF assms(1), of "bdf dev" "off + 1" s2] quiet_app[OF q2] by auto
  have q3: "quiet wm c0 s s3" using quiet_trans[OF q2 s3(2)] .
  obtain s4 where s4: "cap_walk_loop hw handler (Suc count) (?c (off + 1)) (h dev off cap) s3 = Some (visit h cs (h dev off cap), s4)" "quiet wm c0 s3 s4"
    using Cons.IH[of s3 "h dev off cap" "?c (off + 1)" "Suc count"] c(5) Cons.prems(2) quiet_app[OF q3] h(2) by auto
  have lt: "cap < PCI_CAP_ID_MAX + 1" using c(3) by (simp add: c_defs word_le_nat_alt word_less_nat_alt)
  show ?case using c(1,4) x s1(1) s2(1) s3(1) s4 quiet_trans[OF q3 s4(2)] Cons.prems(2) h(2) lt
    by (subst cap_walk_loop.simps) simp
qed

text \<open>What \<^verbatim>\<open>pci_cap_setup\<close> leaves in \<^verbatim>\<open>msi_offset\<close>: the offset of the last MSI capability of the list.\<close>

definition last_msi :: "u16 \<Rightarrow> (u8 \<times> u8) list \<Rightarrow> u16" where
  "last_msi old cs = (case filter (\<lambda>x. snd x = PCI_CAP_ID_MSI) cs of [] \<Rightarrow> old | ms \<Rightarrow> ucast (fst (List.last ms)))"

lemma visit_setup:
  "visit (\<lambda>dev o1 cap. if cap = PCI_CAP_ID_MSI then dev\<lparr>msi_offset := ucast o1\<rparr> else dev) cs dev =
     dev\<lparr>msi_offset := last_msi (msi_offset dev) cs\<rparr>"
  by (induction cs arbitrary: dev) (auto simp: last_msi_def split: list.splits)

lemma two_Suc: "(2::nat) = Suc (Suc 0)"
  by simp

lemma put2_other: "x \<noteq> r \<Longrightarrow> x \<noteq> r + 1 \<Longrightarrow> put_bytes 2 wm r v c x = c x"
  by (simp only: two_Suc put_bytes.simps) simp

lemma put2_cong:
  "ucast v = (ucast v' :: u8) \<Longrightarrow> ucast (drop_bit 8 v) = (ucast (drop_bit 8 v') :: u8) \<Longrightarrow> put_bytes 2 wm r v c = put_bytes 2 wm r v' c"
  by (simp only: two_Suc put_bytes.simps)

lemma caps_at_put:
  assumes "caps_at c off cs" "\<forall>(o1, cap) \<in> set cs. o1 \<notin> {r - 1, r, r + 1}"
  shows "caps_at (put_bytes 2 wm r v c) off cs"
  using assms
proof (induction cs arbitrary: off)
  case (Cons x cs)
  obtain o1 cap where x: "x = (o1, cap)" by (cases x)
  have "o1 \<noteq> r" "o1 \<noteq> r + 1" "o1 + 1 \<noteq> r" "o1 + 1 \<noteq> r + 1" using Cons.prems(2) x by (auto simp: eq_diff_eq)
  then show ?case using Cons x by (simp add: put2_other del: put_bytes.simps)
qed simp

text \<open>C35: enabling a device. With a capability list that ends and lies outside the command register,
  \<^verbatim>\<open>pci_enable_defaults\<close> returns (any such list is short enough for the bound on the walk), records the offset of
  the MSI capability, and of all configuration space changes only the command register, in which bus
  mastering is set as far as it is writable.\<close>

theorem pci_enable_defaults_correct:
  assumes "pci_host wm c0 hw" "caps_at (conf_of wm c0 s (bdf dev)) (conf_of wm c0 s (bdf dev) PCI_CAPABILITY_LIST) cs"
    "\<forall>(o1, cap) \<in> set cs. o1 \<notin> {3, 4, 5}"
  shows "\<exists>s'. pci_enable_defaults hw dev s = Some (dev\<lparr>msi_offset := last_msi (msi_offset dev) cs\<rparr>, s') \<and>
    conf_of wm c0 s' = (conf_of wm c0 s)(bdf dev :=
      put_bytes 2 (wm (bdf dev)) PCI_COMMAND (get_bytes 2 (conf_of wm c0 s (bdf dev)) PCI_COMMAND OR 4) (conf_of wm c0 s (bdf dev)))"
proof -
  let ?d = "bdf dev" and ?c = "conf_of wm c0 s (bdf dev)"
  let ?h = "\<lambda>dev o1 cap. if cap = PCI_CAP_ID_MSI then dev\<lparr>msi_offset := ucast o1\<rparr> else dev"
  obtain s1 where s1: "pci_config_readw hw ?d PCI_COMMAND s = (ucast (get_bytes 2 ?c PCI_COMMAND), s1)" "quiet wm c0 s s1"
    using pci_config_read(2)[OF assms(1)] by blast
  let ?v = "ucast (get_bytes 2 ?c PCI_COMMAND) OR PCI_COMMAND_MASTER :: u16"
  let ?s2 = "pci_config_writew ?d PCI_COMMAND ?v s1"
  have cmd: "pci_cmd_set_clr hw dev PCI_COMMAND_MASTER 0 s = Some ?s2" using s1(1) by (simp add: pci_cmd_set_clr_def)
  have v: "put_bytes 2 w r (ucast ?v) c = put_bytes 2 w r (get_bytes 2 ?c PCI_COMMAND OR 4) c" for w r c
  proof -
    have "\<not> bit (4::u16) (8 + n)" "\<not> bit (4::u32) (8 + n)" for n
      using bit_exp_iff[of 2 "8 + n", where 'a = "u16"] bit_exp_iff[of 2 "8 + n", where 'a = "u32"] by simp_all
    then have "ucast (ucast ?v :: u32) = (ucast (get_bytes 2 ?c PCI_COMMAND OR 4) :: u8)"
      "ucast (drop_bit 8 (ucast ?v :: u32)) = (ucast (drop_bit 8 (get_bytes 2 ?c PCI_COMMAND OR 4)) :: u8)"
      unfolding PCI_COMMAND_MASTER_def by - (rule bit_word_eqI; simp add: bit_simps)+
    then show ?thesis by (rule put2_cong)
  qed
  have c2: "conf_of wm c0 ?s2 = (conf_of wm c0 s)(?d := put_bytes 2 (wm ?d) PCI_COMMAND (get_bytes 2 ?c PCI_COMMAND OR 4) ?c)"
    unfolding pci_config_write(5) v quiet_conf[OF s1(2)] ..
  obtain s3 where s3: "pci_config_readb hw ?d PCI_CAPABILITY_LIST ?s2 = (?c PCI_CAPABILITY_LIST, s3)" "quiet wm c0 ?s2 s3"
  proof -
    have "conf_of wm c0 ?s2 ?d PCI_CAPABILITY_LIST = ?c PCI_CAPABILITY_LIST"
      unfolding c2 fun_upd_same by (rule put2_other) (simp_all add: c_defs)
    then show ?thesis using that pci_config_read(1)[OF assms(1), of ?d PCI_CAPABILITY_LIST ?s2] by auto
  qed
  have "caps_at (conf_of wm c0 s3 ?d) (?c PCI_CAPABILITY_LIST) cs"
    unfolding quiet_conf[OF s3(2)] c2 fun_upd_same
    by (rule caps_at_put[OF assms(2)]) (use assms(3) in \<open>simp add: PCI_COMMAND_def\<close>)
  note l3 = this
  have hs: "\<exists>s'. pci_cap_setup dev o1 cap s = Some (?h dev o1 cap, s') \<and> quiet wm c0 s s'" for dev o1 cap and s :: "'a cpu_state_scheme"
    by (simp add: pci_cap_setup_def)
  have hb: "bdf (?h dev o1 cap) = bdf dev" for dev :: pci_dev and o1 cap by simp
  obtain s4 where s4: "cap_walk_loop hw pci_cap_setup 0 (?c PCI_CAPABILITY_LIST) dev s3 = Some (visit ?h cs dev, s4)" "quiet wm c0 s3 s4"
    using cap_walk_loop_visits[where handler = pci_cap_setup and h = ?h, OF assms(1) hs hb l3, of 0] caps_at_length[OF assms(2)] by auto
  have "pci_enable_defaults hw dev s = Some (dev\<lparr>msi_offset := last_msi (msi_offset dev) cs\<rparr>, s4)"
    using cmd s3(1) s4(1) by (simp add: pci_enable_defaults_def pci_cap_walk_def visit_setup)
  then show ?thesis using c2 quiet_conf[OF s3(2)] quiet_conf[OF s4(2)] by auto
qed

section \<open>Looking for a device\<close>

definition has_id :: "space \<Rightarrow> u16 \<Rightarrow> u16 \<Rightarrow> nat \<Rightarrow> bool" where
  "has_id c vendor_id device_id n \<longleftrightarrow>
     ucast (get_bytes 2 (c (of_nat n)) PCI_VENDOR_ID) = vendor_id \<and> ucast (get_bytes 2 (c (of_nat n)) PCI_DEVICE_ID) = device_id"

text \<open>\<^verbatim>\<open>pci_find_dev\<close> returns the first device of bus 0 with the vendor and device asked for, the invalid address
  when there is none, and changes no device.\<close>

theorem pci_find_dev_first:
  assumes "pci_host wm c0 hw"
  shows "\<exists>s'. pci_find_dev hw vendor_id device_id s =
      (case find (has_id (conf_of wm c0 s) vendor_id device_id) [0..<256] of Some n \<Rightarrow> of_nat n | None \<Rightarrow> 0xffff, s') \<and>
    quiet wm c0 s s'"
proof -
  have "\<exists>s'. find_dev_loop hw vendor_id device_id ns s =
      (case find (has_id (conf_of wm c0 s) vendor_id device_id) ns of Some n \<Rightarrow> of_nat n | None \<Rightarrow> 0xffff, s') \<and> quiet wm c0 s s'" for ns
  proof (induction ns arbitrary: s)
    case (Cons n ns)
    obtain s1 where s1: "pci_config_readw hw (of_nat n) PCI_VENDOR_ID s = (ucast (get_bytes 2 (conf_of wm c0 s (of_nat n)) PCI_VENDOR_ID), s1)"
        "quiet wm c0 s s1" using pci_config_read(2)[OF assms] by blast
    obtain s2 where s2: "pci_config_readw hw (of_nat n) PCI_DEVICE_ID s1 = (ucast (get_bytes 2 (conf_of wm c0 s (of_nat n)) PCI_DEVICE_ID), s2)"
        "quiet wm c0 s1 s2" using pci_config_read(2)[OF assms, of "of_nat n" PCI_DEVICE_ID s1] quiet_conf[OF s1(2)] by auto
    have q2: "quiet wm c0 s s2" using quiet_trans[OF s1(2) s2(2)] .
    obtain s3 where s3: "find_dev_loop hw vendor_id device_id ns s1 =
        (case find (has_id (conf_of wm c0 s) vendor_id device_id) ns of Some n \<Rightarrow> of_nat n | None \<Rightarrow> 0xffff, s3)" "quiet wm c0 s1 s3"
      using Cons.IH[of s1] quiet_conf[OF s1(2)] by auto
    obtain s4 where s4: "find_dev_loop hw vendor_id device_id ns s2 =
        (case find (has_id (conf_of wm c0 s) vendor_id device_id) ns of Some n \<Rightarrow> of_nat n | None \<Rightarrow> 0xffff, s4)" "quiet wm c0 s2 s4"
      using Cons.IH[of s2] quiet_conf[OF q2] by auto
    show ?case
      using s1(1) s2(1) s3(1) s4(1) q2 quiet_trans[OF s1(2) s3(2)] quiet_trans[OF q2 s4(2)]
      by (simp add: has_id_def[of _ _ _ n] del: get_bytes.simps)
  qed (simp add: PCIDEVADDR_INVALID_def)
  then show ?thesis by (simp add: pci_find_dev_def PCI_DEVFN_MAX_def)
qed

section \<open>A machine with a device\<close>

text \<open>One device, at address 24: ports at 0xc000, 4 KiB of prefetchable memory at 0xfebf1000, 64 bytes of 64-bit
  memory above 4 GiB, an MSI capability at 0x40 behind a power management capability at 0x50.\<close>

definition edu_conf :: conf where
  "edu_conf r =
     (if r = 0 then 0x34 else if r = 1 then 0x12 else if r = 2 then 0xe8 else if r = 3 then 0x11
      else if r = 0x10 then 0x01 else if r = 0x11 then 0xc0
      else if r = 0x14 then 0x08 else if r = 0x15 then 0x10 else if r = 0x16 then 0xbf else if r = 0x17 then 0xfe
      else if r = 0x18 then 0x44 else if r = 0x1c then 0x01
      else if r = 0x34 then 0x50 else if r = 0x50 then 0x01 else if r = 0x51 then 0x40 else if r = 0x40 then 0x05
      else 0)"

definition edu_mask :: conf where
  "edu_mask r =
     (if r = 4 then 7 else if r = 0x10 then 0xe0 else if r \<in> {0x11, 0x12, 0x13} then 0xff
      else if r = 0x15 then 0xf0 else if r \<in> {0x16, 0x17} then 0xff
      else if r = 0x18 then 0xc0 else if r \<in> {0x19, 0x1a, 0x1b, 0x1c, 0x1d, 0x1e, 0x1f} then 0xff else 0)"

definition one_dev :: "conf \<Rightarrow> u8 \<Rightarrow> space" where
  "one_dev c e d r = (if d = 24 then c r else e)"

definition edu_bars :: "bar list" where
  "edu_bars = [IoBar 5 0xc000, Mem32 8 12 0xfebf1000, Mem64 4 6 0x100000040, NoBar, NoBar]"

lemma edu_layout: "layout_at edu_conf edu_mask 0 edu_bars"
  by code_simp

lemma conf_of_start: "trace s = [] \<Longrightarrow> conf_of wm c0 s = c0"
  by (simp add: conf_of_def host_at_def)

theorem pci_dev_init_decodes_witness:
  "\<exists>s'. pci_dev_init (pci_hw (one_dev edu_mask 0) (one_dev edu_conf 0xff)) 24 vmx0 =
    Some (\<lparr>bdf = 24, msi_offset = 0, resource = [0xc000, 0xfebf1000, 0x100000040, 0x100000040, INVALID_PHYS_ADDR, INVALID_PHYS_ADDR]\<rparr>, s') \<and>
    conf_of (one_dev edu_mask 0) (one_dev edu_conf 0xff) s' = one_dev edu_conf 0xff"
proof -
  let ?w = "one_dev edu_mask 0" and ?c = "one_dev edu_conf 0xff"
  have c: "conf_of ?w ?c vmx0 = ?c" by (rule conf_of_start) (simp add: vmx0_def)
  have l: "layout_at (conf_of ?w ?c vmx0 24) (?w 24) 0 edu_bars"
    using edu_layout unfolding c by (simp add: one_dev_def[abs_def])
  have r: "layout_resources edu_bars = [0xc000, 0xfebf1000, 0x100000040, 0x100000040, INVALID_PHYS_ADDR, INVALID_PHYS_ADDR]"
    by code_simp
  obtain s' where s': "pci_dev_init (pci_hw ?w ?c) 24 vmx0 = Some (\<lparr>bdf = 24, msi_offset = 0, resource = layout_resources edu_bars\<rparr>, s')"
      "quiet ?w ?c vmx0 s'"
    using pci_dev_init_decodes[OF pci_hw_host l] by blast
  show ?thesis using s'(1) quiet_conf[OF s'(2)] c unfolding r by auto
qed

theorem pci_enable_defaults_correct_witness:
  "\<exists>s'. pci_enable_defaults (pci_hw (one_dev edu_mask 0) (one_dev edu_conf 0xff)) \<lparr>bdf = 24, msi_offset = 0, resource = []\<rparr> vmx0 =
    Some (\<lparr>bdf = 24, msi_offset = 0x40, resource = []\<rparr>, s') \<and>
    conf_of (one_dev edu_mask 0) (one_dev edu_conf 0xff) s' 24 4 = 4"
proof -
  let ?w = "one_dev edu_mask 0" and ?c = "one_dev edu_conf 0xff"
  have c: "conf_of ?w ?c vmx0 = ?c" by (rule conf_of_start) (simp add: vmx0_def)
  have l: "caps_at (?c 24) (?c 24 PCI_CAPABILITY_LIST) [(0x50, 0x01), (0x40, 0x05)]" "last_msi 0 [(0x50, 0x01), (0x40, 0x05)] = 0x40"
    "put_bytes 2 (?w 24) PCI_COMMAND (get_bytes 2 (?c 24) PCI_COMMAND OR 4) (?c 24) 4 = 4"
    by code_simp+
  show ?thesis
    using pci_enable_defaults_correct[OF pci_hw_host[of ?w ?c], of vmx0 "\<lparr>bdf = 24, msi_offset = 0, resource = []\<rparr>" "[(0x50, 0x01), (0x40, 0x05)]"] l
    unfolding c by (auto simp del: get_bytes.simps put_bytes.simps)
qed

theorem pci_find_dev_first_witness:
  "\<exists>s'. pci_find_dev (pci_hw (one_dev edu_mask 0) (one_dev edu_conf 0xff)) 0x1234 0x11e8 vmx0 = (24, s')"
proof -
  let ?w = "one_dev edu_mask 0" and ?c = "one_dev edu_conf 0xff"
  have c: "conf_of ?w ?c vmx0 = ?c" by (rule conf_of_start) (simp add: vmx0_def)
  have f: "find (has_id ?c 0x1234 0x11e8) [0..<256] = Some 24" by code_simp
  show ?thesis using pci_find_dev_first[where hw = "pci_hw ?w ?c" and wm = ?w and ?c0.0 = ?c and vendor_id = "0x1234" and device_id = "0x11e8" and s = vmx0, OF pci_hw_host] f unfolding c by auto
qed

end
