(* ===== verification/Apic.thy ===== *)
theory Apic
  imports Vmalloc
begin

text \<open>
  \<^verbatim>\<open>lib/x86/apic.c\<close>: the local APIC behind a table of operations (memory-mapped or by model-specific registers)
  and the I/O APIC with its index and data registers. The pointer \<^verbatim>\<open>apic_ops\<close> is a field of the state.
\<close>

section \<open>Constants and state\<close>

definition APIC_EXTD :: u64 where [c_defs]: "APIC_EXTD = push_bit 10 1"
definition APIC_EN :: u64 where [c_defs]: "APIC_EN = push_bit 11 1"
definition APIC_ID :: u32 where [c_defs]: "APIC_ID = 0x20"
definition APIC_EOI :: u32 where [c_defs]: "APIC_EOI = 0xB0"
definition APIC_ICR :: u32 where [c_defs]: "APIC_ICR = 0x300"
definition APIC_INT_ASSERT :: u32 where [c_defs]: "APIC_INT_ASSERT = 0x04000"
definition APIC_ICR_BUSY :: u32 where [c_defs]: "APIC_ICR_BUSY = 0x01000"
definition APIC_DEST_PHYSICAL :: u32 where [c_defs]: "APIC_DEST_PHYSICAL = 0x00000"
definition APIC_DM_FIXED :: u32 where [c_defs]: "APIC_DM_FIXED = 0x00000"
definition APIC_ICR2 :: u32 where [c_defs]: "APIC_ICR2 = 0x310"
definition APIC_BASE_MSR :: u32 where [c_defs]: "APIC_BASE_MSR = 0x800"
definition MSR_IA32_APICBASE :: u32 where [c_defs]: "MSR_IA32_APICBASE = 0x0000001b"
definition g_apic :: u64 where [c_defs]: "g_apic = 0xfee00000"
definition g_ioapic :: u64 where [c_defs]: "g_ioapic = 0xfec00000"

record 's apic_ops =
  reg_read :: "u32 \<Rightarrow> 's \<Rightarrow> u32 \<times> 's"
  reg_write :: "u32 \<Rightarrow> u32 \<Rightarrow> 's \<Rightarrow> 's"
  icr_write :: "u32 \<Rightarrow> u32 \<Rightarrow> 's \<Rightarrow> 's option"
  ops_id :: "'s \<Rightarrow> u32 \<times> 's"

datatype apic_ops_ptr = XapicOps | X2apicOps

record apic_state = vm_state +
  apic_ops_sel :: apic_ops_ptr
  cr8 :: u64

section \<open>The two sets of operations\<close>

definition xapic_read :: "hw \<Rightarrow> u32 \<Rightarrow> 'a cpu_state_scheme \<Rightarrow> u32 \<times> 'a cpu_state_scheme" where
  "xapic_read hw reg s = raw_readl hw (g_apic + ucast reg) s"

definition xapic_write :: "u32 \<Rightarrow> u32 \<Rightarrow> 'a cpu_state_scheme \<Rightarrow> 'a cpu_state_scheme" where
  "xapic_write reg val s = raw_writel val (g_apic + ucast reg) s"

text \<open>\<^verbatim>\<open>while (xapic_read(APIC_ICR) & APIC_ICR_BUSY);\<close>\<close>

partial_function (option) xapic_wait :: "hw \<Rightarrow> 'a cpu_state_scheme \<Rightarrow> 'a cpu_state_scheme option" where
  "xapic_wait hw s =
     (let (v, s) = xapic_read hw APIC_ICR s
      in if v AND APIC_ICR_BUSY \<noteq> 0 then xapic_wait hw s else Some s)"

definition xapic_icr_write :: "hw \<Rightarrow> u32 \<Rightarrow> u32 \<Rightarrow> 'a cpu_state_scheme \<Rightarrow> 'a cpu_state_scheme option" where
  "xapic_icr_write hw val dest s = do {
     s \<leftarrow> xapic_wait hw s;
     let s = xapic_write APIC_ICR2 (push_bit 24 dest) s;
     Some (xapic_write APIC_ICR val s) }"

definition xapic_id :: "hw \<Rightarrow> 'a cpu_state_scheme \<Rightarrow> u32 \<times> 'a cpu_state_scheme" where
  "xapic_id hw s = (let (v, s) = xapic_read hw APIC_ID s in (drop_bit 24 v, s))"

definition xapic_ops :: "hw \<Rightarrow> 'a cpu_state_scheme apic_ops" where
  "xapic_ops hw = \<lparr>reg_read = xapic_read hw, reg_write = xapic_write, icr_write = xapic_icr_write hw, ops_id = xapic_id hw\<rparr>"

definition x2apic_read :: "hw \<Rightarrow> u32 \<Rightarrow> 'a cpu_state_scheme \<Rightarrow> u32 \<times> 'a cpu_state_scheme" where
  "x2apic_read hw reg s = map_prod ucast id (rdmsr hw (APIC_BASE_MSR + reg div 16) s)"

definition x2apic_write :: "u32 \<Rightarrow> u32 \<Rightarrow> 'a cpu_state_scheme \<Rightarrow> 'a cpu_state_scheme" where
  "x2apic_write reg val s = wrmsr (APIC_BASE_MSR + reg div 16) (ucast val) s"

definition x2apic_icr_write :: "u32 \<Rightarrow> u32 \<Rightarrow> 'a cpu_state_scheme \<Rightarrow> 'a cpu_state_scheme option" where
  "x2apic_icr_write val dest s =
     Some (wrmsr (APIC_BASE_MSR + APIC_ICR div 16) (push_bit 32 (ucast dest) OR ucast val) s)"

definition x2apic_id :: "hw \<Rightarrow> 'a cpu_state_scheme \<Rightarrow> u32 \<times> 'a cpu_state_scheme" where
  "x2apic_id hw s = x2apic_read hw APIC_ID s"

definition x2apic_ops :: "hw \<Rightarrow> 'a cpu_state_scheme apic_ops" where
  "x2apic_ops hw = \<lparr>reg_read = x2apic_read hw, reg_write = x2apic_write, icr_write = x2apic_icr_write, ops_id = x2apic_id hw\<rparr>"

definition apic_ops_of :: "hw \<Rightarrow> 'a apic_state_scheme \<Rightarrow> 'a apic_state_scheme apic_ops" where
  "apic_ops_of hw s = (case apic_ops_sel s of XapicOps \<Rightarrow> xapic_ops hw | X2apicOps \<Rightarrow> x2apic_ops hw)"

definition apic_read :: "hw \<Rightarrow> u32 \<Rightarrow> 'a apic_state_scheme \<Rightarrow> u32 \<times> 'a apic_state_scheme" where
  "apic_read hw reg s = reg_read (apic_ops_of hw s) reg s"

definition apic_write :: "hw \<Rightarrow> u32 \<Rightarrow> u32 \<Rightarrow> 'a apic_state_scheme \<Rightarrow> 'a apic_state_scheme" where
  "apic_write hw reg val s = reg_write (apic_ops_of hw s) reg val s"

definition eoi :: "hw \<Rightarrow> 'a apic_state_scheme \<Rightarrow> 'a apic_state_scheme" where
  "eoi hw s = apic_write hw APIC_EOI 0 s"

definition apic_read_bit :: "hw \<Rightarrow> u32 \<Rightarrow> int \<Rightarrow> 'a apic_state_scheme \<Rightarrow> bool \<times> 'a apic_state_scheme" where
  "apic_read_bit hw reg n s =
     (let reg = reg + word_of_int (push_bit 4 (drop_bit 5 n));
          n = n AND 31;
          (v, s) = apic_read hw reg s
      in (v AND push_bit (nat n) 1 \<noteq> 0, s))"

definition apic_icr_write :: "hw \<Rightarrow> u32 \<Rightarrow> u32 \<Rightarrow> 'a apic_state_scheme \<Rightarrow> 'a apic_state_scheme option" where
  "apic_icr_write hw val dest s = icr_write (apic_ops_of hw s) val dest s"

definition apic_id :: "hw \<Rightarrow> 'a apic_state_scheme \<Rightarrow> u32 \<times> 'a apic_state_scheme" where
  "apic_id hw s = ops_id (apic_ops_of hw s) s"

definition apic_get_tpr :: "'a apic_state_scheme \<Rightarrow> u8" where
  "apic_get_tpr s = ucast (cr8 s)"

definition apic_set_tpr :: "u8 \<Rightarrow> 'a apic_state_scheme \<Rightarrow> 'a apic_state_scheme" where
  "apic_set_tpr tpr s = s\<lparr>cr8 := ucast tpr\<rparr>"

definition enable_x2apic :: "hw \<Rightarrow> cpuid_insn \<Rightarrow> 'a apic_state_scheme \<Rightarrow> u32 \<times> 'a apic_state_scheme" where
  "enable_x2apic hw ci s =
     (if cpuid_c (raw_cpuid ci 1 0) AND push_bit 21 1 \<noteq> 0 then
        let s = kprintf (''enabling x2apic'' @ NL) [] s;
            (v, s) = rdmsr hw MSR_IA32_APICBASE s;
            s = wrmsr MSR_IA32_APICBASE (v OR push_bit 10 1) s
        in (1, s\<lparr>apic_ops_sel := X2apicOps\<rparr>)
      else (0, s))"

definition disable_apic :: "hw \<Rightarrow> 'a apic_state_scheme \<Rightarrow> 'a apic_state_scheme" where
  "disable_apic hw s =
     (let (v, s) = rdmsr hw MSR_IA32_APICBASE s;
          s = wrmsr MSR_IA32_APICBASE (v AND NOT (APIC_EN OR APIC_EXTD)) s
      in s\<lparr>apic_ops_sel := XapicOps\<rparr>)"

definition reset_apic :: "hw \<Rightarrow> 'a apic_state_scheme \<Rightarrow> 'a apic_state_scheme" where
  "reset_apic hw s =
     (let s = disable_apic hw s;
          (v, s) = rdmsr hw MSR_IA32_APICBASE s
      in wrmsr MSR_IA32_APICBASE (v OR APIC_EN) s)"

definition enable_apic :: "'a cpu_state_scheme \<Rightarrow> 'a cpu_state_scheme" where
  "enable_apic s = xapic_write 0xf0 0x1ff (kprintf (''enabling apic'' @ NL) [] s)"

definition mask_pic_interrupts :: "'a cpu_state_scheme \<Rightarrow> 'a cpu_state_scheme" where
  "mask_pic_interrupts s = outb 0xff 0xa1 (outb 0xff 0x21 s)"

definition set_irq_line :: "u32 \<Rightarrow> u32 \<Rightarrow> 'a cpu_state_scheme \<Rightarrow> 'a cpu_state_scheme" where
  "set_irq_line line val s = outb (ucast val) (ucast (ucast (0x2000 + line) :: u16)) s"

section \<open>Helpers of apic.h\<close>

definition apic_reg_index :: "u32 \<Rightarrow> u32" where "apic_reg_index reg = drop_bit 2 reg"

definition x2apic_msr :: "u32 \<Rightarrow> u32" where "x2apic_msr reg = APIC_BASE_MSR + drop_bit 4 reg"

definition x2apic_reg_reserved :: "u32 \<Rightarrow> bool" where
  "x2apic_reg_reserved reg \<longleftrightarrow>
     0x000 \<le> reg \<and> reg \<le> 0x010 \<or> 0x040 \<le> reg \<and> reg \<le> 0x070 \<or> reg = 0x0c0 \<or> reg = 0x0e0 \<or>
     0x290 \<le> reg \<and> reg \<le> 0x2e0 \<or> reg = 0x310 \<or> 0x3a0 \<le> reg \<and> reg \<le> 0x3d0 \<or> reg = 0x3f0"

section \<open>The I/O APIC\<close>

datatype trigger_mode = TRIGGER_EDGE | TRIGGER_LEVEL | TRIGGER_MAX

definition trigger_num :: "trigger_mode \<Rightarrow> u32" where
  "trigger_num t = (case t of TRIGGER_EDGE \<Rightarrow> 0 | TRIGGER_LEVEL \<Rightarrow> 1 | TRIGGER_MAX \<Rightarrow> 2)"

text \<open>The bit fields of \<^verbatim>\<open>ioapic_redir_entry_t\<close>, lowest first.\<close>

record ioapic_redir_entry =
  re_vector :: u8
  re_delivery_mode :: "3 word"
  re_dest_mode :: "1 word"
  re_delivery_status :: "1 word"
  re_polarity :: "1 word"
  re_remote_irr :: "1 word"
  re_trig_mode :: "1 word"
  re_mask :: "1 word"
  re_reserve :: "7 word"
  re_reserved :: u32
  re_dest_id :: u8

text \<open>The entry as the two words \<^verbatim>\<open>((u32 *)&e)[0]\<close> and \<^verbatim>\<open>((u32 *)&e)[1]\<close>, and back.\<close>

definition redir_lo :: "ioapic_redir_entry \<Rightarrow> u32" where
  "redir_lo e = ucast (re_vector e) OR push_bit 8 (ucast (re_delivery_mode e)) OR push_bit 11 (ucast (re_dest_mode e)) OR
     push_bit 12 (ucast (re_delivery_status e)) OR push_bit 13 (ucast (re_polarity e)) OR push_bit 14 (ucast (re_remote_irr e)) OR
     push_bit 15 (ucast (re_trig_mode e)) OR push_bit 16 (ucast (re_mask e)) OR push_bit 17 (ucast (re_reserve e)) OR
     push_bit 24 (ucast (re_reserved e))"

definition redir_hi :: "ioapic_redir_entry \<Rightarrow> u32" where
  "redir_hi e = drop_bit 8 (re_reserved e) OR push_bit 24 (ucast (re_dest_id e))"

definition redir_of :: "u32 \<Rightarrow> u32 \<Rightarrow> ioapic_redir_entry" where
  "redir_of lo hi =
     \<lparr>re_vector = ucast lo, re_delivery_mode = ucast (drop_bit 8 lo), re_dest_mode = ucast (drop_bit 11 lo),
      re_delivery_status = ucast (drop_bit 12 lo), re_polarity = ucast (drop_bit 13 lo), re_remote_irr = ucast (drop_bit 14 lo),
      re_trig_mode = ucast (drop_bit 15 lo), re_mask = ucast (drop_bit 16 lo), re_reserve = ucast (drop_bit 17 lo),
      re_reserved = drop_bit 24 lo OR push_bit 8 (ucast (ucast hi :: 24 word)), re_dest_id = ucast (drop_bit 24 hi)\<rparr>"

definition ioapic_read_reg :: "hw \<Rightarrow> u32 \<Rightarrow> 'a cpu_state_scheme \<Rightarrow> u32 \<times> 'a cpu_state_scheme" where
  "ioapic_read_reg hw reg s = raw_readl hw (g_ioapic + 0x10) (raw_writel reg g_ioapic s)"

definition ioapic_write_reg :: "u32 \<Rightarrow> u32 \<Rightarrow> 'a cpu_state_scheme \<Rightarrow> 'a cpu_state_scheme" where
  "ioapic_write_reg reg v s = raw_writel v (g_ioapic + 0x10) (raw_writel reg g_ioapic s)"

definition ioapic_write_redir :: "u32 \<Rightarrow> ioapic_redir_entry \<Rightarrow> 'a cpu_state_scheme \<Rightarrow> 'a cpu_state_scheme" where
  "ioapic_write_redir line e s =
     ioapic_write_reg (0x10 + line * 2 + 1) (redir_hi e) (ioapic_write_reg (0x10 + line * 2 + 0) (redir_lo e) s)"

definition ioapic_read_redir :: "hw \<Rightarrow> u32 \<Rightarrow> 'a cpu_state_scheme \<Rightarrow> ioapic_redir_entry \<times> 'a cpu_state_scheme" where
  "ioapic_read_redir hw line s =
     (let (lo, s) = ioapic_read_reg hw (0x10 + line * 2 + 0) s;
          (hi, s) = ioapic_read_reg hw (0x10 + line * 2 + 1) s
      in (redir_of lo hi, s))"

definition ioapic_set_redir :: "u32 \<Rightarrow> u32 \<Rightarrow> trigger_mode \<Rightarrow> 'a cpu_state_scheme \<Rightarrow> 'a cpu_state_scheme" where
  "ioapic_set_redir line vec trig_mode s =
     ioapic_write_redir line
       \<lparr>re_vector = ucast vec, re_delivery_mode = 0, re_dest_mode = 0, re_delivery_status = 0, re_polarity = 0,
        re_remote_irr = 0, re_trig_mode = ucast (trigger_num trig_mode), re_mask = 0, re_reserve = 0, re_reserved = 0, re_dest_id = 0\<rparr> s"

definition set_mask :: "hw \<Rightarrow> u32 \<Rightarrow> u32 \<Rightarrow> 'a cpu_state_scheme \<Rightarrow> 'a cpu_state_scheme" where
  "set_mask hw line m s =
     (let (e, s) = ioapic_read_redir hw line s
      in ioapic_write_redir line (e\<lparr>re_mask := ucast m\<rparr>) s)"

end
