(* ===== verification/Apic_Props.thy ===== *)
theory Apic_Props
  imports Apic
begin

text \<open>
  The I/O APIC as a device with an index register and a data register, and what the redirection table operations do
  to it; sending an interrupt through the local APIC.
\<close>

section \<open>Entries and words\<close>

lemma word_bits: "bit (w::'a::len word) n \<Longrightarrow> n < LENGTH('a)"
  by (rule bit_imp_le_length)

text \<open>Changing the mask of an entry changes bit 16 of its lower word.\<close>

lemma mask_words:
  "redir_lo (redir_of lo hi\<lparr>re_mask := ucast (m::u32)\<rparr>) = (if odd m then set_bit 16 lo else unset_bit 16 lo)"
  "redir_hi (redir_of lo hi\<lparr>re_mask := ucast (m::u32)\<rparr>) = hi"
proof -
  have m: "bit m 0 \<longleftrightarrow> odd m" by (simp add: bit_0)
  show "redir_lo (redir_of lo hi\<lparr>re_mask := ucast m\<rparr>) = (if odd m then set_bit 16 lo else unset_bit 16 lo)"
  proof (rule bit_word_eqI)
    fix n assume "n < LENGTH(32)"
    then consider "n < 8" | "8 \<le> n" "n < 11" | "n = 11" | "n = 12" | "n = 13" | "n = 14" | "n = 15" | "n = 16"
      | "17 \<le> n" "n < 24" | "24 \<le> n" "n < 32" by (simp, linarith)
    then show "bit (redir_lo (redir_of lo hi\<lparr>re_mask := ucast m\<rparr>)) n = bit (if odd m then set_bit 16 lo else unset_bit 16 lo) n"
      by cases (auto simp: redir_lo_def redir_of_def bit_simps m)
  qed
  show "redir_hi (redir_of lo hi\<lparr>re_mask := ucast m\<rparr>) = hi"
    by (rule bit_word_eqI) (auto simp: redir_hi_def redir_of_def bit_simps dest: word_bits)
qed

section \<open>The device\<close>

text \<open>The index register selects one of 256 registers, the data register reads and writes it; a register has
  writable bits.\<close>

definition ioapic_step :: "(u8 \<Rightarrow> u32) \<Rightarrow> u8 \<times> (u8 \<Rightarrow> u32) \<Rightarrow> ioev \<Rightarrow> u8 \<times> (u8 \<Rightarrow> u32)" where
  "ioapic_step wm d e =
     (case e of
        MmioW n a v \<Rightarrow>
          if n = 4 \<and> a = g_ioapic then (ucast v, snd d)
          else if n = 4 \<and> a = g_ioapic + 0x10 then
            (fst d, (snd d)(fst d := (ucast v AND wm (fst d)) OR (snd d (fst d) AND NOT (wm (fst d)))))
          else d
      | _ \<Rightarrow> d)"

definition ioapic_at :: "(u8 \<Rightarrow> u32) \<Rightarrow> (u8 \<Rightarrow> u32) \<Rightarrow> ioev list \<Rightarrow> u8 \<times> (u8 \<Rightarrow> u32)" where
  "ioapic_at wm r0 tr = foldl (ioapic_step wm) (0, r0) tr"

definition ioapic_dev :: "(u8 \<Rightarrow> u32) \<Rightarrow> (u8 \<Rightarrow> u32) \<Rightarrow> hw \<Rightarrow> bool" where
  "ioapic_dev wm r0 hw \<longleftrightarrow> (\<forall>tr. hw tr (MmioR 4 (g_ioapic + 0x10)) = ucast (snd (ioapic_at wm r0 tr) (fst (ioapic_at wm r0 tr))))"

definition ioapic_regs :: "(u8 \<Rightarrow> u32) \<Rightarrow> (u8 \<Rightarrow> u32) \<Rightarrow> 'a cpu_state_scheme \<Rightarrow> u8 \<Rightarrow> u32" where
  "ioapic_regs wm r0 s = snd (ioapic_at wm r0 (trace s))"

lemma ioapic_read_reg_val:
  assumes "ioapic_dev wm r0 hw"
  shows "fst (ioapic_read_reg hw reg s) = ioapic_regs wm r0 s (ucast reg)"
    "ioapic_regs wm r0 (snd (ioapic_read_reg hw reg s)) = ioapic_regs wm r0 s"
proof -
  have a: "ioapic_at wm r0 (trace s @ [MmioW 4 g_ioapic (ucast reg)]) = (ucast reg, ioapic_regs wm r0 s)"
    by (simp add: ioapic_at_def ioapic_step_def ioapic_regs_def)
      (rule bit_word_eqI, simp add: bit_simps)
  have r: "hw (trace s @ [MmioW 4 g_ioapic (ucast reg)]) (MmioR 4 (g_ioapic + 0x10)) = ucast (ioapic_regs wm r0 s (ucast reg))"
    using assms[unfolded ioapic_dev_def, rule_format, of "trace s @ [MmioW 4 g_ioapic (ucast reg)]"] unfolding a by simp
  show "fst (ioapic_read_reg hw reg s) = ioapic_regs wm r0 s (ucast reg)"
    using r by (simp add: ioapic_read_reg_def raw_readl_def raw_writel_def hw_read_def hw_write_def)
  show "ioapic_regs wm r0 (snd (ioapic_read_reg hw reg s)) = ioapic_regs wm r0 s"
    by (simp add: ioapic_read_reg_def raw_readl_def raw_writel_def hw_read_def hw_write_def ioapic_regs_def ioapic_at_def ioapic_step_def)
qed

lemma ioapic_write_reg_regs:
  "ioapic_regs wm r0 (ioapic_write_reg reg v s) =
     (ioapic_regs wm r0 s)(ucast reg := (v AND wm (ucast reg)) OR (ioapic_regs wm r0 s (ucast reg) AND NOT (wm (ucast reg))))"
proof -
  have "ucast (ucast reg :: u64) = (ucast reg :: u8)" by (rule bit_word_eqI) (simp add: bit_simps)
  then show ?thesis
    by (simp add: ioapic_write_reg_def raw_writel_def hw_write_def ioapic_regs_def ioapic_at_def ioapic_step_def g_ioapic_def)
qed

text \<open>C40: \<^verbatim>\<open>set_mask\<close> on an I/O APIC changes the mask bit of the line's entry to the lowest bit of its argument and
  nothing else: no other bit of the entry, no other register of the device.\<close>

theorem set_mask_correct:
  assumes "ioapic_dev wm r0 hw" "bit (wm (ucast (0x10 + line * 2))) 16"
  shows "ioapic_regs wm r0 (set_mask hw line m s) =
    (ioapic_regs wm r0 s)(ucast (0x10 + line * 2) :=
      (if odd m then set_bit 16 (ioapic_regs wm r0 s (ucast (0x10 + line * 2))) else unset_bit 16 (ioapic_regs wm r0 s (ucast (0x10 + line * 2)))))"
proof -
  let ?r = "0x10 + line * 2" and ?g = "ioapic_regs wm r0 s"
  let ?lo = "?g (ucast ?r)" and ?hi = "?g (ucast (?r + 1))"
  have u: "ucast (?r + 1) \<noteq> (ucast ?r :: u8)"
  proof
    assume "ucast (?r + 1) = (ucast ?r :: u8)"
    then have "bit (ucast (?r + 1) :: u8) 0 = bit (ucast ?r :: u8) 0" by simp
    then show False by (simp only: bit_unsigned_iff) (simp add: bit_0)
  qed
  obtain s1 where s1: "ioapic_read_reg hw ?r s = (?lo, s1)" "ioapic_regs wm r0 s1 = ?g"
    using ioapic_read_reg_val[OF assms(1), of ?r s] by (metis prod.collapse)
  obtain s2 where s2: "ioapic_read_reg hw (?r + 1) s1 = (?hi, s2)" "ioapic_regs wm r0 s2 = ?g"
    using ioapic_read_reg_val[OF assms(1), of "?r + 1" s1] s1(2) by (metis prod.collapse)
  let ?new = "if odd m then set_bit 16 ?lo else unset_bit 16 ?lo"
  have n: "(?new AND wm (ucast ?r)) OR (?lo AND NOT (wm (ucast ?r))) = ?new"
    by (rule bit_word_eqI) (use assms(2) in \<open>auto simp: bit_simps\<close>)
  have h: "(?hi AND w) OR (?hi AND NOT w) = ?hi" for w
    by (rule bit_word_eqI) (auto simp: bit_simps)
  have "set_mask hw line m s = ioapic_write_reg (?r + 1) ?hi (ioapic_write_reg ?r ?new s2)"
    using s1(1) s2(1) by (simp add: set_mask_def ioapic_read_redir_def ioapic_write_redir_def mask_words)
  then show ?thesis
    by (simp only: ioapic_write_reg_regs s2(2) n) (auto simp: u[simplified] h[simplified] fun_eq_iff)
qed

section \<open>Sending an interrupt\<close>

text \<open>The delivery status of the local APIC clears within \<open>n\<close> reads, whatever happened before.\<close>

definition icr_ready :: "nat \<Rightarrow> hw \<Rightarrow> bool" where
  "icr_ready n hw \<longleftrightarrow> (\<forall>tr. \<exists>k < n. ucast (hw (tr @ replicate k (MmioR 4 (g_apic + 0x300))) (MmioR 4 (g_apic + 0x300))) AND APIC_ICR_BUSY = 0)"

lemma xapic_wait_step:
  "xapic_wait hw s =
     (if ucast (hw (trace s) (MmioR 4 (g_apic + 0x300))) AND APIC_ICR_BUSY = 0 then Some (s\<lparr>trace := trace s @ [MmioR 4 (g_apic + 0x300)]\<rparr>)
      else xapic_wait hw (s\<lparr>trace := trace s @ [MmioR 4 (g_apic + 0x300)]\<rparr>))"
  by (subst xapic_wait.simps) (simp add: xapic_read_def raw_readl_def hw_read_def APIC_ICR_def)

lemma xapic_wait_ends:
  assumes "ucast (hw (trace s @ replicate k (MmioR 4 (g_apic + 0x300))) (MmioR 4 (g_apic + 0x300))) AND APIC_ICR_BUSY = 0"
  shows "\<exists>j \<le> k. xapic_wait hw s = Some (s\<lparr>trace := trace s @ replicate (Suc j) (MmioR 4 (g_apic + 0x300))\<rparr>)"
  using assms
proof (induction k arbitrary: s)
  case 0
  then show ?case by (subst xapic_wait_step) simp
next
  case (Suc k)
  let ?e = "MmioR 4 (g_apic + 0x300)"
  show ?case
  proof (cases "ucast (hw (trace s) ?e) AND APIC_ICR_BUSY = 0")
    case True
    then show ?thesis by (subst xapic_wait_step) (intro exI[of _ 0], simp)
  next
    case False
    obtain j where "j \<le> k" "xapic_wait hw (s\<lparr>trace := trace s @ [?e]\<rparr>) = Some (s\<lparr>trace := trace s @ [?e] @ replicate (Suc j) ?e\<rparr>)"
      using Suc.IH[of "s\<lparr>trace := trace s @ [?e]\<rparr>"] Suc.prems by auto
    then show ?thesis using False by (subst xapic_wait_step) (intro exI[of _ "Suc j"], simp)
  qed
qed

text \<open>Sending an interrupt comes to an end and sends one. When the local APIC becomes ready, \<^verbatim>\<open>apic_icr_write\<close>
  returns in both modes; in the memory-mapped mode it reads the status fewer than \<open>n + 1\<close> times, then writes the
  destination and, last, the command; in the register mode one write carries both.\<close>

theorem apic_icr_write_sends:
  assumes "icr_ready n hw"
  shows "\<exists>k s'. k \<le> n \<and> apic_icr_write hw val dest s = Some s' \<and> s' = s\<lparr>trace := trace s @
    (case apic_ops_sel s of
       XapicOps \<Rightarrow> replicate k (MmioR 4 (g_apic + 0x300)) @ [MmioW 4 (g_apic + 0x310) (ucast (push_bit 24 dest)), MmioW 4 (g_apic + 0x300) (ucast val)]
     | X2apicOps \<Rightarrow> [MsrW 0x830 (push_bit 32 (ucast dest) OR ucast val)])\<rparr>"
proof (cases "apic_ops_sel s")
  case XapicOps
  obtain k where k: "k < n" "ucast (hw (trace s @ replicate k (MmioR 4 (g_apic + 0x300))) (MmioR 4 (g_apic + 0x300))) AND APIC_ICR_BUSY = 0"
    using assms unfolding icr_ready_def by blast
  obtain j where j: "j \<le> k" "xapic_wait hw s = Some (s\<lparr>trace := trace s @ replicate (Suc j) (MmioR 4 (g_apic + 0x300))\<rparr>)"
    using xapic_wait_ends[of hw s k] k(2) by blast
  show ?thesis
    by (rule exI[of _ "Suc j"])
      (use XapicOps j k in \<open>simp add: apic_icr_write_def apic_ops_of_def xapic_ops_def xapic_icr_write_def xapic_write_def raw_writel_def
        hw_write_def APIC_ICR_def APIC_ICR2_def del: replicate_Suc\<close>)
next
  case X2apicOps
  show ?thesis
    by (rule exI[of _ 0])
      (use X2apicOps in \<open>simp add: apic_icr_write_def apic_ops_of_def x2apic_ops_def x2apic_icr_write_def wrmsr_def hw_write_def
        APIC_ICR_def APIC_BASE_MSR_def\<close>)
qed

section \<open>A machine with both devices\<close>

definition apic_machine :: "apic_ops_ptr \<Rightarrow> apic_state" where
  "apic_machine p = vm_state.extend (vm_machine (give 3 pa0) 0 0 0) \<lparr>apic_ops_sel = p, cr8 = 0\<rparr>"

lemma apic_machine_fields [simp]: "apic_ops_sel (apic_machine p) = p" "trace (apic_machine p) = []"
  by (simp_all add: apic_machine_def vm_state.extend_def vm_machine_def phys_state.extend_def phys_machine_def vmx_state.extend_def vmx0_def)

definition ioapic_hw :: "(u8 \<Rightarrow> u32) \<Rightarrow> (u8 \<Rightarrow> u32) \<Rightarrow> hw" where
  "ioapic_hw wm r0 tr e =
     (if e = MmioR 4 (g_ioapic + 0x10) then ucast (snd (ioapic_at wm r0 tr) (fst (ioapic_at wm r0 tr)))
      else if even (length tr) then 0x1000 else 0)"

lemma ioapic_hw_dev: "ioapic_dev wm r0 (ioapic_hw wm r0)"
  by (simp add: ioapic_dev_def ioapic_hw_def)

lemma ioapic_hw_ready: "icr_ready 2 (ioapic_hw wm r0)"
  unfolding icr_ready_def
proof
  fix tr
  have "g_apic + 0x300 \<noteq> g_ioapic + 0x10" by (simp add: c_defs)
  then show "\<exists>k<2. ucast (ioapic_hw wm r0 (tr @ replicate k (MmioR 4 (g_apic + 0x300))) (MmioR 4 (g_apic + 0x300))) AND APIC_ICR_BUSY = 0"
    by (cases "even (length tr)") (rule exI[of _ 1], simp add: ioapic_hw_def, rule exI[of _ 0], simp add: ioapic_hw_def)
qed

theorem set_mask_correct_witness:
  "ioapic_regs (\<lambda>_. 0x1afff) (\<lambda>r. if r = 0x14 then 0x5031 else 0) (set_mask (ioapic_hw (\<lambda>_. 0x1afff) (\<lambda>r. if r = 0x14 then 0x5031 else 0)) 2 1 (apic_machine XapicOps)) 0x14
    = 0x15031"
proof -
  let ?w = "\<lambda>_::u8. 0x1afff :: u32" and ?r = "\<lambda>r::u8. if r = 0x14 then 0x5031 else (0::u32)"
  have b: "bit (?w (ucast (0x10 + (2::u32) * 2))) 16" "(ucast (0x10 + (2::u32) * 2) :: u8) = 0x14" "set_bit 16 (0x5031 :: u32) = 0x15031"
    by (simp_all add: set_bit_eq_or)
  have r: "ioapic_regs ?w ?r (apic_machine XapicOps) = ?r" by (simp add: ioapic_regs_def ioapic_at_def)
  show ?thesis using set_mask_correct[OF ioapic_hw_dev b(1), where m = 1 and ?r0.0 = ?r and s = "apic_machine XapicOps"] b(2,3)
    unfolding r by simp
qed

theorem apic_icr_write_sends_witness:
  "\<exists>s'. apic_icr_write (ioapic_hw (\<lambda>_. 0) (\<lambda>_. 0)) 0x4020 1 (apic_machine X2apicOps) = Some s' \<and> trace s' = [MsrW 0x830 0x100004020]"
  using apic_icr_write_sends[OF ioapic_hw_ready, of "\<lambda>_. 0" "\<lambda>_. 0" "0x4020" 1 "apic_machine X2apicOps"] by auto

end
