(* ===== verification/Stack.thy ===== *)
theory Stack
  imports Apic
begin

text \<open>
  \<^verbatim>\<open>lib/stack.c\<close> and \<^verbatim>\<open>lib/x86/stack.c\<close>: walking the frame pointers and printing the return addresses. An array of
  return addresses is the list of its entries up to \<^verbatim>\<open>depth\<close>; \<^verbatim>\<open>__builtin_frame_address(0)\<close> is an argument.
\<close>

definition MAX_DEPTH :: nat where [c_defs]: "MAX_DEPTH = 20"

record stack_state = apic_state +
  walking :: bool

fun print_addrs :: "u64 list \<Rightarrow> 'a mstate_scheme \<Rightarrow> 'a mstate_scheme" where
  "print_addrs [] s = s"
| "print_addrs (a # as) s = print_addrs as (kprintf '' %lx'' [PNum a] s)"

definition print_stack :: "u64 list \<Rightarrow> bool \<Rightarrow> 'a mstate_scheme \<Rightarrow> 'a mstate_scheme" where
  "print_stack return_addrs top_is_return_address s =
     (let s = kprintf (TAB @ ''STACK:'') [] s;
          (rest, s) = (case return_addrs of
              [] \<Rightarrow> ([], s)
            | a # as \<Rightarrow> if \<not> top_is_return_address then (as, kprintf '' @%lx'' [PNum a] s) else (return_addrs, s));
          s = print_addrs rest s
      in kprintf NL [] s)"

text \<open>The loop of \<^verbatim>\<open>backtrace_frame\<close>; the first argument is what is left of \<^verbatim>\<open>max_depth\<close>.\<close>

fun backtrace_loop :: "nat \<Rightarrow> mem \<Rightarrow> u64 \<Rightarrow> u64 list" where
  "backtrace_loop 0 m bp = []"
| "backtrace_loop (Suc n) m bp =
     (if bp = 0 then []
      else let r = ld64 m (bp + 8)
           in if r = 0 then [] else r # backtrace_loop n m (ld64 m bp))"

definition backtrace_frame :: "u64 \<Rightarrow> nat \<Rightarrow> 'a stack_state_scheme \<Rightarrow> u64 list \<times> 'a stack_state_scheme" where
  "backtrace_frame frame max_depth s =
     (if walking s then ([], kprintf (''RECURSIVE STACK WALK!!!'' @ NL) [] s)
      else
        let s = s\<lparr>walking := True\<rparr>;
            return_addrs = backtrace_loop max_depth (mem s) frame
        in (return_addrs, s\<lparr>walking := False\<rparr>))"

definition backtrace :: "u64 \<Rightarrow> nat \<Rightarrow> 'a stack_state_scheme \<Rightarrow> u64 list \<times> 'a stack_state_scheme" where
  "backtrace frame_address max_depth s = backtrace_frame frame_address max_depth s"

definition dump_stack :: "u64 \<Rightarrow> 'a stack_state_scheme \<Rightarrow> 'a stack_state_scheme" where
  "dump_stack frame_address s =
     (let (return_addrs, s) = backtrace frame_address MAX_DEPTH s
      in print_stack (drop 1 return_addrs) True s)"

definition dump_frame_stack :: "u64 \<Rightarrow> u64 \<Rightarrow> 'a stack_state_scheme \<Rightarrow> 'a stack_state_scheme" where
  "dump_frame_stack instruction frame s =
     (let (return_addrs, s) = backtrace_frame frame (MAX_DEPTH - 1) s
      in print_stack (instruction # return_addrs) False s)"

section \<open>What is printed\<close>

text \<open>A chain of frames in memory: each holds the next frame pointer and a return address; it ends at a null frame
  pointer or a null return address.\<close>

fun frames_at :: "mem \<Rightarrow> u64 \<Rightarrow> u64 list \<Rightarrow> bool" where
  "frames_at m bp [] \<longleftrightarrow> bp = 0 \<or> ld64 m (bp + 8) = 0"
| "frames_at m bp (r # rs) \<longleftrightarrow> bp \<noteq> 0 \<and> r \<noteq> 0 \<and> ld64 m (bp + 8) = r \<and> frames_at m (ld64 m bp) rs"

lemma backtrace_loop_frames: "frames_at m bp rs \<Longrightarrow> backtrace_loop n m bp = take n rs"
proof (induction rs arbitrary: n bp)
  case Nil
  then show ?case by (cases n) auto
next
  case (Cons r rs)
  then show ?case by (cases n) auto
qed

lemma print_addrs_console: "print_addrs as s = s\<lparr>console := console s @ map (\<lambda>a. ('' %lx'', [PNum a])) as\<rparr>"
  by (induction as arbitrary: s) (simp_all add: kprintf_def)

text \<open>A stack dump shows the calls. On a chain of frames \<^verbatim>\<open>dump_frame_stack\<close> prints the instruction marked as
  not a return address, then the return addresses from the innermost on, at most 19 of them, on one line, and
  changes nothing but the console.\<close>

theorem dump_frame_stack_shows:
  assumes "frames_at (mem s) frame rs" "\<not> walking s"
  shows "dump_frame_stack instruction frame s = s\<lparr>console := console s @
    [(TAB @ ''STACK:'', []), ('' @%lx'', [PNum instruction])] @ map (\<lambda>a. ('' %lx'', [PNum a])) (take 19 rs) @ [(NL, [])]\<rparr>"
  using assms(2) by (simp add: dump_frame_stack_def backtrace_frame_def backtrace_loop_frames[OF assms(1)] print_stack_def
    print_addrs_console kprintf_def MAX_DEPTH_def)

definition stack_machine :: "mem \<Rightarrow> stack_state" where
  "stack_machine m = apic_state.extend (vm_state.extend (vm_machine pa0 0 0 0) \<lparr>apic_ops_sel = XapicOps, cr8 = 0\<rparr>\<lparr>mem := m\<rparr>) \<lparr>walking = False\<rparr>"

definition frame_mem :: mem where
  "frame_mem a = (if a = 0x1001 then 0x20 else if a = 0x1009 then 0x55 else if a = 0x2008 then 0x66 else 0)"

theorem dump_frame_stack_shows_witness:
  "console (dump_frame_stack 0x1234 0x1000 (stack_machine frame_mem)) = console (stack_machine frame_mem) @
    [(TAB @ ''STACK:'', []), ('' @%lx'', [PNum 0x1234]), ('' %lx'', [PNum 0x5500]), ('' %lx'', [PNum 0x66]), (NL, [])]"
proof -
  have m: "mem (stack_machine frame_mem) = frame_mem" "\<not> walking (stack_machine frame_mem)"
    by (simp_all add: stack_machine_def apic_state.extend_def vm_state.extend_def)
  have "frames_at frame_mem 0x1000 [0x5500, 0x66]" by code_simp
  then show ?thesis using dump_frame_stack_shows[of "stack_machine frame_mem" "0x1000" "[0x5500, 0x66]" "0x1234"] m by simp
qed

end
