(* ===== verification/Desc.thy ===== *)
theory Desc
  imports Stack Vmx
begin

text \<open>
  \<^verbatim>\<open>lib/x86/desc.c\<close> and \<^verbatim>\<open>lib/x86/desc.h\<close> in the 64-bit build: the interrupt descriptor table, exception handlers, the table of
  fixups, entry stubs, and running a function that may fault. A handler is a code pointer: the handlers of the
  library by name, any other by its address. \<^verbatim>\<open>unhandled_exception\<close> ends in \<^verbatim>\<open>abort\<close>: its value is the state it
  stops in, and \<open>Inl\<close> marks such an end where a call may also return.
\<close>

section \<open>Data\<close>

record ex_regs =
  ex_rax :: u64
  ex_rcx :: u64
  ex_rdx :: u64
  ex_rbx :: u64
  ex_dummy :: u64
  ex_rbp :: u64
  ex_rsi :: u64
  ex_rdi :: u64
  ex_r8 :: u64
  ex_r9 :: u64
  ex_r10 :: u64
  ex_r11 :: u64
  ex_r12 :: u64
  ex_r13 :: u64
  ex_r14 :: u64
  ex_r15 :: u64
  ex_vector :: u64
  ex_error_code :: u64
  ex_rip :: u64
  ex_cs :: u64
  ex_rflags :: u64

text \<open>The bit fields of \<^verbatim>\<open>idt_entry_t\<close>.\<close>

record idt_entry =
  offset0 :: u16
  selector :: u16
  ist :: "3 word"
  idt_pad0 :: "5 word"
  idt_type :: "4 word"
  idt_pad1 :: "1 word"
  dpl :: "2 word"
  idt_p :: "1 word"
  offset1 :: u16
  offset2 :: u32
  idt_reserved :: u32

definition idt_zero :: idt_entry where
  "idt_zero = \<lparr>offset0 = 0, selector = 0, ist = 0, idt_pad0 = 0, idt_type = 0, idt_pad1 = 0, dpl = 0, idt_p = 0,
     offset1 = 0, offset2 = 0, idt_reserved = 0\<rparr>"

text \<open>The entry in memory: its low and high eight bytes.\<close>

definition idt_lo :: "idt_entry \<Rightarrow> u64" where
  "idt_lo e = ucast (offset0 e) OR push_bit 16 (ucast (selector e)) OR push_bit 32 (ucast (ist e)) OR push_bit 35 (ucast (idt_pad0 e)) OR
     push_bit 40 (ucast (idt_type e)) OR push_bit 44 (ucast (idt_pad1 e)) OR push_bit 45 (ucast (dpl e)) OR push_bit 47 (ucast (idt_p e)) OR
     push_bit 48 (ucast (offset1 e))"

definition idt_hi :: "idt_entry \<Rightarrow> u64" where
  "idt_hi e = ucast (offset2 e) OR push_bit 32 (ucast (idt_reserved e))"

datatype handler = CheckExceptionTable | ExceptionHandler | RestoreExecHandler | FaultTestFault | OtherHandler u64

record tss64 =
  ist1 :: u64

record desc_state = stack_state +
  boot_idt :: "idt_entry list"
  cs_reg :: u16
  gs_id :: u32
  gs_ex :: u32
  exception_handlers :: "handler option list"
  idt_initialized :: bool
  exception_flag :: bool
  exception_jmpbuf :: u64
  tss :: tss64

text \<open>What the linker and the handlers outside the library provide: the table of fixups between
  \<^verbatim>\<open>exception_table_start\<close> and \<^verbatim>\<open>exception_table_end\<close>, the addresses of the entry stubs, of \<^verbatim>\<open>exception_handler_longjmp\<close>,
  \<^verbatim>\<open>restore_exec_to_jmpbuf\<close> and the alternative stack, and the effect of other handlers.\<close>

record ex_record =
  er_rip :: u64
  er_handler :: u64

record 's desc_env =
  ex_table :: "ex_record list"
  fault_stub :: "nat \<Rightarrow> u64"
  longjmp_addr :: u64
  restore_addr :: u64
  alt_stack :: u64
  other_handler :: "u64 \<Rightarrow> ex_regs \<Rightarrow> 's \<Rightarrow> ex_regs \<times> 's"

section \<open>Descriptors\<close>

definition read_cs :: "'a desc_state_scheme \<Rightarrow> u16" where "read_cs s = cs_reg s"

definition idt_update :: "int \<Rightarrow> (idt_entry \<Rightarrow> idt_entry) \<Rightarrow> 'a desc_state_scheme \<Rightarrow> 'a desc_state_scheme option" where
  "idt_update vec f s =
     (if 0 \<le> vec \<and> nat vec < length (boot_idt s) then
        Some (s\<lparr>boot_idt := (boot_idt s)[nat vec := f (boot_idt s ! nat vec)]\<rparr>)
      else None)"

definition set_idt_entry :: "int \<Rightarrow> u64 \<Rightarrow> int \<Rightarrow> 'a desc_state_scheme \<Rightarrow> 'a desc_state_scheme option" where
  "set_idt_entry vec addr pl s =
     idt_update vec (\<lambda>_. idt_zero\<lparr>offset0 := ucast addr, selector := read_cs s, ist := 0, idt_type := 14, dpl := word_of_int pl,
       idt_p := 1, offset1 := ucast (drop_bit 16 addr), offset2 := ucast (drop_bit 32 addr)\<rparr>) s"

definition set_idt_dpl :: "int \<Rightarrow> u16 \<Rightarrow> 'a desc_state_scheme \<Rightarrow> 'a desc_state_scheme option" where
  "set_idt_dpl vec pl s = idt_update vec (\<lambda>e. e\<lparr>dpl := ucast pl\<rparr>) s"

definition set_idt_sel :: "int \<Rightarrow> u16 \<Rightarrow> 'a desc_state_scheme \<Rightarrow> 'a desc_state_scheme option" where
  "set_idt_sel vec sel s = idt_update vec (\<lambda>e. e\<lparr>selector := sel\<rparr>) s"

definition get_idt_addr :: "idt_entry \<Rightarrow> u64" where
  "get_idt_addr e = ucast (offset0 e) OR ucast (push_bit 16 (ucast (offset1 e)) :: u32) OR push_bit 32 (ucast (offset2 e))"

definition set_intr_alt_stack :: "int \<Rightarrow> u64 \<Rightarrow> 'a desc_state_scheme \<Rightarrow> 'a desc_state_scheme option" where
  "set_intr_alt_stack e addr s = do {
     s \<leftarrow> set_idt_entry e addr 0 s;
     idt_update e (\<lambda>d. d\<lparr>ist := 1\<rparr>) s }"

definition setup_alt_stack :: "'b desc_env \<Rightarrow> 'a desc_state_scheme \<Rightarrow> 'a desc_state_scheme" where
  "setup_alt_stack env s = s\<lparr>tss := (tss s)\<lparr>ist1 := alt_stack env + 4096\<rparr>\<rparr>"

section \<open>Exceptions\<close>

definition exception_mnemonic :: "u64 \<Rightarrow> string" where
  "exception_mnemonic vector =
     (if vector = 0 then ''#DE'' else if vector = 1 then ''#DB'' else if vector = 2 then ''#NMI'' else if vector = 3 then ''#BP''
      else if vector = 4 then ''#OF'' else if vector = 5 then ''#BR'' else if vector = 6 then ''#UD'' else if vector = 7 then ''#NM''
      else if vector = 8 then ''#DF'' else if vector = 10 then ''#TS'' else if vector = 11 then ''#NP'' else if vector = 12 then ''#SS''
      else if vector = 13 then ''#GP'' else if vector = 14 then ''#PF'' else if vector = 16 then ''#MF'' else if vector = 17 then ''#AC''
      else if vector = 18 then ''#MC'' else if vector = 19 then ''#XM'' else ''#??'')"

definition unhandled_exception :: "ex_regs \<Rightarrow> bool \<Rightarrow> 'a stack_state_scheme \<Rightarrow> 'a stack_state_scheme" where
  "unhandled_exception regs cpu s =
     (let s = kprintf (''Unhandled %sexception %ld %s at ip %016lx'' @ NL)
                [PStr (if cpu then ''cpu '' else ''''), PNum (ex_vector regs), PStr (exception_mnemonic (ucast (ucast (ex_vector regs) :: u32))),
                 PNum (ex_rip regs)] s;
          s = (if ex_vector regs = 14 then kprintf (''PF at %#lx addr %#lx'' @ NL) [PNum (ex_rip regs), PNum (read_cr2 s)] s else s);
          s = kprintf (''error_code=%04lx      rflags=%08lx      cs=%08lx'' @ NL @
                 ''rax=%016lx rcx=%016lx rdx=%016lx rbx=%016lx'' @ NL @ ''rbp=%016lx rsi=%016lx rdi=%016lx'' @ NL @
                 '' r8=%016lx  r9=%016lx r10=%016lx r11=%016lx'' @ NL @ ''r12=%016lx r13=%016lx r14=%016lx r15=%016lx'' @ NL @
                 ''cr0=%016lx cr2=%016lx cr3=%016lx cr4=%016lx'' @ NL @ ''cr8=%016lx'' @ NL)
                (map PNum [ex_error_code regs, ex_rflags regs, ex_cs regs, ex_rax regs, ex_rcx regs, ex_rdx regs, ex_rbx regs,
                  ex_rbp regs, ex_rsi regs, ex_rdi regs, ex_r8 regs, ex_r9 regs, ex_r10 regs, ex_r11 regs,
                  ex_r12 regs, ex_r13 regs, ex_r14 regs, ex_r15 regs, read_cr0 s, read_cr2 s, read_cr3 s, read_cr4 s, cr8 s]) s
      in dump_frame_stack (ex_rip regs) (ex_rbp regs) s)"

fun find_fixup :: "ex_record list \<Rightarrow> u64 \<Rightarrow> u64 option" where
  "find_fixup [] rip = None"
| "find_fixup (ex # table) rip = (if er_rip ex = rip then Some (er_handler ex) else find_fixup table rip)"

definition check_exception_table ::
  "ex_record list \<Rightarrow> ex_regs \<Rightarrow> 'a desc_state_scheme \<Rightarrow> 'a desc_state_scheme + (ex_regs \<times> 'a desc_state_scheme)" where
  "check_exception_table table regs s =
     (let ex_val = (ucast (ex_vector regs OR push_bit 16 (ex_error_code regs) OR
                     push_bit 8 (drop_bit 16 (ex_rflags regs) AND 1)) :: u32);
          s = s\<lparr>gs_ex := ex_val\<rparr>
      in case find_fixup table (ex_rip regs) of
           Some h \<Rightarrow> Inr (regs\<lparr>ex_rip := h\<rparr>, s)
         | None \<Rightarrow> Inl (unhandled_exception regs False s))"

text \<open>The table has 32 entries; the read of a larger index leaves the array.\<close>

definition handle_exception ::
  "u8 \<Rightarrow> handler option \<Rightarrow> 'a desc_state_scheme \<Rightarrow> (handler option \<times> 'a desc_state_scheme) option" where
  "handle_exception v fn s =
     (if unat v < length (exception_handlers s) then
        let old = exception_handlers s ! unat v
        in Some (old, if v < 32 then s\<lparr>exception_handlers := (exception_handlers s)[unat v := fn]\<rparr> else s)
      else None)"

definition exception_handler :: "'b desc_env \<Rightarrow> ex_regs \<Rightarrow> 'a desc_state_scheme \<Rightarrow> ex_regs \<times> 'a desc_state_scheme" where
  "exception_handler env regs s =
     (regs\<lparr>ex_rip := longjmp_addr env, ex_cs := ucast (read_cs s)\<rparr>, s\<lparr>exception_flag := True\<rparr>)"

text \<open>\<^verbatim>\<open>restore_exec_to_jmpbuf_exception_handler\<close> of \<^verbatim>\<open>lib/x86/usermode.c\<close> and \<^verbatim>\<open>fault_test_fault\<close> of \<^verbatim>\<open>lib/x86/fault_test.c\<close>.\<close>

definition restore_exec_handler :: "'b desc_env \<Rightarrow> ex_regs \<Rightarrow> ex_regs" where
  "restore_exec_handler env regs = regs\<lparr>ex_rip := restore_addr env, ex_cs := KERNEL_CS\<rparr>"

definition fault_test_fault :: "'b desc_env \<Rightarrow> ex_regs \<Rightarrow> ex_regs" where
  "fault_test_fault env regs = regs\<lparr>ex_rip := restore_addr env\<rparr>"

definition call_handler ::
  "'a desc_state_scheme desc_env \<Rightarrow> handler \<Rightarrow> ex_regs \<Rightarrow> 'a desc_state_scheme \<Rightarrow> 'a desc_state_scheme + (ex_regs \<times> 'a desc_state_scheme)" where
  "call_handler env h regs s =
     (case h of
        CheckExceptionTable \<Rightarrow> check_exception_table (ex_table env) regs s
      | ExceptionHandler \<Rightarrow> Inr (exception_handler env regs s)
      | RestoreExecHandler \<Rightarrow> Inr (restore_exec_handler env regs, s)
      | FaultTestFault \<Rightarrow> Inr (fault_test_fault env regs, s)
      | OtherHandler a \<Rightarrow> Inr (other_handler env a regs s))"

definition do_handle_exception ::
  "'a desc_state_scheme desc_env \<Rightarrow> ex_regs \<Rightarrow> 'a desc_state_scheme \<Rightarrow> 'a desc_state_scheme + (ex_regs \<times> 'a desc_state_scheme)" where
  "do_handle_exception env regs s =
     (if ex_vector regs < 32 then
        (case exception_handlers s ! unat (ex_vector regs) of
           Some h \<Rightarrow> call_handler env h regs s
         | None \<Rightarrow> Inl (unhandled_exception regs True s))
      else Inl (unhandled_exception regs True s))"

text \<open>The vectors with an entry stub: the indices of \<^verbatim>\<open>idt_handlers\<close> that are not null.\<close>

definition idt_handlers :: "'b desc_env \<Rightarrow> nat \<Rightarrow> u64 option" where
  "idt_handlers env i = (if i \<in> {0, 1, 2, 3, 4, 5, 6, 7, 8, 10, 11, 12, 13, 14, 16, 17, 18, 19} then Some (fault_stub env i) else None)"

fun set_idt_entries :: "'b desc_env \<Rightarrow> nat list \<Rightarrow> 'a desc_state_scheme \<Rightarrow> 'a desc_state_scheme option" where
  "set_idt_entries env [] s = Some s"
| "set_idt_entries env (i # is) s = do {
     s \<leftarrow> (case idt_handlers env i of Some a \<Rightarrow> set_idt_entry (int i) a 0 s | None \<Rightarrow> Some s);
     set_idt_entries env is s }"

definition setup_idt :: "'b desc_env \<Rightarrow> 'a desc_state_scheme \<Rightarrow> 'a desc_state_scheme option" where
  "setup_idt env s =
     (if idt_initialized s then Some s
      else do {
        let s = s\<lparr>idt_initialized := True\<rparr>;
        s \<leftarrow> set_idt_entries env [0..<32] s;
        (old, s) \<leftarrow> handle_exception 0 (Some CheckExceptionTable) s;
        (old, s) \<leftarrow> handle_exception 6 (Some CheckExceptionTable) s;
        (old, s) \<leftarrow> handle_exception 13 (Some CheckExceptionTable) s;
        Some s })"

definition exception_vector :: "'a desc_state_scheme \<Rightarrow> u32" where
  "exception_vector s = ucast (ucast (gs_ex s) :: u8)"

definition exception_error_code :: "'a desc_state_scheme \<Rightarrow> u32" where
  "exception_error_code s = ucast (ucast (drop_bit 16 (gs_ex s)) :: u16)"

definition exception_rflags_rf :: "'a desc_state_scheme \<Rightarrow> bool" where
  "exception_rflags_rf s \<longleftrightarrow> (ucast (drop_bit 8 (gs_ex s)) :: u8) AND 1 \<noteq> 0"

section \<open>Entry stubs\<close>

text \<open>What the processor and the stubs of \<^verbatim>\<open>EX\<close>, \<^verbatim>\<open>EX_E\<close> and \<^verbatim>\<open>__handle_exception\<close> push, in order, and the structure at the
  stack pointer then: the words last pushed first. An exception with an error code has it pushed by the
  processor.\<close>

definition stub_pushes :: "u64 option \<Rightarrow> u64 \<Rightarrow> ex_regs \<Rightarrow> u64 list" where
  "stub_pushes err vector r =
     [ex_rflags r, ex_cs r, ex_rip r] @ [case err of Some c \<Rightarrow> c | None \<Rightarrow> 0] @ [vector] @
     [ex_r15 r, ex_r14 r, ex_r13 r, ex_r12 r, ex_r11 r, ex_r10 r, ex_r9 r, ex_r8 r] @
     [ex_rdi r, ex_rsi r, ex_rbp r, ex_dummy r, ex_rbx r, ex_rdx r, ex_rcx r, ex_rax r]"

definition frame_regs :: "u64 list \<Rightarrow> ex_regs" where
  "frame_regs w =
     \<lparr>ex_rax = w ! 0, ex_rcx = w ! 1, ex_rdx = w ! 2, ex_rbx = w ! 3, ex_dummy = w ! 4, ex_rbp = w ! 5, ex_rsi = w ! 6,
      ex_rdi = w ! 7, ex_r8 = w ! 8, ex_r9 = w ! 9, ex_r10 = w ! 10, ex_r11 = w ! 11, ex_r12 = w ! 12, ex_r13 = w ! 13,
      ex_r14 = w ! 14, ex_r15 = w ! 15, ex_vector = w ! 16, ex_error_code = w ! 17, ex_rip = w ! 18, ex_cs = w ! 19, ex_rflags = w ! 20\<rparr>"

definition stub_entry :: "u64 option \<Rightarrow> u64 \<Rightarrow> ex_regs \<Rightarrow> ex_regs" where
  "stub_entry err vector r = frame_regs (List.rev (stub_pushes err vector r))"

section \<open>Running a function that may fault\<close>

text \<open>A function call as the exceptions it runs into: it returns, or raises an exception and goes on from the
  registers the handler leaves.\<close>

datatype 's fun_run = Returns 's | Raises ex_regs 's "ex_regs \<Rightarrow> 's \<Rightarrow> 's fun_run"

primrec run_guarded ::
  "'a desc_state_scheme desc_env \<Rightarrow> 'a desc_state_scheme fun_run \<Rightarrow> (bool \<times> 'a desc_state_scheme) option" where
  "run_guarded env (Returns s) = Some (False, s)"
| "run_guarded env (Raises regs s k) =
     (case do_handle_exception env regs s of
        Inl _ \<Rightarrow> None
      | Inr (regs', s') \<Rightarrow> if ex_rip regs' = longjmp_addr env then Some (True, s') else run_guarded env (k regs' s'))"

definition set_exception_jmpbuf_ptr :: "u64 \<Rightarrow> 'a desc_state_scheme \<Rightarrow> 'a desc_state_scheme" where
  "set_exception_jmpbuf_ptr addr s = s\<lparr>exception_jmpbuf := addr\<rparr>"

definition test_for_exception ::
  "'a desc_state_scheme desc_env \<Rightarrow> u64 \<Rightarrow> u32 \<Rightarrow> ('a desc_state_scheme \<Rightarrow> 'a desc_state_scheme fun_run) \<Rightarrow> 'a desc_state_scheme \<Rightarrow>
     (bool \<times> 'a desc_state_scheme) option" where
  "test_for_exception env jmpbuf ex trigger_func s = do {
     (old, s) \<leftarrow> handle_exception (ucast ex) (Some ExceptionHandler) s;
     (ret, s) \<leftarrow> run_guarded env (trigger_func (set_exception_jmpbuf_ptr jmpbuf s));
     (prev, s) \<leftarrow> handle_exception (ucast ex) old s;
     Some (ret, s) }"

end
