(* ===== verification/Desc_Props.thy ===== *)
theory Desc_Props
  imports Desc
begin

text \<open>
  Exceptions end where the library says they do: gates lead to their stubs, a stub hands the registers to the
  handler of its vector, a fixup resumes, and a function is tried with its handler in place.
\<close>

section \<open>Gates\<close>

text \<open>What the processor reads from the sixteen bytes of a gate.\<close>

definition gate_offset :: "u64 \<Rightarrow> u64 \<Rightarrow> u64" where
  "gate_offset lo hi = (lo AND 0xffff) OR (push_bit 16 (drop_bit 48 lo)) OR push_bit 32 hi"

definition gate_selector :: "u64 \<Rightarrow> u16" where "gate_selector lo = ucast (drop_bit 16 lo)"
definition gate_type :: "u64 \<Rightarrow> 4 word" where "gate_type lo = ucast (drop_bit 40 lo)"
definition gate_dpl :: "u64 \<Rightarrow> 2 word" where "gate_dpl lo = ucast (drop_bit 45 lo)"
definition gate_ist :: "u64 \<Rightarrow> 3 word" where "gate_ist lo = ucast (drop_bit 32 lo)"
definition gate_present :: "u64 \<Rightarrow> bool" where "gate_present lo \<longleftrightarrow> bit lo 47"

definition interrupt_gate :: "u64 \<Rightarrow> u16 \<Rightarrow> 2 word \<Rightarrow> idt_entry \<Rightarrow> bool" where
  "interrupt_gate addr cs pl e \<longleftrightarrow>
     gate_present (idt_lo e) \<and> gate_type (idt_lo e) = 14 \<and> gate_offset (idt_lo e) (idt_hi e) = addr \<and>
     gate_selector (idt_lo e) = cs \<and> gate_dpl (idt_lo e) = pl \<and> gate_ist (idt_lo e) = 0"

definition new_gate :: "u64 \<Rightarrow> u16 \<Rightarrow> 2 word \<Rightarrow> idt_entry" where
  "new_gate addr cs pl = idt_zero\<lparr>offset0 := ucast addr, selector := cs, ist := 0, idt_type := 14, dpl := pl,
       idt_p := 1, offset1 := ucast (drop_bit 16 addr), offset2 := ucast (drop_bit 32 addr)\<rparr>"

lemma short_bit: "bit (w::'a::len word) n \<Longrightarrow> n < LENGTH('a)"
  by (rule bit_imp_le_length)

lemma new_gate_lo:
  "idt_lo (new_gate addr cs pl) = ucast (ucast addr :: u16) OR push_bit 16 (ucast cs) OR push_bit 41 7 OR push_bit 45 (ucast pl) OR
     push_bit 47 1 OR push_bit 48 (ucast (ucast (drop_bit 16 addr) :: u16))"
  by (simp add: idt_lo_def new_gate_def idt_zero_def)

lemma new_gate_bit:
  "bit (idt_lo (new_gate addr cs pl)) n \<longleftrightarrow> n < 64 \<and>
     (if n < 16 then bit addr n else if n < 32 then bit cs (n - 16) else if n < 41 then False
      else if n < 44 then True else if n = 44 then False else if n < 47 then bit pl (n - 45) else if n = 47 then True
      else bit addr (n - 32))"
proof -
  have seven: "bit (7::u64) k \<longleftrightarrow> k < 3" for k
    using bit_mask_iff[of 3 k, where 'a = u64] by (simp add: mask_eq_exp_minus_1) auto
  show ?thesis
    unfolding new_gate_lo bit_or_iff bit_push_bit_iff bit_unsigned_iff bit_drop_bit_eq bit_1_iff seven possible_bit_word
    using short_bit[of cs "n - 16"] short_bit[of pl "n - 45"] short_bit[of addr n]
    by (auto simp: less_diff_conv2)
qed

lemma new_gate_interrupt: "interrupt_gate addr cs pl (new_gate addr cs pl)"
proof -
  have hi: "idt_hi (new_gate addr cs pl) = drop_bit 32 addr"
    by (simp add: idt_hi_def new_gate_def idt_zero_def) (rule bit_word_eqI, auto simp: bit_simps dest: short_bit)
  have "gate_present (idt_lo (new_gate addr cs pl))" by (simp add: gate_present_def new_gate_bit)
  moreover have "gate_type (idt_lo (new_gate addr cs pl)) = 14"
  proof (rule bit_word_eqI)
    fix n assume "n < LENGTH(4)"
    then have "n = 0 \<or> n = 1 \<or> n = 2 \<or> n = 3" by (simp, linarith)
    then show "bit (gate_type (idt_lo (new_gate addr cs pl))) n = bit (14 :: 4 word) n"
      by (elim disjE) (simp_all add: gate_type_def bit_unsigned_iff bit_drop_bit_eq new_gate_bit)
  qed
  moreover have "gate_selector (idt_lo (new_gate addr cs pl)) = cs" "gate_dpl (idt_lo (new_gate addr cs pl)) = pl"
    "gate_ist (idt_lo (new_gate addr cs pl)) = 0"
    by (rule bit_word_eqI; simp add: gate_selector_def gate_dpl_def gate_ist_def bit_unsigned_iff bit_drop_bit_eq new_gate_bit)+
  moreover have "gate_offset (idt_lo (new_gate addr cs pl)) (idt_hi (new_gate addr cs pl)) = addr"
  proof (rule bit_word_eqI)
    fix n assume "n < LENGTH(64)"
    then have n: "n < 64" by simp
    have m: "bit (0xffff :: u64) n \<longleftrightarrow> n < 16" using bit_mask_iff[of 16 n, where 'a = u64] by (simp add: mask_eq_exp_minus_1) auto
    show "bit (gate_offset (idt_lo (new_gate addr cs pl)) (idt_hi (new_gate addr cs pl))) n = bit addr n"
      unfolding gate_offset_def hi bit_or_iff bit_and_iff bit_push_bit_iff bit_drop_bit_eq new_gate_bit m possible_bit_word
      using n by (cases "n < 16"; cases "n < 32") auto
  qed
  ultimately show ?thesis by (simp add: interrupt_gate_def)
qed

lemma set_idt_entry_gate:
  "0 \<le> vec \<Longrightarrow> nat vec < length (boot_idt s) \<Longrightarrow>
     set_idt_entry vec addr pl s = Some (s\<lparr>boot_idt := (boot_idt s)[nat vec := new_gate addr (cs_reg s) (word_of_int pl)]\<rparr>)"
  by (simp add: set_idt_entry_def idt_update_def new_gate_def read_cs_def)

definition gates_of :: "'b desc_env \<Rightarrow> u16 \<Rightarrow> nat set \<Rightarrow> idt_entry list \<Rightarrow> nat \<Rightarrow> idt_entry" where
  "gates_of env cs I t0 i = (case idt_handlers env i of Some a \<Rightarrow> if i \<in> I then new_gate a cs 0 else t0 ! i | None \<Rightarrow> t0 ! i)"

lemma set_idt_entries_gates:
  "boot_idt s = t0 \<Longrightarrow> cs_reg s = cs \<Longrightarrow> \<forall>i \<in> set is. i < length t0 \<Longrightarrow>
     \<exists>t. set_idt_entries env is s = Some (s\<lparr>boot_idt := t\<rparr>) \<and> length t = length t0 \<and> (\<forall>i < length t0. t ! i = gates_of env cs (set is) t0 i)"
proof (induction "is" arbitrary: s t0)
  case Nil
  then show ?case by (intro exI[of _ t0]) (simp add: gates_of_def split: option.split)
next
  case (Cons i "is")
  let ?t1 = "case idt_handlers env i of Some a \<Rightarrow> t0[i := new_gate a cs 0] | None \<Rightarrow> t0"
  have 1: "(case idt_handlers env i of Some a \<Rightarrow> set_idt_entry (int i) a 0 s | None \<Rightarrow> Some s) = Some (s\<lparr>boot_idt := ?t1\<rparr>)"
    using Cons.prems by (cases "idt_handlers env i") (simp_all add: set_idt_entry_gate)
  have l: "length ?t1 = length t0" by (simp split: option.split)
  have s1: "boot_idt (s\<lparr>boot_idt := ?t1\<rparr>) = ?t1" "cs_reg (s\<lparr>boot_idt := ?t1\<rparr>) = cs" using Cons.prems(2) by simp_all
  obtain t where t: "set_idt_entries env is (s\<lparr>boot_idt := ?t1\<rparr>) = Some (s\<lparr>boot_idt := t\<rparr>)" "length t = length t0"
      "\<And>j. j < length t0 \<Longrightarrow> t ! j = gates_of env cs (set is) ?t1 j"
    using Cons.IH[OF s1] Cons.prems(3) l by auto
  have "t ! j = gates_of env cs (set (i # is)) t0 j" if "j < length t0" for j
    using t(3)[OF that] that
    by (cases "idt_handlers env i"; cases "idt_handlers env j"; cases "j = i") (auto simp: gates_of_def)
  then show ?case using 1 t by (intro exI[of _ t]) simp
qed

definition desc_ok :: "'a desc_state_scheme \<Rightarrow> bool" where
  "desc_ok s \<longleftrightarrow> length (boot_idt s) = 256 \<and> length (exception_handlers s) = 32"

text \<open>C36: \<^verbatim>\<open>setup_idt\<close> prepares the exceptions. On a table of 256 entries it returns; the entry of each of the eighteen
  vectors with a stub is then a present interrupt gate of the kernel code segment that leads to the stub, read
  the way the processor reads its sixteen bytes; all other entries are as before; the handlers of
  divide error, invalid opcode and general protection look up fixups; a second call changes nothing.\<close>

theorem setup_idt_installs:
  assumes "desc_ok s" "\<not> idt_initialized s"
  shows "\<exists>s'. setup_idt env s = Some s' \<and> desc_ok s' \<and> setup_idt env s' = Some s' \<and>
    (\<forall>i < 256. case idt_handlers env i of
       Some a \<Rightarrow> interrupt_gate a (cs_reg s) 0 (boot_idt s' ! i)
     | None \<Rightarrow> boot_idt s' ! i = boot_idt s ! i) \<and>
    exception_handlers s' = (exception_handlers s)[0 := Some CheckExceptionTable, 6 := Some CheckExceptionTable, 13 := Some CheckExceptionTable]"
proof -
  let ?s = "s\<lparr>idt_initialized := True\<rparr>"
  obtain t where t: "set_idt_entries env [0..<32] ?s = Some (?s\<lparr>boot_idt := t\<rparr>)" "length t = 256"
      "\<And>i. i < 256 \<Longrightarrow> t ! i = gates_of env (cs_reg s) {0..<32} (boot_idt s) i"
    using set_idt_entries_gates[of ?s "boot_idt s" "cs_reg s" "[0..<32]" env] assms(1) by (auto simp: desc_ok_def)
  let ?h = "(exception_handlers s)[0 := Some CheckExceptionTable, 6 := Some CheckExceptionTable, 13 := Some CheckExceptionTable]"
  let ?s' = "?s\<lparr>boot_idt := t, exception_handlers := ?h\<rparr>"
  have r: "setup_idt env s = Some ?s'"
    using assms t(1) by (auto simp: setup_idt_def handle_exception_def desc_ok_def Let_def)
  have "case idt_handlers env i of Some a \<Rightarrow> interrupt_gate a (cs_reg s) 0 (t ! i) | None \<Rightarrow> t ! i = boot_idt s ! i" if "i < 256" for i
    using t(3)[OF that] new_gate_interrupt by (auto simp: gates_of_def idt_handlers_def)
  moreover have "boot_idt ?s' = t" by simp
  ultimately have g: "\<forall>i < 256. case idt_handlers env i of Some a \<Rightarrow> interrupt_gate a (cs_reg s) 0 (boot_idt ?s' ! i)
     | None \<Rightarrow> boot_idt ?s' ! i = boot_idt s ! i" by (simp only:) blast
  have "desc_ok ?s'" "setup_idt env ?s' = Some ?s'" "exception_handlers ?s' = ?h"
    using t(2) assms(1) by (simp_all add: desc_ok_def setup_idt_def)
  then show ?thesis using r g by blast
qed

section \<open>Dispatch\<close>

lemma stub_entry_regs: "stub_entry err vector r = r\<lparr>ex_vector := vector, ex_error_code := (case err of Some c \<Rightarrow> c | None \<Rightarrow> 0)\<rparr>"
  by (cases r) (simp add: stub_entry_def stub_pushes_def frame_regs_def eval_nat_numeral)

lemma find_fixup_first: "find_fixup table rip = map_option er_handler (find (\<lambda>e. er_rip e = rip) table)"
  by (induction table) auto


section \<open>Trying a function\<close>


section \<open>A machine\<close>

definition desc_machine :: desc_state where
  "desc_machine = stack_state.extend (stack_machine (\<lambda>_. 0))
     \<lparr>boot_idt = replicate 256 idt_zero, cs_reg = 8, gs_id = 0, gs_ex = 0, exception_handlers = replicate 32 None, idt_initialized = False,
      exception_flag = False, exception_jmpbuf = 0, tss = \<lparr>ist1 = 0\<rparr>\<rparr>"

definition env0 :: "desc_state desc_env" where
  "env0 = \<lparr>ex_table = [\<lparr>er_rip = 0x100, er_handler = 0x200\<rparr>], fault_stub = \<lambda>i. 0xffff800000000000 + of_nat i * 16, longjmp_addr = 0x5000,
     restore_addr = 0x6000, alt_stack = 0x7000, other_handler = \<lambda>a r s. (r, s)\<rparr>"

definition regs_at :: "u64 \<Rightarrow> u64 \<Rightarrow> ex_regs" where
  "regs_at rip v = \<lparr>ex_rax = 1, ex_rcx = 2, ex_rdx = 3, ex_rbx = 4, ex_dummy = 0, ex_rbp = 5, ex_rsi = 6, ex_rdi = 7, ex_r8 = 8, ex_r9 = 9,
     ex_r10 = 10, ex_r11 = 11, ex_r12 = 12, ex_r13 = 13, ex_r14 = 14, ex_r15 = 15, ex_vector = v, ex_error_code = 0, ex_rip = rip, ex_cs = 8,
     ex_rflags = 0x10002\<rparr>"

lemma desc_machine_ok: "desc_ok desc_machine" "\<not> idt_initialized desc_machine" "cs_reg desc_machine = 8"
  "exception_handlers desc_machine = replicate 32 None"
  by (simp_all add: desc_machine_def stack_state.extend_def desc_ok_def)

theorem setup_idt_installs_witness:
  "\<exists>s'. setup_idt env0 desc_machine = Some s' \<and> interrupt_gate 0xffff8000000000d0 8 0 (boot_idt s' ! 13)"
proof -
  obtain s' where s': "setup_idt env0 desc_machine = Some s'"
      "\<forall>i < 256. case idt_handlers env0 i of Some a \<Rightarrow> interrupt_gate a (cs_reg desc_machine) 0 (boot_idt s' ! i)
        | None \<Rightarrow> boot_idt s' ! i = boot_idt desc_machine ! i"
    using setup_idt_installs[OF desc_machine_ok(1,2), of env0] by (elim exE conjE) (rule that)
  have "idt_handlers env0 13 = Some 0xffff8000000000d0" by (simp add: idt_handlers_def env0_def)
  then show ?thesis using s'(1) s'(2)[rule_format, of 13] desc_machine_ok(3) by auto
qed


definition trig0 :: "desc_state \<Rightarrow> desc_state fun_run" where
  "trig0 s = Raises (regs_at 0x400 6) s (\<lambda>r t. Returns t)"


end
