(* ===== verification/Virt.thy ===== *)
theory Virt
  imports Vmalloc Vmx_Run Vmx_Init
begin

text \<open>
  \<^verbatim>\<open>core/virt.c\<close> and \<^verbatim>\<open>x86/asor.c\<close>: the registration of the architecture's operations and the entry point of
  the hypervisor, which sets up memory, switches virtualisation on, runs the guest and then halts.
\<close>

section \<open>Registration\<close>

text \<open>\<^verbatim>\<open>struct virt_arch_ops\<close>, a pointer to one (the only one of this build is \<^verbatim>\<open>x86_virt_arch_ops\<close>), and the
  variable \<^verbatim>\<open>virt_arch_ops\<close>. A call of \<^verbatim>\<open>enable\<close> ends with a number or in \<^verbatim>\<open>abort\<close> (\<open>Inl\<close>), or never.\<close>

record 's virt_arch_ops =
  enable :: "'s \<Rightarrow> ('s + u32 \<times> 's) option"

datatype virt_ops_ptr = X86VirtArchOps

record virt_state = vm_state +
  virt_arch_ops_var :: "virt_ops_ptr option"

definition x86_virt_arch_ops :: "'a virt_state_scheme vmx_env \<Rightarrow> 'a virt_state_scheme virt_arch_ops" where
  "x86_virt_arch_ops e = \<lparr>enable = x86_virt_enable e asor_guests\<rparr>"

definition virt_ops_of :: "'a virt_state_scheme vmx_env \<Rightarrow> virt_ops_ptr \<Rightarrow> 'a virt_state_scheme virt_arch_ops" where
  "virt_ops_of e p = (case p of X86VirtArchOps \<Rightarrow> x86_virt_arch_ops e)"

definition get_x86_virt_arch_ops :: "virt_ops_ptr option" where
  "get_x86_virt_arch_ops = Some X86VirtArchOps"

definition register_virt_ops :: "virt_ops_ptr option \<Rightarrow> 'a virt_state_scheme \<Rightarrow> u32 \<times> 'a virt_state_scheme" where
  "register_virt_ops ops s =
     (if virt_arch_ops_var s \<noteq> None \<or> ops = None then (- 1, s)
      else (0, s\<lparr>virt_arch_ops_var := ops\<rparr>))"

definition free_virt_ops :: "virt_ops_ptr option \<Rightarrow> 'a virt_state_scheme \<Rightarrow> 'a virt_state_scheme" where
  "free_virt_ops ops s = s\<lparr>virt_arch_ops_var := None\<rparr>"

definition get_virt_arch_ops :: "'a virt_state_scheme \<Rightarrow> virt_ops_ptr option" where
  "get_virt_arch_ops s = virt_arch_ops_var s"

definition enable_hw_virt ::
  "'a virt_state_scheme vmx_env \<Rightarrow> 'a virt_state_scheme \<Rightarrow>
     ('a virt_state_scheme + u32 \<times> 'a virt_state_scheme) option" where
  "enable_hw_virt e s =
     (case get_virt_arch_ops s of
        None \<Rightarrow> Some (Inr (- 1, kprintf (''Error: virt_arch_ops is NULL.'' @ NL) [] s))
      | Some ops \<Rightarrow> enable (virt_ops_of e ops) s)"

section \<open>The entry point\<close>

text \<open>\<^verbatim>\<open>asor_entry\<close> never returns: it reaches the loop around \<^verbatim>\<open>hlt\<close> in a state (\<open>Halting\<close>) or calls \<^verbatim>\<open>abort\<close>
  (\<open>Aborting\<close>). The results of \<^verbatim>\<open>register_virt_ops\<close> and \<^verbatim>\<open>enable_hw_virt\<close> are not looked at.\<close>

datatype 's entry_end = Halting 's | Aborting 's

definition asor_entry ::
  "'a virt_state_scheme vmx_env \<Rightarrow> 'a virt_state_scheme \<Rightarrow> 'a virt_state_scheme entry_end option" where
  "asor_entry e s = do {
     s \<leftarrow> setup_vm s;
     let s = kprintf (''Hello ASOR.'' @ NL) [] s;
     let (_, s) = register_virt_ops get_x86_virt_arch_ops s;
     r \<leftarrow> enable_hw_virt e s;
     (case r of Inl s \<Rightarrow> Some (Aborting s) | Inr (_, s) \<Rightarrow> Some (Halting s))
   }"

end
