(* ===== verification/Virt_Props.thy ===== *)
theory Virt_Props
  imports Virt
begin

text \<open>
  The boot as a whole: from the state the start-up code leaves to the loop around \<^verbatim>\<open>hlt\<close>, on a processor
  that supports VMX with EPT, with a guest that runs once the checks on VM entry pass.
\<close>

section \<open>The processor\<close>

definition vmx_caps_good :: "(u32 \<Rightarrow> u64) \<Rightarrow> bool" where
  "vmx_caps_good msr \<longleftrightarrow>
     (let pin = msr_true msr MSR_IA32_VMX_TRUE_PIN MSR_IA32_VMX_PINBASED_CTLS;
          exi = msr_true msr MSR_IA32_VMX_TRUE_EXIT MSR_IA32_VMX_EXIT_CTLS;
          ent = msr_true msr MSR_IA32_VMX_TRUE_ENTRY MSR_IA32_VMX_ENTRY_CTLS;
          cpu0 = msr_true msr MSR_IA32_VMX_TRUE_PROC MSR_IA32_VMX_PROCBASED_CTLS;
          cpu1 = msr MSR_IA32_VMX_PROCBASED_CTLS2;
          cap = msr MSR_IA32_VMX_EPT_VPID_CAP
      in cap_ok pin \<and> cap_ok exi \<and> cap_ok ent \<and> cap_ok cpu0 \<and> cap_ok cpu1 \<and> msr_set cpu1 = 0 \<and>
         ENT_GUEST_64 AND NOT (msr_clr ent) = 0 \<and> EXI_HOST_64 AND NOT (msr_clr exi) = 0 \<and>
         CPU_SECONDARY AND NOT (msr_clr cpu0) = 0 \<and> CPU_EPT AND NOT (msr_clr cpu1) = 0 \<and>
         cap AND EPT_CAP_WB \<noteq> 0 \<and> cap AND EPT_CAP_PWL4 \<noteq> 0)"

definition cr_fixed_good :: "(u32 \<Rightarrow> u64) \<Rightarrow> bool" where
  "cr_fixed_good msr \<longleftrightarrow>
     bit (msr MSR_IA32_VMX_CR0_FIXED1) 0 \<and> bit (msr MSR_IA32_VMX_CR0_FIXED1) 31 \<and> bit (msr MSR_IA32_VMX_CR4_FIXED1) 5"

text \<open>VMX is offered and not locked out, its registers are constants, its instructions succeed.\<close>

definition vmx_processor :: "'s vmx_env \<Rightarrow> (u32 \<Rightarrow> u64) \<Rightarrow> bool" where
  "vmx_processor e msr \<longleftrightarrow>
     cpuid_c (cpuid_leaf (e_cpuid e) 1) AND push_bit 5 1 \<noteq> 0 \<and> msr_dev (e_hw e) msr \<and>
     (msr MSR_IA32_FEATURE_CONTROL AND 0x5 = 0x5 \<or> msr MSR_IA32_FEATURE_CONTROL AND 0x1 = 0) \<and>
     vmx_caps_good msr \<and> cr_fixed_good msr \<and> (\<forall>tr nm x. e_hw e tr (VmxInsn nm x) = 0)"

section \<open>Entering the guest\<close>

text \<open>What the processor checks when the guest is entered: the control words, the host and guest areas, and that the
  guest runs on tables that translate all of its memory to itself.\<close>

definition entry_ready :: "'s vmx_env \<Rightarrow> nat \<Rightarrow> 'a vmx_state_scheme \<Rightarrow> bool" where
  "entry_ready e mtop t \<longleftrightarrow>
     controls_ok t \<and> ctrl_allowed (ctrl_cpu_rev1 t) (ucast (vmcs_read CPU_EXEC_CTRL1 t)) \<and>
     vmcs_read CPU_EXEC_CTRL0 t AND ucast CPU_SECONDARY \<noteq> 0 \<and> vmcs_read CPU_EXEC_CTRL1 t AND ucast CPU_EPT \<noteq> 0 \<and>
     host_state_ok e t \<and> guest_state_ok e t \<and>
     (\<forall>ga. ga < 2 ^ 48 \<longrightarrow> xlate ept_fmt (mem t) 4 (vmcs_read EPTP t AND EPT_ADDR_MASK) ga =
       (if unat ga < mtop then Some (ga, EPT_PRESENT) else None))"

text \<open>The guest of this build: once the checks pass, it runs \<^verbatim>\<open>guest_entry\<close> up to its hypercall.\<close>

definition guest_runs :: "'a vmx_state_scheme vmx_env \<Rightarrow> nat \<Rightarrow> bool" where
  "guest_runs e mtop \<longleftrightarrow> (\<forall>gpr t. entry_ready e mtop t \<longrightarrow>
     (\<exists>gpr'. e_enter e False gpr t = Some (VmExit gpr' (vmcs_write EXI_REASON VMX_VMCALL (guest_entry_code t)))))"

lemma call_done:
  assumes "vmx_enter_guest e s = Some (True, fl, s1)" "current_guest s1 = Some 0" "is_hypercall s1"
    "hypercall_field s1 AND HYPERCALL_MASK = HYPERCALL_VMEXIT"
  shows "\<exists>v f. vmx_run e asor_guests s = Some (Done (s1\<lparr>launched := True, guest_exits := guest_exits s1 + 1,
    vregs := v, hypercall_field := 0, vmcs_field := f, guest_finished := True\<rparr>))"
proof -
  have "\<exists>v f. vmx_run_body e asor_guests s = Some (Done (s1\<lparr>launched := True, guest_exits := guest_exits s1 + 1,
    vregs := v, hypercall_field := 0, vmcs_field := f, guest_finished := True\<rparr>))"
    using assms by (auto simp: vmx_run_body_def exit_handler_def Let_def handle_hypercall_def vmcs_write_def result_codes)
  then show ?thesis using vmx_run_final by (fastforce simp: final_result_def)
qed

text \<open>The fields the checks read, none of them the host's stack pointer or one that switching EPT on changes.\<close>

definition checked_fields :: "u64 list" where
  "checked_fields = [PIN_CONTROLS, EXI_CONTROLS, ENT_CONTROLS, CR3_TARGET_COUNT, HOST_CR0, HOST_CR3, HOST_CR4, HOST_RIP,
     HOST_SEL_CS, HOST_SEL_SS, HOST_SEL_DS, HOST_SEL_ES, HOST_SEL_FS, HOST_SEL_GS, HOST_SEL_TR, HOST_BASE_FS, HOST_BASE_GS,
     HOST_BASE_TR, HOST_BASE_GDTR, HOST_BASE_IDTR, HOST_SYSENTER_EIP, GUEST_CR0, GUEST_CR3, GUEST_CR4, GUEST_AR_CS,
     GUEST_AR_DS, GUEST_AR_ES, GUEST_AR_FS, GUEST_AR_GS, GUEST_AR_SS, GUEST_AR_TR, GUEST_SEL_TR, GUEST_RFLAGS,
     GUEST_ACTV_STATE, GUEST_INTR_STATE, VMCS_LINK_PTR, GUEST_RIP]"

lemma checked_fields_other:
  "k \<in> set checked_fields \<Longrightarrow> k \<noteq> HOST_RSP \<and> k \<noteq> EPTP \<and> k \<noteq> CPU_EXEC_CTRL0 \<and> k \<noteq> CPU_EXEC_CTRL1"
  by (auto simp: checked_fields_def c_defs)

lemma area_checks_cong:
  assumes "\<forall>k \<in> set checked_fields. vmcs_field s' k = vmcs_field s k" "cregs s' = cregs s"
  shows "host_state_ok e s' = host_state_ok e s" "guest_state_ok e s' = guest_state_ok e s"
  using assms by (simp_all add: host_state_ok_def guest_state_ok_def read_fields checked_fields_def cregs_def)

lemma vmcs_read_EPTP: "vmcs_read EPTP s = vmcs_field s EPTP"
  by (simp add: vmcs_read_def vmcs_key_def c_defs)

lemma entry_ready_cong:
  assumes "\<forall>k. k \<noteq> HOST_RSP \<longrightarrow> vmcs_field s' k = vmcs_field s k" "cregs s' = cregs s" "caps_of s' = caps_of s" "mem s' = mem s"
  shows "entry_ready e mtop s' = entry_ready e mtop s"
proof -
  have f: "\<forall>k \<in> set checked_fields. vmcs_field s' k = vmcs_field s k"
    using assms(1) checked_fields_other by blast
  have c: "vmcs_field s' CPU_EXEC_CTRL0 = vmcs_field s CPU_EXEC_CTRL0" "vmcs_field s' CPU_EXEC_CTRL1 = vmcs_field s CPU_EXEC_CTRL1"
    "vmcs_field s' EPTP = vmcs_field s EPTP"
    by (rule assms(1)[rule_format]; simp add: c_defs)+
  have "controls_ok s' = controls_ok s"
    using f c assms(3) by (simp add: controls_ok_def read_fields checked_fields_def caps_of_def)
  then show ?thesis
    using area_checks_cong[OF f assms(2), of e] c assms(3,4) by (simp add: entry_ready_def read_fields vmcs_read_EPTP caps_of_def)
qed

lemma vmx_enter_runs:
  assumes "guest_runs e mtop" "entry_ready e mtop s" "\<not> launched s"
  shows "\<exists>s1 fl. vmx_enter_guest e s = Some (True, fl, s1) \<and> current_guest s1 = current_guest s \<and> is_hypercall s1 \<and>
    hypercall_field s1 = 0x1001 \<and> mem s1 = mem s \<and> guest_exits s1 = guest_exits s \<and> cr3 s1 = cr3 s \<and> pml4 s1 = pml4 s \<and>
    console s1 = console s @ [(''Hello Guest'' @ NL, [])] \<and> vmx_state.more s1 = vmx_state.more s"
proof -
  obtain gpr area where ga: "LOAD_GPR ((e_host_gpr e)\<lparr>rdi := HOST_RSP\<rparr>, vregs s) = (gpr, area)" by fastforce
  define t where "t = (vmcs_write HOST_RSP (e_host_rsp e) (s\<lparr>in_guest := True\<rparr>))\<lparr>vregs := area\<rparr>"
  have "entry_ready e mtop t = entry_ready e mtop s"
    by (rule entry_ready_cong)
      (simp_all add: t_def vmcs_write_def vmcs_key_def cregs_def caps_of_def c_defs)
  then obtain gpr' where g: "e_enter e False gpr t = Some (VmExit gpr' (vmcs_write EXI_REASON VMX_VMCALL (guest_entry_code t)))"
    using assms(1,2) unfolding guest_runs_def by blast
  define u where "u = vmcs_write EXI_REASON VMX_VMCALL (guest_entry_code t)"
  have u: "current_guest u = current_guest s" "hypercall_field u = 0x1001" "mem u = mem s" "guest_exits u = guest_exits s"
    "console u = console s @ [(''Hello Guest'' @ NL, [])]" "vmx_state.more u = vmx_state.more s"
    "vmcs_read EXI_REASON u = 18" "launched u = launched s" "cr3 u = cr3 s" "pml4 u = pml4 s"
    by (simp_all add: u_def t_def guest_entry_code_def asor_guest_main_def hypercall_def kprintf_def hw_write_def
        vmcs_write_def vmcs_read_def vmcs_key_def vmcs_value_def c_defs)
  have r: "vmcs_read enc (u\<lparr>vregs := a, in_guest := b\<rparr>) = vmcs_read enc u" for enc a b
    by (simp add: vmcs_read_def)
  obtain g2 a2 where sv: "SAVE_GPR (gpr', vregs u) = (g2, a2)" by fastforce
  have "\<exists>fl. vmx_enter_guest e s = Some (True, fl, u\<lparr>vregs := a2, in_guest := False\<rparr>)"
    using g assms(3) sv unfolding u_def[symmetric]
    by (simp add: vmx_enter_guest_def Let_def ga t_def[symmetric] u(7,8) r VMX_ENTRY_FAILURE_def)
  moreover have "is_hypercall (u\<lparr>vregs := a2, in_guest := False\<rparr>)"
    by (simp add: is_hypercall_def r u(2,7) VMX_VMCALL_def HYPERCALL_BIT_def)
  ultimately show ?thesis using u by auto
qed

section \<open>Switching EPT on keeps the checks\<close>

lemma ctrl_allowed_or:
  assumes "ctrl_allowed cap x" "f AND NOT (msr_clr cap) = 0"
  shows "ctrl_allowed cap (x OR f)"
proof -
  have b: "bit (msr_set cap AND NOT x) n = bit 0 n" "bit (x AND NOT (msr_clr cap)) n = bit 0 n"
    "bit (f AND NOT (msr_clr cap)) n = bit 0 n" for n
    using assms by (simp_all add: ctrl_allowed_def)
  then show ?thesis by (auto simp: ctrl_allowed_def bit_simps intro!: bit_word_eqI)
qed

lemma word_half:
  fixes a :: u64 and f :: u32
  shows "(ucast ((a OR ucast f) AND 0xffffffff) :: u32) = ucast a OR f"
    "((a OR ucast f) AND 0xffffffff) AND ucast f = ucast f"
proof -
  have e: "(0xffffffff :: u64) = mask 32" by (simp add: mask_eq_exp_minus_1)
  show "(ucast ((a OR ucast f) AND 0xffffffff) :: u32) = ucast a OR f" unfolding e
    by (rule bit_word_eqI) (auto simp: bit_simps)
  show "((a OR ucast f) AND 0xffffffff) AND ucast f = ucast f" unfolding e
    by (rule bit_word_eqI) (auto simp: bit_simps dest: bit_imp_le_length)
qed

lemma ucast_u32_nonzero: "f \<noteq> 0 \<Longrightarrow> (ucast (f :: u32) :: u64) \<noteq> 0"
  using ucast_and_flag[of f f] by simp

lemma entry_ready_ept:
  assumes chk: "controls_ok s" "host_state_ok e s" "guest_state_ok e s"
    and c1: "ctrl_allowed (ctrl_cpu_rev1 s) (ucast (vmcs_field s CPU_EXEC_CTRL1))"
    and al: "CPU_SECONDARY AND NOT (msr_clr (ctrl_cpu_rev0 s)) = 0" "CPU_EPT AND NOT (msr_clr (ctrl_cpu_rev1 s)) = 0"
    and f: "vmcs_field s' = ept_vmcs (eptp s') (vmcs_field s)" and k: "cregs s' = cregs s" "caps_of s' = caps_of s"
    and tb: "eptp s' AND EPT_ADDR_MASK = p"
      "\<forall>ga. ga < 2 ^ 48 \<longrightarrow> xlate ept_fmt (mem s') 4 p ga = (if unat ga < mtop then Some (ga, EPT_PRESENT) else None)"
  shows "entry_ready e mtop s'"
proof -
  have n: "EPTP \<noteq> CPU_EXEC_CTRL0" "EPTP \<noteq> CPU_EXEC_CTRL1" "CPU_EXEC_CTRL0 \<noteq> CPU_EXEC_CTRL1"
    by (simp_all add: c_defs)
  have ff: "\<forall>k \<in> set checked_fields. vmcs_field s' k = vmcs_field s k"
    using checked_fields_other by (auto simp: f ept_vmcs_def)
  have v: "vmcs_read CPU_EXEC_CTRL0 s' = (vmcs_field s CPU_EXEC_CTRL0 OR ucast CPU_SECONDARY) AND 0xffffffff"
    "vmcs_read CPU_EXEC_CTRL1 s' = (vmcs_field s CPU_EXEC_CTRL1 OR ucast CPU_EPT) AND 0xffffffff"
    "vmcs_read EPTP s' = eptp s'"
    using n by (simp_all add: read_fields vmcs_read_EPTP f ept_vmcs_def)
  have caps: "ctrl_pin_rev s' = ctrl_pin_rev s" "ctrl_exit_rev s' = ctrl_exit_rev s" "ctrl_enter_rev s' = ctrl_enter_rev s"
    "ctrl_cpu_rev0 s' = ctrl_cpu_rev0 s" "ctrl_cpu_rev1 s' = ctrl_cpu_rev1 s"
    using k(2) by (simp_all add: caps_of_def)
  have "ctrl_allowed (ctrl_cpu_rev0 s) (ucast (vmcs_field s CPU_EXEC_CTRL0))"
    using chk(1) by (simp add: controls_ok_def read_fields)
  then have c0: "ctrl_allowed (ctrl_cpu_rev0 s') (ucast (vmcs_read CPU_EXEC_CTRL0 s'))"
    unfolding v word_half caps by (rule ctrl_allowed_or[OF _ al(1)])
  have c1': "ctrl_allowed (ctrl_cpu_rev1 s') (ucast (vmcs_read CPU_EXEC_CTRL1 s'))"
    unfolding v word_half caps by (rule ctrl_allowed_or[OF c1 al(2)])
  have "vmcs_field s' k = vmcs_field s k" if "k \<in> {PIN_CONTROLS, EXI_CONTROLS, ENT_CONTROLS, CR3_TARGET_COUNT}" for k
    using ff that by (auto simp: checked_fields_def)
  then have "controls_ok s'" using chk(1) c0 by (simp add: controls_ok_def read_fields caps)
  moreover have "vmcs_read CPU_EXEC_CTRL0 s' AND ucast CPU_SECONDARY \<noteq> 0" "vmcs_read CPU_EXEC_CTRL1 s' AND ucast CPU_EPT \<noteq> 0"
    unfolding v word_half by (rule ucast_u32_nonzero; simp add: c_defs)+
  ultimately show ?thesis
    using chk(2,3) area_checks_cong[OF ff k(1), of e] c1' tb by (simp add: entry_ready_def v(3))
qed

section \<open>Enabling virtualisation\<close>

lemma xlate_off_free:
  assumes "tinv F s fl l pt" "mframe (mem s) m' P" "P \<subseteq> set fl"
  shows "xlate F m' l pt va = xlate F (mem s) l pt va"
proof -
  have "\<And>q. q \<in> tpages F (mem s) l pt \<Longrightarrow> aligned 12 q \<and> q \<notin> P"
    using assms(1,3) twf_aligned[of F "mem s" l pt] unfolding tinv_def by blast
  from mframe_eqon[OF assms(2) this] show ?thesis by (rule xlate_frame)
qed

lemma vmx_supported:
  assumes "vmx_processor e msr"
  shows "\<exists>c t. is_vmx_supported e s = (True, s\<lparr>console := c, trace := t\<rparr>)"
  using assms unfolding vmx_processor_def
  by (intro exI[of _ "console (snd (is_vmx_supported e s))"] exI[of _ "trace (snd (is_vmx_supported e s))"]; cases s)
    (auto simp: is_vmx_supported_def Let_def rdmsr_dev wrmsr_def hw_write_def kprintf_def)

lemma flag_allowed: "f AND NOT m = 0 \<Longrightarrow> f \<noteq> 0 \<Longrightarrow> m AND f \<noteq> (0 :: u32)"
proof -
  assume a: "f AND NOT m = 0" "f \<noteq> 0"
  have "bit (f AND NOT m) n = bit 0 n" for n using a(1) by simp
  then have "m AND f = f" by (intro bit_word_eqI) (auto simp: bit_simps)
  then show ?thesis using a(2) by simp
qed

lemma flag_pair: "m AND f \<noteq> 0 \<Longrightarrow> m AND (f OR g) \<noteq> (0 :: u32)"
  by (metis and_zero_eq bit.conj_disj_distrib or_eq_0_iff)

lemma caps_good_state:
  assumes "vmx_caps_good msr" "msr_caps msr s"
  shows "caps_ok s" "ept_supported s" "CPU_SECONDARY AND NOT (msr_clr (ctrl_cpu_rev0 s)) = 0"
    "CPU_EPT AND NOT (msr_clr (ctrl_cpu_rev1 s)) = 0" "cap_ok (ctrl_cpu_rev1 s)" "msr_set (ctrl_cpu_rev1 s) = 0"
proof -
  note g = assms(1)[unfolded vmx_caps_good_def Let_def] and c = assms(2)[unfolded msr_caps_def]
  have nz: "CPU_SECONDARY \<noteq> 0" "CPU_EPT \<noteq> 0" by (simp_all add: c_defs)
  show sec: "CPU_SECONDARY AND NOT (msr_clr (ctrl_cpu_rev0 s)) = 0" using g c by simp
  have r1: "ctrl_cpu_rev1 s = msr MSR_IA32_VMX_PROCBASED_CTLS2" using c flag_allowed[OF sec nz(1)] by simp
  show ept: "CPU_EPT AND NOT (msr_clr (ctrl_cpu_rev1 s)) = 0" and "cap_ok (ctrl_cpu_rev1 s)" "msr_set (ctrl_cpu_rev1 s) = 0"
    using g r1 by simp_all
  have "ept_vpid s = msr MSR_IA32_VMX_EPT_VPID_CAP" using c flag_pair[OF flag_allowed[OF ept nz(2)], of CPU_VPID] by simp
  then show "ept_supported s"
    using g flag_allowed[OF sec nz(1)] flag_allowed[OF ept nz(2)] by (simp add: ept_supported_def)
  show "caps_ok s" using g c by (simp add: caps_ok_def)
qed

lemma long_mode_fixed:
  assumes "cr_fixed_good msr" "bit (cr0 s) 31" "bit (cr0 s) 0" "bit (cr4 s) 5"
    "cr0 s' = (cr0 s AND msr MSR_IA32_VMX_CR0_FIXED1) OR msr MSR_IA32_VMX_CR0_FIXED0"
    "cr4 s' = (cr4 s AND msr MSR_IA32_VMX_CR4_FIXED1) OR msr MSR_IA32_VMX_CR4_FIXED0 OR X86_CR4_VMXE"
  shows "long_mode s'"
  using assms by (simp add: long_mode_def cr_fixed_good_def bit_simps)

lemma virt_enable_runs:
  assumes proc: "vmx_processor e msr" and env: "env_canonical e" and fw: "fw_cfg_dev (e_hw e) item"
    and tab: "tinv x86_fmt s fl 4 root" and lm: "bit (cr0 s) 31" "bit (cr0 s) 0" "bit (cr4 s) 5"
    and st: "fw_lock s = 0" "\<not> launched s" "vmcs_field s CPU_EXEC_CTRL1 = 0"
    and mt: "mtop = max (unat (le_bytes (item 3) 8)) (2 ^ 32)" "mtop \<le> 2 ^ 48"
    and room: "range_pages False False 0 mtop + 5 \<le> length fl"
    and run: "guest_runs e (mtop div 2 ^ 12 * 2 ^ 12)"
  shows "\<exists>s'. x86_virt_enable e asor_guests s = Some (Inr (0, s')) \<and> guest_finished s' \<and> guest_exits s' = guest_exits s + 1 \<and>
    cr3 s' = cr3 s \<and> (\<exists>c. console s' = c @ [(''Hello Guest'' @ NL, [])]) \<and> (\<exists>t. trace s' = t @ [VmxInsn ''vmxoff'' 0]) \<and>
    (\<forall>va. xlate x86_fmt (mem s') 4 root va = xlate x86_fmt (mem s) 4 root va) \<and>
    (\<forall>ga. ga < 2 ^ 48 \<longrightarrow> xlate ept_fmt (mem s') 4 (pml4 s') ga =
      (if unat ga < mtop div 2 ^ 12 * 2 ^ 12 then Some (ga, EPT_PRESENT) else None))"
proof -
  obtain p1 p2 p3 p4 p5 fr where fl: "fl = p1 # p2 # p3 # p4 # p5 # fr"
    using room by (auto simp: Suc_le_length_iff numeral_eq_Suc)
  have fli: "fl_inv s fl" and p52: "\<forall>q \<in> set fl. drop_bit 52 q = 0" using tab by (auto simp: tinv_def)
  have hw: "\<And>tr nm x. e_hw e tr (VmxInsn nm x) = 0" and dev: "msr_dev (e_hw e) msr" and cg: "vmx_caps_good msr"
    and cf: "cr_fixed_good msr" using proc by (auto simp: vmx_processor_def)
  obtain c1 t1 where s1: "is_vmx_supported e (s\<lparr>current_guest := Some 0\<rparr>) = (True, s\<lparr>current_guest := Some 0, console := c1, trace := t1\<rparr>)"
    using vmx_supported[OF proc] by blast
  define u1 where "u1 = s\<lparr>current_guest := Some 0, console := c1, trace := t1\<rparr>"
  have u1: "fl_inv u1 (p1 # p2 # p3 # p4 # p5 # fr)" using fli by (simp add: u1_def fl fl_inv_def)
  obtain u2 where u2: "init_vmx (e_hw e) u1 = Some u2" "fl_inv u2 (p4 # p5 # fr)"
    "cr0 u2 = (cr0 u1 AND msr MSR_IA32_VMX_CR0_FIXED1) OR msr MSR_IA32_VMX_CR0_FIXED0"
    "cr4 u2 = (cr4 u1 AND msr MSR_IA32_VMX_CR4_FIXED1) OR msr MSR_IA32_VMX_CR4_FIXED0 OR X86_CR4_VMXE"
    "cr3 u2 = cr3 u1" "run_fields u2 = run_fields u1" "vmcs_field u2 = vmcs_field u1" "msr_caps msr u2"
    "mframe (mem u1) (mem u2) {p1, p2, p3}"
    using init_vmx_ok[OF u1 dev] by blast
  define u3 where "u3 = u2\<lparr>trace := trace u2 @ [VmxInsn ''vmxon'' (vmxon_region u2)]\<rparr>"
  have on: "vmx_on (e_hw e) u2 = (False, u3)" by (simp add: vmx_on_def vmx_insn_def hw_read_def hw u3_def)
  have k3: "fl_inv u3 (p4 # p5 # fr)" "run_fields u3 = run_fields u1" "msr_caps msr u3" "cr3 u3 = cr3 u1"
    using u2 by (simp_all add: u3_def fl_inv_def run_fields_def msr_caps_def)
  have lm3: "long_mode u3" using long_mode_fixed[OF cf, of u1 u3] lm u2(3,4) by (simp add: u1_def u3_def)
  note cap = caps_good_state[OF cg k3(3)]
  obtain u4 where u4: "init_vmcs e u3 = Some (0, u4)" "controls_ok u4" "host_state_ok e u4" "guest_state_ok e u4"
    "fl_inv u4 (p5 # fr)" "caps_of u4 = caps_of u3" "cregs u4 = cregs u3" "run_fields u4 = run_fields u3"
    "vmcs_field u4 CPU_EXEC_CTRL1 = (if msr_set (ctrl_cpu_rev0 u3) AND CPU_SECONDARY \<noteq> 0
      then ucast (adjust_ctrl 0 (ctrl_cpu_rev1 u3)) else vmcs_field u3 CPU_EXEC_CTRL1)"
    "mframe (mem u3) (mem u4) {p4}"
    using init_vmcs_checks[OF k3(1) hw cap(1) lm3 env] by blast
  have c4: "ctrl_cpu_rev0 u4 = ctrl_cpu_rev0 u3" "ctrl_cpu_rev1 u4 = ctrl_cpu_rev1 u3" "ept_supported u4" "fw_lock u4 = 0"
    using u4(6,8) k3(2) cap(2) st(1) by (simp_all add: caps_of_def ept_supported_def run_fields_def u1_def)
  have "vmcs_field u3 CPU_EXEC_CTRL1 = 0" using u2(7) st(3) by (simp add: u1_def u3_def)
  then have al1: "ctrl_allowed (ctrl_cpu_rev1 u4) (ucast (vmcs_field u4 CPU_EXEC_CTRL1))"
    using u4(9) adjust_allowed[OF cap(5), of 0] cap(6) c4(2) by (simp add: ctrl_allowed_def)
  obtain u5 c where u5: "setup_ept (e_hw e) True u4 = Some (0, u5)" "pml4 u5 = p5" "eptp u5 = 0x1e OR p5 OR 0x40"
    "vmcs_field u5 = ept_vmcs (eptp u5) (vmcs_field u4)" "run_fields u5 = run_fields u4" "caps_of u5 = caps_of u4"
    "cregs u5 = cregs u4" "mframe (mem u4) (mem u5) (insert p5 (set (take c fr)))"
    "\<forall>ga. ga < 2 ^ 48 \<longrightarrow> xlate ept_fmt (mem u5) 4 p5 ga =
      (if unat ga < mtop div 2 ^ 12 * 2 ^ 12 then Some (ga, EPT_PRESENT) else None)"
    using setup_ept_identity_map[OF u4(5) _ c4(3) fw c4(4) mt, of True] p52 room by (auto simp: fl)
  have "eptp u5 AND EPT_ADDR_MASK = p5"
  proof -
    have "aligned 12 p5" "drop_bit 52 p5 = 0" using fl_inv_aligned[OF u4(5)] p52 by (auto simp: fl)
    moreover have "(0x1e OR 0x40 :: u64) AND addr_mask = 0" unfolding addr_mask_def by code_simp
    moreover have "eptp u5 = (0x1e OR 0x40) OR p5"
      unfolding u5(3) by (simp only: or.assoc or.commute[of p5 "0x40"])
    ultimately show ?thesis unfolding EPT_ADDR_MASK_alt using mask_flags[of "0x1e OR 0x40" p5] by simp
  qed
  then have ready: "entry_ready e (mtop div 2 ^ 12 * 2 ^ 12) u5"
    using entry_ready_ept[OF u4(2-4) al1 _ _ u5(4,7,6) _ u5(9)] cap(3,4) c4(1,2) by simp
  have l5: "\<not> launched u5" "current_guest u5 = Some 0" "guest_exits u5 = guest_exits s" "cr3 u5 = cr3 s"
    using u5(5,7) u4(7,8) k3(2,4) st(2) by (simp_all add: run_fields_def cregs_def u1_def)
  obtain s1 w where en: "vmx_enter_guest e u5 = Some (True, w, s1)" "current_guest s1 = Some 0" "is_hypercall s1"
    "hypercall_field s1 = 0x1001" "mem s1 = mem u5" "guest_exits s1 = guest_exits s" "cr3 s1 = cr3 s" "pml4 s1 = p5"
    "console s1 = console u5 @ [(''Hello Guest'' @ NL, [])]"
    using vmx_enter_runs[OF run ready l5(1)] l5 u5(2) by auto
  have "hypercall_field s1 AND HYPERCALL_MASK = HYPERCALL_VMEXIT" using en(4) by (simp add: c_defs)
  then obtain v f where rn: "vmx_run e asor_guests u5 = Some (Done (s1\<lparr>launched := True, guest_exits := guest_exits s1 + 1,
    vregs := v, hypercall_field := 0, vmcs_field := f, guest_finished := True\<rparr>))"
    using call_done[OF en(1-3)] by blast
  define s' where "s' = s1\<lparr>launched := True, guest_exits := guest_exits s1 + 1, vregs := v, hypercall_field := 0,
    vmcs_field := f, guest_finished := True, trace := trace s1 @ [VmxInsn ''vmxoff'' 0]\<rparr>"
  have "x86_virt_enable e asor_guests s = Some (Inr (0, s'))"
    unfolding x86_virt_enable_def
    by (simp add: Let_def s1 u1_def[symmetric] u2(1) on u4(1) u5(1) rn vmx_off_def vmx_insn_def hw_read_def hw s'_def)
  moreover have "mframe (mem s) (mem s') (set fl)"
  proof -
    have "mframe (mem s) (mem u5) ({p1, p2, p3} \<union> {p4} \<union> insert p5 (set (take c fr)))"
    proof (rule mframe_trans[OF mframe_trans u5(8)])
      show "mframe (mem s) (mem u2) {p1, p2, p3}" using u2(9) by (simp add: u1_def)
      show "mframe (mem u2) (mem u4) {p4}" using u4(10) by (simp add: u3_def)
    qed
    then have "mframe (mem s) (mem u5) (set fl)"
      by (rule mframe_mono) (use set_take_subset[of c fr] in \<open>auto simp: fl\<close>)
    then show ?thesis using en(5) by (simp add: s'_def)
  qed
  ultimately show ?thesis
    using xlate_off_free[OF tab] en(5-9) u5(9) by (intro exI[of _ s']) (simp add: s'_def)
qed

section \<open>The whole boot\<close>

lemma virt_var_more:
  fixes s s' :: "'a virt_state_scheme"
  shows "vm_state.more s' = vm_state.more s \<Longrightarrow> virt_arch_ops_var s' = virt_arch_ops_var s"
  by (cases s; cases s') simp

text \<open>Memory as the start-up code leaves it: nothing handed out but what lies below \<^verbatim>\<open>phys_base\<close>; \<open>lo\<close> and \<open>hi\<close> are the first
  whole page left and the end of the last.\<close>

definition boot_memory :: "'a vm_state_scheme \<Rightarrow> nat \<Rightarrow> nat \<Rightarrow> bool" where
  "boot_memory s lo hi \<longleftrightarrow> alloc_ops_var s \<noteq> VmallocOps \<and> freelist s = 0 \<and> pa_lock s = 0 \<and> phys_lock s = 0 \<and>
     nr_regions s < length (regions s) \<and> phys_base s < phys_top s \<and> lo = round_up 12 (unat (phys_base s)) \<and>
     hi = unat (phys_top s) div 4096 * 4096 \<and> lo < hi \<and> 0 < lo \<and> hi \<le> 2 ^ 48"

text \<open>The processor in long mode, and the variables of the program at their initial values.\<close>

definition boot_state :: "'a virt_state_scheme \<Rightarrow> bool" where
  "boot_state s \<longleftrightarrow> bit (cr4 s) 5 \<and> fw_lock s = 0 \<and> \<not> launched s \<and> vmcs_field s CPU_EXEC_CTRL1 = 0 \<and>
     virt_arch_ops_var s = None"


text \<open>A machine of 16 MiB above 1 MiB, whose processor allows every control and whose guest runs at once.\<close>

definition boot_msr :: "u32 \<Rightarrow> u64" where
  "boot_msr i = (if i = 0x3a then 5 else if i \<in> {0x487, 0x489} then - 1 else if i = 0x48c then 0x4040
     else if i \<in> {0x481, 0x482, 0x483, 0x484, 0x48b} then 0xffffffff00000000 else 0)"

definition boot_hw :: hw where
  "boot_hw tr ev = (case ev of MsrR i \<Rightarrow> boot_msr i | _ \<Rightarrow> 0)"

definition boot_env :: "virt_state vmx_env" where
  "boot_env = \<lparr>e_hw = boot_hw, e_cpuid = \<lambda>_ _. \<lparr>cpuid_a = 1, cpuid_b = 0, cpuid_c = 0x20, cpuid_d = 0\<rparr>,
     e_enter = \<lambda>l g s. Some (VmExit g (vmcs_write EXI_REASON VMX_VMCALL (guest_entry_code s))),
     e_host_gpr = regs0, e_host_rsp = 0, gdt64_desc = \<lparr>dt_limit = 0, dt_base = 0\<rparr>,
     idt_descr = \<lparr>dt_limit = 0, dt_base = 0\<rparr>, tss_descr = \<lparr>dt_limit = 0, dt_base = 0\<rparr>,
     vmx_return = 0, entry_sysenter = 0, guest_entry = 0\<rparr>"

definition boot_machine :: virt_state where
  "boot_machine = vm_state.extend ((vm_machine pa0 0 0x100000 0x1100000)\<lparr>cr4 := 0x20\<rparr>) \<lparr>virt_arch_ops_var = None\<rparr>"

lemma boot_msr_good: "vmx_caps_good boot_msr" "cr_fixed_good boot_msr"
proof -
  have m: "msr_true boot_msr t d = boot_msr d" for t d
    by (simp add: msr_true_def boot_msr_def MSR_IA32_VMX_BASIC_def basic_ctrl_def)
  show "vmx_caps_good boot_msr"
    by (simp add: vmx_caps_good_def m boot_msr_def cap_ok_def msr_set_def msr_clr_def c_defs)
  show "cr_fixed_good boot_msr" by (simp add: cr_fixed_good_def boot_msr_def c_defs)
qed

lemma boot_machine_ready:
  "vmx_processor boot_env boot_msr" "env_canonical boot_env" "fw_cfg_dev (e_hw boot_env) (\<lambda>_ _. 0)"
  "boot_state boot_machine" "boot_memory boot_machine 0x100000 0x1100000" "guest_runs boot_env n"
proof -
  have "boot_msr MSR_IA32_FEATURE_CONTROL = 5" by (simp add: boot_msr_def MSR_IA32_FEATURE_CONTROL_def)
  then show "vmx_processor boot_env boot_msr"
    by (simp add: vmx_processor_def boot_msr_good boot_env_def cpuid_leaf_def cpuid_indexed_def raw_cpuid_def msr_dev_def
        boot_hw_def)
  show "env_canonical boot_env" by (simp add: env_canonical_def boot_env_def is_canonical_0)
  show "fw_cfg_dev (e_hw boot_env) (\<lambda>_ _. 0)" by (simp add: fw_cfg_dev_def boot_env_def boot_hw_def)
  show "guest_runs boot_env n" by (simp add: guest_runs_def boot_env_def)
  show "boot_state boot_machine"
    by (simp add: boot_state_def boot_machine_def vm_state.extend_def vm_machine_def phys_state.extend_def
        phys_machine_def vmx_state.extend_def vmx0_def)
  have "replicate 256 x \<noteq> []" for x :: phys_alloc_region by simp
  then show "boot_memory boot_machine 0x100000 0x1100000"
    by (simp add: boot_memory_def boot_machine_def vm_state.extend_def round_up_def pa0_def)
qed


text \<open>C20: on a processor without VMX, \<^verbatim>\<open>asor_entry\<close> reports it (twice: once where it is found, once by the caller) and
  halts; no device, control register or VMX instruction is touched after memory was set up, and no guest is
  entered.\<close>

theorem asor_entry_no_vmx:
  assumes "setup_vm s = Some s1" "virt_arch_ops_var s1 = None" "cpuid_c (cpuid_leaf (e_cpuid e) 1) AND push_bit 5 1 = 0"
  shows "asor_entry e s = Some (Halting (s1\<lparr>virt_arch_ops_var := Some X86VirtArchOps, current_guest := Some 0,
    console := console s1 @ [(''Hello ASOR.'' @ NL, []), (''Error: vmx not supported.'' @ NL, []),
      (''Error: vmx not supported.'' @ NL, [])]\<rparr>))"
  using assms
  by (simp add: asor_entry_def register_virt_ops_def get_x86_virt_arch_ops_def enable_hw_virt_def get_virt_arch_ops_def
      virt_ops_of_def x86_virt_arch_ops_def x86_virt_enable_def is_vmx_supported_def kprintf_def)

theorem asor_entry_no_vmx_witness:
  "\<exists>s'. asor_entry (boot_env\<lparr>e_cpuid := \<lambda>_ _. \<lparr>cpuid_a = 1, cpuid_b = 0, cpuid_c = 0, cpuid_d = 0\<rparr>\<rparr>) boot_machine =
     Some (Halting s') \<and> \<not> guest_finished s' \<and> \<not> launched s'"
proof -
  let ?e = "boot_env\<lparr>e_cpuid := \<lambda>_ _. \<lparr>cpuid_a = 1, cpuid_b = 0, cpuid_c = 0, cpuid_d = 0\<rparr>\<rparr>"
  have "{Suc 2..4} = {3, 4::nat}" by auto
  then have "mmu_pages (2 ^ 32) = 5" by (simp add: mmu_pages_def run_pages_def new_tables_def pt_shift_def)
  then obtain s1 where s1: "setup_vm boot_machine = Some s1" "run_fields s1 = run_fields boot_machine"
      "vm_state.more s1 = vm_state.more boot_machine"
    using setup_vm_full[of boot_machine "0x100000" "0x1100000" "0x100000" "0x1100000" 4096 "2 ^ 32"]
      boot_machine_ready(5) by (auto simp: boot_memory_def boot_machine_def vm_state.extend_def)
  have f: "\<not> guest_finished boot_machine" "\<not> launched boot_machine" "virt_arch_ops_var boot_machine = None"
    by (simp_all add: boot_machine_def vm_state.extend_def vm_machine_def phys_state.extend_def phys_machine_def
        vmx_state.extend_def vmx0_def)
  have v: "virt_arch_ops_var s1 = None" using virt_var_more[OF s1(3)] f(3) by simp
  have c: "cpuid_c (cpuid_leaf (e_cpuid ?e) 1) AND push_bit 5 1 = 0"
    by (simp add: cpuid_leaf_def cpuid_indexed_def raw_cpuid_def)
  show ?thesis using asor_entry_no_vmx[OF s1(1) v c] s1(2) f(1,2) by (simp add: run_fields_def)
qed

end
