(* ===== verification/Smp.thy ===== *)
theory Smp
  imports Prelude
begin

text \<open>
  \<^verbatim>\<open>lib/x86/smp.c\<close>: running a function on another processor with an inter-processor interrupt. The
  processors share the variables of \<^verbatim>\<open>smp.c\<close> and run at their own pace, so the component is a step
  relation: a processor executes the next access to a shared variable of \<^verbatim>\<open>__on_cpu\<close> or of the interrupt
  handler \<^verbatim>\<open>ipi\<close>, or accepts a pending interrupt.
\<close>

section \<open>State\<close>

text \<open>The arguments of \<^verbatim>\<open>__on_cpu\<close>.\<close>

record ('f, 'd) request =
  r_cpu :: nat
  r_function :: 'f
  r_data :: 'd
  r_wait :: bool

text \<open>Where a processor is in \<^verbatim>\<open>__on_cpu\<close>: before \<^verbatim>\<open>spin_lock\<close>, at the comparison with \<^verbatim>\<open>smp_id()\<close>, before
  \<^verbatim>\<open>function(data)\<close>, \<^verbatim>\<open>atomic_inc\<close>, the four assignments, \<^verbatim>\<open>apic_icr_write\<close>, in the loop, before \<^verbatim>\<open>spin_unlock\<close>
  (with a flag telling whether an interrupt was sent).\<close>

datatype ('f, 'd) tpc =
    T_idle
  | T_lock "('f, 'd) request"
  | T_check "('f, 'd) request"
  | T_local "('f, 'd) request"
  | T_inc "('f, 'd) request"
  | T_done0 "('f, 'd) request"
  | T_fun "('f, 'd) request"
  | T_data "('f, 'd) request"
  | T_wait "('f, 'd) request"
  | T_icr "('f, 'd) request"
  | T_spin "('f, 'd) request"
  | T_unlock "('f, 'd) request" bool

text \<open>Where it is in \<^verbatim>\<open>ipi\<close>: not in it, before each of the three reads, before \<^verbatim>\<open>ipi_done = 1\<close> and the EOI of the
  first branch, before \<^verbatim>\<open>function(data)\<close>, \<^verbatim>\<open>atomic_dec\<close>, the same two of the second branch, before \<^verbatim>\<open>iretq\<close>.\<close>

datatype ('f, 'd) hpc =
    H_none
  | H_fun
  | H_data 'f
  | H_wait 'f 'd
  | H_done 'f 'd
  | H_eoi 'f 'd
  | H_call 'f 'd bool
  | H_dec bool
  | H_done2
  | H_eoi2
  | H_iret

text \<open>What a processor has still to do: calls, and waiting for the others as at the end of \<^verbatim>\<open>on_cpus\<close>.\<close>

datatype ('f, 'd) cmd = Call "('f, 'd) request" | WaitActive

text \<open>The variables of \<^verbatim>\<open>smp.c\<close>; per processor the interrupt request bit of the vector, the two program points and the
  program; what the functions work on; and, as a history, the functions sent to and run on each
  processor by interrupts and those called directly.\<close>

record ('f, 'd, 'w) smp_state =
  ipi_lock :: u32
  ipi_function :: 'f
  ipi_data :: 'd
  ipi_done :: bool
  ipi_wait :: bool
  active_cpus :: int
  irr :: "nat \<Rightarrow> bool"
  thr :: "nat \<Rightarrow> ('f, 'd) tpc"
  prog :: "nat \<Rightarrow> ('f, 'd) cmd list"
  hnd :: "nat \<Rightarrow> ('f, 'd) hpc"
  world :: 'w
  sent :: "nat \<Rightarrow> ('f \<times> 'd) list"
  ran :: "nat \<Rightarrow> ('f \<times> 'd) list"
  direct :: "(nat \<times> 'f \<times> 'd) list"

text \<open>Parameters: what calling a function does on a processor, and what \<^verbatim>\<open>%gs:0\<close> holds there.\<close>

record ('f, 'd, 'w) smp_env =
  run_function :: "'f \<Rightarrow> 'd \<Rightarrow> nat \<Rightarrow> 'w \<Rightarrow> 'w"
  gs_word :: "'w \<Rightarrow> nat \<Rightarrow> nat"

section \<open>Operations\<close>

definition smp_id :: "('f, 'd, 'w) smp_env \<Rightarrow> nat \<Rightarrow> ('f, 'd, 'w) smp_state \<Rightarrow> nat" where
  "smp_id env c s = gs_word env (world s) c"

definition cpus_active :: "('f, 'd, 'w) smp_state \<Rightarrow> int" where
  "cpus_active s = active_cpus s"

definition go :: "nat \<Rightarrow> ('f, 'd) tpc \<Rightarrow> ('f, 'd, 'w) smp_state \<Rightarrow> ('f, 'd, 'w) smp_state" where
  "go c p s = s\<lparr>thr := (thr s)(c := p)\<rparr>"

definition hgo :: "nat \<Rightarrow> ('f, 'd) hpc \<Rightarrow> ('f, 'd, 'w) smp_state \<Rightarrow> ('f, 'd, 'w) smp_state" where
  "hgo c h s = s\<lparr>hnd := (hnd s)(c := h)\<rparr>"

text \<open>One access of \<^verbatim>\<open>__on_cpu\<close> on processor \<open>c\<close>; \<open>None\<close> where it has to wait or has nothing to do.\<close>

fun on_cpu_step ::
  "('f, 'd, 'w) smp_env \<Rightarrow> nat \<Rightarrow> ('f, 'd) tpc \<Rightarrow> ('f, 'd, 'w) smp_state \<Rightarrow> ('f, 'd, 'w) smp_state option" where
  "on_cpu_step env c T_idle s =
     (case prog s c of
        [] \<Rightarrow> None
      | Call r # p \<Rightarrow> Some (go c (T_lock r) (s\<lparr>prog := (prog s)(c := p)\<rparr>))
      | WaitActive # p \<Rightarrow> if cpus_active s > 1 then None else Some (s\<lparr>prog := (prog s)(c := p)\<rparr>))"
| "on_cpu_step env c (T_lock r) s =
     map_option (\<lambda>v. go c (T_check r) (s\<lparr>ipi_lock := v\<rparr>)) (spin_lock (ipi_lock s))"
| "on_cpu_step env c (T_check r) s = Some (go c (if r_cpu r = smp_id env c s then T_local r else T_inc r) s)"
| "on_cpu_step env c (T_local r) s =
     Some (go c (T_unlock r False) (s\<lparr>world := run_function env (r_function r) (r_data r) c (world s),
       direct := direct s @ [(r_cpu r, r_function r, r_data r)]\<rparr>))"
| "on_cpu_step env c (T_inc r) s = Some (go c (T_done0 r) (s\<lparr>active_cpus := active_cpus s + 1\<rparr>))"
| "on_cpu_step env c (T_done0 r) s = Some (go c (T_fun r) (s\<lparr>ipi_done := False\<rparr>))"
| "on_cpu_step env c (T_fun r) s = Some (go c (T_data r) (s\<lparr>ipi_function := r_function r\<rparr>))"
| "on_cpu_step env c (T_data r) s = Some (go c (T_wait r) (s\<lparr>ipi_data := r_data r\<rparr>))"
| "on_cpu_step env c (T_wait r) s = Some (go c (T_icr r) (s\<lparr>ipi_wait := r_wait r\<rparr>))"
| "on_cpu_step env c (T_icr r) s =
     Some (go c (T_spin r) (s\<lparr>irr := (irr s)(r_cpu r := True),
       sent := (sent s)(r_cpu r := sent s (r_cpu r) @ [(r_function r, r_data r)])\<rparr>))"
| "on_cpu_step env c (T_spin r) s = (if ipi_done s then Some (go c (T_unlock r True) s) else None)"
| "on_cpu_step env c (T_unlock r b) s = Some (go c T_idle (s\<lparr>ipi_lock := spin_unlock (ipi_lock s)\<rparr>))"

text \<open>One access of the handler \<^verbatim>\<open>ipi\<close> on processor \<open>c\<close>.\<close>

fun ipi_step ::
  "('f, 'd, 'w) smp_env \<Rightarrow> nat \<Rightarrow> ('f, 'd) hpc \<Rightarrow> ('f, 'd, 'w) smp_state \<Rightarrow> ('f, 'd, 'w) smp_state option" where
  "ipi_step env c H_none s = None"
| "ipi_step env c H_fun s = Some (hgo c (H_data (ipi_function s)) s)"
| "ipi_step env c (H_data f) s = Some (hgo c (H_wait f (ipi_data s)) s)"
| "ipi_step env c (H_wait f d) s = Some (hgo c (if ipi_wait s then H_call f d True else H_done f d) s)"
| "ipi_step env c (H_done f d) s = Some (hgo c (H_eoi f d) (s\<lparr>ipi_done := True\<rparr>))"
| "ipi_step env c (H_eoi f d) s = Some (hgo c (H_call f d False) s)"
| "ipi_step env c (H_call f d w) s =
     Some (hgo c (H_dec w) (s\<lparr>world := run_function env f d c (world s), ran := (ran s)(c := ran s c @ [(f, d)])\<rparr>))"
| "ipi_step env c (H_dec w) s = Some (hgo c (if w then H_done2 else H_iret) (s\<lparr>active_cpus := active_cpus s - 1\<rparr>))"
| "ipi_step env c H_done2 s = Some (hgo c H_eoi2 (s\<lparr>ipi_done := True\<rparr>))"
| "ipi_step env c H_eoi2 s = Some (hgo c H_iret s)"
| "ipi_step env c H_iret s = Some (hgo c H_none s)"

text \<open>The next step of processor \<open>c\<close>: the handler goes first while it runs (interrupts are off in it); a pending
  interrupt may be accepted between two steps of \<^verbatim>\<open>__on_cpu\<close>.\<close>

definition cpu_step ::
  "('f, 'd, 'w) smp_env \<Rightarrow> nat \<Rightarrow> ('f, 'd, 'w) smp_state \<Rightarrow> ('f, 'd, 'w) smp_state option" where
  "cpu_step env c s = (if hnd s c \<noteq> H_none then ipi_step env c (hnd s c) s else on_cpu_step env c (thr s c) s)"

definition take_ipi :: "nat \<Rightarrow> ('f, 'd, 'w) smp_state \<Rightarrow> ('f, 'd, 'w) smp_state option" where
  "take_ipi c s = (if irr s c \<and> hnd s c = H_none then Some (hgo c H_fun (s\<lparr>irr := (irr s)(c := False)\<rparr>)) else None)"

inductive smp_step ::
  "('f, 'd, 'w) smp_env \<Rightarrow> nat \<Rightarrow> ('f, 'd, 'w) smp_state \<Rightarrow> ('f, 'd, 'w) smp_state \<Rightarrow> bool"
  for env :: "('f, 'd, 'w) smp_env" and n :: nat where
  cpu: "c < n \<Longrightarrow> cpu_step env c s = Some s' \<Longrightarrow> smp_step env n s s'"
| interrupt: "c < n \<Longrightarrow> take_ipi c s = Some s' \<Longrightarrow> smp_step env n s s'"

text \<open>The calls of \<^verbatim>\<open>smp.h\<close>, as what a processor then has to do.\<close>

definition on_cpu :: "nat \<Rightarrow> 'f \<Rightarrow> 'd \<Rightarrow> ('f, 'd) cmd" where
  "on_cpu cpu f d = Call \<lparr>r_cpu = cpu, r_function = f, r_data = d, r_wait = True\<rparr>"

definition on_cpu_async :: "nat \<Rightarrow> 'f \<Rightarrow> 'd \<Rightarrow> ('f, 'd) cmd" where
  "on_cpu_async cpu f d = Call \<lparr>r_cpu = cpu, r_function = f, r_data = d, r_wait = False\<rparr>"

definition on_cpus :: "nat \<Rightarrow> 'f \<Rightarrow> 'd \<Rightarrow> ('f, 'd) cmd list" where
  "on_cpus cpu_count f d = map (\<lambda>cpu. on_cpu_async cpu f d) (rev [0..<cpu_count]) @ [WaitActive]"

end
