(* ===== verification/Smp_Inv.thy ===== *)
theory Smp_Inv
  imports Smp
begin

text \<open>
  The invariant of the protocol of \<^verbatim>\<open>smp.c\<close>, kept by every step of every processor.
\<close>

section \<open>The invariant\<close>

text \<open>A thread holds the lock; the interrupt handler has not yet set \<^verbatim>\<open>ipi_done\<close>.\<close>

fun crit :: "('f, 'd) tpc \<Rightarrow> bool" where
  "crit T_idle = False"
| "crit (T_lock r) = False"
| "crit _ = True"

fun hbusy :: "('f, 'd) hpc \<Rightarrow> bool" where
  "hbusy H_fun = True"
| "hbusy (H_data f) = True"
| "hbusy (H_wait f d) = True"
| "hbusy (H_done f d) = True"
| "hbusy (H_call f d w) = w"
| "hbusy (H_dec w) = w"
| "hbusy H_done2 = True"
| "hbusy _ = False"

definition busy :: "('f, 'd, 'w) smp_state \<Rightarrow> nat \<Rightarrow> bool" where
  "busy s c \<longleftrightarrow> irr s c \<or> hbusy (hnd s c)"

text \<open>The function a handler still has to run, and all the functions on their way to a processor.\<close>

fun hwork :: "('f, 'd) hpc \<Rightarrow> 'f \<Rightarrow> 'd \<Rightarrow> ('f \<times> 'd) list" where
  "hwork H_fun f0 d0 = [(f0, d0)]"
| "hwork (H_data f) f0 d0 = [(f, d0)]"
| "hwork (H_wait f d) f0 d0 = [(f, d)]"
| "hwork (H_done f d) f0 d0 = [(f, d)]"
| "hwork (H_eoi f d) f0 d0 = [(f, d)]"
| "hwork (H_call f d w) f0 d0 = [(f, d)]"
| "hwork _ f0 d0 = []"

definition inflight :: "('f, 'd, 'w) smp_state \<Rightarrow> nat \<Rightarrow> ('f \<times> 'd) list" where
  "inflight s c = hwork (hnd s c) (ipi_function s) (ipi_data s) @
     (if irr s c then [(ipi_function s, ipi_data s)] else [])"

text \<open>The shared variables hold a request.\<close>

definition holds :: "('f, 'd, 'w) smp_state \<Rightarrow> ('f, 'd) request \<Rightarrow> bool" where
  "holds s r \<longleftrightarrow> ipi_function s = r_function r \<and> ipi_data s = r_data r \<and> ipi_wait s = r_wait r"

text \<open>What a processor on the way through \<^verbatim>\<open>__on_cpu\<close> has established.\<close>

fun tfacts :: "('f, 'd) tpc \<Rightarrow> ('f, 'd, 'w) smp_state \<Rightarrow> bool" where
  "tfacts (T_fun r) s \<longleftrightarrow> \<not> ipi_done s"
| "tfacts (T_data r) s \<longleftrightarrow> \<not> ipi_done s \<and> ipi_function s = r_function r"
| "tfacts (T_wait r) s \<longleftrightarrow> \<not> ipi_done s \<and> ipi_function s = r_function r \<and> ipi_data s = r_data r"
| "tfacts (T_icr r) s \<longleftrightarrow> \<not> ipi_done s \<and> holds s r"
| "tfacts (T_spin r) s \<longleftrightarrow> holds s r \<and>
     (if ipi_done s then \<not> busy s (r_cpu r) \<and>
        (r_wait r \<longrightarrow> inflight s (r_cpu r) = [] \<and> (\<exists>us. ran s (r_cpu r) = us @ [(r_function r, r_data r)]))
      else busy s (r_cpu r))"
| "tfacts (T_unlock r b) s \<longleftrightarrow> (b \<longrightarrow> \<not> busy s (r_cpu r) \<and>
     (r_wait r \<longrightarrow> inflight s (r_cpu r) = [] \<and> (\<exists>us. ran s (r_cpu r) = us @ [(r_function r, r_data r)])))"
| "tfacts _ s \<longleftrightarrow> True"

text \<open>What a handler has read; after the call of a request that is waited for, it is the last one run.\<close>

fun hfacts :: "nat \<Rightarrow> ('f, 'd) hpc \<Rightarrow> ('f, 'd, 'w) smp_state \<Rightarrow> bool" where
  "hfacts c (H_data f) s \<longleftrightarrow> f = ipi_function s"
| "hfacts c (H_wait f d) s \<longleftrightarrow> f = ipi_function s \<and> d = ipi_data s"
| "hfacts c (H_done f d) s \<longleftrightarrow> f = ipi_function s \<and> d = ipi_data s \<and> \<not> ipi_wait s"
| "hfacts c (H_call f d w) s \<longleftrightarrow> (w \<longrightarrow> f = ipi_function s \<and> d = ipi_data s \<and> ipi_wait s)"
| "hfacts c (H_dec w) s \<longleftrightarrow> (w \<longrightarrow> ipi_wait s \<and> (\<exists>us. ran s c = us @ [(ipi_function s, ipi_data s)]))"
| "hfacts c H_done2 s \<longleftrightarrow> ipi_wait s \<and> (\<exists>us. ran s c = us @ [(ipi_function s, ipi_data s)])"
| "hfacts c _ s \<longleftrightarrow> True"

definition smp_inv :: "('f, 'd, 'w) smp_state \<Rightarrow> bool" where
  "smp_inv s \<longleftrightarrow>
     ipi_lock s = (if \<exists>c. crit (thr s c) then 1 else 0) \<and>
     (\<forall>c c'. crit (thr s c) \<longrightarrow> crit (thr s c') \<longrightarrow> c = c') \<and>
     (\<forall>c. tfacts (thr s c) s) \<and> (\<forall>c. hfacts c (hnd s c) s) \<and>
     (\<forall>c. busy s c \<longrightarrow> \<not> ipi_done s \<and> (\<exists>k r. thr s k = T_spin r \<and> r_cpu r = c)) \<and>
     (\<forall>c. irr s c \<longrightarrow> \<not> hbusy (hnd s c)) \<and>
     (\<forall>c. sent s c = ran s c @ inflight s c)"

lemmas smp_defs = busy_def inflight_def holds_def go_def hgo_def

text \<open>While a processor holds the lock outside its waiting loop, no interrupt is on its way.\<close>

lemma crit_not_busy:
  assumes "smp_inv s" "crit (thr s c)" "\<not> (\<exists>r. thr s c = T_spin r)"
  shows "\<not> busy s k"
proof
  assume "busy s k"
  then obtain j r where j: "thr s j = T_spin r" using assms(1) unfolding smp_inv_def by blast
  then have "j = c" using assms(1,2) unfolding smp_inv_def by (metis crit.simps(11))
  then show False using j assms(3) by blast
qed

section \<open>Steps of \<open>__on_cpu\<close>\<close>

lemma smp_invD:
  assumes "smp_inv s"
  shows "ipi_lock s = (if \<exists>c. crit (thr s c) then 1 else 0)"
    "\<And>c c'. crit (thr s c) \<Longrightarrow> crit (thr s c') \<Longrightarrow> c = c'"
    "\<And>c. tfacts (thr s c) s" "\<And>c. hfacts c (hnd s c) s"
    "\<And>c. busy s c \<Longrightarrow> \<not> ipi_done s" "\<And>c. busy s c \<Longrightarrow> \<exists>k r. thr s k = T_spin r \<and> r_cpu r = c"
    "\<And>c. irr s c \<Longrightarrow> \<not> hbusy (hnd s c)" "\<And>c. sent s c = ran s c @ inflight s c"
  using assms unfolding smp_inv_def by blast+

lemma smp_invI:
  assumes "ipi_lock s = (if \<exists>c. crit (thr s c) then 1 else 0)"
    "\<And>c c'. crit (thr s c) \<Longrightarrow> crit (thr s c') \<Longrightarrow> c = c'"
    "\<And>c. tfacts (thr s c) s" "\<And>c. hfacts c (hnd s c) s"
    "\<And>c. busy s c \<Longrightarrow> \<not> ipi_done s" "\<And>c. busy s c \<Longrightarrow> \<exists>k r. thr s k = T_spin r \<and> r_cpu r = c"
    "\<And>c. irr s c \<Longrightarrow> \<not> hbusy (hnd s c)" "\<And>c. sent s c = ran s c @ inflight s c"
  shows "smp_inv s"
  unfolding smp_inv_def using assms by blast

lemma tfacts_out: "\<not> crit p \<Longrightarrow> tfacts p s"
  by (cases p) simp_all

lemma quiet_handler: "\<not> hbusy h \<Longrightarrow> hfacts c h s" "\<not> hbusy h \<Longrightarrow> hwork h f d = hwork h f' d'"
  by (cases h; simp)+

lemma crit_update:
  assumes inv: "smp_inv s" and c: "crit (thr s c)" "\<not> (\<exists>r. thr s c = T_spin r)" and p: "crit p"
    and s': "s' = s\<lparr>thr := (thr s)(c := p), ipi_function := f, ipi_data := d, ipi_wait := w, ipi_done := b,
      active_cpus := a, world := x, direct := l\<rparr>"
    and t: "tfacts p s'"
  shows "smp_inv s'"
proof -
  note D = smp_invD[OF inv]
  have nb: "\<not> irr s k" "\<not> hbusy (hnd s k)" for k using crit_not_busy[OF inv c, of k] by (auto simp: busy_def)
  have lock: "ipi_lock s' = (if \<exists>c. crit (thr s' c) then 1 else 0)"
  proof -
    have "\<exists>c. crit (thr s' c)" using p by (intro exI[of _ c]) (simp add: s')
    moreover have "\<exists>c. crit (thr s c)" using c(1) by blast
    ultimately show ?thesis using D(1) by (simp add: s')
  qed
  have one: "k = k'" if "crit (thr s' k)" "crit (thr s' k')" for k k'
    using that D(2) c(1) by (auto simp: s' split: if_splits)
  have tf: "tfacts (thr s' k) s'" for k
  proof (cases "k = c")
    case True
    have "thr s' c = p" by (simp add: s')
    then show ?thesis using True t by simp
  next
    case False
    have "crit (thr s' c)" using p by (simp add: s')
    then have "\<not> crit (thr s' k)" using one[of k c] False by blast
    then show ?thesis by (rule tfacts_out)
  qed
  have "inflight s' k = inflight s k" for k
    using nb[of k] quiet_handler(2)[OF nb(2), of k f d "ipi_function s" "ipi_data s"] by (simp add: s' inflight_def)
  moreover have "irr s' = irr s" "hnd s' = hnd s" "sent s' = sent s" "ran s' = ran s" by (simp_all add: s')
  moreover have "hfacts k (hnd s k) s'" for k using nb(2) by (rule quiet_handler(1))
  ultimately show ?thesis using nb D(8) lock one tf by (intro smp_invI) (simp_all add: busy_def)
qed

lemma inv_start:
  assumes "smp_inv s" "thr s c = T_idle" "\<not> crit p" "s' = s\<lparr>prog := q, thr := (thr s)(c := p)\<rparr>"
  shows "smp_inv s'"
proof -
  note D = smp_invD[OF assms(1)]
  have fs: "irr s' = irr s" "hnd s' = hnd s" "sent s' = sent s" "ran s' = ran s" "ipi_lock s' = ipi_lock s"
    "ipi_function s' = ipi_function s" "ipi_data s' = ipi_data s" "ipi_wait s' = ipi_wait s" "ipi_done s' = ipi_done s"
    by (simp_all add: assms(4))
  have b: "busy s' k = busy s k" "inflight s' k = inflight s k" for k by (simp_all add: busy_def inflight_def fs)
  have t: "thr s' k = (if k = c then p else thr s k)" for k by (simp add: assms(4))
  have cr: "crit (thr s' k) = crit (thr s k)" for k using assms(2,3) by (simp add: t)
  have tf: "tfacts p s' = tfacts p s" for p by (cases p) (simp_all add: b fs holds_def)
  have hf: "hfacts k h s' = hfacts k h s" for k h by (cases h) (simp_all add: fs)
  have sp: "\<exists>k r. thr s' k = T_spin r \<and> r_cpu r = k'" if bk: "busy s k'" for k'
  proof -
    obtain k r where "thr s k = T_spin r" "r_cpu r = k'" using D(6)[OF bk] by blast
    then have "thr s' k = T_spin r \<and> r_cpu r = k'" using assms(2) by (auto simp: t)
    then show ?thesis by blast
  qed
  have "tfacts (thr s' k) s'" for k
    using D(3)[of k] tfacts_out[OF assms(3), of s'] by (simp add: t tf)
  then show ?thesis using D sp by (intro smp_invI) (simp_all add: cr hf b fs)
qed

lemma inv_lock:
  assumes inv: "smp_inv s" and c: "\<not> crit (thr s c)" and l: "spin_lock (ipi_lock s) = Some v"
    and s': "s' = s\<lparr>ipi_lock := v, thr := (thr s)(c := T_check r)\<rparr>"
  shows "smp_inv s'"
proof -
  note D = smp_invD[OF inv]
  have v: "v = 1" "\<not> crit (thr s k)" for k using l D(1) by (auto simp: spin_lock_def split: if_splits)
  have nb: "\<not> busy s k" for k using D(6)[of k] v(2) by (metis crit.simps(11))
  have t: "thr s' k = (if k = c then T_check r else thr s k)" for k by (simp add: s')
  have fs: "irr s' = irr s" "hnd s' = hnd s" "sent s' = sent s" "ran s' = ran s"
    "ipi_function s' = ipi_function s" "ipi_data s' = ipi_data s" "ipi_lock s' = 1" by (simp_all add: s' v(1))
  have b: "busy s' k = busy s k" "inflight s' k = inflight s k" for k by (simp_all add: busy_def inflight_def fs)
  have "tfacts (thr s' k) s'" for k using tfacts_out[OF v(2)[of k], of s'] by (simp add: t)
  moreover have "hfacts k (hnd s k) s'" for k using nb[of k] by (intro quiet_handler(1)) (simp add: busy_def)
  moreover have "\<exists>k. crit (thr s' k)" by (intro exI[of _ c]) (simp add: t)
  ultimately show ?thesis using D(7,8) nb v(2) by (intro smp_invI) (auto simp: b fs t split: if_splits)
qed

lemma inv_unlock:
  assumes inv: "smp_inv s" and c: "thr s c = T_unlock r b"
    and s': "s' = s\<lparr>ipi_lock := spin_unlock (ipi_lock s), thr := (thr s)(c := T_idle)\<rparr>"
  shows "smp_inv s'"
proof -
  note D = smp_invD[OF inv]
  have cr: "crit (thr s c)" using c by simp
  have nb: "\<not> busy s k" for k using crit_not_busy[OF inv cr] c by simp
  have t: "\<not> crit (thr s' k)" for k using D(2)[OF cr, of k] by (cases "k = c") (auto simp: s')
  have fs: "irr s' = irr s" "hnd s' = hnd s" "sent s' = sent s" "ran s' = ran s"
    "ipi_function s' = ipi_function s" "ipi_data s' = ipi_data s" "ipi_lock s' = 0" by (simp_all add: s')
  have b: "busy s' k = busy s k" "inflight s' k = inflight s k" for k by (simp_all add: busy_def inflight_def fs)
  have "hfacts k (hnd s k) s'" for k using nb[of k] by (intro quiet_handler(1)) (simp add: busy_def)
  moreover have "tfacts (thr s' k) s'" for k using t by (rule tfacts_out)
  ultimately show ?thesis using D(7,8) nb t by (intro smp_invI) (simp_all add: b fs)
qed

text \<open>Sending the interrupt.\<close>

lemma inv_icr:
  assumes inv: "smp_inv s" and c: "thr s c = T_icr r"
    and s': "s' = s\<lparr>irr := (irr s)(r_cpu r := True),
      sent := (sent s)(r_cpu r := sent s (r_cpu r) @ [(r_function r, r_data r)]), thr := (thr s)(c := T_spin r)\<rparr>"
  shows "smp_inv s'"
proof -
  note D = smp_invD[OF inv]
  have cr: "crit (thr s c)" using c by simp
  have nb: "\<not> irr s k" "\<not> hbusy (hnd s k)" for k using crit_not_busy[OF inv cr, of k] c by (simp_all add: busy_def)
  have h: "\<not> ipi_done s" "holds s r" using D(3)[of c] c by simp_all
  have fs: "hnd s' = hnd s" "ran s' = ran s" "ipi_function s' = ipi_function s" "ipi_data s' = ipi_data s"
    "ipi_wait s' = ipi_wait s" "ipi_done s' = ipi_done s" "ipi_lock s' = ipi_lock s" by (simp_all add: s')
  have ir: "irr s' k \<longleftrightarrow> k = r_cpu r" for k using nb by (simp add: s')
  have b: "busy s' k \<longleftrightarrow> k = r_cpu r" for k using nb(2) by (simp add: busy_def ir fs)
  have t: "thr s' k = (if k = c then T_spin r else thr s k)" for k by (simp add: s')
  have tc: "thr s' c = T_spin r" by (simp add: t)
  have out: "\<not> crit (thr s k)" if "k \<noteq> c" for k using D(2)[OF cr, of k] that by blast
  have crk: "crit (thr s' k) \<longleftrightarrow> k = c" for k using out by (auto simp: t)
  have "tfacts (thr s' k) s'" for k
  proof (cases "k = c")
    case True
    then show ?thesis using h by (simp add: tc b fs holds_def)
  next
    case False
    then show ?thesis using tfacts_out[OF out[OF False]] by (simp add: t)
  qed
  moreover have "hfacts k (hnd s' k) s'" for k using nb(2) fs(1) by (metis quiet_handler(1))
  moreover have "sent s' k = ran s' k @ inflight s' k" for k
    using D(8)[of k] nb(1)[of k] h(2) by (auto simp: inflight_def fs ir holds_def) (auto simp: s')
  moreover have "ipi_lock s' = (if \<exists>c. crit (thr s' c) then 1 else 0)"
    using D(1) cr by (auto simp: fs crk)
  ultimately show ?thesis using h nb tc by (intro smp_invI) (auto simp: crk b fs ir)
qed

lemma inv_spin:
  assumes inv: "smp_inv s" and c: "thr s c = T_spin r" and d: "ipi_done s"
    and s': "s' = s\<lparr>thr := (thr s)(c := T_unlock r True)\<rparr>"
  shows "smp_inv s'"
proof -
  note D = smp_invD[OF inv]
  have cr: "crit (thr s c)" using c by simp
  have nb: "\<not> busy s k" for k using D(5)[of k] d by blast
  have fs: "irr s' = irr s" "hnd s' = hnd s" "sent s' = sent s" "ran s' = ran s" "ipi_lock s' = ipi_lock s"
    "ipi_function s' = ipi_function s" "ipi_data s' = ipi_data s" by (simp_all add: s')
  have b: "busy s' k = busy s k" "inflight s' k = inflight s k" for k by (simp_all add: busy_def inflight_def fs)
  have t: "thr s' k = (if k = c then T_unlock r True else thr s k)" for k by (simp add: s')
  have out: "\<not> crit (thr s k)" if "k \<noteq> c" for k using D(2)[OF cr, of k] that by blast
  have crk: "crit (thr s' k) \<longleftrightarrow> k = c" for k using out by (auto simp: t)
  have "tfacts (thr s' k) s'" for k
  proof (cases "k = c")
    case True
    have "tfacts (T_spin r) s" using D(3)[of c] c by simp
    then show ?thesis using True d by (simp add: t b fs)
  next
    case False
    then show ?thesis using tfacts_out[OF out[OF False]] by (simp add: t)
  qed
  moreover have "hfacts k (hnd s' k) s'" for k using nb[of k] fs(2) by (metis quiet_handler(1) busy_def)
  moreover have "ipi_lock s' = (if \<exists>c. crit (thr s' c) then 1 else 0)"
    using D(1) cr by (auto simp: fs crk)
  ultimately show ?thesis using D(7,8) nb by (intro smp_invI) (simp_all add: crk b fs)
qed

lemma inv_on_cpu_step:
  assumes inv: "smp_inv s" and st: "on_cpu_step env c (thr s c) s = Some s'"
  shows "smp_inv s'"
proof -
  note u = crit_update[where c = c and s' = s' and p = "thr s' c" and f = "ipi_function s'" and d = "ipi_data s'"
    and w = "ipi_wait s'" and b = "ipi_done s'" and a = "active_cpus s'" and x = "world s'"
    and l = "direct s'", OF inv]
  show ?thesis
  proof (cases "thr s c")
    case T_idle
    have "(thr s)(c := T_idle) = thr s" using T_idle by (simp add: fun_upd_idem)
    then have "smp_inv (s\<lparr>prog := q\<rparr>)" for q using inv_start[OF inv T_idle, of T_idle "s\<lparr>prog := q\<rparr>" q] by simp
    moreover have "smp_inv (s\<lparr>prog := q, thr := (thr s)(c := T_lock r)\<rparr>)" for q r
      by (rule inv_start[OF inv T_idle, of "T_lock r"]) simp_all
    ultimately show ?thesis using st T_idle by (auto simp: go_def split: list.splits cmd.splits if_splits)
  next
    case (T_lock r)
    then show ?thesis using st inv_lock[OF inv, of c] by (auto simp: go_def)
  next
    case (T_icr r)
    then show ?thesis using st inv_icr[OF inv T_icr] by (simp add: go_def)
  next
    case (T_spin r)
    then show ?thesis using st inv_spin[OF inv T_spin] by (auto simp: go_def split: if_splits)
  next
    case (T_unlock r b)
    then show ?thesis using st inv_unlock[OF inv T_unlock] by (simp add: go_def)
  next
    case (T_check r)
    then show ?thesis using st by (intro u) (auto simp: go_def)
  qed (rule u; use st smp_invD(3)[OF inv, of c] in \<open>auto simp: go_def holds_def\<close>)+
qed

section \<open>Steps of the interrupt handler\<close>

text \<open>A handler that is past \<^verbatim>\<open>ipi_done = 1\<close> works on its own: only the record of what has run changes.\<close>

lemma inv_quiet_handler:
  assumes inv: "smp_inv s" and h: "\<not> hbusy (hnd s c)" "\<not> hbusy h'"
    and w: "hwork (hnd s c) (ipi_function s) (ipi_data s) = us @ hwork h' (ipi_function s) (ipi_data s)"
    and s': "s' = s\<lparr>hnd := (hnd s)(c := h'), ran := (ran s)(c := ran s c @ us), active_cpus := a, world := x\<rparr>"
  shows "smp_inv s'"
proof -
  note D = smp_invD[OF inv]
  have fs: "irr s' = irr s" "sent s' = sent s" "thr s' = thr s" "ipi_lock s' = ipi_lock s" "ipi_done s' = ipi_done s"
    "ipi_function s' = ipi_function s" "ipi_data s' = ipi_data s" "ipi_wait s' = ipi_wait s" by (simp_all add: s')
  have hn: "hnd s' k = (if k = c then h' else hnd s k)" "ran s' k = (if k = c then ran s c @ us else ran s k)" for k
    by (simp_all add: s')
  have b: "busy s' k = busy s k" for k using h by (simp add: busy_def fs hn)
  have fl: "inflight s k = (if k = c then us @ inflight s' k else inflight s' k)" for k
    using w by (simp add: inflight_def fs hn)
  have "tfacts (thr s k) s'" for k
  proof -
    have emp: "inflight s' j = [] \<and> ran s' j = ran s j" if "inflight s j = []" for j
      using fl[of j] that by (auto simp: hn split: if_splits)
    show ?thesis using D(3)[of k] emp by (cases "thr s k") (auto simp: fs b holds_def)
  qed
  moreover have "hfacts k (hnd s' k) s'" for k
  proof (cases "k = c")
    case True
    then show ?thesis using quiet_handler(1)[OF h(2)] by (simp add: hn)
  next
    case False
    then show ?thesis using D(4)[of k] by (cases "hnd s k") (auto simp: hn fs)
  qed
  ultimately show ?thesis using D h(2) fl by (intro smp_invI) (auto simp: fs b hn)
qed

text \<open>The handler of the processor the holder of the lock waits for.\<close>

lemma busy_handler:
  assumes inv: "smp_inv s" and h: "hbusy (hnd s c)"
  obtains k r where "thr s k = T_spin r" "r_cpu r = c" "holds s r" "\<not> ipi_done s" "\<not> irr s c"
    "\<And>j. j \<noteq> k \<Longrightarrow> \<not> crit (thr s j)" "\<And>j. busy s j \<longleftrightarrow> j = c"
proof -
  note D = smp_invD[OF inv]
  have bc: "busy s c" using h by (simp add: busy_def)
  obtain k r where k: "thr s k = T_spin r" "r_cpu r = c" using D(6)[OF bc] by blast
  have "holds s r" using D(3)[of k] k(1) by simp
  moreover have "\<not> crit (thr s j)" if "j \<noteq> k" for j using D(2)[of j k] k(1) that by auto
  moreover have "j = c" if "busy s j" for j
    using D(6)[OF that] D(2) k by (metis crit.simps(11) tpc.inject(10))
  ultimately show ?thesis using that k D(5)[OF bc] D(7)[of c] h bc by blast
qed

lemma inv_busy_handler:
  assumes inv: "smp_inv s" and h: "hbusy (hnd s c)" "hbusy h'"
    and w: "hwork (hnd s c) (ipi_function s) (ipi_data s) = us @ hwork h' (ipi_function s) (ipi_data s)"
    and s': "s' = s\<lparr>hnd := (hnd s)(c := h'), ran := (ran s)(c := ran s c @ us), active_cpus := a, world := x\<rparr>"
    and hf: "hfacts c h' s'"
  shows "smp_inv s'"
proof -
  note D = smp_invD[OF inv]
  obtain k r where k: "thr s k = T_spin r" "r_cpu r = c" "holds s r" "\<not> ipi_done s" "\<not> irr s c"
    "\<And>j. j \<noteq> k \<Longrightarrow> \<not> crit (thr s j)" "\<And>j. busy s j \<longleftrightarrow> j = c"
    using busy_handler[OF inv h(1)] by blast
  have fs: "irr s' = irr s" "sent s' = sent s" "thr s' = thr s" "ipi_lock s' = ipi_lock s" "ipi_done s' = ipi_done s"
    "ipi_function s' = ipi_function s" "ipi_data s' = ipi_data s" "ipi_wait s' = ipi_wait s" by (simp_all add: s')
  have hn: "hnd s' j = (if j = c then h' else hnd s j)" "ran s' j = (if j = c then ran s c @ us else ran s j)" for j
    by (simp_all add: s')
  have b: "busy s' j = busy s j" for j using h by (simp add: busy_def fs hn)
  have fl: "inflight s j = (if j = c then us @ inflight s' j else inflight s' j)" for j
    using w by (simp add: inflight_def fs hn)
  have "tfacts (thr s j) s'" for j
  proof (cases "j = k")
    case True
    then show ?thesis using k(1-4) k(7) by (simp add: b fs holds_def)
  next
    case False
    show ?thesis by (rule tfacts_out[OF k(6)[OF False]])
  qed
  moreover have "hfacts j (hnd s' j) s'" for j
  proof (cases "j = c")
    case True
    then show ?thesis using hf by (simp add: hn)
  next
    case False
    then have "\<not> hbusy (hnd s j)" using k(7)[of j] by (simp add: busy_def)
    then show ?thesis using False quiet_handler(1) by (simp add: hn)
  qed
  ultimately show ?thesis using D(1,2,5-8) k(5) fl by (intro smp_invI) (auto simp: fs b hn)
qed

text \<open>The handler answers the waiting processor.\<close>

lemma inv_done_handler:
  assumes inv: "smp_inv s" and h: "hbusy (hnd s c)" "\<not> hbusy h'"
    and w: "hwork (hnd s c) (ipi_function s) (ipi_data s) = hwork h' (ipi_function s) (ipi_data s)"
    and s': "s' = s\<lparr>hnd := (hnd s)(c := h'), ipi_done := True\<rparr>"
    and r: "ipi_wait s \<Longrightarrow> hwork h' (ipi_function s) (ipi_data s) = [] \<and> (\<exists>us. ran s c = us @ [(ipi_function s, ipi_data s)])"
  shows "smp_inv s'"
proof -
  note D = smp_invD[OF inv]
  obtain k r where k: "thr s k = T_spin r" "r_cpu r = c" "holds s r" "\<not> ipi_done s" "\<not> irr s c"
    "\<And>j. j \<noteq> k \<Longrightarrow> \<not> crit (thr s j)" "\<And>j. busy s j \<longleftrightarrow> j = c"
    using busy_handler[OF inv h(1)] by blast
  have fs: "irr s' = irr s" "sent s' = sent s" "ran s' = ran s" "thr s' = thr s" "ipi_lock s' = ipi_lock s" "ipi_done s'"
    "ipi_function s' = ipi_function s" "ipi_data s' = ipi_data s" "ipi_wait s' = ipi_wait s" by (simp_all add: s')
  have hn: "hnd s' j = (if j = c then h' else hnd s j)" for j by (simp add: s')
  have nb: "\<not> irr s j" "\<not> hbusy (hnd s' j)" for j using k(5) k(7)[of j] h(2) by (auto simp: busy_def hn)
  have b: "\<not> busy s' j" for j using nb[of j] by (simp add: busy_def fs)
  have fl: "inflight s' j = inflight s j" for j using w by (simp add: inflight_def fs hn)
  have "tfacts (thr s j) s'" for j
  proof (cases "j = k")
    case True
    have "inflight s' c = [] \<and> (\<exists>us. ran s c = us @ [(r_function r, r_data r)])" if "r_wait r"
      using r that k(3,5) w by (simp add: holds_def inflight_def fs hn)
    then show ?thesis using True k(1-4) b by (simp add: fs holds_def)
  next
    case False
    show ?thesis by (rule tfacts_out[OF k(6)[OF False]])
  qed
  moreover have "hfacts j (hnd s' j) s'" for j using nb(2) by (rule quiet_handler(1))
  ultimately show ?thesis using D(1,2,8) nb b by (intro smp_invI) (simp_all add: fs fl)
qed

lemma inv_ipi_step:
  assumes inv: "smp_inv s" and st: "ipi_step env c (hnd s c) s = Some s'"
  shows "smp_inv s'"
proof -
  note F = smp_invD(4)[OF inv, of c]
  note q = inv_quiet_handler[where c = c and s' = s' and h' = "hnd s' c" and a = "active_cpus s'" and x = "world s'", OF inv]
    and b = inv_busy_handler[where c = c and s' = s' and h' = "hnd s' c" and a = "active_cpus s'" and x = "world s'", OF inv]
    and d = inv_done_handler[where c = c and s' = s' and h' = "hnd s' c", OF inv]
  show ?thesis
  proof (cases "hnd s c")
    case H_none
    then show ?thesis using st by simp
  next
    case H_fun
    show ?thesis using st H_fun by (intro b[where us = "[]"]) (auto simp: hgo_def)
  next
    case (H_data f)
    show ?thesis using st H_data F by (intro b[where us = "[]"]) (auto simp: hgo_def)
  next
    case (H_wait f d)
    show ?thesis using st H_wait F by (intro b[where us = "[]"]) (auto simp: hgo_def)
  next
    case (H_done f d)
    show ?thesis using st H_done F by (intro d) (auto simp: hgo_def)
  next
    case (H_eoi f d)
    show ?thesis using st H_eoi by (intro q[where us = "[]"]) (auto simp: hgo_def)
  next
    case (H_call f d w)
    show ?thesis
    proof (cases w)
      case True
      then show ?thesis using st H_call F by (intro b[where us = "[(f, d)]"]) (auto simp: hgo_def)
    next
      case False
      then show ?thesis using st H_call by (intro q[where us = "[(f, d)]"]) (auto simp: hgo_def)
    qed
  next
    case (H_dec w)
    show ?thesis
    proof (cases w)
      case True
      then show ?thesis using st H_dec F by (intro b[where us = "[]"]) (auto simp: hgo_def)
    next
      case False
      then show ?thesis using st H_dec by (intro q[where us = "[]"]) (auto simp: hgo_def)
    qed
  next
    case H_done2
    show ?thesis using st H_done2 F by (intro d) (auto simp: hgo_def)
  next
    case H_eoi2
    show ?thesis using st H_eoi2 by (intro q[where us = "[]"]) (auto simp: hgo_def)
  next
    case H_iret
    show ?thesis using st H_iret by (intro q[where us = "[]"]) (auto simp: hgo_def)
  qed
qed

lemma inv_take_ipi:
  assumes inv: "smp_inv s" and st: "take_ipi c s = Some s'"
  shows "smp_inv s'"
proof -
  note D = smp_invD[OF inv]
  have i: "irr s c" "hnd s c = H_none" and s': "s' = hgo c H_fun (s\<lparr>irr := (irr s)(c := False)\<rparr>)"
    using st by (simp_all add: take_ipi_def split: if_splits)
  have fs: "sent s' = sent s" "ran s' = ran s" "thr s' = thr s" "ipi_lock s' = ipi_lock s" "ipi_done s' = ipi_done s"
    "ipi_function s' = ipi_function s" "ipi_data s' = ipi_data s" "ipi_wait s' = ipi_wait s" by (simp_all add: s' hgo_def)
  have hn: "hnd s' j = (if j = c then H_fun else hnd s j)" "irr s' j \<longleftrightarrow> irr s j \<and> j \<noteq> c" for j
    by (simp_all add: s' hgo_def)
  have b: "busy s' j = busy s j" for j using i by (auto simp: busy_def hn)
  have fl: "inflight s' j = inflight s j" for j using i by (auto simp: inflight_def hn fs)
  have tf: "tfacts p s' = tfacts p s" for p by (cases p) (simp_all add: b fs fl holds_def)
  have "hfacts j (hnd s' j) s'" for j using D(4)[of j] by (cases "hnd s j") (auto simp: hn fs)
  then show ?thesis using D by (intro smp_invI) (auto simp: fs b fl tf hn)
qed

lemma smp_inv_step: "smp_step env n s s' \<Longrightarrow> smp_inv s \<Longrightarrow> smp_inv s'"
  by (induction rule: smp_step.induct)
    (auto simp: cpu_step_def dest: inv_ipi_step inv_on_cpu_step inv_take_ipi split: if_splits)

end
