(* ===== verification/Smp_Props.thy ===== *)
theory Smp_Props
  imports Smp_Inv "HOL-Library.Multiset"
begin

text \<open>
  Properties of running functions on other processors: exactly once and in order, waiting when asked to,
  never stuck, bounded.
\<close>

section \<open>Runs\<close>

definition smp_start :: "int \<Rightarrow> ('f, 'd, 'w) smp_state \<Rightarrow> bool" where
  "smp_start a s \<longleftrightarrow> ipi_lock s = 0 \<and> active_cpus s = a \<and> (\<forall>c. thr s c = T_idle \<and> hnd s c = H_none \<and> \<not> irr s c) \<and>
     (\<forall>c. sent s c = [] \<and> ran s c = []) \<and> direct s = []"

text \<open>Every call names one of the \<open>n\<close> processors, and only these have a program.\<close>

fun cmd_ok :: "nat \<Rightarrow> ('f, 'd) cmd \<Rightarrow> bool" where
  "cmd_ok n (Call r) = (r_cpu r < n)"
| "cmd_ok n WaitActive = True"

definition progs_ok :: "nat \<Rightarrow> ('f, 'd, 'w) smp_state \<Rightarrow> bool" where
  "progs_ok n s \<longleftrightarrow> (\<forall>c. list_all (cmd_ok n) (prog s c)) \<and> (\<forall>c\<ge>n. prog s c = [])"

inductive smp_reach :: "('f, 'd, 'w) smp_env \<Rightarrow> nat \<Rightarrow> ('f, 'd, 'w) smp_state \<Rightarrow> ('f, 'd, 'w) smp_state \<Rightarrow> bool"
  for env :: "('f, 'd, 'w) smp_env" and n :: nat and s0 :: "('f, 'd, 'w) smp_state" where
  start: "smp_reach env n s0 s0"
| step: "smp_reach env n s0 s \<Longrightarrow> smp_step env n s s' \<Longrightarrow> smp_reach env n s0 s'"

lemma start_inv: "smp_start a s \<Longrightarrow> smp_inv s"
  by (rule smp_invI) (simp_all add: smp_start_def busy_def inflight_def)

lemma reach_inv: "smp_reach env n s0 s \<Longrightarrow> smp_start a s0 \<Longrightarrow> smp_inv s"
  by (induction rule: smp_reach.induct) (auto intro: start_inv smp_inv_step)

section \<open>Counting\<close>

fun tcnt :: "('f, 'd) tpc \<Rightarrow> int" where
  "tcnt (T_done0 r) = 1"
| "tcnt (T_fun r) = 1"
| "tcnt (T_data r) = 1"
| "tcnt (T_wait r) = 1"
| "tcnt (T_icr r) = 1"
| "tcnt _ = 0"

fun hcnt :: "('f, 'd) hpc \<Rightarrow> int" where
  "hcnt H_fun = 1"
| "hcnt (H_data f) = 1"
| "hcnt (H_wait f d) = 1"
| "hcnt (H_done f d) = 1"
| "hcnt (H_eoi f d) = 1"
| "hcnt (H_call f d w) = 1"
| "hcnt (H_dec w) = 1"
| "hcnt _ = 0"

definition units :: "('f, 'd, 'w) smp_state \<Rightarrow> nat \<Rightarrow> int" where
  "units s c = tcnt (thr s c) + (if irr s c then 1 else 0) + hcnt (hnd s c)"

text \<open>Work left, as a number that every step makes smaller.\<close>

fun tweight :: "('f, 'd) tpc \<Rightarrow> int" where
  "tweight T_idle = 0"
| "tweight (T_lock r) = 40"
| "tweight (T_check r) = 39"
| "tweight (T_local r) = 38"
| "tweight (T_inc r) = 38"
| "tweight (T_done0 r) = 37"
| "tweight (T_fun r) = 36"
| "tweight (T_data r) = 35"
| "tweight (T_wait r) = 34"
| "tweight (T_icr r) = 33"
| "tweight (T_spin r) = 2"
| "tweight (T_unlock r b) = 1"

fun hweight :: "('f, 'd) hpc \<Rightarrow> int" where
  "hweight H_none = 0"
| "hweight H_fun = 14"
| "hweight (H_data f) = 13"
| "hweight (H_wait f d) = 12"
| "hweight (H_done f d) = 11"
| "hweight (H_eoi f d) = 10"
| "hweight (H_call f d w) = 9"
| "hweight (H_dec w) = 8"
| "hweight H_done2 = 7"
| "hweight H_eoi2 = 6"
| "hweight H_iret = 5"

definition work :: "('f, 'd, 'w) smp_state \<Rightarrow> nat \<Rightarrow> int" where
  "work s c = 41 * int (length (prog s c)) + tweight (thr s c) + (if irr s c then 15 else 0) + hweight (hnd s c)"

definition total_work :: "nat \<Rightarrow> ('f, 'd, 'w) smp_state \<Rightarrow> int" where
  "total_work n s = (\<Sum>c<n. work s c)"

lemma sum_at:
  fixes g g' :: "nat \<Rightarrow> int"
  assumes "c < n" "\<And>k. k \<noteq> c \<Longrightarrow> g' k = g k"
  shows "(\<Sum>k<n. g' k) = (\<Sum>k<n. g k) - g c + g' c"
proof -
  have "(\<Sum>k\<in>{..<n} - {c}. g' k) = (\<Sum>k\<in>{..<n} - {c}. g k)" using assms(2) by (intro sum.cong) auto
  then show ?thesis using sum.remove[of "{..<n}" c g] sum.remove[of "{..<n}" c g'] assms(1) by simp
qed

lemma sum_at2:
  fixes g g' :: "nat \<Rightarrow> int"
  assumes "c < n" "d < n" "c \<noteq> d" "\<And>k. k \<noteq> c \<Longrightarrow> k \<noteq> d \<Longrightarrow> g' k = g k"
  shows "(\<Sum>k<n. g' k) = (\<Sum>k<n. g k) - g c - g d + g' c + g' d"
proof -
  have "(\<Sum>k<n. (g(c := g' c)) k) = (\<Sum>k<n. g k) - g c + g' c"
    using sum_at[OF assms(1), of "g(c := g' c)" g] by simp
  moreover have "(\<Sum>k<n. g' k) = (\<Sum>k<n. (g(c := g' c)) k) - (g(c := g' c)) d + g' d"
    by (rule sum_at[OF assms(2)]) (use assms(4) in auto)
  ultimately show ?thesis using assms(3) by simp
qed

text \<open>The request a processor is working on.\<close>

fun treq :: "('f, 'd) tpc \<Rightarrow> ('f, 'd) request option" where
  "treq T_idle = None"
| "treq (T_lock r) = Some r"
| "treq (T_check r) = Some r"
| "treq (T_local r) = Some r"
| "treq (T_inc r) = Some r"
| "treq (T_done0 r) = Some r"
| "treq (T_fun r) = Some r"
| "treq (T_data r) = Some r"
| "treq (T_wait r) = Some r"
| "treq (T_icr r) = Some r"
| "treq (T_spin r) = Some r"
| "treq (T_unlock r b) = Some r"

definition smp_wf :: "nat \<Rightarrow> ('f, 'd, 'w) smp_state \<Rightarrow> bool" where
  "smp_wf n s \<longleftrightarrow> progs_ok n s \<and> (\<forall>c r. treq (thr s c) = Some r \<longrightarrow> r_cpu r < n) \<and>
     (\<forall>c\<ge>n. thr s c = T_idle \<and> hnd s c = H_none \<and> \<not> irr s c)"

definition balance :: "nat \<Rightarrow> ('f, 'd, 'w) smp_state \<Rightarrow> int" where
  "balance n s = active_cpus s - (\<Sum>c<n. units s c)"

definition good_step :: "nat \<Rightarrow> ('f, 'd, 'w) smp_state \<Rightarrow> ('f, 'd, 'w) smp_state \<Rightarrow> bool" where
  "good_step n s s' \<longleftrightarrow> smp_wf n s' \<and> total_work n s' < total_work n s \<and> balance n s' = balance n s"

lemma good_step_one:
  assumes "c < n" "smp_wf n s" "work s' c < work s c" "units s' c - units s c = active_cpus s' - active_cpus s"
    "\<And>k. k \<noteq> c \<Longrightarrow> thr s' k = thr s k \<and> hnd s' k = hnd s k \<and> irr s' k = irr s k \<and> prog s' k = prog s k"
    "treq (thr s' c) = None \<or> treq (thr s' c) = treq (thr s c) \<or> (\<exists>r. Call r \<in> set (prog s c) \<and> treq (thr s' c) = Some r)"
    "set (prog s' c) \<subseteq> set (prog s c)"
  shows "good_step n s s'"
proof -
  have "smp_wf n s'" unfolding smp_wf_def
  proof (intro conjI allI impI)
    show "progs_ok n s'" unfolding progs_ok_def
    proof (intro conjI allI impI)
      fix k
      have "set (prog s' k) \<subseteq> set (prog s k)" using assms(5)[of k] assms(7) by (cases "k = c") auto
      then show "list_all (cmd_ok n) (prog s' k)"
        using assms(2) by (auto simp: smp_wf_def progs_ok_def list_all_iff)
    next
      fix k assume "n \<le> k"
      then show "prog s' k = []" using assms(1,2) assms(5)[of k] by (auto simp: smp_wf_def progs_ok_def)
    qed
    show "r_cpu r < n" if "treq (thr s' k) = Some r" for k r
      using that assms(2,6) assms(5)[of k]
      by (cases "k = c") (fastforce simp: smp_wf_def progs_ok_def list_all_iff)+
    show "thr s' k = T_idle" "hnd s' k = H_none" "\<not> irr s' k" if "n \<le> k" for k
      using that assms(1,2) assms(5)[of k] by (auto simp: smp_wf_def)
  qed
  moreover have "total_work n s' < total_work n s"
    using sum_at[OF assms(1), of "work s'" "work s"] assms(3,5) by (simp add: total_work_def work_def)
  moreover have "balance n s' = balance n s"
    using sum_at[OF assms(1), of "units s'" "units s"] assms(4,5) by (simp add: balance_def units_def)
  ultimately show ?thesis by (simp add: good_step_def)
qed

lemma good_icr:
  assumes "c < n" "smp_wf n s" "smp_inv s" "thr s c = T_icr r" "on_cpu_step env c (thr s c) s = Some s'"
  shows "good_step n s s'"
proof -
  have "treq (thr s c) = Some r" using assms(4) by simp
  then have t: "r_cpu r < n" using assms(2) unfolding smp_wf_def by blast
  have ni: "\<not> irr s (r_cpu r)" using crit_not_busy[OF assms(3), of c "r_cpu r"] assms(4) by (simp add: busy_def)
  have s': "s' = s\<lparr>irr := (irr s)(r_cpu r := True),
      sent := (sent s)(r_cpu r := sent s (r_cpu r) @ [(r_function r, r_data r)]), thr := (thr s)(c := T_spin r)\<rparr>"
    using assms(4,5) by (simp add: go_def)
  have wf: "smp_wf n s'" using assms(1,2) t by (auto simp: smp_wf_def progs_ok_def s')
  have "total_work n s' < total_work n s \<and> balance n s' = balance n s"
  proof (cases "r_cpu r = c")
    case True
    show ?thesis
      using sum_at[OF assms(1), of "work s'" "work s"] sum_at[OF assms(1), of "units s'" "units s"] True ni assms(4)
      by (simp add: total_work_def balance_def work_def units_def s')
  next
    case False
    show ?thesis
      using sum_at2[OF assms(1) t, of "work s'" "work s"] sum_at2[OF assms(1) t, of "units s'" "units s"] False ni assms(4)
      by (simp add: total_work_def balance_def work_def units_def s')
  qed
  then show ?thesis using wf by (simp add: good_step_def)
qed

lemma good_cpu_step:
  assumes "c < n" "smp_wf n s" "smp_inv s" "cpu_step env c s = Some s'"
  shows "good_step n s s'"
proof (cases "hnd s c = H_none \<and> (\<exists>r. thr s c = T_icr r)")
  case True
  then show ?thesis using good_icr[OF assms(1-3)] assms(4) by (auto simp: cpu_step_def simp del: on_cpu_step.simps)
next
  case False
  then show ?thesis
  proof (cases "hnd s c = H_none")
    case True
    then have "on_cpu_step env c (thr s c) s = Some s'" "\<not> (\<exists>r. thr s c = T_icr r)"
      using assms(4) False by (simp_all add: cpu_step_def)
    then show ?thesis using assms(1,2)
      by (intro good_step_one[of c]; cases "thr s c")
        (auto simp: go_def work_def units_def split: list.splits cmd.splits if_splits)
  next
    case False
    then have "ipi_step env c (hnd s c) s = Some s'" using assms(4) by (simp add: cpu_step_def)
    then show ?thesis using assms(1,2)
      by (intro good_step_one[of c]; cases "hnd s c")
        (auto simp: hgo_def work_def units_def split: if_splits)
  qed
qed

lemma good_take_ipi:
  assumes "c < n" "smp_wf n s" "take_ipi c s = Some s'"
  shows "good_step n s s'"
  using assms by (intro good_step_one[of c]) (auto simp: take_ipi_def hgo_def work_def units_def split: if_splits)

lemma step_good: "smp_step env n s s' \<Longrightarrow> smp_wf n s \<Longrightarrow> smp_inv s \<Longrightarrow> good_step n s s'"
  by (induction rule: smp_step.induct) (auto intro: good_cpu_step good_take_ipi)

section \<open>Never stuck\<close>

definition smp_final :: "nat \<Rightarrow> ('f, 'd, 'w) smp_state \<Rightarrow> bool" where
  "smp_final n s \<longleftrightarrow> (\<forall>c<n. thr s c = T_idle \<and> prog s c = [] \<and> hnd s c = H_none \<and> \<not> irr s c)"

lemma units_zero:
  assumes "\<not> crit (thr s c)" "hnd s c = H_none" "\<not> irr s c"
  shows "units s c = 0"
  using assms by (cases "thr s c") (simp_all add: units_def)

lemma thread_can_step:
  assumes inv: "smp_inv s" and q: "\<And>k. hnd s k = H_none" "\<And>k. \<not> irr s k"
    and a: "active_cpus s \<le> 1 \<or> (\<exists>k. crit (thr s k))" and c: "thr s c \<noteq> T_idle \<or> prog s c \<noteq> []"
    and h: "\<And>k. crit (thr s k) \<Longrightarrow> k = c"
  shows "\<exists>s'. cpu_step env c s = Some s'"
proof -
  note D = smp_invD[OF inv]
  have nb: "\<not> busy s k" for k using q by (simp add: busy_def)
  have "\<exists>s'. on_cpu_step env c (thr s c) s = Some s'"
  proof (cases "thr s c")
    case T_idle
    have "active_cpus s \<le> 1" using a h T_idle by fastforce
    then show ?thesis using T_idle c by (auto simp: cpus_active_def split: list.splits cmd.splits)
  next
    case (T_lock r)
    have "\<not> crit (thr s k)" for k using h[of k] T_lock by auto
    then have "ipi_lock s = 0" using D(1) by simp
    then show ?thesis using T_lock by simp
  next
    case (T_spin r)
    have "tfacts (T_spin r) s" using D(3)[of c] T_spin by simp
    then have "ipi_done s" using nb by (auto split: if_splits)
    then show ?thesis using T_spin by simp
  qed simp_all
  then show ?thesis using q(1) by (simp add: cpu_step_def)
qed

lemma smp_progress:
  assumes inv: "smp_inv s" and wf: "smp_wf n s" and b: "balance n s \<le> 1" and nf: "\<not> smp_final n s"
  shows "\<exists>s'. smp_step env n s s'"
proof (cases "\<exists>c<n. hnd s c \<noteq> H_none")
  case True
  then obtain c where c: "c < n" "hnd s c \<noteq> H_none" by blast
  then have "\<exists>s'. ipi_step env c (hnd s c) s = Some s'" by (cases "hnd s c") auto
  then have "\<exists>s'. cpu_step env c s = Some s'" using c(2) by (simp add: cpu_step_def)
  then show ?thesis using smp_step.cpu[OF c(1)] by blast
next
  case False
  then have q: "hnd s k = H_none" for k using wf by (cases "k < n") (auto simp: smp_wf_def)
  show ?thesis
  proof (cases "\<exists>c<n. irr s c")
    case True
    then obtain c where c: "c < n" "irr s c" by blast
    then have "\<exists>s'. take_ipi c s = Some s'" using q by (simp add: take_ipi_def)
    then show ?thesis using smp_step.interrupt[OF c(1)] by blast
  next
    case False
    then have i: "\<not> irr s k" for k using wf by (cases "k < n") (auto simp: smp_wf_def)
    show ?thesis
    proof (cases "\<exists>k. crit (thr s k)")
      case True
      then obtain k where k: "crit (thr s k)" by blast
      then have "k < n" using wf by (cases "k < n") (auto simp: smp_wf_def)
      moreover have "\<exists>s'. cpu_step env k s = Some s'"
        using k smp_invD(2)[OF inv] by (intro thread_can_step[OF inv q i]) auto
      ultimately show ?thesis using smp_step.cpu by blast
    next
      case False
      then have "units s k = 0" for k using q i by (intro units_zero) auto
      then have a: "active_cpus s \<le> 1" using b by (simp add: balance_def)
      obtain k where k: "k < n" "thr s k \<noteq> T_idle \<or> prog s k \<noteq> []"
        using nf q i by (auto simp: smp_final_def)
      have "\<exists>s'. cpu_step env k s = Some s'"
        using k(2) a False by (intro thread_can_step[OF inv q i]) auto
      then show ?thesis using smp_step.cpu[OF k(1)] by blast
    qed
  qed
qed

section \<open>Nothing is lost\<close>

text \<open>The calls still to be made, made by interrupt and made directly.\<close>

definition call_of :: "('f, 'd) request \<Rightarrow> nat \<times> 'f \<times> 'd" where
  "call_of r = (r_cpu r, r_function r, r_data r)"

fun tcalls :: "('f, 'd) tpc \<Rightarrow> (nat \<times> 'f \<times> 'd) multiset" where
  "tcalls T_idle = {#}"
| "tcalls (T_spin r) = {#}"
| "tcalls (T_unlock r b) = {#}"
| "tcalls (T_lock r) = {#call_of r#}"
| "tcalls (T_check r) = {#call_of r#}"
| "tcalls (T_local r) = {#call_of r#}"
| "tcalls (T_inc r) = {#call_of r#}"
| "tcalls (T_done0 r) = {#call_of r#}"
| "tcalls (T_fun r) = {#call_of r#}"
| "tcalls (T_data r) = {#call_of r#}"
| "tcalls (T_wait r) = {#call_of r#}"
| "tcalls (T_icr r) = {#call_of r#}"

fun pcalls :: "('f, 'd) cmd list \<Rightarrow> (nat \<times> 'f \<times> 'd) multiset" where
  "pcalls [] = {#}"
| "pcalls (Call r # p) = add_mset (call_of r) (pcalls p)"
| "pcalls (WaitActive # p) = pcalls p"

definition to_make :: "nat \<Rightarrow> ('f, 'd, 'w) smp_state \<Rightarrow> (nat \<times> 'f \<times> 'd) multiset" where
  "to_make n s = (\<Sum>c<n. pcalls (prog s c) + tcalls (thr s c))"

definition made :: "nat \<Rightarrow> ('f, 'd, 'w) smp_state \<Rightarrow> (nat \<times> 'f \<times> 'd) multiset" where
  "made n s = (\<Sum>c<n. mset (map (Pair c) (sent s c))) + mset (direct s)"

lemma mset_sum_at:
  fixes c n :: nat and g g' :: "nat \<Rightarrow> 'a multiset"
  assumes "c < n" "\<And>k. k \<noteq> c \<Longrightarrow> g' k = g k"
  shows "(\<Sum>k<n. g' k) + g c = (\<Sum>k<n. g k) + g' c"
proof -
  have "(\<Sum>k\<in>{..<n} - {c}. g' k) = (\<Sum>k\<in>{..<n} - {c}. g k)" using assms(2) by (intro sum.cong) auto
  then show ?thesis
    using sum.remove[OF finite_lessThan, of c n g] sum.remove[OF finite_lessThan, of c n g'] assms(1)
    by (simp add: ac_simps)
qed

lemma calls_kept:
  assumes "c < n" "\<And>k. k \<noteq> c \<Longrightarrow> thr s' k = thr s k \<and> prog s' k = prog s k"
    "pcalls (prog s' c) + tcalls (thr s' c) + X = pcalls (prog s c) + tcalls (thr s c)" "made n s' = made n s + X"
  shows "to_make n s' + made n s' = to_make n s + made n s"
proof -
  define u where "u = pcalls (prog s c) + tcalls (thr s c)"
  define u' where "u' = pcalls (prog s' c) + tcalls (thr s' c)"
  have "to_make n s' + u = to_make n s + u'"
    unfolding to_make_def u_def u'_def by (rule mset_sum_at[OF assms(1)]) (use assms(2) in simp)
  moreover have "u' + X = u" using assms(3) by (simp add: u_def u'_def)
  ultimately have "to_make n s' + (u' + X) = to_make n s + u'" by simp
  then have "(to_make n s' + X) + u' = to_make n s + u'" by (simp only: ac_simps)
  then have "to_make n s' + X = to_make n s" by (simp only: add_right_cancel)
  then show ?thesis using assms(4) by (simp add: ac_simps)
qed

lemma step_calls:
  assumes "smp_step env n s s'" "smp_wf n s"
  shows "to_make n s' + made n s' = to_make n s + made n s"
  using assms
proof (induction rule: smp_step.induct)
  case (interrupt c s s')
  then show ?case by (auto simp: take_ipi_def hgo_def to_make_def made_def split: if_splits)
next
  case (cpu c s s')
  show ?case
  proof (cases "hnd s c = H_none")
    case True
    then have st: "on_cpu_step env c (thr s c) s = Some s'" using cpu(2) by (simp add: cpu_step_def)
    show ?thesis
    proof (cases "\<exists>r. thr s c = T_icr r")
      case True
      then obtain r where r: "thr s c = T_icr r" by blast
      then have "treq (thr s c) = Some r" by simp
      then have t: "r_cpu r < n" using cpu(3) unfolding smp_wf_def by blast
      have "made n s' = made n s + {#call_of r#}"
      proof -
        define M where "M = (\<lambda>k. mset (map (Pair k) (sent s k)))"
        define M' where "M' = (\<lambda>k. mset (map (Pair k) (sent s' k)))"
        have f: "sent s' k = sent s k @ (if k = r_cpu r then [(r_function r, r_data r)] else [])" "direct s' = direct s" for k
          using st r by (auto simp: go_def)
        have "sum M' {..<n} + M (r_cpu r) = sum M {..<n} + M' (r_cpu r)"
          by (rule mset_sum_at[OF t]) (simp add: M_def M'_def f)
        moreover have "M' (r_cpu r) = M (r_cpu r) + {#call_of r#}" by (simp add: M_def M'_def f call_of_def)
        ultimately have "sum M' {..<n} + M (r_cpu r) = (sum M {..<n} + {#call_of r#}) + M (r_cpu r)"
          by (simp only: ac_simps)
        then have "sum M' {..<n} = sum M {..<n} + {#call_of r#}" by (simp only: add_right_cancel)
        then show ?thesis by (simp add: made_def M_def M'_def f(2))
      qed
      then show ?thesis using st r by (intro calls_kept[OF cpu(1), of s' s "{#call_of r#}"]) (auto simp: go_def)
    next
      case False
      show ?thesis
      proof (cases "\<exists>r. thr s c = T_local r")
        case True
        then obtain r where r: "thr s c = T_local r" by blast
        then show ?thesis using st
          by (intro calls_kept[OF cpu(1), of s' s "{#call_of r#}"]) (auto simp: go_def made_def call_of_def)
      next
        case F: False
        show ?thesis using st False F
          by (intro calls_kept[OF cpu(1), of s' s "{#}"]; cases "thr s c")
            (auto simp: go_def made_def split: list.splits cmd.splits if_splits)
      qed
    qed
  next
    case False
    then have "ipi_step env c (hnd s c) s = Some s'" using cpu(2) by (simp add: cpu_step_def)
    then show ?thesis by (cases "hnd s c") (auto simp: hgo_def to_make_def made_def)
  qed
qed

section \<open>What holds along a run\<close>

lemma reach_wf:
  assumes "smp_reach env n s0 s" "smp_start a s0" "progs_ok n s0"
  shows "smp_wf n s \<and> balance n s = a \<and> to_make n s + made n s = to_make n s0"
  using assms(1)
proof (induction rule: smp_reach.induct)
  case start
  show ?case using assms(2,3)
    by (simp add: smp_start_def smp_wf_def balance_def units_def made_def)
next
  case (step s s')
  have "good_step n s s'" using step(2,3) reach_inv[OF step(1) assms(2)] step_good by blast
  then show ?case using step(2,3) step_calls[of env n s s'] by (auto simp: good_step_def)
qed

lemma work_nonneg: "0 \<le> work s c"
proof -
  have "0 \<le> tweight (thr s c)" "0 \<le> hweight (hnd s c)" by (cases "thr s c"; simp) (cases "hnd s c"; simp)
  then show ?thesis by (simp add: work_def)
qed

lemma total_work_nonneg: "0 \<le> total_work n s"
  unfolding total_work_def by (intro sum_nonneg work_nonneg)


lemma steps_reach: "(smp_step env n ^^ k) s0 s \<Longrightarrow> smp_reach env n s0 s"
  by (induction k arbitrary: s) (auto intro: smp_reach.intros)

lemma steps_work:
  assumes "(smp_step env n ^^ k) s0 s" "smp_start a s0" "progs_ok n s0"
  shows "int k + total_work n s \<le> total_work n s0"
  using assms(1)
proof (induction k arbitrary: s)
  case (Suc k)
  then obtain m where m: "(smp_step env n ^^ k) s0 m" "smp_step env n m s" by auto
  note r = steps_reach[OF m(1)]
  have "good_step n m s" using step_good[OF m(2)] reach_wf[OF r assms(2,3)] reach_inv[OF r assms(2)] by blast
  then show ?case using Suc.IH[OF m(1)] by (simp add: good_step_def)
qed simp

lemma start_work: "smp_start a s \<Longrightarrow> total_work n s = 41 * (\<Sum>c<n. int (length (prog s c)))"
  by (simp add: smp_start_def total_work_def work_def sum_distrib_left)

lemma quiet_ran:
  assumes "smp_inv s" "units s c \<le> 0"
  shows "ran s c = sent s c"
proof -
  have "0 \<le> tcnt (thr s c)" "0 \<le> hcnt (hnd s c)" by (cases "thr s c"; simp) (cases "hnd s c"; simp)
  then have "\<not> irr s c" "hcnt (hnd s c) = 0" using assms(2) by (auto simp: units_def split: if_splits)
  then have "inflight s c = []" by (cases "hnd s c") (simp_all add: inflight_def)
  then show ?thesis using smp_invD(8)[OF assms(1), of c] by simp
qed

section \<open>A scheduler\<close>

text \<open>A run under a given schedule: which processor goes on, and whether it accepts an interrupt.\<close>

fun smp_run :: "('f, 'd, 'w) smp_env \<Rightarrow> (bool \<times> nat) list \<Rightarrow> ('f, 'd, 'w) smp_state \<Rightarrow> ('f, 'd, 'w) smp_state option" where
  "smp_run env [] s = Some s"
| "smp_run env ((b, c) # l) s =
     (case (if b then take_ipi c s else cpu_step env c s) of None \<Rightarrow> None | Some s' \<Rightarrow> smp_run env l s')"

lemma smp_run_steps:
  "smp_run env l s = Some s' \<Longrightarrow> \<forall>x\<in>set l. snd x < n \<Longrightarrow> (smp_step env n ^^ length l) s s'"
proof (induction env l s rule: smp_run.induct)
  case (2 env b c l s)
  obtain m where m: "(if b then take_ipi c s else cpu_step env c s) = Some m" "smp_run env l m = Some s'"
    using 2(2) by (auto split: option.splits)
  have "smp_step env n s m" using m(1) 2(3) by (auto intro: smp_step.intros split: if_splits)
  moreover have "(smp_step env n ^^ length l) m s'" using 2(1)[OF m(1,2)] 2(3) by simp
  ultimately show ?case by (simp add: relpowp_Suc_I2 del: relpowp.simps)
qed simp

lemmas smp_run_reach = steps_reach[OF smp_run_steps]

end
