(* ===== verification/Smp_Cpus.thy ===== *)
theory Smp_Cpus
  imports Smp_Props
begin

text \<open>
  What \<^verbatim>\<open>on_cpu\<close>, \<^verbatim>\<open>on_cpu_async\<close>, \<^verbatim>\<open>on_cpus\<close> and \<^verbatim>\<open>smp_init\<close> do, for every interleaving of the processors.
\<close>

section \<open>Requests\<close>

text \<open>A run for the witnesses: processor 0 runs a function on processor 1 and waits for it.\<close>

definition demo_env :: "(nat, nat, nat \<Rightarrow> nat) smp_env" where
  "demo_env = \<lparr>run_function = (\<lambda>f d c w. w(c := f + d)), gs_word = (\<lambda>w c. c)\<rparr>"

definition demo_start :: "(nat, nat) cmd list \<Rightarrow> int \<Rightarrow> (nat, nat, nat \<Rightarrow> nat) smp_state" where
  "demo_start p a = \<lparr>ipi_lock = 0, ipi_function = 0, ipi_data = 0, ipi_done = False, ipi_wait = False, active_cpus = a,
     irr = (\<lambda>c. False), thr = (\<lambda>c. T_idle), prog = (\<lambda>c. []) (0 := p), hnd = (\<lambda>c. H_none), world = (\<lambda>c. 0),
     sent = (\<lambda>c. []), ran = (\<lambda>c. []), direct = []\<rparr>"

definition demo_sched :: "(bool \<times> nat) list" where
  "demo_sched = replicate 9 (False, 0) @ [(True, 1)] @ replicate 6 (False, 1) @ [(False, 0)]"

definition demo_state :: "(nat, nat, nat \<Rightarrow> nat) smp_state" where
  "demo_state = the (smp_run demo_env demo_sched (demo_start [on_cpu 1 7 8] 1))"

lemma demo_start_ok:
  "smp_start a (demo_start p a)" "list_all (cmd_ok n) p \<Longrightarrow> 0 < n \<Longrightarrow> progs_ok n (demo_start p a)"
  by (auto simp: smp_start_def demo_start_def progs_ok_def)

lemmas smp_eval = demo_env_def demo_start_def cpu_step_def take_ipi_def go_def hgo_def smp_id_def cpus_active_def
  on_cpu_def on_cpu_async_def on_cpus_def spin_lock_def

lemma demo_run: "smp_run demo_env demo_sched (demo_start [on_cpu 1 7 8] 1) = Some demo_state"
  by (simp add: demo_state_def demo_sched_def smp_eval numeral_eq_Suc)

lemma demo_reach: "smp_reach demo_env 2 (demo_start [on_cpu 1 7 8] 1) demo_state"
  by (rule smp_run_reach[OF demo_run]) (simp add: demo_sched_def)

lemma demo_fields:
  "thr demo_state 0 = T_unlock \<lparr>r_cpu = 1, r_function = 7, r_data = 8, r_wait = True\<rparr> True"
  "hnd demo_state 1 = H_eoi2" "sent demo_state 1 = [(7, 8)]" "world demo_state 1 = 15"
  by (simp_all add: demo_state_def demo_sched_def smp_eval numeral_eq_Suc)

text \<open>C3: Whatever the interleaving of the processors, the functions run on a processor by \<open>ipi\<close> are the ones sent to
  it, each once and in the order sent, with at most two still on their way; and at most one processor is between the
  \<open>spin_lock\<close> and the \<open>spin_unlock\<close> of \<open>__on_cpu\<close>.\<close>

theorem smp_exactly_once:
  assumes "smp_reach env n s0 s" "smp_start a s0"
  shows "(\<exists>rest. sent s c = ran s c @ rest \<and> length rest \<le> 2) \<and>
    (\<forall>k k'. crit (thr s k) \<and> crit (thr s k') \<longrightarrow> k = k')"
proof -
  note D = smp_invD[OF reach_inv[OF assms]]
  have "length (inflight s c) \<le> 2" by (cases "hnd s c") (simp_all add: inflight_def)
  then show ?thesis using D(2) D(8)[of c] by blast
qed

theorem smp_exactly_once_witness:
  "(\<exists>rest. sent demo_state 1 = ran demo_state 1 @ rest \<and> length rest \<le> 2) \<and> sent demo_state 1 = [(7, 8)]"
  using smp_exactly_once[OF demo_reach demo_start_ok(1), of 1] demo_fields(3) by simp

text \<open>C19: When \<open>on_cpu\<close> is about to release the lock after an interrupt, the other processor has run
  everything that was sent to it, this function with this argument last.\<close>

theorem on_cpu_waits:
  assumes "smp_reach env n s0 s" "smp_start a s0" "thr s c = T_unlock r True" "r_wait r"
  shows "ran s (r_cpu r) = sent s (r_cpu r) \<and> ran s (r_cpu r) \<noteq> [] \<and> last (ran s (r_cpu r)) = (r_function r, r_data r)"
proof -
  note D = smp_invD[OF reach_inv[OF assms(1,2)]]
  have "inflight s (r_cpu r) = []" "\<exists>us. ran s (r_cpu r) = us @ [(r_function r, r_data r)]"
    using D(3)[of c] assms(3,4) by simp_all
  then show ?thesis using D(8)[of "r_cpu r"] by auto
qed

theorem on_cpu_waits_witness: "ran demo_state 1 = [(7, 8)]"
  using on_cpu_waits[OF demo_reach demo_start_ok(1) demo_fields(1)] demo_fields(3) by simp




section \<open>Requests of the first processor only\<close>

text \<open>The request a processor sends to another one.\<close>

fun remote :: "('f, 'd) tpc \<Rightarrow> ('f, 'd) request option" where
  "remote (T_inc r) = Some r"
| "remote (T_done0 r) = Some r"
| "remote (T_fun r) = Some r"
| "remote (T_data r) = Some r"
| "remote (T_wait r) = Some r"
| "remote (T_icr r) = Some r"
| "remote _ = None"

text \<open>The functions called leave the identity of the first processor alone.\<close>

definition keeps_id :: "('f, 'd, 'w) smp_env \<Rightarrow> bool" where
  "keeps_id env \<longleftrightarrow> (\<forall>f d c w. gs_word env w 0 = 0 \<longrightarrow> gs_word env (run_function env f d c w) 0 = 0)"

definition only0 :: "('f, 'd, 'w) smp_env \<Rightarrow> ('f, 'd, 'w) smp_state \<Rightarrow> bool" where
  "only0 env s \<longleftrightarrow> gs_word env (world s) 0 = 0 \<and> (\<forall>c. c \<noteq> 0 \<longrightarrow> thr s c = T_idle \<and> prog s c = []) \<and>
     (\<forall>r. thr s 0 = T_local r \<longrightarrow> r_cpu r = 0) \<and> (\<forall>r. remote (thr s 0) = Some r \<longrightarrow> r_cpu r \<noteq> 0) \<and>
     sent s 0 = [] \<and> (\<forall>x\<in>set (direct s). fst x = 0)"

lemma only0_on_cpu:
  assumes "only0 env s" "keeps_id env" "on_cpu_step env c (thr s c) s = Some s'"
  shows "only0 env s'"
proof (cases "c = 0")
  case True
  then show ?thesis using assms
    by (cases "thr s c") (auto simp: only0_def keeps_id_def go_def smp_id_def split: list.splits cmd.splits if_splits)
next
  case False
  then show ?thesis using assms by (simp add: only0_def)
qed

lemma only0_ipi:
  assumes "only0 env s" "keeps_id env" "ipi_step env c h s = Some s'"
  shows "only0 env s'"
  using assms by (cases h) (auto simp: only0_def keeps_id_def hgo_def)

lemma only0_step:
  assumes "smp_step env n s s'" "only0 env s" "keeps_id env"
  shows "only0 env s'"
  using assms
proof (induction rule: smp_step.induct)
  case (cpu c s s')
  then show ?case using only0_on_cpu[OF cpu(3,4), of c s'] only0_ipi[OF cpu(3,4), of c "hnd s c" s']
    by (auto simp: cpu_step_def split: if_splits)
next
  case (interrupt c s s')
  then show ?case by (auto simp: only0_def take_ipi_def hgo_def split: if_splits)
qed

text \<open>Once the wait at the end of the program is over, no function is on its way.\<close>

definition returned :: "nat \<Rightarrow> ('f, 'd, 'w) smp_state \<Rightarrow> bool" where
  "returned n s \<longleftrightarrow> thr s 0 = T_idle \<and> prog s 0 = [] \<and> (\<forall>c<n. \<not> irr s c \<and> hcnt (hnd s c) = 0)"

definition ends_waiting :: "nat \<Rightarrow> ('f, 'd, 'w) smp_state \<Rightarrow> bool" where
  "ends_waiting n s \<longleftrightarrow> (\<exists>p. prog s 0 = p @ [WaitActive]) \<or> returned n s"

lemma units_parts: "0 \<le> tcnt (thr s c)" "0 \<le> hcnt (hnd s c)"
  by (cases "thr s c"; simp) (cases "hnd s c"; simp)

lemma units_nonneg: "0 \<le> units s c"
  using units_parts[where s = s and c = c] by (simp add: units_def)

lemma idle_units:
  assumes "balance n s = 1" "active_cpus s \<le> 1" "c < n"
  shows "\<not> irr s c \<and> hcnt (hnd s c) = 0"
proof -
  have "(\<Sum>c<n. units s c) \<le> 0" using assms(1,2) by (simp add: balance_def)
  moreover have "units s c \<le> (\<Sum>c<n. units s c)" using assms(3) by (intro member_le_sum) (auto intro: units_nonneg)
  ultimately have "units s c = 0" using units_nonneg[of s c] by simp
  then show ?thesis using units_parts[where s = s and c = c] by (auto simp: units_def split: if_splits)
qed

lemma returned_step:
  assumes "smp_step env n s s'" "returned n s" "only0 env s"
  shows "returned n s'"
  using assms
proof (induction rule: smp_step.induct)
  case (cpu c s s')
  have th: "on_cpu_step env c (thr s c) s = None"
    using cpu(3,4) by (cases "c = 0") (simp_all add: returned_def only0_def)
  then have "ipi_step env c (hnd s c) s = Some s'" using cpu(2) by (simp add: cpu_step_def split: if_splits)
  moreover have "hcnt (hnd s c) = 0" using cpu(1,3) by (simp add: returned_def)
  ultimately show ?case using cpu(3) by (cases "hnd s c") (auto simp: returned_def hgo_def)
next
  case (interrupt c s s')
  then show ?case by (simp add: returned_def take_ipi_def)
qed

lemma ends_waiting_step:
  assumes "smp_step env n s s'" "ends_waiting n s" "only0 env s" "balance n s = 1"
  shows "ends_waiting n s'"
proof (cases "returned n s")
  case True
  then show ?thesis using returned_step[OF assms(1) True assms(3)] by (simp add: ends_waiting_def)
next
  case False
  then obtain p where p: "prog s 0 = p @ [WaitActive]" using assms(2) by (auto simp: ends_waiting_def)
  show ?thesis using assms(1) p assms(4)
  proof (induction rule: smp_step.induct)
    case (interrupt c s s')
    then show ?case by (auto simp: ends_waiting_def take_ipi_def hgo_def split: if_splits)
  next
    case (cpu c s s')
    show ?case
    proof (cases "hnd s c = H_none")
      case True
      then have st: "on_cpu_step env c (thr s c) s = Some s'" using cpu(2) by (simp add: cpu_step_def)
      show ?thesis
      proof (cases "c = 0 \<and> thr s c = T_idle \<and> p = []")
        case True
        have "\<forall>c<n. \<not> irr s c \<and> hcnt (hnd s c) = 0" if "active_cpus s \<le> 1"
          using idle_units[OF cpu(4) that] by blast
        then show ?thesis using st True cpu(3)
          by (auto simp: ends_waiting_def returned_def cpus_active_def split: if_splits)
      next
        case False
        have "\<exists>p. prog s' 0 = p @ [WaitActive]"
          using st False cpu(3) by (cases "thr s c"; cases "c = 0"; cases p)
            (auto simp: go_def split: list.splits cmd.splits if_splits)
        then show ?thesis by (simp add: ends_waiting_def)
      qed
    next
      case False
      then have "ipi_step env c (hnd s c) s = Some s'" using cpu(2) by (simp add: cpu_step_def)
      then have "prog s' = prog s" by (cases "hnd s c") (auto simp: hgo_def)
      then show ?thesis using cpu(3) by (simp add: ends_waiting_def)
    qed
  qed
qed


lemma filter_made:
  fixes n c :: nat
  shows "filter_mset (\<lambda>x. fst x = c) (\<Sum>k<n. mset (map (Pair k) (S k))) = (if c < n then mset (map (Pair c) (S c)) else {#})"
proof (induction n)
  case (Suc n)
  have "filter_mset (\<lambda>x. fst x = c) (mset (map (Pair n) l)) = (if c = n then mset (map (Pair n) l) else {#})" for l
    by (induction l) auto
  then show ?case using Suc by (auto simp: less_Suc_eq)
qed simp

lemma mset_singleD: "mset (map (Pair c) l) = {#(c, x)#} \<Longrightarrow> l = [x]"
  by (cases l) (auto simp: add_mset_eq_single)

text \<open>The calls of a loop over the processors \<open>m\<close> to \<open>n - 1\<close>.\<close>

definition loop_calls :: "nat \<Rightarrow> nat \<Rightarrow> 'f \<Rightarrow> 'd \<Rightarrow> (nat \<times> 'f \<times> 'd) multiset" where
  "loop_calls m n f d = mset (map (\<lambda>c. (c, f, d)) [m..<n])"

lemma filter_loop_calls:
  "filter_mset (\<lambda>x. fst x = c) (loop_calls m n f d) = (if m \<le> c \<and> c < n then {#(c, f, d)#} else {#})"
proof (cases "m \<le> n")
  case True
  then show ?thesis by (induction n rule: nat_induct_at_least) (auto simp: loop_calls_def)
next
  case False
  then show ?thesis by (simp add: loop_calls_def)
qed

lemma pcalls_append: "pcalls (p @ q) = pcalls p + pcalls q"
  by (induction p rule: pcalls.induct) simp_all

lemma pcalls_async: "pcalls (map (\<lambda>cpu. on_cpu_async cpu f d) l) = mset (map (\<lambda>c. (c, f, d)) l)"
  by (induction l) (simp_all add: on_cpu_async_def call_of_def)

lemma pcalls_sync: "pcalls (map (\<lambda>cpu. on_cpu cpu f d) l) = mset (map (\<lambda>c. (c, f, d)) l)"
  by (induction l) (simp_all add: on_cpu_def call_of_def)

lemma pcalls_on_cpus: "pcalls (on_cpus n f d) = loop_calls 0 n f d"
  unfolding on_cpus_def pcalls_append pcalls_async by (simp add: loop_calls_def flip: rev_map)

lemma to_make_only0:
  assumes "smp_start a s" "0 < n" "\<And>c. c \<noteq> 0 \<Longrightarrow> prog s c = []"
  shows "to_make n s = pcalls (prog s 0)"
proof -
  have "(\<Sum>c<n. pcalls (prog s c)) = pcalls (prog s 0)"
    using sum.remove[OF finite_lessThan, of 0 n "\<lambda>c. pcalls (prog s c)"] assms(2,3) by simp
  then show ?thesis using assms(1) by (simp add: to_make_def smp_start_def)
qed

text \<open>What the calls of such a loop leave behind when all have been made and run.\<close>

lemma loop_made:
  assumes "made n s = loop_calls m n f d" "only0 env s" "0 < n"
  shows "\<And>c. m \<le> c \<Longrightarrow> c < n \<Longrightarrow> c \<noteq> 0 \<Longrightarrow> sent s c = [(f, d)]"
    "direct s = (if m = 0 then [(0, f, d)] else [])"
proof -
  have fm: "filter_mset (\<lambda>x. fst x = c) (made n s) =
      (if c < n then mset (map (Pair c) (sent s c)) else {#}) + filter_mset (\<lambda>x. fst x = c) (mset (direct s))" for c
    by (simp add: made_def filter_made[unfolded mset_map] del: mset_filter)
  have d: "filter_mset (\<lambda>x. fst x = c) (mset (direct s)) = (if c = 0 then mset (direct s) else {#})" for c
    using assms(2) by (auto simp: only0_def filter_mset_eq_conv simp del: mset_filter)
  show "sent s c = [(f, d)]" if "m \<le> c" "c < n" "c \<noteq> 0" for c
  proof -
    have "mset (map (Pair c) (sent s c)) = {#(c, f, d)#}"
      using fm[of c] d[of c] that by (simp add: assms(1) filter_loop_calls del: mset_filter)
    then show ?thesis by (rule mset_singleD)
  qed
  have "mset (direct s) = (if m = 0 then {#(0, f, d)#} else {#})"
    using fm[of 0] d[of 0] assms(2,3) by (simp add: assms(1) filter_loop_calls only0_def del: mset_filter)
  then show "direct s = (if m = 0 then [(0, f, d)] else [])" by (simp split: if_splits)
qed

lemma reach_only0:
  assumes "smp_reach env n s0 s" "only0 env s0" "keeps_id env"
  shows "only0 env s"
  using assms(1) by (induction rule: smp_reach.induct) (auto intro: assms(2,3) only0_step)

lemma reach_ends_waiting:
  assumes "smp_reach env n s0 s" "smp_start 1 s0" "progs_ok n s0" "only0 env s0" "keeps_id env" "ends_waiting n s0"
  shows "ends_waiting n s"
  using assms(1)
proof (induction rule: smp_reach.induct)
  case (step s s')
  then show ?case
    using ends_waiting_step reach_only0[OF step(1) assms(4,5)] reach_wf[OF step(1) assms(2,3)] by blast
qed (rule assms(6))

lemma only0_start:
  assumes "smp_start a s" "\<And>c. c \<noteq> 0 \<Longrightarrow> prog s c = []" "gs_word env (world s) 0 = 0"
  shows "only0 env s"
  using assms by (simp add: smp_start_def only0_def)

lemma on_cpus_ok: "list_all (cmd_ok n) (on_cpus n f d)"
  by (auto simp: on_cpus_def on_cpu_async_def list_all_iff)

text \<open>C17: When \<open>on_cpus(function, data)\<close> called on the first of \<open>n\<close> processors returns, every other processor has run
  \<open>function(data)\<close> exactly once and nothing else, and the first one has called it once itself.\<close>

theorem on_cpus_everywhere:
  assumes "smp_start 1 s0" "prog s0 = (\<lambda>c. []) (0 := on_cpus n f d)" "0 < n"
    "gs_word env (world s0) 0 = 0" "keeps_id env" "smp_reach env n s0 s" "prog s 0 = []"
  shows "(\<forall>c<n. c \<noteq> 0 \<longrightarrow> ran s c = [(f, d)]) \<and> direct s = [(0, f, d)] \<and> ran s 0 = []"
proof -
  have ok: "progs_ok n s0" using on_cpus_ok assms(2,3) by (auto simp: progs_ok_def)
  have o0: "only0 env s0" using only0_start[OF assms(1) _ assms(4)] assms(2) by simp
  note o = reach_only0[OF assms(6) o0 assms(5)]
  have "ends_waiting n s" using reach_ends_waiting[OF assms(6,1) ok o0 assms(5)] assms(2)
    by (simp add: ends_waiting_def on_cpus_def)
  then have r: "returned n s" using assms(7) by (simp add: ends_waiting_def)
  then have idle: "thr s c = T_idle \<and> prog s c = []" for c using o by (cases "c = 0") (auto simp: only0_def returned_def)
  have "units s c = 0" if "c < n" for c using r that idle by (simp add: units_def returned_def)
  then have run: "ran s c = sent s c" if "c < n" for c
    using quiet_ran[OF reach_inv[OF assms(6,1)]] that by simp
  have "to_make n s0 = loop_calls 0 n f d"
    using to_make_only0[OF assms(1,3)] assms(2) by (simp add: pcalls_on_cpus)
  then have "made n s = loop_calls 0 n f d"
    using reach_wf[OF assms(6,1) ok] idle by (simp add: to_make_def)
  then show ?thesis using loop_made[OF _ o assms(3)] run assms(3) o by (auto simp: only0_def)
qed


definition demo_all :: "(nat, nat, nat \<Rightarrow> nat) smp_state" where
  "demo_all = the (smp_run demo_env (replicate 9 (False, 0) @ [(True, 1)] @ replicate 4 (False, 1) @ replicate 7 (False, 0) @
     replicate 4 (False, 1) @ [(False, 0)]) (demo_start (on_cpus 2 7 8) 1))"

lemma demo_all_run:
  "smp_run demo_env (replicate 9 (False, 0) @ [(True, 1)] @ replicate 4 (False, 1) @ replicate 7 (False, 0) @
     replicate 4 (False, 1) @ [(False, 0)]) (demo_start (on_cpus 2 7 8) 1) = Some demo_all"
  by (simp add: demo_all_def smp_eval numeral_eq_Suc upt_conv_Cons)

lemma demo_all_prog: "prog demo_all 0 = []"
  by (simp add: demo_all_def smp_eval numeral_eq_Suc upt_conv_Cons)

theorem on_cpus_everywhere_witness: "ran demo_all 1 = [(7, 8)] \<and> direct demo_all = [(0, 7, 8)]"
proof -
  have s0: "prog (demo_start (on_cpus 2 7 8) 1) = (\<lambda>c. []) (0 := on_cpus 2 7 8)" by (simp add: demo_start_def)
  have g: "gs_word demo_env (world (demo_start (on_cpus 2 7 8) 1)) 0 = 0" "keeps_id demo_env"
    by (simp_all add: demo_env_def keeps_id_def)
  have r: "smp_reach demo_env 2 (demo_start (on_cpus 2 7 8) 1) demo_all"
    by (rule smp_run_reach[OF demo_all_run]) simp
  show ?thesis using on_cpus_everywhere[OF demo_start_ok(1) s0 _ g r demo_all_prog] by simp
qed

end
