(* ===== verification/Smp_Init.thy ===== *)
theory Smp_Init
  imports Smp_Cpus Desc_Props Vmx_Machine
begin

text \<open>
  \<^verbatim>\<open>smp_init\<close>: the first processor installs the gate of the inter-processor interrupt and has every processor store its
  identity in \<^verbatim>\<open>%gs:0\<close>. Processors are named by their APIC identifiers, as the destination of the interrupt names them.
\<close>

section \<open>Operations\<close>

definition IPI_VECTOR :: int where "IPI_VECTOR = 0x20"

record smp_world =
  wdesc :: desc_state
  cpu_cnt :: int
  gs0 :: "nat \<Rightarrow> nat"

datatype init_fun = F_setup_smp_id

definition cpu_count :: "smp_world \<Rightarrow> int" where "cpu_count w = cpu_cnt w"

definition setup_smp_id :: "nat \<Rightarrow> smp_world \<Rightarrow> smp_world" where
  "setup_smp_id c w = w\<lparr>gs0 := (gs0 w)(c := c)\<rparr>"

definition init_env :: "(init_fun, u64, smp_world) smp_env" where
  "init_env = \<lparr>run_function = (\<lambda>f d c w. case f of F_setup_smp_id \<Rightarrow> setup_smp_id c w), gs_word = (\<lambda>w c. gs0 w c)\<rparr>"

text \<open>Up to its loop on processor \<open>c\<close>, whose calls are then what the processor has to do; and what follows the loop.\<close>

definition smp_init ::
  "hw \<Rightarrow> 'b desc_env \<Rightarrow> u64 \<Rightarrow> nat \<Rightarrow> (init_fun, u64, smp_world) smp_state \<Rightarrow> (init_fun, u64, smp_world) smp_state option" where
  "smp_init hw denv ipi_entry c s = do {
     (n, w) \<leftarrow> fwcfg_get_nb_cpus hw (wdesc (world s));
     w \<leftarrow> setup_idt denv w;
     w \<leftarrow> set_idt_entry IPI_VECTOR ipi_entry 0 w;
     let ww = setup_smp_id c ((world s)\<lparr>wdesc := w, cpu_cnt := sint n\<rparr>);
     Some (s\<lparr>world := ww, prog := (prog s)(c := map (\<lambda>i. on_cpu i F_setup_smp_id 0) [1..<nat (cpu_count ww)])\<rparr>)
   }"

definition smp_init_end :: "('f, 'd, 'w) smp_state \<Rightarrow> ('f, 'd, 'w) smp_state" where
  "smp_init_end s = s\<lparr>active_cpus := active_cpus s + 1\<rparr>"

section \<open>Requests that are all waited for\<close>

fun hsync :: "('f, 'd) hpc \<Rightarrow> bool" where
  "hsync (H_done f d) = False"
| "hsync (H_eoi f d) = False"
| "hsync (H_call f d w) = w"
| "hsync (H_dec w) = w"
| "hsync _ = True"

definition all_sync :: "('f, 'd, 'w) smp_state \<Rightarrow> bool" where
  "all_sync s \<longleftrightarrow> (\<forall>c r. Call r \<in> set (prog s c) \<longrightarrow> r_wait r) \<and> (\<forall>c r. treq (thr s c) = Some r \<longrightarrow> r_wait r) \<and> (\<forall>c. hsync (hnd s c))"

lemma on_cpu_requests:
  assumes "on_cpu_step env c (thr s c) s = Some s'"
  shows "hnd s' = hnd s" "k \<noteq> c \<Longrightarrow> thr s' k = thr s k \<and> prog s' k = prog s k" "set (prog s' c) \<subseteq> set (prog s c)"
    "treq (thr s' c) = None \<or> treq (thr s' c) = treq (thr s c) \<or> (\<exists>r. Call r \<in> set (prog s c) \<and> treq (thr s' c) = Some r)"
  using assms by (cases "thr s c"; auto simp: go_def split: list.splits cmd.splits if_splits)+

lemma all_sync_on_cpu:
  assumes "on_cpu_step env c (thr s c) s = Some s'" "all_sync s"
  shows "all_sync s'"
proof -
  note R = on_cpu_requests[OF assms(1)]
  have "r_wait r" if "Call r \<in> set (prog s' k)" for k r
    using that R(2)[of k] R(3) assms(2) unfolding all_sync_def by (cases "k = c") fastforce+
  moreover have "r_wait r" if "treq (thr s' k) = Some r" for k r
    using that R(2)[of k] R(4) assms(2) unfolding all_sync_def by (cases "k = c") fastforce+
  ultimately show ?thesis using R(1) assms(2) by (simp add: all_sync_def)
qed

lemma busy_waited:
  assumes "smp_inv s" "all_sync s" "busy s c"
  shows "ipi_wait s"
proof -
  obtain k r where k: "thr s k = T_spin r" using smp_invD(6)[OF assms(1,3)] by blast
  then have "treq (thr s k) = Some r" by simp
  then have "r_wait r" using assms(2) unfolding all_sync_def by blast
  then show ?thesis using smp_invD(3)[OF assms(1), of k] k by (simp add: holds_def)
qed

lemma all_sync_ipi:
  assumes "ipi_step env c (hnd s c) s = Some s'" "all_sync s" "smp_inv s"
  shows "all_sync s'"
proof -
  have "hsync (hnd s c)" using assms(2) by (simp add: all_sync_def)
  then show ?thesis using assms busy_waited[OF assms(3,2), of c]
    by (cases "hnd s c") (auto simp: all_sync_def hgo_def busy_def)
qed

lemma all_sync_step:
  assumes "smp_step env n s s'" "all_sync s" "smp_inv s"
  shows "all_sync s'"
  using assms
proof (induction rule: smp_step.induct)
  case (cpu c s s')
  then show ?case using all_sync_on_cpu[of env c s s'] all_sync_ipi[of env c s s']
    by (auto simp: cpu_step_def split: if_splits)
next
  case (interrupt c s s')
  then show ?case by (auto simp: all_sync_def take_ipi_def hgo_def split: if_splits)
qed

lemma reach_all_sync:
  assumes "smp_reach env n s0 s" "smp_start a s0" "all_sync s0"
  shows "all_sync s"
  using assms(1) by (induction rule: smp_reach.induct) (auto intro: assms all_sync_step reach_inv)

lemma sync_units:
  assumes "smp_inv s" "all_sync s" "\<And>k. thr s k = T_idle"
  shows "units s c = 0"
proof -
  have "\<not> busy s c" using smp_invD(6)[OF assms(1), of c] assms(3) by auto
  moreover have "hsync (hnd s c)" using assms(2) by (simp add: all_sync_def)
  ultimately show ?thesis using assms(3) by (cases "hnd s c") (auto simp: busy_def units_def)
qed

section \<open>Identities\<close>

definition ids_of :: "desc_state \<Rightarrow> (init_fun, u64, smp_world) smp_state \<Rightarrow> bool" where
  "ids_of w s \<longleftrightarrow> wdesc (world s) = w \<and> gs0 (world s) 0 = 0 \<and> (\<forall>c. ran s c \<noteq> [] \<longrightarrow> gs0 (world s) c = c)"

lemma init_env_keeps: "keeps_id init_env"
  by (auto simp: keeps_id_def init_env_def setup_smp_id_def split: init_fun.split)

lemma ids_step:
  assumes "smp_step init_env n s s'" "ids_of w s" "only0 init_env s"
  shows "ids_of w s'"
  using assms
proof (induction rule: smp_step.induct)
  case (cpu c s s')
  show ?case
  proof (cases "hnd s c = H_none")
    case True
    then have "on_cpu_step init_env c (thr s c) s = Some s'" using cpu(2) by (simp add: cpu_step_def)
    then show ?thesis using cpu(3,4)
      by (cases "thr s c"; cases "c = 0")
        (auto simp: ids_of_def only0_def go_def init_env_def setup_smp_id_def
          split: list.splits cmd.splits if_splits init_fun.splits)
  next
    case False
    then have "ipi_step init_env c (hnd s c) s = Some s'" using cpu(2) by (simp add: cpu_step_def)
    then show ?thesis using cpu(3)
      by (cases "hnd s c") (auto simp: ids_of_def hgo_def init_env_def setup_smp_id_def split: init_fun.splits)
  qed
next
  case (interrupt c s s')
  then show ?case by (auto simp: ids_of_def take_ipi_def hgo_def split: if_splits)
qed

lemma reach_ids:
  assumes "smp_reach init_env n s0 s" "ids_of w s0" "only0 init_env s0"
  shows "ids_of w s"
  using assms(1)
  by (induction rule: smp_reach.induct) (auto intro: assms(2) ids_step reach_only0[OF _ assms(3) init_env_keeps])


lemma setup_idt_returns:
  assumes "desc_ok s"
  shows "\<exists>s'. setup_idt env s = Some s' \<and> desc_ok s' \<and> cs_reg s' = cs_reg s"
proof (cases "idt_initialized s")
  case False
  let ?s = "s\<lparr>idt_initialized := True\<rparr>"
  obtain t where "set_idt_entries env [0..<32] ?s = Some (?s\<lparr>boot_idt := t\<rparr>)" "length t = 256"
    using set_idt_entries_gates[of ?s "boot_idt s" "cs_reg s" "[0..<32]" env] assms by (auto simp: desc_ok_def)
  then show ?thesis using assms False by (auto simp: setup_idt_def handle_exception_def desc_ok_def Let_def)
qed (use assms in \<open>simp add: setup_idt_def\<close>)

lemma sint_ucast_u16: "sint (ucast (x::u16) :: u32) = int (unat x)"
proof -
  have "uint x < 2 ^ 16" using uint_lt2p[of x] by simp
  moreover have "- (2 ^ 31) \<le> uint x" using uint_ge_0[of x] by (rule order.trans[rotated]) simp
  ultimately show ?thesis
    by (simp add: sint_uint unsigned_ucast_eq take_bit_int_eq_self signed_take_bit_int_eq_self)
qed

text \<open>What \<^verbatim>\<open>smp_init\<close> has done when it enters its loop.\<close>

lemma smp_init_prefix:
  assumes "desc_ok (wdesc (world s))" "fw_lock (wdesc (world s)) = 0" "fw_cfg_dev hw item"
  defines "n \<equiv> unat (ucast (le_bytes (item 5) 2) :: u16)"
  shows "\<exists>w. smp_init hw denv entry 0 s = Some (s\<lparr>world := setup_smp_id 0 ((world s)\<lparr>wdesc := w, cpu_cnt := int n\<rparr>),
      prog := (prog s)(0 := map (\<lambda>i. on_cpu i F_setup_smp_id 0) [1..<n])\<rparr>) \<and>
    interrupt_gate entry (cs_reg (wdesc (world s))) 0 (boot_idt w ! 0x20)"
proof -
  let ?w = "wdesc (world s)"
  let ?n = "ucast (ucast (le_bytes (item 5) 2) :: u16) :: u32"
  have f: "fwcfg_get_nb_cpus hw ?w = Some (?n, fw_done 5 2 ?w)"
    using fwcfg_get_u_item[OF assms(3,2), of 5 2] by (simp add: fwcfg_get_nb_cpus_def fwcfg_get_u16_def FW_CFG_NB_CPUS_def)
  have k: "desc_ok (fw_done 5 2 ?w)" "cs_reg (fw_done 5 2 ?w) = cs_reg ?w"
    using assms(1) by (simp_all add: fw_done_def desc_ok_def)
  obtain w where w: "setup_idt denv (fw_done 5 2 ?w) = Some w" "desc_ok w" "cs_reg w = cs_reg ?w"
    using setup_idt_returns[OF k(1), of denv] k(2) by auto
  let ?w' = "w\<lparr>boot_idt := (boot_idt w)[32 := new_gate entry (cs_reg w) 0]\<rparr>"
  have g: "set_idt_entry IPI_VECTOR entry 0 w = Some ?w'"
    using set_idt_entry_gate[of IPI_VECTOR w entry 0] w(2) by (simp add: IPI_VECTOR_def desc_ok_def)
  have "sint ?n = int n" unfolding n_def by (rule sint_ucast_u16)
  then have "smp_init hw denv entry 0 s = Some (s\<lparr>world := setup_smp_id 0 ((world s)\<lparr>wdesc := ?w', cpu_cnt := int n\<rparr>),
      prog := (prog s)(0 := map (\<lambda>i. on_cpu i F_setup_smp_id 0) [1..<n])\<rparr>)"
    using f w(1) g by (simp add: smp_init_def Let_def cpu_count_def setup_smp_id_def)
  moreover have "interrupt_gate entry (cs_reg ?w) 0 (boot_idt ?w' ! 0x20)"
    using w(2,3) new_gate_interrupt[of entry "cs_reg ?w" 0] by (simp add: desc_ok_def)
  ultimately show ?thesis by blast
qed


lemma start_prog: "smp_start a s \<Longrightarrow> smp_start a (s\<lparr>world := w, prog := p\<rparr>)"
  by (simp add: smp_start_def)


definition init_start :: "(init_fun, u64, smp_world) smp_state" where
  "init_start = \<lparr>ipi_lock = 0, ipi_function = F_setup_smp_id, ipi_data = 0, ipi_done = False, ipi_wait = False, active_cpus = 0,
     irr = (\<lambda>c. False), thr = (\<lambda>c. T_idle), prog = (\<lambda>c. []), hnd = (\<lambda>c. H_none),
     world = \<lparr>wdesc = desc_machine, cpu_cnt = 0, gs0 = (\<lambda>c. 0)\<rparr>, sent = (\<lambda>c. []), ran = (\<lambda>c. []), direct = []\<rparr>"


lemma desc_machine_fw: "fw_lock desc_machine = 0"
  by (simp add: desc_machine_def stack_state.extend_def stack_machine_def apic_state.extend_def vm_state.extend_def
    vm_machine_def phys_state.extend_def phys_machine_def vmx_state.extend_def vmx0_def)

lemma init_start_ok:
  "smp_start 0 init_start" "prog init_start = (\<lambda>c. [])" "desc_ok (wdesc (world init_start))" "fw_lock (wdesc (world init_start)) = 0"
  "cs_reg (wdesc (world init_start)) = 8"
  using desc_machine_ok by (simp_all add: init_start_def smp_start_def desc_machine_fw)


end
