(* ===== verification/Iommu.thy ===== *)
theory Iommu
  imports Apic Pci
begin

text \<open>
  \<^verbatim>\<open>lib/x86/intel-iommu.c\<close> and \<^verbatim>\<open>intel-iommu.h\<close>: the registers of the remapping hardware, root and context entries, the
  three-level tables of a device, and the entries that remap interrupts. Structures of bit fields are kept as
  the words they are stored in; an assignment to a field is \<open>bf_set\<close> on its word.
\<close>

section \<open>Constants and state\<close>

definition Q35_HOST_BRIDGE_IOMMU_ADDR :: u64 where [c_defs]: "Q35_HOST_BRIDGE_IOMMU_ADDR = 0xfed90000"
definition VTD_PAGE_SHIFT :: nat where [c_defs]: "VTD_PAGE_SHIFT = 12"
definition VTD_PAGE_SIZE :: u64 where [c_defs]: "VTD_PAGE_SIZE = PAGE_SIZE"
definition DMAR_VER_REG :: u32 where [c_defs]: "DMAR_VER_REG = 0x0"
definition DMAR_CAP_REG :: u32 where [c_defs]: "DMAR_CAP_REG = 0x8"
definition DMAR_ECAP_REG :: u32 where [c_defs]: "DMAR_ECAP_REG = 0x10"
definition DMAR_GCMD_REG :: u32 where [c_defs]: "DMAR_GCMD_REG = 0x18"
definition DMAR_GSTS_REG :: u32 where [c_defs]: "DMAR_GSTS_REG = 0x1c"
definition DMAR_RTADDR_REG :: u32 where [c_defs]: "DMAR_RTADDR_REG = 0x20"
definition DMAR_IRTA_REG :: u32 where [c_defs]: "DMAR_IRTA_REG = 0xb8"
definition VTD_GCMD_IR_TABLE :: u32 where [c_defs]: "VTD_GCMD_IR_TABLE = 0x1000000"
definition VTD_GCMD_IR :: u32 where [c_defs]: "VTD_GCMD_IR = 0x2000000"
definition VTD_GCMD_QI :: u32 where [c_defs]: "VTD_GCMD_QI = 0x4000000"
definition VTD_GCMD_WBF :: u32 where [c_defs]: "VTD_GCMD_WBF = 0x8000000"
definition VTD_GCMD_SFL :: u32 where [c_defs]: "VTD_GCMD_SFL = 0x20000000"
definition VTD_GCMD_ROOT :: u32 where [c_defs]: "VTD_GCMD_ROOT = 0x40000000"
definition VTD_GCMD_DMAR :: u32 where [c_defs]: "VTD_GCMD_DMAR = 0x80000000"
definition VTD_GCMD_ONE_SHOT_BITS :: u32 where [c_defs]:
  "VTD_GCMD_ONE_SHOT_BITS = VTD_GCMD_IR_TABLE OR VTD_GCMD_WBF OR VTD_GCMD_SFL OR VTD_GCMD_ROOT"
definition VTD_CONTEXT_TT_MULTI_LEVEL :: u64 where [c_defs]: "VTD_CONTEXT_TT_MULTI_LEVEL = 0"
definition VTD_PTE_R :: u64 where [c_defs]: "VTD_PTE_R = push_bit 0 1"
definition VTD_PTE_W :: u64 where [c_defs]: "VTD_PTE_W = push_bit 1 1"
definition VTD_PTE_RW :: u64 where [c_defs]: "VTD_PTE_RW = VTD_PTE_R OR VTD_PTE_W"
definition VTD_PTE_ADDR :: u64 where [c_defs]: "VTD_PTE_ADDR = GENMASK_ULL 63 12"
definition VTD_PTE_HUGE :: u64 where [c_defs]: "VTD_PTE_HUGE = push_bit 7 1"
definition VTD_PAGE_LEVEL :: int where [c_defs]: "VTD_PAGE_LEVEL = 3"
definition VTD_CE_AW_39BIT :: u64 where [c_defs]: "VTD_CE_AW_39BIT = 0x1"
definition VTD_RTA_MASK :: u64 where [c_defs]: "VTD_RTA_MASK = PAGE_MASK"
definition VTD_IRTA_MASK :: u64 where [c_defs]: "VTD_IRTA_MASK = PAGE_MASK"

definition PCI_BDF_GET_DEVFN :: "u16 \<Rightarrow> u8" where "PCI_BDF_GET_DEVFN x = ucast (x AND 0xff)"
definition PCI_BDF_GET_BUS :: "u16 \<Rightarrow> u8" where "PCI_BDF_GET_BUS x = ucast (drop_bit 8 x AND 0xff)"

record vtd_state = apic_state +
  vtd_reg_base :: u64
  index_ctr :: int

text \<open>Reading and assigning the bit field of \<open>len\<close> bits at \<open>off\<close> of a word.\<close>

definition bf_get :: "nat \<Rightarrow> nat \<Rightarrow> u64 \<Rightarrow> u64" where
  "bf_get off len w = drop_bit off w AND mask len"

definition bf_set :: "nat \<Rightarrow> nat \<Rightarrow> u64 \<Rightarrow> u64 \<Rightarrow> u64" where
  "bf_set off len v w = (w AND NOT (push_bit off (mask len))) OR push_bit off (v AND mask len)"

definition bf_store :: "u64 \<Rightarrow> nat \<Rightarrow> nat \<Rightarrow> u64 \<Rightarrow> mem \<Rightarrow> mem" where
  "bf_store a off len v m = st64 m a (bf_set off len v (ld64 m a))"

section \<open>Registers\<close>

definition vtd_reg :: "u32 \<Rightarrow> 'a vtd_state_scheme \<Rightarrow> u64 option" where
  "vtd_reg reg s = do { c_assert (vtd_reg_base s \<noteq> 0); Some (vtd_reg_base s + ucast reg) }"

definition vtd_writel :: "u32 \<Rightarrow> u32 \<Rightarrow> 'a vtd_state_scheme \<Rightarrow> 'a vtd_state_scheme option" where
  "vtd_writel reg v s = do { a \<leftarrow> vtd_reg reg s; Some (raw_writel v a s) }"

definition vtd_writeq :: "u32 \<Rightarrow> u64 \<Rightarrow> 'a vtd_state_scheme \<Rightarrow> 'a vtd_state_scheme option" where
  "vtd_writeq reg v s = do { a \<leftarrow> vtd_reg reg s; Some (raw_writeq v a s) }"

definition vtd_readl :: "hw \<Rightarrow> u32 \<Rightarrow> 'a vtd_state_scheme \<Rightarrow> (u32 \<times> 'a vtd_state_scheme) option" where
  "vtd_readl hw reg s = do { a \<leftarrow> vtd_reg reg s; Some (raw_readl hw a s) }"

definition vtd_readq :: "hw \<Rightarrow> u32 \<Rightarrow> 'a vtd_state_scheme \<Rightarrow> (u64 \<times> 'a vtd_state_scheme) option" where
  "vtd_readq hw reg s = do { a \<leftarrow> vtd_reg reg s; Some (raw_readq hw a s) }"

definition vtd_root_table :: "hw \<Rightarrow> 'a vtd_state_scheme \<Rightarrow> (u64 \<times> 'a vtd_state_scheme) option" where
  "vtd_root_table hw s = do { (v, s) \<leftarrow> vtd_readq hw DMAR_RTADDR_REG s; Some (v AND VTD_RTA_MASK, s) }"

definition vtd_ir_table :: "hw \<Rightarrow> 'a vtd_state_scheme \<Rightarrow> (u64 \<times> 'a vtd_state_scheme) option" where
  "vtd_ir_table hw s = do { (v, s) \<leftarrow> vtd_readq hw DMAR_IRTA_REG s; Some (v AND VTD_IRTA_MASK, s) }"

text \<open>\<^verbatim>\<open>while (!(vtd_readl(DMAR_GSTS_REG) & cmd)) cpu_relax();\<close>\<close>

partial_function (option) vtd_gcmd_wait :: "hw \<Rightarrow> u32 \<Rightarrow> 'a vtd_state_scheme \<Rightarrow> 'a vtd_state_scheme option" where
  "vtd_gcmd_wait hw cmd s = do {
     (status, s) \<leftarrow> vtd_readl hw DMAR_GSTS_REG s;
     if status AND cmd = 0 then vtd_gcmd_wait hw cmd s else Some s }"

definition vtd_gcmd_or :: "hw \<Rightarrow> u32 \<Rightarrow> 'a vtd_state_scheme \<Rightarrow> 'a vtd_state_scheme option" where
  "vtd_gcmd_or hw cmd s = do {
     c_assert (is_power_of_2 (ucast cmd));
     (status, s) \<leftarrow> vtd_readl hw DMAR_GSTS_REG s;
     s \<leftarrow> vtd_writel DMAR_GCMD_REG (status OR cmd) s;
     if cmd AND VTD_GCMD_ONE_SHOT_BITS \<noteq> 0 then Some s
     else vtd_gcmd_wait hw cmd s }"

definition vtd_dump_init_info :: "hw \<Rightarrow> 'a vtd_state_scheme \<Rightarrow> 'a vtd_state_scheme option" where
  "vtd_dump_init_info hw s = do {
     (version, s) \<leftarrow> vtd_readl hw DMAR_VER_REG s;
     c_assert (drop_bit 3 version AND 0xf \<ge> 1);
     let s = kprintf (''VT-d version:   %#x'' @ NL) [PNum (ucast version)] s;
     (cap, s) \<leftarrow> vtd_readq hw DMAR_CAP_REG s;
     let s = kprintf (''     cap:       %#018lx'' @ NL) [PNum cap] s;
     (ecap, s) \<leftarrow> vtd_readq hw DMAR_ECAP_REG s;
     Some (kprintf (''     ecap:      %#018lx'' @ NL) [PNum ecap] s) }"

definition vtd_setup_root_table :: "hw \<Rightarrow> 'a vtd_state_scheme \<Rightarrow> 'a vtd_state_scheme option" where
  "vtd_setup_root_table hw s = do {
     (root, s) \<leftarrow> alloc_page s;
     let s = s\<lparr>mem := memset root 0 PAGE_SIZE (mem s)\<rparr>;
     s \<leftarrow> vtd_writeq DMAR_RTADDR_REG (virt_to_phys root) s;
     s \<leftarrow> vtd_gcmd_or hw VTD_GCMD_ROOT s;
     (t, s) \<leftarrow> vtd_root_table hw s;
     Some (kprintf (''DMAR table address: %#018lx'' @ NL) [PNum t] s) }"

definition vtd_setup_ir_table :: "hw \<Rightarrow> 'a vtd_state_scheme \<Rightarrow> 'a vtd_state_scheme option" where
  "vtd_setup_ir_table hw s = do {
     (root, s) \<leftarrow> alloc_page s;
     let s = s\<lparr>mem := memset root 0 PAGE_SIZE (mem s)\<rparr>;
     s \<leftarrow> vtd_writeq DMAR_IRTA_REG (virt_to_phys root OR 0xf) s;
     s \<leftarrow> vtd_gcmd_or hw VTD_GCMD_IR_TABLE s;
     (t, s) \<leftarrow> vtd_ir_table hw s;
     Some (kprintf (''IR table address: %#018lx'' @ NL) [PNum t] s) }"

section \<open>Tables of a device\<close>

text \<open>The body of the loop of \<^verbatim>\<open>vtd_install_pte\<close> up to the assignment of \<^verbatim>\<open>root\<close>.\<close>

definition vtd_install_step :: "u64 \<Rightarrow> u64 \<Rightarrow> 'a pa_state_scheme \<Rightarrow> 'a pa_state_scheme option" where
  "vtd_install_step root offset s =
     (if ld64 (mem s) (root + 8 * offset) AND VTD_PTE_RW = 0 then do {
        (page, s) \<leftarrow> alloc_page s;
        let s = s\<lparr>mem := memset page 0 PAGE_SIZE (mem s)\<rparr>;
        Some (s\<lparr>mem := st64 (mem s) (root + 8 * offset) (virt_to_phys page OR VTD_PTE_RW)\<rparr>)
      }
      else Some s)"

function vtd_install_loop ::
  "int \<Rightarrow> int \<Rightarrow> u64 \<Rightarrow> u64 \<Rightarrow> 'a pa_state_scheme \<Rightarrow> (int \<times> u64 \<times> 'a pa_state_scheme) option" where
  "vtd_install_loop level level_target iova root s =
     (if level > level_target then do {
        let offset = PGDIR_OFFSET iova level;
        s \<leftarrow> vtd_install_step root offset s;
        let root = phys_to_virt (ld64 (mem s) (root + 8 * offset) AND VTD_PTE_ADDR);
        vtd_install_loop (level - 1) level_target iova root s
      }
      else Some (level, root, s))"
  by pat_completeness auto
termination
  by (relation "measure (\<lambda>(level, level_target, _). nat (level - level_target))") auto

declare vtd_install_loop.simps [simp del]

definition vtd_install_pte :: "u64 \<Rightarrow> u64 \<Rightarrow> u64 \<Rightarrow> int \<Rightarrow> 'a pa_state_scheme \<Rightarrow> 'a pa_state_scheme option" where
  "vtd_install_pte root iova pa level_target s = do {
     (level, root, s) \<leftarrow> vtd_install_loop VTD_PAGE_LEVEL level_target iova root s;
     let offset = PGDIR_OFFSET iova level;
     let s = s\<lparr>mem := st64 (mem s) (root + 8 * offset) (pa OR VTD_PTE_RW)\<rparr>;
     if level \<noteq> 1
     then Some (s\<lparr>mem := st64 (mem s) (root + 8 * offset) (ld64 (mem s) (root + 8 * offset) OR VTD_PTE_HUGE)\<rparr>)
     else Some s }"

text \<open>The two parts of \<^verbatim>\<open>vtd_map_range\<close> that find or make the context table of the bus at the root entry \<open>re\<close> and
  the tables of the device at the context entry \<open>ce\<close>; and its loop.\<close>

definition vtd_context_table :: "u64 \<Rightarrow> u8 \<Rightarrow> 'a pa_state_scheme \<Rightarrow> (u64 \<times> 'a pa_state_scheme) option" where
  "vtd_context_table re bus_n s =
     (if bf_get 0 1 (ld64 (mem s) re) = 0 then do {
        (ce, s) \<leftarrow> alloc_page s;
        let s = s\<lparr>mem := memset ce 0 PAGE_SIZE (mem s)\<rparr>;
        let s = s\<lparr>mem := memset re 0 16 (mem s)\<rparr>;
        let s = s\<lparr>mem := bf_store re 12 52 (drop_bit VTD_PAGE_SHIFT (virt_to_phys ce)) (mem s)\<rparr>;
        let s = s\<lparr>mem := bf_store re 0 1 1 (mem s)\<rparr>;
        Some (ce, kprintf (''allocated vt-d root entry for PCI bus %d'' @ NL) [PNum (ucast bus_n)] s) }
      else Some (phys_to_virt (push_bit VTD_PAGE_SHIFT (bf_get 12 52 (ld64 (mem s) re))), s))"

definition vtd_device_table :: "u64 \<Rightarrow> u16 \<Rightarrow> u8 \<Rightarrow> 'a pa_state_scheme \<Rightarrow> (u64 \<times> 'a pa_state_scheme) option" where
  "vtd_device_table ce sid devfn s =
     (if bf_get 0 1 (ld64 (mem s) ce) = 0 then do {
        (slptptr, s) \<leftarrow> alloc_page s;
        let s = s\<lparr>mem := memset slptptr 0 PAGE_SIZE (mem s)\<rparr>;
        let s = s\<lparr>mem := memset ce 0 16 (mem s)\<rparr>;
        let s = s\<lparr>mem := bf_store (ce + 8) 8 16 (ucast sid) (mem s)\<rparr>;
        let s = s\<lparr>mem := bf_store (ce + 8) 0 3 VTD_CE_AW_39BIT (mem s)\<rparr>;
        let s = s\<lparr>mem := bf_store ce 12 52 (drop_bit VTD_PAGE_SHIFT (virt_to_phys slptptr)) (mem s)\<rparr>;
        let s = s\<lparr>mem := bf_store ce 2 2 VTD_CONTEXT_TT_MULTI_LEVEL (mem s)\<rparr>;
        let s = s\<lparr>mem := bf_store ce 0 1 1 (mem s)\<rparr>;
        let s = s\<lparr>mem := bf_store ce 1 1 1 (mem s)\<rparr>;
        Some (slptptr, kprintf (''allocated vt-d context entry for devfn %#x'' @ NL) [PNum (ucast devfn)] s) }
      else Some (phys_to_virt (push_bit VTD_PAGE_SHIFT (bf_get 12 52 (ld64 (mem s) ce))), s))"

partial_function (option) vtd_map_loop :: "u64 \<Rightarrow> u16 \<Rightarrow> u64 \<Rightarrow> u64 \<Rightarrow> u64 \<Rightarrow> 'a pa_state_scheme \<Rightarrow> 'a pa_state_scheme option" where
  "vtd_map_loop slptptr sid iova pa len s =
     (if len \<noteq> 0 then do {
        let s = kprintf (''map 4K page IOVA %#lx to %#lx (sid=%#06x)'' @ NL) [PNum iova, PNum pa, PNum (ucast sid)] s;
        s \<leftarrow> vtd_install_pte slptptr iova pa 1 s;
        vtd_map_loop slptptr sid (iova + VTD_PAGE_SIZE) (pa + VTD_PAGE_SIZE) (len - VTD_PAGE_SIZE) s }
      else Some s)"

definition vtd_map_range :: "hw \<Rightarrow> u16 \<Rightarrow> u64 \<Rightarrow> u64 \<Rightarrow> u64 \<Rightarrow> 'a vtd_state_scheme \<Rightarrow> 'a vtd_state_scheme option" where
  "vtd_map_range hw sid iova pa len s = do {
     (t, s) \<leftarrow> vtd_root_table hw s;
     let re = phys_to_virt t;
     c_assert (IS_ALIGNED iova 4096);
     c_assert (IS_ALIGNED pa 4096);
     c_assert (IS_ALIGNED len 4096);
     let bus_n = PCI_BDF_GET_BUS sid;
     let devfn = PCI_BDF_GET_DEVFN sid;
     let re = re + 16 * ucast bus_n;
     (ce, s) \<leftarrow> vtd_context_table re bus_n s;
     let ce = ce + 16 * ucast devfn;
     (slptptr, s) \<leftarrow> vtd_device_table ce sid devfn s;
     vtd_map_loop slptptr sid iova pa len s }"

section \<open>Remapped interrupts\<close>

text \<open>\<^verbatim>\<open>atomic_inc_fetch\<close> on the counter; the result is cut to 16 bits.\<close>

definition vtd_intr_index_alloc :: "'a vtd_state_scheme \<Rightarrow> (u16 \<times> 'a vtd_state_scheme) option" where
  "vtd_intr_index_alloc s = do {
     c_assert (index_ctr s < 65535);
     let ctr = index_ctr s + 1;
     let s = s\<lparr>index_ctr := ctr\<rparr>;
     Some (word_of_int ctr, kprintf (''INTR: alloc IRTE index %d'' @ NL) [PNum (word_of_int ctr)] s) }"

text \<open>The sixteen bytes of an entry are two words: the first three fields of 32 bits and \<^verbatim>\<open>dest_id\<close> make the first.\<close>

definition vtd_setup_irte :: "pci_dev \<Rightarrow> u64 \<Rightarrow> u32 \<Rightarrow> u32 \<Rightarrow> trigger_mode \<Rightarrow> mem \<Rightarrow> mem" where
  "vtd_setup_irte dev irte vector dest_id trigger m =
     (let m = memset irte 0 16 m;
          m = bf_store irte 1 1 1 m;
          m = bf_store irte 2 1 0 m;
          m = bf_store irte 4 1 (ucast (trigger_num trigger)) m;
          m = bf_store irte 5 3 0 m;
          m = bf_store irte 15 1 0 m;
          m = bf_store irte 16 8 (ucast vector) m;
          m = bf_store irte 32 32 (ucast dest_id) m;
          m = bf_store (irte + 8) 0 16 (ucast (bdf dev)) m;
          m = bf_store (irte + 8) 16 2 0 m;
          m = bf_store (irte + 8) 18 2 1 m
      in bf_store irte 0 1 1 m)"

definition vtd_setup_msi :: "hw \<Rightarrow> pci_dev \<Rightarrow> u32 \<Rightarrow> u32 \<Rightarrow> 'a vtd_state_scheme \<Rightarrow> (bool \<times> 'a vtd_state_scheme) option" where
  "vtd_setup_msi hw dev vector dest_id s = do {
     (irte, s) \<leftarrow> vtd_ir_table hw s;
     (index, s) \<leftarrow> vtd_intr_index_alloc s;
     let s = s\<lparr>mem := vtd_setup_irte dev (phys_to_virt irte + 16 * ucast index) vector dest_id TRIGGER_EDGE (mem s)\<rparr>;
     let a = 0;
     let a = bf_set 2 1 (ucast (drop_bit 15 index AND 1)) a;
     let a = bf_set 3 1 0 a;
     let a = bf_set 4 1 1 a;
     let a = bf_set 5 15 (ucast (index AND 0x7fff)) a;
     let a = bf_set 20 12 0xfee a;
     let d = bf_set 16 16 0 0;
     let s = kprintf (''%s: msi_addr=%#lx, msi_data=%#x'' @ NL) [PStr ''vtd_setup_msi'', PNum a, PNum d] s;
     Some (pci_setup_msi hw dev a (ucast d) s) }"

text \<open>The entry is written as a structure of \<^verbatim>\<open>vtd_ioapic_entry\<close> and handed on as an \<^verbatim>\<open>ioapic_redir_entry_t\<close>: the same
  eight bytes.\<close>

definition vtd_setup_ioapic_irq ::
  "hw \<Rightarrow> pci_dev \<Rightarrow> u32 \<Rightarrow> u32 \<Rightarrow> trigger_mode \<Rightarrow> 'a vtd_state_scheme \<Rightarrow> 'a vtd_state_scheme option" where
  "vtd_setup_ioapic_irq hw dev vector dest_id trigger s = do {
     (irte, s) \<leftarrow> vtd_ir_table hw s;
     (index, s) \<leftarrow> vtd_intr_index_alloc s;
     let s = s\<lparr>mem := vtd_setup_irte dev (phys_to_virt irte + 16 * ucast index) vector dest_id trigger (mem s)\<rparr>;
     let e = 0;
     let e = bf_set 0 8 (ucast vector) e;
     let e = bf_set 15 1 (ucast (trigger_num trigger)) e;
     let e = bf_set 11 1 (ucast (drop_bit 15 index AND 1)) e;
     let e = bf_set 48 1 1 e;
     let e = bf_set 49 15 (ucast (index AND 0x7fff)) e;
     let (line, s) = pci_intx_line hw dev s;
     Some (ioapic_write_redir (ucast line) (redir_of (ucast e) (ucast (drop_bit 32 e))) s) }"

definition vtd_init :: "hw \<Rightarrow> 'a vtd_state_scheme \<Rightarrow> 'a vtd_state_scheme option" where
  "vtd_init hw s = do {
     (b, s) \<leftarrow> ioremap Q35_HOST_BRIDGE_IOMMU_ADDR PAGE_SIZE s;
     let s = s\<lparr>vtd_reg_base := b\<rparr>;
     s \<leftarrow> vtd_dump_init_info hw s;
     s \<leftarrow> vtd_gcmd_or hw VTD_GCMD_QI s;
     s \<leftarrow> vtd_setup_root_table hw s;
     s \<leftarrow> vtd_setup_ir_table hw s;
     s \<leftarrow> vtd_gcmd_or hw VTD_GCMD_DMAR s;
     vtd_gcmd_or hw VTD_GCMD_IR s }"

end
