(* ===== verification/Iommu_Map.thy ===== *)
theory Iommu_Map
  imports Iommu
begin

text \<open>
  The tables of the IOMMU as the hardware walks them: the second-level tables are a third format of the general
  tables, below root and context entries; and what the operations of \<^verbatim>\<open>intel-iommu.c\<close> do to the walk of every device.
\<close>

section \<open>Bit fields\<close>

lemma bit_bf_set:
  "bit (bf_set off len v w) n \<longleftrightarrow> n < 64 \<and> (if off \<le> n \<and> n < off + len then bit v (n - off) else bit w n)"
  by (auto simp: bf_set_def bit_simps dest: bit_imp_le_length)

lemma bit_bf_get: "bit (bf_get off len w) n \<longleftrightarrow> n < len \<and> bit w (off + n)"
proof -
  have "n < 64" if "bit w (off + n)" using bit_imp_le_length[OF that] by simp
  then show ?thesis by (auto simp: bf_get_def bit_simps)
qed

lemma bf_get_one: "bf_get off 1 w = 0 \<longleftrightarrow> \<not> bit w off"
proof
  assume "bf_get off 1 w = 0"
  then have "\<not> bit (bf_get off 1 w) 0" by simp
  then show "\<not> bit w off" by (simp add: bit_bf_get)
next
  assume "\<not> bit w off"
  then have "\<not> bit (bf_get off 1 w) n" for n by (cases n) (simp_all add: bit_bf_get)
  then show "bf_get off 1 w = 0" by (intro bit_word_eqI) simp
qed

text \<open>The address of the table an entry points to.\<close>

definition tbl_ptr :: "u64 \<Rightarrow> u64" where
  "tbl_ptr e = push_bit 12 (bf_get 12 52 e)"

lemma bit_tbl_ptr: "bit (tbl_ptr e) n \<longleftrightarrow> 12 \<le> n \<and> bit e n"
  by (auto simp: tbl_ptr_def bit_simps bit_bf_get dest: bit_imp_le_length)

lemma tbl_ptr_set: "aligned 12 p \<Longrightarrow> (\<And>n. 12 \<le> n \<Longrightarrow> n < 64 \<Longrightarrow> bit e n \<longleftrightarrow> bit p n) \<Longrightarrow> tbl_ptr e = p"
  using aligned_bit[of 12 p] by (intro bit_word_eqI) (auto simp: bit_tbl_ptr not_less[symmetric])

section \<open>Memory\<close>

lemma st64_zero_apply: "st64 m a 0 x = (if x - a < 8 then 0 else m x)"
proof (cases "x - a < 8")
  case True
  define d where "d = x - a"
  have "unat d < 8" using True by (simp add: d_def word_less_nat_alt)
  then have "unat d = 0 \<or> unat d = 1 \<or> unat d = 2 \<or> unat d = 3 \<or> unat d = 4 \<or> unat d = 5 \<or> unat d = 6 \<or> unat d = 7" by linarith
  then have "d = 0 \<or> d = 1 \<or> d = 2 \<or> d = 3 \<or> d = 4 \<or> d = 5 \<or> d = 6 \<or> d = 7" by (simp add: word_unat_eq_iff)
  moreover have "x = a + d" by (simp add: d_def)
  ultimately show ?thesis using True by (auto simp: st64_def)
next
  case False
  then show ?thesis by (simp add: st64_other)
qed

lemma memset_16: "memset a 0 16 m = st64 (st64 m a 0) (a + 8) 0"
proof
  fix x
  have "x - a < 16 \<longleftrightarrow> x - (a + 8) < 8 \<or> x - a < 8"
  proof -
    define d where "d = x - a"
    have "d < 16 \<longleftrightarrow> d - 8 < 8 \<or> d < 8" by unat_arith
    then show ?thesis by (simp add: d_def diff_diff_eq)
  qed
  then show "memset a 0 16 m x = st64 (st64 m a 0) (a + 8) 0 x" by (simp add: memset_apply st64_zero_apply)
qed

lemma slot_succ: "(p::u64) + 8 * i + 8 = p + 8 * (i + 1)" "(p::u64) + 16 * b = p + 8 * (2 * b)"
  by (simp_all add: algebra_simps)

section \<open>The format of second-level entries\<close>

text \<open>An entry of a table passes reading and writing on; below a large page there is nothing.\<close>

definition vtd_fmt :: ptfmt where
  "vtd_fmt = \<lparr>pf_present = \<lambda>e. e AND VTD_PTE_RW \<noteq> 0, pf_large = \<lambda>e. e AND VTD_PTE_HUGE \<noteq> 0,
     pf_addr = \<lambda>e. e AND VTD_PTE_ADDR, pf_attr = \<lambda>e. e AND VTD_PTE_RW,
     pf_pass = \<lambda>e. if e AND VTD_PTE_HUGE \<noteq> 0 then 0 else e OR NOT VTD_PTE_RW\<rparr>"

lemma vtd_fmt_simps [simp]:
  "pf_present vtd_fmt e \<longleftrightarrow> e AND VTD_PTE_RW \<noteq> 0" "pf_large vtd_fmt e \<longleftrightarrow> e AND VTD_PTE_HUGE \<noteq> 0"
  "pf_addr vtd_fmt e = e AND VTD_PTE_ADDR" "pf_attr vtd_fmt e = e AND VTD_PTE_RW"
  "pf_pass vtd_fmt e = (if e AND VTD_PTE_HUGE \<noteq> 0 then 0 else e OR NOT VTD_PTE_RW)"
  by (simp_all add: vtd_fmt_def)

lemma vtd_bits: "bit VTD_PTE_RW n \<longleftrightarrow> n < 2" "bit VTD_PTE_HUGE n \<longleftrightarrow> n = 7" "bit VTD_PTE_ADDR n \<longleftrightarrow> 12 \<le> n \<and> n < 64"
proof -
  have m: "VTD_PTE_RW = mask 2" by (simp add: c_defs mask_eq_exp_minus_1)
  show "bit VTD_PTE_RW n \<longleftrightarrow> n < 2" unfolding m bit_mask_iff by auto
  show "bit VTD_PTE_HUGE n \<longleftrightarrow> n = 7" using bit_ps_bit[of n] by (simp add: VTD_PTE_HUGE_def ps_bit_def)
  show "bit VTD_PTE_ADDR n \<longleftrightarrow> 12 \<le> n \<and> n < 64" by (auto simp: VTD_PTE_ADDR_def bit_GENMASK_ULL)
qed

lemma vtd_entry:
  assumes "aligned 12 p"
  shows "(p OR VTD_PTE_RW) AND VTD_PTE_ADDR = p" "(p OR VTD_PTE_RW) AND VTD_PTE_RW = VTD_PTE_RW"
    "(p OR VTD_PTE_RW) AND VTD_PTE_HUGE = 0" "(p OR VTD_PTE_RW) OR NOT VTD_PTE_RW = - 1"
proof -
  have b: "bit p n \<Longrightarrow> 12 \<le> n" for n using aligned_bit[OF assms, of n] by (meson not_less)
  have "\<not> bit p 7" using b[of 7] by auto
  show "(p OR VTD_PTE_RW) AND VTD_PTE_ADDR = p" "(p OR VTD_PTE_RW) AND VTD_PTE_RW = VTD_PTE_RW"
    "(p OR VTD_PTE_RW) AND VTD_PTE_HUGE = 0" "(p OR VTD_PTE_RW) OR NOT VTD_PTE_RW = - 1"
    using b \<open>\<not> bit p 7\<close> by (auto intro!: bit_word_eqI simp: bit_simps vtd_bits)
qed

lemma VTD_PTE_RW_nonzero: "VTD_PTE_RW \<noteq> 0"
  by (simp add: c_defs)

lemma vtd_nolarge: "twf vtd_fmt m n pt \<Longrightarrow> n \<le> 3 \<Longrightarrow> 1 \<le> k \<Longrightarrow> nolarge vtd_fmt m k n pt va"
proof (induction n arbitrary: pt)
  case (Suc l)
  let ?e = "ent m pt (pt_idx (Suc l) va)"
  have "entry_ok vtd_fmt (Suc l) ?e" using Suc.prems(1) by (simp add: twf.simps)
  then have "pf_present vtd_fmt ?e \<Longrightarrow> Suc l > 1 \<Longrightarrow> \<not> pf_large vtd_fmt ?e" by (auto simp: entry_ok_def split: if_splits)
  then have "is_table vtd_fmt (Suc l) ?e" if "pf_present vtd_fmt ?e" "Suc l > k"
    using that Suc.prems(3) by (simp add: is_table_def is_leaf_def)
  then show ?case using Suc by (auto simp: Let_def twf.simps is_table_def)
qed simp

definition vtd_step :: "nat \<Rightarrow> u64 \<Rightarrow> u64 \<Rightarrow> 'a pa_state_scheme \<Rightarrow> 'a pa_state_scheme option" where
  "vtd_step l pt i s = vtd_install_step pt i s"

lemma vtd_step_absent:
  assumes inv: "tinv vtd_fmt s (p # ps) (Suc (Suc l)) pt" and i: "i < 512"
    and e: "ent (mem s) pt i AND VTD_PTE_RW = 0"
  shows "\<exists>s'. vtd_step (Suc (Suc l)) pt i s = Some s' \<and>
    grown vtd_fmt s (p # ps) s' 1 (Suc (Suc l)) pt \<and>
    is_table vtd_fmt (Suc (Suc l)) (ent (mem s') pt i) \<and>
    (\<forall>va. xlate vtd_fmt (mem s') (Suc (Suc l)) pt va = xlate vtd_fmt (mem s) (Suc (Suc l)) pt va) \<and>
    (\<forall>j<512. ent (mem s') (pf_addr vtd_fmt (ent (mem s') pt i)) j = 0)"
proof -
  have fl: "fl_inv s (p # ps)" and p: "aligned 12 p" using inv by (auto simp: tinv_def fl_inv_def)
  let ?m1 = "memset p 0 PAGE_SIZE (mem s)" and ?e = "p OR VTD_PTE_RW"
  define s' where "s' = s\<lparr>freelist := ld64 (mem s) p, mem := st64 ?m1 (pt + 8 * i) ?e\<rparr>"
  have st: "vtd_step (Suc (Suc l)) pt i s = Some s'"
    using alloc_page_Cons[OF fl] e by (simp add: vtd_step_def vtd_install_step_def ent_def s'_def)
  have z: "ent ?m1 p j = 0" if "j < 512" for j using that p by (simp add: ent_memset_page)
  have n0: "\<not> pf_present vtd_fmt 0" by simp
  note zt = zero_table[OF p z n0]
  have old: "\<not> is_table vtd_fmt (Suc (Suc l)) (ent (mem s) pt i)" using e by (simp add: is_table_def)
  have xl: "xlate vtd_fmt ?m1 (Suc l) p va = xlate vtd_fmt (mem s) (Suc (Suc l)) pt va"
    if "pt_idx (Suc (Suc l)) va = i" for va
    using that e zt(3) by (subst (2) xlate.simps) (simp add: Let_def)
  have s': "mem s' = st64 ?m1 (pt + 8 * i) ?e" "freelist s' = ld64 (mem s) p" "pa_lock s' = 0"
    using fl by (simp_all add: s'_def fl_inv_def)
  have te: "is_table vtd_fmt (Suc (Suc l)) ?e" "pf_addr vtd_fmt ?e = p" "pf_pass vtd_fmt ?e = - 1" "\<not> pf_large vtd_fmt ?e"
    using vtd_entry[OF p] VTD_PTE_RW_nonzero by (simp_all add: is_table_def is_leaf_def)
  note at = attach_table[OF inv i mframe_memset[OF p] zt(1,2) te(1-3) te(4) xl old s']
  have "ent (mem s') (pf_addr vtd_fmt (ent (mem s') pt i)) j = 0" if "j < 512" for j
    using at(4) at(5)[of j] that z[OF that] te(2) by simp
  then show ?thesis using st at(1,2,3) by blast
qed

interpretation vtd: table_step vtd_fmt vtd_step False
proof
  show "\<not> pf_present vtd_fmt 0" by simp
next
  fix l pt i and s :: "'a pa_state_scheme"
  assume "is_table vtd_fmt l (ent (mem s) pt i)"
  then show "vtd_step l pt i s = Some s" by (simp add: vtd_step_def vtd_install_step_def is_table_def ent_def)
next
  fix s :: "'a pa_state_scheme" and fl l pt and i :: u64
  assume inv: "tinv vtd_fmt s fl l pt" and l: "2 \<le> l" "l \<le> 4" and i: "i < 512" and "fl \<noteq> []"
    and e: "False \<or> \<not> pf_present vtd_fmt (ent (mem s) pt i)"
  obtain p ps where fl: "fl = p # ps" using \<open>fl \<noteq> []\<close> by (cases fl) auto
  obtain l' where l': "l = Suc (Suc l')" using l by (cases l; cases "l - 1") auto
  obtain s' where "vtd_step l pt i s = Some s'" "grown vtd_fmt s fl s' 1 l pt" "is_table vtd_fmt l (ent (mem s') pt i)"
      "\<forall>va. xlate vtd_fmt (mem s') l pt va = xlate vtd_fmt (mem s) l pt va"
      "\<forall>j<512. ent (mem s') (pf_addr vtd_fmt (ent (mem s') pt i)) j = 0"
    using vtd_step_absent[OF inv[unfolded fl l'] i] e fl l' by auto
  then show "\<exists>s'. vtd_step l pt i s = Some s' \<and> grown vtd_fmt s fl s' 1 l pt \<and>
        is_table vtd_fmt l (ent (mem s') pt i) \<and>
        (\<forall>va. xlate vtd_fmt (mem s') l pt va = xlate vtd_fmt (mem s) l pt va) \<and>
        (\<forall>j<512. \<not> is_table vtd_fmt (l - 1) (ent (mem s') (pf_addr vtd_fmt (ent (mem s') pt i)) j)) \<and>
        (\<not> pf_present vtd_fmt (ent (mem s) pt i) \<longrightarrow>
          (\<forall>j<512. \<not> pf_present vtd_fmt (ent (mem s') (pf_addr vtd_fmt (ent (mem s') pt i)) j)))"
    by (intro exI[of _ s']) (simp add: is_table_def)
qed


section \<open>Mapping pages in the tables of one device\<close>

lemma vtd_addr_fun: "pf_addr vtd_fmt = (\<lambda>e. e AND VTD_PTE_ADDR)"
  by (simp add: fun_eq_iff)

lemma vtd_install_loop_radix:
  "1 \<le> k \<Longrightarrow> k \<le> n \<Longrightarrow> vtd_install_loop (int n) (int k) va pt s =
     map_option (\<lambda>(pt, s). (int k, pt, s)) (radix_loop vtd_step (pf_addr vtd_fmt) k n va pt s)"
proof (induction n arbitrary: pt s)
  case (Suc l)
  show ?case
  proof (cases "k = Suc l")
    case True
    then show ?thesis by (subst vtd_install_loop.simps) simp
  next
    case False
    then have k: "k \<le> l" using Suc.prems by simp
    have of: "PGDIR_OFFSET va (int (Suc l)) = pt_idx (Suc l) va" by (rule PGDIR_OFFSET_nat) simp
    have dec: "int (Suc l) - 1 = int l" by simp
    have st: "vtd_install_step pt off s = vtd_step (Suc l) pt off s" for off by (simp add: vtd_step_def)
    show ?thesis
      using k Suc.IH[OF Suc.prems(1) k]
      by (subst vtd_install_loop.simps, cases "vtd_step (Suc l) pt (pt_idx (Suc l) va) s")
         (simp_all add: of dec st ent_def vtd_addr_fun Let_def del: of_nat_Suc)
  qed
qed simp

lemma vtd_install_pte_radix:
  "vtd_install_pte root iova pa 1 s = radix_install vtd_step (pf_addr vtd_fmt) 1 3 iova (pa OR VTD_PTE_RW) root s"
  using vtd_install_loop_radix[of 1 3 iova root s]
  by (cases "radix_loop vtd_step (pf_addr vtd_fmt) 1 3 iova root s")
    (auto simp: vtd_install_pte_def radix_install_def VTD_PAGE_LEVEL_def PGDIR_OFFSET_nat[of 1, simplified] vtd_addr_fun Let_def)

lemma vtd_install_page:
  assumes inv: "tinv vtd_fmt s fl 3 root" and va: "iova < 2 ^ 39" and pa: "aligned 12 pa" and fl: "2 \<le> length fl"
  shows "\<exists>s' c. vtd_install_pte root iova pa 1 s = Some s' \<and> grown vtd_fmt s fl s' c 3 root \<and> c \<le> 2 \<and>
    (\<forall>va. va < 2 ^ 39 \<longrightarrow> xlate vtd_fmt (mem s') 3 root va =
      (if drop_bit 12 va = drop_bit 12 iova then Some (pa + take_bit 12 va, VTD_PTE_RW) else xlate vtd_fmt (mem s) 3 root va))"
proof -
  have m: "missing vtd_fmt (mem s) 1 3 root iova \<le> 2" using missing_le[of vtd_fmt "mem s" 1 3 root iova] by simp
  have nl: "nolarge vtd_fmt (mem s) 1 3 root iova" using inv by (intro vtd_nolarge) (simp_all add: tinv_def)
  have pte: "\<not> is_table vtd_fmt 1 (pa OR VTD_PTE_RW)" "entry_ok vtd_fmt 1 (pa OR VTD_PTE_RW)"
    using pa vtd_entry[OF pa] by (simp_all add: is_table_def is_leaf_def entry_ok_def pt_shift_def)
  have px: "pte_xl vtd_fmt 1 (pa OR VTD_PTE_RW) va = Some (pa + take_bit 12 va, VTD_PTE_RW)" for va
    using vtd_entry[OF pa] VTD_PTE_RW_nonzero by (simp add: pte_xl_def leaf_xl_def pt_shift_def)
  obtain s' where s': "radix_install vtd_step (pf_addr vtd_fmt) 1 3 iova (pa OR VTD_PTE_RW) root s = Some s'"
      "grown vtd_fmt s fl s' (missing vtd_fmt (mem s) 1 3 root iova) 3 root"
      "\<forall>va. xlate vtd_fmt (mem s') 3 root va =
        (if same_region 1 3 iova va then pte_xl vtd_fmt 1 (pa OR VTD_PTE_RW) va else xlate vtd_fmt (mem s) 3 root va)"
    using vtd.install_correct[OF inv, of 1 iova "pa OR VTD_PTE_RW"] m fl nl pte by auto
  have "same_region 1 3 iova va \<longleftrightarrow> drop_bit 12 va = drop_bit 12 iova" if "va < 2 ^ 39" for va
    using same_region_iff[of 1 3 iova va] that va drop_bit_zero_iff[of 39 va] drop_bit_zero_iff[of 39 iova]
    by (simp add: pt_shift_def)
  then show ?thesis using s' m px unfolding vtd_install_pte_radix by (intro exI[of _ s'] exI) auto
qed

lemma tinv_kprintf [simp]: "tinv F (kprintf f a s) fl l pt = tinv F s fl l pt"
  by (simp add: tinv_def fl_inv_def kprintf_def)

lemma grown_kprintf: "grown F (kprintf f a s) fl s' k l pt = grown F s fl s' k l pt"
  by (simp add: grown_def)

text \<open>What the loop of \<^verbatim>\<open>vtd_map_range\<close> leaves of the walk.\<close>

definition range_mapped :: "u64 \<Rightarrow> u64 \<Rightarrow> nat \<Rightarrow> (u64 \<Rightarrow> (u64 \<times> u64) option) \<Rightarrow> (u64 \<Rightarrow> (u64 \<times> u64) option) \<Rightarrow> bool" where
  "range_mapped iova pa len w w' \<longleftrightarrow> (\<forall>va. va < 2 ^ 39 \<longrightarrow> w' va =
     (if unat iova \<le> unat va \<and> unat va < unat iova + len then Some (pa + (va - iova), VTD_PTE_RW) else w va))"

lemma page_offset: "aligned 12 iova \<Longrightarrow> drop_bit 12 va = drop_bit 12 iova \<Longrightarrow> take_bit 12 va = va - iova"
  using bits_ident[of 12 va] bits_ident[of 12 iova] by (simp add: aligned_def algebra_simps)

lemma vtd_map_loop_maps:
  assumes "tinv vtd_fmt s fl 3 root" "aligned 12 iova" "aligned 12 pa" "unat iova + n * 4096 \<le> 2 ^ 39" "2 * n \<le> length fl"
  shows "\<exists>s' c. vtd_map_loop root sid iova pa (of_nat (n * 4096)) s = Some s' \<and> grown vtd_fmt s fl s' c 3 root \<and> c \<le> 2 * n \<and>
    range_mapped iova pa (n * 4096) (xlate vtd_fmt (mem s) 3 root) (xlate vtd_fmt (mem s') 3 root)"
  using assms
proof (induction n arbitrary: s fl iova pa)
  case 0
  then have "grown vtd_fmt s fl s 0 3 root" by (simp add: grown_def tinv_def)
  then show ?case by (subst vtd_map_loop.simps) (auto simp: range_mapped_def)
next
  case (Suc n)
  let ?s = "kprintf (''map 4K page IOVA %#lx to %#lx (sid=%#06x)'' @ NL) [PNum iova, PNum pa, PNum (ucast sid)] s"
  have iv: "iova < 2 ^ 39" using Suc.prems(4) by (simp add: word_less_nat_alt)
  obtain s1 c1 where s1: "vtd_install_pte root iova pa 1 ?s = Some s1" "grown vtd_fmt s fl s1 c1 3 root" "c1 \<le> 2"
      "\<And>va. va < 2 ^ 39 \<Longrightarrow> xlate vtd_fmt (mem s1) 3 root va =
        (if drop_bit 12 va = drop_bit 12 iova then Some (pa + take_bit 12 va, VTD_PTE_RW) else xlate vtd_fmt (mem s) 3 root va)"
    using vtd_install_page[of ?s fl root iova pa] Suc.prems iv by (auto simp: grown_kprintf)
  have uq: "unat (iova + 4096) = unat iova + 4096" using Suc.prems(4) by (simp add: unat_word_ariths)
  have al: "aligned 12 (iova + 4096)" "aligned 12 (pa + 4096)"
    using Suc.prems(2,3) aligned_mult[of 12 1] by (simp_all add: aligned_add)
  have inv1: "tinv vtd_fmt s1 (drop c1 fl) 3 root" by (rule grown_tinv[OF Suc.prems(1) s1(2)])
  have fit: "unat (iova + 4096) + n * 4096 \<le> 2 ^ 39" using Suc.prems(4) uq by simp
  have len: "2 * n \<le> length (drop c1 fl)" using Suc.prems(5) s1(3) by simp
  obtain s' c where s': "vtd_map_loop root sid (iova + 4096) (pa + 4096) (of_nat (n * 4096)) s1 = Some s'"
      "grown vtd_fmt s1 (drop c1 fl) s' c 3 root" "c \<le> 2 * n"
      "range_mapped (iova + 4096) (pa + 4096) (n * 4096) (xlate vtd_fmt (mem s1) 3 root) (xlate vtd_fmt (mem s') 3 root)"
    using Suc.IH[OF inv1 al fit len] by blast
  have nz: "(of_nat (Suc n * 4096) :: u64) \<noteq> 0"
  proof -
    have "Suc n * 4096 < 2 ^ 64" using Suc.prems(4) by simp
    then have "unat (of_nat (Suc n * 4096) :: u64) = Suc n * 4096" by (simp only: unat_of_nat) simp
    then show ?thesis by auto
  qed
  have st: "(of_nat (Suc n * 4096) :: u64) - VTD_PAGE_SIZE = of_nat (n * 4096)" by (simp add: c_defs)
  have "vtd_map_loop root sid iova pa (of_nat (Suc n * 4096)) s = Some s'"
    using s1(1) s'(1) nz st by (subst vtd_map_loop.simps) (simp add: VTD_PAGE_SIZE_def del: of_nat_mult of_nat_Suc)
  moreover have "range_mapped iova pa (Suc n * 4096) (xlate vtd_fmt (mem s) 3 root) (xlate vtd_fmt (mem s') 3 root)"
    unfolding range_mapped_def
  proof (intro allI impI)
    fix va :: u64 assume va: "va < 2 ^ 39"
    have blk: "drop_bit 12 va = drop_bit 12 iova \<longleftrightarrow> unat iova \<le> unat va \<and> unat va < unat iova + 4096"
      using block_iff[OF Suc.prems(2), of va] by simp
    have "pa + 4096 + (va - (iova + 4096)) = pa + (va - iova)" by simp
    then show "xlate vtd_fmt (mem s') 3 root va =
        (if unat iova \<le> unat va \<and> unat va < unat iova + Suc n * 4096 then Some (pa + (va - iova), VTD_PTE_RW)
         else xlate vtd_fmt (mem s) 3 root va)"
      using s'(4) va s1(4)[OF va] blk uq page_offset[OF Suc.prems(2), of va] by (auto simp: range_mapped_def)
  qed
  ultimately show ?case using grown_trans[OF s1(2) s'(2)] s1(3) s'(3)
    by (intro exI[of _ s'] exI[of _ "c1 + c"]) simp
qed

end
