(* ===== verification/Iommu_Props.thy ===== *)
theory Iommu_Props
  imports Iommu_Map Machines
begin

text \<open>
  Devices see exactly the memory mapped for them: the walk of the hardware from the root table down, the invariant of
  all tables together, and the effect of \<^verbatim>\<open>vtd_map_range\<close> on every device; and remapped interrupts arrive where they
  were directed.
\<close>

section \<open>The walk of the hardware\<close>

definition sid_bus :: "u16 \<Rightarrow> u64" where "sid_bus sid = ucast (PCI_BDF_GET_BUS sid)"
definition sid_devfn :: "u16 \<Rightarrow> u64" where "sid_devfn sid = ucast (PCI_BDF_GET_DEVFN sid)"

definition re_ctx :: "mem \<Rightarrow> u64 \<Rightarrow> u64 \<Rightarrow> u64 option" where
  "re_ctx m R b = (let e = ent m R (2 * b) in if bit e 0 then Some (tbl_ptr e) else None)"

definition ctx_entry :: "mem \<Rightarrow> u64 \<Rightarrow> u16 \<Rightarrow> (u64 \<times> u64) option" where
  "ctx_entry m R sid = (case re_ctx m R (sid_bus sid) of None \<Rightarrow> None
     | Some C \<Rightarrow> let lo = ent m C (2 * sid_devfn sid); hi = ent m C (2 * sid_devfn sid + 1)
                 in if bit lo 0 then Some (lo, hi) else None)"

text \<open>The access of a device at an address: the context entry must ask for a multi-level walk of 39 bits.\<close>

definition vtd_walk :: "mem \<Rightarrow> u64 \<Rightarrow> u16 \<Rightarrow> u64 \<Rightarrow> (u64 \<times> u64) option" where
  "vtd_walk m R sid iova = (case ctx_entry m R sid of None \<Rightarrow> None
     | Some (lo, hi) \<Rightarrow> if bf_get 2 2 lo = 0 \<and> bf_get 0 3 hi = 1 then xlate vtd_fmt m 3 (tbl_ptr lo) iova else None)"

definition dpages :: "mem \<Rightarrow> u64 \<Rightarrow> u16 \<Rightarrow> u64 set" where
  "dpages m R sid = (case ctx_entry m R sid of None \<Rightarrow> {} | Some (lo, hi) \<Rightarrow> tpages vtd_fmt m 3 (tbl_ptr lo))"

definition ctxs :: "mem \<Rightarrow> u64 \<Rightarrow> u64 set" where
  "ctxs m R = {C. \<exists>b<256. re_ctx m R b = Some C}"

text \<open>No page is used twice: as root table, as context table, in the tables of a device or as one of the free pages.\<close>

definition vtd_wf :: "mem \<Rightarrow> u64 \<Rightarrow> u64 set \<Rightarrow> bool" where
  "vtd_wf m R X \<longleftrightarrow> aligned 12 R \<and> R \<notin> X \<and>
     (\<forall>b<256. \<forall>C. re_ctx m R b = Some C \<longrightarrow> aligned 12 C \<and> C \<noteq> R \<and> C \<notin> X) \<and>
     (\<forall>b<256. \<forall>b'<256. \<forall>C. re_ctx m R b = Some C \<longrightarrow> re_ctx m R b' = Some C \<longrightarrow> b = b') \<and>
     (\<forall>sid lo hi. ctx_entry m R sid = Some (lo, hi) \<longrightarrow>
        twf vtd_fmt m 3 (tbl_ptr lo) \<and> bf_get 2 2 lo = 0 \<and> bf_get 0 3 hi = 1) \<and>
     (\<forall>sid. dpages m R sid \<inter> (insert R (ctxs m R) \<union> X) = {}) \<and>
     (\<forall>sid sid'. sid \<noteq> sid' \<longrightarrow> dpages m R sid \<inter> dpages m R sid' = {})"

definition vtd_inv :: "'a pa_state_scheme \<Rightarrow> u64 list \<Rightarrow> u64 \<Rightarrow> bool" where
  "vtd_inv s fl R \<longleftrightarrow> fl_inv s fl \<and> (\<forall>p\<in>set fl. drop_bit 52 p = 0) \<and> vtd_wf (mem s) R (set fl)"

lemma vtd_wfD:
  assumes "vtd_wf m R X"
  shows "aligned 12 R" "R \<notin> X"
    "\<And>b C. b < 256 \<Longrightarrow> re_ctx m R b = Some C \<Longrightarrow> aligned 12 C \<and> C \<noteq> R \<and> C \<notin> X"
    "\<And>b b' C. b < 256 \<Longrightarrow> b' < 256 \<Longrightarrow> re_ctx m R b = Some C \<Longrightarrow> re_ctx m R b' = Some C \<Longrightarrow> b = b'"
    "\<And>sid lo hi. ctx_entry m R sid = Some (lo, hi) \<Longrightarrow> twf vtd_fmt m 3 (tbl_ptr lo)"
    "\<And>sid lo hi. ctx_entry m R sid = Some (lo, hi) \<Longrightarrow> bf_get 2 2 lo = 0 \<and> bf_get 0 3 hi = 1"
    "\<And>sid. dpages m R sid \<inter> (insert R (ctxs m R) \<union> X) = {}"
    "\<And>sid sid'. sid \<noteq> sid' \<Longrightarrow> dpages m R sid \<inter> dpages m R sid' = {}"
  using assms unfolding vtd_wf_def by (blast | fastforce)+

lemma sid_less: "sid_bus sid < 256" "sid_devfn sid < 256"
proof -
  have "(ucast x :: u64) < 256" for x :: u8
    using uint_lt2p[of x] by (simp add: word_less_alt unsigned_ucast_eq take_bit_int_eq_self)
  then show "sid_bus sid < 256" "sid_devfn sid < 256" by (simp_all only: sid_bus_def sid_devfn_def)
qed

lemma slot_less: "(b::u64) < 256 \<Longrightarrow> 2 * b < 512" "(b::u64) < 256 \<Longrightarrow> 2 * b + 1 < 512"
  by (simp_all add: word_less_nat_alt unat_word_ariths)

lemma slot_inj: "(b::u64) < 256 \<Longrightarrow> b' < 256 \<Longrightarrow> 2 * b = 2 * b' \<longleftrightarrow> b = b'"
  "(b::u64) < 256 \<Longrightarrow> b' < 256 \<Longrightarrow> 2 * b \<noteq> 2 * b' + 1"
proof -
  assume a: "b < 256" "b' < 256"
  then have u: "unat (2 * b) = 2 * unat b" "unat (2 * b') = 2 * unat b'" "unat (2 * b' + 1) = 2 * unat b' + 1"
    by (simp_all add: word_less_nat_alt unat_word_ariths)
  show "2 * b = 2 * b' \<longleftrightarrow> b = b'" unfolding word_unat_eq_iff u by simp
  show "2 * b \<noteq> 2 * b' + 1" unfolding word_unat_eq_iff u by presburger
qed

lemma sid_eq: "sid_bus sid = sid_bus sid' \<Longrightarrow> sid_devfn sid = sid_devfn sid' \<Longrightarrow> sid = sid'"
proof -
  have b: "bit (sid_bus x) n \<longleftrightarrow> n < 8 \<and> bit x (n + 8)" "bit (sid_devfn x) n \<longleftrightarrow> n < 8 \<and> bit x n" for x n
  proof -
    have m: "bit (0xff :: u16) n \<longleftrightarrow> n < 8" for n using bit_mask_iff[of 8 n, where 'a = u16] by (simp add: mask_eq_exp_minus_1) auto
    show "bit (sid_bus x) n \<longleftrightarrow> n < 8 \<and> bit x (n + 8)" "bit (sid_devfn x) n \<longleftrightarrow> n < 8 \<and> bit x n"
      unfolding sid_bus_def sid_devfn_def PCI_BDF_GET_BUS_def PCI_BDF_GET_DEVFN_def bit_unsigned_iff bit_and_iff bit_drop_bit_eq m
      by (auto simp: add.commute)
  qed
  assume e: "sid_bus sid = sid_bus sid'" "sid_devfn sid = sid_devfn sid'"
  show "sid = sid'"
  proof (rule bit_word_eqI)
    fix n assume n: "n < LENGTH(16)"
    have "bit (sid_bus sid) (n - 8) = bit (sid_bus sid') (n - 8)" "bit (sid_devfn sid) n = bit (sid_devfn sid') n" using e by simp_all
    moreover have "n - 8 < 8" using n by simp
    ultimately show "bit sid n = bit sid' n" by (cases "n < 8") (simp_all add: b)
  qed
qed

text \<open>The tables of a device whose pages are not touched.\<close>

lemma device_frame:
  assumes wf: "vtd_wf m R X" and fr: "mframe m m' P" and d: "dpages m R sid \<inter> P = {}"
    and e: "ctx_entry m' R sid = ctx_entry m R sid"
  shows "dpages m' R sid = dpages m R sid" "vtd_walk m' R sid va = vtd_walk m R sid va"
    "ctx_entry m R sid = Some (lo, hi) \<Longrightarrow> twf vtd_fmt m' 3 (tbl_ptr lo)"
proof -
  have eq: "eqon m m' (tpages vtd_fmt m 3 (tbl_ptr lo))" if c: "ctx_entry m R sid = Some (lo, hi)" for lo hi
  proof (rule mframe_eqon[OF fr])
    fix q assume q: "q \<in> tpages vtd_fmt m 3 (tbl_ptr lo)"
    have "tpages vtd_fmt m 3 (tbl_ptr lo) = dpages m R sid" using c by (simp add: dpages_def)
    then show "aligned 12 q \<and> q \<notin> P" using q d twf_aligned[OF vtd_wfD(5)[OF wf c] q] by blast
  qed
  show "dpages m' R sid = dpages m R sid"
    using tpages_frame[OF eq] by (auto simp: dpages_def e split: option.split)
  show "vtd_walk m' R sid va = vtd_walk m R sid va"
    using xlate_frame[OF eq] by (auto simp: vtd_walk_def e split: option.split)
  show "twf vtd_fmt m' 3 (tbl_ptr lo)" if "ctx_entry m R sid = Some (lo, hi)"
    using twf_frame[OF eq[OF that]] vtd_wfD(5)[OF wf that] by simp
qed


section \<open>A context table for a bus\<close>

lemma ctx_wf:
  assumes wf: "vtd_wf m R (insert p X)" and b: "b < 256" "re_ctx m R b = None" and p: "aligned 12 p" "p \<notin> X"
    and e: "bit e 0" "tbl_ptr e = p"
    and m': "\<And>q j. aligned 12 q \<Longrightarrow> j < 512 \<Longrightarrow>
      ent m' q j = (if q = R \<and> j = 2 * b then e else if q = R \<and> j = 2 * b + 1 then 0 else if q = p then 0 else ent m q j)"
  shows "vtd_wf m' R X" "re_ctx m' R b = Some p" "ctx_entry m' R sid = ctx_entry m R sid" "vtd_walk m' R sid va = vtd_walk m R sid va"
proof -
  note W = vtd_wfD[OF wf]
  have pR: "p \<noteq> R" using W(2) by blast
  have re: "re_ctx m' R b' = (if b' = b then Some p else re_ctx m R b')" if "b' < 256" for b'
    using that W(1) m'[OF W(1) slot_less(1)[OF that]] e slot_inj[OF that b(1)] pR by (simp add: re_ctx_def Let_def)
  have other: "ent m' C j = ent m C j" if "re_ctx m R b' = Some C" "b' < 256" "j < 512" for C b' j
    using W(3)[OF that(2,1)] m'[of C j] that(3) by auto
  have ce: "ctx_entry m' R sid = ctx_entry m R sid" for sid
  proof (cases "sid_bus sid = b")
    case True
    have "ent m' p (2 * sid_devfn sid) = 0" using m'[OF p(1) slot_less(1)[OF sid_less(2)]] pR by simp
    then show ?thesis using True b re[OF b(1)] by (simp add: ctx_entry_def Let_def)
  next
    case False
    then have "re_ctx m' R (sid_bus sid) = re_ctx m R (sid_bus sid)" using re[OF sid_less(1)] by simp
    then show ?thesis using other[OF _ sid_less(1)] slot_less[OF sid_less(2)]
      by (auto simp: ctx_entry_def Let_def split: option.split)
  qed
  have fr: "mframe m m' {p, R}" using m' by (auto simp: mframe_def)
  have dj: "dpages m R sid \<inter> {p, R} = {}" for sid using W(7)[of sid] by blast
  note F = device_frame[OF wf fr dj ce]
  have cs: "ctxs m' R \<subseteq> insert p (ctxs m R)"
    using re by (auto simp: ctxs_def split: if_splits)
  show "re_ctx m' R b = Some p" "ctx_entry m' R sid = ctx_entry m R sid" "vtd_walk m' R sid va = vtd_walk m R sid va"
    using re[OF b(1)] ce F(2) by simp_all
  have pc: "re_ctx m R b' \<noteq> Some p" if "b' < 256" for b' using W(3)[OF that, of p] by blast
  show "vtd_wf m' R X" unfolding vtd_wf_def
  proof (intro conjI allI impI)
    show "aligned 12 R" "R \<notin> X" using W(1,2) by simp_all
  next
    fix b' C assume "b' < 256" "re_ctx m' R b' = Some C"
    then show "aligned 12 C" "C \<noteq> R" "C \<notin> X"
      using re[of b'] p pR W(3)[of b' C] by (auto split: if_splits)
  next
    fix b1 b2 C assume "b1 < 256" "b2 < 256" "re_ctx m' R b1 = Some C" "re_ctx m' R b2 = Some C"
    then show "b1 = b2" using re[of b1] re[of b2] pc[of b1] pc[of b2] W(4)[of b1 b2 C] by (auto split: if_splits)
  next
    fix sid lo hi assume "ctx_entry m' R sid = Some (lo, hi)"
    then have c: "ctx_entry m R sid = Some (lo, hi)" using ce by simp
    show "twf vtd_fmt m' 3 (tbl_ptr lo)" using F(3)[OF c] .
    show "bf_get 2 2 lo = 0" "bf_get 0 3 hi = 1" using W(6)[OF c] by simp_all
  next
    fix sid show "dpages m' R sid \<inter> (insert R (ctxs m' R) \<union> X) = {}" using W(7)[of sid] cs unfolding F(1) by blast
  next
    fix sid sid' :: u16 assume "sid \<noteq> sid'"
    then show "dpages m' R sid \<inter> dpages m' R sid' = {}" using W(8) by (simp add: F(1))
  qed
qed

section \<open>Tables for a device\<close>

lemma dev_wf:
  assumes wf: "vtd_wf m R (insert p X)" and C: "re_ctx m R (sid_bus sid) = Some C" "ctx_entry m R sid = None"
    and p: "aligned 12 p" "p \<notin> X" and e: "bit lo 0" "tbl_ptr lo = p" "bf_get 2 2 lo = 0" "bf_get 0 3 hi = 1"
    and m': "\<And>q j. aligned 12 q \<Longrightarrow> j < 512 \<Longrightarrow>
      ent m' q j = (if q = C \<and> j = 2 * sid_devfn sid then lo else if q = C \<and> j = 2 * sid_devfn sid + 1 then hi
        else if q = p then 0 else ent m q j)"
  shows "vtd_wf m' R X" "ctx_entry m' R sid = Some (lo, hi)" "vtd_walk m' R sid' va = vtd_walk m R sid' va"
proof -
  note W = vtd_wfD[OF wf]
  note Cf = W(3)[OF sid_less(1) C(1)]
  have re: "re_ctx m' R b = re_ctx m R b" if "b < 256" for b
    using m'[OF W(1) slot_less(1)[OF that]] W(2) Cf by (auto simp: re_ctx_def)
  have ce: "ctx_entry m' R sid' = (if sid' = sid then Some (lo, hi) else ctx_entry m R sid')" for sid'
  proof (cases "re_ctx m R (sid_bus sid')")
    case None
    then show ?thesis using re[OF sid_less(1)[of sid']] C(1) by (auto simp: ctx_entry_def)
  next
    case (Some D)
    note D = W(3)[OF sid_less(1) Some]
    let ?d = "sid_devfn sid'"
    have dd: "?d < 256" "sid_devfn sid < 256" by (rule sid_less)+
    have eD: "ent m' D j = (if D = C \<and> j = 2 * sid_devfn sid then lo else if D = C \<and> j = 2 * sid_devfn sid + 1 then hi else ent m D j)"
      if "j < 512" for j using m'[of D j] D that by auto
    have same: "D = C \<and> ?d = sid_devfn sid \<longleftrightarrow> sid' = sid"
      using W(4)[OF sid_less(1) sid_less(1) Some, of sid] C(1) sid_eq[of sid' sid] Some by auto
    have n1: "2 * ?d \<noteq> 2 * sid_devfn sid + 1" "2 * ?d + 1 \<noteq> 2 * sid_devfn sid" using slot_inj(2) dd by metis+
    have n2: "2 * ?d = 2 * sid_devfn sid \<longleftrightarrow> ?d = sid_devfn sid" using slot_inj(1) dd by blast
    show ?thesis
      using eD[OF slot_less(1)[OF dd(1)]] eD[OF slot_less(2)[OF dd(1)]] same n1 n2 re[OF sid_less(1)[of sid']] Some e(1)
      by (auto simp: ctx_entry_def Let_def)
  qed
  have fr: "mframe m m' {p, C}" using m' by (auto simp: mframe_def)
  have "C \<in> ctxs m R" using C(1) sid_less(1) by (auto simp: ctxs_def)
  then have dj: "dpages m R s' \<inter> {p, C} = {}" for s' using W(7)[of s'] by blast
  have ce': "s' \<noteq> sid \<Longrightarrow> ctx_entry m' R s' = ctx_entry m R s'" for s' using ce[of s'] by simp
  note F = device_frame[OF wf fr dj ce']
  have z: "ent m' p j = 0" if "j < 512" for j using m'[OF p(1) that] Cf by auto
  have n0: "\<not> pf_present vtd_fmt 0" by simp
  have three: "(3::nat) = Suc 2" by simp
  note zt = zero_table[where l = 2, folded three, OF p(1) z n0]
  have dp: "dpages m' R s' = (if s' = sid then {p} else dpages m R s')" for s'
    using F(1)[of s'] ce[of sid] zt(2) e(2) by (auto simp: dpages_def)
  have dp0: "p \<notin> dpages m R s'" for s' using dj[of s'] by blast
  have cs: "ctxs m' R = ctxs m R" using re by (auto simp: ctxs_def)
  show "ctx_entry m' R sid = Some (lo, hi)" using ce[of sid] by simp
  show "vtd_walk m' R sid' va = vtd_walk m R sid' va"
  proof (cases "sid' = sid")
    case True
    then show ?thesis using ce[of sid] C(2) zt(3) e(2) by (simp add: vtd_walk_def)
  qed (rule F(2))
  have pR: "p \<noteq> R" "p \<notin> ctxs m R" using W(2,3) by (auto simp: ctxs_def)
  show "vtd_wf m' R X" unfolding vtd_wf_def
  proof (intro conjI allI impI)
    show "aligned 12 R" "R \<notin> X" using W(1,2) by simp_all
  next
    fix b D assume "b < 256" "re_ctx m' R b = Some D"
    then show "aligned 12 D" "D \<noteq> R" "D \<notin> X" using re[of b] W(3)[of b D] by auto
  next
    fix b1 b2 D assume "b1 < 256" "b2 < 256" "re_ctx m' R b1 = Some D" "re_ctx m' R b2 = Some D"
    then show "b1 = b2" using re[of b1] re[of b2] W(4)[of b1 b2 D] by simp
  next
    fix s' l h assume c': "ctx_entry m' R s' = Some (l, h)"
    show "twf vtd_fmt m' 3 (tbl_ptr l)"
    proof (cases "s' = sid")
      case True
      then show ?thesis using c' ce[of sid] zt(1) e(2) by simp
    next
      case False
      then show ?thesis using c' ce[of s'] F(3)[of s' l h] by simp
    qed
    show "bf_get 2 2 l = 0" "bf_get 0 3 h = 1" using c' ce[of s'] W(6)[of s' l h] e by (auto split: if_splits)
  next
    fix s' show "dpages m' R s' \<inter> (insert R (ctxs m' R) \<union> X) = {}" using W(7)[of s'] p(2) pR by (auto simp: dp cs)
  next
    fix s1 s2 :: u16 assume "s1 \<noteq> s2"
    then show "dpages m' R s1 \<inter> dpages m' R s2 = {}" using W(8)[of s1 s2] dp0 by (auto simp: dp)
  qed
qed


section \<open>Mapping for a device\<close>

lemma tree_wf:
  assumes inv: "vtd_inv s fl R" and c: "ctx_entry (mem s) R sid = Some (lo, hi)"
    and g: "grown vtd_fmt s fl s' k 3 (tbl_ptr lo)"
  shows "vtd_inv s' (drop k fl) R" "ctx_entry (mem s') R sid = Some (lo, hi)"
    "sid' \<noteq> sid \<Longrightarrow> vtd_walk (mem s') R sid' va = vtd_walk (mem s) R sid' va"
    "vtd_walk (mem s') R sid va = xlate vtd_fmt (mem s') 3 (tbl_ptr lo) va"
proof -
  have wf: "vtd_wf (mem s) R (set fl)" and fi: "fl_inv s fl" using inv by (simp_all add: vtd_inv_def)
  note W = vtd_wfD[OF wf]
  let ?K = "set (take k fl)" and ?T = "tpages vtd_fmt (mem s) 3 (tbl_ptr lo)"
  have fr: "mframe (mem s) (mem s') (?T \<union> ?K)" and wf': "twf vtd_fmt (mem s') 3 (tbl_ptr lo)"
    and pg: "tpages vtd_fmt (mem s') 3 (tbl_ptr lo) \<subseteq> ?T \<union> ?K" and fl': "fl_inv s' (drop k fl)"
    using g by (simp_all add: grown_def)
  have K: "?K \<subseteq> set fl" by (rule set_take_subset)
  have T: "?T = dpages (mem s) R sid" using c by (simp add: dpages_def)
  have entR: "ent (mem s') R j = ent (mem s) R j" if "j < 512" for j
    using fr W(1,2) W(7)[of sid] K that unfolding T mframe_def by blast
  have entC: "ent (mem s') C j = ent (mem s) C j" if "re_ctx (mem s) R b = Some C" "b < 256" "j < 512" for b C j
  proof -
    have "C \<in> ctxs (mem s) R" using that by (auto simp: ctxs_def)
    then show ?thesis using fr W(3)[OF that(2,1)] W(7)[of sid] K that(3) unfolding T mframe_def by blast
  qed
  have re: "re_ctx (mem s') R b = re_ctx (mem s) R b" if "b < 256" for b
    using entR[OF slot_less(1)[OF that]] by (simp add: re_ctx_def)
  have ce: "ctx_entry (mem s') R s1 = ctx_entry (mem s) R s1" for s1
    using re[OF sid_less(1)[of s1]] entC[OF _ sid_less(1)] slot_less[OF sid_less(2)]
    by (auto simp: ctx_entry_def Let_def split: option.split)
  have dj: "dpages (mem s) R s1 \<inter> (?T \<union> ?K) = {}" if "s1 \<noteq> sid" for s1
    using W(8)[OF that] W(7)[of s1] K unfolding T by blast
  note F = device_frame[OF wf fr dj ce]
  have dp: "dpages (mem s') R s1 \<subseteq> (if s1 = sid then ?T \<union> ?K else dpages (mem s) R s1)" for s1
    using F(1)[of s1] pg c ce[of sid] by (auto simp: dpages_def)
  have cs: "ctxs (mem s') R = ctxs (mem s) R" using re by (auto simp: ctxs_def)
  have KD: "?K \<inter> set (drop k fl) = {}" using fi fl_inv_distinct by (intro take_drop_disjoint) blast
  have DL: "set (drop k fl) \<subseteq> set fl" by (rule set_drop_subset)
  have KR: "?K \<inter> insert R (ctxs (mem s) R) = {}" using W(2,3) K by (auto simp: ctxs_def)
  have TR: "?T \<inter> (insert R (ctxs (mem s) R) \<union> set fl) = {}" using W(7)[of sid] unfolding T .
  show "ctx_entry (mem s') R sid = Some (lo, hi)" using ce c by simp
  show "sid' \<noteq> sid \<Longrightarrow> vtd_walk (mem s') R sid' va = vtd_walk (mem s) R sid' va" by (rule F(2))
  show "vtd_walk (mem s') R sid va = xlate vtd_fmt (mem s') 3 (tbl_ptr lo) va"
    using ce c W(6)[OF c] by (simp add: vtd_walk_def)
  have "vtd_wf (mem s') R (set (drop k fl))" unfolding vtd_wf_def
  proof (intro conjI allI impI)
    show "aligned 12 R" "R \<notin> set (drop k fl)" using W(1,2) DL by auto
  next
    fix b C assume "b < 256" "re_ctx (mem s') R b = Some C"
    then show "aligned 12 C" "C \<noteq> R" "C \<notin> set (drop k fl)" using re[of b] W(3)[of b C] DL by auto
  next
    fix b1 b2 C assume "b1 < 256" "b2 < 256" "re_ctx (mem s') R b1 = Some C" "re_ctx (mem s') R b2 = Some C"
    then show "b1 = b2" using re[of b1] re[of b2] W(4)[of b1 b2 C] by simp
  next
    fix s1 l h assume "ctx_entry (mem s') R s1 = Some (l, h)"
    then have c1: "ctx_entry (mem s) R s1 = Some (l, h)" using ce by simp
    show "twf vtd_fmt (mem s') 3 (tbl_ptr l)" using F(3)[of s1 l h] c1 c wf' by (cases "s1 = sid") auto
    show "bf_get 2 2 l = 0" "bf_get 0 3 h = 1" using W(6)[OF c1] by simp_all
  next
    fix s1 show "dpages (mem s') R s1 \<inter> (insert R (ctxs (mem s') R) \<union> set (drop k fl)) = {}"
      using dp[of s1] W(7)[of s1] DL KD KR TR unfolding cs by (cases "s1 = sid") (simp_all, blast+)
  next
    fix s1 s2 :: u16 assume n: "s1 \<noteq> s2"
    show "dpages (mem s') R s1 \<inter> dpages (mem s') R s2 = {}"
      using dp[of s1] dp[of s2] W(8)[OF n] dj[of s1] dj[of s2] n by (cases "s1 = sid"; cases "s2 = sid") (simp_all, blast+)
  qed
  then show "vtd_inv s' (drop k fl) R" using fl' inv DL by (auto simp: vtd_inv_def)
qed

lemma dev_tinv:
  assumes "vtd_inv s fl R" "ctx_entry (mem s) R sid = Some (lo, hi)"
  shows "tinv vtd_fmt s fl 3 (tbl_ptr lo)"
proof -
  have wf: "vtd_wf (mem s) R (set fl)" using assms(1) by (simp add: vtd_inv_def)
  have "tpages vtd_fmt (mem s) 3 (tbl_ptr lo) = dpages (mem s) R sid" using assms(2) by (simp add: dpages_def)
  then show ?thesis using assms(1) vtd_wfD(5)[OF wf assms(2)] vtd_wfD(7)[OF wf, of sid]
    by (auto simp: tinv_def vtd_inv_def)
qed


section \<open>Writing root and context entries\<close>

lemma ent_bf_store:
  "aligned 12 p \<Longrightarrow> aligned 12 q \<Longrightarrow> i < 512 \<Longrightarrow> j < 512 \<Longrightarrow>
     ent (bf_store (p + 8 * i) off len v m) q j = (if p = q \<and> i = j then bf_set off len v (ent m p i) else ent m q j)"
  by (simp add: bf_store_def ent_st64) (simp add: ent_def)

lemma ent_memset_16:
  assumes "aligned 12 p" "aligned 12 q" "i < 512" "i' < 512" "i' = i + 1" "j < 512"
  shows "ent (memset (p + 8 * i) 0 16 m) q j = (if p = q \<and> (i = j \<or> i' = j) then 0 else ent m q j)"
  unfolding memset_16 slot_succ(1) assms(5)[symmetric] using assms(1-4,6) by (auto simp: ent_st64)

lemma fl_inv_mem:
  assumes "fl_inv s (p # ps)" "mframe (mem s) m' {p, q}" "q \<notin> set ps"
  shows "fl_inv (s\<lparr>freelist := ld64 (mem s) p, mem := m', console := c\<rparr>) ps"
proof -
  have "fl_inv (s\<lparr>freelist := ld64 (mem s) p\<rparr>) ps" using alloc_page_Cons[OF assms(1)] by blast
  moreover have "p \<notin> set ps" using fl_inv_distinct[OF assms(1)] by simp
  ultimately show ?thesis using assms(2,3) flist_mframe[of "mem s" _ ps m' "{p, q}"] by (auto simp: fl_inv_def)
qed

lemma root_entry_bits:
  assumes "aligned 12 p"
  shows "bit (bf_set 0 1 1 (bf_set 12 52 (drop_bit 12 p) 0)) 0" "tbl_ptr (bf_set 0 1 1 (bf_set 12 52 (drop_bit 12 p) 0)) = p"
proof -
  show "bit (bf_set 0 1 1 (bf_set 12 52 (drop_bit 12 p) 0)) 0" by (simp add: bit_bf_set)
  show "tbl_ptr (bf_set 0 1 1 (bf_set 12 52 (drop_bit 12 p) 0)) = p"
    by (rule tbl_ptr_set[OF assms]) (simp add: bit_bf_set bit_drop_bit_eq)
qed

lemma vtd_context_table_ok:
  assumes inv: "vtd_inv s (p # ps) R" and b: "b < 256"
  shows "\<exists>C s' k. vtd_context_table (R + 16 * b) bus_n s = Some (C, s') \<and> k \<le> 1 \<and> vtd_inv s' (drop k (p # ps)) R \<and>
    re_ctx (mem s') R b = Some C \<and> (\<forall>sid. ctx_entry (mem s') R sid = ctx_entry (mem s) R sid) \<and>
    (\<forall>sid va. vtd_walk (mem s') R sid va = vtd_walk (mem s) R sid va)"
proof -
  have wf: "vtd_wf (mem s) R (insert p (set ps))" and fi: "fl_inv s (p # ps)" using inv by (simp_all add: vtd_inv_def)
  have al: "aligned 12 R" "aligned 12 p" "p \<notin> set ps" "R \<notin> set (p # ps)"
    using vtd_wfD(1,2)[OF wf] fl_inv_aligned[OF fi, of p] fl_inv_distinct[OF fi] by auto
  have ld: "ld64 (mem s) (R + 16 * b) = ent (mem s) R (2 * b)" by (simp add: ent_def)
  show ?thesis
  proof (cases "bit (ent (mem s) R (2 * b)) 0")
    case True
    then show ?thesis using inv
      by (intro exI[of _ "tbl_ptr (ent (mem s) R (2 * b))"] exI[of _ s] exI[of _ 0])
        (simp add: vtd_context_table_def ld bf_get_one[simplified] re_ctx_def tbl_ptr_def VTD_PAGE_SHIFT_def)
  next
    case False
    let ?e = "bf_set 0 1 1 (bf_set 12 52 (drop_bit 12 p) 0)"
    define i i' where "i = 2 * b" and "i' = 2 * b + 1"
    have i: "i < 512" "i' < 512" "i' = i + 1" "i \<noteq> i'" using slot_less[OF b] by (simp_all add: i_def i'_def)
    let ?re = "R + 8 * i"
    define m' where "m' = bf_store ?re 0 1 1 (bf_store ?re 12 52 (drop_bit 12 p) (memset ?re 0 16 (memset p 0 PAGE_SIZE (mem s))))"
    have pR: "p \<noteq> R" using al(4) by auto
    have "ent m' q j = (if q = R \<and> j = i then ?e else if q = R \<and> j = i' then 0 else if q = p then 0 else ent (mem s) q j)"
      if "aligned 12 q" "j < 512" for q j
      using that al i(1,2,4) pR unfolding m'_def by (auto simp: ent_bf_store ent_memset_16[OF _ _ i(1-3)] ent_memset_page)
    note ent' = this[unfolded i_def i'_def]
    have rn: "re_ctx (mem s) R b = None" using False by (simp add: re_ctx_def)
    note cw = ctx_wf[OF wf b rn al(2,3) root_entry_bits[OF al(2)] ent']
    have fr: "mframe (mem s) m' {p, R}" using ent' by (auto simp: mframe_def)
    let ?s' = "kprintf (''allocated vt-d root entry for PCI bus %d'' @ NL) [PNum (ucast bus_n)] (s\<lparr>freelist := ld64 (mem s) p, mem := m'\<rparr>)"
    have "vtd_context_table (R + 16 * b) bus_n s = Some (p, ?s')"
      using alloc_page_Cons[OF fi] False
      by (simp add: vtd_context_table_def ld bf_get_one m'_def i_def VTD_PAGE_SHIFT_def del: One_nat_def)
    moreover have "vtd_inv ?s' ps R"
      using fl_inv_mem[OF fi fr] al(4) cw(1) inv by (simp add: vtd_inv_def kprintf_def)
    ultimately show ?thesis using cw(2-4)
      by (intro exI[of _ p] exI[of _ ?s'] exI[of _ 1]) simp
  qed
qed


lemma context_entry_bits:
  fixes sid :: u16
  assumes "aligned 12 p"
  defines "lo \<equiv> bf_set 1 1 1 (bf_set 0 1 1 (bf_set 2 2 0 (bf_set 12 52 (drop_bit 12 p) 0)))"
    and "hi \<equiv> bf_set 0 3 1 (bf_set 8 16 (ucast sid) 0)"
  shows "bit lo 0" "tbl_ptr lo = p" "bf_get 2 2 lo = 0" "bf_get 0 3 hi = 1"
proof -
  show "bit lo 0" by (simp add: lo_def bit_bf_set)
  show "tbl_ptr lo = p" by (rule tbl_ptr_set[OF assms(1)]) (simp add: lo_def bit_bf_set bit_drop_bit_eq)
  show "bf_get 2 2 lo = 0" by (rule bit_word_eqI) (auto simp: bit_bf_get lo_def bit_bf_set)
  show "bf_get 0 3 hi = 1" by (rule bit_word_eqI) (auto simp: bit_bf_get hi_def bit_bf_set bit_1_iff)
qed

lemma vtd_device_table_ok:
  assumes inv: "vtd_inv s (p # ps) R" and C: "re_ctx (mem s) R (sid_bus sid) = Some C"
  shows "\<exists>lo hi s' k. vtd_device_table (C + 16 * sid_devfn sid) sid devfn s = Some (tbl_ptr lo, s') \<and> k \<le> 1 \<and>
    vtd_inv s' (drop k (p # ps)) R \<and> ctx_entry (mem s') R sid = Some (lo, hi) \<and>
    (\<forall>sid va. vtd_walk (mem s') R sid va = vtd_walk (mem s) R sid va)"
proof -
  have wf: "vtd_wf (mem s) R (insert p (set ps))" and fi: "fl_inv s (p # ps)" using inv by (simp_all add: vtd_inv_def)
  note Cf = vtd_wfD(3)[OF wf sid_less(1) C]
  have al: "aligned 12 C" "aligned 12 p" "p \<notin> set ps" "C \<notin> set (p # ps)"
    using Cf fl_inv_aligned[OF fi, of p] fl_inv_distinct[OF fi] by auto
  have ld: "ld64 (mem s) (C + 16 * sid_devfn sid) = ent (mem s) C (2 * sid_devfn sid)" by (simp add: ent_def)
  show ?thesis
  proof (cases "bit (ent (mem s) C (2 * sid_devfn sid)) 0")
    case True
    let ?lo = "ent (mem s) C (2 * sid_devfn sid)"
    have "ctx_entry (mem s) R sid = Some (?lo, ent (mem s) C (2 * sid_devfn sid + 1))"
      using C True by (simp add: ctx_entry_def)
    then show ?thesis using inv True
      by (intro exI[of _ ?lo] exI[of _ "ent (mem s) C (2 * sid_devfn sid + 1)"] exI[of _ s] exI[of _ 0])
        (simp add: vtd_device_table_def ld bf_get_one tbl_ptr_def VTD_PAGE_SHIFT_def del: One_nat_def)
  next
    case False
    define i i' where "i = 2 * sid_devfn sid" and "i' = 2 * sid_devfn sid + 1"
    have i: "i < 512" "i' < 512" "i' = i + 1" "i \<noteq> i'" using slot_less[OF sid_less(2)] by (simp_all add: i_def i'_def)
    let ?lo = "bf_set 1 1 1 (bf_set 0 1 1 (bf_set 2 2 0 (bf_set 12 52 (drop_bit 12 p) 0)))"
    let ?hi = "bf_set 0 3 1 (bf_set 8 16 (ucast sid) 0)"
    let ?c = "C + 8 * i" and ?c' = "C + 8 * i'"
    define m' where "m' = bf_store ?c 1 1 1 (bf_store ?c 0 1 1 (bf_store ?c 2 2 0 (bf_store ?c 12 52 (drop_bit 12 p)
      (bf_store (?c + 8) 0 3 1 (bf_store (?c + 8) 8 16 (ucast sid) (memset ?c 0 16 (memset p 0 PAGE_SIZE (mem s))))))))"
    have pC: "p \<noteq> C" using al(4) by auto
    have c': "?c + 8 = ?c'" by (simp add: i(3) algebra_simps)
    have "ent m' q j = (if q = C \<and> j = i then ?lo else if q = C \<and> j = i' then ?hi else if q = p then 0 else ent (mem s) q j)"
      if "aligned 12 q" "j < 512" for q j
      using that al(1,2) i(1,2,4) pC unfolding m'_def c' by (auto simp: ent_bf_store ent_memset_16[OF _ _ i(1-3)] ent_memset_page)
    note ent' = this[unfolded i_def i'_def]
    have cn: "ctx_entry (mem s) R sid = None" using False C by (simp add: ctx_entry_def)
    note dw = dev_wf[OF wf C cn al(2,3) context_entry_bits[OF al(2)] ent']
    have fr: "mframe (mem s) m' {p, C}" using ent' by (auto simp: mframe_def)
    let ?s' = "kprintf (''allocated vt-d context entry for devfn %#x'' @ NL) [PNum (ucast devfn)] (s\<lparr>freelist := ld64 (mem s) p, mem := m'\<rparr>)"
    have a: "C + 16 * sid_devfn sid = ?c" by (simp add: i_def)
    have "vtd_device_table ?c sid devfn s = Some (p, ?s')"
      using alloc_page_Cons[OF fi] False ld[unfolded a]
      by (simp add: vtd_device_table_def bf_get_one m'_def VTD_PAGE_SHIFT_def VTD_CE_AW_39BIT_def VTD_CONTEXT_TT_MULTI_LEVEL_def
          del: One_nat_def)
    moreover have "vtd_inv ?s' ps R"
      using fl_inv_mem[OF fi fr] al(4) dw(1) inv by (simp add: vtd_inv_def kprintf_def)
    ultimately show ?thesis using dw(2,3) context_entry_bits(2)[OF al(2)] unfolding a
      by (intro exI[of _ ?lo] exI[of _ ?hi] exI[of _ ?s'] exI[of _ 1]) simp
  qed
qed


section \<open>Mapping a range\<close>

lemma aligned_4096: "IS_ALIGNED x 4096 \<longleftrightarrow> aligned 12 x"
  by (simp add: IS_ALIGNED_def aligned_def take_bit_eq_mask mask_eq_exp_minus_1)

lemma vtd_root_table_read:
  assumes "vtd_reg_base s \<noteq> 0" "hw (trace s) (MmioR 8 (vtd_reg_base s + 0x20)) AND PAGE_MASK = R"
  shows "vtd_root_table hw s = Some (R, s\<lparr>trace := trace s @ [MmioR 8 (vtd_reg_base s + 0x20)]\<rparr>)"
  using assms by (simp add: vtd_root_table_def vtd_readq_def vtd_reg_def raw_readq_def hw_read_def DMAR_RTADDR_REG_def VTD_RTA_MASK_def)

lemma vtd_inv_trace: "vtd_inv (s\<lparr>trace := t\<rparr>) fl R = vtd_inv s fl R"
  by (simp add: vtd_inv_def fl_inv_def)

text \<open>C11: \<^verbatim>\<open>vtd_map_range\<close> maps for one device and for no other. From tables that share no page, with enough free pages, it
  returns; the device then reaches the physical range through the given addresses, readable and
  writable; all its other addresses, and every address of every other device, are translated as before; and
  the tables share no page again.\<close>

theorem vtd_map_range_isolates:
  assumes "vtd_inv s fl R" "vtd_reg_base s \<noteq> 0" "hw (trace s) (MmioR 8 (vtd_reg_base s + 0x20)) AND PAGE_MASK = R"
    "aligned 12 iova" "aligned 12 pa" "aligned 12 len" "unat iova + unat len \<le> 2 ^ 39" "2 + 2 * (unat len div 4096) \<le> length fl"
  shows "\<exists>s' k. vtd_map_range hw sid iova pa len s = Some s' \<and> vtd_inv s' (drop k fl) R \<and> k \<le> 2 + 2 * (unat len div 4096) \<and>
    (\<forall>sid' va. va < 2 ^ 39 \<longrightarrow> vtd_walk (mem s') R sid' va =
      (if sid' = sid \<and> unat iova \<le> unat va \<and> unat va < unat iova + unat len then Some (pa + (va - iova), VTD_PTE_RW)
       else vtd_walk (mem s) R sid' va))"
proof -
  define s0 where "s0 = s\<lparr>trace := trace s @ [MmioR 8 (vtd_reg_base s + 0x20)]\<rparr>"
  note rt = vtd_root_table_read[where s = s and hw = hw and R = R, OF assms(2,3), folded s0_def]
  have i0: "vtd_inv s0 fl R" "mem s0 = mem s" using assms(1) by (simp_all add: s0_def vtd_inv_trace)
  obtain p q ps where fl: "fl = p # q # ps" using assms(8) by (cases fl rule: list.exhaust; cases "tl fl") auto
  obtain C s1 k1 where s1: "vtd_context_table (R + 16 * sid_bus sid) (PCI_BDF_GET_BUS sid) s0 = Some (C, s1)" "k1 \<le> 1"
      "vtd_inv s1 (drop k1 fl) R" "re_ctx (mem s1) R (sid_bus sid) = Some C"
      "\<forall>sid va. vtd_walk (mem s1) R sid va = vtd_walk (mem s) R sid va"
    using vtd_context_table_ok[OF i0(1)[unfolded fl] sid_less(1), of sid "PCI_BDF_GET_BUS sid"] fl i0(2) by auto
  obtain p1 ps1 where f1: "drop k1 fl = p1 # ps1" using s1(2) fl by (cases k1) auto
  obtain lo hi s2 k2 where s2: "vtd_device_table (C + 16 * sid_devfn sid) sid (PCI_BDF_GET_DEVFN sid) s1 = Some (tbl_ptr lo, s2)"
      "k2 \<le> 1" "vtd_inv s2 (drop k2 (drop k1 fl)) R" "ctx_entry (mem s2) R sid = Some (lo, hi)"
      "\<forall>sid va. vtd_walk (mem s2) R sid va = vtd_walk (mem s) R sid va"
    using vtd_device_table_ok[OF s1(3)[unfolded f1] s1(4), of "PCI_BDF_GET_DEVFN sid"] f1 s1(5) by auto
  let ?n = "unat len div 4096" and ?fl = "drop (k2 + k1) fl"
  have ln: "unat len = ?n * 4096" using assms(6) by (simp add: aligned_iff_mod mod_eq_0_iff_dvd)
  have "len = of_nat (unat len)" by simp
  then have len: "len = of_nat (?n * 4096)" using arg_cong[OF ln, of "of_nat :: nat \<Rightarrow> u64"] by (rule trans)
  have i2: "vtd_inv s2 ?fl R" using s2(3) by (simp add: drop_drop)
  have fits: "unat iova + ?n * 4096 \<le> 2 ^ 39" "2 * ?n \<le> length ?fl" using assms(7,8) ln s1(2) s2(2) by auto
  obtain s3 c where s3: "vtd_map_loop (tbl_ptr lo) sid iova pa (of_nat (?n * 4096)) s2 = Some s3"
      "grown vtd_fmt s2 ?fl s3 c 3 (tbl_ptr lo)" "c \<le> 2 * ?n"
      "range_mapped iova pa (?n * 4096) (xlate vtd_fmt (mem s2) 3 (tbl_ptr lo)) (xlate vtd_fmt (mem s3) 3 (tbl_ptr lo))"
    using vtd_map_loop_maps[OF dev_tinv[OF i2 s2(4)] assms(4,5) fits, of sid] by blast
  note T = tree_wf[OF i2 s2(4) s3(2)]
  have "vtd_map_range hw sid iova pa len s = Some s3"
    using rt s1(1) s2(1) s3(1) assms(4-6) unfolding vtd_map_range_def Let_def
    by (simp add: aligned_4096 sid_bus_def[symmetric] sid_devfn_def[symmetric] len[symmetric] del: of_nat_mult)
  moreover have "vtd_inv s3 (drop (c + (k2 + k1)) fl) R" using T(1) by (simp add: drop_drop)
  moreover have "vtd_walk (mem s3) R sid' va = (if sid' = sid \<and> unat iova \<le> unat va \<and> unat va < unat iova + unat len
       then Some (pa + (va - iova), VTD_PTE_RW) else vtd_walk (mem s) R sid' va)" if va: "va < 2 ^ 39" for sid' va
  proof (cases "sid' = sid")
    case True
    have "vtd_walk (mem s) R sid va = xlate vtd_fmt (mem s2) 3 (tbl_ptr lo) va"
    proof -
      have "vtd_walk (mem s2) R sid va = xlate vtd_fmt (mem s2) 3 (tbl_ptr lo) va"
        using s2(4) vtd_wfD(6)[OF i2[unfolded vtd_inv_def, THEN conjunct2, THEN conjunct2] s2(4)] by (simp add: vtd_walk_def)
      then show ?thesis using s2(5) by simp
    qed
    then show ?thesis using True T(4)[of va] s3(4) va ln by (simp add: range_mapped_def)
  next
    case False
    then show ?thesis using T(3)[of sid' va] s2(5) by simp
  qed
  ultimately show ?thesis using s1(2) s2(2) s3(3) by (intro exI[of _ s3] exI[of _ "c + (k2 + k1)"]) simp
qed


section \<open>Remapped interrupts\<close>

text \<open>What the hardware makes of an interrupt message a device writes: the index from the address, the entry of the
  table at \<open>T\<close>; with verification of the whole source identifier the entry serves one device. The result is
  vector, destination and trigger mode.\<close>

definition irq_remap :: "mem \<Rightarrow> u64 \<Rightarrow> u16 \<Rightarrow> u64 \<Rightarrow> u32 \<Rightarrow> (u8 \<times> u32 \<times> bool) option" where
  "irq_remap m T requester a d =
     (if bf_get 20 12 a \<noteq> 0xfee \<or> \<not> bit a 4 then None
      else let handle = bf_get 5 15 a OR push_bit 15 (bf_get 2 1 a);
               index = (if bit a 3 then handle + ucast (ucast d :: u16) else handle);
               lo = ld64 m (T + 16 * index);
               hi = ld64 m (T + 16 * index + 8)
           in if bit lo 0 \<and> \<not> bit lo 15 \<and> bf_get 16 4 hi = 4 \<and> bf_get 0 16 hi = ucast requester
              then Some (ucast (bf_get 16 8 lo), ucast (bf_get 32 32 lo), bit lo 4) else None)"

lemma ld64_bf_store:
  "aligned 3 a \<Longrightarrow> aligned 3 b \<Longrightarrow> ld64 (bf_store a off len v m) b = (if a = b then bf_set off len v (ld64 m a) else ld64 m b)"
  by (simp add: bf_store_def ld64_st64)

lemma bf_store_other: "8 \<le> x - a \<Longrightarrow> bf_store a off len v m x = m x"
  by (simp add: bf_store_def st64_other)

definition irte_lo :: "u32 \<Rightarrow> u32 \<Rightarrow> trigger_mode \<Rightarrow> u64" where
  "irte_lo vector dest trigger = bf_set 0 1 1 (bf_set 32 32 (ucast dest) (bf_set 16 8 (ucast vector) (bf_set 15 1 0 (bf_set 5 3 0
     (bf_set 4 1 (ucast (trigger_num trigger)) (bf_set 2 1 0 (bf_set 1 1 1 0)))))))"

definition irte_hi :: "u16 \<Rightarrow> u64" where
  "irte_hi sid = bf_set 18 2 1 (bf_set 16 2 0 (bf_set 0 16 (ucast sid) 0))"

lemma irte_written:
  assumes "aligned 4 a"
  shows "ld64 (vtd_setup_irte dev a vector dest trigger m) a = irte_lo vector dest trigger"
    "ld64 (vtd_setup_irte dev a vector dest trigger m) (a + 8) = irte_hi (bdf dev)"
    "16 \<le> x - a \<Longrightarrow> vtd_setup_irte dev a vector dest trigger m x = m x"
proof -
  have a3: "aligned 3 a" using assms by (rule aligned_weaken) simp
  have a8: "aligned 3 (a + 8)" using a3 aligned_mult_8[of 1] by (simp add: aligned_add)
  have z: "ld64 (memset a 0 16 m) a = 0" "ld64 (memset a 0 16 m) (a + 8) = 0"
    using a3 a8 by (simp_all add: memset_16 ld64_st64)
  show "ld64 (vtd_setup_irte dev a vector dest trigger m) a = irte_lo vector dest trigger"
    "ld64 (vtd_setup_irte dev a vector dest trigger m) (a + 8) = irte_hi (bdf dev)"
    using a3 a8 z by (simp_all add: vtd_setup_irte_def Let_def ld64_bf_store irte_lo_def irte_hi_def)
  assume x: "16 \<le> x - a"
  have "8 \<le> x - a" "8 \<le> x - (a + 8)"
  proof -
    define d where "d = x - a"
    have "16 \<le> d \<Longrightarrow> 8 \<le> d" "16 \<le> d \<Longrightarrow> 8 \<le> d - 8" by unat_arith+
    then show "8 \<le> x - a" "8 \<le> x - (a + 8)" using x by (simp_all add: d_def diff_diff_eq)
  qed
  moreover have "memset a 0 16 m x = m x" using leD[OF x] by (simp add: memset_apply)
  ultimately show "vtd_setup_irte dev a vector dest trigger m x = m x"
    by (simp add: vtd_setup_irte_def Let_def bf_store_other)
qed

lemma irte_fields:
  "bit (irte_lo v d t) 0" "\<not> bit (irte_lo v d t) 15" "bit (irte_lo v d t) 4 \<longleftrightarrow> t = TRIGGER_LEVEL"
  "ucast (bf_get 16 8 (irte_lo v d t)) = (ucast v :: u8)" "ucast (bf_get 32 32 (irte_lo v d t)) = d"
  "bf_get 16 4 (irte_hi sid) = 4" "bf_get 0 16 (irte_hi sid) = ucast sid"
proof -
  show "bit (irte_lo v d t) 0" "\<not> bit (irte_lo v d t) 15" by (simp_all add: irte_lo_def bit_bf_set)
  show "bit (irte_lo v d t) 4 \<longleftrightarrow> t = TRIGGER_LEVEL"
    by (cases t) (simp_all add: irte_lo_def bit_bf_set trigger_num_def)
  show "ucast (bf_get 16 8 (irte_lo v d t)) = (ucast v :: u8)"
    by (rule bit_word_eqI) (auto simp: bit_unsigned_iff bit_bf_get irte_lo_def bit_bf_set)
  show "ucast (bf_get 32 32 (irte_lo v d t)) = d"
    by (rule bit_word_eqI) (auto simp: bit_unsigned_iff bit_bf_get irte_lo_def bit_bf_set)
  have four: "bit (4 :: u64) n \<longleftrightarrow> n = 2" for n
  proof -
    have e: "(4 :: u64) = 2 ^ 2" by simp
    show ?thesis unfolding e bit_exp_iff by auto
  qed
  show "bf_get 16 4 (irte_hi sid) = 4"
    by (rule bit_word_eqI) (unfold bit_bf_get irte_hi_def bit_bf_set four bit_1_iff, auto)
  show "bf_get 0 16 (irte_hi sid) = ucast sid"
    by (rule bit_word_eqI) (auto simp: bit_bf_get irte_hi_def bit_bf_set bit_unsigned_iff dest: bit_imp_le_length)
qed


text \<open>The address of the message.\<close>

definition msi_word :: "u16 \<Rightarrow> u64" where
  "msi_word index = bf_set 20 12 0xfee (bf_set 5 15 (ucast (index AND 0x7fff)) (bf_set 4 1 1 (bf_set 3 1 0
     (bf_set 2 1 (ucast (drop_bit 15 index AND 1)) 0))))"

lemma msi_fields:
  "bf_get 20 12 (msi_word index) = 0xfee" "bit (msi_word index) 4" "\<not> bit (msi_word index) 3"
  "bf_get 5 15 (msi_word index) OR push_bit 15 (bf_get 2 1 (msi_word index)) = ucast index"
proof -
  have m: "bit (0x7fff :: u16) n \<longleftrightarrow> n < 15" for n
    using bit_mask_iff[of 15 n, where 'a = u16] by (simp add: mask_eq_exp_minus_1) auto
  have h: "bit (0xfee :: u64) n \<Longrightarrow> n < 12" for n
  proof -
    have "take_bit 12 (0xfee :: u64) = 0xfee" by (simp add: take_bit_eq_mask mask_eq_exp_minus_1)
    then show "bit (0xfee :: u64) n \<Longrightarrow> n < 12" by (metis bit_take_bit_iff)
  qed
  show "bit (msi_word index) 4" "\<not> bit (msi_word index) 3" by (simp_all add: msi_word_def bit_bf_set)
  show "bf_get 20 12 (msi_word index) = 0xfee"
    by (rule bit_word_eqI) (unfold bit_bf_get msi_word_def bit_bf_set, use h in auto)
  show "bf_get 5 15 (msi_word index) OR push_bit 15 (bf_get 2 1 (msi_word index)) = ucast index"
  proof (rule bit_word_eqI)
    fix n assume "n < LENGTH(64)"
    show "bit (bf_get 5 15 (msi_word index) OR push_bit 15 (bf_get 2 1 (msi_word index))) n = bit (ucast index :: u64) n"
      unfolding bit_or_iff bit_push_bit_iff bit_bf_get msi_word_def bit_bf_set bit_unsigned_iff bit_and_iff bit_drop_bit_eq m bit_1_iff
        possible_bit_word
      using bit_imp_le_length[of index n] by (cases "n < 15"; cases "n = 15") auto
  qed
qed

lemma ucast_eq_u16: "(ucast (x::u16) :: u64) = ucast y \<longleftrightarrow> x = y"
proof
  assume e: "(ucast x :: u64) = ucast y"
  show "x = y"
  proof (rule bit_word_eqI)
    fix n assume "n < LENGTH(16)"
    then have "bit (ucast z :: u64) n = bit z n" for z :: u16 by (simp add: bit_unsigned_iff)
    from this[of x] this[of y] e show "bit x n = bit y n" by simp
  qed
qed simp

lemma ucast_index: "0 \<le> i \<Longrightarrow> i < 65536 \<Longrightarrow> (ucast (word_of_int i :: u16) :: u64) = word_of_int i"
  by (simp add: word_uint_eq_iff unsigned_ucast_eq uint_word_of_int take_bit_eq_mod)

lemma vtd_ir_table_read:
  assumes "vtd_reg_base s \<noteq> 0" "hw (trace s) (MmioR 8 (vtd_reg_base s + 0xb8)) AND PAGE_MASK = T"
  shows "vtd_ir_table hw s = Some (T, s\<lparr>trace := trace s @ [MmioR 8 (vtd_reg_base s + 0xb8)]\<rparr>)"
  using assms by (simp add: vtd_ir_table_def vtd_readq_def vtd_reg_def raw_readq_def hw_read_def DMAR_IRTA_REG_def VTD_IRTA_MASK_def)



section \<open>A machine\<close>

definition vtd_machine :: vtd_state where
  "vtd_machine = apic_state.extend (vm_state.extend (vm_machine (give 4 pa0) 0 0 0) \<lparr>apic_ops_sel = XapicOps, cr8 = 0\<rparr>)
     \<lparr>vtd_reg_base = 0xfed90000, index_ctr = 0\<rparr>"

lemma vtd_machine_fields:
  "mem vtd_machine = mem (give 4 pa0)" "freelist vtd_machine = freelist (give 4 pa0)" "pa_lock vtd_machine = pa_lock (give 4 pa0)"
  "vtd_reg_base vtd_machine = 0xfed90000" "index_ctr vtd_machine = 0"
  by (simp_all add: vtd_machine_def apic_state.extend_def vm_state.extend_def vm_machine_def phys_state.extend_def)

lemma zero_root:
  assumes "0 < n" "n \<le> 0x10000" "i < 512"
  shows "ent (mem (give n pa0)) 0x1000 i = 0"
proof -
  have v: "freelist pa0 = 0" "pa_lock pa0 = 0" by (simp_all add: pa0_def)
  have al: "aligned 12 0x1000" by (simp add: aligned_iff_mod)
  have u: "unat (0x1000 + 8 * i :: u64) = 0x1000 + 8 * unat i"
    using unat_add_aligned[OF al, of "8 * i"] assms(3) by (simp add: unat_mult_8 word_less_nat_alt)
  have "0x1000 + 8 * i \<notin> set (page_run 0x100000 n)"
    using page_run_bound(1)[of "0x1000 + 8 * i" n] u assms by (auto simp: word_less_nat_alt)
  then have "ent (mem (give n pa0)) 0x1000 i = ld64 (mem pa0) (0x1000 + 8 * i)"
    using give_free(2)[OF v assms(1,2), of "0x1000 + 8 * i"] al by (simp add: ent_def)
  then show ?thesis by (simp add: pa0_def ld64_zero)
qed

lemma vtd_machine_inv: "vtd_inv vtd_machine (page_run 0x100000 4) 0x1000" "vtd_walk (mem vtd_machine) 0x1000 sid va = None"
proof -
  have r: "re_ctx (mem vtd_machine) 0x1000 b = None" if "b < 256" for b
    using zero_root[OF _ _ slot_less(1)[OF that], of 4] by (simp add: re_ctx_def vtd_machine_fields)
  have c: "ctx_entry (mem vtd_machine) 0x1000 sid = None" for sid using r[OF sid_less(1)] by (simp add: ctx_entry_def)
  have v: "freelist pa0 = 0" "pa_lock pa0 = 0" by (simp_all add: pa0_def)
  have "fl_inv vtd_machine (page_run 0x100000 4)"
    using give_free(1)[OF v, of 4] by (simp add: fl_inv_def vtd_machine_fields)
  moreover have "0x1000 \<notin> set (page_run 0x100000 4)" using page_run_bound(1)[of "0x1000" 4] by auto
  moreover have "drop_bit 52 p = 0" if "p \<in> set (page_run 0x100000 4)" for p using page_run_bound(3)[OF that] by simp
  ultimately show "vtd_inv vtd_machine (page_run 0x100000 4) 0x1000"
    using r c by (simp add: vtd_inv_def vtd_wf_def dpages_def aligned_iff_mod)
  show "vtd_walk (mem vtd_machine) 0x1000 sid va = None" using c by (simp add: vtd_walk_def)
qed

theorem vtd_map_range_isolates_witness:
  "\<exists>s'. vtd_map_range (\<lambda>_ _. 0x1000) 0x10 0x2000 0x5000 0x1000 vtd_machine = Some s' \<and>
     vtd_walk (mem s') 0x1000 0x10 0x2123 = Some (0x5123, VTD_PTE_RW) \<and> vtd_walk (mem s') 0x1000 0x18 0x2123 = None"
proof -
  have al: "aligned 12 0x2000" "aligned 12 0x5000" "aligned 12 0x1000" by (simp_all add: aligned_iff_mod)
  have ht: "(\<lambda>_ _. 0x1000) (trace vtd_machine) (MmioR 8 (vtd_reg_base vtd_machine + 0x20)) AND PAGE_MASK = 0x1000" by (simp add: PAGE_MASK_def)
  have b0: "vtd_reg_base vtd_machine \<noteq> 0" by (simp add: vtd_machine_fields)
  have len: "2 + 2 * (unat (0x1000 :: u64) div 4096) \<le> length (page_run 0x100000 4)" by (simp add: page_run_def)
  obtain s' where "vtd_map_range (\<lambda>_ _. 0x1000) 0x10 0x2000 0x5000 0x1000 vtd_machine = Some s'"
      "\<forall>sid' va. va < 2 ^ 39 \<longrightarrow> vtd_walk (mem s') 0x1000 sid' va =
        (if sid' = 0x10 \<and> unat (0x2000 :: u64) \<le> unat va \<and> unat va < unat (0x2000 :: u64) + unat (0x1000 :: u64)
         then Some (0x5000 + (va - 0x2000), VTD_PTE_RW) else vtd_walk (mem vtd_machine) 0x1000 sid' va)"
    using vtd_map_range_isolates[where sid = "0x10" and hw = "\<lambda>_ _. 0x1000" and s = vtd_machine, OF vtd_machine_inv(1) b0 ht al _ len] by auto
  then show ?thesis by (intro exI[of _ s']) (simp add: vtd_machine_inv(2))
qed


end
