(* ===== verification/Argv.thy ===== *)
theory Argv
  imports Strings Phys_Alloc
begin

text \<open>
  \<^verbatim>\<open>lib/argv.c\<close> and \<^verbatim>\<open>lib/x86/setup.c\<close>: the arguments and the environment of the program, and what the boot loader
  hands over. The arrays stay in memory, at the addresses the linker gives them; the other variables are
  fields of the state. \<^verbatim>\<open>lib/util.c\<close> is here too.
\<close>

section \<open>State\<close>

record argv_layout =
  argv_array :: u64
  environ_array :: u64
  env_buf :: u64
  edata :: u64

record argv_state = phys_state +
  argc :: int
  args_ptr :: u64
  copy_ptr :: u64
  progname :: u64
  initrd :: u64
  initrd_size :: u32

definition isblank :: "u8 \<Rightarrow> bool" where
  "isblank c \<longleftrightarrow> c = 0x20 \<or> c = 0x09"

definition isalpha :: "u8 \<Rightarrow> bool" where
  "isalpha c \<longleftrightarrow> (schar c \<ge> 65 \<and> schar c \<le> 90) \<or> (schar c \<ge> 97 \<and> schar c \<le> 122) \<or> c = 0x5f"

definition isalnum :: "u8 \<Rightarrow> bool" where
  "isalnum c \<longleftrightarrow> isalpha c \<or> (schar c \<ge> 48 \<and> schar c \<le> 57)"

section \<open>Arguments\<close>

partial_function (option) skip_blanks :: "mem \<Rightarrow> u64 \<Rightarrow> u64 option" where
  "skip_blanks m p = (if isblank (m p) then skip_blanks m (p + 1) else Some p)"

partial_function (option) copy_word :: "mem \<Rightarrow> u64 \<Rightarrow> u64 \<Rightarrow> (mem \<times> u64 \<times> u64) option" where
  "copy_word m args cp =
     (if m args \<noteq> 0 \<and> \<not> isblank (m args) then copy_word (m(cp := m args)) (args + 1) (cp + 1)
      else Some (m, args, cp))"

partial_function (option) setup_args_loop :: "mem \<Rightarrow> u64 \<Rightarrow> u64 \<Rightarrow> u64 \<Rightarrow> (mem \<times> u64 \<times> u64) option" where
  "setup_args_loop m args argv cp = do {
     args \<leftarrow> skip_blanks m args;
     if m args \<noteq> 0 then do {
       let m = st64 m argv cp;
       (m, args, cp) \<leftarrow> copy_word m args cp;
       setup_args_loop (m(cp := 0)) args (argv + 8) (cp + 1) }
     else Some (m, argv, cp) }"

text \<open>\<^verbatim>\<open>__setup_args\<close>\<close>

definition setup_args_words :: "argv_layout \<Rightarrow> 'a argv_state_scheme \<Rightarrow> 'a argv_state_scheme option" where
  "setup_args_words l s = do {
     let argv = argv_array l + 8 * word_of_int (argc s);
     (m, argv, cp) \<leftarrow> setup_args_loop (mem s) (args_ptr s) argv (copy_ptr s);
     Some (s\<lparr>mem := m, copy_ptr := cp, argc := sint (argv - argv_array l) div 8\<rparr>) }"

definition setup_args :: "argv_layout \<Rightarrow> u64 \<Rightarrow> 'a argv_state_scheme \<Rightarrow> 'a argv_state_scheme option" where
  "setup_args l a s = (if a = 0 then Some s else setup_args_words l (s\<lparr>args_ptr := a\<rparr>))"

definition setup_args_progname :: "argv_layout \<Rightarrow> u64 \<Rightarrow> 'a argv_state_scheme \<Rightarrow> 'a argv_state_scheme option" where
  "setup_args_progname l a s = do {
     let s = s\<lparr>mem := st64 (mem s) (argv_array l) (copy_ptr s)\<rparr>;
     (_, m) \<leftarrow> strcpy (mem s) (ld64 (mem s) (argv_array l)) (progname s);
     let s = s\<lparr>mem := m\<rparr>;
     n \<leftarrow> strlen (mem s) (progname s);
     let s = s\<lparr>copy_ptr := copy_ptr s + (n + 1)\<rparr>;
     let s = s\<lparr>argc := argc s + 1\<rparr>;
     setup_args l a s }"

section \<open>Environment\<close>

partial_function (option) env_eol :: "mem \<Rightarrow> u64 \<Rightarrow> u64 option" where
  "env_eol m env = (if m env \<noteq> 0 \<and> m env \<noteq> 0x0a then env_eol m (env + 1) else Some env)"

text \<open>The characters \<^verbatim>\<open>%s\<close> prints.\<close>

partial_function (option) str_arg :: "mem \<Rightarrow> u64 \<Rightarrow> string option" where
  "str_arg m a = (if m a \<noteq> 0 then do { cs \<leftarrow> str_arg m (a + 1); Some (char_of (unat (m a)) # cs) } else Some [])"

definition env_invalid_eol :: "u64 \<Rightarrow> 'a mstate_scheme \<Rightarrow> (u64 \<times> 'a mstate_scheme) option" where
  "env_invalid_eol env s = do {
     eol \<leftarrow> env_eol (mem s) env;
     let eol_old = mem s eol;
     let s = s\<lparr>mem := (mem s)(eol := 0)\<rparr>;
     str \<leftarrow> str_arg (mem s) env;
     let s = kprintf (''Invalid environment variable: %s'' @ NL) [PStr str] s;
     let s = s\<lparr>mem := (mem s)(eol := eol_old)\<rparr>;
     Some (eol, s) }"

partial_function (option) env_name_loop :: "mem \<Rightarrow> u64 \<Rightarrow> bool \<Rightarrow> (u64 \<times> bool) option" where
  "env_name_loop m p invalid =
     (if m p \<noteq> 0 \<and> m p \<noteq> 0x3d \<and> m p \<noteq> 0x0a
      then env_name_loop m (p + 1) (if \<not> isalnum (m p) then True else invalid)
      else Some (p, invalid))"

partial_function (option) env_next :: "u64 \<Rightarrow> 'a mstate_scheme \<Rightarrow> (u64 \<times> 'a mstate_scheme) option" where
  "env_next env s =
     (if mem s env = 0 then Some (env, s)
      else if isalpha (mem s env) then do {
        (p, invalid) \<leftarrow> env_name_loop (mem s) (env + 1) False;
        let invalid = (if mem s p \<noteq> 0x3d then True else invalid);
        if invalid then do {
          (env, s) \<leftarrow> env_invalid_eol env s;
          if mem s env \<noteq> 0 then env_next (env + 1) s else Some (env, s) }
        else Some (env, s) }
      else do {
        p \<leftarrow> skip_blanks (mem s) env;
        if mem s p = 0x0a then env_next (p + 1) s
        else do {
          (env, s) \<leftarrow> (if mem s p = 0x23 then do { env \<leftarrow> env_eol (mem s) env; Some (env, s) }
                       else env_invalid_eol env s);
          if mem s env \<noteq> 0 then env_next (env + 1) s else Some (env, s) } })"

partial_function (option) env_entry_end :: "mem \<Rightarrow> u64 \<Rightarrow> u64 \<Rightarrow> bool \<Rightarrow> u64 option" where
  "env_entry_end m env eof newline =
     (if env < eof \<and> m env \<noteq> 0 \<and> \<not> (newline \<and> m env = 0x0a) then env_entry_end m (env + 1) eof newline
      else Some env)"

partial_function (option) setup_env_loop ::
  "argv_layout \<Rightarrow> u64 \<Rightarrow> u64 \<Rightarrow> bool \<Rightarrow> int \<Rightarrow> 'a mstate_scheme \<Rightarrow> 'a mstate_scheme option" where
  "setup_env_loop l env eof newline i s =
     (if env < eof then do {
        (env, s) \<leftarrow> (if newline then env_next env s else Some (env, s));
        if mem s env = 0 \<or> env \<ge> eof then Some s
        else do {
          let s = s\<lparr>mem := st64 (mem s) (environ_array l + 8 * word_of_int i) env\<rparr>;
          env \<leftarrow> env_entry_end (mem s) env eof newline;
          let s = s\<lparr>mem := (mem s)(env := 0)\<rparr>;
          setup_env_loop l (env + 1) eof newline (i + 1) s } }
      else Some s)"

definition setup_env :: "argv_layout \<Rightarrow> u64 \<Rightarrow> u32 \<Rightarrow> 'a mstate_scheme \<Rightarrow> 'a mstate_scheme option" where
  "setup_env l env sz s = do {
     let eof = env + scast sz;
     p \<leftarrow> skip_to_nul (mem s) env;
     let newline = (p = eof);
     setup_env_loop l env eof newline 0 s }"

section \<open>Set-up\<close>

definition ENV_SIZE :: u32 where [c_defs]: "ENV_SIZE = 16384"

text \<open>The fields of the structures of the boot loader are at the offsets of \<^verbatim>\<open>struct mbi_bootinfo\<close> and
  \<^verbatim>\<open>struct mbi_module\<close>.\<close>

definition mbi_mem_upper :: "mem \<Rightarrow> u64 \<Rightarrow> u32" where "mbi_mem_upper m bootinfo = ld32 m (bootinfo + 8)"
definition mbi_mods_count :: "mem \<Rightarrow> u64 \<Rightarrow> u32" where "mbi_mods_count m bootinfo = ld32 m (bootinfo + 20)"
definition mbi_mods_addr :: "mem \<Rightarrow> u64 \<Rightarrow> u32" where "mbi_mods_addr m bootinfo = ld32 m (bootinfo + 24)"
definition mod_start :: "mem \<Rightarrow> u64 \<Rightarrow> u32" where "mod_start m mods = ld32 m mods"
definition mod_end :: "mem \<Rightarrow> u64 \<Rightarrow> u32" where "mod_end m mods = ld32 m (mods + 4)"

definition setup_multiboot :: "argv_layout \<Rightarrow> u64 \<Rightarrow> 'a argv_state_scheme \<Rightarrow> 'a argv_state_scheme option" where
  "setup_multiboot l bootinfo s = do {
     let end_of_memory = ucast (mbi_mem_upper (mem s) bootinfo) * 1024;
     s \<leftarrow> phys_alloc_init (edata l) (end_of_memory - edata l) s;
     if mbi_mods_count (mem s) bootinfo \<noteq> 1 then Some s
     else do {
       let mods = ucast (mbi_mods_addr (mem s) bootinfo);
       let s = s\<lparr>initrd := ucast (mod_start (mem s) mods)\<rparr>;
       Some (s\<lparr>initrd_size := mod_end (mem s) mods - mod_start (mem s) mods\<rparr>) } }"

definition setup_libcflat :: "argv_layout \<Rightarrow> 'a argv_state_scheme \<Rightarrow> 'a argv_state_scheme option" where
  "setup_libcflat l s =
     (if initrd s \<noteq> 0 then do {
        let sz = min (initrd_size s) ENV_SIZE;
        let s = s\<lparr>mem := memcpy (env_buf l) (initrd s) (ucast sz) (mem s)\<rparr>;
        setup_env l (env_buf l) sz s }
      else Some s)"

section \<open>Key and value\<close>

text \<open>\<^verbatim>\<open>parse_keyval\<close> returns -1 or the length of the key, with the value.\<close>

definition parse_keyval :: "mem \<Rightarrow> u64 \<Rightarrow> (int \<times> u64 option) option" where
  "parse_keyval m s = do {
     p \<leftarrow> strchr m s 0x3d;
     if p = 0 then Some (- 1, None)
     else do { v \<leftarrow> atol m (p + 1); Some (sint (ucast (p - s) :: u32), Some v) } }"

end
