(* ===== verification/Argv_Props.thy ===== *)
theory Argv_Props
  imports Argv
begin

text \<open>
  The arguments are the words of the command line, the environment the variables of a text, and \<^verbatim>\<open>getenv\<close> looks
  them up.
\<close>

section \<open>Blocks of memory\<close>

definition apart :: "u64 \<Rightarrow> nat \<Rightarrow> u64 \<Rightarrow> nat \<Rightarrow> bool" where
  "apart a n b k \<longleftrightarrow> unat a + n \<le> unat b \<or> unat b + k \<le> unat a"

definition within :: "u64 \<Rightarrow> nat \<Rightarrow> u64 \<Rightarrow> bool" where
  "within a n x \<longleftrightarrow> unat a \<le> unat x \<and> unat x < unat a + n"

lemma unat_plus: "unat (a::u64) + k < 2 ^ 64 \<Longrightarrow> unat (a + of_nat k) = unat a + k"
  by (subst unat_add_nowrap) (simp_all add: unat_of_nat64)

lemma unat_plus1: "unat (a::u64) + 1 < 2 ^ 64 \<Longrightarrow> unat (a + 1) = unat a + 1"
  using unat_plus[of a 1] by simp

lemma unat_slot: "unat (a::u64) + 8 * k < 2 ^ 64 \<Longrightarrow> unat (a + 8 * of_nat k) = unat a + 8 * k"
  using unat_plus[of a "8 * k"] by simp

lemma st64_not_within: "unat a + 8 \<le> 2 ^ 64 \<Longrightarrow> \<not> within a 8 x \<Longrightarrow> st64 m a v x = m x"
proof (rule st64_other)
  assume *: "unat a + 8 \<le> 2 ^ 64" "\<not> within a 8 x"
  have "8 \<le> unat (x - a)" using * unat_lt_2_64[of x]
    by (cases "a \<le> x") (auto simp: within_def unat_sub_if' word_le_nat_alt)
  then show "8 \<le> x - a" by (simp add: word_le_nat_alt)
qed

lemma ld64_frame:
  assumes "\<And>x. within a 8 x \<Longrightarrow> m' x = m x" "unat a + 8 \<le> 2 ^ 64"
  shows "ld64 m' a = ld64 m a"
proof (rule ld64_cong)
  fix i :: u64 assume i: "i < 8"
  have "unat (a + i) = unat a + unat i"
    using i assms(2) by (subst unat_add_nowrap) (auto simp: word_less_nat_alt)
  then show "m' (a + i) = m (a + i)" using i by (intro assms(1)) (auto simp: within_def word_less_nat_alt)
qed

lemma cstr_fits:
  assumes "\<And>x. within a (length xs + 1) x \<Longrightarrow> m' x = m x" "unat a + length xs < 2 ^ 64" "cstr m a xs"
  shows "cstr m' a xs"
proof (rule cstr_frame[OF _ assms(3)])
  fix i assume i: "i \<le> length xs"
  have "unat (a + of_nat i) = unat a + i" using i assms(2) by (intro unat_plus) simp
  then show "m' (a + of_nat i) = m (a + of_nat i)" using i by (intro assms(1)) (simp add: within_def)
qed

lemma write_bytes_outside:
  assumes "unat a + length xs \<le> 2 ^ 64" "\<not> within a (length xs) x"
  shows "write_bytes m a xs x = m x"
proof (rule write_bytes_other)
  fix i assume i: "i < length xs"
  have "unat (a + of_nat i) = unat a + i" using i assms(1) by (intro unat_plus) simp
  then show "x \<noteq> a + of_nat i" using i assms(2) by (auto simp: within_def)
qed

lemma write_bytes_snoc: "write_bytes m a (xs @ [x]) = (write_bytes m a xs)(a + of_nat (length xs) := x)"
  by (induction xs arbitrary: m a) (simp_all add: algebra_simps)

lemma sint_of_nat_less: "n < 2 ^ 63 \<Longrightarrow> sint (of_nat n :: u64) = int n"
  by (simp add: sint_uint unsigned_of_nat take_bit_nat_eq_self signed_take_bit_int_eq_self)

section \<open>Arguments\<close>

function arg_words :: "u8 list \<Rightarrow> u8 list list" where
  "arg_words xs = (let ys = dropWhile isblank xs in
     if ys = [] then [] else takeWhile (\<lambda>c. \<not> isblank c) ys # arg_words (dropWhile (\<lambda>c. \<not> isblank c) ys))"
  by pat_completeness auto
termination
proof (relation "measure length")
  fix xs ys :: "u8 list" assume ys: "ys = dropWhile isblank xs" "ys \<noteq> []"
  then have "\<not> isblank (hd ys)" by (simp add: hd_dropWhile)
  then have "length (dropWhile (\<lambda>c. \<not> isblank c) ys) < length ys"
    using ys(2) length_dropWhile_le[of "\<lambda>c. \<not> isblank c" "tl ys"] by (cases ys) auto
  also have "\<dots> \<le> length xs" using ys(1) length_dropWhile_le by auto
  finally show "(dropWhile (\<lambda>c. \<not> isblank c) ys, xs) \<in> measure length" by simp
qed simp

declare arg_words.simps [simp del]

definition words_size :: "u8 list list \<Rightarrow> nat" where
  "words_size ws = sum_list (map (\<lambda>w. length w + 1) ws)"

lemma words_size_simps [simp]: "words_size [] = 0" "words_size (w # ws) = length w + 1 + words_size ws"
  by (simp_all add: words_size_def)

lemma skip_blanks_cstr:
  "cstr m a xs \<Longrightarrow> skip_blanks m a = Some (a + of_nat (length (takeWhile isblank xs)))"
proof (induction xs arbitrary: a)
  case Nil
  then show ?case by (subst skip_blanks.simps) (simp add: isblank_def)
next
  case (Cons x xs)
  then show ?case by (subst skip_blanks.simps) (auto simp: algebra_simps)
qed

lemma cstr_dropWhile:
  assumes "cstr m a xs" shows "cstr m (a + of_nat (length (takeWhile P xs))) (dropWhile P xs)"
  using cstr_drop[OF assms, of "length (takeWhile P xs)"] by (simp add: length_takeWhile_le dropWhile_eq_drop)

lemma takeWhile_dropWhile_length: "length (takeWhile P xs) + length (dropWhile P xs) = length xs"
  by (metis length_append takeWhile_dropWhile_id)

lemma copy_word_cstr:
  assumes "cstr m p xs" "apart p (length xs + 1) cp (length w)" "w = takeWhile (\<lambda>c. \<not> isblank c) xs"
    "unat p + length xs < 2 ^ 64" "unat cp + length w < 2 ^ 64"
  shows "copy_word m p cp = Some (write_bytes m cp w, p + of_nat (length w), cp + of_nat (length w))"
  using assms
proof (induction xs arbitrary: m p cp w)
  case Nil
  then show ?case by (subst copy_word.simps) simp
next
  case (Cons x xs)
  show ?case
  proof (cases "isblank x")
    case True
    then show ?thesis using Cons.prems by (subst copy_word.simps) simp
  next
    case False
    then obtain w' where w: "w = x # w'" "w' = takeWhile (\<lambda>c. \<not> isblank c) xs" using Cons.prems(3) by simp
    have u: "unat (p + 1) = unat p + 1" "unat (cp + 1) = unat cp + 1"
      using Cons.prems(4,5) w(1) unat_plus1[of p] unat_plus1[of cp] by auto
    have "cstr (m(cp := x)) (p + 1) xs"
      using Cons.prems u w(1) by (intro cstr_fits[where m = m and m' = "m(cp := x)"]) (auto simp: within_def apart_def)
    moreover have "apart (p + 1) (length xs + 1) (cp + 1) (length w')" using Cons.prems(2) u w(1) by (auto simp: apart_def)
    ultimately have "copy_word (m(cp := x)) (p + 1) (cp + 1) =
        Some (write_bytes (m(cp := x)) (cp + 1) w', p + 1 + of_nat (length w'), cp + 1 + of_nat (length w'))"
      using Cons.prems(4,5) w u by (intro Cons.IH) (auto simp del: fun_upd_apply simp: fun_upd_def[symmetric])
    then show ?thesis using False Cons.prems(1) w(1) by (subst copy_word.simps) (simp add: algebra_simps)
  qed
qed


text \<open>The arguments in memory from slot \<open>argv\<close> on.\<close>

definition argv_holds :: "mem \<Rightarrow> u64 \<Rightarrow> u8 list list \<Rightarrow> bool" where
  "argv_holds m argv ws \<longleftrightarrow> (\<forall>i<length ws. cstr m (ld64 m (argv + 8 * of_nat i)) (ws ! i))"

lemma argv_holds_Cons:
  "cstr m (ld64 m argv) w \<Longrightarrow> argv_holds m (argv + 8) ws \<Longrightarrow> argv_holds m argv (w # ws)"
  by (auto simp: argv_holds_def nth_Cons algebra_simps split: nat.split)

lemma setup_args_loop_cstr:
  assumes "cstr m p xs" "apart p (length xs + 1) cp (words_size (arg_words xs))"
    "apart p (length xs + 1) argv (8 * length (arg_words xs))"
    "apart cp (words_size (arg_words xs)) argv (8 * length (arg_words xs))"
    "unat p + length xs < 2 ^ 64" "unat cp + words_size (arg_words xs) < 2 ^ 64" "unat argv + 8 * length (arg_words xs) < 2 ^ 64"
  shows "\<exists>m'. setup_args_loop m p argv cp =
      Some (m', argv + 8 * of_nat (length (arg_words xs)), cp + of_nat (words_size (arg_words xs))) \<and>
    (\<forall>x. \<not> within cp (words_size (arg_words xs)) x \<longrightarrow> \<not> within argv (8 * length (arg_words xs)) x \<longrightarrow> m' x = m x) \<and>
    argv_holds m' argv (arg_words xs)"
  using assms
proof (induction xs arbitrary: m p argv cp rule: arg_words.induct)
  case (1 xs)
  define k where "k = length (takeWhile isblank xs)"
  define ys where "ys = dropWhile isblank xs"
  have skip: "skip_blanks m p = Some (p + of_nat k)" "cstr m (p + of_nat k) ys" and kl: "k + length ys = length xs"
    using skip_blanks_cstr[OF 1(2)] cstr_dropWhile[OF 1(2)] takeWhile_dropWhile_length[of isblank xs]
    by (simp_all add: k_def ys_def)
  have up: "unat (p + of_nat k) = unat p + k" using 1(6) kl by (intro unat_plus) simp
  show ?case
  proof (cases "ys = []")
    case True
    then have "arg_words xs = []" by (subst arg_words.simps) (simp add: ys_def)
    moreover have "m (p + of_nat k) = 0" using skip(2) True by simp
    ultimately show ?thesis using skip(1) by (subst setup_args_loop.simps) (simp add: argv_holds_def)
  next
    case False
    define w where "w = takeWhile (\<lambda>c. \<not> isblank c) ys"
    define zs where "zs = dropWhile (\<lambda>c. \<not> isblank c) ys"
    define ws where "ws = arg_words zs"
    have ws: "arg_words xs = w # ws" using False by (subst arg_words.simps) (simp add: ys_def w_def zs_def ws_def Let_def)
    have wz: "length w + length zs = length ys" unfolding w_def zs_def by (rule takeWhile_dropWhile_length)
    note prems = 1(3-8)[unfolded ws, simplified]
    let ?m1 = "st64 m argv cp" and ?q = "p + of_nat k" and ?n = "length w"
    let ?m2 = "write_bytes ?m1 cp w" and ?q2 = "p + of_nat k + of_nat ?n"
    let ?m3 = "?m2(cp + of_nat ?n := 0)" and ?c3 = "cp + of_nat ?n + 1"
    have m1: "?m1 x = m x" if "\<not> within argv 8 x" for x using prems(6) that by (intro st64_not_within) simp_all
    have c1: "cstr ?m1 ?q ys" using prems(2,4) kl up skip(2)
      by (intro cstr_fits[where m = m and m' = ?m1] m1) (auto simp: within_def apart_def)
    have cw: "copy_word ?m1 ?q cp = Some (?m2, ?q2, cp + of_nat ?n)"
      using prems kl wz up by (intro copy_word_cstr[OF c1 _ w_def]) (auto simp: apart_def)
    have uc: "unat (cp + of_nat ?n) = unat cp + ?n" "unat ?c3 = unat cp + ?n + 1"
      using prems(5) unat_plus[of cp ?n] unat_plus[of cp "?n + 1"] by (simp_all add: ac_simps)
    have uq: "unat ?q2 = unat p + k + ?n" using unat_plus[of p "k + ?n"] prems(4) kl wz by (simp add: algebra_simps)
    have ua: "unat (argv + 8) = unat argv + 8" using unat_slot[of argv 1] prems(6) by simp
    have m3: "?m3 x = m x" if "\<not> within cp (?n + 1) x" "\<not> within argv 8 x" for x
    proof -
      have "?m3 x = ?m2 x" using that(1) uc(1) by (auto simp: within_def)
      also have "\<dots> = ?m1 x" using that(1) prems(5) by (intro write_bytes_outside) (auto simp: within_def)
      finally show ?thesis using m1[OF that(2)] by simp
    qed
    have c2: "cstr m ?q2 zs" using cstr_dropWhile[OF skip(2), of "\<lambda>c. \<not> isblank c"] by (simp add: w_def zs_def)
    have c3: "cstr ?m3 ?q2 zs"
      using prems kl wz uq c2 by (intro cstr_fits[where m = m and m' = ?m3] m3) (auto simp: within_def apart_def)
    have sep: "apart ?q2 (length zs + 1) ?c3 (words_size ws)" "apart ?q2 (length zs + 1) (argv + 8) (8 * length ws)"
        "apart ?c3 (words_size ws) (argv + 8) (8 * length ws)" "unat ?q2 + length zs < 2 ^ 64"
        "unat ?c3 + words_size ws < 2 ^ 64" "unat (argv + 8) + 8 * length ws < 2 ^ 64"
      using prems kl wz uq uc ua by (auto simp: apart_def)
    obtain m' where m': "setup_args_loop ?m3 ?q2 (argv + 8) ?c3 = Some (m', argv + 8 + 8 * of_nat (length ws), ?c3 + of_nat (words_size ws))"
        "\<And>x. \<not> within ?c3 (words_size ws) x \<Longrightarrow> \<not> within (argv + 8) (8 * length ws) x \<Longrightarrow> m' x = ?m3 x"
        "argv_holds m' (argv + 8) ws"
      using 1(1)[of "dropWhile isblank xs", OF refl, folded ys_def, OF False, folded zs_def, OF c3, folded ws_def, OF sep] by blast
    have "m ?q \<noteq> 0" using skip(2) False by (cases ys) auto
    then have run: "setup_args_loop m p argv cp = Some (m', argv + 8 * of_nat (length (arg_words xs)), cp + of_nat (words_size (arg_words xs)))"
      unfolding ws by (subst setup_args_loop.simps) (simp add: skip(1) cw m'(1))
    have fr: "m' x = m x" if "\<not> within cp (words_size (w # ws)) x" "\<not> within argv (8 * length (w # ws)) x" for x
    proof -
      have "m' x = ?m3 x" using that uc ua by (intro m'(2)) (auto simp: within_def)
      then show ?thesis using m3[of x] that by (auto simp: within_def)
    qed
    have slot: "ld64 m' argv = cp"
    proof -
      have "ld64 m' argv = ld64 ?m1 argv"
      proof (rule ld64_frame)
        fix x assume x: "within argv 8 x"
        have "m' x = ?m3 x" using x prems(3) uc ua by (intro m'(2)) (auto simp: within_def apart_def)
        also have "\<dots> = ?m2 x" using x prems(3) uc by (auto simp: within_def apart_def)
        also have "\<dots> = ?m1 x" using x prems(3,5) by (intro write_bytes_outside) (auto simp: within_def apart_def)
        finally show "m' x = ?m1 x" .
      qed (use prems(6) in simp)
      then show ?thesis by simp
    qed
    have wn: "0 \<notin> set w"
      using skip(2) unfolding w_def cstr_iff by (metis in_set_conv_nth set_takeWhileD)
    have "cstr (write_bytes ?m1 cp (w @ [0])) cp w" using wn prems(5) by (intro cstr_write) simp_all
    moreover have "write_bytes ?m1 cp (w @ [0]) = ?m3" by (rule write_bytes_snoc)
    ultimately have "cstr m' cp w"
      using prems(3,5) uc ua by (intro cstr_fits[where m = ?m3 and m' = m'] m'(2)) (auto simp: within_def apart_def)
    then have "argv_holds m' argv (w # ws)" using slot m'(3) by (intro argv_holds_Cons) simp_all
    then show ?thesis using run fr unfolding ws by blast
  qed
qed


lemma setup_args_words_ok:
  assumes "cstr (mem s) (args_ptr s) xs" "unat (args_ptr s) + length xs < 2 ^ 64" "0 \<le> argc s"
    "argv = argv_array l + 8 * of_nat (nat (argc s))" "ws = arg_words xs"
    "unat (argv_array l) + 8 * (nat (argc s) + length ws) < 2 ^ 63" "unat (copy_ptr s) + words_size ws < 2 ^ 64"
    "apart (args_ptr s) (length xs + 1) (copy_ptr s) (words_size ws)" "apart (args_ptr s) (length xs + 1) argv (8 * length ws)"
    "apart (copy_ptr s) (words_size ws) argv (8 * length ws)"
  shows "\<exists>m. setup_args_words l s = Some (s\<lparr>mem := m, copy_ptr := copy_ptr s + of_nat (words_size ws), argc := argc s + int (length ws)\<rparr>) \<and>
    (\<forall>x. \<not> within (copy_ptr s) (words_size ws) x \<longrightarrow> \<not> within argv (8 * length ws) x \<longrightarrow> m x = mem s x) \<and> argv_holds m argv ws"
proof -
  have a: "argv_array l + 8 * word_of_int (argc s) = argv"
    using assms(3) by (simp add: assms(4))
  have ua: "unat argv + 8 * length ws < 2 ^ 64" using assms(6) unat_slot[of "argv_array l" "nat (argc s)"] by (simp add: assms(4))
  obtain m where m: "setup_args_loop (mem s) (args_ptr s) argv (copy_ptr s) =
        Some (m, argv + 8 * of_nat (length ws), copy_ptr s + of_nat (words_size ws))"
      "\<forall>x. \<not> within (copy_ptr s) (words_size ws) x \<longrightarrow> \<not> within argv (8 * length ws) x \<longrightarrow> m x = mem s x" "argv_holds m argv ws"
    using setup_args_loop_cstr[OF assms(1) assms(8,9,10)[unfolded assms(5)] assms(2) assms(7)[unfolded assms(5)] ua[unfolded assms(5)]]
    unfolding assms(5)[symmetric] by blast
  let ?n = "nat (argc s) + length ws"
  have "argv + 8 * of_nat (length ws) - argv_array l = of_nat (8 * ?n)" by (simp add: assms(4) algebra_simps)
  moreover have "sint (of_nat (8 * ?n) :: u64) = 8 * int ?n"
    using assms(6) by (subst sint_of_nat_less) (simp_all add: algebra_simps)
  ultimately have "sint (argv + 8 * of_nat (length ws) - argv_array l) div 8 = int ?n" by (simp del: of_nat_mult of_nat_add)
  then have "sint (argv + 8 * of_nat (length ws) - argv_array l) div 8 = argc s + int (length ws)" using assms(3) by simp
  then show ?thesis using m by (intro exI[of _ m]) (simp add: setup_args_words_def a Let_def)
qed


text \<open>The program finds its name and the words of the command line as its arguments. With room in the two arrays
  \<^verbatim>\<open>setup_args_progname\<close> returns; \<^verbatim>\<open>__argc\<close> counts them, \<^verbatim>\<open>__argv\<close> points to them in order, each ended by a
  zero byte, and no byte outside the arrays changes.\<close>

theorem setup_args_progname_correct:
  assumes "cstr (mem s) a xs" "a \<noteq> 0" "unat a + length xs < 2 ^ 64" "cstr (mem s) (progname s) pn" "unat (progname s) + length pn < 2 ^ 64"
    "argc s = 0" "length pn + 1 + words_size (arg_words xs) \<le> 1000" "length (arg_words xs) < 100"
    "unat (copy_ptr s) + 1000 < 2 ^ 63" "unat (argv_array l) + 800 < 2 ^ 63" "apart (copy_ptr s) 1000 (argv_array l) 800"
    "apart a (length xs + 1) (copy_ptr s) 1000" "apart a (length xs + 1) (argv_array l) 800"
    "apart (progname s) (length pn + 1) (copy_ptr s) 1000" "apart (progname s) (length pn + 1) (argv_array l) 800"
  shows "\<exists>s'. setup_args_progname l a s = Some s' \<and> argc s' = 1 + int (length (arg_words xs)) \<and>
    argv_holds (mem s') (argv_array l) (pn # arg_words xs) \<and>
    (\<forall>x. \<not> within (copy_ptr s) 1000 x \<longrightarrow> \<not> within (argv_array l) 800 x \<longrightarrow> mem s' x = mem s x)"
proof -
  let ?c = "copy_ptr s" and ?v = "argv_array l" and ?ws = "arg_words xs" and ?n = "length pn + 1"
  let ?m1 = "st64 (mem s) ?v ?c" and ?c2 = "copy_ptr s + (of_nat (length pn) + 1)"
  let ?m2 = "write_bytes ?m1 ?c (pn @ [0])"
  have m1: "?m1 x = mem s x" if "\<not> within ?v 8 x" for x using assms(10) that by (intro st64_not_within) simp_all
  have m2: "?m2 x = ?m1 x" if "\<not> within ?c ?n x" for x using assms(7,9) that by (intro write_bytes_outside) simp_all
  have uc: "unat ?c2 = unat ?c + ?n" using unat_plus[of ?c ?n] assms(7,9) by (simp add: ac_simps)
  have uv: "unat (?v + 8) = unat ?v + 8" using unat_slot[of ?v 1] assms(10) by simp
  have c1: "cstr ?m1 (progname s) pn"
    using assms(4,5,15) by (intro cstr_fits[where m = "mem s" and m' = ?m1] m1) (auto simp: within_def apart_def)
  have dis: "?c + of_nat i \<noteq> progname s + of_nat j" if "i \<le> length pn" "j \<le> length pn" for i j
    using that assms(5,7,9,14) unat_plus[of ?c i] unat_plus[of "progname s" j] by (auto simp: apart_def)
  have cp: "strcpy ?m1 ?c (progname s) = Some (?c, ?m2)" using c1 dis by (rule strcpy_cstr)
  have c2: "cstr ?m2 (progname s) pn"
    using c1 assms(5,7,14) by (intro cstr_fits[where m = ?m1 and m' = ?m2] m2) (auto simp: within_def apart_def)
  let ?s3 = "s\<lparr>mem := ?m2, copy_ptr := ?c2, argc := 1, args_ptr := a\<rparr>"
  have eq: "setup_args_progname l a s = setup_args_words l ?s3"
    using assms(2,6) cp strlen_cstr[OF c2] by (simp add: setup_args_progname_def setup_args_def Let_def)
  have c3: "cstr ?m2 a xs"
  proof (rule cstr_fits[OF _ assms(3,1)])
    fix x assume x: "within a (length xs + 1) x"
    have "?m2 x = ?m1 x" using x assms(7,12) by (intro m2) (auto simp: within_def apart_def)
    then show "?m2 x = mem s x" using m1[of x] x assms(13) by (auto simp: within_def apart_def)
  qed
  obtain m where m: "setup_args_words l ?s3 = Some (?s3\<lparr>mem := m, copy_ptr := ?c2 + of_nat (words_size ?ws), argc := 1 + int (length ?ws)\<rparr>)"
      "\<And>x. \<not> within ?c2 (words_size ?ws) x \<Longrightarrow> \<not> within (?v + 8) (8 * length ?ws) x \<Longrightarrow> m x = ?m2 x" "argv_holds m (?v + 8) ?ws"
    using setup_args_words_ok[of ?s3 xs "?v + 8" l ?ws] c3 assms uc uv by (auto simp: apart_def)
  have "ld64 m ?v = ld64 ?m1 ?v"
  proof (rule ld64_frame)
    fix x assume x: "within ?v 8 x"
    have "m x = ?m2 x" using x assms(7,11) uc uv by (intro m(2)) (auto simp: within_def apart_def)
    also have "\<dots> = ?m1 x" using x assms(7,11) by (intro m2) (auto simp: within_def apart_def)
    finally show "m x = ?m1 x" .
  qed (use assms(10) in simp)
  moreover have "cstr m ?c pn"
  proof (rule cstr_fits[where m = ?m2])
    show "m x = ?m2 x" if "within ?c (length pn + 1) x" for x
      using that assms(7,8,11) uc uv by (intro m(2)) (auto simp: within_def apart_def)
    show "cstr ?m2 ?c pn" using c1 assms(7) by (intro cstr_write) (auto simp: cstr_iff in_set_conv_nth)
  qed (use assms(7,9) in simp)
  ultimately have "argv_holds m ?v (pn # ?ws)" using m(3) by (intro argv_holds_Cons) simp_all
  moreover have "m x = mem s x" if "\<not> within ?c 1000 x" "\<not> within ?v 800 x" for x
    using that assms(7,8) uc uv m(2)[of x] m2[of x] m1[of x] by (auto simp: within_def)
  ultimately show ?thesis using eq m(1) by auto
qed


section \<open>A machine\<close>

text \<open>A file \<^verbatim>\<open>#\<close>, \<^verbatim>\<open>A=1\<close> of two lines, the program name \<^verbatim>\<open>A\<close> and the command line \<^verbatim>\<open>a b\<close>.\<close>

definition argv_demo_mem :: mem where
  "argv_demo_mem = (\<lambda>_. 0)(0x8000 := 35, 0x8001 := 10, 0x8002 := 65, 0x8003 := 61, 0x8004 := 49, 0x30000 := 65,
     0x40000 := 97, 0x40001 := 32, 0x40002 := 98)"

definition argv_demo :: argv_state where
  "argv_demo = phys_state.extend ((phys_machine 0 0)\<lparr>mem := argv_demo_mem\<rparr>)
     \<lparr>argc = 0, args_ptr = 0, copy_ptr = 0x50000, progname = 0x30000, initrd = 0x8000, initrd_size = 5\<rparr>"

definition argv_demo_layout :: argv_layout where
  "argv_demo_layout = \<lparr>argv_array = 0x60000, environ_array = 0x20000, env_buf = 0x10000, edata = 0x400000\<rparr>"

lemma argv_demo_fields:
  "mem argv_demo = argv_demo_mem" "argc argv_demo = 0" "copy_ptr argv_demo = 0x50000" "progname argv_demo = 0x30000"
  "initrd argv_demo = 0x8000" "initrd_size argv_demo = 5"
  "argv_array argv_demo_layout = 0x60000" "environ_array argv_demo_layout = 0x20000" "env_buf argv_demo_layout = 0x10000"
  by (simp_all add: argv_demo_def argv_demo_layout_def phys_state.defs)

theorem setup_args_progname_correct_witness:
  "\<exists>s'. setup_args_progname argv_demo_layout 0x40000 argv_demo = Some s' \<and> argc s' = 3 \<and> argv_holds (mem s') 0x60000 [[65], [97], [98]]"
proof -
  have w: "arg_words [97, 32, 98] = [[97], [98]]" by (simp add: arg_words.simps isblank_def)
  show ?thesis
    using setup_args_progname_correct[of argv_demo "0x40000" "[97, 32, 98]" "[65]" argv_demo_layout]
    by (simp add: w argv_demo_fields argv_demo_mem_def apart_def) blast
qed

end
