(* ===== verification/Env_Props.thy ===== *)
theory Env_Props
  imports Argv_Props
begin

text \<open>
  The environment. A text is a list of lines; a line that gives a variable starts with a name, made of letters, digits
  and underscores and not starting with a digit, and an equals sign.
\<close>

section \<open>Lines and variables\<close>

abbreviation line_of :: "u8 list \<Rightarrow> u8 list" where "line_of xs \<equiv> takeWhile (\<lambda>c. c \<noteq> 0x0a) xs"
abbreviation after_line :: "u8 list \<Rightarrow> u8 list" where "after_line xs \<equiv> dropWhile (\<lambda>c. c \<noteq> 0x0a) xs"

lemma after_line_less: "xs \<noteq> [] \<Longrightarrow> length (tl (after_line xs)) < length xs"
  using length_dropWhile_le[of "\<lambda>c. c \<noteq> 0x0a" xs] by (cases xs) (auto simp: less_Suc_eq_le)

function env_lines :: "u8 list \<Rightarrow> u8 list list" where
  "env_lines xs = (if xs = [] then [] else line_of xs # env_lines (tl (after_line xs)))"
  by pat_completeness auto
termination
  by (relation "measure length") (use after_line_less in auto)

declare env_lines.simps [simp del]

definition var_name :: "u8 list \<Rightarrow> u8 list" where
  "var_name v = takeWhile (\<lambda>c. c \<noteq> 0x3d) v"

definition var_value :: "u8 list \<Rightarrow> u8 list" where
  "var_value v = drop (length (var_name v) + 1) v"

definition valid_var :: "u8 list \<Rightarrow> bool" where
  "valid_var v \<longleftrightarrow> v \<noteq> [] \<and> isalpha (hd v) \<and> 0x3d \<in> set v \<and> (\<forall>c\<in>set (var_name v). isalnum c)"

definition env_vars :: "u8 list \<Rightarrow> u8 list list" where
  "env_vars xs = filter valid_var (env_lines xs)"

text \<open>The rest of the text from the next line that gives a variable.\<close>

function env_seek :: "u8 list \<Rightarrow> u8 list" where
  "env_seek xs = (if xs = [] then [] else if valid_var (line_of xs) then xs else env_seek (tl (after_line xs)))"
  by pat_completeness auto
termination
  by (relation "measure length") (use after_line_less in auto)

declare env_seek.simps [simp del]

lemma env_seek_Nil [simp]: "env_seek [] = []"
  by (subst env_seek.simps) simp

lemma env_vars_Nil [simp]: "env_vars [] = []"
  by (simp add: env_vars_def, subst env_lines.simps) simp

lemma env_vars_seek:
  "env_vars xs = (if env_seek xs = [] then [] else line_of (env_seek xs) # env_vars (tl (after_line (env_seek xs))))"
proof (induction xs rule: env_seek.induct)
  case (1 xs)
  show ?case
  proof (cases "xs = [] \<or> valid_var (line_of xs)")
    case True
    then have "env_seek xs = xs" "env_vars xs = (if xs = [] then [] else line_of xs # env_vars (tl (after_line xs)))"
      by (subst env_seek.simps, simp) (use True in \<open>auto simp: env_vars_def env_lines.simps[of xs] env_lines.simps[of "[]"]\<close>)
    then show ?thesis by simp
  next
    case False
    then have "env_vars xs = env_vars (tl (after_line xs))" by (simp add: env_vars_def env_lines.simps[of xs])
    moreover have "env_seek xs = env_seek (tl (after_line xs))" using False by (subst env_seek.simps) simp
    ultimately show ?thesis using 1 False by simp
  qed
qed

lemma env_seek_drop: "\<exists>k\<le>length xs. env_seek xs = drop k xs"
proof (induction xs rule: env_seek.induct)
  case (1 xs)
  show ?case
  proof (cases "xs = [] \<or> valid_var (line_of xs)")
    case True
    then show ?thesis by (subst env_seek.simps) (auto intro: exI[of _ 0])
  next
    case False
    then obtain k where k: "k \<le> length (tl (after_line xs))" "env_seek (tl (after_line xs)) = drop k (tl (after_line xs))" using 1 by auto
    have "drop k (tl (after_line xs)) = drop (k + 1 + length (line_of xs)) xs"
      by (simp add: dropWhile_eq_drop drop_Suc[symmetric] drop_drop tl_drop[symmetric])
    moreover have "env_seek xs = env_seek (tl (after_line xs))" using False by (subst env_seek.simps) simp
    ultimately show ?thesis using k by (cases "k + 1 + length (line_of xs) \<le> length xs") (auto intro: exI[of _ "length xs"])
  qed
qed

lemma env_seek_nonempty: "env_seek xs \<noteq> [] \<Longrightarrow> valid_var (line_of (env_seek xs))"
  by (induction xs rule: env_seek.induct) (subst (asm) (2) env_seek.simps, subst env_seek.simps, auto split: if_splits)

section \<open>Finding the next variable\<close>

lemma env_eol_cstr: "cstr m a xs \<Longrightarrow> env_eol m a = Some (a + of_nat (length (line_of xs)))"
proof (induction xs arbitrary: a)
  case Nil
  then show ?case by (subst env_eol.simps) simp
next
  case (Cons x xs)
  then show ?case by (subst env_eol.simps) (auto simp: algebra_simps)
qed

lemma str_arg_cstr: "cstr m a xs \<Longrightarrow> str_arg m a = Some (map (\<lambda>c. char_of (unat c)) xs)"
proof (induction xs arbitrary: a)
  case Nil
  then show ?case by (subst str_arg.simps) simp
next
  case (Cons x xs)
  then show ?case by (subst str_arg.simps) simp
qed

lemma cstr_cut:
  assumes "cstr m a (xs @ ys)" shows "cstr (m(a + of_nat (length xs) := 0)) a xs"
proof -
  have "length xs < 2 ^ 64" using cstr_length[OF assms] by simp
  then have "a + of_nat i \<noteq> a + of_nat (length xs)" if "i < length xs" for i
    using of_nat_inj64[of i "length xs"] that by simp
  moreover have "m (a + of_nat i) = xs ! i \<and> xs ! i \<noteq> 0" if "i < length xs" for i
    using cstr_nth[OF assms, of i] that by (simp add: nth_append)
  ultimately show ?thesis unfolding cstr_iff by simp
qed

lemma env_invalid_eol_cstr:
  assumes "cstr (mem s) a xs"
  shows "\<exists>c. env_invalid_eol a s = Some (a + of_nat (length (line_of xs)), s\<lparr>console := c\<rparr>)"
proof -
  have "cstr ((mem s)(a + of_nat (length (line_of xs)) := 0)) a (line_of xs)"
    using cstr_cut[of "mem s" a "line_of xs" "after_line xs"] assms by simp
  note str_arg_cstr[OF this]
  then show ?thesis using env_eol_cstr[OF assms] by (auto simp: env_invalid_eol_def Let_def kprintf_def)
qed

lemma env_name_loop_cstr:
  "cstr m a xs \<Longrightarrow> env_name_loop m a b = Some (a + of_nat (length (var_name (line_of xs))), b \<or> (\<exists>c\<in>set (var_name (line_of xs)). \<not> isalnum c))"
proof (induction xs arbitrary: a b)
  case Nil
  then show ?case by (subst env_name_loop.simps) (simp add: var_name_def)
next
  case (Cons x xs)
  then show ?case by (subst env_name_loop.simps) (auto simp: algebra_simps var_name_def)
qed

lemma env_name_end: "cstr m a xs \<Longrightarrow> m (a + of_nat (length (var_name (line_of xs)))) = 0x3d \<longleftrightarrow> 0x3d \<in> set (line_of xs)"
proof (induction xs arbitrary: a)
  case (Cons x xs)
  have ne: "(0x3d::u8) \<noteq> 0x0a" by simp
  consider "x = 0x0a" | "x = 0x3d" | "x \<noteq> 0x0a" "x \<noteq> 0x3d" by blast
  then show ?case
    using Cons.prems Cons.IH[of "a + 1"] ne by cases (simp_all add: var_name_def add.assoc)
qed (simp add: var_name_def)


lemma line_end:
  assumes "cstr m a xs"
  shows "m (a + of_nat (length (line_of xs))) = (if after_line xs = [] then 0 else 0x0a)"
    "after_line xs \<noteq> [] \<Longrightarrow> cstr m (a + of_nat (length (line_of xs)) + 1) (tl (after_line xs))"
proof -
  note c = cstr_dropWhile[OF assms, of "\<lambda>c. c \<noteq> 0x0a"]
  show "m (a + of_nat (length (line_of xs))) = (if after_line xs = [] then 0 else 0x0a)"
    "after_line xs \<noteq> [] \<Longrightarrow> cstr m (a + of_nat (length (line_of xs)) + 1) (tl (after_line xs))"
    using c hd_dropWhile[of "\<lambda>c. c \<noteq> 0x0a" xs] by (cases "after_line xs"; simp)+
qed

lemma blank_line:
  assumes "cstr m a xs" "m (a + of_nat (length (takeWhile isblank xs))) = 0x0a"
  shows "line_of xs = takeWhile isblank xs" "after_line xs \<noteq> []"
  using assms
proof (induction xs arbitrary: a)
  case (Cons x xs)
  have n: "\<not> isblank 0x0a" by (simp add: isblank_def)
  have b: "isblank x \<Longrightarrow> x \<noteq> 0x0a" using n by auto
  case 1
  then show ?case using Cons.IH(1)[of "a + 1"] b n by (cases "isblank x") (auto simp: add.assoc)
next
  case (Cons x xs)
  have b: "isblank x \<Longrightarrow> x \<noteq> 0x0a" by (auto simp: isblank_def)
  case 2
  then show ?case using Cons.IH(2)[of "a + 1"] b by (cases "isblank x") (auto simp: add.assoc)
qed (simp_all add: isblank_def)

lemma valid_line:
  assumes "cstr m a (x # xs)" "isalpha x"
  shows "valid_var (line_of (x # xs)) \<longleftrightarrow>
    m (a + 1 + of_nat (length (var_name (line_of xs)))) = 0x3d \<and> \<not> (\<exists>c\<in>set (var_name (line_of xs)). \<not> isalnum c)"
proof -
  have "x \<noteq> 0x0a" "x \<noteq> 0x3d" using assms(2) by (auto simp: isalpha_def schar_def)
  moreover have "isalnum x" using assms(2) by (simp add: isalnum_def)
  ultimately show ?thesis using env_name_end[of m "a + 1" xs] assms by (auto simp: valid_var_def var_name_def)
qed

definition seek_len :: "u8 list \<Rightarrow> u64" where
  "seek_len xs = of_nat (length xs - length (env_seek xs))"

lemma env_next_cstr: "cstr (mem s) a xs \<Longrightarrow> \<exists>c. env_next a s = Some (a + seek_len xs, s\<lparr>console := c\<rparr>)"
proof (induction xs arbitrary: a s rule: env_seek.induct)
  case (1 xs)
  show ?case
  proof (cases xs)
    case Nil
    then show ?thesis using 1(2) by (subst env_next.simps) (auto intro: exI[of _ "console s"] simp: seek_len_def)
  next
    case (Cons x xs')
    let ?n = "of_nat (length (line_of xs)) :: u64"
    have m0: "mem s a = x" "x \<noteq> 0" using 1(2) Cons by auto
    show ?thesis
    proof (cases "valid_var (line_of xs)")
      case True
      have al: "isalpha x" using True Cons by (cases "x = 0x0a") (auto simp: valid_var_def)
      have "env_seek xs = xs" using True by (subst env_seek.simps) simp
      then show ?thesis
        using True al m0 env_name_loop_cstr[of "mem s" "a + 1" xs' False] valid_line[of "mem s" a x xs'] 1(2) Cons
        by (subst env_next.simps) (auto intro: exI[of _ "console s"] simp: seek_len_def)
    next
      case False
      have sk: "env_seek xs = env_seek (tl (after_line xs))" using False by (subst env_seek.simps) (simp add: Cons)
      have next_line: "\<exists>c. (if mem s' (a + ?n) \<noteq> 0 then env_next (a + ?n + 1) s' else Some (a + ?n, s')) =
          Some (a + seek_len xs, s\<lparr>console := c\<rparr>)" if s': "s' = s\<lparr>console := c'\<rparr>" for s' c'
      proof (cases "after_line xs = []")
        case True
        then have "env_seek xs = []" "length (line_of xs) = length xs"
          using sk[unfolded True] takeWhile_dropWhile_length[of "\<lambda>c. c \<noteq> 0x0a" xs, unfolded True] by simp_all
        then show ?thesis using line_end(1)[OF 1(2)] True s' by (auto simp: seek_len_def)
      next
        case al: False
        let ?ys = "tl (after_line xs)"
        have c: "cstr (mem s') (a + ?n + 1) ?ys" using line_end(2)[OF 1(2) al] s' by simp
        obtain d where d: "env_next (a + ?n + 1) s' = Some (a + ?n + 1 + seek_len ?ys, s'\<lparr>console := d\<rparr>)"
          using 1(1)[OF _ False c] Cons by blast
        have "length xs = length (line_of xs) + 1 + length ?ys"
          using takeWhile_dropWhile_length[of "\<lambda>c. c \<noteq> 0x0a" xs] al by (cases "after_line xs") auto
        moreover have "length (env_seek ?ys) \<le> length ?ys" using env_seek_drop[of ?ys] by auto
        ultimately have "length xs - length (env_seek xs) = length (line_of xs) + 1 + (length ?ys - length (env_seek ?ys))"
          using sk by simp
        then have "seek_len xs = ?n + 1 + seek_len ?ys" by (simp add: seek_len_def)
        then show ?thesis using d line_end(1)[OF 1(2)] al s' by (auto simp: add.assoc)
      qed
      obtain c' where inv: "env_invalid_eol a s = Some (a + ?n, s\<lparr>console := c'\<rparr>)" using env_invalid_eol_cstr[OF 1(2)] by blast
      show ?thesis
      proof (cases "isalpha x")
        case True
        then show ?thesis
          using False m0 env_name_loop_cstr[of "mem s" "a + 1" xs' False] valid_line[of "mem s" a x xs'] 1(2) Cons
            next_line[of "s\<lparr>console := c'\<rparr>" c'] inv
          by (subst env_next.simps) auto
      next
        case na: False
        have e: "env_eol (mem s) a = Some (a + ?n)" using env_eol_cstr[OF 1(2)] .
        note sb = skip_blanks_cstr[OF 1(2)]
        have nl: "mem s (a + ?n) = 0x0a" if "mem s (a + of_nat (length (takeWhile isblank xs))) = 0x0a"
          using blank_line[OF 1(2) that] that by simp
        show ?thesis
          using na m0 sb e inv next_line[of s "console s"] next_line[of "s\<lparr>console := c'\<rparr>" c'] blank_line[OF 1(2)] nl
          by (subst env_next.simps) (auto split: if_splits)
      qed
    qed
  qed
qed


section \<open>The whole text\<close>

lemma env_entry_end_cstr:
  "cstr m a xs \<Longrightarrow> eof = a + of_nat (length xs) \<Longrightarrow> unat a + length xs < 2 ^ 64 \<Longrightarrow>
    env_entry_end m a eof True = Some (a + of_nat (length (line_of xs)))"
proof (induction xs arbitrary: a)
  case Nil
  then show ?case by (subst env_entry_end.simps) simp
next
  case (Cons x xs)
  have u: "unat (a + 1) = unat a + 1" using unat_plus1[of a] Cons.prems(3) by simp
  have "unat eof = unat a + Suc (length xs)" using unat_plus[of a "Suc (length xs)"] Cons.prems(2,3) by simp
  then have "a < eof" by (simp add: word_less_nat_alt)
  moreover have "env_entry_end m (a + 1) eof True = Some (a + 1 + of_nat (length (line_of xs)))"
    using Cons.prems u by (intro Cons.IH) (simp_all add: add.assoc)
  ultimately show ?case using Cons.prems(1) by (subst env_entry_end.simps) (simp add: algebra_simps)
qed

text \<open>What the array and the text look like afterwards: the pointers stay inside the text.\<close>

definition environ_holds :: "mem \<Rightarrow> u64 \<Rightarrow> u64 \<Rightarrow> nat \<Rightarrow> u8 list list \<Rightarrow> bool" where
  "environ_holds m e a n vs \<longleftrightarrow> argv_holds m e vs \<and> (\<forall>i<length vs. within a n (ld64 m (e + 8 * of_nat i)))"

lemma environ_holds_Cons:
  assumes "cstr m p v" "ld64 m e = p" "within a n p" "environ_holds m (e + 8) a' n' vs" "unat a \<le> unat a'" "unat a' + n' \<le> unat a + n"
  shows "environ_holds m e a n (v # vs)"
proof -
  have "within a n (ld64 m (e + 8 * of_nat i))" if i: "i < length (v # vs)" for i
  proof (cases i)
    case (Suc k)
    then have "within a' n' (ld64 m (e + 8 + 8 * of_nat k))" using assms(4) i by (simp add: environ_holds_def)
    then show ?thesis using assms(5,6) Suc by (auto simp: within_def algebra_simps)
  qed (use assms(2,3) in simp)
  then show ?thesis using assms(1,2,4) argv_holds_Cons[of m e v vs] by (auto simp: environ_holds_def)
qed

lemma console_mem: "s\<lparr>console := c, mem := m\<rparr> = (s::'a mstate_scheme)\<lparr>mem := m, console := c\<rparr>"
  by (cases s) simp

lemma setup_env_loop_cstr:
  assumes "cstr (mem s) a xs" "eof = a + of_nat (length xs)" "unat a + length xs + 1 < 2 ^ 64" "0 \<le> i"
    "e = environ_array l + 8 * word_of_int i" "n = 8 * length (env_vars xs)" "unat e + n < 2 ^ 64" "apart a (length xs + 1) e n"
  shows "\<exists>m c. setup_env_loop l a eof True i s = Some (s\<lparr>mem := m, console := c\<rparr>) \<and> environ_holds m e a (length xs) (env_vars xs) \<and>
    (\<forall>x. \<not> within a (length xs + 1) x \<longrightarrow> \<not> within e n x \<longrightarrow> m x = mem s x)"
  using assms
proof (induction "length xs" arbitrary: xs a i e n s rule: less_induct)
  case less
  note c0 = less.prems(1)
  define ys where "ys = env_seek xs"
  define k where "k = length xs - length ys"
  have ysd: "ys = drop k xs" and ys: "k + length ys = length xs" using env_seek_drop[of xs] by (auto simp: k_def ys_def)
  define b where "b = a + of_nat k"
  obtain c where c: "env_next a s = Some (b, s\<lparr>console := c\<rparr>)"
    using env_next_cstr[OF c0] unfolding b_def k_def ys_def seek_len_def by blast
  have cb: "cstr (mem s) b ys" using cstr_drop[OF c0, of k] ysd ys unfolding b_def by simp
  have ub: "unat b = unat a + k" using less.prems(3) ys unfolding b_def by (intro unat_plus) simp
  have ue: "unat eof = unat a + length xs" using less.prems(3) unat_plus[of a "length xs"] unfolding less.prems(2) by simp
  show ?case
  proof (cases "ys = []")
    case True
    then have "env_vars xs = []" by (subst env_vars_seek) (simp add: ys_def)
    moreover have "mem s b = 0" using cb True by simp
    moreover have "setup_env_loop l a eof True i s = Some (s\<lparr>console := if a < eof then c else console s\<rparr>)"
      using c calculation(2) by (subst setup_env_loop.simps) simp
    ultimately show ?thesis
      by (intro exI[of _ "mem s"] exI[of _ "if a < eof then c else console s"]) (simp add: environ_holds_def argv_holds_def)
  next
    case False
    define v where "v = line_of ys"
    define r where "r = after_line ys"
    define zs where "zs = tl r"
    let ?d = "b + of_nat (length v)"
    let ?m1 = "st64 (mem s) e b"
    let ?m2 = "?m1(?d := 0)"
    have vs: "env_vars xs = v # env_vars zs" using False by (subst env_vars_seek) (simp add: ys_def v_def r_def zs_def)
    have n: "n = 8 + 8 * length (env_vars zs)" using less.prems(6) vs by simp
    have len: "length v + length r = length ys" unfolding v_def r_def by (rule takeWhile_dropWhile_length)
    have ud: "unat ?d = unat b + length v" using less.prems(3) len ub ys by (intro unat_plus) simp
    have u1: "unat (?d + 1) = unat ?d + 1" by (rule unat_plus1) (use ud ub ys len less.prems(3) in linarith)
    have ue8: "unat (e + 8) = unat e + 8" using unat_slot[of e 1] less.prems(7) n by simp
    have m1: "?m1 x = mem s x" if "\<not> within e 8 x" for x using less.prems(7) n that by (intro st64_not_within) simp_all
    have c1: "cstr ?m1 b ys"
      using cb less.prems(3,8) n ub ys by (intro cstr_fits[where m = "mem s" and m' = ?m1] m1) (auto simp: within_def apart_def)
    have eb: "eof = b + of_nat (length ys)" using less.prems(2)[folded ys] by (simp add: b_def add.assoc)
    have ee: "env_entry_end ?m1 b eof True = Some ?d"
      using less.prems(3) ub ys unfolding v_def by (intro env_entry_end_cstr[OF c1 eb]) simp
    have be: "a < eof" "b < eof" "mem s b \<noteq> 0" using False ub ue cb ys[symmetric] by (cases ys; simp add: word_less_nat_alt)+
    have cut: "cstr ?m2 b v" using cstr_cut[of ?m1 b v r] c1 by (simp add: v_def r_def)
    have fr2: "?m2 x = mem s x" if "\<not> within a (length xs + 1) x" "\<not> within e 8 x" for x
      using that m1[of x] ud ub ys len by (auto simp: within_def)
    let ?s2 = "s\<lparr>mem := ?m2, console := c\<rparr>"
    have step: "setup_env_loop l a eof True i s = setup_env_loop l (?d + 1) eof True (i + 1) ?s2"
      using be(1,3) be(2)[unfolded not_le[symmetric]] c ee by (subst setup_env_loop.simps) (simp add: less.prems(5) console_mem)
    have slot2: "ld64 ?m2 e = b"
    proof -
      have "ld64 ?m2 e = ld64 ?m1 e" using less.prems(7,8) n ud ub ys len
        by (intro ld64_frame) (auto simp: within_def apart_def)
      then show ?thesis by simp
    qed
    have wb: "within a (length xs) b" using ub ys False by (cases ys) (auto simp: within_def)
    show ?thesis
    proof (cases "r = []")
      case True
      have "setup_env_loop l (?d + 1) eof True (i + 1) ?s2 = Some ?s2"
        using u1 ud ub ue ys len[unfolded True] by (subst setup_env_loop.simps) (simp add: word_less_nat_alt)
      moreover have "env_vars zs = []" unfolding zs_def True by simp
      moreover have "environ_holds ?m2 e a (length xs) [v]"
        using cut slot2 wb by (intro environ_holds_Cons[where a' = a and n' = 0 and p = b]) (auto simp: environ_holds_def argv_holds_def)
      ultimately show ?thesis using step fr2 vs n by (intro exI[of _ ?m2] exI[of _ c]) auto
    next
      case rf: False
      have lr: "length r = 1 + length zs" using rf unfolding zs_def by (cases r) auto
      have cz: "cstr ?m1 (?d + 1) zs" using line_end(2)[OF c1] rf unfolding zs_def r_def v_def by blast
      have cz2: "cstr ?m2 (?d + 1) zs" using cz less.prems(3) u1 ud ub ys len lr
        by (intro cstr_fits[where m = ?m1 and m' = ?m2]) (auto simp: within_def)
      have eo: "eof = ?d + 1 + of_nat (length zs)"
        unfolding eb len[symmetric] lr by (simp add: ac_simps)
      have IH: "\<exists>m c'. setup_env_loop l (?d + 1) eof True (i + 1) ?s2 = Some (?s2\<lparr>mem := m, console := c'\<rparr>) \<and>
          environ_holds m (e + 8) (?d + 1) (length zs) (env_vars zs) \<and>
          (\<forall>x. \<not> within (?d + 1) (length zs + 1) x \<longrightarrow> \<not> within (e + 8) (8 * length (env_vars zs)) x \<longrightarrow> m x = mem ?s2 x)"
      proof (rule less.hyps)
        show "length zs < length xs" using len lr ys by simp
        show "cstr (mem ?s2) (?d + 1) zs" using cz2 by simp
        show "unat (?d + 1) + length zs + 1 < 2 ^ 64" using u1 ud ub ys len lr less.prems(3) by simp
        show "e + 8 = environ_array l + 8 * word_of_int (i + 1)" using less.prems(5) by (simp add: algebra_simps)
        show "unat (e + 8) + 8 * length (env_vars zs) < 2 ^ 64" using ue8 n less.prems(7) by simp
        show "apart (?d + 1) (length zs + 1) (e + 8) (8 * length (env_vars zs))"
          using less.prems(8) n ue8 u1 ud ub ys len lr by (auto simp: apart_def)
      qed (use eo less.prems(4) in simp_all)
      then obtain m c' where m: "setup_env_loop l (?d + 1) eof True (i + 1) ?s2 = Some (s\<lparr>mem := m, console := c'\<rparr>)"
          "environ_holds m (e + 8) (?d + 1) (length zs) (env_vars zs)"
          "\<And>x. \<not> within (?d + 1) (length zs + 1) x \<Longrightarrow> \<not> within (e + 8) (8 * length (env_vars zs)) x \<Longrightarrow> m x = ?m2 x"
        by auto
      have cv: "cstr m b v" using cut less.prems(3,8) n ue8 u1 ud ub ys len lr
        by (intro cstr_fits[where m = ?m2 and m' = m] m(3)) (auto simp: within_def apart_def)
      have "ld64 m e = ld64 ?m2 e" using less.prems(7,8) n ue8 u1 ud ub ys len lr
        by (intro ld64_frame m(3)) (auto simp: within_def apart_def)
      then have "environ_holds m e a (length xs) (v # env_vars zs)"
        using cv m(2) wb slot2 u1 ud ub ys len lr by (intro environ_holds_Cons[where a' = "?d + 1" and n' = "length zs" and p = b]) auto
      moreover have "m x = mem s x" if "\<not> within a (length xs + 1) x" "\<not> within e n x" for x
        using that m(3)[of x] fr2[of x] n ue8 u1 ud ub ys len lr by (auto simp: within_def)
      ultimately show ?thesis using step m(1) vs by (intro exI[of _ m] exI[of _ c']) simp
    qed
  qed
qed


section \<open>Looking up a variable\<close>

text \<open>\<^verbatim>\<open>getenv\<close> answers with the first variable whose name starts the name asked for.\<close>

definition env_lookup :: "u8 list list \<Rightarrow> u8 list \<Rightarrow> u8 list option" where
  "env_lookup vs key = find (\<lambda>v. prefix (var_name v) key) vs"

lemma var_split: "0x3d \<in> set v \<Longrightarrow> v = var_name v @ 0x3d # var_value v" "0x3d \<notin> set (var_name v)"
proof -
  assume "0x3d \<in> set v"
  then obtain r where "dropWhile (\<lambda>c. c \<noteq> 0x3d) v = 0x3d # r"
    using hd_dropWhile[of "\<lambda>c. c \<noteq> 0x3d" v] by (cases "dropWhile (\<lambda>c. c \<noteq> 0x3d) v") auto
  then have v: "v = var_name v @ 0x3d # r" unfolding var_name_def by (metis takeWhile_dropWhile_id)
  have "drop (length (var_name v) + 1) (var_name v @ 0x3d # r) = r" by simp
  then have "var_value v = r" unfolding var_value_def by (subst v)
  then show "v = var_name v @ 0x3d # var_value v" using v by simp
qed (auto simp: var_name_def dest: set_takeWhileD)

lemma strncmp_name:
  assumes "cstr m name key" "cstr m p (n @ r)"
  shows "strncmp m name p (of_nat (length n)) = 0 \<longleftrightarrow> prefix n key"
proof -
  have u: "unat (of_nat (length n) :: u64) = length n" using cstr_length[OF assms(2)] by (intro unat_of_nat64) simp
  have "strncmp_loop m (length n) name p = 0 \<longleftrightarrow> take (length n) key = n"
    using strncmp_loop_zero[OF assms, of "length n"] by simp
  then show ?thesis unfolding strncmp_def u by (metis prefix_def append_eq_conv_conj take_is_prefix)
qed

lemma getenv_loop_lookup:
  assumes "argv_holds m e vs" "\<forall>i<length vs. ld64 m (e + 8 * of_nat i) \<noteq> 0 \<and> unat (ld64 m (e + 8 * of_nat i)) + length (vs ! i) < 2 ^ 64"
    "ld64 m (e + 8 * of_nat (length vs)) = 0" "\<forall>v\<in>set vs. 0x3d \<in> set v" "cstr m name key"
  shows "\<exists>p. getenv_loop m name e = Some p \<and> (case env_lookup vs key of None \<Rightarrow> p = 0 | Some v \<Rightarrow> p \<noteq> 0 \<and> cstr m p (var_value v))"
  using assms
proof (induction vs arbitrary: e)
  case Nil
  then show ?case by (subst getenv_loop.simps) (simp add: env_lookup_def)
next
  case (Cons v vs)
  let ?p = "ld64 m e" and ?n = "var_name v"
  have p: "?p \<noteq> 0" "unat ?p + length v < 2 ^ 64" "cstr m ?p v"
    using Cons.prems(1,2) by (auto simp: argv_holds_def dest: spec[of _ 0])
  have v: "v = ?n @ 0x3d # var_value v" using Cons.prems(4) by (intro var_split(1)) simp
  have c: "cstr m ?p (?n @ 0x3d # var_value v)" using p(3) v by metis
  have sc: "strchr m ?p 0x3d = Some (?p + of_nat (length ?n))" using c var_split(2) by (rule strchr_find)
  have lv: "length v = length ?n + 1 + length (var_value v)" using arg_cong[OF v, of length] by simp
  have "unat (?p + of_nat (length ?n)) = unat ?p + length ?n" using p(2) lv by (intro unat_plus) simp
  then have nz: "?p + of_nat (length ?n) \<noteq> 0" using p(1) by (metis add_is_0 unat_eq_zero)
  have "unat (?p + of_nat (length ?n + 1)) = unat ?p + (length ?n + 1)" using p(2) lv by (intro unat_plus) simp
  then have "?p + of_nat (length ?n + 1) \<noteq> 0" by (metis add_is_0 unat_0 zero_neq_one)
  then have nz1: "?p + of_nat (length ?n) + 1 \<noteq> 0" by (simp add: ac_simps)
  have val: "cstr m (?p + of_nat (length ?n) + 1) (var_value v)"
    using cstr_drop[OF c, of "length ?n + 1"] by (simp add: add.assoc add.commute[of 1])
  note cmp = strncmp_name[OF Cons.prems(5) c]
  show ?case
  proof (cases "prefix ?n key")
    case True
    then show ?thesis using p(1) sc nz nz1 val cmp by (subst getenv_loop.simps) (simp add: env_lookup_def)
  next
    case False
    have A: "argv_holds m (e + 8) vs" "ld64 m (e + 8 + 8 * of_nat (length vs)) = 0"
      using Cons.prems(1,3) by (auto simp: argv_holds_def add.assoc dest: spec[of _ "Suc _"])
    have B: "\<forall>i<length vs. ld64 m (e + 8 + 8 * of_nat i) \<noteq> 0 \<and> unat (ld64 m (e + 8 + 8 * of_nat i)) + length (vs ! i) < 2 ^ 64"
      using Cons.prems(2) by (auto simp: add.assoc dest: spec[of _ "Suc _"])
    have "getenv_loop m name e = getenv_loop m name (e + 8)"
      using p(1) sc cmp False by (subst getenv_loop.simps) simp
    moreover have "env_lookup (v # vs) key = env_lookup vs key" using False by (simp add: env_lookup_def)
    ultimately show ?thesis using Cons.IH[OF A(1) B A(2) _ Cons.prems(5)] Cons.prems(4) by simp
  qed
qed


lemma find_set: "find P xs = Some x \<Longrightarrow> x \<in> set xs"
  by (auto simp: find_Some_iff)

lemma env_vars_equals: "\<forall>v\<in>set (env_vars xs). 0x3d \<in> set v"
  by (simp add: env_vars_def valid_var_def)

lemma setup_env_text:
  assumes "cstr (mem s) a xs" "length xs = unat sz" "unat sz < 2 ^ 31" "0 < unat a" "unat a + length xs + 1 < 2 ^ 64"
    "length (env_vars xs) < 200" "unat (environ_array l) + 1600 < 2 ^ 64" "apart a (length xs + 1) (environ_array l) 1600"
    "\<forall>x. within (environ_array l) 1600 x \<longrightarrow> mem s x = 0"
  shows "\<exists>m c. setup_env l a sz s = Some (s\<lparr>mem := m, console := c\<rparr>) \<and> environ_holds m (environ_array l) a (length xs) (env_vars xs) \<and>
    ld64 m (environ_array l + 8 * of_nat (length (env_vars xs))) = 0 \<and>
    (\<forall>x. \<not> within a (length xs + 1) x \<longrightarrow> \<not> within (environ_array l) 1600 x \<longrightarrow> m x = mem s x)"
proof -
  let ?e = "environ_array l" and ?n = "length (env_vars xs)"
  have "int (unat sz) < int (2 ^ 31)" using assms(3) by (simp only: of_nat_less_iff)
  then have "uint sz < 2 ^ 31" by simp
  moreover have "- (2 ^ 31) \<le> uint sz" by (rule order_trans[OF _ uint_ge_0]) simp
  ultimately have "uint sz < 2 ^ 31" "- (2 ^ 31) \<le> uint sz" .
  then have "sint sz = int (unat sz)" by (simp add: sint_uint signed_take_bit_int_eq_self)
  then have sc: "(scast sz :: u64) = of_nat (length xs)"
    using assms(2) by (metis of_int_of_nat_eq of_int_sint)
  obtain m c where m: "setup_env_loop l a (a + of_nat (length xs)) True 0 s = Some (s\<lparr>mem := m, console := c\<rparr>)"
      "environ_holds m ?e a (length xs) (env_vars xs)"
      "\<And>x. \<not> within a (length xs + 1) x \<Longrightarrow> \<not> within ?e (8 * ?n) x \<Longrightarrow> m x = mem s x"
    using setup_env_loop_cstr[OF assms(1) refl assms(5) order_refl refl refl, of l] assms(6-8) by (auto simp: apart_def)
  have u: "unat (?e + 8 * of_nat ?n) = unat ?e + 8 * ?n" using assms(6,7) by (intro unat_slot) simp
  have "ld64 m (?e + 8 * of_nat ?n) = ld64 (\<lambda>_. 0) (?e + 8 * of_nat ?n)"
  proof (rule ld64_frame)
    fix x assume x: "within (?e + 8 * of_nat ?n) 8 x"
    have "m x = mem s x" using x u assms(6,8) by (intro m(3)) (auto simp: within_def apart_def)
    then show "m x = 0" using x u assms(6,9) by (auto simp: within_def)
  qed (use u assms(6,7) in simp)
  then have "ld64 m (?e + 8 * of_nat ?n) = 0" by (simp add: ld64_def)
  moreover have "m x = mem s x" if "\<not> within a (length xs + 1) x" "\<not> within ?e 1600 x" for x
    using that assms(6) by (intro m(3)) (auto simp: within_def)
  ultimately show ?thesis using m(1,2) skip_to_nul_cstr[OF assms(1)] by (auto simp: setup_env_def Let_def sc)
qed

lemma environ_getenv:
  assumes "environ_holds m e a n vs" "ld64 m (e + 8 * of_nat (length vs)) = 0" "\<forall>v\<in>set vs. 0x3d \<in> set v" "cstr m name key"
    "0 < unat a" "unat a + n < 2 ^ 63" "\<forall>v\<in>set vs. length v \<le> n"
  shows "\<exists>p. getenv m e name = Some p \<and> (case env_lookup vs key of None \<Rightarrow> p = 0 | Some v \<Rightarrow> p \<noteq> 0 \<and> cstr m p (var_value v))"
  unfolding getenv_def
proof (rule getenv_loop_lookup[OF _ _ assms(2-4)])
  show "\<forall>i<length vs. ld64 m (e + 8 * of_nat i) \<noteq> 0 \<and> unat (ld64 m (e + 8 * of_nat i)) + length (vs ! i) < 2 ^ 64"
  proof (intro allI impI)
    fix i assume i: "i < length vs"
    then have "within a n (ld64 m (e + 8 * of_nat i))" using assms(1) by (simp add: environ_holds_def)
    moreover have "length (vs ! i) \<le> n" using assms(7) i by simp
    ultimately show "ld64 m (e + 8 * of_nat i) \<noteq> 0 \<and> unat (ld64 m (e + 8 * of_nat i)) + length (vs ! i) < 2 ^ 64"
      using assms(5,6) by (auto simp: within_def)
  qed
qed (use assms(1) in \<open>simp add: environ_holds_def\<close>)

lemma env_lines_length: "\<forall>v\<in>set (env_lines xs). length v \<le> length xs"
proof (induction xs rule: env_lines.induct)
  case (1 xs)
  then show ?case
    using length_takeWhile_le[of "\<lambda>c. c \<noteq> 0x0a" xs] after_line_less[of xs]
    by (cases "xs = []") (simp_all add: env_lines.simps[of xs] env_lines.simps[of "[]"], fastforce)
qed

lemma memcpy_loop_apply:
  assumes "\<And>j k. j < i + n \<Longrightarrow> k < i + n \<Longrightarrow> a + of_nat j \<noteq> b + of_nat k" "i + n < 2 ^ 64"
  shows "memcpy_loop a b i n m x = (if \<exists>j. i \<le> j \<and> j < i + n \<and> x = a + of_nat j then m (b + (x - a)) else m x)"
  using assms
proof (induction a b i n m rule: memcpy_loop.induct)
  case (2 a b i n m)
  have inj: "a + of_nat i = a + of_nat j \<longleftrightarrow> i = j" if "j < i + Suc n" for j
    using of_nat_inj64[of i j] that "2.prems"(2) by simp
  have IH: "memcpy_loop a b (Suc i) n (m(a + of_nat i := m (b + of_nat i))) x =
      (if \<exists>j. Suc i \<le> j \<and> j < Suc i + n \<and> x = a + of_nat j then (m(a + of_nat i := m (b + of_nat i))) (b + (x - a))
       else (m(a + of_nat i := m (b + of_nat i))) x)"
    using "2.prems" by (intro "2.IH") simp_all
  show ?case
  proof (cases "\<exists>j. Suc i \<le> j \<and> j < Suc i + n \<and> x = a + of_nat j")
    case True
    then obtain j where j: "Suc i \<le> j" "j < Suc i + n" "x = a + of_nat j" by blast
    then have "b + (x - a) \<noteq> a + of_nat i" using "2.prems"(1)[of i j] by auto
    moreover have "\<exists>j. i \<le> j \<and> j < i + Suc n \<and> x = a + of_nat j" using j by (intro exI[of _ j]) simp
    ultimately show ?thesis using IH True by simp
  next
    case False
    then have "(\<exists>j. i \<le> j \<and> j < i + Suc n \<and> x = a + of_nat j) \<longleftrightarrow> x = a + of_nat i"
      by (metis Suc_leI add_Suc_right add_Suc le_eq_less_or_eq le_less_Suc_eq less_add_Suc1)
    then show ?thesis using IH False by auto
  qed
qed auto

lemma memcpy_apply:
  assumes "apart a (unat n) b (unat n)" "unat a + unat n < 2 ^ 64" "unat b + unat n < 2 ^ 64"
  shows "memcpy a b n m x = (if within a (unat n) x then m (b + (x - a)) else m x)"
proof -
  have ua: "unat (a + of_nat j) = unat a + j" "unat (b + of_nat j) = unat b + j" if "j < unat n" for j
    using that assms(2,3) by (auto intro!: unat_plus)
  have "a + of_nat j \<noteq> b + of_nat k" if "j < unat n" "k < unat n" for j k
    using ua(1)[OF that(1)] ua(2)[OF that(2)] that assms(1) by (auto simp: apart_def)
  then have "memcpy a b n m x = (if \<exists>j. j < unat n \<and> x = a + of_nat j then m (b + (x - a)) else m x)"
    unfolding memcpy_def using memcpy_loop_apply[of 0 "unat n" a b m x] by simp
  moreover have "(\<exists>j. j < unat n \<and> x = a + of_nat j) \<longleftrightarrow> within a (unat n) x"
  proof
    assume w: "within a (unat n) x"
    then have "unat (a + of_nat (unat x - unat a)) = unat x" using ua(1)[of "unat x - unat a"] by (auto simp: within_def)
    then show "\<exists>j. j < unat n \<and> x = a + of_nat j" using w
      by (intro exI[of _ "unat x - unat a"]) (auto simp: within_def word_unat_eq_iff)
  qed (use ua(1) in \<open>auto simp: within_def\<close>)
  ultimately show ?thesis by simp
qed





end
