(* ===== verification/Acpi.thy ===== *)
theory Acpi
  imports Memory
begin

text \<open>
  \<^verbatim>\<open>lib/x86/acpi.c\<close>: finding a table of the firmware. The fields of the structures of \<^verbatim>\<open>acpi.h\<close> are read at their offsets.
\<close>

definition ACPI_SIGNATURE :: "char \<Rightarrow> char \<Rightarrow> char \<Rightarrow> char \<Rightarrow> u32" where
  "ACPI_SIGNATURE c1 c2 c3 c4 = of_char c1 OR push_bit 8 (of_char c2) OR push_bit 16 (of_char c3) OR push_bit 24 (of_char c4)"

definition RSDP_SIGNATURE :: u32 where "RSDP_SIGNATURE = ACPI_SIGNATURE CHR ''R'' CHR ''S'' CHR ''D'' CHR ''P''"
definition RSDT_SIGNATURE :: u32 where "RSDT_SIGNATURE = ACPI_SIGNATURE CHR ''R'' CHR ''S'' CHR ''D'' CHR ''T''"
definition FACP_SIGNATURE :: u32 where "FACP_SIGNATURE = ACPI_SIGNATURE CHR ''F'' CHR ''A'' CHR ''C'' CHR ''P''"
definition FACS_SIGNATURE :: u32 where "FACS_SIGNATURE = ACPI_SIGNATURE CHR ''F'' CHR ''A'' CHR ''C'' CHR ''S''"

text \<open>\<^verbatim>\<open>struct rsdp_descriptor\<close>, the common header of the tables, and the two tables it is followed by fields in.\<close>

definition rsdp_signature :: "mem \<Rightarrow> u64 \<Rightarrow> u64" where "rsdp_signature m rsdp = ld64 m rsdp"
definition rsdt_physical_address :: "mem \<Rightarrow> u64 \<Rightarrow> u32" where "rsdt_physical_address m rsdp = ld32 m (rsdp + 16)"
definition table_signature :: "mem \<Rightarrow> u64 \<Rightarrow> u32" where "table_signature m t = ld32 m t"
definition table_length :: "mem \<Rightarrow> u64 \<Rightarrow> u32" where "table_length m t = ld32 m (t + 4)"
definition table_offset_entry :: "u64 \<Rightarrow> nat \<Rightarrow> u64" where "table_offset_entry rsdt i = rsdt + 36 + 4 * of_nat i"
definition firmware_ctrl :: "mem \<Rightarrow> u64 \<Rightarrow> u32" where "firmware_ctrl m fadt = ld32 m (fadt + 36)"

text \<open>The loop over the memory of the firmware: the address it stops at.\<close>

function rsdp_scan :: "mem \<Rightarrow> u64 \<Rightarrow> u64" where
  "rsdp_scan m a =
     (if a < 0x100000 then if rsdp_signature m a = 0x2052545020445352 then a else rsdp_scan m (a + 16) else a)"
  by pat_completeness auto
termination
proof (relation "measure (\<lambda>(m, a). 0x100010 - unat a)")
  fix m :: mem and a :: u64 assume a: "a < 0x100000"
  then have "unat a < 0x100000" by (simp add: word_less_nat_alt)
  moreover then have "unat (a + 16) = unat a + 16" by (simp add: unat_word_ariths)
  ultimately show "((m, a + 16), m, a) \<in> measure (\<lambda>(m, a). 0x100010 - unat a)" by simp
qed simp

declare rsdp_scan.simps [simp del]

partial_function (option) rsdt_loop :: "mem \<Rightarrow> u64 \<Rightarrow> u64 \<Rightarrow> u32 \<Rightarrow> nat \<Rightarrow> u64 option" where
  "rsdt_loop m rsdt end_ptr sig i =
     (if table_offset_entry rsdt i < end_ptr then
        let t = ucast (ld32 m (table_offset_entry rsdt i)) in
        if t \<noteq> 0 \<and> table_signature m t = sig then Some t else rsdt_loop m rsdt end_ptr sig (i + 1)
      else Some 0)"

partial_function (option) find_acpi_table_addr :: "u32 \<Rightarrow> 'a mstate_scheme \<Rightarrow> (u64 \<times> 'a mstate_scheme) option" where
  "find_acpi_table_addr sig s =
     (if sig = FACS_SIGNATURE then do {
        (fadt, s) \<leftarrow> find_acpi_table_addr FACP_SIGNATURE s;
        if fadt = 0 then Some (0, s) else Some (ucast (firmware_ctrl (mem s) fadt), s) }
      else
        let rsdp = rsdp_scan (mem s) 0xf0000 in
        if rsdp = 0x100000 then Some (0, kprintf (''Can'' @ [CHR 0x27] @ ''t find RSDP'' @ NL) [] s)
        else if sig = RSDP_SIGNATURE then Some (rsdp, s)
        else
          let rsdt = ucast (rsdt_physical_address (mem s) rsdp) in
          if rsdt = 0 \<or> table_signature (mem s) rsdt \<noteq> RSDT_SIGNATURE then Some (0, s)
          else if sig = RSDT_SIGNATURE then Some (rsdt, s)
          else do {
            t \<leftarrow> rsdt_loop (mem s) rsdt (rsdt + ucast (table_length (mem s) rsdt)) sig 0;
            Some (t, s) })"

section \<open>What it finds\<close>

definition null_or :: "u64 option \<Rightarrow> u64" where
  "null_or = case_option 0 id"

text \<open>The places the root pointer can be at, and the tables a root table lists.\<close>

definition rsdp_places :: "u64 list" where
  "rsdp_places = map (\<lambda>i. 0xf0000 + 16 * of_nat i) [0..<4096]"

definition listed_tables :: "mem \<Rightarrow> u64 \<Rightarrow> u64 list" where
  "listed_tables m rsdt = map (\<lambda>i. ucast (ld32 m (table_offset_entry rsdt i))) [0..<(unat (table_length m rsdt) + 3 - 36) div 4]"

definition acpi_root :: "mem \<Rightarrow> u64 option" where
  "acpi_root m = find (\<lambda>a. rsdp_signature m a = 0x2052545020445352) rsdp_places"

definition acpi_table :: "mem \<Rightarrow> u32 \<Rightarrow> u64 option" where
  "acpi_table m sig =
     (case acpi_root m of None \<Rightarrow> None
      | Some rsdp \<Rightarrow>
        if sig = RSDP_SIGNATURE then Some rsdp
        else
          let rsdt = ucast (rsdt_physical_address m rsdp) in
          if rsdt = 0 \<or> table_signature m rsdt \<noteq> RSDT_SIGNATURE then None
          else if sig = RSDT_SIGNATURE then Some rsdt
          else find (\<lambda>t. t \<noteq> 0 \<and> table_signature m t = sig) (listed_tables m rsdt))"

lemma rsdp_scan_find:
  "k \<le> 4096 \<Longrightarrow> rsdp_scan m (0xf0000 + 16 * of_nat k) =
    (case find (\<lambda>a. rsdp_signature m a = 0x2052545020445352) (map (\<lambda>i. 0xf0000 + 16 * of_nat i) [k..<4096]) of None \<Rightarrow> 0x100000 | Some a \<Rightarrow> a)"
proof (induction "4096 - k" arbitrary: k)
  case 0
  then have "k = 4096" by simp
  then show ?case by (subst rsdp_scan.simps) simp
next
  case (Suc n)
  then have k: "k < 4096" by simp
  then have "unat (0xf0000 + 16 * of_nat k :: u64) = 0xf0000 + 16 * k"
    by (simp add: unat_word_ariths unat_of_nat take_bit_nat_eq_self)
  then have "(0xf0000 + 16 * of_nat k :: u64) < 0x100000" using k by (simp add: word_less_nat_alt)
  moreover have "[k..<4096] = k # [Suc k..<4096]" using k by (rule upt_conv_Cons)
  ultimately show ?case using Suc.hyps(1)[of "Suc k"] Suc.hyps(2) k
    by (subst rsdp_scan.simps) (simp add: algebra_simps)
qed

lemma unat_less_32: "unat (x::u32) < 2 ^ 32"
  using unsigned_less[of x] by simp

lemma unat_ucast_32: "unat (ucast (x::u32) :: u64) = unat x"
  using unat_less_32[of x] by (simp add: unsigned_ucast_eq take_bit_nat_eq_self)

lemma rsdt_entry_less:
  assumes "unat rsdt < 2 ^ 32" "n = (unat (len :: u32) + 3 - 36) div 4" "i \<le> n"
  shows "table_offset_entry rsdt i < rsdt + ucast len \<longleftrightarrow> i < n"
proof -
  have l: "unat len < 2 ^ 32" by (rule unat_less_32)
  have e: "unat (rsdt + ucast len) = unat rsdt + unat len" using assms(1) l by (simp add: unat_word_ariths unat_ucast_32)
  have i: "4 * i \<le> unat len" using assms(2,3) by linarith
  have "unat (table_offset_entry rsdt i) = unat rsdt + 36 + 4 * i"
    unfolding table_offset_entry_def using assms(1) l i by (simp add: unat_word_ariths unat_of_nat take_bit_nat_eq_self)
  then have "table_offset_entry rsdt i < rsdt + ucast len \<longleftrightarrow> 36 + 4 * i < unat len" using e by (simp add: word_less_nat_alt)
  also have "\<dots> \<longleftrightarrow> i < n" using assms(2) by linarith
  finally show ?thesis .
qed

lemma rsdt_loop_find:
  assumes "unat rsdt < 2 ^ 32" "n = (unat (len :: u32) + 3 - 36) div 4" "i \<le> n"
  shows "rsdt_loop m rsdt (rsdt + ucast len) sig i =
    Some (null_or (find (\<lambda>t. t \<noteq> 0 \<and> table_signature m t = sig) (map (\<lambda>i. ucast (ld32 m (table_offset_entry rsdt i))) [i..<n])))"
  using assms(3)
proof (induction "n - i" arbitrary: i)
  case 0
  then show ?case using rsdt_entry_less[OF assms(1,2) "0.prems"] by (subst rsdt_loop.simps) (simp add: null_or_def)
next
  case (Suc k)
  then have i: "i < n" by simp
  then have "[i..<n] = i # [Suc i..<n]" by (rule upt_conv_Cons)
  then show ?case using Suc.hyps(1)[of "Suc i"] Suc.hyps(2) i rsdt_entry_less[OF assms(1,2) Suc.prems]
    by (subst rsdt_loop.simps) (simp add: Let_def null_or_def)
qed

lemma rsdp_scan_root: "rsdp_scan m 0xf0000 = (case acpi_root m of None \<Rightarrow> 0x100000 | Some a \<Rightarrow> a)"
  using rsdp_scan_find[of 0 m] by (simp add: acpi_root_def rsdp_places_def)

lemma acpi_root_less: "acpi_root m = Some a \<Longrightarrow> a \<noteq> 0x100000"
proof -
  assume "acpi_root m = Some a"
  then have "a \<in> set rsdp_places" by (auto simp: acpi_root_def find_Some_iff)
  then obtain i where i: "i < 4096" "a = 0xf0000 + 16 * of_nat i" by (auto simp: rsdp_places_def)
  then have "unat a = 0xf0000 + 16 * i" by (simp add: unat_word_ariths unat_of_nat take_bit_nat_eq_self)
  then show ?thesis using i(1) by auto
qed

lemma find_table_acpi:
  assumes "sig \<noteq> FACS_SIGNATURE"
  shows "\<exists>c. find_acpi_table_addr sig s = Some (null_or (acpi_table (mem s) sig), s\<lparr>console := console s @ c\<rparr>) \<and> (c = [] \<longleftrightarrow> acpi_root (mem s) \<noteq> None)"
proof (cases "acpi_root (mem s)")
  case None
  then show ?thesis using assms
    by (subst find_acpi_table_addr.simps) (simp add: rsdp_scan_root acpi_table_def null_or_def kprintf_def, blast)
next
  case (Some rsdp)
  let ?rsdt = "ucast (rsdt_physical_address (mem s) rsdp) :: u64"
  have "unat ?rsdt < 2 ^ 32" unfolding unat_ucast_32 by (rule unat_less_32)
  note l = rsdt_loop_find[OF this refl le0]
  show ?thesis using assms Some acpi_root_less[OF Some]
    by (subst find_acpi_table_addr.simps)
       (auto simp: rsdp_scan_root acpi_table_def null_or_def Let_def l listed_tables_def split: option.split intro: exI[of _ "[]"])
qed

text \<open>C32: \<^verbatim>\<open>find_acpi_table_addr\<close> always returns, with the address the firmware gives for the table, NULL when there is none:
  the root pointer is at the first place with its signature, the root table where the pointer says if it
  has its own, any other table is the first one listed with the signature asked for, and the FACS is where the
  FACP says. Memory is only read, and the one message printed is that there is no root pointer.\<close>

theorem find_acpi_table_addr_correct:
  "\<exists>c. find_acpi_table_addr sig s =
    Some (if sig = FACS_SIGNATURE
          then (case acpi_table (mem s) FACP_SIGNATURE of None \<Rightarrow> 0 | Some fadt \<Rightarrow> ucast (firmware_ctrl (mem s) fadt))
          else (case acpi_table (mem s) sig of None \<Rightarrow> 0 | Some t \<Rightarrow> t), s\<lparr>console := console s @ c\<rparr>) \<and>
    (c = [] \<longleftrightarrow> acpi_root (mem s) \<noteq> None)"
proof -
  have ne: "FACP_SIGNATURE \<noteq> FACS_SIGNATURE" by (simp add: FACP_SIGNATURE_def FACS_SIGNATURE_def ACPI_SIGNATURE_def of_char_def)
  obtain c where c: "find_acpi_table_addr FACP_SIGNATURE s = Some (null_or (acpi_table (mem s) FACP_SIGNATURE), s\<lparr>console := console s @ c\<rparr>)"
      "c = [] \<longleftrightarrow> acpi_root (mem s) \<noteq> None" using find_table_acpi[OF ne] by blast
  have nz: "acpi_table (mem s) sig \<noteq> Some 0" if "sig \<noteq> RSDP_SIGNATURE" for sig
    using that by (auto simp: acpi_table_def Let_def find_Some_iff split: option.splits if_splits)
  have fp: "FACP_SIGNATURE \<noteq> RSDP_SIGNATURE" by (simp add: FACP_SIGNATURE_def RSDP_SIGNATURE_def ACPI_SIGNATURE_def of_char_def)
  show ?thesis
  proof (cases "sig = FACS_SIGNATURE")
    case True
    have "find_acpi_table_addr sig s = Some ((case acpi_table (mem s) FACP_SIGNATURE of None \<Rightarrow> 0
        | Some fadt \<Rightarrow> ucast (firmware_ctrl (mem s) fadt)), s\<lparr>console := console s @ c\<rparr>)"
      using c(1) nz[of FACP_SIGNATURE] fp True
      by (subst find_acpi_table_addr.simps) (auto simp: null_or_def split: option.split)
    then show ?thesis using c(2) True by auto
  next
    case False
    then show ?thesis using find_table_acpi[OF False, of s] by (auto simp: null_or_def id_def split: option.split)
  qed
qed

end
