(* ===== verification/Isr.thy ===== *)
theory Isr
  imports Desc_Props Strings
begin

text \<open>
  \<^verbatim>\<open>lib/x86/isr.c\<close> in the 64-bit build: handlers of interrupts. \<^verbatim>\<open>handle_irq\<close> writes four instructions into memory; what
  they do is the step function of the processor on them. \<^verbatim>\<open>delay\<close> of \<^verbatim>\<open>lib/x86/delay.c\<close> is here too.
\<close>

section \<open>Definitions\<close>

text \<open>\<^verbatim>\<open>isr_entry_point\<close> is the address of the code below.\<close>

definition handle_irq :: "u64 \<Rightarrow> u32 \<Rightarrow> u64 \<Rightarrow> 'a desc_state_scheme \<Rightarrow> 'a desc_state_scheme option" where
  "handle_irq isr_entry_point vec func s = do {
     (thunk, s) \<leftarrow> malloc (current_ops s) 50 s;
     s \<leftarrow> set_idt_entry (sint vec) thunk 0 s;
     let m = write_bytes (mem s) thunk [0x48, 0x83, 0xec, 0x08];
     let m = write_bytes m (thunk + 4) [0xc7, 0x04, 0x24];
     let m = st32 m (thunk + 7) (ucast func);
     let m = write_bytes m (thunk + 11) [0xc7, 0x44, 0x24, 0x04];
     let m = st32 m (thunk + 15) (ucast (drop_bit 32 func));
     let m = write_bytes m (thunk + 19) [0xe9];
     let m = st32 m (thunk + 20) (ucast (isr_entry_point - (thunk + 20 + 4)));
     Some (s\<lparr>mem := m\<rparr>) }"

text \<open>The code at \<^verbatim>\<open>isr_entry_point\<close>: the sixteen registers are pushed on top of the function the thunk stored and what the
  processor pushed, the function is called with a pointer to them, and they are popped again; the slot of the
  stack pointer is popped into \<^verbatim>\<open>rbp\<close> and overwritten by the next pop. Words are listed from the stack pointer
  upwards; they are the fields of \<^verbatim>\<open>isr_regs_t\<close>.\<close>

definition isr_frame :: "u64 \<Rightarrow> ex_regs \<Rightarrow> u64 list" where
  "isr_frame func r = List.rev ([ex_rflags r, ex_cs r, ex_rip r] @ [func] @
     [ex_r15 r, ex_r14 r, ex_r13 r, ex_r12 r, ex_r11 r, ex_r10 r, ex_r9 r, ex_r8 r] @
     [ex_rdi r, ex_rsi r, ex_rbp r, ex_dummy r, ex_rbx r, ex_rdx r, ex_rcx r, ex_rax r])"

definition isr_pops :: "u64 list \<Rightarrow> ex_regs \<Rightarrow> ex_regs" where
  "isr_pops w r = r\<lparr>ex_rax := w ! 0, ex_rcx := w ! 1, ex_rdx := w ! 2, ex_rbx := w ! 3, ex_rbp := w ! 5, ex_rsi := w ! 6, ex_rdi := w ! 7,
     ex_r8 := w ! 8, ex_r9 := w ! 9, ex_r10 := w ! 10, ex_r11 := w ! 11, ex_r12 := w ! 12, ex_r13 := w ! 13, ex_r14 := w ! 14,
     ex_r15 := w ! 15, ex_rip := w ! 17, ex_cs := w ! 18, ex_rflags := w ! 19\<rparr>"

definition isr_entry :: "(u64 \<Rightarrow> u64 list \<Rightarrow> 's \<Rightarrow> u64 list \<times> ex_regs \<times> 's) \<Rightarrow> u64 \<Rightarrow> ex_regs \<Rightarrow> 's \<Rightarrow> ex_regs \<times> 's" where
  "isr_entry call func r s = (let w = isr_frame func r; (w, r, s) = call (w ! 16) w s in (isr_pops w r, s))"

text \<open>\<^verbatim>\<open>handle_external_interrupt\<close>: the assembly aligns the stack and pushes what the processor would push, then calls the
  entry; \<open>ret\<close> is the return address of the call. The result is the entry, the stack pointer and the memory there.\<close>

definition pushq :: "u64 \<Rightarrow> u64 \<times> mem \<Rightarrow> u64 \<times> mem" where
  "pushq v = (\<lambda>(sp, m). (sp - 8, st64 m (sp - 8) v))"

definition handle_external_interrupt ::
  "nat \<Rightarrow> u64 \<Rightarrow> u64 \<Rightarrow> u64 \<Rightarrow> 'a desc_state_scheme \<Rightarrow> (u64 \<times> u64 \<times> mem) option" where
  "handle_external_interrupt vector rsp flags ret s = do {
     c_assert (vector < length (boot_idt s));
     let idt = boot_idt s ! vector;
     let entry = ucast (offset0 idt) OR push_bit 16 (ucast (offset1 idt));
     let entry = entry OR push_bit 32 (ucast (offset2 idt));
     let sp = rsp;
     let k = (rsp AND 0xfffffffffffffff0, mem s);
     let k = pushq KERNEL_DS k;
     let k = pushq sp k;
     let (rsp, m) = pushq flags k;
     let k = (rsp, st32 m rsp (ld32 m rsp OR 0x200));
     let k = pushq KERNEL_CS k;
     let (rsp, m) = pushq ret k;
     Some (entry, rsp, m) }"

function delay :: "u64 \<Rightarrow> 'a cpu_state_scheme \<Rightarrow> 'a cpu_state_scheme" where
  "delay count s = (if count \<noteq> 0 then delay (count - 1) (hw_write (Insn ''pause'') s) else s)"
  by pat_completeness auto
termination
  by (relation "measure (\<lambda>(count, s). unat count)") (auto simp: unat_minus_one unat_gt_0)

declare delay.simps [simp del]

section \<open>What the instructions do\<close>

text \<open>The processor on the instructions of the thunk: instruction pointer, stack pointer and memory.\<close>

definition insn_step :: "u64 \<times> u64 \<times> mem \<Rightarrow> (u64 \<times> u64 \<times> mem) option" where
  "insn_step = (\<lambda>(ip, sp, m).
     if m ip = 0x48 \<and> m (ip + 1) = 0x83 \<and> m (ip + 2) = 0xec then Some (ip + 4, sp - scast (m (ip + 3)), m)
     else if m ip = 0xc7 \<and> m (ip + 1) = 0x04 \<and> m (ip + 2) = 0x24 then Some (ip + 7, sp, st32 m sp (ld32 m (ip + 3)))
     else if m ip = 0xc7 \<and> m (ip + 1) = 0x44 \<and> m (ip + 2) = 0x24
     then Some (ip + 8, sp, st32 m (sp + scast (m (ip + 3))) (ld32 m (ip + 4)))
     else if m ip = 0xe9 then Some (ip + 5 + scast (ld32 m (ip + 1)), sp, m)
     else None)"

lemma octets32:
  "ucast (ucast (v::u32) :: u8) OR push_bit 8 (ucast (ucast (drop_bit 8 v) :: u8)) OR push_bit 16 (ucast (ucast (drop_bit 16 v) :: u8)) OR
    push_bit 24 (ucast (ucast (drop_bit 24 v) :: u8)) = v" (is "?l = v")
proof (rule bit_word_eqI)
  fix n assume "n < LENGTH(32)"
  then consider "n < 8" | "8 \<le> n" "n < 16" | "16 \<le> n" "n < 24" | "24 \<le> n" "n < 32" by (simp, linarith)
  then show "bit ?l n = bit v n" by cases (simp_all add: bit_simps less_diff_conv2)
qed

lemma st32_other: "4 \<le> x - a \<Longrightarrow> st32 m a v x = m x"
  by (auto simp: st32_def word_le_nat_alt)

lemma ld32_frame: "(\<And>i. i < 4 \<Longrightarrow> m' (a + i) = m (a + i)) \<Longrightarrow> ld32 m' a = ld32 m a"
proof -
  assume *: "\<And>i. i < 4 \<Longrightarrow> m' (a + i) = m (a + i)"
  show ?thesis using *[of 0] *[of 1] *[of 2] *[of 3] by (simp add: ld32_def)
qed

text \<open>The two halves of a word.\<close>

lemma st64_halves: "st32 (st32 m a (ucast v)) (a + 4) (ucast (drop_bit 32 v)) = st64 m a v"
proof -
  have "ucast (ucast v :: u32) = (ucast v :: u8)" "ucast (drop_bit 8 (ucast v :: u32)) = (ucast (drop_bit 8 v) :: u8)"
    "ucast (drop_bit 16 (ucast v :: u32)) = (ucast (drop_bit 16 v) :: u8)" "ucast (drop_bit 24 (ucast v :: u32)) = (ucast (drop_bit 24 v) :: u8)"
    "ucast (ucast (drop_bit 32 v) :: u32) = (ucast (drop_bit 32 v) :: u8)" "ucast (drop_bit 8 (ucast (drop_bit 32 v) :: u32)) = (ucast (drop_bit 40 v) :: u8)"
    "ucast (drop_bit 16 (ucast (drop_bit 32 v) :: u32)) = (ucast (drop_bit 48 v) :: u8)"
    "ucast (drop_bit 24 (ucast (drop_bit 32 v) :: u32)) = (ucast (drop_bit 56 v) :: u8)"
    by (rule bit_word_eqI; simp add: bit_simps)+
  then show ?thesis by (simp add: st32_def st64_def add.assoc)
qed


definition thunk_mem :: "u64 \<Rightarrow> u64 \<Rightarrow> u64 \<Rightarrow> mem \<Rightarrow> mem" where
  "thunk_mem entry func p m =
     st32 (write_bytes (st32 (write_bytes (st32 (write_bytes (write_bytes m p [0x48, 0x83, 0xec, 0x08]) (p + 4) [0xc7, 0x04, 0x24]) (p + 7) (ucast func))
       (p + 11) [0xc7, 0x44, 0x24, 0x04]) (p + 15) (ucast (drop_bit 32 func))) (p + 19) [0xe9]) (p + 20) (ucast (entry - (p + 24)))"

lemma thunk_code:
  "thunk_mem entry func p m p = 0x48" "thunk_mem entry func p m (p + 1) = 0x83" "thunk_mem entry func p m (p + 2) = 0xec"
  "thunk_mem entry func p m (p + 3) = 0x08" "thunk_mem entry func p m (p + 4) = 0xc7" "thunk_mem entry func p m (p + 5) = 0x04"
  "thunk_mem entry func p m (p + 6) = 0x24" "thunk_mem entry func p m (p + 11) = 0xc7" "thunk_mem entry func p m (p + 12) = 0x44"
  "thunk_mem entry func p m (p + 13) = 0x24" "thunk_mem entry func p m (p + 14) = 0x04" "thunk_mem entry func p m (p + 19) = 0xe9"
  by (simp_all add: thunk_mem_def st32_def add.assoc)

lemma thunk_operands:
  "ld32 (thunk_mem entry func p m) (p + 7) = ucast func" "ld32 (thunk_mem entry func p m) (p + 15) = ucast (drop_bit 32 func)"
  "ld32 (thunk_mem entry func p m) (p + 20) = ucast (entry - (p + 24))"
  by (simp_all add: thunk_mem_def st32_def ld32_def add.assoc octets32)

text \<open>Four instructions lead from the thunk to the entry point, with the function on the stack.\<close>

definition run_thunk :: "u64 \<Rightarrow> u64 \<Rightarrow> mem \<Rightarrow> (u64 \<times> u64 \<times> mem) option" where
  "run_thunk ip sp m = do { k \<leftarrow> insn_step (ip, sp, m); k \<leftarrow> insn_step k; k \<leftarrow> insn_step k; insn_step k }"

lemma run_thunk_enters:
  assumes "M = thunk_mem entry func p m" "\<And>i. i < 24 \<Longrightarrow> 8 \<le> p + i - (sp - 8)"
    "(scast (ucast (entry - (p + 24)) :: u32) :: u64) = entry - (p + 24)"
  shows "run_thunk p sp M = Some (entry, sp - 8, st64 M (sp - 8) func)"
proof -
  let ?m1 = "st32 M (sp - 8) (ucast func)"
  let ?m2 = "st32 ?m1 (sp - 8 + 4) (ucast (drop_bit 32 func))"
  have m2: "?m2 = st64 M (sp - 8) func" by (rule st64_halves)
  have f1: "?m1 (p + i) = M (p + i)" and f2: "?m2 (p + i) = M (p + i)" if "i < 24" for i
  proof -
    have "8 \<le> p + i - (sp - 8)" by (rule assms(2)[OF that])
    then show "?m1 (p + i) = M (p + i)" "?m2 (p + i) = M (p + i)"
      unfolding m2 by (auto intro!: st32_other st64_other simp: word_le_nat_alt)
  qed
  have l1: "ld32 ?m1 (p + 15) = ld32 M (p + 15)" and l2: "ld32 ?m2 (p + 20) = ld32 M (p + 20)"
    using f1[of 15] f1[of 16] f1[of 17] f1[of 18] f2[of 20] f2[of 21] f2[of 22] f2[of 23] by (simp_all add: ld32_def add.assoc)
  have e8: "(scast (0x08::u8) :: u64) = 8" "(scast (0x04::u8) :: u64) = 4" by simp_all
  note c = thunk_code[of entry func p m, folded assms(1)] and o = thunk_operands[of entry func p m, folded assms(1)]
  have 1: "insn_step (p, sp, M) = Some (p + 4, sp - 8, M)"
    by (simp add: insn_step_def c e8)
  have 2: "insn_step (p + 4, sp - 8, M) = Some (p + 11, sp - 8, ?m1)"
    by (simp add: insn_step_def add.assoc c o)
  have 3: "insn_step (p + 11, sp - 8, ?m1) = Some (p + 19, sp - 8, ?m2)"
    using f1[of 11] f1[of 12] f1[of 13] f1[of 14] l1 by (simp add: insn_step_def add.assoc c o)
  have 4: "insn_step (p + 19, sp - 8, ?m2) = Some (entry, sp - 8, ?m2)"
    using f2[of 19] l2 assms(3) by (simp add: insn_step_def add.assoc c o)
  show ?thesis using 1 2 3[unfolded m2] 4[unfolded m2] by (simp add: run_thunk_def)
qed


section \<open>Interrupts\<close>

lemma sint_nonneg: "unat (x::u32) < 2 ^ 31 \<Longrightarrow> sint x = int (unat x)"
proof -
  assume "unat x < 2 ^ 31"
  then have "int (unat x) < int (2 ^ 31)" by (simp only: of_nat_less_iff)
  moreover have "- (2 ^ 31) \<le> uint x" by (rule order_trans[OF _ uint_ge_0]) simp
  ultimately show ?thesis by (simp add: sint_uint signed_take_bit_int_eq_self)
qed

text \<open>C38: \<^verbatim>\<open>handle_irq\<close> installs the function as the handler of a vector. When memory for the thunk is there, the entry point
  within two gigabytes of it and the stack elsewhere, the gate of the vector leads to code that reaches the entry
  point with the function on top of what the processor pushed; the entry point calls that function with
  the registers and afterwards the interrupted code goes on with every register the function left in the
  frame, as it was.\<close>

theorem handle_irq_installs:
  assumes "malloc (current_ops s) 50 s = Some (p, s1)" "desc_ok s1" "unat vec < 256"
    "(scast (ucast (entry - (p + 24)) :: u32) :: u64) = entry - (p + 24)" "\<forall>i<24. 8 \<le> p + i - (sp - 8)"
  shows "\<exists>s'. handle_irq entry vec func s = Some s' \<and> interrupt_gate p (cs_reg s1) 0 (boot_idt s' ! unat vec) \<and>
    (\<forall>v < 256. v \<noteq> unat vec \<longrightarrow> boot_idt s' ! v = boot_idt s1 ! v) \<and>
    run_thunk p sp (mem s') = Some (entry, sp - 8, st64 (mem s') (sp - 8) func) \<and>
    (\<forall>x. 24 \<le> x - p \<longrightarrow> mem s' x = mem s1 x) \<and>
    (\<forall>call r t. snd (isr_entry call func r t) = snd (snd (call func (isr_frame func r) t)) \<and>
       (fst (call func (isr_frame func r) t) = isr_frame func r \<longrightarrow>
        fst (isr_entry call func r t) = (fst (snd (call func (isr_frame func r) t)))
          \<lparr>ex_rax := ex_rax r, ex_rcx := ex_rcx r, ex_rdx := ex_rdx r, ex_rbx := ex_rbx r, ex_rbp := ex_rbp r, ex_rsi := ex_rsi r,
           ex_rdi := ex_rdi r, ex_r8 := ex_r8 r, ex_r9 := ex_r9 r, ex_r10 := ex_r10 r, ex_r11 := ex_r11 r, ex_r12 := ex_r12 r,
           ex_r13 := ex_r13 r, ex_r14 := ex_r14 r, ex_r15 := ex_r15 r, ex_rip := ex_rip r, ex_cs := ex_cs r, ex_rflags := ex_rflags r\<rparr>))"
proof -
  have "sint vec = int (unat vec)" using assms(3) by (intro sint_nonneg) simp
  then have v: "0 \<le> sint vec" "nat (sint vec) = unat vec" "unat vec < length (boot_idt s1)" using assms(2,3) by (simp_all add: desc_ok_def)
  let ?t = "(boot_idt s1)[unat vec := new_gate p (cs_reg s1) 0]"
  let ?s' = "s1\<lparr>boot_idt := ?t, mem := thunk_mem entry func p (mem s1)\<rparr>"
  have run: "handle_irq entry vec func s = Some ?s'"
    using assms(1) set_idt_entry_gate[of "sint vec" s1 p 0] v by (simp add: handle_irq_def thunk_mem_def Let_def add.assoc)
  have "run_thunk p sp (mem ?s') = Some (entry, sp - 8, st64 (mem ?s') (sp - 8) func)"
    using assms(4,5) by (intro run_thunk_enters[where m = "mem s1" and M = "mem ?s'"]) simp_all
  moreover have "mem ?s' x = mem s1 x" if "24 \<le> x - p" for x
    using that by (auto simp: thunk_mem_def st32_def word_le_nat_alt add.assoc)
  moreover have "isr_frame func r ! 16 = func" for r by (simp add: isr_frame_def)
  ultimately show ?thesis using run v(3) new_gate_interrupt[of p "cs_reg s1" 0]
    by (intro exI[of _ ?s']) (auto simp: isr_entry_def isr_pops_def isr_frame_def Let_def split_def)
qed


lemma bit_200: "bit (0x200::'a::len word) n \<longleftrightarrow> n = 9 \<and> 9 < LENGTH('a)"
proof -
  have e: "(0x200::'a word) = push_bit 9 1" by (simp add: push_bit_eq_mult)
  show ?thesis unfolding e bit_push_bit_iff bit_1_iff possible_bit_word by auto
qed

lemma ld32_st64: "ld32 (st64 m a v) a = ucast v"
  unfolding st64_halves[symmetric] by (simp add: ld32_def st32_def add.assoc octets32)

lemma st32_or_flag: "st32 (st64 m a v) a (ld32 (st64 m a v) a OR 0x200) = st64 m a (v OR 0x200)"
proof -
  have "ucast (drop_bit 32 (v OR 0x200)) = (ucast (drop_bit 32 v) :: u32)" "ucast v OR 0x200 = (ucast (v OR 0x200) :: u32)"
    by (rule bit_word_eqI; auto simp: bit_simps bit_200)+
  then show ?thesis unfolding ld32_st64 by (simp add: st64_halves[symmetric] st32_def fun_upd_twist add.assoc)
qed

lemma stack_aligned: "aligned 3 (sp AND 0xfffffffffffffff0)"
proof -
  have e: "(0xfffffffffffffff0::u64) = push_bit 4 (mask 60)" by (simp add: push_bit_eq_mult mask_eq_exp_minus_1)
  show ?thesis unfolding e aligned_def by (rule bit_word_eqI) (auto simp: bit_simps)
qed

lemma entry_of_gate: "(ucast (offset0 (new_gate a cs pl)) OR push_bit 16 (ucast (offset1 (new_gate a cs pl))) OR push_bit 32 (ucast (offset2 (new_gate a cs pl))) :: u64) = a"
proof (rule bit_word_eqI)
  fix n assume "n < LENGTH(64)"
  then consider "n < 16" | "16 \<le> n" "n < 32" | "32 \<le> n" "n < 64" by (simp, linarith)
  then show "bit ((ucast (offset0 (new_gate a cs pl)) OR push_bit 16 (ucast (offset1 (new_gate a cs pl))) OR push_bit 32 (ucast (offset2 (new_gate a cs pl)))) :: u64) n = bit a n"
    by cases (auto simp: new_gate_def bit_simps less_diff_conv2)
qed

text \<open>The frame \<^verbatim>\<open>handle_external_interrupt\<close> makes is the one of an interrupt: the return address, the code segment, the flags
  with interrupts enabled, the stack pointer of the caller and its segment, so that the handler's return restores the
  caller's stack.\<close>

theorem handle_external_interrupt_frame:
  assumes "vector < length (boot_idt s)" "boot_idt s ! vector = new_gate a cs pl"
  shows "\<exists>sp m. handle_external_interrupt vector rsp flags ret s = Some (a, sp, m) \<and> sp = (rsp AND 0xfffffffffffffff0) - 40 \<and>
    map (\<lambda>i. ld64 m (sp + 8 * of_nat i)) [0..<5] = [ret, KERNEL_CS, flags OR 0x200, rsp, KERNEL_DS] \<and>
    (\<forall>x. 40 \<le> x - sp \<longrightarrow> m x = mem s x)"
proof -
  define b where "b = (rsp AND 0xfffffffffffffff0) - 40"
  have al: "aligned 3 b" "aligned 3 (b + 8)" "aligned 3 (b + 16)" "aligned 3 (b + 24)" "aligned 3 (b + 32)"
  proof -
    have "b = (rsp AND 0xfffffffffffffff0) + 8 * (- 5)" by (simp add: b_def)
    moreover have "aligned 3 ((rsp AND 0xfffffffffffffff0) + 8 * (- 5))" by (rule aligned_add[OF stack_aligned aligned_mult_8]) simp
    ultimately show b: "aligned 3 b" by (simp only:)
    show "aligned 3 (b + 8)" "aligned 3 (b + 16)" "aligned 3 (b + 24)" "aligned 3 (b + 32)"
      using b aligned_mult_8[of 1] aligned_mult_8[of 2] aligned_mult_8[of 3] aligned_mult_8[of 4] by (simp_all add: aligned_add)
  qed
  let ?m = "st64 (st64 (st64 (st64 (st64 (mem s) (b + 32) KERNEL_DS) (b + 24) rsp) (b + 16) (flags OR 0x200)) (b + 8) KERNEL_CS) b ret"
  have "handle_external_interrupt vector rsp flags ret s = Some (a, b, ?m)"
    using assms entry_of_gate[of a cs pl]
    by (simp add: handle_external_interrupt_def pushq_def Let_def st32_or_flag b_def or.assoc)
  moreover have "map (\<lambda>i. ld64 ?m (b + 8 * of_nat i)) [0..<5] = [ret, KERNEL_CS, flags OR 0x200, rsp, KERNEL_DS]"
    using al by (simp add: upt_rec ld64_st64)
  moreover have "?m x = mem s x" if "40 \<le> x - b" for x
    using that by (auto simp: st64_def word_le_nat_alt add.assoc)
  ultimately show ?thesis unfolding b_def[symmetric] by (intro exI[of _ b] exI[of _ ?m]) simp
qed


section \<open>A machine\<close>

definition irq_machine :: desc_state where
  "irq_machine = desc_machine\<lparr>phys_base := 0x100000, phys_top := 0x200000\<rparr>"

lemma irq_machine_malloc: "\<exists>s1. malloc (current_ops irq_machine) 50 irq_machine = Some (0x100010, s1) \<and> desc_ok s1 \<and> cs_reg s1 = 8"
proof -
  have f: "alloc_ops_var irq_machine = EarlyOps" "early_align_min irq_machine = 32" "phys_lock irq_machine = 0" "phys_base irq_machine = 0x100000"
    "phys_top irq_machine = 0x200000" "nr_regions irq_machine = 0" "length (regions irq_machine) = 256"
    by (simp_all add: irq_machine_def desc_machine_def stack_machine_def vm_machine_def phys_machine_def stack_state.extend_def
      apic_state.extend_def vm_state.extend_def phys_state.extend_def vmx_state.extend_def)
  have ok: "desc_ok irq_machine" "cs_reg irq_machine = 8" using desc_machine_ok(1,3) by (simp_all add: irq_machine_def desc_ok_def)
  show ?thesis using f ok
    by (simp add: malloc_def memalign_def current_ops_def early_ops_def memalign_request_def METADATA_EXTRA_def ALIGN_def ALIGN_MASK_def
      early_memalign_def phys_alloc_aligned_safe_def phys_spin_lock_def phys_spin_unlock_def log_region_def Let_def max_def
      INVALID_PHYS_ADDR_def PHYS_ALLOC_NR_REGIONS_def desc_ok_def)
qed


theorem handle_irq_installs_witness:
  "\<exists>s'. handle_irq 0x400000 0x30 0x123456789 irq_machine = Some s' \<and> interrupt_gate 0x100010 8 0 (boot_idt s' ! 0x30) \<and>
    run_thunk 0x100010 0x80000 (mem s') = Some (0x400000, 0x7fff8, st64 (mem s') 0x7fff8 0x123456789)"
proof -
  obtain s1 where s1: "malloc (current_ops irq_machine) 50 irq_machine = Some (0x100010, s1)" "desc_ok s1" "cs_reg s1 = 8"
    using irq_machine_malloc by blast
  have "8 \<le> 0x100010 + i - (0x80000 - 8)" if "i < 24" for i :: u64
    using that by (simp add: word_le_nat_alt word_less_nat_alt unat_word_ariths)
  then have st: "\<forall>i<24. 8 \<le> 0x100010 + i - (0x80000 - 8 :: u64)" by blast
  have near: "(scast (ucast (0x400000 - (0x100010 + 24) :: u64) :: u32) :: u64) = 0x400000 - (0x100010 + 24)" by simp
  have v: "unat (0x30::u32) < 256" by simp
  show ?thesis using handle_irq_installs[OF s1(1,2) v near st, of "0x123456789"] s1(3) by auto
qed

end
