(* ===== verification/Usermode.thy ===== *)
theory Usermode
  imports Desc_Props
begin

text \<open>
  \<^verbatim>\<open>lib/x86/usermode.c\<close> and \<^verbatim>\<open>lib/x86/fault_test.c\<close>: running a function in user mode, and testing whether it faults. The function is a
  parameter, given by the exceptions it runs into and the value it returns; the assembly that changes the privilege
  level around it is in \<open>Usermode_Asm\<close>. \<^verbatim>\<open>setjmp\<close> and \<^verbatim>\<open>longjmp\<close> are the end of the run at the address the
  handlers resume at. What \<^verbatim>\<open>test_run\<close> prints is a matter of \<^verbatim>\<open>report\<close>; it is given as an argument.
\<close>

section \<open>Definitions\<close>

definition RET_TO_KERNEL_IRQ :: int where "RET_TO_KERNEL_IRQ = 0x20"

datatype 's user_run = UReturns u64 's | URaises ex_regs 's "ex_regs \<Rightarrow> 's \<Rightarrow> 's user_run"

primrec run_to_jmpbuf ::
  "'a desc_state_scheme desc_env \<Rightarrow> 'a desc_state_scheme user_run \<Rightarrow> (u64 option \<times> 'a desc_state_scheme) option" where
  "run_to_jmpbuf env (UReturns v s) = Some (Some v, s)"
| "run_to_jmpbuf env (URaises regs s k) =
     (case do_handle_exception env regs s of
        Inl _ \<Rightarrow> None
      | Inr (regs', s') \<Rightarrow> if ex_rip regs' = restore_addr env then Some (None, s') else run_to_jmpbuf env (k regs' s'))"

text \<open>The result: the value returned, \<^verbatim>\<open>*raised_vector\<close>, the state.\<close>

definition run_in_user ::
  "'a desc_state_scheme desc_env \<Rightarrow> u64 \<Rightarrow> (u64 list \<Rightarrow> 'a desc_state_scheme \<Rightarrow> 'a desc_state_scheme user_run) \<Rightarrow> u32 \<Rightarrow> u64 list \<Rightarrow>
     'a desc_state_scheme \<Rightarrow> (u64 \<times> bool \<times> 'a desc_state_scheme) option" where
  "run_in_user env ret_to_kernel func fault_vector args s = do {
     s \<leftarrow> set_idt_entry RET_TO_KERNEL_IRQ ret_to_kernel 3 s;
     (old, s) \<leftarrow> handle_exception (ucast fault_vector) (Some RestoreExecHandler) s;
     (r, s) \<leftarrow> run_to_jmpbuf env (func args s);
     (case r of None \<Rightarrow> Some (0, True, s) | Some val \<Rightarrow> Some (val, False, s)) }"

record fault_test_arg =
  usermode :: bool
  fault_vector :: u32
  should_fault :: bool
  ft_arg :: "u64 list"
  retval :: u64

record 's fault_test_t =
  ft_name :: string
  ft_args :: fault_test_arg
  ft_func :: "u64 list \<Rightarrow> 's \<Rightarrow> 's user_run"
  ft_callback :: "(fault_test_arg \<Rightarrow> 's \<Rightarrow> bool \<times> fault_test_arg \<times> 's) option"

definition fault_test ::
  "'a desc_state_scheme desc_env \<Rightarrow> u64 \<Rightarrow> 'a desc_state_scheme fault_test_t \<Rightarrow> 'a desc_state_scheme \<Rightarrow>
     (bool \<times> fault_test_arg \<times> 'a desc_state_scheme) option" where
  "fault_test env ret_to_kernel t s = do {
     let arg = ft_args t;
     (val, raised_vector, s) \<leftarrow>
       (if usermode arg then run_in_user env ret_to_kernel (ft_func t) (fault_vector arg) (ft_arg arg) s
        else do {
          (old, s) \<leftarrow> handle_exception (ucast (fault_vector arg)) (Some FaultTestFault) s;
          (r, s) \<leftarrow> run_to_jmpbuf env (ft_func t (ft_arg arg) s);
          (case r of Some v \<Rightarrow> Some (v, False, s) | None \<Rightarrow> Some (0, True, s)) });
     (callback_success, arg, s) \<leftarrow>
       (if \<not> raised_vector then
          let arg = arg\<lparr>retval := val\<rparr>
          in (case ft_callback t of Some cb \<Rightarrow> Some (cb arg s) | None \<Rightarrow> Some (True, arg, s))
        else Some (True, arg, s));
     Some (if should_fault arg then raised_vector else \<not> raised_vector \<and> callback_success, arg, s) }"

definition test_run ::
  "(string \<Rightarrow> bool \<Rightarrow> parg list \<Rightarrow> 'a desc_state_scheme \<Rightarrow> 'a desc_state_scheme option) \<Rightarrow> 'a desc_state_scheme desc_env \<Rightarrow> u64 \<Rightarrow>
     'a desc_state_scheme fault_test_t \<Rightarrow> 'a desc_state_scheme \<Rightarrow> ('a desc_state_scheme fault_test_t \<times> 'a desc_state_scheme) option" where
  "test_run report env ret_to_kernel t s = do {
     (passed, arg, s) \<leftarrow> fault_test env ret_to_kernel t s;
     s \<leftarrow> report ''%s'' passed [PStr (ft_name t)] s;
     Some (t\<lparr>ft_args := arg\<rparr>, s) }"

section \<open>The verdict\<close>

text \<open>The state the function starts in, in either mode.\<close>

definition fault_ready :: "u64 \<Rightarrow> fault_test_arg \<Rightarrow> 'a desc_state_scheme \<Rightarrow> 'a desc_state_scheme" where
  "fault_ready ret arg s =
     (if usermode arg then s\<lparr>boot_idt := (boot_idt s)[0x20 := new_gate ret (cs_reg s) 3],
        exception_handlers := (exception_handlers s)[unat (fault_vector arg) := Some RestoreExecHandler]\<rparr>
      else s\<lparr>exception_handlers := (exception_handlers s)[unat (fault_vector arg) := Some FaultTestFault]\<rparr>)"

lemma handle_exception_ok:
  assumes "desc_ok s" "unat (v::u32) < 32"
  shows "handle_exception (ucast v) fn s = Some (exception_handlers s ! unat v, s\<lparr>exception_handlers := (exception_handlers s)[unat v := fn]\<rparr>)"
proof -
  have "unat (ucast v :: u8) = unat v" using assms(2) by (simp add: unsigned_ucast_eq take_bit_nat_eq_self)
  moreover from this have "(ucast v :: u8) < 32" using assms(2) by (simp add: word_less_nat_alt)
  ultimately show ?thesis using assms by (simp add: handle_exception_def desc_ok_def)
qed

lemma fault_test_eq:
  assumes "desc_ok s" "unat (fault_vector (ft_args t)) < 32"
  shows "fault_test env ret t s = Option.bind (run_to_jmpbuf env (ft_func t (ft_arg (ft_args t)) (fault_ready ret (ft_args t) s)))
    (\<lambda>(r, s1). case r of
       None \<Rightarrow> Some (should_fault (ft_args t), ft_args t, s1)
     | Some v \<Rightarrow> (case (case ft_callback t of Some cb \<Rightarrow> cb ((ft_args t)\<lparr>retval := v\<rparr>) s1 | None \<Rightarrow> (True, (ft_args t)\<lparr>retval := v\<rparr>, s1)) of
         (ok, arg, s2) \<Rightarrow> Some (\<not> should_fault arg \<and> ok, arg, s2)))"
proof -
  let ?s1 = "s\<lparr>boot_idt := (boot_idt s)[0x20 := new_gate ret (cs_reg s) 3]\<rparr>"
  have g: "set_idt_entry RET_TO_KERNEL_IRQ ret 3 s = Some ?s1" using assms(1) by (simp add: set_idt_entry_gate RET_TO_KERNEL_IRQ_def desc_ok_def)
  have ok: "desc_ok ?s1" using assms(1) by (simp add: desc_ok_def)
  show ?thesis
    by (cases "usermode (ft_args t)")
       (auto simp: fault_test_def run_in_user_def g handle_exception_ok[OF ok assms(2)] handle_exception_ok[OF assms] fault_ready_def Let_def
         split: option.split bind_split prod.split)
qed

text \<open>What a test of a fault decides. Started in user mode or not, with the handler of the vector in place, a test whose
  function returns has failed when a fault was expected and otherwise has the verdict of the callback, which is given
  the value returned; a test whose function runs into the expected exception has passed exactly when a fault was
  expected, and the callback is not called.\<close>

theorem fault_test_verdict:
  assumes "desc_ok s" "unat (fault_vector (ft_args t)) < 32" "ft_func t (ft_arg (ft_args t)) (fault_ready ret (ft_args t) s) = run"
  shows "case run of
      UReturns v s1 \<Rightarrow>
        (case ft_callback t of
           None \<Rightarrow> fault_test env ret t s = Some (\<not> should_fault (ft_args t), (ft_args t)\<lparr>retval := v\<rparr>, s1)
         | Some cb \<Rightarrow> (case cb ((ft_args t)\<lparr>retval := v\<rparr>) s1 of (ok, arg, s2) \<Rightarrow> fault_test env ret t s = Some (\<not> should_fault arg \<and> ok, arg, s2)))
    | URaises regs s1 k \<Rightarrow> ex_vector regs = ucast (fault_vector (ft_args t)) \<and> exception_handlers s1 = exception_handlers (fault_ready ret (ft_args t) s) \<longrightarrow>
        fault_test env ret t s = Some (should_fault (ft_args t), ft_args t, s1)"
proof (cases run)
  case (UReturns v s1)
  then show ?thesis using assms(3) by (simp add: fault_test_eq[OF assms(1,2)] split: option.split prod.split)
next
  case (URaises regs s1 k)
  let ?v = "fault_vector (ft_args t)"
  have u: "unat (ucast ?v :: u64) = unat ?v" "(ucast ?v :: u64) < 32" using assms(2)
    by (simp_all add: unsigned_ucast_eq take_bit_nat_eq_self word_less_nat_alt)
  have h: "exception_handlers (fault_ready ret (ft_args t) s) ! unat ?v = Some (if usermode (ft_args t) then RestoreExecHandler else FaultTestFault)"
    using assms(1,2) by (simp add: fault_ready_def desc_ok_def)
  have "run_to_jmpbuf env run = Some (None, s1)"
    if "ex_vector regs = ucast ?v" "exception_handlers s1 = exception_handlers (fault_ready ret (ft_args t) s)"
    using that u h URaises by (simp add: do_handle_exception_def call_handler_def restore_exec_handler_def fault_test_fault_def)
  then show ?thesis using URaises assms(3) by (simp add: fault_test_eq[OF assms(1,2)])
qed


section \<open>A machine\<close>

text \<open>A function that divides by zero in user mode.\<close>

definition div_test :: "desc_state fault_test_t" where
  "div_test = \<lparr>ft_name = ''div'', ft_args = \<lparr>usermode = True, fault_vector = 0, should_fault = True, ft_arg = [1, 0, 0, 0], retval = 0\<rparr>,
     ft_func = \<lambda>a s. URaises (regs_at 0x400 0) s (\<lambda>r t. UReturns 0 t), ft_callback = None\<rparr>"

theorem fault_test_verdict_witness:
  "fault_test env0 0x8000 div_test desc_machine = Some (True, ft_args div_test, fault_ready 0x8000 (ft_args div_test) desc_machine)"
proof -
  let ?r = "URaises (regs_at 0x400 0) (fault_ready 0x8000 (ft_args div_test) desc_machine) (\<lambda>r t. UReturns 0 t)"
  have v: "unat (fault_vector (ft_args div_test)) < 32" "should_fault (ft_args div_test)" by (simp_all add: div_test_def)
  have f: "ft_func div_test (ft_arg (ft_args div_test)) (fault_ready 0x8000 (ft_args div_test) desc_machine) = ?r" by (simp add: div_test_def)
  have x: "ex_vector (regs_at 0x400 0) = ucast (fault_vector (ft_args div_test))" by (simp add: regs_at_def div_test_def)
  show ?thesis using fault_test_verdict[where env = env0, OF desc_machine_ok(1) v(1) f] x v(2) by simp
qed

end
