(* ===== verification/Usermode_Asm.thy ===== *)
theory Usermode_Asm
  imports Usermode Isr
begin

text \<open>
  The assembly of \<^verbatim>\<open>run_in_user\<close> (\<^verbatim>\<open>lib/x86/usermode.c\<close>): entering user mode, calling the function, and coming back. It is a list of
  instructions with a step function. The function called is a parameter that takes the processor from its first
  instruction to the one after its return. The addresses of labels and operands are a parameter; operands in
  memory are addressed by the frame pointer, which the build keeps.
\<close>

section \<open>The processor\<close>

datatype gpr = RAX | RBX | RCX | RDX | RSI | RDI | R8 | R9 | R10 | R11 | RSP | RBP

record user_cpu =
  reg :: "gpr \<Rightarrow> u64"
  u_rflags :: u64
  u_rip :: u64
  u_cs :: u64
  u_ss :: u64
  u_ds :: u16
  u_es :: u16
  u_mem :: mem

datatype uinsn =
    MovReg gpr gpr
  | MovAx u16
  | MovDs
  | MovEs
  | PushVal u64
  | PushReg gpr
  | Pushfq
  | Iretq
  | PopReg gpr
  | MovLoad gpr u64
  | CallMem u64
  | IntN nat

definition USER_DS :: u64 where [c_defs]: "USER_DS = 0x43"
definition USER_CS64 :: u64 where [c_defs]: "USER_CS64 = 0x4b"
definition USER_CS :: u64 where [c_defs]: "USER_CS = USER_CS64"

definition set_reg :: "gpr \<Rightarrow> u64 \<Rightarrow> user_cpu \<Rightarrow> user_cpu" where
  "set_reg r v c = c\<lparr>reg := (reg c)(r := v)\<rparr>"

definition push :: "u64 \<Rightarrow> user_cpu \<Rightarrow> user_cpu" where
  "push v c = (let sp = reg c RSP - 8 in (set_reg RSP sp c)\<lparr>u_mem := st64 (u_mem c) sp v\<rparr>)"

definition stack_word :: "user_cpu \<Rightarrow> nat \<Rightarrow> u64" where
  "stack_word c i = ld64 (u_mem c) (reg c RSP + 8 * of_nat i)"

definition gate_offset :: "idt_entry \<Rightarrow> u64" where
  "gate_offset g = ucast (offset0 g) OR push_bit 16 (ucast (offset1 g)) OR push_bit 32 (ucast (offset2 g))"

text \<open>An interrupt from user mode: the processor takes the stack pointer of level 0 from the task state, pushes where it was,
  and goes on at the gate, which user mode must be allowed to use. Interrupt gates clear the interrupt flag.\<close>

record user_env =
  user_idt :: "idt_entry list"
  rsp0 :: u64
  after_call :: u64
  after_int :: u64
  user_mode :: u64
  user_stack_top :: u64
  arg_addr :: "nat \<Rightarrow> u64"
  func_addr :: u64
  call_code :: "u64 \<Rightarrow> user_cpu \<Rightarrow> user_cpu"

definition int_n :: "user_env \<Rightarrow> nat \<Rightarrow> user_cpu \<Rightarrow> user_cpu option" where
  "int_n e n c = do {
     c_assert (n < length (user_idt e) \<and> u_cs c AND 3 = 3);
     let g = user_idt e ! n;
     c_assert (idt_p g = 1 \<and> dpl g = 3 \<and> ist g = 0);
     let k = set_reg RSP (rsp0 e) c;
     let k = push (after_int e) (push (u_cs c) (push (u_rflags c) (push (reg c RSP) (push (u_ss c) k))));
     Some (k\<lparr>u_rip := gate_offset g, u_cs := ucast (selector g), u_ss := 0, u_rflags := u_rflags c AND NOT 0x200\<rparr>) }"

fun exec :: "user_env \<Rightarrow> uinsn \<Rightarrow> user_cpu \<Rightarrow> user_cpu option" where
  "exec e (MovReg d r) c = Some (set_reg d (reg c r) c)"
| "exec e (MovAx v) c = Some (set_reg RAX ((reg c RAX AND NOT 0xffff) OR ucast v) c)"
| "exec e MovDs c = Some (c\<lparr>u_ds := ucast (reg c RAX)\<rparr>)"
| "exec e MovEs c = Some (c\<lparr>u_es := ucast (reg c RAX)\<rparr>)"
| "exec e (PushVal v) c = Some (push v c)"
| "exec e (PushReg r) c = Some (push (reg c r) c)"
| "exec e Pushfq c = Some (push (u_rflags c) c)"
| "exec e Iretq c = Some ((set_reg RSP (stack_word c 3) c)\<lparr>u_rip := stack_word c 0, u_cs := stack_word c 1, u_rflags := stack_word c 2, u_ss := stack_word c 4\<rparr>)"
| "exec e (PopReg r) c = Some (set_reg r (stack_word c 0) (set_reg RSP (reg c RSP + 8) c))"
| "exec e (MovLoad r a) c = Some (set_reg r (ld64 (u_mem c) a) c)"
| "exec e (CallMem a) c = (let c' = call_code e (ld64 (u_mem c) a) (push (after_call e) c)
     in if u_rip c' = after_call e then Some c' else None)"
| "exec e (IntN n) c = int_n e n c"

fun exec_all :: "user_env \<Rightarrow> uinsn list \<Rightarrow> user_cpu \<Rightarrow> user_cpu option" where
  "exec_all e [] c = Some c"
| "exec_all e (i # is) c = do { c \<leftarrow> exec e i c; exec_all e is c }"

section \<open>The code\<close>

definition enter_user :: "user_env \<Rightarrow> uinsn list" where
  "enter_user e =
     [MovReg RDI RSP, MovAx (ucast USER_DS), MovDs, MovEs,
      PushVal USER_DS, PushVal (user_stack_top e), Pushfq, PushVal USER_CS, PushVal (user_mode e), Iretq]"

definition user_code :: "user_env \<Rightarrow> uinsn list" where
  "user_code e =
     [PushReg RBX, PushReg RCX, PushReg RDX, PushReg R8, PushReg R9, PushReg R10, PushReg R11, PushReg RDI, PushReg RSI,
      MovLoad RDI (arg_addr e 1), MovLoad RSI (arg_addr e 2), MovLoad RDX (arg_addr e 3), MovLoad RCX (arg_addr e 4),
      CallMem (func_addr e),
      PopReg RSI, PopReg RDI, PopReg R11, PopReg R10, PopReg R9, PopReg R8, PopReg RDX, PopReg RCX, PopReg RBX,
      IntN (nat RET_TO_KERNEL_IRQ)]"

text \<open>\<open>None\<close>: control went elsewhere.\<close>

definition user_asm :: "user_env \<Rightarrow> u64 \<Rightarrow> user_cpu \<Rightarrow> user_cpu option" where
  "user_asm e ret_to_kernel c = do {
     c \<leftarrow> exec_all e (enter_user e) (set_reg RAX 0 c);
     c_assert (u_rip c = user_mode e);
     c \<leftarrow> exec_all e (user_code e) c;
     c_assert (u_rip c = ret_to_kernel);
     exec_all e [MovReg RSP RDI] c }"

section \<open>Coming back\<close>

text \<open>What the function called leaves alone: the stack above its return address, the frame pointer, and its privilege level.\<close>

definition func_returns :: "user_cpu \<Rightarrow> user_cpu \<Rightarrow> bool" where
  "func_returns c c' \<longleftrightarrow> u_rip c' = stack_word c 0 \<and> reg c' RSP = reg c RSP + 8 \<and> reg c' RBP = reg c RBP \<and> u_cs c' = u_cs c \<and>
     (\<forall>i<9. stack_word c' i = stack_word c (Suc i))"

text \<open>The words below an address.\<close>

definition words_below :: "u64 \<Rightarrow> nat \<Rightarrow> u64 set" where
  "words_below a n = (\<lambda>i. a - 8 * of_nat i) ` {1..n}"

lemma below_aligned: "aligned 3 a \<Longrightarrow> aligned 3 (a - 8 * of_nat i)"
  using aligned_add[of 3 a "8 * - of_nat i"] aligned_mult_8[of "- of_nat i"] by simp

lemma above_aligned: "aligned 3 a \<Longrightarrow> aligned 3 (a + 8 * of_nat i)"
  by (simp add: aligned_add)

text \<open>Several words pushed, the last on top.\<close>

definition push_all :: "u64 list \<Rightarrow> user_cpu \<Rightarrow> user_cpu" where
  "push_all vs c = fold push vs c"

lemma push_all_simps: "push_all [] c = c" "push_all (vs @ [v]) c = push v (push_all vs c)"
  by (simp_all add: push_all_def)

lemma push_all_Cons: "push_all (v # vs) c = push_all vs (push v c)"
  by (simp add: push_all_def)

lemma push_keeps [simp]:
  "u_rflags (push v c) = u_rflags c" "u_rip (push v c) = u_rip c" "u_cs (push v c) = u_cs c" "u_ss (push v c) = u_ss c"
  "u_ds (push v c) = u_ds c" "u_es (push v c) = u_es c" "reg (push v c) = (reg c)(RSP := reg c RSP - 8)"
  "u_mem (push v c) = st64 (u_mem c) (reg c RSP - 8) v"
  by (simp_all add: push_def set_reg_def Let_def)

lemma set_reg_keeps [simp]:
  "u_rflags (set_reg r v c) = u_rflags c" "u_rip (set_reg r v c) = u_rip c" "u_cs (set_reg r v c) = u_cs c" "u_ss (set_reg r v c) = u_ss c"
  "u_ds (set_reg r v c) = u_ds c" "u_es (set_reg r v c) = u_es c" "reg (set_reg r v c) = (reg c)(r := v)" "u_mem (set_reg r v c) = u_mem c"
  by (simp_all add: set_reg_def)

lemma push_all_keeps [simp]:
  "u_rflags (push_all vs c) = u_rflags c" "u_rip (push_all vs c) = u_rip c" "u_cs (push_all vs c) = u_cs c" "u_ss (push_all vs c) = u_ss c"
  "u_ds (push_all vs c) = u_ds c" "u_es (push_all vs c) = u_es c"
  by (induction vs rule: rev_induct) (simp_all add: push_all_simps)

lemma push_all_reg [simp]: "reg (push_all vs c) = (reg c)(RSP := reg c RSP - 8 * of_nat (length vs))"
  by (induction vs rule: rev_induct) (auto simp: push_all_simps algebra_simps fun_eq_iff)

lemma push_all_word:
  assumes "aligned 3 (reg c RSP)" "length vs < 2 ^ 32" "i < length vs"
  shows "stack_word (push_all vs c) i = List.rev vs ! i"
  using assms(2,3)
proof (induction vs arbitrary: i rule: rev_induct)
  case (snoc v vs)
  let ?sp = "reg c RSP - 8 * of_nat (length vs)"
  have al: "aligned 3 (?sp - 8)" using below_aligned[OF assms(1), of "Suc (length vs)"] by (simp add: algebra_simps)
  show ?case
  proof (cases i)
    case 0
    then show ?thesis by (simp add: push_all_simps stack_word_def)
  next
    case (Suc j)
    have "unat (of_nat (8 * Suc j) :: u64) = 8 * Suc j" using snoc.prems Suc by (intro unat_of_nat64) simp
    then have "(of_nat (8 * Suc j) :: u64) \<noteq> 0" by (metis unat_0 mult_is_0 nat.simps(3) zero_neq_numeral)
    then have "8 * of_nat (Suc j) \<noteq> (0::u64)" by (metis of_nat_mult of_nat_numeral)
    then have ne: "?sp - 8 \<noteq> ?sp - 8 + 8 * of_nat (Suc j)" unfolding add_cancel_right_right .
    have al': "aligned 3 (?sp - 8 + 8 * of_nat (Suc j))" by (rule above_aligned[OF al])
    have "stack_word (push_all (vs @ [v]) c) i = ld64 (u_mem (push_all vs c)) (?sp - 8 + 8 * of_nat (Suc j))"
      unfolding stack_word_def Suc push_all_simps using ld64_st64_other[OF al al' ne] by (simp del: of_nat_Suc)
    also have "\<dots> = stack_word (push_all vs c) j" by (simp add: stack_word_def algebra_simps)
    finally show ?thesis using snoc Suc by (simp add: nth_append)
  qed
qed simp

lemma push_all_other:
  assumes "aligned 3 (reg c RSP)" "aligned 3 a" "a \<notin> words_below (reg c RSP) (length vs)"
  shows "ld64 (u_mem (push_all vs c)) a = ld64 (u_mem c) a"
  using assms(3)
proof (induction vs rule: rev_induct)
  case (snoc v vs)
  have "words_below (reg c RSP) (length (vs @ [v])) = insert (reg c RSP - 8 * of_nat (Suc (length vs))) (words_below (reg c RSP) (length vs))"
    by (auto simp: words_below_def atLeastAtMostSuc_conv)
  then have "a \<noteq> reg c RSP - 8 * of_nat (Suc (length vs))" "a \<notin> words_below (reg c RSP) (length vs)" using snoc.prems by auto
  then show ?case using snoc.IH ld64_st64_other[OF below_aligned[OF assms(1), of "Suc (length vs)"] assms(2)]
    by (simp add: push_all_simps algebra_simps)
qed (simp add: push_all_simps)

lemma enter_user_ok:
  assumes "aligned 3 (reg c RSP)"
  shows "\<exists>c'. exec_all e (enter_user e) (set_reg RAX 0 c) = Some c' \<and> u_rip c' = user_mode e \<and> u_cs c' = USER_CS \<and> u_ss c' = USER_DS \<and>
    u_ds c' = ucast USER_DS \<and> u_es c' = ucast USER_DS \<and> u_rflags c' = u_rflags c \<and>
    reg c' = (reg c)(RAX := USER_DS, RDI := reg c RSP, RSP := user_stack_top e) \<and>
    (\<forall>a. aligned 3 a \<longrightarrow> a \<notin> words_below (reg c RSP) 5 \<longrightarrow> ld64 (u_mem c') a = ld64 (u_mem c) a)"
proof -
  let ?c = "(set_reg RAX USER_DS (set_reg RDI (reg c RSP) (set_reg RAX 0 c)))\<lparr>u_ds := ucast USER_DS, u_es := ucast USER_DS\<rparr>"
  let ?vs = "[USER_DS, user_stack_top e, u_rflags c, USER_CS, user_mode e]"
  have c: "reg ?c RSP = reg c RSP" "aligned 3 (reg ?c RSP)" using assms by (simp_all add: set_reg_def)
  have "exec_all e (enter_user e) (set_reg RAX 0 c) = exec e Iretq (push_all ?vs ?c)"
    by (simp add: enter_user_def push_all_def USER_DS_def set_reg_def)
  moreover note push_all_word[OF c(2), of ?vs]
  moreover have "length ?vs = 5" by simp
  note push_all_other[OF c(2), of _ ?vs, unfolded this]
  ultimately show ?thesis using c(1) by (simp add: set_reg_def fun_upd_twist)
qed

lemma exec_append: "exec_all e (is @ js) c = do { c \<leftarrow> exec_all e is c; exec_all e js c }"
  by (induction "is" arbitrary: c) (auto split: bind_split)

lemma exec_one: "exec_all e [i] c = exec e i c"
  by (cases "exec e i c") simp_all

lemma user_pushes:
  "exec_all e (take 9 (user_code e)) c =
    Some (push_all [reg c RBX, reg c RCX, reg c RDX, reg c R8, reg c R9, reg c R10, reg c R11, reg c RDI, reg c RSI] c)"
  by (simp add: user_code_def push_all_def)

lemma int_n_ok:
  assumes "u_cs c = USER_CS" "n < length (user_idt e)" "user_idt e ! n = new_gate a k 3"
  shows "\<exists>c'. int_n e n c = Some c' \<and> u_rip c' = a \<and> u_cs c' = ucast k \<and> reg c' = (reg c)(RSP := rsp0 e - 40) \<and> u_ds c' = u_ds c \<and> u_es c' = u_es c \<and>
    u_mem c' = u_mem (push_all [u_ss c, reg c RSP, u_rflags c, u_cs c, after_int e] (set_reg RSP (rsp0 e) c))"
  using assms entry_of_gate[of a k 3]
  by (simp add: int_n_def push_all_def new_gate_def gate_offset_def idt_zero_def USER_CS_def USER_CS64_def Let_def set_reg_def)

text \<open>The state in which the function starts: its arguments in their registers, on the user stack, in user mode.\<close>

definition starts_with :: "user_env \<Rightarrow> user_cpu \<Rightarrow> user_cpu \<Rightarrow> bool" where
  "starts_with e c k \<longleftrightarrow>
     map (reg k) [RDI, RSI, RDX, RCX] = map (\<lambda>i. ld64 (u_mem c) (arg_addr e i)) [1, 2, 3, 4] \<and>
     u_cs k = USER_CS \<and> u_ss k = USER_DS \<and> u_ds k = ucast USER_DS \<and> u_es k = ucast USER_DS \<and>
     reg k RSP = user_stack_top e - 80 \<and> stack_word k 0 = after_call e \<and> reg k RBP = reg c RBP \<and>
     (\<forall>a. aligned 3 a \<longrightarrow> a \<notin> words_below (reg c RSP) 5 \<longrightarrow> a \<notin> words_below (user_stack_top e) 10 \<longrightarrow> ld64 (u_mem k) a = ld64 (u_mem c) a)"

text \<open>The user code in three parts: up to the call, the registers restored, the return.\<close>

definition user_calls :: "user_env \<Rightarrow> uinsn list" where
  "user_calls e = take 9 (user_code e) @
     [MovLoad RDI (arg_addr e 1), MovLoad RSI (arg_addr e 2), MovLoad RDX (arg_addr e 3), MovLoad RCX (arg_addr e 4), CallMem (func_addr e)]"

definition user_restores :: "uinsn list" where
  "user_restores = [PopReg RSI, PopReg RDI, PopReg R11, PopReg R10, PopReg R9, PopReg R8, PopReg RDX, PopReg RCX, PopReg RBX]"

lemma user_code_split: "user_code e = user_calls e @ user_restores @ [IntN 0x20]"
  by (simp add: user_code_def user_calls_def user_restores_def RET_TO_KERNEL_IRQ_def)

lemma user_loads:
  "exec_all e [MovLoad RDI a1, MovLoad RSI a2, MovLoad RDX a3, MovLoad RCX a4, CallMem f] q =
    (let k' = call_code e (ld64 (u_mem q) f) (push (after_call e) (q\<lparr>reg := (reg q)(RDI := ld64 (u_mem q) a1, RSI := ld64 (u_mem q) a2,
       RDX := ld64 (u_mem q) a3, RCX := ld64 (u_mem q) a4)\<rparr>)) in if u_rip k' = after_call e then Some k' else None)"
  by (simp add: set_reg_def Let_def)

lemma user_pops:
  "exec_all e user_restores c =
    Some (c\<lparr>reg := (reg c)(RSI := stack_word c 0, RDI := stack_word c 1, R11 := stack_word c 2, R10 := stack_word c 3, R9 := stack_word c 4,
      R8 := stack_word c 5, RDX := stack_word c 6, RCX := stack_word c 7, RBX := stack_word c 8, RSP := reg c RSP + 72)\<rparr>)"
  by (simp add: user_restores_def set_reg_def stack_word_def add.assoc fun_eq_iff)

lemma words_below_mono: "n \<le> m \<Longrightarrow> words_below a n \<subseteq> words_below a m"
  by (auto simp: words_below_def)

text \<open>Up to the call.\<close>

lemma user_call_ok:
  assumes "aligned 3 (reg c RSP)" "aligned 3 (user_stack_top e)" "exec_all e (enter_user e) (set_reg RAX 0 c) = Some c1"
    "\<forall>a\<in>{arg_addr e 1, arg_addr e 2, arg_addr e 3, arg_addr e 4, func_addr e}.
       aligned 3 a \<and> a \<notin> words_below (reg c RSP) 5 \<and> a \<notin> words_below (user_stack_top e) 10"
  shows "\<exists>k. starts_with e c k \<and>
    map (stack_word k) [1..<10] = [reg c RSI, reg c RSP, reg c R11, reg c R10, reg c R9, reg c R8, reg c RDX, reg c RCX, reg c RBX] \<and>
    exec_all e (user_calls e) c1
      = (let k' = call_code e (ld64 (u_mem c) (func_addr e)) k in if u_rip k' = after_call e then Some k' else None)"
proof -
  let ?vs = "[reg c1 RBX, reg c1 RCX, reg c1 RDX, reg c1 R8, reg c1 R9, reg c1 R10, reg c1 R11, reg c1 RDI, reg c1 RSI]"
  let ?ws = "?vs @ [after_call e]"
  let ?f = "\<lambda>k. k\<lparr>reg := (reg k)(RDI := ld64 (u_mem c) (arg_addr e 1), RSI := ld64 (u_mem c) (arg_addr e 2),
     RDX := ld64 (u_mem c) (arg_addr e 3), RCX := ld64 (u_mem c) (arg_addr e 4))\<rparr>"
  let ?k = "?f (push_all ?ws c1)"
  obtain r: "u_cs c1 = USER_CS" "u_ss c1 = USER_DS" "u_ds c1 = ucast USER_DS" "u_es c1 = ucast USER_DS"
      "reg c1 = (reg c)(RAX := USER_DS, RDI := reg c RSP, RSP := user_stack_top e)"
    and m: "\<And>a. aligned 3 a \<Longrightarrow> a \<notin> words_below (reg c RSP) 5 \<Longrightarrow> ld64 (u_mem c1) a = ld64 (u_mem c) a"
    using enter_user_ok[OF assms(1), of e] assms(3) by auto
  have al: "aligned 3 (reg c1 RSP)" and sp: "reg c1 RSP = user_stack_top e" using r(5) assms(2) by simp_all
  have l: "length ?vs = 9" "length ?ws = 10" by simp_all
  have o9: "ld64 (u_mem (push_all ?vs c1)) a = ld64 (u_mem c) a"
    if "aligned 3 a" "a \<notin> words_below (reg c RSP) 5" "a \<notin> words_below (user_stack_top e) 10" for a
    using push_all_other[OF al that(1), of ?vs] words_below_mono[of 9 10 "user_stack_top e"] m[OF that(1,2)] that(3) sp unfolding l by auto
  have o10: "ld64 (u_mem (push_all ?ws c1)) a = ld64 (u_mem c) a"
    if "aligned 3 a" "a \<notin> words_below (reg c RSP) 5" "a \<notin> words_below (user_stack_top e) 10" for a
    using push_all_other[OF al that(1), of ?ws] m[OF that(1,2)] that(3) sp unfolding l by auto
  have w: "stack_word ?k i = List.rev ?ws ! i" if "i < 10" for i
    using push_all_word[OF al, of ?ws i] that by (simp add: stack_word_def)
  have g1: "starts_with e c ?k" unfolding starts_with_def using r sp o10 w[of 0] by simp
  have g2: "map (stack_word ?k) [1..<10] = [reg c RSI, reg c RSP, reg c R11, reg c R10, reg c R9, reg c R8, reg c RDX, reg c RCX, reg c RBX]"
    using w r(5) by (simp add: upt_rec)
  have keq: "?k = push (after_call e) (?f (push_all ?vs c1))"
    unfolding push_all_simps(2) by (rule user_cpu.equality) (simp_all add: fun_eq_iff)
  have ld: "ld64 (u_mem (push_all ?vs c1)) (arg_addr e 1) = ld64 (u_mem c) (arg_addr e 1)"
      "ld64 (u_mem (push_all ?vs c1)) (arg_addr e 2) = ld64 (u_mem c) (arg_addr e 2)"
      "ld64 (u_mem (push_all ?vs c1)) (arg_addr e 3) = ld64 (u_mem c) (arg_addr e 3)"
      "ld64 (u_mem (push_all ?vs c1)) (arg_addr e 4) = ld64 (u_mem c) (arg_addr e 4)"
      "ld64 (u_mem (push_all ?vs c1)) (func_addr e) = ld64 (u_mem c) (func_addr e)"
    using assms(4) by (auto intro!: o9)
  have g3: "exec_all e (user_calls e) c1 =
     (let k' = call_code e (ld64 (u_mem c) (func_addr e)) ?k in if u_rip k' = after_call e then Some k' else None)"
    unfolding user_calls_def exec_append user_pushes bind.simps user_loads ld keq ..
  show ?thesis by (rule exI[of _ ?k], intro conjI) (rule g1 g2 g3)+
qed

text \<open>The assembly of \<^verbatim>\<open>run_in_user\<close> calls the function in user mode and comes back. When the operands are outside the words pushed,
  the gate of the return interrupt is the one \<^verbatim>\<open>run_in_user\<close> installs, and the function keeps the calling convention,
  the function runs once, in user mode on the user stack with the four arguments; then the kernel goes on after
  the assembly, on its own stack, with the value of the function in \<^verbatim>\<open>rax\<close>, every other register but \<^verbatim>\<open>rdi\<close> as before, and
  memory as the function left it apart from the interrupt frame.\<close>

theorem user_asm_returns:
  assumes "aligned 3 (reg c RSP)" "aligned 3 (user_stack_top e)" "aligned 3 (rsp0 e)"
    "\<forall>a\<in>{arg_addr e 1, arg_addr e 2, arg_addr e 3, arg_addr e 4, func_addr e}.
       aligned 3 a \<and> a \<notin> words_below (reg c RSP) 5 \<and> a \<notin> words_below (user_stack_top e) 10"
    "0x20 < length (user_idt e)" "user_idt e ! 0x20 = new_gate ret k 3"
    "\<forall>s. starts_with e c s \<longrightarrow> func_returns s (call_code e (ld64 (u_mem c) (func_addr e)) s)"
  shows "\<exists>s c'. starts_with e c s \<and> user_asm e ret c = Some c' \<and> u_cs c' = ucast k \<and>
    reg c' = (reg (call_code e (ld64 (u_mem c) (func_addr e)) s))
      (RSI := reg c RSI, RDI := reg c RSP, R11 := reg c R11, R10 := reg c R10, R9 := reg c R9, R8 := reg c R8, RDX := reg c RDX, RCX := reg c RCX,
       RBX := reg c RBX, RBP := reg c RBP, RSP := reg c RSP) \<and>
    (\<forall>a. aligned 3 a \<longrightarrow> a \<notin> words_below (rsp0 e) 5 \<longrightarrow>
       ld64 (u_mem c') a = ld64 (u_mem (call_code e (ld64 (u_mem c) (func_addr e)) s)) a)"
proof -
  let ?fn = "call_code e (ld64 (u_mem c) (func_addr e))"
  obtain c1 where c1: "exec_all e (enter_user e) (set_reg RAX 0 c) = Some c1" "u_rip c1 = user_mode e"
    using enter_user_ok[OF assms(1)] by blast
  obtain s where s: "starts_with e c s"
      and w: "map (stack_word s) [1..<10] = [reg c RSI, reg c RSP, reg c R11, reg c R10, reg c R9, reg c R8, reg c RDX, reg c RCX, reg c RBX]"
      and run: "exec_all e (user_calls e) c1
      = (let k' = ?fn s in if u_rip k' = after_call e then Some k' else None)"
    using user_call_ok[OF assms(1,2) c1(1) assms(4)] by (elim exE conjE) (rule that)
  note r = assms(7)[rule_format, OF s, unfolded func_returns_def] and st = s[unfolded starts_with_def]
  have fw: "stack_word (?fn s) i = map (stack_word s) [1..<10] ! i" if "i < 9" for i using r that by simp
  let ?c3 = "(?fn s)\<lparr>reg := (reg (?fn s))(RSI := reg c RSI, RDI := reg c RSP, R11 := reg c R11, R10 := reg c R10, R9 := reg c R9,
      R8 := reg c R8, RDX := reg c RDX, RCX := reg c RCX, RBX := reg c RBX, RSP := reg (?fn s) RSP + 72)\<rparr>"
  have rip: "u_rip (?fn s) = after_call e" using r st by simp
  have sw: "stack_word (?fn s) 0 = reg c RSI" "stack_word (?fn s) 1 = reg c RSP" "stack_word (?fn s) 2 = reg c R11" "stack_word (?fn s) 3 = reg c R10"
      "stack_word (?fn s) 4 = reg c R9" "stack_word (?fn s) 5 = reg c R8" "stack_word (?fn s) 6 = reg c RDX" "stack_word (?fn s) 7 = reg c RCX"
      "stack_word (?fn s) 8 = reg c RBX"
    by (simp_all add: fw[unfolded w])
  have run2: "exec_all e (user_code e) c1 = int_n e 0x20 ?c3"
    unfolding user_code_split exec_append run Let_def rip by (simp only: if_True simp_thms bind.simps user_pops sw exec_one exec.simps)
  obtain c4 where c4: "int_n e 0x20 ?c3 = Some c4" "u_rip c4 = ret" "u_cs c4 = ucast k" "reg c4 = (reg ?c3)(RSP := rsp0 e - 40)"
     "u_mem c4 = u_mem (push_all [u_ss ?c3, reg ?c3 RSP, u_rflags ?c3, u_cs ?c3, after_int e] (set_reg RSP (rsp0 e) ?c3))" (is "_ = u_mem (push_all ?vs ?c5)")
    using int_n_ok[where c = ?c3 and n = "0x20" and e = e and a = ret and k = k] assms(5,6) r st by auto
  have l: "length ?vs = 5" and a5: "aligned 3 (reg ?c5 RSP)" using assms(3) by simp_all
  have "ld64 (u_mem c4) a = ld64 (u_mem (?fn s)) a" if "aligned 3 a" "a \<notin> words_below (rsp0 e) 5" for a
    unfolding c4(5) using push_all_other[OF a5 that(1), of ?vs, unfolded l] that(2) by simp
  moreover have "user_asm e ret c = Some (set_reg RSP (reg c RSP) c4)"
    unfolding user_asm_def c1(1) bind.simps c1(2) run2 c4(1,2) exec_one by (simp add: c4(4))
  moreover have "reg (set_reg RSP (reg c RSP) c4) = (reg (?fn s))
      (RSI := reg c RSI, RDI := reg c RSP, R11 := reg c R11, R10 := reg c R10, R9 := reg c R9, R8 := reg c R8, RDX := reg c RDX, RCX := reg c RCX,
       RBX := reg c RBX, RBP := reg c RBP, RSP := reg c RSP)"
    using r st by (simp add: c4(4) fun_eq_iff)
  ultimately show ?thesis using s c4(3) by (intro exI[of _ s] exI[of _ "set_reg RSP (reg c RSP) c4"]) simp
qed

section \<open>A machine\<close>

definition answer_env :: user_env where
  "answer_env = \<lparr>user_idt = replicate 256 (new_gate 0x5000 8 3), rsp0 = 0x30000, after_call = 0x4800, after_int = 0x4900, user_mode = 0x4400,
     user_stack_top = 0x20000, arg_addr = (\<lambda>i. 0x9100 + 8 * of_nat i), func_addr = 0x9200,
     call_code = (\<lambda>f s. s\<lparr>u_rip := stack_word s 0, reg := (reg s)(RSP := reg s RSP + 8, RAX := f + reg s RDI)\<rparr>)\<rparr>"

definition answer_cpu :: user_cpu where
  "answer_cpu = \<lparr>reg = (\<lambda>_. 0)(RSP := 0x9000, RBP := 0x9080, RBX := 7), u_rflags = 2, u_rip = 0x4000, u_cs = 8, u_ss = 16, u_ds = 16, u_es = 16,
     u_mem = st64 (st64 (\<lambda>_. 0) 0x9200 40) 0x9108 2\<rparr>"

theorem user_asm_returns_witness:
  "\<exists>c'. user_asm answer_env 0x5000 answer_cpu = Some c' \<and> u_cs c' = 8 \<and> map (reg c') [RAX, RBX, RSP, RBP] = [42, 7, 0x9000, 0x9080]"
proof -
  let ?e = answer_env and ?c = answer_cpu
  have e: "user_stack_top ?e = 0x20000" "rsp0 ?e = 0x30000" "func_addr ?e = 0x9200" "length (user_idt ?e) = 256" "user_idt ?e ! 0x20 = new_gate 0x5000 8 3"
    "arg_addr ?e i = 0x9100 + 8 * of_nat i" for i by (simp_all add: answer_env_def)
  have al: "aligned 3 (0x9000 :: u64)" "aligned 3 (0x20000 :: u64)" "aligned 3 (0x30000 :: u64)" "aligned 3 (0x9200 :: u64)" "aligned 3 (0x9100 + 8 * of_nat i)" for i
    using aligned_mult_8[of "0x1200"] aligned_mult_8[of "0x4000"] aligned_mult_8[of "0x6000"] aligned_mult_8[of "0x1240"] aligned_mult_8[of "0x1220 + of_nat i"]
    by (simp_all add: distrib_left)
  have r: "reg ?c RSP = 0x9000" by (simp add: answer_cpu_def)
  have ops: "\<forall>a\<in>{arg_addr ?e 1, arg_addr ?e 2, arg_addr ?e 3, arg_addr ?e 4, func_addr ?e}.
       aligned 3 a \<and> a \<notin> words_below (reg ?c RSP) 5 \<and> a \<notin> words_below (user_stack_top ?e) 10"
    using al(4) al(5)[of 1] al(5)[of 2] al(5)[of 3] al(5)[of 4] unfolding e r words_below_def atLeastAtMost_upt by (simp add: upt_rec)
  have fn: "\<forall>s. starts_with ?e ?c s \<longrightarrow> func_returns s (call_code ?e (ld64 (u_mem ?c) (func_addr ?e)) s)"
    by (simp add: answer_env_def func_returns_def stack_word_def add.assoc starts_with_def USER_CS_def)
  obtain s c' where s: "starts_with ?e ?c s" "user_asm ?e 0x5000 ?c = Some c'" "u_cs c' = 8"
      "reg c' = (reg (call_code ?e (ld64 (u_mem ?c) (func_addr ?e)) s))
      (RSI := reg ?c RSI, RDI := reg ?c RSP, R11 := reg ?c R11, R10 := reg ?c R10, R9 := reg ?c R9, R8 := reg ?c R8, RDX := reg ?c RDX, RCX := reg ?c RCX,
       RBX := reg ?c RBX, RBP := reg ?c RBP, RSP := reg ?c RSP)"
    using user_asm_returns[OF _ _ _ ops _ e(5) fn] al(1-3) e(1,2,4) r by auto
  have "ld64 (u_mem ?c) 0x9200 = 40" "ld64 (u_mem ?c) 0x9108 = 2" by (simp_all add: answer_cpu_def ld64_st64_other al(4) al(5)[of 1, simplified])
  moreover have "reg s RDI = ld64 (u_mem ?c) 0x9108" using s(1) by (simp add: starts_with_def e)
  moreover have "reg c' RAX = ld64 (u_mem ?c) 0x9200 + reg s RDI" using s(4) by (simp add: answer_env_def)
  moreover have "reg c' RBX = 7" "reg c' RSP = 0x9000" "reg c' RBP = 0x9080" using s(4) by (simp_all add: answer_cpu_def)
  ultimately show ?thesis using s(2,3) by simp
qed

end
