(* ===== verification/Pci_Edu.thy ===== *)
theory Pci_Edu
  imports Pci Vmalloc
begin

text \<open>
  \<^verbatim>\<open>lib/pci-edu.c\<close> and \<^verbatim>\<open>lib/pci-edu.h\<close>: the driver of the educational device. The device itself is a parameter: what reading
  its registers returns after the accesses made.
\<close>

section \<open>Definitions\<close>

definition PCI_VENDOR_ID_QEMU :: u16 where [c_defs]: "PCI_VENDOR_ID_QEMU = 0x1234"
definition PCI_DEVICE_ID_EDU :: u16 where [c_defs]: "PCI_DEVICE_ID_EDU = 0x11e8"
definition EDU_BAR :: nat where [c_defs]: "EDU_BAR = 0"
definition EDU_REG_ALIVE :: u64 where [c_defs]: "EDU_REG_ALIVE = 0x4"
definition EDU_REG_DMA_SRC :: u64 where [c_defs]: "EDU_REG_DMA_SRC = 0x80"
definition EDU_REG_DMA_DST :: u64 where [c_defs]: "EDU_REG_DMA_DST = 0x88"
definition EDU_REG_DMA_COUNT :: u64 where [c_defs]: "EDU_REG_DMA_COUNT = 0x90"
definition EDU_REG_DMA_CMD :: u64 where [c_defs]: "EDU_REG_DMA_CMD = 0x98"
definition EDU_CMD_DMA_START :: u32 where [c_defs]: "EDU_CMD_DMA_START = 0x01"
definition EDU_CMD_DMA_FROM :: u32 where [c_defs]: "EDU_CMD_DMA_FROM = 0x02"
definition EDU_CMD_DMA_TO :: u32 where [c_defs]: "EDU_CMD_DMA_TO = 0x00"
definition EDU_DMA_START :: u32 where [c_defs]: "EDU_DMA_START = 0x40000"
definition EDU_DMA_SIZE_MAX :: u32 where [c_defs]: "EDU_DMA_SIZE_MAX = 4096"

record pci_edu_dev =
  edu_pci_dev :: pci_dev
  reg_base :: u64

record edu_state = vm_state +
  live_count :: u32

definition edu_reg :: "pci_edu_dev \<Rightarrow> u64 \<Rightarrow> u64" where
  "edu_reg d r = reg_base d + r"

definition edu_reg_readq :: "hw \<Rightarrow> pci_edu_dev \<Rightarrow> u64 \<Rightarrow> 'a cpu_state_scheme \<Rightarrow> u64 \<times> 'a cpu_state_scheme" where
  "edu_reg_readq hw dev reg s = raw_readq hw (edu_reg dev reg) s"

definition edu_reg_readl :: "hw \<Rightarrow> pci_edu_dev \<Rightarrow> u64 \<Rightarrow> 'a cpu_state_scheme \<Rightarrow> u32 \<times> 'a cpu_state_scheme" where
  "edu_reg_readl hw dev reg s = raw_readl hw (edu_reg dev reg) s"

definition edu_reg_writeq :: "pci_edu_dev \<Rightarrow> u64 \<Rightarrow> u64 \<Rightarrow> 'a cpu_state_scheme \<Rightarrow> 'a cpu_state_scheme" where
  "edu_reg_writeq dev reg val s = raw_writeq val (edu_reg dev reg) s"

definition edu_reg_writel :: "pci_edu_dev \<Rightarrow> u64 \<Rightarrow> u32 \<Rightarrow> 'a cpu_state_scheme \<Rightarrow> 'a cpu_state_scheme" where
  "edu_reg_writel dev reg val s = raw_writel val (edu_reg dev reg) s"

definition edu_check_alive :: "hw \<Rightarrow> pci_edu_dev \<Rightarrow> 'a edu_state_scheme \<Rightarrow> bool \<times> 'a edu_state_scheme" where
  "edu_check_alive hw dev s =
     (let s = edu_reg_writel dev EDU_REG_ALIVE (live_count s) s;
          s = s\<lparr>live_count := live_count s + 1\<rparr>;
          (value, s) = edu_reg_readl hw dev EDU_REG_ALIVE s
      in (live_count s - 1 = NOT value, s))"

definition edu_init :: "hw \<Rightarrow> 'a edu_state_scheme \<Rightarrow> (pci_edu_dev option \<times> 'a edu_state_scheme) option" where
  "edu_init hw s = do {
     let (dev_addr, s) = pci_find_dev hw PCI_VENDOR_ID_QEMU PCI_DEVICE_ID_EDU s;
     if dev_addr = PCIDEVADDR_INVALID then Some (None, s)
     else do {
       (pd, s) \<leftarrow> pci_dev_init hw dev_addr s;
       (pd, s) \<leftarrow> pci_enable_defaults hw pd s;
       (base, s) \<leftarrow> ioremap (resource pd ! EDU_BAR) PAGE_SIZE s;
       let dev = \<lparr>edu_pci_dev = pd, reg_base = base\<rparr>;
       let (alive, s) = edu_check_alive hw dev s;
       c_assert alive;
       Some (Some dev, s) } }"

text \<open>\<^verbatim>\<open>while (edu_reg_readl(dev, EDU_REG_DMA_CMD) & EDU_CMD_DMA_START) cpu_relax();\<close>\<close>

partial_function (option) edu_dma_wait :: "hw \<Rightarrow> pci_edu_dev \<Rightarrow> 'a cpu_state_scheme \<Rightarrow> 'a cpu_state_scheme option" where
  "edu_dma_wait hw dev s =
     (let (v, s) = edu_reg_readl hw dev EDU_REG_DMA_CMD s
      in if v AND EDU_CMD_DMA_START \<noteq> 0 then edu_dma_wait hw dev s else Some s)"

definition edu_dma :: "hw \<Rightarrow> pci_edu_dev \<Rightarrow> u64 \<Rightarrow> u64 \<Rightarrow> u32 \<Rightarrow> bool \<Rightarrow> 'a cpu_state_scheme \<Rightarrow> 'a cpu_state_scheme option" where
  "edu_dma hw dev iova sz dev_offset from_device s = do {
     let cmd = EDU_CMD_DMA_START;
     c_assert (sz \<le> ucast EDU_DMA_SIZE_MAX);
     c_assert (dev_offset < EDU_DMA_SIZE_MAX);
     let s = kprintf (''edu device DMA start %s addr %#lx size %lu off %#x'' @ NL)
       [PStr (if from_device then ''FROM'' else ''TO''), PNum iova, PNum sz, PNum (ucast dev_offset)] s;
     let (src, dst, cmd) =
       (if from_device then (ucast (dev_offset + EDU_DMA_START), iova, cmd OR EDU_CMD_DMA_FROM)
        else (iova, ucast (EDU_DMA_START + dev_offset), cmd OR EDU_CMD_DMA_TO));
     let s = edu_reg_writeq dev EDU_REG_DMA_SRC src s;
     let s = edu_reg_writeq dev EDU_REG_DMA_DST dst s;
     let s = edu_reg_writeq dev EDU_REG_DMA_COUNT sz s;
     let s = edu_reg_writel dev EDU_REG_DMA_CMD cmd s;
     edu_dma_wait hw dev s }"

section \<open>A transfer\<close>

text \<open>The device is busy for \<open>n\<close> reads of its command register.\<close>

definition busy_reads :: "hw \<Rightarrow> pci_edu_dev \<Rightarrow> ioev list \<Rightarrow> nat \<Rightarrow> bool" where
  "busy_reads hw dev tr n \<longleftrightarrow>
     (let e = MmioR 4 (reg_base dev + 0x98)
      in (\<forall>k<n. bit (hw (tr @ replicate k e) e) 0) \<and> \<not> bit (hw (tr @ replicate n e) e) 0)"

lemma and_one_u32: "(w::u32) AND 1 \<noteq> 0 \<longleftrightarrow> bit w 0"
  by (simp add: and_one_eq bit_0 odd_iff_mod_2_eq_one)

lemma edu_dma_wait_ok:
  "busy_reads hw dev (trace s) n \<Longrightarrow>
    edu_dma_wait hw dev s = Some (s\<lparr>trace := trace s @ replicate (Suc n) (MmioR 4 (reg_base dev + 0x98))\<rparr>)"
proof (induction n arbitrary: s)
  case 0
  then show ?case
    by (subst edu_dma_wait.simps) (simp add: edu_reg_readl_def raw_readl_def hw_read_def edu_reg_def EDU_REG_DMA_CMD_def busy_reads_def
      EDU_CMD_DMA_START_def and_one_u32 Let_def bit_unsigned_iff)
next
  case (Suc n)
  let ?e = "MmioR 4 (reg_base dev + 0x98)"
  have b: "bit (hw (trace s) ?e) 0" using Suc.prems unfolding busy_reads_def Let_def by (metis append_Nil2 replicate_0 zero_less_Suc)
  have "busy_reads hw dev (trace s @ [?e]) n"
    using Suc.prems by (auto simp: busy_reads_def Let_def dest: spec[of _ "Suc _"])
  then have "edu_dma_wait hw dev (s\<lparr>trace := trace s @ [?e]\<rparr>) = Some (s\<lparr>trace := trace s @ [?e] @ replicate (Suc n) ?e\<rparr>)"
    using Suc.IH[of "s\<lparr>trace := trace s @ [?e]\<rparr>"] by simp
  then show ?case using b
    by (subst edu_dma_wait.simps) (simp add: edu_reg_readl_def raw_readl_def hw_read_def edu_reg_def EDU_REG_DMA_CMD_def
      EDU_CMD_DMA_START_def and_one_u32 Let_def bit_unsigned_iff)
qed


definition dma_writes :: "pci_edu_dev \<Rightarrow> u64 \<Rightarrow> u64 \<Rightarrow> u32 \<Rightarrow> bool \<Rightarrow> ioev list" where
  "dma_writes dev iova sz off from_device =
     (let inside = 0x40000 + ucast off
      in [MmioW 8 (reg_base dev + 0x80) (if from_device then inside else iova), MmioW 8 (reg_base dev + 0x88) (if from_device then iova else inside),
          MmioW 8 (reg_base dev + 0x90) sz, MmioW 4 (reg_base dev + 0x98) (if from_device then 3 else 1)])"

text \<open>\<^verbatim>\<open>edu_dma\<close> refuses what is too large; otherwise it programs source, destination and count before the command, and
  returns once the device is no longer busy. Size and offset are checked one by one: a transfer may leave the
  buffer of the device.\<close>

theorem edu_dma_programs:
  assumes "busy_reads hw dev (trace s @ dma_writes dev iova sz off from_device) n"
  shows "if sz \<le> 4096 \<and> off < 4096
    then \<exists>c. edu_dma hw dev iova sz off from_device s = Some (s\<lparr>console := c,
        trace := trace s @ dma_writes dev iova sz off from_device @ replicate (Suc n) (MmioR 4 (reg_base dev + 0x98))\<rparr>)
    else edu_dma hw dev iova sz off from_device s = None"
proof (cases "sz \<le> 4096 \<and> off < 4096")
  case True
  then have "off < 4096" by simp
  then have o: "ucast (off + 0x40000) = (0x40000 + ucast off :: u64)" "ucast (0x40000 + off) = (0x40000 + ucast off :: u64)"
  proof -
    have "unat off < 4096" using \<open>off < 4096\<close> by (simp add: word_less_nat_alt)
    then have "unat (ucast (off + 0x40000) :: u64) = unat (0x40000 + ucast off :: u64)"
      by (simp add: unat_word_ariths unsigned_ucast_eq take_bit_nat_eq_self)
    then show "ucast (off + 0x40000) = (0x40000 + ucast off :: u64)" by (simp add: word_unat_eq_iff)
    then show "ucast (0x40000 + off) = (0x40000 + ucast off :: u64)" by (simp add: add.commute)
  qed
  let ?s = "kprintf (''edu device DMA start %s addr %#lx size %lu off %#x'' @ NL)
       [PStr (if from_device then ''FROM'' else ''TO''), PNum iova, PNum sz, PNum (ucast off)] s"
  let ?t = "?s\<lparr>trace := trace s @ dma_writes dev iova sz off from_device\<rparr>"
  have k: "trace (kprintf f a s) = trace s" for f a by (simp add: kprintf_def)
  have "edu_dma hw dev iova sz off from_device s = edu_dma_wait hw dev ?t"
    using True o by (simp add: edu_dma_def dma_writes_def edu_reg_writeq_def edu_reg_writel_def raw_writeq_def raw_writel_def hw_write_def
      edu_reg_def c_defs Let_def k)
  also have "\<dots> = Some (?t\<lparr>trace := trace ?t @ replicate (Suc n) (MmioR 4 (reg_base dev + 0x98))\<rparr>)"
    by (rule edu_dma_wait_ok) (use assms in simp)
  finally show ?thesis using True by (auto simp: kprintf_def)
next
  case False
  then show ?thesis by (auto simp: edu_dma_def c_defs)
qed

end
