(* ===== verification/Elf.thy ===== *)
theory Elf
  imports Strings Page_Alloc
begin

text \<open>
  \<^verbatim>\<open>lib/elf.c\<close> in the 64-bit build: finding symbols and sections of an ELF file in memory, loading its segments, and starting it with
  arguments, environment and auxiliary vector on a new stack. The system calls it makes are a parameter, and so is what
  a constructor of the program does. The fields of the structures of the format are read at their offsets.
\<close>

section \<open>The format\<close>

definition e_type :: "mem \<Rightarrow> u64 \<Rightarrow> u16" where "e_type m hdr = ld16 m (hdr + 16)"
definition e_entry :: "mem \<Rightarrow> u64 \<Rightarrow> u64" where "e_entry m hdr = ld64 m (hdr + 24)"
definition e_phoff :: "mem \<Rightarrow> u64 \<Rightarrow> u64" where "e_phoff m hdr = ld64 m (hdr + 32)"
definition e_shoff :: "mem \<Rightarrow> u64 \<Rightarrow> u64" where "e_shoff m hdr = ld64 m (hdr + 40)"
definition e_phnum :: "mem \<Rightarrow> u64 \<Rightarrow> nat" where "e_phnum m hdr = unat (ld16 m (hdr + 56))"
definition e_shnum :: "mem \<Rightarrow> u64 \<Rightarrow> nat" where "e_shnum m hdr = unat (ld16 m (hdr + 60))"
definition e_shstrndx :: "mem \<Rightarrow> u64 \<Rightarrow> nat" where "e_shstrndx m hdr = unat (ld16 m (hdr + 62))"

definition p_type :: "mem \<Rightarrow> u64 \<Rightarrow> u32" where "p_type m ph = ld32 m ph"
definition p_flags :: "mem \<Rightarrow> u64 \<Rightarrow> u32" where "p_flags m ph = ld32 m (ph + 4)"
definition p_offset :: "mem \<Rightarrow> u64 \<Rightarrow> u64" where "p_offset m ph = ld64 m (ph + 8)"
definition p_vaddr :: "mem \<Rightarrow> u64 \<Rightarrow> u64" where "p_vaddr m ph = ld64 m (ph + 16)"
definition p_filesz :: "mem \<Rightarrow> u64 \<Rightarrow> u64" where "p_filesz m ph = ld64 m (ph + 32)"
definition p_memsz :: "mem \<Rightarrow> u64 \<Rightarrow> u64" where "p_memsz m ph = ld64 m (ph + 40)"

definition sh_name :: "mem \<Rightarrow> u64 \<Rightarrow> u32" where "sh_name m sh = ld32 m sh"
definition sh_type :: "mem \<Rightarrow> u64 \<Rightarrow> u32" where "sh_type m sh = ld32 m (sh + 4)"
definition sh_addr :: "mem \<Rightarrow> u64 \<Rightarrow> u64" where "sh_addr m sh = ld64 m (sh + 16)"
definition sh_offset :: "mem \<Rightarrow> u64 \<Rightarrow> u64" where "sh_offset m sh = ld64 m (sh + 24)"
definition sh_size :: "mem \<Rightarrow> u64 \<Rightarrow> u64" where "sh_size m sh = ld64 m (sh + 32)"
definition sh_link :: "mem \<Rightarrow> u64 \<Rightarrow> nat" where "sh_link m sh = unat (ld32 m (sh + 40))"

definition st_name :: "mem \<Rightarrow> u64 \<Rightarrow> u32" where "st_name m e = ld32 m e"
definition st_value :: "mem \<Rightarrow> u64 \<Rightarrow> u64" where "st_value m e = ld64 m (e + 8)"

definition phdr_at :: "mem \<Rightarrow> u64 \<Rightarrow> nat \<Rightarrow> u64" where "phdr_at m elf x = elf + e_phoff m elf + 56 * of_nat x"
definition shdr_at :: "mem \<Rightarrow> u64 \<Rightarrow> nat \<Rightarrow> u64" where "shdr_at m elf x = elf + e_shoff m elf + 64 * of_nat x"

definition ET_DYN :: u16 where [c_defs]: "ET_DYN = 3"
definition PT_LOAD :: u32 where [c_defs]: "PT_LOAD = 1"
definition PT_INTERP :: u32 where [c_defs]: "PT_INTERP = 3"
definition PT_GNU_STACK :: u32 where [c_defs]: "PT_GNU_STACK = 0x6474e551"
definition PF_X :: u32 where [c_defs]: "PF_X = 1"
definition PF_W :: u32 where [c_defs]: "PF_W = 2"
definition PF_R :: u32 where [c_defs]: "PF_R = 4"
definition SHT_SYMTAB :: u32 where [c_defs]: "SHT_SYMTAB = 2"
definition PROT_READ :: u32 where [c_defs]: "PROT_READ = 1"
definition PROT_WRITE :: u32 where [c_defs]: "PROT_WRITE = 2"
definition PROT_EXEC :: u32 where [c_defs]: "PROT_EXEC = 4"
definition MAP_PRIVATE :: u32 where [c_defs]: "MAP_PRIVATE = 2"
definition MAP_FIXED :: u32 where [c_defs]: "MAP_FIXED = 0x10"
definition MAP_ANON :: u32 where [c_defs]: "MAP_ANON = 0x20"

definition STACK_SIZE :: u64 where [c_defs]: "STACK_SIZE = 8 * 1024 * 1024"
definition STACK_STORAGE_SIZE :: u64 where [c_defs]: "STACK_STORAGE_SIZE = 0x5000"
definition STACK_STRING_SIZE :: u64 where [c_defs]: "STACK_STRING_SIZE = 0x5000"

definition ROUND_UP :: "u64 \<Rightarrow> u64 \<Rightarrow> u64" where "ROUND_UP v sz = (v + sz - 1) AND - sz"
definition ROUND_DOWN :: "u64 \<Rightarrow> u64 \<Rightarrow> u64" where "ROUND_DOWN v sz = v AND - sz"

section \<open>The system\<close>

record 's elf_os =
  os_mmap :: "u64 \<Rightarrow> u64 \<Rightarrow> u32 \<Rightarrow> u32 \<Rightarrow> 's \<Rightarrow> u64 \<times> 's"
  os_munmap :: "u64 \<Rightarrow> u64 \<Rightarrow> 's \<Rightarrow> 's"
  os_mprotect :: "u64 \<Rightarrow> u64 \<Rightarrow> u32 \<Rightarrow> 's \<Rightarrow> 's"
  os_open :: "u64 \<Rightarrow> 's \<Rightarrow> u32 \<times> 's"
  os_seek_end :: "u32 \<Rightarrow> 's \<Rightarrow> u32 \<times> 's"
  os_seek_set :: "u32 \<Rightarrow> 's \<Rightarrow> 's"
  os_read :: "u32 \<Rightarrow> u64 \<Rightarrow> u64 \<Rightarrow> 's \<Rightarrow> 's"
  os_close :: "u32 \<Rightarrow> 's \<Rightarrow> 's"
  os_ids :: "'s \<Rightarrow> u64 \<times> u64 \<times> u64 \<times> u64"
  os_call :: "u64 \<Rightarrow> u64 \<Rightarrow> u64 \<Rightarrow> u64 \<Rightarrow> 's \<Rightarrow> 's"
  os_urandom_path :: u64
  os_rand_buf :: u64
  os_exit_func :: u64

section \<open>Sections and symbols\<close>

fun interp_loop :: "mem \<Rightarrow> u64 \<Rightarrow> nat list \<Rightarrow> u64" where
  "interp_loop m buf [] = 0"
| "interp_loop m buf (x # xs) =
     (if p_type m (phdr_at m buf x) = PT_INTERP then buf + p_offset m (phdr_at m buf x) else interp_loop m buf xs)"

definition get_interp :: "mem \<Rightarrow> u64 \<Rightarrow> u64" where
  "get_interp m buf = interp_loop m buf [0..<e_phnum m buf]"

fun section_loop :: "mem \<Rightarrow> u64 \<Rightarrow> u64 \<Rightarrow> u64 \<Rightarrow> nat list \<Rightarrow> u64" where
  "section_loop m name elf strtab [] = 0"
| "section_loop m name elf strtab (x # xs) =
     (if strcmp m name (strtab + ucast (sh_name m (shdr_at m elf x))) = 0 then shdr_at m elf x else section_loop m name elf strtab xs)"

definition get_section :: "mem \<Rightarrow> u64 \<Rightarrow> u64 \<Rightarrow> u64" where
  "get_section m name elf =
     section_loop m name elf (elf + sh_offset m (shdr_at m elf (e_shstrndx m elf))) [0..<e_shnum m elf]"

fun sym_loop :: "mem \<Rightarrow> u64 \<Rightarrow> u64 \<Rightarrow> u64 \<Rightarrow> nat list \<Rightarrow> u64 option" where
  "sym_loop m sym_name strings syms [] = None"
| "sym_loop m sym_name strings syms (y # ys) =
     (if strcmp m sym_name (strings + ucast (st_name m (syms + 24 * of_nat y))) = 0 then Some (st_value m (syms + 24 * of_nat y))
      else sym_loop m sym_name strings syms ys)"

fun elf_sym_loop :: "mem \<Rightarrow> u64 \<Rightarrow> u64 \<Rightarrow> nat list \<Rightarrow> u64" where
  "elf_sym_loop m elf sym_name [] = 0"
| "elf_sym_loop m elf sym_name (x # xs) =
     (let sh = shdr_at m elf x
      in if sh_type m sh = SHT_SYMTAB then
           (case sym_loop m sym_name (elf + sh_offset m (shdr_at m elf (sh_link m sh))) (elf + sh_offset m sh) [0..<unat (sh_size m sh div 24)] of
              Some v \<Rightarrow> v | None \<Rightarrow> elf_sym_loop m elf sym_name xs)
         else elf_sym_loop m elf sym_name xs)"

definition elf_sym :: "mem \<Rightarrow> u64 \<Rightarrow> u64 \<Rightarrow> u64" where
  "elf_sym m elf sym_name = elf_sym_loop m elf sym_name [0..<e_shnum m elf]"

section \<open>Loading\<close>

text \<open>The variables of \<^verbatim>\<open>elf_load\<close> that live across the rounds of its loop; \<^verbatim>\<open>*base_addr\<close> is always stored by the callers.\<close>

record elf_vars =
  elf_prot :: u32
  stack_prot :: u32
  base_addr :: u64

definition prot_bits :: "u32 \<Rightarrow> u32 \<Rightarrow> u32" where
  "prot_bits flags prot =
     (let prot = (if flags AND PF_R \<noteq> 0 then PROT_READ else prot);
          prot = (if flags AND PF_W \<noteq> 0 then prot OR PROT_WRITE else prot)
      in if flags AND PF_X \<noteq> 0 then prot OR PROT_EXEC else prot)"

definition elf_load_stack :: "'a mstate_scheme elf_os \<Rightarrow> u64 \<Rightarrow> u32 \<Rightarrow> u64 \<Rightarrow> elf_vars \<Rightarrow> 'a mstate_scheme \<Rightarrow> elf_vars \<times> 'a mstate_scheme" where
  "elf_load_stack os stack stack_size ph v s =
     (if stack \<noteq> 0 \<and> p_type (mem s) ph = PT_GNU_STACK then
        let v = v\<lparr>stack_prot := prot_bits (p_flags (mem s) ph) (stack_prot v)\<rparr>
        in (v, os_mprotect os stack (scast stack_size) (stack_prot v) s)
      else (v, s))"

definition elf_load_segment :: "'a mstate_scheme elf_os \<Rightarrow> u64 \<Rightarrow> u64 \<Rightarrow> u64 \<Rightarrow> elf_vars \<Rightarrow> 'a mstate_scheme \<Rightarrow> elf_vars \<times> 'a mstate_scheme" where
  "elf_load_segment os elf base ph v s =
     (let map_start = ROUND_DOWN (p_vaddr (mem s) ph) PAGE_SIZE;
          round_down_size = (ucast (p_vaddr (mem s) ph - map_start) :: u32);
          map_size = (ucast (ROUND_UP (p_memsz (mem s) ph + scast round_down_size) PAGE_SIZE) :: u32);
          (_, s) = os_mmap os (base + map_start) (scast map_size) (PROT_READ OR PROT_WRITE) (MAP_PRIVATE OR MAP_ANON OR MAP_FIXED) s;
          s = s\<lparr>mem := memcpy (base + p_vaddr (mem s) ph) (elf + p_offset (mem s) ph) (p_filesz (mem s) ph) (mem s)\<rparr>;
          s = (if p_memsz (mem s) ph > p_filesz (mem s) ph
               then s\<lparr>mem := memset (base + p_vaddr (mem s) ph + p_filesz (mem s) ph) 0 (p_memsz (mem s) ph - p_filesz (mem s) ph) (mem s)\<rparr>
               else s);
          v = v\<lparr>elf_prot := prot_bits (p_flags (mem s) ph) (elf_prot v)\<rparr>;
          s = os_mprotect os (base + map_start) (scast map_size) (elf_prot v) s
      in (if base_addr v = - 1 \<or> base_addr v > base + map_start then v\<lparr>base_addr := base + map_start\<rparr> else v, s))"

text \<open>\<^verbatim>\<open>cacheflush\<close> does nothing on this processor.\<close>

lemma unat_less_16: "unat (w::u16) < 65536"
  using unsigned_less[of w] by simp

lemma e_phnum_less: "x < e_phnum m elf \<Longrightarrow> x < 65536"
  using unat_less_16[of "ld16 m (elf + 56)"] by (simp add: e_phnum_def)

function elf_load_loop ::
  "'a mstate_scheme elf_os \<Rightarrow> u64 \<Rightarrow> u64 \<Rightarrow> u64 \<Rightarrow> u32 \<Rightarrow> u64 \<Rightarrow> nat \<Rightarrow> elf_vars \<Rightarrow> 'a mstate_scheme \<Rightarrow> elf_vars \<times> 'a mstate_scheme" where
  "elf_load_loop os elf phdr stack stack_size base x v s =
     (if x < e_phnum (mem s) elf then
        let ph = phdr + 56 * of_nat x;
            (v, s) = elf_load_stack os stack stack_size ph v s
        in if p_type (mem s) ph \<noteq> PT_LOAD then elf_load_loop os elf phdr stack stack_size base (x + 1) v s
           else if p_filesz (mem s) ph = 0 then elf_load_loop os elf phdr stack stack_size base (x + 1) v s
           else let (v, s) = elf_load_segment os elf base ph v s
                in elf_load_loop os elf phdr stack stack_size base (x + 1) v s
      else (v, s))"
  by pat_completeness auto
termination
  by (relation "measure (\<lambda>(os, elf, phdr, stack, stack_size, base, x, v, s). 65536 - x)") (auto dest: e_phnum_less)

declare elf_load_loop.simps [simp del]

text \<open>Where a file that can be loaded anywhere goes: an address the system had free.\<close>

definition elf_load_base :: "'a mstate_scheme elf_os \<Rightarrow> u64 \<Rightarrow> 'a mstate_scheme \<Rightarrow> u64 \<times> 'a mstate_scheme" where
  "elf_load_base os elf s =
     (if e_type (mem s) elf = ET_DYN then
        let (base, s) = os_mmap os 0 (100 * PAGE_SIZE) (PROT_READ OR PROT_WRITE) (MAP_PRIVATE OR MAP_ANON) s
        in (base, os_munmap os base (100 * PAGE_SIZE) s)
      else (0, s))"

text \<open>The result: \<^verbatim>\<open>*base_addr\<close>, \<^verbatim>\<open>*entry\<close>, the state.\<close>

definition elf_load :: "'a mstate_scheme elf_os \<Rightarrow> u64 \<Rightarrow> u64 \<Rightarrow> u32 \<Rightarrow> 'a mstate_scheme \<Rightarrow> u64 \<times> u64 \<times> 'a mstate_scheme" where
  "elf_load os elf stack stack_size s =
     (let phdr = elf + e_phoff (mem s) elf;
          (base, s) = elf_load_base os elf s;
          entry = base + e_entry (mem s) elf;
          (v, s) = elf_load_loop os elf phdr stack stack_size base 0 \<lparr>elf_prot = 0, stack_prot = 0, base_addr = - 1\<rparr> s
      in (base_addr v, entry, s))"


section \<open>Starting\<close>

partial_function (option) count_ptrs :: "mem \<Rightarrow> u64 \<Rightarrow> nat \<Rightarrow> nat option" where
  "count_ptrs m a n = (if ld64 m (a + 8 * of_nat n) \<noteq> 0 then count_ptrs m a (n + 1) else Some n)"

text \<open>\<^verbatim>\<open>_get_rand\<close>\<close>

definition get_rand :: "'s elf_os \<Rightarrow> u64 \<Rightarrow> u32 \<Rightarrow> 's \<Rightarrow> 's" where
  "get_rand os buf sz s =
     (let (fd, s) = os_open os (os_urandom_path os) s;
          s = os_read os fd buf (scast sz) s
      in os_close os fd s)"

text \<open>The loop that copies the strings of \<^verbatim>\<open>argv\<close> or \<^verbatim>\<open>env\<close> to the string storage and points the slots at \<open>slots\<close> to them:
  \<open>str_ptr\<close> is the offset of the next string.\<close>

fun copy_strings :: "u64 \<Rightarrow> u64 \<Rightarrow> u64 \<Rightarrow> nat list \<Rightarrow> u32 \<Rightarrow> mem \<Rightarrow> (u32 \<times> mem) option" where
  "copy_strings storage src slots [] str_ptr m = Some (str_ptr, m)"
| "copy_strings storage src slots (x # xs) str_ptr m = do {
     n \<leftarrow> strlen m (ld64 m (src + 8 * of_nat x));
     let str_len = (ucast (n + 1) :: u32);
     let m = memcpy (storage + scast str_ptr) (ld64 m (src + 8 * of_nat x)) (scast str_len) m;
     let m = st64 m (slots + 8 * of_nat x) (storage + scast str_ptr);
     copy_strings storage src slots xs (str_ptr + str_len) m }"

definition elf_load_interp :: "'a mstate_scheme elf_os \<Rightarrow> u64 \<Rightarrow> u64 \<Rightarrow> 'a mstate_scheme \<Rightarrow> u64 \<times> u64 \<times> 'a mstate_scheme" where
  "elf_load_interp os buf stack s =
     (let interp_name = get_interp (mem s) buf
      in if interp_name \<noteq> 0 then
           let (f, s) = os_open os interp_name s;
               (sz, s) = os_seek_end os f s;
               s = os_seek_set os f s;
               (elf_ld, s) = os_mmap os 0 (ROUND_UP (scast sz) PAGE_SIZE) (PROT_READ OR PROT_WRITE) (MAP_PRIVATE OR MAP_ANON) s;
               s = os_read os f elf_ld (scast sz) s;
               (interp_base, interp_entry, s) = elf_load os elf_ld stack (ucast STACK_SIZE) s
           in (interp_base, interp_entry, os_munmap os elf_ld (ROUND_UP (scast sz) PAGE_SIZE) s)
         else (0, 0, s))"

partial_function (option) run_init_array ::
  "'a mstate_scheme elf_os \<Rightarrow> u64 \<Rightarrow> u64 \<Rightarrow> u64 \<Rightarrow> u64 \<Rightarrow> u64 \<Rightarrow> nat \<Rightarrow> 'a mstate_scheme \<Rightarrow> 'a mstate_scheme option" where
  "run_init_array os base init_array argc argv env x s =
     (if of_nat x < sh_size (mem s) init_array div 8 then
        let fn = base + ld64 (mem s) (base + sh_addr (mem s) init_array + of_nat x * 8)
        in run_init_array os base init_array argc argv env (x + 1) (os_call os fn argc argv env s)
      else Some s)"

fun store_auxv :: "u64 \<Rightarrow> (u64 \<times> u64) list \<Rightarrow> mem \<Rightarrow> mem" where
  "store_auxv a [] m = m"
| "store_auxv a ((k, v) # xs) m = store_auxv (a + 16) xs (st64 (st64 m a k) (a + 8) v)"

definition auxv :: "mem \<Rightarrow> u64 \<Rightarrow> u64 \<Rightarrow> u64 \<Rightarrow> u64 \<Rightarrow> u64 \<times> u64 \<times> u64 \<times> u64 \<Rightarrow> u64 \<Rightarrow> (u64 \<times> u64) list" where
  "auxv m buf elf_base interp_base elf_entry ids rand_bytes =
     (case ids of (uid, euid, gid, egid) \<Rightarrow>
     [(3, elf_base + e_phoff m buf), (4, 56), (5, of_nat (e_phnum m buf)), (6, PAGE_SIZE), (7, interp_base), (8, 0), (9, elf_entry),
      (11, uid), (12, euid), (13, gid), (14, egid), (25, rand_bytes), (0, 0)])"

text \<open>What \<^verbatim>\<open>jump_start\<close> sets: stack pointer, the register with the exit function, and where it jumps.\<close>

record 's elf_jump =
  jump_rsp :: u64
  jump_rdx :: u64
  jump_to :: u64
  jump_state :: 's

definition jump_start :: "u64 \<Rightarrow> u64 \<Rightarrow> u64 \<Rightarrow> 's \<Rightarrow> 's elf_jump" where
  "jump_start init exit_func entry s = \<lparr>jump_rsp = init, jump_rdx = exit_func, jump_to = entry, jump_state = s\<rparr>"

definition elf_run ::
  "'a mstate_scheme elf_os \<Rightarrow> u64 \<Rightarrow> u64 \<Rightarrow> u64 \<Rightarrow> u64 \<Rightarrow> u64 \<Rightarrow> 'a mstate_scheme \<Rightarrow> 'a mstate_scheme elf_jump option" where
  "elf_run os init_name init_array_name buf argv env s = do {
     let s = get_rand os (os_rand_buf os) 16 s;
     argc \<leftarrow> count_ptrs (mem s) argv 0;
     envc \<leftarrow> count_ptrs (mem s) env 0;
     let (stack, s) = os_mmap os 0 STACK_SIZE (PROT_READ OR PROT_WRITE OR PROT_EXEC) (MAP_PRIVATE OR MAP_ANON) s;
     let (elf_base, elf_entry, s) = elf_load os buf stack (ucast STACK_SIZE) s;
     let (interp_base, interp_entry, s) = elf_load_interp os buf stack s;
     let s = s\<lparr>mem := memset stack 0 STACK_STORAGE_SIZE (mem s)\<rparr>;
     let stack_storage = stack + STACK_SIZE - STACK_STORAGE_SIZE - STACK_STRING_SIZE;
     let string_storage = stack + STACK_SIZE - STACK_STRING_SIZE;
     let s = s\<lparr>mem := st64 (mem s) stack_storage (of_nat argc)\<rparr>;
     (str_ptr, m) \<leftarrow> copy_strings string_storage argv (stack_storage + 8) [0..<argc] 0 (mem s);
     let stack_ptr = 1 + argc;
     let m = st64 m (stack_storage + 8 * of_nat stack_ptr) 0;
     let stack_ptr = stack_ptr + 1;
     (str_ptr, m) \<leftarrow> copy_strings string_storage env (stack_storage + 8 * of_nat stack_ptr) [0..<envc] str_ptr m;
     let stack_ptr = stack_ptr + envc;
     let m = st64 m (stack_storage + 8 * of_nat stack_ptr) 0;
     let stack_ptr = stack_ptr + 1;
     let s = s\<lparr>mem := m\<rparr>;
     let init = get_section (mem s) init_name buf;
     let init_array = get_section (mem s) init_array_name buf;
     let base = (if e_type (mem s) buf = ET_DYN then elf_base else 0);
     let s = (if init \<noteq> 0 then os_call os (base + sh_addr (mem s) init) (of_nat argc) argv env s else s);
     s \<leftarrow> (if init_array \<noteq> 0 then run_init_array os base init_array (of_nat argc) argv env 0 s else Some s);
     let s = s\<lparr>mem := store_auxv (stack_storage + 8 * of_nat stack_ptr)
       (auxv (mem s) buf elf_base interp_base elf_entry (os_ids os s) (os_rand_buf os)) (mem s)\<rparr>;
     if interp_entry \<noteq> 0 then Some (jump_start stack_storage (os_exit_func os) interp_entry s)
     else Some (jump_start stack_storage (os_exit_func os) elf_entry s) }"

end
