(* ===== verification/Elf_Props.thy ===== *)
theory Elf_Props
  imports Elf Env_Props
begin

text \<open>
  Loading an ELF file puts its segments where their headers say.
\<close>

section \<open>Pages\<close>

lemma neg_page: "(- 4096 :: u64) = NOT (mask 12)"
  by (simp add: mask_eq_exp_minus_1)

lemma unat_ROUND_DOWN: "unat (ROUND_DOWN v 4096) = unat v div 4096 * 4096"
  unfolding ROUND_DOWN_def neg_page unat_and_not_mask by simp

lemma unat_ROUND_UP: "unat v + 4096 \<le> 2 ^ 64 \<Longrightarrow> unat (ROUND_UP v 4096) = (unat v + 4095) div 4096 * 4096"
proof -
  assume "unat v + 4096 \<le> 2 ^ 64"
  then have "unat (v + 4096 - 1) = unat v + 4095" by (simp add: unat_word_ariths)
  then show ?thesis unfolding ROUND_UP_def neg_page unat_and_not_mask by simp
qed

section \<open>The segments of a file\<close>

text \<open>The fields of header \<open>i\<close> of the table at \<open>phdr\<close>.\<close>

definition seg_loads :: "mem \<Rightarrow> u64 \<Rightarrow> bool" where
  "seg_loads m ph \<longleftrightarrow> p_type m ph = PT_LOAD \<and> p_filesz m ph \<noteq> 0"

definition seg_start :: "mem \<Rightarrow> u64 \<Rightarrow> u64 \<Rightarrow> u64" where
  "seg_start m base ph = base + ROUND_DOWN (p_vaddr m ph) 4096"

definition seg_len :: "mem \<Rightarrow> u64 \<Rightarrow> nat" where
  "seg_len m ph = (unat (p_memsz m ph) + unat (p_vaddr m ph) mod 4096 + 4095) div 4096 * 4096"

text \<open>A segment that fits: its bytes are in the file of \<open>flen\<close> bytes at \<open>elf\<close>, its pages elsewhere.\<close>

definition seg_fits :: "mem \<Rightarrow> u64 \<Rightarrow> nat \<Rightarrow> u64 \<Rightarrow> u64 \<Rightarrow> bool" where
  "seg_fits m elf flen base ph \<longleftrightarrow>
     unat (p_filesz m ph) \<le> unat (p_memsz m ph) \<and> unat (p_memsz m ph) < 2 ^ 30 \<and>
     unat base + unat (p_vaddr m ph) + 2 ^ 31 < 2 ^ 64 \<and>
     unat (p_offset m ph) + unat (p_filesz m ph) \<le> flen \<and> apart (seg_start m base ph) (seg_len m ph) elf flen"

text \<open>The memory of a segment after loading: file contents, then zeros.\<close>

definition seg_byte :: "mem \<Rightarrow> u64 \<Rightarrow> u64 \<Rightarrow> u64 \<Rightarrow> u64 \<Rightarrow> u8" where
  "seg_byte m elf base ph x =
     (if within (base + p_vaddr m ph) (unat (p_filesz m ph)) x then m (elf + p_offset m ph + (x - (base + p_vaddr m ph))) else 0)"

text \<open>What the code relies on from the system: a fixed anonymous mapping is zeroed memory at its address; changing the
  protection keeps the contents.\<close>

definition elf_os_ok :: "'a mstate_scheme elf_os \<Rightarrow> bool" where
  "elf_os_ok os \<longleftrightarrow>
     (\<forall>a n p s x. mem (snd (os_mmap os a n p (MAP_PRIVATE OR MAP_ANON OR MAP_FIXED) s)) x = (if within a (unat n) x then 0 else mem s x)) \<and>
     (\<forall>a n p s. mem (os_mprotect os a n p s) = mem s)"

lemma of_nat_unat_id: "of_nat (unat (w::u64)) = w"
  by simp

lemma scast_small:
  assumes "unat (w::u64) < 2 ^ 31"
  shows "(scast (ucast w :: u32) :: u64) = w"
proof -
  have "unat (drop_bit 31 w) = 0" using assms by (simp add: unat_drop_bit)
  then have "drop_bit 31 w = 0" by (simp add: unat_eq_zero)
  note hb = high_bit[OF this]
  show ?thesis
  proof (rule bit_word_eqI)
    fix n assume "n < LENGTH(64)"
    then show "bit (scast (ucast w :: u32) :: u64) n = bit w n"
      using hb[of n] hb[of 31] by (cases "n < 31") (auto simp: bit_signed_iff bit_unsigned_iff min_def)
  qed
qed

lemma seg_arith:
  assumes "seg_fits m elf flen base ph"
  shows "(scast (ucast (ROUND_UP (p_memsz m ph + scast (ucast (p_vaddr m ph - ROUND_DOWN (p_vaddr m ph) 4096) :: u32)) 4096) :: u32) :: u64)
      = of_nat (seg_len m ph)" (is "?l = _")
    "seg_len m ph < 2 ^ 31" "unat (seg_start m base ph) = unat base + unat (p_vaddr m ph) div 4096 * 4096"
    "unat (base + p_vaddr m ph) = unat base + unat (p_vaddr m ph)"
    "unat (p_vaddr m ph) mod 4096 + unat (p_memsz m ph) \<le> seg_len m ph"
proof -
  let ?v = "p_vaddr m ph" and ?n = "p_memsz m ph"
  note f = assms[unfolded seg_fits_def]
  have d: "unat (?v - ROUND_DOWN ?v 4096) = unat ?v mod 4096"
    using unat_ROUND_DOWN[of ?v] by (subst unat_sub) (simp_all add: word_le_nat_alt minus_div_mult_eq_mod)
  note small = scast_small
  show len: "seg_len m ph < 2 ^ 31" using f by (simp add: seg_len_def) linarith
  show "unat (seg_start m base ph) = unat base + unat ?v div 4096 * 4096"
  proof -
    have "unat ?v div 4096 * 4096 \<le> unat ?v" by (rule div_times_less_eq_dividend)
    then have "unat base + unat (ROUND_DOWN ?v 4096) < 2 ^ 64" unfolding unat_ROUND_DOWN using f by linarith
    then show ?thesis unfolding seg_start_def by (simp add: unat_add_nowrap unat_ROUND_DOWN)
  qed
  show "unat (base + ?v) = unat base + unat ?v" using f by (intro unat_add_nowrap) simp
  show "unat ?v mod 4096 + unat ?n \<le> seg_len m ph" unfolding seg_len_def by linarith
  show "?l = of_nat (seg_len m ph)"
  proof -
    have m: "unat (?v - ROUND_DOWN ?v 4096) < 2 ^ 31" using d by simp
    have "unat (?n + (?v - ROUND_DOWN ?v 4096)) = unat ?n + unat ?v mod 4096" using f d by (subst unat_add_nowrap) auto
    moreover have "unat (ROUND_UP (?n + (?v - ROUND_DOWN ?v 4096)) 4096) = seg_len m ph"
    proof -
      have "unat ?v mod 4096 < 4096" "unat ?n < 1073741824" using f by simp_all
      then have "unat (?n + (?v - ROUND_DOWN ?v 4096)) + 4096 \<le> 18446744073709551616" unfolding calculation by linarith
      then show ?thesis using calculation by (simp add: unat_ROUND_UP seg_len_def)
    qed
    ultimately show ?thesis using len small[OF m] small[of "ROUND_UP (?n + (?v - ROUND_DOWN ?v 4096)) 4096"]
      by (metis of_nat_unat_id)
  qed
qed


section \<open>One segment\<close>

text \<open>The bytes of the file.\<close>

definition same_file :: "u64 \<Rightarrow> nat \<Rightarrow> mem \<Rightarrow> mem \<Rightarrow> bool" where
  "same_file elf flen m m' \<longleftrightarrow> (\<forall>x. within elf flen x \<longrightarrow> m' x = m x)"

definition in_file :: "u64 \<Rightarrow> nat \<Rightarrow> u64 \<Rightarrow> nat \<Rightarrow> bool" where
  "in_file elf flen a n \<longleftrightarrow> unat elf + flen < 2 ^ 64 \<and> unat elf \<le> unat a \<and> unat a + n \<le> unat elf + flen"

lemma in_file_byte:
  assumes "same_file elf flen m m'" "in_file elf flen a n" "k < n"
  shows "m' (a + of_nat k) = m (a + of_nat k)"
proof -
  have "unat (a + of_nat k) = unat a + k" using assms(2,3) by (intro unat_plus) (simp add: in_file_def)
  then show ?thesis using assms by (simp add: same_file_def in_file_def within_def)
qed

lemma in_file_ld:
  assumes "same_file elf flen m m'" "in_file elf flen a n"
  shows "k + 8 \<le> n \<Longrightarrow> ld64 m' (a + of_nat k) = ld64 m (a + of_nat k)"
    "k + 4 \<le> n \<Longrightarrow> ld32 m' (a + of_nat k) = ld32 m (a + of_nat k)"
    "k + 2 \<le> n \<Longrightarrow> ld16 m' (a + of_nat k) = ld16 m (a + of_nat k)"
proof -
  note b = in_file_byte[OF assms]
  assume k: "k + 8 \<le> n"
  show "ld64 m' (a + of_nat k) = ld64 m (a + of_nat k)"
    using b[of k] b[of "k + 1"] b[of "k + 2"] b[of "k + 3"] b[of "k + 4"] b[of "k + 5"] b[of "k + 6"] b[of "k + 7"] k
    by (simp add: ld64_def ac_simps)
next
  note b = in_file_byte[OF assms]
  assume k: "k + 4 \<le> n"
  show "ld32 m' (a + of_nat k) = ld32 m (a + of_nat k)"
    using b[of k] b[of "k + 1"] b[of "k + 2"] b[of "k + 3"] k by (simp add: ld32_def ac_simps)
next
  note b = in_file_byte[OF assms]
  assume k: "k + 2 \<le> n"
  show "ld16 m' (a + of_nat k) = ld16 m (a + of_nat k)"
    using b[of k] b[of "k + 1"] k by (simp add: ld16_def ac_simps)
qed

lemma header_same:
  assumes "same_file elf flen m m'" "in_file elf flen ph 56"
  shows "p_type m' ph = p_type m ph" "p_offset m' ph = p_offset m ph" "p_vaddr m' ph = p_vaddr m ph"
    "p_filesz m' ph = p_filesz m ph" "p_memsz m' ph = p_memsz m ph" "p_flags m' ph = p_flags m ph"
  using in_file_ld(1)[OF assms, of 8] in_file_ld(1)[OF assms, of 16] in_file_ld(1)[OF assms, of 32] in_file_ld(1)[OF assms, of 40]
    in_file_ld(2)[OF assms, of 0] in_file_ld(2)[OF assms, of 4]
  by (simp_all add: p_type_def p_offset_def p_vaddr_def p_filesz_def p_memsz_def p_flags_def)

lemma within_sub: "unat a + unat n < 2 ^ 64 \<Longrightarrow> x - a < n \<longleftrightarrow> within a (unat n) x"
  unfolding within_def word_less_nat_alt using unat_lt_2_64[of x] by (auto simp: unat_sub_if' split: if_splits)

lemma elf_load_segment_ok:
  assumes "elf_os_ok os" "seg_fits (mem s) elf flen base ph" "in_file elf flen ph 56"
  shows "\<exists>v' s'. elf_load_segment os elf base ph v s = (v', s') \<and>
    (\<forall>x. mem s' x = (if within (seg_start (mem s) base ph) (seg_len (mem s) ph) x then seg_byte (mem s) elf base ph x else mem s x)) \<and>
    base_addr v' = (if base_addr v = - 1 \<or> seg_start (mem s) base ph < base_addr v then seg_start (mem s) base ph else base_addr v)"
proof -
  let ?m = "mem s" and ?st = "seg_start (mem s) base ph" and ?n = "seg_len (mem s) ph"
  let ?v = "p_vaddr ?m ph" and ?o = "p_offset ?m ph" and ?fs = "p_filesz ?m ph" and ?ms = "p_memsz ?m ph"
  note ar = seg_arith[OF assms(2)] and f = assms(2)[unfolded seg_fits_def] and fl = assms(3)[unfolded in_file_def]
  have un: "unat (of_nat ?n :: u64) = ?n" using ar(2) by (intro unat_of_nat64) simp
  define s1 where "s1 = snd (os_mmap os ?st (of_nat ?n) (PROT_READ OR PROT_WRITE) (MAP_PRIVATE OR MAP_ANON OR MAP_FIXED) s)"
  have m1: "mem s1 x = (if within ?st ?n x then 0 else ?m x)" for x
    using assms(1) un unfolding elf_os_ok_def s1_def by simp
  have k1: "same_file elf flen ?m (mem s1)" using f by (auto simp: same_file_def m1 within_def apart_def)
  note h1 = header_same[OF k1 assms(3)]
  let ?d = "base + ?v" and ?src = "elf + ?o"
  have usrc: "unat ?src = unat elf + unat ?o" using f fl by (intro unat_add_nowrap) simp
  define m2 where "m2 = memcpy ?d ?src ?fs (mem s1)"
  have dv: "unat ?st \<le> unat ?d" "unat ?d + unat ?ms \<le> unat ?st + ?n"
    using div_mult_mod_eq[of "unat ?v" 4096] ar(3-5) by linarith+
  have sep: "apart ?d (unat ?fs) ?src (unat ?fs)" using f usrc dv by (auto simp: apart_def)
  have m2: "m2 x = (if within ?d (unat ?fs) x then mem s1 (?src + (x - ?d)) else mem s1 x)" for x
    unfolding m2_def using sep f fl ar(4) usrc by (intro memcpy_apply) auto
  have src: "mem s1 (?src + (x - ?d)) = ?m (?src + (x - ?d))" if "within ?d (unat ?fs) x" for x
  proof -
    have "unat (x - ?d) < unat ?fs" using that by (auto simp: within_def unat_sub word_le_nat_alt)
    moreover from this have "unat (?src + (x - ?d)) = unat ?src + unat (x - ?d)" using f fl usrc by (intro unat_add_nowrap) auto
    ultimately show ?thesis using k1 f usrc by (auto simp: same_file_def within_def)
  qed
  have k2: "same_file elf flen ?m m2" using k1 f dv by (auto simp: same_file_def m2 within_def apart_def)
  note h2 = header_same[OF k2 assms(3)]
  let ?b = "?d + ?fs"
  have ub: "unat ?b = unat ?d + unat ?fs" using f ar(4) by (intro unat_add_nowrap) auto
  define m3 where "m3 = (if ?fs < ?ms then memset ?b 0 (?ms - ?fs) m2 else m2)"
  have m3: "m3 x = (if within ?st ?n x then seg_byte ?m elf base ph x else ?m x)" for x
  proof -
    have um: "unat (?ms - ?fs) = unat ?ms - unat ?fs" using f by (intro unat_sub) (simp add: word_le_nat_alt)
    have "x - ?b < ?ms - ?fs \<longleftrightarrow> within ?b (unat ?ms - unat ?fs) x"
      using within_sub[of ?b "?ms - ?fs" x] um ub f ar(4) by auto
    then have "m3 x = (if within ?b (unat ?ms - unat ?fs) x then 0 else m2 x)"
      by (cases "?fs < ?ms") (auto simp: m3_def memset_apply word_less_nat_alt within_def)
    moreover have "within ?d (unat ?fs) x \<Longrightarrow> within ?st ?n x" "within ?b (unat ?ms - unat ?fs) x \<Longrightarrow> within ?st ?n x"
      using dv ub f by (auto simp: within_def)
    moreover have "\<not> (within ?d (unat ?fs) x \<and> within ?b (unat ?ms - unat ?fs) x)" using ub by (auto simp: within_def)
    ultimately show ?thesis using m1[of x] m2[of x] src[of x] by (auto simp: seg_byte_def)
  qed
  define s3 where "s3 = s1\<lparr>mem := m3\<rparr>"
  have k3: "same_file elf flen ?m m3" using f by (auto simp: same_file_def m3 within_def apart_def)
  note h3 = header_same[OF k3 assms(3)]
  let ?p = "prot_bits (p_flags ?m ph) (elf_prot v)"
  have "elf_load_segment os elf base ph v s =
    (if base_addr v = - 1 \<or> base_addr v > ?st then v\<lparr>elf_prot := ?p, base_addr := ?st\<rparr> else v\<lparr>elf_prot := ?p\<rparr>,
     os_mprotect os ?st (of_nat ?n) ?p s3)"
    using h1 h2 h3 ar(1)
    by (cases "?fs < ?ms")
       (simp_all add: elf_load_segment_def Let_def split_def seg_start_def[symmetric] s1_def[symmetric] m2_def[symmetric] m3_def s3_def)
  moreover have "mem (os_mprotect os ?st (of_nat ?n) ?p s3) = m3" using assms(1) by (simp add: elf_os_ok_def s3_def)
  ultimately show ?thesis using m3 by auto
qed


section \<open>The whole file\<close>

lemma elf_load_stack_ok:
  assumes "elf_os_ok os"
  shows "\<exists>v' s'. elf_load_stack os stack sz ph v s = (v', s') \<and> mem s' = mem s \<and> base_addr v' = base_addr v"
  using assms by (auto simp: elf_load_stack_def elf_os_ok_def Let_def)

text \<open>All segments of the headers \<open>I\<close> loaded: what their pages hold, nothing else changed, and their lowest address.\<close>

definition segs_loaded :: "mem \<Rightarrow> u64 \<Rightarrow> u64 \<Rightarrow> u64 \<Rightarrow> nat set \<Rightarrow> mem \<Rightarrow> bool" where
  "segs_loaded m elf phdr base I m' \<longleftrightarrow>
     (\<forall>i\<in>I. seg_loads m (phdr + 56 * of_nat i) \<longrightarrow>
        (\<forall>x. within (seg_start m base (phdr + 56 * of_nat i)) (seg_len m (phdr + 56 * of_nat i)) x \<longrightarrow> m' x = seg_byte m elf base (phdr + 56 * of_nat i) x)) \<and>
     (\<forall>x. (\<forall>i\<in>I. seg_loads m (phdr + 56 * of_nat i) \<longrightarrow> \<not> within (seg_start m base (phdr + 56 * of_nat i)) (seg_len m (phdr + 56 * of_nat i)) x) \<longrightarrow> m' x = m x)"

text \<open>A file all of whose segments fit and keep apart.\<close>

definition elf_fits :: "mem \<Rightarrow> u64 \<Rightarrow> nat \<Rightarrow> u64 \<Rightarrow> u64 \<Rightarrow> bool" where
  "elf_fits m elf flen phdr base \<longleftrightarrow> in_file elf flen elf 64 \<and>
     (\<forall>i<e_phnum m elf. in_file elf flen (phdr + 56 * of_nat i) 56 \<and>
        (seg_loads m (phdr + 56 * of_nat i) \<longrightarrow> seg_fits m elf flen base (phdr + 56 * of_nat i))) \<and>
     (\<forall>i<e_phnum m elf. \<forall>j<e_phnum m elf. i \<noteq> j \<longrightarrow> seg_loads m (phdr + 56 * of_nat i) \<longrightarrow> seg_loads m (phdr + 56 * of_nat j) \<longrightarrow>
        apart (seg_start m base (phdr + 56 * of_nat i)) (seg_len m (phdr + 56 * of_nat i))
          (seg_start m base (phdr + 56 * of_nat j)) (seg_len m (phdr + 56 * of_nat j)))"

lemma segs_loaded_file:
  assumes "elf_fits m elf flen phdr base" "segs_loaded m elf phdr base {..<x} m'" "x \<le> e_phnum m elf"
  shows "same_file elf flen m m'"
  unfolding same_file_def
proof (intro allI impI)
  fix y assume y: "within elf flen y"
  have "\<not> within (seg_start m base (phdr + 56 * of_nat i)) (seg_len m (phdr + 56 * of_nat i)) y"
    if "i < x" "seg_loads m (phdr + 56 * of_nat i)" for i
  proof -
    have "seg_fits m elf flen base (phdr + 56 * of_nat i)" using assms(1,3) that by (simp add: elf_fits_def)
    then show ?thesis using y by (auto simp: seg_fits_def within_def apart_def)
  qed
  then show "m' y = m y" using assms(2) by (auto simp: segs_loaded_def)
qed

lemma seg_same:
  assumes "same_file elf flen m m'" "in_file elf flen ph 56"
  shows "seg_loads m' ph = seg_loads m ph" "seg_start m' base ph = seg_start m base ph" "seg_len m' ph = seg_len m ph"
    "seg_fits m' elf flen base ph = seg_fits m elf flen base ph"
  using header_same[OF assms] by (simp_all add: seg_loads_def seg_start_def seg_len_def seg_fits_def)

lemma seg_byte_same:
  assumes "same_file elf flen m m'" "in_file elf flen ph 56" "seg_fits m elf flen base ph"
  shows "seg_byte m' elf base ph x = seg_byte m elf base ph x"
proof -
  let ?d = "base + p_vaddr m ph" and ?src = "elf + p_offset m ph"
  have "m' (?src + (x - ?d)) = m (?src + (x - ?d))" if w: "within ?d (unat (p_filesz m ph)) x"
  proof -
    note f = assms(3)[unfolded seg_fits_def] and fl = assms(2)[unfolded in_file_def]
    have us: "unat ?src = unat elf + unat (p_offset m ph)" using f fl by (intro unat_add_nowrap) simp
    have d: "unat (x - ?d) < unat (p_filesz m ph)" using w by (auto simp: within_def unat_sub word_le_nat_alt)
    have "unat (?src + (x - ?d)) = unat ?src + unat (x - ?d)" using f fl us d by (intro unat_add_nowrap) auto
    then show ?thesis using assms(1) f us d by (auto simp: same_file_def within_def)
  qed
  then show ?thesis using header_same[OF assms(1,2)] by (auto simp: seg_byte_def)
qed

lemma segs_loaded_skip:
  assumes "segs_loaded m elf phdr base {..<x} m'" "\<not> seg_loads m (phdr + 56 * of_nat x)"
  shows "segs_loaded m elf phdr base {..<Suc x} m'"
  using assms by (auto simp: segs_loaded_def lessThan_Suc)

lemma segs_loaded_step:
  assumes "elf_fits m elf flen phdr base" "segs_loaded m elf phdr base {..<x} m1" "x < e_phnum m elf" "seg_loads m (phdr + 56 * of_nat x)"
    "\<forall>y. m2 y = (if within (seg_start m base (phdr + 56 * of_nat x)) (seg_len m (phdr + 56 * of_nat x)) y
       then seg_byte m elf base (phdr + 56 * of_nat x) y else m1 y)"
  shows "segs_loaded m elf phdr base {..<Suc x} m2"
proof -
  have ne: "\<not> within (seg_start m base (phdr + 56 * of_nat x)) (seg_len m (phdr + 56 * of_nat x)) y"
    if "i < x" "seg_loads m (phdr + 56 * of_nat i)" "within (seg_start m base (phdr + 56 * of_nat i)) (seg_len m (phdr + 56 * of_nat i)) y" for i y
  proof -
    have "apart (seg_start m base (phdr + 56 * of_nat i)) (seg_len m (phdr + 56 * of_nat i))
        (seg_start m base (phdr + 56 * of_nat x)) (seg_len m (phdr + 56 * of_nat x))"
      using assms(1,3,4) that(1,2) by (auto simp: elf_fits_def)
    then show ?thesis using that(3) by (auto simp: apart_def within_def)
  qed
  show ?thesis using assms(2,4,5) ne unfolding segs_loaded_def lessThan_Suc by auto
qed


text \<open>\<open>b\<close> is the lowest page loaded of the headers \<open>I\<close>, all ones when there is none.\<close>

definition lowest_page :: "mem \<Rightarrow> u64 \<Rightarrow> u64 \<Rightarrow> nat set \<Rightarrow> u64 \<Rightarrow> bool" where
  "lowest_page m phdr base I b \<longleftrightarrow>
     (\<forall>i\<in>I. seg_loads m (phdr + 56 * of_nat i) \<longrightarrow> b \<le> seg_start m base (phdr + 56 * of_nat i)) \<and>
     (b = - 1 \<or> (\<exists>i\<in>I. seg_loads m (phdr + 56 * of_nat i) \<and> b = seg_start m base (phdr + 56 * of_nat i)))"

lemma lowest_page_skip:
  "lowest_page m phdr base {..<x} b \<Longrightarrow> \<not> seg_loads m (phdr + 56 * of_nat x) \<Longrightarrow> lowest_page m phdr base {..<Suc x} b"
  by (auto simp: lowest_page_def lessThan_Suc)

lemma lowest_page_step:
  "lowest_page m phdr base {..<x} b \<Longrightarrow> seg_loads m (phdr + 56 * of_nat x) \<Longrightarrow>
    lowest_page m phdr base {..<Suc x} (if b = - 1 \<or> seg_start m base (phdr + 56 * of_nat x) < b then seg_start m base (phdr + 56 * of_nat x) else b)"
  using word_n1_ge[of "seg_start m base (phdr + 56 * of_nat x)"]
  by (auto simp: lowest_page_def lessThan_Suc not_less intro: order_trans[OF less_imp_le] order_trans)

lemma elf_load_loop_ok:
  assumes "elf_os_ok os" "elf_fits m elf flen phdr base" "x \<le> e_phnum m elf"
    "segs_loaded m elf phdr base {..<x} (mem s)" "lowest_page m phdr base {..<x} (base_addr v)"
  shows "\<exists>v' s'. elf_load_loop os elf phdr stack sz base x v s = (v', s') \<and> segs_loaded m elf phdr base {..<e_phnum m elf} (mem s') \<and>
    lowest_page m phdr base {..<e_phnum m elf} (base_addr v')"
  using assms(3-5)
proof (induction "e_phnum m elf - x" arbitrary: x v s)
  case 0
  have k: "same_file elf flen m (mem s)" using segs_loaded_file[OF assms(2) "0.prems"(2,1)] .
  have "e_phnum (mem s) elf = e_phnum m elf"
    using in_file_ld(3)[OF k, of elf 64 56] assms(2) by (simp add: e_phnum_def elf_fits_def)
  moreover have "x = e_phnum m elf" using 0 by simp
  ultimately show ?case using "0.prems" by (subst elf_load_loop.simps) simp
next
  case (Suc k)
  let ?n = "e_phnum m elf" and ?ph = "phdr + 56 * of_nat x"
  have x: "x < ?n" using Suc.hyps(2) by simp
  have k: "same_file elf flen m (mem s)" using segs_loaded_file[OF assms(2) Suc.prems(2,1)] .
  have n: "e_phnum (mem s) elf = ?n"
    using in_file_ld(3)[OF k, of elf 64 56] assms(2) by (simp add: e_phnum_def elf_fits_def)
  have ph: "in_file elf flen ?ph 56" using assms(2) x by (simp add: elf_fits_def)
  obtain v1 s1 where s1: "elf_load_stack os stack sz ?ph v s = (v1, s1)" "mem s1 = mem s" "base_addr v1 = base_addr v"
    using elf_load_stack_ok[OF assms(1)] by blast
  note sm = seg_same[OF k ph]
  show ?case
  proof (cases "seg_loads m ?ph")
    case False
    have "elf_load_loop os elf phdr stack sz base x v s = elf_load_loop os elf phdr stack sz base (Suc x) v1 s1"
      using False sm(1) s1 x n by (subst elf_load_loop.simps) (auto simp: seg_loads_def Let_def)
    moreover have "segs_loaded m elf phdr base {..<Suc x} (mem s1)" "lowest_page m phdr base {..<Suc x} (base_addr v1)"
      using segs_loaded_skip[OF Suc.prems(2) False] lowest_page_skip[OF Suc.prems(3) False] s1(2,3) by simp_all
    ultimately show ?thesis using Suc.hyps(1)[of "Suc x" s1 v1] Suc.hyps(2) x by simp
  next
    case True
    have fits: "seg_fits (mem s1) elf flen base ?ph" using assms(2) x True sm(4) s1(2) by (simp add: elf_fits_def)
    obtain v2 s2 where s2: "elf_load_segment os elf base ?ph v1 s1 = (v2, s2)"
        "\<forall>y. mem s2 y = (if within (seg_start (mem s1) base ?ph) (seg_len (mem s1) ?ph) y then seg_byte (mem s1) elf base ?ph y else mem s1 y)"
        "base_addr v2 = (if base_addr v1 = - 1 \<or> seg_start (mem s1) base ?ph < base_addr v1 then seg_start (mem s1) base ?ph else base_addr v1)"
      using elf_load_segment_ok[OF assms(1) fits ph, of v1] by blast
    have "\<forall>y. mem s2 y = (if within (seg_start m base ?ph) (seg_len m ?ph) y then seg_byte m elf base ?ph y else mem s y)"
      using s2(2) sm s1(2) seg_byte_same[OF k ph] fits by simp
    note l2 = segs_loaded_step[OF assms(2) Suc.prems(2) x True this]
    have b2: "lowest_page m phdr base {..<Suc x} (base_addr v2)"
      unfolding s2(3) s1(2,3) sm(2) by (rule lowest_page_step[OF Suc.prems(3) True])
    have "elf_load_loop os elf phdr stack sz base x v s = elf_load_loop os elf phdr stack sz base (Suc x) v2 s2"
      using True sm(1) s1 s2(1) x n by (subst elf_load_loop.simps) (auto simp: seg_loads_def Let_def)
    then show ?thesis using Suc.hyps(1)[of "Suc x" s2 v2] Suc.hyps(2) x l2 b2 by simp
  qed
qed

text \<open>C24: \<^verbatim>\<open>elf_load\<close> loads the file. When its segments fit and share no page, it returns with every segment that has contents
  in its place, file contents first and zeros up to the end of its last page, and no other byte changed; the entry
  point and the lowest page loaded are reported relative to the base chosen.\<close>

theorem elf_load_maps:
  assumes "elf_os_ok os" "elf_load_base os elf s = (base, s0)" "phdr = elf + e_phoff (mem s) elf" "elf_fits (mem s0) elf flen phdr base"
  shows "\<exists>low s'. elf_load os elf stack sz s = (low, base + e_entry (mem s0) elf, s') \<and>
    segs_loaded (mem s0) elf phdr base {..<e_phnum (mem s0) elf} (mem s') \<and>
    lowest_page (mem s0) phdr base {..<e_phnum (mem s0) elf} low"
proof -
  let ?v = "\<lparr>elf_prot = 0, stack_prot = 0, base_addr = - 1\<rparr>"
  have "segs_loaded (mem s0) elf phdr base {..<0} (mem s0)" "lowest_page (mem s0) phdr base {..<0} (base_addr ?v)"
    by (simp_all add: segs_loaded_def lowest_page_def)
  then obtain v' s' where "elf_load_loop os elf phdr stack sz base 0 ?v s0 = (v', s')"
      "segs_loaded (mem s0) elf phdr base {..<e_phnum (mem s0) elf} (mem s')" "lowest_page (mem s0) phdr base {..<e_phnum (mem s0) elf} (base_addr v')"
    using elf_load_loop_ok[OF assms(1,4) le0, of s0 ?v stack sz] by blast
  then show ?thesis using assms(2,3) by (auto simp: elf_load_def Let_def)
qed

text \<open>A file with one segment of four bytes at \<open>0x400078\<close>, on a system whose mappings are always at the address asked for.\<close>

definition elf_demo :: mstate where
  "elf_demo = \<lparr>mem = (\<lambda>_. 0)(0x1010 := 2, 0x1018 := 0x78, 0x101A := 0x40, 0x1020 := 64, 0x1038 := 1, 0x1040 := 1, 0x1044 := 5, 0x1048 := 0x78,
     0x1050 := 0x78, 0x1052 := 0x40, 0x1060 := 4, 0x1068 := 8, 0x1078 := 0x90, 0x1079 := 0x90, 0x107A := 0x90, 0x107B := 0xC3), console = []\<rparr>"

definition demo_os :: "mstate elf_os" where
  "demo_os = \<lparr>os_mmap = (\<lambda>a n p f s. (a, s\<lparr>mem := \<lambda>x. if within a (unat n) x then 0 else mem s x\<rparr>)), os_munmap = (\<lambda>a n s. s),
     os_mprotect = (\<lambda>a n p s. s), os_open = (\<lambda>a s. (3, s)), os_seek_end = (\<lambda>f s. (0, s)), os_seek_set = (\<lambda>f s. s), os_read = (\<lambda>f a n s. s),
     os_close = (\<lambda>f s. s), os_ids = (\<lambda>s. (0, 0, 0, 0)), os_call = (\<lambda>f a b c s. s), os_urandom_path = 0, os_rand_buf = 0, os_exit_func = 0\<rparr>"

lemma elf_demo_header:
  "e_type (mem elf_demo) 0x1000 = 2" "e_entry (mem elf_demo) 0x1000 = 0x400078" "e_phoff (mem elf_demo) 0x1000 = 64" "e_phnum (mem elf_demo) 0x1000 = 1"
  by (simp_all add: elf_demo_def e_type_def e_entry_def e_phoff_def e_phnum_def ld16_def ld64_def push_bit_eq_mult)

lemma elf_demo_segment:
  "p_type (mem elf_demo) 0x1040 = 1" "p_offset (mem elf_demo) 0x1040 = 0x78" "p_vaddr (mem elf_demo) 0x1040 = 0x400078"
  "p_filesz (mem elf_demo) 0x1040 = 4" "p_memsz (mem elf_demo) 0x1040 = 8"
  by (simp_all add: elf_demo_def p_type_def p_offset_def p_vaddr_def p_filesz_def p_memsz_def ld32_def ld64_def push_bit_eq_mult)

lemma elf_demo_place: "seg_loads (mem elf_demo) 0x1040" "seg_start (mem elf_demo) 0 0x1040 = 0x400000" "seg_len (mem elf_demo) 0x1040 = 4096"
  by (simp_all add: elf_demo_segment seg_loads_def PT_LOAD_def seg_start_def ROUND_DOWN_def seg_len_def)

lemma elf_demo_fits: "elf_fits (mem elf_demo) 0x1000 124 0x1040 0"
  by (simp add: elf_fits_def elf_demo_header in_file_def elf_demo_place seg_fits_def elf_demo_segment apart_def)

theorem elf_load_maps_witness:
  "\<exists>s'. elf_load demo_os 0x1000 0 0 elf_demo = (0x400000, 0x400078, s') \<and> mem s' 0x40007B = 0xC3 \<and> mem s' 0x40007C = 0 \<and> mem s' 0x1010 = 2"
proof -
  have os: "elf_os_ok demo_os" by (simp add: elf_os_ok_def demo_os_def)
  have b: "elf_load_base demo_os 0x1000 elf_demo = (0, elf_demo)" by (simp add: elf_load_base_def elf_demo_header ET_DYN_def)
  obtain low s' where s': "elf_load demo_os 0x1000 0 0 elf_demo = (low, 0x400078, s')"
      "segs_loaded (mem elf_demo) 0x1000 0x1040 0 {..<1} (mem s')" "lowest_page (mem elf_demo) 0x1040 0 {..<1} low"
    using elf_load_maps[OF os b _ elf_demo_fits, of 0 0] by (auto simp: elf_demo_header)
  have "low \<le> 0x400000" "low = - 1 \<or> low = 0x400000" using s'(3) by (auto simp: lowest_page_def elf_demo_place lessThan_Suc)
  then have "low = 0x400000" by (auto simp: word_order.extremum_unique)
  moreover have "mem s' x = seg_byte (mem elf_demo) 0x1000 0 0x1040 x" if "within 0x400000 4096 x" for x
    using s'(2) that by (auto simp: segs_loaded_def elf_demo_place lessThan_Suc)
  moreover have "mem s' 0x1010 = mem elf_demo 0x1010" using s'(2) by (simp add: segs_loaded_def elf_demo_place lessThan_Suc within_def)
  moreover have "mem elf_demo 0x107B = 0xC3" "mem elf_demo 0x1010 = 2" by (simp_all add: elf_demo_def)
  ultimately show ?thesis using s'(1) by (simp add: within_def seg_byte_def elf_demo_segment)
qed

section \<open>Symbols\<close>

text \<open>The symbols of a file: where the name of each is and its value, in the order of its tables.\<close>

definition table_symbols :: "mem \<Rightarrow> u64 \<Rightarrow> nat \<Rightarrow> (u64 \<times> u64) list" where
  "table_symbols m elf x =
     (let sh = shdr_at m elf x
      in if sh_type m sh = SHT_SYMTAB then
           map (\<lambda>y. (elf + sh_offset m (shdr_at m elf (sh_link m sh)) + ucast (st_name m (elf + sh_offset m sh + 24 * of_nat y)),
                     st_value m (elf + sh_offset m sh + 24 * of_nat y))) [0..<unat (sh_size m sh div 24)]
         else [])"

lemma sym_loop_find:
  "sym_loop m name strings syms ys =
    map_option snd (find (\<lambda>(p, v). strcmp m name p = 0) (map (\<lambda>y. (strings + ucast (st_name m (syms + 24 * of_nat y)), st_value m (syms + 24 * of_nat y))) ys))"
  by (induction ys) auto

lemma find_append: "find P (xs @ ys) = (case find P xs of Some x \<Rightarrow> Some x | None \<Rightarrow> find P ys)"
  by (induction xs) auto

lemma elf_sym_loop_find:
  "elf_sym_loop m elf name xs = (case find (\<lambda>(p, v). strcmp m name p = 0) (concat (map (table_symbols m elf) xs)) of None \<Rightarrow> 0 | Some (p, v) \<Rightarrow> v)"
proof (induction xs)
  case (Cons x xs)
  then show ?case by (auto simp: table_symbols_def Let_def sym_loop_find find_append split: option.split)
qed simp

text \<open>\<^verbatim>\<open>elf_sym\<close> returns the value of the first symbol of that name, NULL when the file has none.\<close>

theorem elf_sym_correct:
  assumes "cstr m name nm" "\<forall>(p, v)\<in>set (concat (map (table_symbols m elf) [0..<e_shnum m elf])). cstr m p (names p)"
  shows "elf_sym m elf name =
    (case find (\<lambda>(p, v). names p = nm) (concat (map (table_symbols m elf) [0..<e_shnum m elf])) of None \<Rightarrow> 0 | Some (p, v) \<Rightarrow> v)"
proof -
  have "find (\<lambda>(p, v). strcmp m name p = 0) xs = find (\<lambda>(p, v). names p = nm) xs" if "\<forall>(p, v)\<in>set xs. cstr m p (names p)" for xs :: "(u64 \<times> u64) list"
    using that strcmp_cstr[OF assms(1)] by (induction xs) auto
  then show ?thesis using assms(2) by (simp add: elf_sym_def elf_sym_loop_find)
qed

end
