(* ===== verification/Spec2Isabelle.thy ===== *)
theory Spec2Isabelle
  imports Ept_Props X86_Vm_Props Page_Alloc_Props Vmx_Run Vmx_Init Strings Report Vmalloc Pci_Props Apic_Props Desc_Props Virt_Props Smp_Init Iommu_Props Env_Props Acpi Isr Usermode_Asm Pci_Edu Elf_Props
begin

text \<open>
  A verification library for the ASOR hypervisor (x86-64 build). The header is completed below as
  components are added.

  \<^item> \<open>Prelude\<close>, \<open>Memory\<close>: machine integers, assertions, locks, macros of \<^verbatim>\<open>lib/libcflat.h\<close>;
    byte memory with little-endian access, the log of \<^verbatim>\<open>printf\<close> calls.
  \<^item> \<open>Cstring\<close>: \<^verbatim>\<open>lib/string.c\<close>. \<open>Page_Alloc\<close>: \<^verbatim>\<open>lib/alloc_page.c\<close>.
  \<^item> \<open>Radix\<close>, \<open>Radix_Map\<close>: four-level tables in general.
  \<^item> \<open>Hw\<close>, \<open>Fwcfg\<close>, \<open>Vmx_State\<close>: processor, devices, VMCS.
  \<^item> \<open>Ept\<close>, \<open>X86_Vm\<close>: \<^verbatim>\<open>x86/ept.c\<close> and \<^verbatim>\<open>lib/x86/vm.c\<close>.
\<close>

end
